(* ===== verification/TkPrelude.thy ===== *)
theory TkPrelude
  imports Main "HOL-Library.Word"
begin

unbundle bit_operations_syntax

text \<open>
  Shared vocabulary of the TinKer development: how a C fragment that may trap is
  written (\<open>result\<close>), the checks that the C code makes implicitly or through
  \<^verbatim>\<open>assert\<close>, and the generic lemmas on results, words and lists that the
  component theories use.

  A C fragment that can stop the kernel returns a value of \<open>'a result\<close>: \<open>Inl\<close> of the
  reason why control does not come back, or \<open>Inr\<close> of the value. The reasons are a failed
  \<^verbatim>\<open>assert\<close>, a call of \<^verbatim>\<open>tk_exit\<close> with its code, a read or write
  outside an array, the use of a null pointer or of a pointer that does not point to what the
  code takes it for, a second \<^verbatim>\<open>free\<close> of a block, the value of a variable that was
  not set, a division by zero, and a loop that runs for ever.
\<close>

section \<open>Fragments that may stop the kernel\<close>

datatype fault =
    Assert_failed
  | Tk_exit "32 word"
  | Out_of_bounds
  | Null_deref
  | Wild_pointer
  | Double_free
  | Uninitialised
  | Div_by_zero
  | Hangs

type_synonym 'a result = "fault + 'a"

definition andThen :: "'a result \<Rightarrow> ('a \<Rightarrow> 'b result) \<Rightarrow> 'b result" where
  "andThen m f = (case m of Inl e \<Rightarrow> Inl e | Inr x \<Rightarrow> f x)"

text \<open>\<open>c_assert b m\<close> is \<^verbatim>\<open>assert(b); m\<close>, in a build without NDEBUG.\<close>

definition c_assert :: "bool \<Rightarrow> 'a result \<Rightarrow> 'a result" where
  "c_assert b m = (if b then m else Inl Assert_failed)"

text \<open>\<open>in_bounds b m\<close> is \<open>m\<close>, where the array access of \<open>m\<close> is inside the array when \<open>b\<close>.\<close>

definition in_bounds :: "bool \<Rightarrow> 'a result \<Rightarrow> 'a result" where
  "in_bounds b m = (if b then m else Inl Out_of_bounds)"

text \<open>
  A pointer into the heap of \<^verbatim>\<open>malloc\<close>: null, to a block with its contents, or
  to a block that was freed.
\<close>

datatype 'a buffer = Null | Live 'a | Freed

definition c_free :: "'a buffer \<Rightarrow> 'a buffer result" where
  "c_free b = (case b of Null \<Rightarrow> Inr Null | Live _ \<Rightarrow> Inr Freed | Freed \<Rightarrow> Inl Double_free)"

definition c_deref :: "'a buffer \<Rightarrow> ('a \<Rightarrow> 'b result) \<Rightarrow> 'b result" where
  "c_deref b f = (case b of Null \<Rightarrow> Inl Null_deref | Live x \<Rightarrow> f x | Freed \<Rightarrow> Inl Wild_pointer)"

lemma c_deref_simps [simp]:
  "c_deref Null f = Inl Null_deref" "c_deref (Live x) f = f x" "c_deref Freed f = Inl Wild_pointer"
  by (simp_all add: c_deref_def)

lemma c_free_simps [simp]:
  "c_free Null = Inr Null" "c_free (Live x) = Inr Freed" "c_free Freed = Inl Double_free"
  by (simp_all add: c_free_def)

named_theorems result_simps "rules that run a fragment"
named_theorems result_elims "inversion of a fragment that returned"

lemma andThen_Inl [simp, result_simps]: "andThen (Inl e) f = Inl e"
  by (simp add: andThen_def)

lemma andThen_Inr [simp, result_simps]: "andThen (Inr x) f = f x"
  by (simp add: andThen_def)

lemma andThen_return [simp]: "andThen m Inr = m"
  by (simp add: andThen_def split: sum.split)

lemma c_assert_True [simp, result_simps]: "c_assert True m = m"
  by (simp add: c_assert_def)

lemma c_assert_False [simp, result_simps]: "c_assert False m = Inl Assert_failed"
  by (simp add: c_assert_def)

lemma in_bounds_True [simp, result_simps]: "in_bounds True m = m"
  by (simp add: in_bounds_def)

lemma in_bounds_False [simp, result_simps]: "in_bounds False m = Inl Out_of_bounds"
  by (simp add: in_bounds_def)

lemma andThen_eq_Inr [result_elims]:
  "andThen m f = Inr y \<longleftrightarrow> (\<exists>x. m = Inr x \<and> f x = Inr y)"
  by (cases m) auto

lemma c_assert_eq_Inr [result_elims]: "c_assert b m = Inr y \<longleftrightarrow> b \<and> m = Inr y"
  by (simp add: c_assert_def)

lemma in_bounds_eq_Inr [result_elims]: "in_bounds b m = Inr y \<longleftrightarrow> b \<and> m = Inr y"
  by (simp add: in_bounds_def)

lemma c_deref_eq_Inr [result_elims]: "c_deref b f = Inr y \<longleftrightarrow> (\<exists>x. b = Live x \<and> f x = Inr y)"
  by (cases b) auto

lemma c_free_eq_Inr [result_elims]: "c_free b = Inr y \<longleftrightarrow> b \<noteq> Freed \<and> y = (if b = Null then Null else Freed)"
  by (cases b) auto

lemma andThen_assoc: "andThen (andThen m f) g = andThen m (\<lambda>x. andThen (f x) g)"
  by (cases m) auto

lemma andThen_cong [fundef_cong]:
  "m = m' \<Longrightarrow> (\<And>x. m' = Inr x \<Longrightarrow> f x = f' x) \<Longrightarrow> andThen m f = andThen m' f'"
  by (cases m') auto

lemma c_assert_cong [fundef_cong]:
  "b = b' \<Longrightarrow> (b' \<Longrightarrow> m = m') \<Longrightarrow> c_assert b m = c_assert b' m'"
  by (cases b') auto

lemma in_bounds_cong [fundef_cong]:
  "b = b' \<Longrightarrow> (b' \<Longrightarrow> m = m') \<Longrightarrow> in_bounds b m = in_bounds b' m'"
  by (cases b') auto

text \<open>A loop over a list of indices whose body may stop the kernel.\<close>

fun foldR :: "('i \<Rightarrow> 's \<Rightarrow> 's result) \<Rightarrow> 'i list \<Rightarrow> 's \<Rightarrow> 's result" where
  "foldR f [] s = Inr s"
| "foldR f (i # is) s = andThen (f i s) (foldR f is)"

lemma foldR_append: "foldR f (xs @ ys) s = andThen (foldR f xs s) (foldR f ys)"
proof (induction xs arbitrary: s)
  case (Cons x xs)
  then show ?case by (cases "f x s") simp_all
qed simp

text \<open>An invariant that every iteration keeps holds after the loop.\<close>

lemma foldR_invariant:
  assumes "foldR f is s = Inr s'" and "P s"
    and "\<And>i s s'. i \<in> set is \<Longrightarrow> P s \<Longrightarrow> f i s = Inr s' \<Longrightarrow> P s'"
  shows "P s'"
  using assms
proof (induction "is" arbitrary: s)
  case Nil
  then show ?case by simp
next
  case (Cons i "is")
  from Cons.prems(1) obtain s1 where s1: "f i s = Inr s1" "foldR f is s1 = Inr s'"
    by (auto simp: andThen_eq_Inr)
  have "P s1" by (rule Cons.prems(3) [OF _ Cons.prems(2) s1(1)]) simp
  then show ?case by (rule Cons.IH [OF s1(2)]) (rule Cons.prems(3), simp_all)
qed

text \<open>A loop whose iterations all return, under an invariant they keep, returns.\<close>

lemma foldR_total:
  assumes "P s" and "\<And>i s. i \<in> set is \<Longrightarrow> P s \<Longrightarrow> \<exists>s'. f i s = Inr s' \<and> P s'"
  shows "\<exists>s'. foldR f is s = Inr s' \<and> P s'"
  using assms
proof (induction "is" arbitrary: s)
  case Nil
  then show ?case by simp
next
  case (Cons i "is")
  from Cons.prems(2) [of i s] Cons.prems(1) obtain s1 where s1: "f i s = Inr s1" "P s1"
    by auto
  from Cons.IH [OF s1(2)] Cons.prems(2) obtain s2 where "foldR f is s1 = Inr s2" "P s2"
    by auto
  with s1 show ?case by auto
qed

section \<open>Flag words\<close>

text \<open>Setting and clearing flags in a word, as \<^verbatim>\<open>x | f\<close> and \<^verbatim>\<open>x & ~f\<close> do.\<close>

lemma clear_flags_disjoint:
  fixes x f g :: "'a::len word"
  assumes "g AND f = 0"
  shows "(x AND NOT f) AND g = x AND g"
proof (rule bit_word_eqI)
  fix n assume "n < LENGTH('a)"
  from assms have "\<not> bit (g AND f) n" by simp
  then have "\<not> (bit g n \<and> bit f n)" by (simp add: bit_simps)
  then show "bit ((x AND NOT f) AND g) n = bit (x AND g) n"
    using \<open>n < LENGTH('a)\<close> by (auto simp: bit_simps)
qed

lemma clear_flags_same:
  fixes x f g :: "'a::len word"
  assumes "g AND NOT f = 0"
  shows "(x AND NOT f) AND g = 0"
proof (rule bit_word_eqI)
  fix n assume n: "n < LENGTH('a)"
  from assms have "\<not> bit (g AND NOT f) n" by simp
  with n have "\<not> (bit g n \<and> \<not> bit f n)" by (simp add: bit_simps)
  with n show "bit ((x AND NOT f) AND g) n = bit (0 :: 'a word) n"
    by (auto simp: bit_simps)
qed

lemma set_flags_nonzero:
  fixes x f g :: "'a::len word"
  assumes "f AND g \<noteq> 0"
  shows "(x OR f) AND g \<noteq> 0"
proof
  assume z: "(x OR f) AND g = 0"
  have "f AND g = 0"
  proof (rule bit_word_eqI)
    fix n assume "n < LENGTH('a)"
    from z have "\<not> bit ((x OR f) AND g) n" by simp
    then show "bit (f AND g) n = bit (0 :: 'a word) n" by (auto simp: bit_simps)
  qed
  with assms show False by simp
qed

lemma set_then_clear:
  fixes x f g :: "'a::len word"
  assumes "f AND NOT g = 0"
  shows "(x OR f) AND NOT g = x AND NOT g"
proof (rule bit_word_eqI)
  fix n assume n: "n < LENGTH('a)"
  from assms have "\<not> bit (f AND NOT g) n" by simp
  with n show "bit ((x OR f) AND NOT g) n = bit (x AND NOT g) n"
    by (auto simp: bit_simps)
qed

section \<open>Lists\<close>

text \<open>The list without its element at a position: what a shift-down loop leaves.\<close>

definition drop_nth :: "nat \<Rightarrow> 'a list \<Rightarrow> 'a list" where
  "drop_nth i xs = take i xs @ drop (Suc i) xs"

lemma length_drop_nth [simp]: "i < length xs \<Longrightarrow> length (drop_nth i xs) = length xs - 1"
  by (simp add: drop_nth_def min_def)

lemma nth_drop_nth:
  "i < length xs \<Longrightarrow> j < length xs - 1 \<Longrightarrow>
     drop_nth i xs ! j = (if j < i then xs ! j else xs ! Suc j)"
  by (auto simp: drop_nth_def nth_append min_def)

lemma set_drop_nth_subset: "set (drop_nth i xs) \<subseteq> set xs"
  by (auto simp: drop_nth_def dest: in_set_takeD in_set_dropD)

lemma drop_nth_remove1:
  "distinct xs \<Longrightarrow> i < length xs \<Longrightarrow> drop_nth i xs = remove1 (xs ! i) xs"
proof (induction xs arbitrary: i)
  case Nil
  then show ?case by simp
next
  case (Cons x xs)
  show ?case
  proof (cases i)
    case 0
    then show ?thesis by (simp add: drop_nth_def)
  next
    case (Suc j)
    with Cons.prems have "j < length xs" "x \<noteq> xs ! j" by (auto simp: in_set_conv_nth)
    with Cons.IH [of j] Cons.prems Suc show ?thesis by (simp add: drop_nth_def)
  qed
qed

lemma set_drop_nth:
  "distinct xs \<Longrightarrow> i < length xs \<Longrightarrow> set (drop_nth i xs) = set xs - {xs ! i}"
  by (simp add: drop_nth_remove1)

lemma distinct_drop_nth: "distinct xs \<Longrightarrow> distinct (drop_nth i xs)"
  by (auto simp: drop_nth_def distinct_append set_take_disj_set_drop_if_distinct)

lemma map_upt_cong_nth: "(\<And>i. i < n \<Longrightarrow> f i = g i) \<Longrightarrow> map f [0..<n] = map g [0..<n]"
  by simp

lemma find_map: "find P (map f xs) = map_option f (find (P \<circ> f) xs)"
  by (induction xs) auto

end
