(* ===== verification/TkTypes.thy ===== *)
theory TkTypes
  imports TkPrelude
begin

text \<open>
  The kernel's data: the tuning constants, the enumerations and the structures of
  \<^verbatim>\<open>include/tk.h\<close> and \<^verbatim>\<open>src/implement_tk.h\<close>, and the
  global variables of \<^verbatim>\<open>src/tk.c\<close> and \<^verbatim>\<open>src/tk_switch.c\<close> as
  one record. The tuning is the one of the bare-metal port
  \<^verbatim>\<open>bsp/gnu_arm/tk_tuning.h\<close>; the proofs use only that every limit is positive
  (and, for the two rows a proof starts from, that there are at least two), so they carry
  over to the other ports.

  Integers: \<open>thid_t\<close> is \<open>int\<close> because the code stores \<^verbatim>\<open>-1\<close> in
  \<^verbatim>\<open>Gid\<close>; state words, trap codes and clock values are 32-bit words, because
  the code ORs, masks and wraps them; \<^verbatim>\<open>unsigned short\<close> counters are \<open>nat\<close>
  below \<open>2 ^ 16\<close> with the decrement written out. Plain \<^verbatim>\<open>int\<close> counters
  are mathematical integers (signed overflow has no defined behaviour in C).
\<close>

section \<open>Tuning\<close>

definition TK_MAX_THREADS :: nat where "TK_MAX_THREADS = 10"
definition TK_MAX_PRIO_LEVELS :: nat where "TK_MAX_PRIO_LEVELS = 16"
definition TK_MAX_THREADS_AT_PRIO :: nat where "TK_MAX_THREADS_AT_PRIO = 3"
definition TK_THREAD_NAME_LEN :: nat where "TK_THREAD_NAME_LEN = 23"
definition TK_MAX_BLOCKED_ON_Q :: nat where "TK_MAX_BLOCKED_ON_Q = TK_MAX_THREADS"
definition TK_MAX_NUM_Q :: nat where "TK_MAX_NUM_Q = 10"
definition TK_MINIMUM_STACK_SIZE :: nat where "TK_MINIMUM_STACK_SIZE = 768"
definition TK_NORMAL_STACK_SIZE :: nat where "TK_NORMAL_STACK_SIZE = 768"

lemmas tuning_defs = TK_MAX_THREADS_def TK_MAX_PRIO_LEVELS_def TK_MAX_THREADS_AT_PRIO_def
  TK_THREAD_NAME_LEN_def TK_MAX_BLOCKED_ON_Q_def TK_MAX_NUM_Q_def
  TK_MINIMUM_STACK_SIZE_def TK_NORMAL_STACK_SIZE_def

lemma tuning_pos [simp]:
  "0 < TK_MAX_THREADS" "0 < TK_MAX_PRIO_LEVELS" "0 < TK_MAX_THREADS_AT_PRIO"
  "0 < TK_MAX_BLOCKED_ON_Q" "0 < TK_MAX_NUM_Q"
  by (simp_all add: tuning_defs)

section \<open>Return and trap codes\<close>

text \<open>\<open>SCHED_ERROR_CODES\<close>, and the \<^verbatim>\<open>errno.h\<close> codes that the kernel returns.\<close>

definition TK_OK :: int where "TK_OK = 0"
definition TK_ERROR :: int where "TK_ERROR = 1"
definition ERR_OK :: int where "ERR_OK = TK_OK"

datatype errno_t = ESRCH | EINVAL | ENOMEM | EBUSY

text \<open>What \<^verbatim>\<open>tk_detach\<close> and \<^verbatim>\<open>tk_join\<close> return: zero or an errno code.\<close>

datatype rc_t = Rc_ok | Rc_errno errno_t

definition TC_ISA_ERR :: "32 word" where "TC_ISA_ERR = 0x8000"
definition TC_MAX_THREADS :: "32 word" where "TC_MAX_THREADS = 0x0001 OR TC_ISA_ERR"
definition TC_ERR_ASSERT :: "32 word" where "TC_ERR_ASSERT = 0x0002 OR TC_ISA_ERR"
definition TC_MAX_PRIO_LEVELS :: "32 word" where "TC_MAX_PRIO_LEVELS = 0x0004 OR TC_ISA_ERR"
definition TC_THREADS_AT_PRIO :: "32 word" where "TC_THREADS_AT_PRIO = 0x0040 OR TC_ISA_ERR"
definition TC_NAME_LEN :: "32 word" where "TC_NAME_LEN = 0x0100 OR TC_ISA_ERR"
definition TC_NOMEM :: "32 word" where "TC_NOMEM = 0x0200 OR TC_ISA_ERR"
definition TC_TCB_INVALID :: "32 word" where "TC_TCB_INVALID = 0x0400 OR TC_ISA_ERR"

lemmas trap_defs = TC_ISA_ERR_def TC_MAX_THREADS_def TC_ERR_ASSERT_def TC_MAX_PRIO_LEVELS_def
  TC_THREADS_AT_PRIO_def TC_NAME_LEN_def TC_NOMEM_def TC_TCB_INVALID_def

section \<open>Thread states\<close>

text \<open>
  \<open>PROCSTATE\<close> is used as a set of four flags: terminated-wait (T), sleeping (S),
  blocked on a queue (Q) and zombie (Z).
\<close>

type_synonym procstate = "32 word"
type_synonym clock_t = "32 word"

definition READY :: procstate where "READY = 0x00"
definition TERM_T :: procstate where "TERM_T = 0x01"
definition SLEEP :: procstate where "SLEEP = 0x02"
definition QUEUE :: procstate where "QUEUE = 0x04"
definition STATE_QS :: procstate where "STATE_QS = 0x06"
definition STATE_QST :: procstate where "STATE_QST = 0x07"
definition ZOMBI :: procstate where "ZOMBI = 0x08"

lemmas procstate_defs = READY_def TERM_T_def SLEEP_def QUEUE_def STATE_QS_def STATE_QST_def ZOMBI_def

definition has_flag :: "procstate \<Rightarrow> procstate \<Rightarrow> bool" where
  "has_flag s f \<longleftrightarrow> s AND f \<noteq> 0"

lemma has_flag_READY [simp]: "\<not> has_flag READY f"
  by (simp add: has_flag_def READY_def)

lemma has_flag_set [simp]: "has_flag (s OR TERM_T) TERM_T" "has_flag (s OR SLEEP) SLEEP"
  "has_flag (s OR QUEUE) QUEUE" "has_flag (s OR STATE_QS) SLEEP" "has_flag (s OR STATE_QS) QUEUE"
  unfolding has_flag_def
  by (rule set_flags_nonzero; simp add: procstate_defs)+

lemma set_flag_not_READY [simp]: "s OR TERM_T \<noteq> READY" "s OR SLEEP \<noteq> READY"
  "s OR QUEUE \<noteq> READY" "s OR STATE_QS \<noteq> READY"
  by (metis has_flag_READY has_flag_set)+

lemma has_flag_clear [simp]:
  "\<not> has_flag (s AND NOT STATE_QS) SLEEP" "\<not> has_flag (s AND NOT STATE_QS) QUEUE"
  "\<not> has_flag (s AND NOT STATE_QST) SLEEP" "\<not> has_flag (s AND NOT STATE_QST) QUEUE"
  "\<not> has_flag (s AND NOT STATE_QST) TERM_T" "\<not> has_flag (s AND NOT TERM_T) TERM_T"
  "\<not> has_flag (s AND NOT QUEUE) QUEUE"
  unfolding has_flag_def not_not
  by (rule clear_flags_same; simp add: procstate_defs)+

lemma has_flag_ZOMBI_clear [simp]:
  "has_flag (s AND NOT STATE_QS) ZOMBI = has_flag s ZOMBI"
  "has_flag (s AND NOT STATE_QST) ZOMBI = has_flag s ZOMBI"
  "has_flag (s AND NOT TERM_T) ZOMBI = has_flag s ZOMBI"
  "has_flag (s AND NOT QUEUE) ZOMBI = has_flag s ZOMBI"
  "has_flag (s AND NOT TERM_T) SLEEP = has_flag s SLEEP"
  "has_flag (s AND NOT STATE_QS) TERM_T = has_flag s TERM_T"
  "has_flag (s AND NOT QUEUE) TERM_T = has_flag s TERM_T"
  "has_flag (s AND NOT QUEUE) SLEEP = has_flag s SLEEP"
  unfolding has_flag_def
  by (subst clear_flags_disjoint; simp add: procstate_defs)+

lemma has_flag_ZOMBI [simp]: "has_flag ZOMBI ZOMBI"
  by (simp add: has_flag_def procstate_defs)

section \<open>Thread control blocks\<close>

type_synonym thid_t = int

datatype wakeE_t = E_NONE | E_CHILDDEATH | E_TIMER | E_ITC | E_ITC2
datatype bon_sel_t = BON_SCHED | BON_ITC | BON_PMUTEX | BON_SEMAPHORE | BON_PTIMER

text \<open>
  The union \<^verbatim>\<open>entity\<close> of \<open>bon_t\<close>: a null pointer, the address of a pool entry
  (named by its index), of an ITC object (its slot) or of a mutex (its address).
\<close>

datatype entity_t = Ent_null | Ent_tcb thid_t | Ent_itc nat | Ent_mutex nat

record bon_t =
  kind :: bon_sel_t
  entity :: entity_t

record tcb_t =
  Thid :: thid_t
  Gid :: thid_t
  noChilds :: int
  tname :: string
  valid :: bool
  state :: procstate
  bOnId :: bon_t
  t_errno :: int
  stack_begin :: nat
  stack_size :: nat
  stack_crc :: nat
  wakeuptime :: clock_t
  wakeupEvent :: wakeE_t
  retval :: int
  Prio :: nat
  Idx :: nat

record stat_t =
  procs_at_prio :: nat
  curr_idx :: nat

text \<open>\<^verbatim>\<open>unsigned short\<close> decrement.\<close>

definition ushort_dec :: "nat \<Rightarrow> nat" where
  "ushort_dec n = (if n = 0 then 65535 else n - 1)"

section \<open>The kernel's global state\<close>

text \<open>
  \<open>clock_now\<close> is what \<^verbatim>\<open>tk_clock()\<close> reads, \<open>live_stacks\<close> the stacks that
  \<^verbatim>\<open>stalloc\<close> has handed out and \<^verbatim>\<open>stalloc_free\<close> has not taken back.
  The record is extensible: the ITC and pthread components add their globals to it, and the
  scheduler's operations, typed on \<open>'a kern_scheme\<close>, act on the extended state.
\<close>

record kern =
  threadPool :: "thid_t \<Rightarrow> tcb_t"
  schedule :: "nat \<Rightarrow> nat \<Rightarrow> thid_t"
  roundrobin_prio_idxs :: "nat \<Rightarrow> stat_t"
  active_thread :: thid_t
  thread_to_run :: thid_t
  procs_in_use :: int
  proc_idx :: thid_t
  idle_Thid :: thid_t
  IntFlagCntr :: int
  npreempt :: int
  inpreempt :: nat
  outpreempt :: nat
  preemptlist :: "nat \<Rightarrow> thid_t"
  clock_now :: clock_t
  live_stacks :: "nat set"

abbreviation procs :: "'a kern_scheme \<Rightarrow> nat \<Rightarrow> nat" where
  "procs k p \<equiv> procs_at_prio (roundrobin_prio_idxs k p)"

abbreviation pool :: "'a kern_scheme \<Rightarrow> thid_t \<Rightarrow> tcb_t" where
  "pool k t \<equiv> threadPool k t"

text \<open>A thread id that indexes \<^verbatim>\<open>__tk_threadPool\<close>, and all of them in order.\<close>

definition in_pool :: "thid_t \<Rightarrow> bool" where
  "in_pool t \<longleftrightarrow> 0 \<le> t \<and> t < int TK_MAX_THREADS"

definition tids :: "thid_t list" where
  "tids = map int [0..<TK_MAX_THREADS]"

lemma set_tids [simp]: "set tids = {t. in_pool t}"
  by (auto simp: tids_def in_pool_def image_iff intro!: bexI [of _ "nat _"])

lemma distinct_tids [simp]: "distinct tids"
  by (simp add: tids_def distinct_map)

lemma finite_in_pool [simp]: "finite {t. in_pool t}"
  by (metis List.finite_set set_tids)

lemma in_pool_0 [simp]: "in_pool 0"
  by (simp add: in_pool_def)

lemma not_in_pool_neg [simp]: "\<not> in_pool (-1)"
  by (simp add: in_pool_def)

text \<open>Overwriting one control block.\<close>

definition upd_tcb :: "thid_t \<Rightarrow> (tcb_t \<Rightarrow> tcb_t) \<Rightarrow> 'a kern_scheme \<Rightarrow> 'a kern_scheme" where
  "upd_tcb t f k = k\<lparr>threadPool := (threadPool k)(t := f (threadPool k t))\<rparr>"

lemma upd_tcb_sel [simp]:
  "schedule (upd_tcb t f k) = schedule k"
  "roundrobin_prio_idxs (upd_tcb t f k) = roundrobin_prio_idxs k"
  "active_thread (upd_tcb t f k) = active_thread k"
  "thread_to_run (upd_tcb t f k) = thread_to_run k"
  "procs_in_use (upd_tcb t f k) = procs_in_use k"
  "proc_idx (upd_tcb t f k) = proc_idx k"
  "idle_Thid (upd_tcb t f k) = idle_Thid k"
  "IntFlagCntr (upd_tcb t f k) = IntFlagCntr k"
  "npreempt (upd_tcb t f k) = npreempt k"
  "inpreempt (upd_tcb t f k) = inpreempt k"
  "outpreempt (upd_tcb t f k) = outpreempt k"
  "preemptlist (upd_tcb t f k) = preemptlist k"
  "clock_now (upd_tcb t f k) = clock_now k"
  "live_stacks (upd_tcb t f k) = live_stacks k"
  "kern.more (upd_tcb t f k) = kern.more k"
  by (simp_all add: upd_tcb_def)

lemma pool_upd_tcb [simp]:
  "threadPool (upd_tcb t f k) u = (if u = t then f (threadPool k t) else threadPool k u)"
  by (simp add: upd_tcb_def)

text \<open>\<open>at_tid t m\<close>: \<open>m\<close> reads or writes \<^verbatim>\<open>__tk_threadPool[t]\<close>.\<close>

definition at_tid :: "thid_t \<Rightarrow> 'a result \<Rightarrow> 'a result" where
  "at_tid t m = in_bounds (in_pool t) m"

lemma at_tid_in [simp, result_simps]: "in_pool t \<Longrightarrow> at_tid t m = m"
  by (simp add: at_tid_def)

lemma at_tid_eq_Inr [result_elims]: "at_tid t m = Inr y \<longleftrightarrow> in_pool t \<and> m = Inr y"
  by (simp add: at_tid_def result_elims)

text \<open>Locations of the two-dimensional array \<^verbatim>\<open>__tk_schedule\<close>.\<close>

definition in_sched :: "nat \<Rightarrow> nat \<Rightarrow> bool" where
  "in_sched p i \<longleftrightarrow> p < TK_MAX_PRIO_LEVELS \<and> i < TK_MAX_THREADS_AT_PRIO"

definition set_slot :: "nat \<Rightarrow> nat \<Rightarrow> thid_t \<Rightarrow> 'a kern_scheme \<Rightarrow> 'a kern_scheme" where
  "set_slot p i t k = k\<lparr>schedule := (schedule k)(p := (schedule k p)(i := t))\<rparr>"

definition upd_stat :: "nat \<Rightarrow> (stat_t \<Rightarrow> stat_t) \<Rightarrow> 'a kern_scheme \<Rightarrow> 'a kern_scheme" where
  "upd_stat p f k = k\<lparr>roundrobin_prio_idxs :=
     (roundrobin_prio_idxs k)(p := f (roundrobin_prio_idxs k p))\<rparr>"

lemma set_slot_sel [simp]:
  "threadPool (set_slot p i t k) = threadPool k"
  "roundrobin_prio_idxs (set_slot p i t k) = roundrobin_prio_idxs k"
  "active_thread (set_slot p i t k) = active_thread k"
  "thread_to_run (set_slot p i t k) = thread_to_run k"
  "procs_in_use (set_slot p i t k) = procs_in_use k"
  "proc_idx (set_slot p i t k) = proc_idx k"
  "idle_Thid (set_slot p i t k) = idle_Thid k"
  "IntFlagCntr (set_slot p i t k) = IntFlagCntr k"
  "npreempt (set_slot p i t k) = npreempt k"
  "inpreempt (set_slot p i t k) = inpreempt k"
  "outpreempt (set_slot p i t k) = outpreempt k"
  "preemptlist (set_slot p i t k) = preemptlist k"
  "clock_now (set_slot p i t k) = clock_now k"
  "live_stacks (set_slot p i t k) = live_stacks k"
  "kern.more (set_slot p i t k) = kern.more k"
  by (simp_all add: set_slot_def)

lemma schedule_set_slot [simp]:
  "schedule (set_slot p i t k) q j = (if q = p \<and> j = i then t else schedule k q j)"
  by (simp add: set_slot_def)

lemma upd_stat_sel [simp]:
  "threadPool (upd_stat p f k) = threadPool k"
  "schedule (upd_stat p f k) = schedule k"
  "active_thread (upd_stat p f k) = active_thread k"
  "thread_to_run (upd_stat p f k) = thread_to_run k"
  "procs_in_use (upd_stat p f k) = procs_in_use k"
  "proc_idx (upd_stat p f k) = proc_idx k"
  "idle_Thid (upd_stat p f k) = idle_Thid k"
  "IntFlagCntr (upd_stat p f k) = IntFlagCntr k"
  "npreempt (upd_stat p f k) = npreempt k"
  "inpreempt (upd_stat p f k) = inpreempt k"
  "outpreempt (upd_stat p f k) = outpreempt k"
  "preemptlist (upd_stat p f k) = preemptlist k"
  "clock_now (upd_stat p f k) = clock_now k"
  "live_stacks (upd_stat p f k) = live_stacks k"
  "kern.more (upd_stat p f k) = kern.more k"
  by (simp_all add: upd_stat_def)

lemma stat_upd_stat [simp]:
  "roundrobin_prio_idxs (upd_stat p f k) q =
     (if q = p then f (roundrobin_prio_idxs k p) else roundrobin_prio_idxs k q)"
  by (simp add: upd_stat_def)

section \<open>Interrupt masking\<close>

text \<open>
  The port's \<^verbatim>\<open>TK_CLI\<close> and \<^verbatim>\<open>TK_STI\<close> mask and unmask interrupts; the code
  between them runs without interruption, as every definition of the model does. Only the
  counter that the operations test is part of the state.
\<close>

end
