(* ===== verification/TkSched.thy ===== *)
theory TkSched
  imports TkTypes
begin

text \<open>
  The inner kernel, \<^verbatim>\<open>src/tk.c\<close>: the thread pool, the schedule (one row of thread
  ids per priority), detaching, deleting and re-prioritising threads, and the choice of the
  next thread. The operations that give up the processor are in \<open>TkThread\<close>, after the
  dispatcher. First the operations, then the invariant \<open>sched_inv\<close> of the schedule and
  what every operation does to the row of each priority.
\<close>

section \<open>Operations\<close>

subsection \<open>Identity of the running thread\<close>

definition tk_thread_id :: "'a kern_scheme \<Rightarrow> thid_t" where
  "tk_thread_id k = active_thread k"

definition tk_current_tcb :: "'a kern_scheme \<Rightarrow> tcb_t" where
  "tk_current_tcb k = pool k (active_thread k)"

definition tk_specific_tcb :: "'a kern_scheme \<Rightarrow> thid_t \<Rightarrow> tcb_t result" where
  "tk_specific_tcb k thid = at_tid thid (Inr (pool k thid))"

definition tk_errno :: "'a kern_scheme \<Rightarrow> int" where
  "tk_errno k = t_errno (pool k (active_thread k))"

subsection \<open>Parents and children\<close>

text \<open>
  The loop of \<^verbatim>\<open>_tk_detach_children\<close>: every valid child of \<open>thid\<close> loses its
  parent, as long as the parent's count says there are children left.
\<close>

definition detach_child :: "thid_t \<Rightarrow> thid_t \<Rightarrow> 'a kern_scheme \<Rightarrow> 'a kern_scheme" where
  "detach_child thid j k =
     (if noChilds (pool k thid) > 0 \<and> valid (pool k j) \<and> Gid (pool k j) = thid then
        upd_tcb thid (\<lambda>c. c\<lparr>noChilds := noChilds c - 1\<rparr>) (upd_tcb j (\<lambda>c. c\<lparr>Gid := -1\<rparr>) k)
      else k)"

definition tk_detach_children :: "thid_t \<Rightarrow> 'a kern_scheme \<Rightarrow> 'a kern_scheme" where
  "tk_detach_children thid k = fold (detach_child thid) tids k"

text \<open>
  \<^verbatim>\<open>_tk_try_detach_parent\<close>: if the parent waits in \<^verbatim>\<open>tk_join\<close> for exactly this
  thread, wake it and hand it the return value; then (or when forced) cut the tie.
\<close>

definition unblock_parent :: "thid_t \<Rightarrow> 'a kern_scheme \<Rightarrow> 'a kern_scheme" where
  "unblock_parent thid k =
     (let g = Gid (pool k thid); st = state (pool k g) AND NOT TERM_T in
      upd_tcb g (\<lambda>c. c\<lparr>state := st, wakeupEvent := E_CHILDDEATH,
        bOnId := (if st = READY then \<lparr>kind = BON_SCHED, entity = Ent_null\<rparr>
                  else \<lparr>kind = BON_SCHED, entity = Ent_tcb thid\<rparr>),
        retval := retval (pool k thid)\<rparr>) k)"

definition parent_waits_for :: "thid_t \<Rightarrow> 'a kern_scheme \<Rightarrow> bool" where
  "parent_waits_for thid k \<longleftrightarrow>
     has_flag (state (pool k (Gid (pool k thid)))) TERM_T \<and>
     entity (bOnId (pool k (Gid (pool k thid)))) = Ent_tcb thid"

definition tk_try_detach_parent ::
  "thid_t \<Rightarrow> bool \<Rightarrow> 'a kern_scheme \<Rightarrow> (bool \<times> 'a kern_scheme) result" where
  "tk_try_detach_parent thid force k =
     at_tid thid (let g = Gid (pool k thid) in
       if g = -1 then Inr (True, k)
       else at_tid g (c_assert (valid (pool k g))
        (let unblocked = parent_waits_for thid k;
             k1 = (if unblocked then unblock_parent thid k else k)
         in if unblocked \<or> force then
              (let k2 = upd_tcb g (\<lambda>c. c\<lparr>noChilds := noChilds c - 1\<rparr>) k1 in
               c_assert (noChilds (pool k2 g) \<ge> 0)
                 (Inr (True, upd_tcb thid (\<lambda>c. c\<lparr>Gid := -1\<rparr>) k2)))
            else Inr (False, k1))))"

subsection \<open>Leaving a row of the schedule\<close>

text \<open>
  The loop \<^verbatim>\<open>for (i = Idx; i < procs_at_prio; i++)\<close> that both
  \<^verbatim>\<open>tk_delete_thread\<close> and \<^verbatim>\<open>tk_change_prio\<close> run: move the rest of the row one
  slot down, storing each moved thread's new position. Its last iteration reads the slot
  after the row's last thread.
\<close>

function shift_row :: "nat \<Rightarrow> nat \<Rightarrow> nat \<Rightarrow> 'a kern_scheme \<Rightarrow> 'a kern_scheme result" where
  "shift_row p i n k =
     (if i < n then
        in_bounds (in_sched p i \<and> in_sched p (i + 1))
         (let t = schedule k p (i + 1); k1 = set_slot p i t k in
          at_tid t (shift_row p (i + 1) n (upd_tcb t (\<lambda>c. c\<lparr>Idx := i\<rparr>) k1)))
      else Inr k)"
  by pat_completeness auto
termination by (relation "measure (\<lambda>(p, i, n, k). n - i)") (auto simp: in_bounds_def)

declare shift_row.simps [simp del]

definition unlink_row :: "nat \<Rightarrow> nat \<Rightarrow> 'a kern_scheme \<Rightarrow> 'a kern_scheme result" where
  "unlink_row p i k =
     andThen (shift_row p i (procs k p) k) (\<lambda>k1.
       let k2 = upd_stat p (\<lambda>s. s\<lparr>procs_at_prio := ushort_dec (procs_at_prio s)\<rparr>) k1
       in Inr (if curr_idx (roundrobin_prio_idxs k2 p) \<ge> procs k2 p
               then upd_stat p (\<lambda>s. s\<lparr>curr_idx := 0\<rparr>) k2 else k2))"

subsection \<open>Deleting a thread\<close>

definition bury_thread :: "thid_t \<Rightarrow> 'a kern_scheme \<Rightarrow> 'a kern_scheme result" where
  "bury_thread thid k =
     (let p = Prio (pool k thid); i = Idx (pool k thid) in
      in_bounds (in_sched p i) (c_assert (schedule k p i = thid)
       (andThen (unlink_row p i (k\<lparr>procs_in_use := procs_in_use k - 1\<rparr>)) (\<lambda>k1.
          Inr (upd_tcb thid (\<lambda>c. c\<lparr>valid := False\<rparr>)
            (k1\<lparr>live_stacks := live_stacks k1 - {stack_begin (pool k1 thid)}\<rparr>))))))"

definition tk_delete_thread :: "thid_t \<Rightarrow> 'a kern_scheme \<Rightarrow> (int \<times> 'a kern_scheme) result" where
  "tk_delete_thread thid k =
     at_tid thid
      (if \<not> valid (pool k thid) then Inr (TK_ERROR, k)
       else andThen
        (if \<not> has_flag (state (pool k thid)) ZOMBI then
           tk_try_detach_parent thid False
             (tk_detach_children thid (upd_tcb thid (\<lambda>c. c\<lparr>state := ZOMBI\<rparr>) k))
         else Inr (True, k))
        (\<lambda>(bury_it, k1).
           if bury_it then andThen (bury_thread thid k1) (\<lambda>k2. Inr (TK_OK, k2))
           else Inr (TK_OK, k1)))"

definition tk_delete_kernel :: "'a kern_scheme \<Rightarrow> (int \<times> 'a kern_scheme) result" where
  "tk_delete_kernel k = tk_delete_thread (idle_Thid k) k"

definition tk_detach :: "thid_t \<Rightarrow> 'a kern_scheme \<Rightarrow> (rc_t \<times> 'a kern_scheme) result" where
  "tk_detach thid k =
     at_tid thid
      (if \<not> valid (pool k thid) then Inr (Rc_errno ESRCH, k)
       else if Gid (pool k thid) \<noteq> -1 then Inr (Rc_errno EINVAL, k)
       else andThen (tk_try_detach_parent thid True k) (\<lambda>(_, k1). Inr (Rc_ok, k1)))"

subsection \<open>Changing a priority\<close>

text \<open>
  The result says whether the caller should yield. A priority outside the table is read
  from before it is rejected, as the C code does.
\<close>

definition change_prio_error :: "thid_t \<Rightarrow> nat \<Rightarrow> 'a kern_scheme \<Rightarrow> 32 word" where
  "change_prio_error tid newPrio k =
     (if \<not> valid (pool k tid) then TC_TCB_INVALID else 0) OR
     (if newPrio \<ge> TK_MAX_PRIO_LEVELS then TC_MAX_PRIO_LEVELS else 0) OR
     (if TK_MAX_THREADS_AT_PRIO \<le> procs k newPrio then TC_THREADS_AT_PRIO else 0)"

definition wants_yield :: "thid_t \<Rightarrow> nat \<Rightarrow> 'a kern_scheme \<Rightarrow> bool" where
  "wants_yield tid newPrio k =
     (if state (pool k tid) \<noteq> READY then False
      else if newPrio > Prio (pool k tid) then True
      else active_thread k = tid)"

definition tk_change_prio ::
  "thid_t \<Rightarrow> int \<Rightarrow> 'a kern_scheme \<Rightarrow> (bool \<times> 'a kern_scheme) result" where
  "tk_change_prio tid prio k =
     at_tid tid (in_bounds (0 \<le> prio \<and> prio < int TK_MAX_PRIO_LEVELS)
      (let newPrio = nat prio in
       if change_prio_error tid newPrio k \<noteq> 0 then Inl (Tk_exit (change_prio_error tid newPrio k))
       else
        let oldPrio = Prio (pool k tid); oldIdx = Idx (pool k tid) in
        if oldPrio = newPrio then Inr (False, k)
        else andThen (unlink_row oldPrio oldIdx k) (\<lambda>k1.
          let newIdx = procs k1 newPrio in
          in_bounds (in_sched newPrio newIdx)
           (Inr (wants_yield tid newPrio k,
              upd_tcb tid (\<lambda>c. c\<lparr>Prio := newPrio, Idx := newIdx\<rparr>)
               (upd_stat newPrio (\<lambda>s. s\<lparr>procs_at_prio := procs_at_prio s + 1\<rparr>)
                 (set_slot newPrio newIdx tid k1)))))))"

subsection \<open>Choosing the next thread\<close>

text \<open>
  One row: starting at \<open>idx\<close>, at most \<open>m\<close> slots, wrapping around after \<open>n\<close> of
  them. \<open>lst\<close> is the debug variable \<^verbatim>\<open>last_thid\<close>.
\<close>

fun try_row :: "'a kern_scheme \<Rightarrow> nat \<Rightarrow> nat \<Rightarrow> nat \<Rightarrow> nat \<Rightarrow> thid_t \<Rightarrow> (thid_t option \<times> thid_t) result" where
  "try_row k prio n idx 0 lst = Inr (None, lst)"
| "try_row k prio n idx (Suc m) lst =
     in_bounds (in_sched prio idx)
      (let t = schedule k prio idx in
       at_tid t (c_assert (valid (pool k t)) (c_assert (Thid (pool k t) \<noteq> lst)
        (if state (pool k t) = READY then Inr (Some t, Thid (pool k t))
         else try_row k prio n ((idx + 1) mod n) m (Thid (pool k t))))))"

fun try_rows :: "'a kern_scheme \<Rightarrow> nat list \<Rightarrow> thid_t \<Rightarrow> thid_t result" where
  "try_rows k [] lst = Inr (idle_Thid k)"
| "try_rows k (prio # ps) lst =
     (let p_at_p = procs k prio in
      if p_at_p \<noteq> 0 then
        andThen (try_row k prio p_at_p (curr_idx (roundrobin_prio_idxs k prio)) p_at_p lst)
         (\<lambda>(found, lst'). case found of Some t \<Rightarrow> Inr t | None \<Rightarrow> try_rows k ps lst')
      else try_rows k ps lst)"

definition tk_next_runable_thread :: "'a kern_scheme \<Rightarrow> thid_t result" where
  "tk_next_runable_thread k = try_rows k [0..<TK_MAX_PRIO_LEVELS] (-1)"

end
