(* ===== verification/TkSchedInv.thy ===== *)
theory TkSchedInv
  imports TkSched
begin

text \<open>
  Properties of the inner kernel (\<open>TkSched\<close>): the invariant of the schedule
  (\<open>sched_inv\<close>: every row lists exactly the valid threads of its priority, once each) and
  of the family tree (\<open>family_inv\<close>: parents are alive and count their children), what each
  operation does to them, and the choice of the next thread as a search of the rows.
\<close>

section \<open>Rows of the schedule\<close>

definition row :: "'a kern_scheme \<Rightarrow> nat \<Rightarrow> thid_t list" where
  "row k p = map (schedule k p) [0..<procs k p]"

lemma length_row [simp]: "length (row k p) = procs k p"
  by (simp add: row_def)

lemma nth_row: "i < procs k p \<Longrightarrow> row k p ! i = schedule k p i"
  by (simp add: row_def)

lemma row_cong:
  "procs k p = procs k' p \<Longrightarrow> (\<And>i. i < procs k p \<Longrightarrow> schedule k p i = schedule k' p i) \<Longrightarrow> row k p = row k' p"
  by (simp add: row_def)

subsection \<open>What the shift-down loop does\<close>

text \<open>One iteration, and induction over a loop that returned.\<close>

abbreviation shifted :: "nat \<Rightarrow> nat \<Rightarrow> 'a kern_scheme \<Rightarrow> 'a kern_scheme" where
  "shifted p i k \<equiv> upd_tcb (schedule k p (i + 1)) (\<lambda>c. c\<lparr>Idx := i\<rparr>)
     (set_slot p i (schedule k p (i + 1)) k)"

lemma shift_row_stop: "\<not> i < n \<Longrightarrow> shift_row p i n k = Inr k"
  by (simp add: shift_row.simps [of p i n k])

lemma shift_row_step:
  "i < n \<Longrightarrow> shift_row p i n k =
     in_bounds (in_sched p i \<and> in_sched p (i + 1))
       (at_tid (schedule k p (i + 1)) (shift_row p (i + 1) n (shifted p i k)))"
  by (simp add: shift_row.simps [of p i n k] Let_def)

lemma shift_row_induct [consumes 1, case_names stop step]:
  assumes "shift_row p i n k = Inr k'"
    and stop: "\<And>i. \<not> i < n \<Longrightarrow> P i k' k'"
    and step: "\<And>i k. i < n \<Longrightarrow> in_sched p (i + 1) \<Longrightarrow> in_pool (schedule k p (i + 1)) \<Longrightarrow>
      P (i + 1) (shifted p i k) k' \<Longrightarrow> P i k k'"
  shows "P i k k'"
  using assms(1)
proof (induction "n - i" arbitrary: i k)
  case 0
  then show ?case using stop by (simp add: shift_row_stop)
next
  case (Suc m)
  from Suc.hyps(2) have i: "i < n" by simp
  from Suc.prems i have b: "in_sched p (i + 1)" "in_pool (schedule k p (i + 1))"
    and r: "shift_row p (i + 1) n (shifted p i k) = Inr k'"
    by (simp_all only: shift_row_step result_elims)
  have "P (i + 1) (shifted p i k) k'"
    by (rule Suc.hyps(1) [OF _ r]) (use Suc.hyps(2) in simp)
  with i b show ?case by (rule step)
qed

lemma shift_row_frame:
  "shift_row p i n k = Inr k' \<Longrightarrow> \<exists>tp sc. k' = k\<lparr>threadPool := tp, schedule := sc\<rparr>"
proof (induction rule: shift_row_induct)
  case (stop i)
  show ?case by (rule exI [of _ "threadPool k'"], rule exI [of _ "schedule k'"]) simp
next
  case (step i k)
  then obtain tp sc where "k' = (shifted p i k)\<lparr>threadPool := tp, schedule := sc\<rparr>"
    by blast
  then show ?case by (auto simp: upd_tcb_def set_slot_def)
qed

lemma shift_row_pool:
  "shift_row p i n k = Inr k' \<Longrightarrow> \<exists>ix. pool k' t = (pool k t)\<lparr>Idx := ix\<rparr>"
proof (induction rule: shift_row_induct)
  case (stop i)
  show ?case by (rule exI [of _ "Idx (pool k' t)"]) simp
next
  case (step i k)
  then obtain ix where "pool k' t = (pool (shifted p i k) t)\<lparr>Idx := ix\<rparr>"
    by blast
  then show ?case by auto
qed

lemma shift_row_schedule:
  "shift_row p i n k = Inr k' \<Longrightarrow>
     schedule k' q j =
       (if q = p \<and> i \<le> j \<and> j < n then schedule k p (j + 1) else schedule k q j)"
proof (induction rule: shift_row_induct)
  case (stop i)
  then show ?case by auto
next
  case (step i k)
  from step.hyps(1) show ?case unfolding step.IH by auto
qed

lemma shift_row_Idx_other:
  "shift_row p i n k = Inr k' \<Longrightarrow> (\<And>j. i \<le> j \<Longrightarrow> j < n \<Longrightarrow> schedule k p (j + 1) \<noteq> t) \<Longrightarrow>
     pool k' t = pool k t"
proof (induction rule: shift_row_induct)
  case (stop i)
  then show ?case by simp
next
  case (step i k)
  have "pool k' t = pool (shifted p i k) t"
    by (rule step.IH) (use step.prems in auto)
  also have "\<dots> = pool k t"
    using step.prems [of i] step.hyps(1) by auto
  finally show ?case .
qed

lemma shift_row_Idx:
  "shift_row p i n k = Inr k' \<Longrightarrow> i \<le> j \<Longrightarrow> j < n \<Longrightarrow> schedule k p (j + 1) = t \<Longrightarrow>
     (\<And>l. j < l \<Longrightarrow> l < n \<Longrightarrow> schedule k p (l + 1) \<noteq> t) \<Longrightarrow> Idx (pool k' t) = j"
proof (induction "n - i" arbitrary: i k)
  case 0
  then show ?case by simp
next
  case (Suc m)
  then have "i < n" by simp
  with Suc.prems(1) have r: "shift_row p (i + 1) n (shifted p i k) = Inr k'"
    by (simp add: shift_row_step result_elims)
  show ?case
  proof (cases "i = j")
    case True
    have "pool k' t = pool (shifted p i k) t"
      by (rule shift_row_Idx_other [OF r]) (use Suc.prems(5) True in auto)
    with True Suc.prems(4) show ?thesis by simp
  next
    case False
    with Suc.hyps(1) [OF _ r] Suc.hyps(2) Suc.prems show ?thesis by simp
  qed
qed

lemma shift_row_total:
  "p < TK_MAX_PRIO_LEVELS \<Longrightarrow> n < TK_MAX_THREADS_AT_PRIO \<Longrightarrow>
     (\<And>j. i < j \<Longrightarrow> j \<le> n \<Longrightarrow> in_pool (schedule k p j)) \<Longrightarrow> \<exists>k'. shift_row p i n k = Inr k'"
proof (induction "n - i" arbitrary: i k)
  case 0
  then show ?case by (simp add: shift_row_stop)
next
  case (Suc m)
  then have "i < n" by simp
  moreover have "\<exists>k'. shift_row p (i + 1) n (shifted p i k) = Inr k'"
    by (rule Suc.hyps(1)) (use Suc.hyps(2) Suc.prems in auto)
  ultimately show ?case using Suc.prems
    by (simp add: shift_row_step in_sched_def)
qed

text \<open>With a full row the last iteration leaves the array.\<close>

lemma shift_row_full:
  "p < TK_MAX_PRIO_LEVELS \<Longrightarrow> i < n \<Longrightarrow> n = TK_MAX_THREADS_AT_PRIO \<Longrightarrow>
     (\<And>j. i < j \<Longrightarrow> j < n \<Longrightarrow> in_pool (schedule k p j)) \<Longrightarrow> shift_row p i n k = Inl Out_of_bounds"
proof (induction "n - i" arbitrary: i k)
  case 0
  then show ?case by simp
next
  case (Suc m)
  show ?case
  proof (cases "i + 1 < n")
    case True
    have "shift_row p (i + 1) n (shifted p i k) = Inl Out_of_bounds"
      by (rule Suc.hyps(1)) (use Suc.hyps(2) Suc.prems True in auto)
    with True Suc.prems show ?thesis by (simp add: shift_row_step in_sched_def)
  next
    case False
    with Suc.prems show ?thesis by (simp add: shift_row_step in_sched_def)
  qed
qed

section \<open>The invariant of the schedule\<close>

text \<open>
  \<open>sched_ok X k\<close>: the schedule is in order, for all threads but those of \<open>X\<close>, which
  are in the pool but not (or not yet) in a row. The position that a thread remembers
  (\<^verbatim>\<open>Idx\<close>) is right for every thread but thread 0: the shift-down loop overwrites
  the one of thread 0, because the slots behind a row hold 0.
\<close>

definition entry_ok :: "thid_t set \<Rightarrow> 'a kern_scheme \<Rightarrow> nat \<Rightarrow> nat \<Rightarrow> bool" where
  "entry_ok X k p i \<longleftrightarrow>
     (let t = schedule k p i in
      in_pool t \<and> t \<notin> X \<and> valid (pool k t) \<and> Prio (pool k t) = p \<and> (t \<noteq> 0 \<longrightarrow> Idx (pool k t) = i))"

definition row_ok :: "thid_t set \<Rightarrow> 'a kern_scheme \<Rightarrow> nat \<Rightarrow> bool" where
  "row_ok X k p \<longleftrightarrow>
     procs k p \<le> TK_MAX_THREADS_AT_PRIO \<and> curr_idx (roundrobin_prio_idxs k p) = 0 \<and>
     distinct (row k p) \<and> (\<forall>i < procs k p. entry_ok X k p i) \<and>
     (\<forall>i. procs k p \<le> i \<longrightarrow> i < TK_MAX_THREADS_AT_PRIO \<longrightarrow> schedule k p i = 0)"

definition thread_ok :: "thid_t set \<Rightarrow> 'a kern_scheme \<Rightarrow> thid_t \<Rightarrow> bool" where
  "thread_ok X k t \<longleftrightarrow>
     Thid (pool k t) = t \<and>
     (t \<notin> X \<longrightarrow> Prio (pool k t) < TK_MAX_PRIO_LEVELS \<and> t \<in> set (row k (Prio (pool k t))))"

definition valid_tids :: "'a kern_scheme \<Rightarrow> thid_t set" where
  "valid_tids k = {t. in_pool t \<and> valid (pool k t)}"

definition sched_ok :: "thid_t set \<Rightarrow> 'a kern_scheme \<Rightarrow> bool" where
  "sched_ok X k \<longleftrightarrow>
     (\<forall>p < TK_MAX_PRIO_LEVELS. row_ok X k p) \<and> (\<forall>t \<in> valid_tids k. thread_ok X k t)"

definition sched_inv :: "thid_t set \<Rightarrow> 'a kern_scheme \<Rightarrow> bool" where
  "sched_inv X k \<longleftrightarrow> sched_ok X k \<and> procs_in_use k = int (card (valid_tids k))"

lemma finite_valid_tids [simp]: "finite (valid_tids k)"
  by (simp add: valid_tids_def)

lemma sched_ok_row: "sched_ok X k \<Longrightarrow> p < TK_MAX_PRIO_LEVELS \<Longrightarrow> row_ok X k p"
  by (simp add: sched_ok_def)

lemma sched_ok_entry:
  "sched_ok X k \<Longrightarrow> p < TK_MAX_PRIO_LEVELS \<Longrightarrow> i < procs k p \<Longrightarrow> entry_ok X k p i"
  by (simp add: sched_ok_def row_ok_def)

lemma sched_ok_tail:
  "sched_ok X k \<Longrightarrow> p < TK_MAX_PRIO_LEVELS \<Longrightarrow> procs k p \<le> i \<Longrightarrow> i < TK_MAX_THREADS_AT_PRIO \<Longrightarrow>
     schedule k p i = 0"
  by (simp add: sched_ok_def row_ok_def)

lemma row_entryE:
  assumes "sched_ok X k" "p < TK_MAX_PRIO_LEVELS" "t \<in> set (row k p)"
  obtains i where "i < procs k p" "schedule k p i = t" "in_pool t" "t \<notin> X" "valid (pool k t)"
    "Prio (pool k t) = p" "t \<noteq> 0 \<Longrightarrow> Idx (pool k t) = i"
proof -
  from assms(3) obtain i where i: "i < procs k p" "schedule k p i = t"
    by (auto simp: row_def)
  with sched_ok_entry [OF assms(1,2) i(1)] that show ?thesis
    by (auto simp: entry_ok_def Let_def)
qed

lemma distinct_schedule:
  assumes "sched_ok X k" "p < TK_MAX_PRIO_LEVELS" "i < procs k p" "j < procs k p" "i \<noteq> j"
  shows "schedule k p i \<noteq> schedule k p j"
proof -
  have "distinct (row k p)" using assms(1,2) by (simp add: sched_ok_def row_ok_def)
  with assms(3-) show ?thesis by (simp add: distinct_conv_nth nth_row)
qed

text \<open>A valid thread sits at its remembered position, thread 0 excepted.\<close>

lemma valid_thread_slot:
  assumes "sched_ok X k" "in_pool t" "valid (pool k t)" "t \<notin> X"
  shows "Prio (pool k t) < TK_MAX_PRIO_LEVELS"
    and "\<exists>i < procs k (Prio (pool k t)). schedule k (Prio (pool k t)) i = t \<and> (t \<noteq> 0 \<longrightarrow> Idx (pool k t) = i)"
proof -
  from assms have "thread_ok X k t" by (simp add: sched_ok_def valid_tids_def)
  with assms(4) have p: "Prio (pool k t) < TK_MAX_PRIO_LEVELS" "t \<in> set (row k (Prio (pool k t)))"
    by (auto simp: thread_ok_def)
  show "Prio (pool k t) < TK_MAX_PRIO_LEVELS" by (rule p(1))
  from p assms(1) obtain i where "i < procs k (Prio (pool k t))" "schedule k (Prio (pool k t)) i = t"
    "t \<noteq> 0 \<Longrightarrow> Idx (pool k t) = i" by (metis row_entryE)
  then show "\<exists>i < procs k (Prio (pool k t)). schedule k (Prio (pool k t)) i = t \<and>
    (t \<noteq> 0 \<longrightarrow> Idx (pool k t) = i)" by auto
qed

text \<open>The invariant looks at these fields only.\<close>

lemma sched_ok_cong:
  assumes "schedule k' = schedule k" "roundrobin_prio_idxs k' = roundrobin_prio_idxs k"
    and "\<And>t. valid (pool k' t) = valid (pool k t)"
    and "\<And>t. valid (pool k t) \<Longrightarrow> Prio (pool k' t) = Prio (pool k t) \<and> Idx (pool k' t) = Idx (pool k t) \<and>
          Thid (pool k' t) = Thid (pool k t)"
  shows "sched_ok X k' = sched_ok X k"
proof -
  have r: "row k' = row k" using assms(1,2) by (simp add: row_def fun_eq_iff)
  have "entry_ok X k' p i = entry_ok X k p i" for p i
    using assms by (auto simp: entry_ok_def Let_def)
  moreover have "valid_tids k' = valid_tids k" using assms(3) by (simp add: valid_tids_def)
  moreover have "t \<in> valid_tids k \<Longrightarrow> thread_ok X k' t = thread_ok X k t" for t
    using assms r by (auto simp: thread_ok_def valid_tids_def)
  ultimately show ?thesis
    using assms(1,2) r by (simp add: sched_ok_def row_ok_def)
qed

subsection \<open>Leaving a row\<close>

text \<open>
  The facts about \<open>unlink_row\<close> that the operations use: it returns when the row has room
  behind its last thread; it takes out the element at the given position and keeps the order
  of the others; it changes nothing but positions and the row.
\<close>

lemma unlink_row_frame:
  assumes "unlink_row p i k = Inr k'"
  shows "\<exists>tp sc rr. k' = k\<lparr>threadPool := tp, schedule := sc, roundrobin_prio_idxs := rr\<rparr>"
    and "\<exists>ix. pool k' t = (pool k t)\<lparr>Idx := ix\<rparr>"
    and "q \<noteq> p \<Longrightarrow> roundrobin_prio_idxs k' q = roundrobin_prio_idxs k q"
    and "procs k' p = ushort_dec (procs k p)"
    and "curr_idx (roundrobin_prio_idxs k p) = 0 \<Longrightarrow> curr_idx (roundrobin_prio_idxs k' p) = 0"
    and "schedule k' q j = (if q = p \<and> i \<le> j \<and> j < procs k p then schedule k p (j + 1) else schedule k q j)"
proof -
  from assms obtain k1 where k1: "shift_row p i (procs k p) k = Inr k1"
    and k': "k' = (let k2 = upd_stat p (\<lambda>s. s\<lparr>procs_at_prio := ushort_dec (procs_at_prio s)\<rparr>) k1
       in if curr_idx (roundrobin_prio_idxs k2 p) \<ge> procs k2 p
          then upd_stat p (\<lambda>s. s\<lparr>curr_idx := 0\<rparr>) k2 else k2)"
    by (auto simp: unlink_row_def result_elims Let_def)
  from shift_row_frame [OF k1] obtain tp sc where f: "k1 = k\<lparr>threadPool := tp, schedule := sc\<rparr>"
    by blast
  have rr: "roundrobin_prio_idxs k1 = roundrobin_prio_idxs k" using f by simp
  have pl: "threadPool k' = threadPool k1" "schedule k' = schedule k1"
    unfolding k' by (simp_all add: Let_def)
  show "\<exists>tp sc rr. k' = k\<lparr>threadPool := tp, schedule := sc, roundrobin_prio_idxs := rr\<rparr>"
    unfolding k' f by (auto simp: upd_stat_def Let_def)
  show "\<exists>ix. pool k' t = (pool k t)\<lparr>Idx := ix\<rparr>"
    using shift_row_pool [OF k1, of t] by (simp add: pl)
  show "schedule k' q j = (if q = p \<and> i \<le> j \<and> j < procs k p then schedule k p (j + 1) else schedule k q j)"
    using shift_row_schedule [OF k1] by (simp add: pl)
  show "q \<noteq> p \<Longrightarrow> roundrobin_prio_idxs k' q = roundrobin_prio_idxs k q"
    and "procs k' p = ushort_dec (procs k p)"
    and "curr_idx (roundrobin_prio_idxs k p) = 0 \<Longrightarrow> curr_idx (roundrobin_prio_idxs k' p) = 0"
    unfolding k' by (simp_all add: Let_def rr)
qed

lemma unlink_row_pool:
  assumes "unlink_row p i k = Inr k'"
    and "\<And>j. i \<le> j \<Longrightarrow> j < procs k p \<Longrightarrow> schedule k p (j + 1) \<noteq> t"
  shows "pool k' t = pool k t"
proof -
  from assms(1) obtain k1 where k1: "shift_row p i (procs k p) k = Inr k1"
    and "threadPool k' = threadPool k1"
    by (auto simp: unlink_row_def result_elims Let_def)
  with shift_row_Idx_other [OF k1 assms(2)] show ?thesis by simp
qed

lemma unlink_row_Idx:
  assumes "unlink_row p i k = Inr k'" "i \<le> j" "j < procs k p" "schedule k p (j + 1) = t"
    and "\<And>l. j < l \<Longrightarrow> l < procs k p \<Longrightarrow> schedule k p (l + 1) \<noteq> t"
  shows "Idx (pool k' t) = j"
proof -
  from assms(1) obtain k1 where k1: "shift_row p i (procs k p) k = Inr k1"
    and "threadPool k' = threadPool k1"
    by (auto simp: unlink_row_def result_elims Let_def)
  with shift_row_Idx [OF k1 assms(2-4)] assms(5) show ?thesis by simp
qed

lemma unlink_row_total:
  assumes "sched_ok X k" "p < TK_MAX_PRIO_LEVELS" "procs k p < TK_MAX_THREADS_AT_PRIO"
  shows "\<exists>k'. unlink_row p i k = Inr k'"
proof -
  have "\<exists>k1. shift_row p i (procs k p) k = Inr k1"
  proof (rule shift_row_total [OF assms(2,3)])
    fix j assume "i < j" "j \<le> procs k p"
    then show "in_pool (schedule k p j)"
      using sched_ok_entry [OF assms(1,2), of j] sched_ok_tail [OF assms(1,2), of j] assms(3)
      by (cases "j < procs k p") (auto simp: entry_ok_def Let_def)
  qed
  then show ?thesis by (auto simp: unlink_row_def Let_def)
qed

lemma unlink_row_row:
  assumes "unlink_row p i k = Inr k'" "i < procs k p"
  shows "row k' p = drop_nth i (row k p)" and "q \<noteq> p \<Longrightarrow> row k' q = row k q"
proof -
  have n: "procs k' p = procs k p - 1"
    using unlink_row_frame(4) [OF assms(1)] assms(2) by (simp add: ushort_dec_def)
  show "row k' p = drop_nth i (row k p)"
  proof (rule nth_equalityI)
    show "length (row k' p) = length (drop_nth i (row k p))" using n assms(2) by simp
    fix j assume "j < length (row k' p)"
    then have j: "j < procs k p - 1" using n by simp
    then have "row k' p ! j = schedule k' p j" using n by (simp add: nth_row)
    also have "\<dots> = (if i \<le> j then schedule k p (j + 1) else schedule k p j)"
      using unlink_row_frame(6) [OF assms(1)] j by auto
    also have "\<dots> = drop_nth i (row k p) ! j"
      using j assms(2) by (simp add: nth_drop_nth nth_row)
    finally show "row k' p ! j = drop_nth i (row k p) ! j" .
  qed
  show "row k' q = row k q" if "q \<noteq> p"
    by (rule row_cong) (use unlink_row_frame(3,6) [OF assms(1)] that in auto)
qed

lemma sched_ok_unlink:
  assumes ok: "sched_ok X k" and p: "p < TK_MAX_PRIO_LEVELS" and i: "i < procs k p"
    and room: "procs k p < TK_MAX_THREADS_AT_PRIO" and un: "unlink_row p i k = Inr k'"
  shows "sched_ok (insert (schedule k p i) X) k'"
proof -
  let ?n = "procs k p" and ?t = "schedule k p i"
  have n: "procs k' p = ?n - 1"
    using unlink_row_frame(4) [OF un] i by (simp add: ushort_dec_def)
  have dist: "distinct (row k p)" using sched_ok_row [OF ok p] by (simp add: row_ok_def)
  have tail: "schedule k p ?n = 0" by (rule sched_ok_tail [OF ok p _ room]) simp
  have vt: "valid (pool k' t) = valid (pool k t)" "Prio (pool k' t) = Prio (pool k t)"
    "Thid (pool k' t) = Thid (pool k t)" for t
    using unlink_row_frame(2) [OF un, of t] by auto
  have same: "pool k' u = pool k u" if "u \<noteq> 0" "\<forall>j. i < j \<and> j < ?n \<longrightarrow> schedule k p j \<noteq> u" for u
  proof (rule unlink_row_pool [OF un])
    fix j assume j: "i \<le> j" "j < ?n"
    then consider "i < j + 1" "j + 1 < ?n" | "j + 1 = ?n" by linarith
    then show "schedule k p (j + 1) \<noteq> u" by cases (use that tail in auto)
  qed
  have entry: "entry_ok (insert ?t X) k' q j" if q: "q < TK_MAX_PRIO_LEVELS" and j: "j < procs k' q" for q j
  proof (cases "q = p")
    case False
    then have j': "j < procs k q" and s: "schedule k' q j = schedule k q j"
      using unlink_row_frame(3,6) [OF un] j by auto
    from sched_ok_entry [OF ok q j'] have e: "entry_ok X k q j" .
    have np: "schedule k q j \<noteq> schedule k p l" if "l < ?n" for l
      using e sched_ok_entry [OF ok p that] False by (auto simp: entry_ok_def Let_def)
    have "Idx (pool k' (schedule k q j)) = j" if nz: "schedule k q j \<noteq> 0"
    proof -
      have "pool k' (schedule k q j) = pool k (schedule k q j)"
        by (rule same [OF nz]) (use np in metis)
      with e nz show ?thesis by (auto simp: entry_ok_def Let_def)
    qed
    then show ?thesis
      using e s np [OF i] by (auto simp: entry_ok_def Let_def vt)
  next
    case True
    with j n have j: "j < ?n - 1" by simp
    let ?m = "if i \<le> j then j + 1 else j"
    have m: "?m < ?n" "?m \<noteq> i" using j by auto
    have s: "schedule k' p j = schedule k p ?m"
      using unlink_row_frame(6) [OF un] j by auto
    have e: "entry_ok X k p ?m" by (rule sched_ok_entry [OF ok p m(1)])
    have nt: "schedule k p ?m \<noteq> ?t" by (rule distinct_schedule [OF ok p m(1) i m(2)])
    have "Idx (pool k' (schedule k p ?m)) = j" if nz: "schedule k p ?m \<noteq> 0"
    proof (cases "i \<le> j")
      case True
      then show ?thesis
      proof (intro unlink_row_Idx [OF un])
        fix l assume l: "j < l" "l < ?n"
        show "schedule k p (l + 1) \<noteq> schedule k p ?m"
          using distinct_schedule [OF ok p _ m(1), of "l + 1"] tail nz l True
          by (cases "l + 1 < ?n") (auto simp: less_Suc_eq not_less_eq)
      qed (use j True in auto)
    next
      case False
      have "pool k' (schedule k p ?m) = pool k (schedule k p ?m)"
        by (rule same [OF nz]) (use distinct_schedule [OF ok p _ m(1)] False in auto)
      with e nz False show ?thesis by (auto simp: entry_ok_def Let_def)
    qed
    with e s nt \<open>q = p\<close> show ?thesis by (auto simp: entry_ok_def Let_def vt)
  qed
  have rowok: "row_ok (insert ?t X) k' q" if q: "q < TK_MAX_PRIO_LEVELS" for q
  proof -
    have "distinct (row k' q)"
      using unlink_row_row [OF un i] dist sched_ok_row [OF ok q] distinct_drop_nth
      by (cases "q = p") (auto simp: row_ok_def)
    moreover have "procs k' q \<le> TK_MAX_THREADS_AT_PRIO"
      using sched_ok_row [OF ok q] n unlink_row_frame(3) [OF un] by (cases "q = p") (auto simp: row_ok_def)
    moreover have "curr_idx (roundrobin_prio_idxs k' q) = 0"
      using sched_ok_row [OF ok q] unlink_row_frame(3,5) [OF un] by (cases "q = p") (auto simp: row_ok_def)
    moreover have "schedule k' q j = 0" if "procs k' q \<le> j" "j < TK_MAX_THREADS_AT_PRIO" for j
      using that n room i tail sched_ok_tail [OF ok q, of j] unlink_row_frame(3) [OF un, of q]
        unlink_row_frame(6) [OF un, of q j]
      by (cases "q = p"; cases "j + 1 = ?n") auto
    ultimately show ?thesis using entry [OF q] by (simp add: row_ok_def)
  qed
  have thr: "thread_ok (insert ?t X) k' t" if t: "t \<in> valid_tids k'" for t
  proof -
    from t have "t \<in> valid_tids k" by (simp add: valid_tids_def vt)
    with ok have tk: "thread_ok X k t" by (simp add: sched_ok_def)
    have "t \<in> set (row k' (Prio (pool k t)))" if "t \<noteq> ?t" "t \<in> set (row k (Prio (pool k t)))"
      using that unlink_row_row [OF un i] dist i
      by (cases "Prio (pool k t) = p") (auto simp: set_drop_nth nth_row)
    with tk show ?thesis by (auto simp: thread_ok_def vt)
  qed
  show ?thesis using rowok thr by (simp add: sched_ok_def)
qed

subsection \<open>Operations that leave the schedule alone\<close>

text \<open>Two states with the same schedule, valid threads and accounting.\<close>

definition sched_same :: "'a kern_scheme \<Rightarrow> 'a kern_scheme \<Rightarrow> bool" where
  "sched_same k k' \<longleftrightarrow>
     schedule k' = schedule k \<and> roundrobin_prio_idxs k' = roundrobin_prio_idxs k \<and>
     procs_in_use k' = procs_in_use k \<and> live_stacks k' = live_stacks k \<and> idle_Thid k' = idle_Thid k \<and>
     (\<forall>t. valid (pool k' t) = valid (pool k t) \<and> Prio (pool k' t) = Prio (pool k t) \<and>
       Idx (pool k' t) = Idx (pool k t) \<and> Thid (pool k' t) = Thid (pool k t) \<and>
       stack_begin (pool k' t) = stack_begin (pool k t))"

named_theorems sched_same_intros "operations that leave the schedule alone"

lemma sched_same_refl [simp, sched_same_intros]: "sched_same k k"
  by (simp add: sched_same_def)

lemma sched_same_trans: "sched_same k k1 \<Longrightarrow> sched_same k1 k2 \<Longrightarrow> sched_same k k2"
  by (simp add: sched_same_def)

lemma sched_same_row: "sched_same k k' \<Longrightarrow> row k' p = row k p"
  by (simp add: sched_same_def row_def)

lemma sched_same_valid_tids: "sched_same k k' \<Longrightarrow> valid_tids k' = valid_tids k"
  by (simp add: sched_same_def valid_tids_def)

lemma sched_same_ok: "sched_same k k' \<Longrightarrow> sched_ok X k' = sched_ok X k"
  by (rule sched_ok_cong) (auto simp: sched_same_def)

lemma sched_same_inv: "sched_same k k' \<Longrightarrow> sched_inv X k' = sched_inv X k"
  by (simp add: sched_inv_def sched_same_ok sched_same_valid_tids) (simp add: sched_same_def)

lemma sched_same_upd_tcb [sched_same_intros]:
  assumes "\<And>c. valid (f c) = valid c \<and> Prio (f c) = Prio c \<and> Idx (f c) = Idx c \<and> Thid (f c) = Thid c \<and>
    stack_begin (f c) = stack_begin c"
  shows "sched_same k (upd_tcb t f k)"
  using assms by (simp add: sched_same_def)

lemma sched_same_detach_child: "sched_same k (detach_child t j k)"
  by (simp add: detach_child_def sched_same_def)

lemma sched_same_fold: "(\<And>j k. sched_same k (f j k)) \<Longrightarrow> sched_same k (fold f js k)"
  by (induction js arbitrary: k) (auto intro: sched_same_trans)

lemma sched_same_detach_children [sched_same_intros]: "sched_same k (tk_detach_children t k)"
  unfolding tk_detach_children_def by (rule sched_same_fold) (rule sched_same_detach_child)

lemma sched_same_unblock_parent: "sched_same k (unblock_parent t k)"
  unfolding unblock_parent_def Let_def by (rule sched_same_upd_tcb) simp

lemma sched_same_try_detach_parent:
  assumes "tk_try_detach_parent t force k = Inr (b, k')" shows "sched_same k k'"
proof -
  let ?k1 = "if parent_waits_for t k then unblock_parent t k else k"
  have s: "sched_same k ?k1" by (simp add: sched_same_unblock_parent)
  from assms consider "k' = k" | "k' = ?k1" | g where
    "k' = upd_tcb t (\<lambda>c. c\<lparr>Gid := -1\<rparr>) (upd_tcb g (\<lambda>c. c\<lparr>noChilds := noChilds c - 1\<rparr>) ?k1)"
    by (auto simp: tk_try_detach_parent_def Let_def result_elims split: if_splits)
  then show ?thesis
  proof cases
    case 3
    then have "sched_same ?k1 k'" by (simp add: sched_same_def)
    with s show ?thesis by (rule sched_same_trans)
  qed (use s in simp_all)
qed

subsection \<open>Burying a thread\<close>

lemma bury_thread_returns:
  assumes inv: "sched_inv X k" and t: "in_pool t" "valid (pool k t)" "t \<noteq> 0" "t \<notin> X"
    and room: "procs k (Prio (pool k t)) < TK_MAX_THREADS_AT_PRIO"
  obtains k' where "bury_thread t k = Inr k'" "sched_inv X k'"
    "row k' (Prio (pool k t)) = remove1 t (row k (Prio (pool k t)))"
    "\<And>q. q \<noteq> Prio (pool k t) \<Longrightarrow> row k' q = row k q"
    "\<And>u. \<exists>ix. pool k' u = (pool k u)\<lparr>Idx := ix, valid := valid (pool k u) \<and> u \<noteq> t\<rparr>"
    "live_stacks k' = live_stacks k - {stack_begin (pool k t)}"
    "\<exists>tp sc rr pu ls. k' = k\<lparr>threadPool := tp, schedule := sc, roundrobin_prio_idxs := rr,
       procs_in_use := pu, live_stacks := ls\<rparr>"
proof -
  let ?p = "Prio (pool k t)" and ?i = "Idx (pool k t)"
  let ?k0 = "k\<lparr>procs_in_use := procs_in_use k - 1\<rparr>"
  have ok: "sched_ok X k" using inv by (simp add: sched_inv_def)
  have p: "?p < TK_MAX_PRIO_LEVELS" by (rule valid_thread_slot(1) [OF ok t(1,2,4)])
  have i: "?i < procs k ?p" and s: "schedule k ?p ?i = t"
    using valid_thread_slot(2) [OF ok t(1,2,4)] t(3) by auto
  have ok0: "sched_ok X ?k0" using ok by (subst sched_ok_cong [where k = k]) auto
  have pr0: "procs ?k0 ?p = procs k ?p" "?i < procs ?k0 ?p" "schedule ?k0 ?p ?i = t"
    and r0: "row ?k0 q = row k q" for q
    using i s by (simp_all add: row_def)
  from unlink_row_total [OF ok0 p] room obtain k1 where k1: "unlink_row ?p ?i ?k0 = Inr k1"
    by auto
  let ?k2 = "k1\<lparr>live_stacks := live_stacks k1 - {stack_begin (pool k1 t)}\<rparr>"
  let ?k' = "upd_tcb t (\<lambda>c. c\<lparr>valid := False\<rparr>) ?k2"
  note fr = unlink_row_frame [OF k1]
  have pool1: "\<exists>ix. pool k1 u = (pool k u)\<lparr>Idx := ix\<rparr>" for u using fr(2) [of u] by simp
  from fr(1) obtain tp sc rr where e1: "k1 = ?k0\<lparr>threadPool := tp, schedule := sc, roundrobin_prio_idxs := rr\<rparr>"
    by blast
  have ls1: "live_stacks k1 = live_stacks k" and pu1: "procs_in_use k1 = procs_in_use k - 1"
    by (simp_all add: e1)
  have b: "bury_thread t k = Inr ?k'"
    using k1 s p i room by (simp add: bury_thread_def Let_def in_sched_def)
  have valid1: "valid (pool k1 u) = valid (pool k u)" for u using pool1 [of u] by auto
  have ok1: "sched_ok (insert t X) k1"
    using sched_ok_unlink [OF ok0 p pr0(2) _ k1] room s by simp
  have v: "valid_tids ?k' = valid_tids k - {t}"
    using valid1 by (auto simp: valid_tids_def)
  have row': "row ?k' q = row k1 q" for q by (simp add: row_def)
  have ok': "sched_ok X ?k'"
    unfolding sched_ok_def
  proof (intro conjI allI impI ballI)
    fix q assume q: "q < TK_MAX_PRIO_LEVELS"
    from sched_ok_row [OF ok1 q] show "row_ok X ?k' q"
      by (auto simp: row_ok_def entry_ok_def Let_def row')
  next
    fix u assume u: "u \<in> valid_tids ?k'"
    then have "u \<noteq> t" "u \<in> valid_tids k1" by (auto simp: valid_tids_def split: if_splits)
    with ok1 have "thread_ok (insert t X) k1 u" by (simp add: sched_ok_def)
    with \<open>u \<noteq> t\<close> show "thread_ok X ?k' u" by (simp add: thread_ok_def row')
  qed
  have cnt: "procs_in_use ?k' = int (card (valid_tids ?k'))"
  proof -
    have "t \<in> valid_tids k" using t by (simp add: valid_tids_def)
    then have "card (valid_tids ?k') = card (valid_tids k) - 1" "card (valid_tids k) > 0"
      by (auto simp: v card_gt_0_iff)
    moreover have "procs_in_use k = int (card (valid_tids k))" using inv by (simp add: sched_inv_def)
    ultimately show ?thesis by (simp add: pu1 of_nat_diff)
  qed
  have dist: "distinct (row k ?p)" using sched_ok_row [OF ok p] by (simp add: row_ok_def)
  show ?thesis
  proof (rule that [of ?k', OF b])
    show "sched_inv X ?k'" using ok' cnt by (simp add: sched_inv_def)
    show "row ?k' ?p = remove1 t (row k ?p)"
      using unlink_row_row(1) [OF k1 pr0(2)] i s dist
      by (simp add: row' r0 drop_nth_remove1 nth_row)
    show "row ?k' q = row k q" if "q \<noteq> ?p" for q
      using unlink_row_row(2) [OF k1 pr0(2) that] by (simp add: row' r0)
    show "\<exists>ix. pool ?k' u = (pool k u)\<lparr>Idx := ix, valid := valid (pool k u) \<and> u \<noteq> t\<rparr>" for u
      using pool1 [of u] by auto
    show "live_stacks ?k' = live_stacks k - {stack_begin (pool k t)}"
      using pool1 [of t] ls1 by auto
    show "\<exists>tp sc rr pu ls. ?k' = k\<lparr>threadPool := tp, schedule := sc, roundrobin_prio_idxs := rr,
       procs_in_use := pu, live_stacks := ls\<rparr>"
      by (rule exI [of _ "threadPool ?k'"], rule exI [of _ "schedule ?k'"],
          rule exI [of _ "roundrobin_prio_idxs ?k'"], rule exI [of _ "procs_in_use ?k'"],
          rule exI [of _ "live_stacks ?k'"]) (simp add: upd_tcb_def e1)
  qed
qed

text \<open>
  In a full row there is no slot behind the last one, so that the loop that closes the gap leaves
  the array.
\<close>

lemma unlink_row_full:
  assumes "sched_ok X k" "p < TK_MAX_PRIO_LEVELS" "i < procs k p" "TK_MAX_THREADS_AT_PRIO \<le> procs k p"
  shows "unlink_row p i k = Inl Out_of_bounds"
proof -
  have "procs k p = TK_MAX_THREADS_AT_PRIO" using sched_ok_row [OF assms(1,2)] assms(4) by (simp add: row_ok_def)
  then have "shift_row p i (procs k p) k = Inl Out_of_bounds"
    by (intro shift_row_full) (use assms(2,3) sched_ok_entry [OF assms(1,2)] in \<open>auto simp: entry_ok_def Let_def\<close>)
  then show ?thesis by (simp add: unlink_row_def)
qed

lemma bury_thread_full:
  assumes "sched_ok X k" and t: "in_pool t" "valid (pool k t)" "t \<noteq> 0" "t \<notin> X"
    and "TK_MAX_THREADS_AT_PRIO \<le> procs k (Prio (pool k t))"
  shows "bury_thread t k = Inl Out_of_bounds"
proof -
  let ?p = "Prio (pool k t)" and ?i = "Idx (pool k t)" and ?k = "k\<lparr>procs_in_use := procs_in_use k - 1\<rparr>"
  note v = valid_thread_slot [OF assms(1) t(1,2,4)]
  have i: "?i < procs k ?p" "schedule k ?p ?i = t" using v(2) t(3) by auto
  have "sched_ok X ?k" using assms(1) by (subst sched_ok_cong [where k = k]) auto
  then have "unlink_row ?p ?i ?k = Inl Out_of_bounds"
    by (rule unlink_row_full [OF _ v(1)]) (use i assms(6) in simp_all)
  moreover have "in_sched ?p ?i"
    using i(1) v(1) sched_ok_row [OF assms(1) v(1)] by (simp add: in_sched_def row_ok_def)
  ultimately show ?thesis using i(2) by (simp add: bury_thread_def Let_def)
qed

end
