(* ===== verification/TkFamily.thy ===== *)
theory TkFamily
  imports TkSchedInv
begin

text \<open>
  The family tree kept in \<^verbatim>\<open>Gid\<close> and \<^verbatim>\<open>noChilds\<close>: the invariant
  \<open>family_inv\<close> and what detaching children and parents do to it. With the invariant of the
  schedule it gives the behaviour of \<^verbatim>\<open>tk_delete_thread\<close> on every branch.
\<close>

section \<open>The family invariant\<close>

definition children :: "'a kern_scheme \<Rightarrow> thid_t \<Rightarrow> thid_t set" where
  "children k t = {c \<in> valid_tids k. Gid (pool k c) = t \<and> c \<noteq> t}"

text \<open>
  A valid thread has no parent or a living one; its child count is at least the number of
  its children (deleting a zombie that was not joined leaves the count of its parent too
  high); a zombie has no children; and a thread other than the root thread that is its own
  parent (the idle thread, see \<^verbatim>\<open>tk_create_kernel\<close>) has no child and never waits
  for one. The root thread is its own parent too and does have children.
\<close>

definition relative_ok :: "'a kern_scheme \<Rightarrow> thid_t \<Rightarrow> bool" where
  "relative_ok k t \<longleftrightarrow>
     (Gid (pool k t) = -1 \<or> Gid (pool k t) \<in> valid_tids k) \<and>
     int (card (children k t)) \<le> noChilds (pool k t) \<and>
     (has_flag (state (pool k t)) ZOMBI \<longrightarrow> children k t = {}) \<and>
     (t \<noteq> 0 \<and> Gid (pool k t) = t \<longrightarrow>
        noChilds (pool k t) = 0 \<and> \<not> has_flag (state (pool k t)) TERM_T)"

definition family_inv :: "'a kern_scheme \<Rightarrow> bool" where
  "family_inv k \<longleftrightarrow> (\<forall>t \<in> valid_tids k. relative_ok k t)"

lemma family_invD: "family_inv k \<Longrightarrow> t \<in> valid_tids k \<Longrightarrow> relative_ok k t"
  by (simp add: family_inv_def)

lemma finite_children [simp]: "finite (children k t)"
  by (rule finite_subset [OF _ finite_valid_tids [of k]]) (auto simp: children_def)

lemma not_own_child [simp]: "t \<notin> children k t"
  by (simp add: children_def)

section \<open>Detaching the children\<close>

text \<open>What the loop over \<open>js\<close> leaves: the children in \<open>js\<close> are orphans.\<close>

lemma detach_child_pool:
  assumes "in_pool j" "Gid (pool k t) \<noteq> t" "int (card (children k t)) \<le> noChilds (pool k t)"
  shows "pool (detach_child t j k) c =
    (if c = j \<and> j \<in> children k t then (pool k c)\<lparr>Gid := -1\<rparr>
     else if c = t \<and> j \<in> children k t then (pool k c)\<lparr>noChilds := noChilds (pool k c) - 1\<rparr>
     else pool k c)"
proof (cases "j \<in> children k t")
  case True
  then have "card (children k t) > 0" by (auto simp: card_gt_0_iff)
  with True assms(3) show ?thesis
    by (auto simp: detach_child_def children_def valid_tids_def)
next
  case False
  with assms(1,2) have "\<not> (valid (pool k j) \<and> Gid (pool k j) = t)"
    by (auto simp: children_def valid_tids_def)
  with False show ?thesis by (auto simp: detach_child_def)
qed

lemma children_detach_child:
  assumes "in_pool j" "t \<in> valid_tids k" "Gid (pool k t) \<noteq> t"
    "int (card (children k t)) \<le> noChilds (pool k t)"
  shows "children (detach_child t j k) t = children k t - {j}"
    and "Gid (pool (detach_child t j k) t) \<noteq> t"
    and "int (card (children (detach_child t j k) t)) \<le> noChilds (pool (detach_child t j k) t)"
proof -
  note p = detach_child_pool [OF assms(1,3,4)]
  have t: "t \<noteq> -1" using assms(2) by (auto simp: valid_tids_def)
  have v: "valid_tids (detach_child t j k) = valid_tids k"
    by (rule sched_same_valid_tids) (rule sched_same_detach_child)
  show c: "children (detach_child t j k) t = children k t - {j}"
    using t by (auto simp: children_def v p)
  show "Gid (pool (detach_child t j k) t) \<noteq> t" using assms(3) t by (auto simp: p)
  show "int (card (children (detach_child t j k) t)) \<le> noChilds (pool (detach_child t j k) t)"
  proof (cases "j \<in> children k t")
    case True
    then have "card (children k t) > 0" by (auto simp: card_gt_0_iff)
    with True assms(4) show ?thesis by (auto simp: c p of_nat_diff)
  next
    case False
    then show ?thesis using assms(4) by (auto simp: c p)
  qed
qed

lemma fold_detach_child_pool:
  assumes "set js \<subseteq> {t. in_pool t}" "t \<in> valid_tids k" "Gid (pool k t) \<noteq> t"
    "int (card (children k t)) \<le> noChilds (pool k t)" "distinct js"
  shows "pool (fold (detach_child t) js k) c =
    (if c \<in> set js \<and> c \<in> children k t then (pool k c)\<lparr>Gid := -1\<rparr>
     else if c = t then (pool k c)\<lparr>noChilds := noChilds (pool k c) - int (card (children k t \<inter> set js))\<rparr>
     else pool k c)"
  using assms
proof (induction js arbitrary: k)
  case Nil
  then show ?case by simp
next
  case (Cons j js)
  let ?k = "detach_child t j k"
  from Cons.prems(1) have j: "in_pool j" by simp
  note ch = children_detach_child [OF j Cons.prems(2-4)]
  have v: "t \<in> valid_tids ?k"
    using sched_same_valid_tids [OF sched_same_detach_child [of k t j]] Cons.prems(2) by simp
  from Cons.IH [OF _ v ch(2,3)] Cons.prems(1,5)
  have "pool (fold (detach_child t) js ?k) c =
    (if c \<in> set js \<and> c \<in> children ?k t then (pool ?k c)\<lparr>Gid := -1\<rparr>
     else if c = t then (pool ?k c)\<lparr>noChilds := noChilds (pool ?k c) - int (card (children ?k t \<inter> set js))\<rparr>
     else pool ?k c)" by simp
  moreover have "card (children k t \<inter> set (j # js)) =
    (if j \<in> children k t then Suc (card ((children k t - {j}) \<inter> set js))
     else card ((children k t - {j}) \<inter> set js))"
    if "j \<notin> set js"
  proof (cases "j \<in> children k t")
    case True
    then have "children k t \<inter> set (j # js) = insert j ((children k t - {j}) \<inter> set js)" by auto
    with True show ?thesis by simp
  next
    case False
    then have "children k t \<inter> set (j # js) = (children k t - {j}) \<inter> set js" by auto
    with False show ?thesis by simp
  qed
  ultimately show ?case
    using detach_child_pool [OF j Cons.prems(3,4)] Cons.prems(5) by (auto simp: ch(1))
qed

lemma fold_detach_none: "noChilds (pool k t) = 0 \<Longrightarrow> fold (detach_child t) js k = k"
  by (induction js) (auto simp: detach_child_def)

lemma detach_children_pool:
  assumes "t \<in> valid_tids k" "relative_ok k t" "t \<noteq> 0"
  shows "pool (tk_detach_children t k) c =
    (if c \<in> children k t then (pool k c)\<lparr>Gid := -1\<rparr>
     else if c = t then (pool k c)\<lparr>noChilds := noChilds (pool k c) - int (card (children k t))\<rparr>
     else pool k c)"
proof (cases "Gid (pool k t) = t")
  case True
  with assms(2,3) have e: "noChilds (pool k t) = 0" "children k t = {}" by (auto simp: relative_ok_def)
  then have "tk_detach_children t k = k" by (simp add: tk_detach_children_def fold_detach_none)
  with e show ?thesis by simp
next
  case False
  have "children k t \<inter> {t. in_pool t} = children k t" by (auto simp: children_def valid_tids_def)
  then show ?thesis
    using fold_detach_child_pool [of tids t k c] assms False
    by (auto simp: tk_detach_children_def relative_ok_def children_def valid_tids_def)
qed

section \<open>Detaching the parent\<close>

lemma unblock_parent_pool:
  "pool (unblock_parent t k) u =
     (if u = Gid (pool k t) then
        (pool k u)\<lparr>state := state (pool k u) AND NOT TERM_T, wakeupEvent := E_CHILDDEATH,
          bOnId := (if state (pool k u) AND NOT TERM_T = READY then \<lparr>kind = BON_SCHED, entity = Ent_null\<rparr>
                    else \<lparr>kind = BON_SCHED, entity = Ent_tcb t\<rparr>),
          retval := retval (pool k t)\<rparr>
      else pool k u)"
  by (simp add: unblock_parent_def Let_def)

text \<open>
  Under the invariant \<^verbatim>\<open>_tk_try_detach_parent\<close> never trips its assertions, keeps
  the invariant, and afterwards a detached thread has no parent.
\<close>

lemma try_detach_parent_ok:
  assumes fam: "family_inv k" and t: "t \<in> valid_tids k" and nz: "t \<noteq> 0" and force: "force \<Longrightarrow> Gid (pool k t) \<noteq> t"
  obtains b k' where "tk_try_detach_parent t force k = Inr (b, k')" "family_inv k'" "sched_same k k'"
    "b \<Longrightarrow> Gid (pool k' t) = -1" "\<not> b \<Longrightarrow> k' = k"
    "b \<longleftrightarrow> Gid (pool k t) = -1 \<or> parent_waits_for t k \<or> force"
    "\<And>u. u \<noteq> t \<Longrightarrow> Gid (pool k' u) = Gid (pool k u)"
    "\<And>u. has_flag (state (pool k' u)) ZOMBI = has_flag (state (pool k u)) ZOMBI"
proof (cases "Gid (pool k t) = -1")
  case True
  have "tk_try_detach_parent t force k = Inr (True, k)"
    using True t by (simp add: tk_try_detach_parent_def Let_def valid_tids_def)
  from that [OF this fam] True show ?thesis by simp
next
  case False
  let ?g = "Gid (pool k t)"
  from family_invD [OF fam t] False have g: "?g \<in> valid_tids k" by (simp add: relative_ok_def)
  have g': "in_pool ?g" "valid (pool k ?g)" using g by (simp_all add: valid_tids_def)
  let ?un = "parent_waits_for t k"
  obtain k1 where k1: "k1 = (if ?un then unblock_parent t k else k)" by blast
  show ?thesis
  proof (cases "?un \<or> force")
    case no: False
    have "tk_try_detach_parent t force k = Inr (False, k)"
      using False t g' no by (simp add: tk_try_detach_parent_def Let_def valid_tids_def)
    from that [OF this fam] no False show ?thesis by simp
  next
    case yes: True
    have self: "?g \<noteq> t"
      using yes force family_invD [OF fam t] nz by (auto simp: parent_waits_for_def relative_ok_def)
    then have tc: "t \<in> children k ?g" using t by (simp add: children_def)
    then have pos: "card (children k ?g) > 0" by (auto simp: card_gt_0_iff)
    let ?k' = "upd_tcb t (\<lambda>c. c\<lparr>Gid := -1\<rparr>) (upd_tcb ?g (\<lambda>c. c\<lparr>noChilds := noChilds c - 1\<rparr>) k1)"
    have nc: "int (card (children k ?g)) \<le> noChilds (pool k ?g)"
      using family_invD [OF fam g] by (simp add: relative_ok_def)
    have p1: "noChilds (pool k1 u) = noChilds (pool k u)" "Gid (pool k1 u) = Gid (pool k u)"
      "has_flag (state (pool k1 u)) ZOMBI = has_flag (state (pool k u)) ZOMBI"
      "has_flag (state (pool k1 u)) TERM_T \<Longrightarrow> has_flag (state (pool k u)) TERM_T" for u
      by (auto simp: k1 unblock_parent_pool split: if_splits)
    have r: "tk_try_detach_parent t force k = Inr (True, ?k')"
      using False t g' yes nc pos
      by (simp add: tk_try_detach_parent_def Let_def valid_tids_def p1 k1 [symmetric])
    from sched_same_try_detach_parent [OF r] have ss: "sched_same k ?k'" .
    note v = sched_same_valid_tids [OF ss]
    have neg: "u \<noteq> -1" if "u \<in> valid_tids k" for u using that by (auto simp: valid_tids_def)
    have ch: "children ?k' u = (if u = ?g then children k u - {t} else children k u)"
      if "u \<in> valid_tids k" for u
      using that neg [OF that] self by (auto simp: children_def v p1)
    have "relative_ok ?k' u" if u: "u \<in> valid_tids k" for u
    proof -
      from family_invD [OF fam u] have ru: "relative_ok k u" .
      show ?thesis
        using ru ch [OF u] pos tc nc self neg [OF u] p1(4) [of u]
        by (auto simp: relative_ok_def v p1(1-3) of_nat_diff split: if_splits)
    qed
    then have "family_inv ?k'" by (simp add: family_inv_def v)
    from that [OF r this ss] yes show ?thesis by (auto simp: p1 split: if_splits)
  qed
qed

section \<open>Deleting a thread\<close>

definition kernel_inv :: "thid_t set \<Rightarrow> 'a kern_scheme \<Rightarrow> bool" where
  "kernel_inv X k \<longleftrightarrow> sched_inv X k \<and> family_inv k"

text \<open>The two first steps of a deletion: the thread becomes a zombie without children.\<close>

abbreviation zombified :: "thid_t \<Rightarrow> 'a kern_scheme \<Rightarrow> 'a kern_scheme" where
  "zombified t k \<equiv> tk_detach_children t (upd_tcb t (\<lambda>c. c\<lparr>state := ZOMBI\<rparr>) k)"

lemma ZOMBI_not_TERM [simp]: "\<not> has_flag ZOMBI TERM_T"
  by (simp add: has_flag_def procstate_defs)

lemma zombified_same: "sched_same k (zombified t k)"
proof (rule sched_same_trans)
  show "sched_same k (upd_tcb t (\<lambda>c. c\<lparr>state := ZOMBI\<rparr>) k)" by (rule sched_same_upd_tcb) simp
qed (rule sched_same_detach_children)

lemma zombified_pool:
  assumes "family_inv k" "t \<in> valid_tids k" "t \<noteq> 0"
  shows "pool (zombified t k) c =
    (if c \<in> children k t then (pool k c)\<lparr>Gid := -1\<rparr>
     else if c = t then (pool k c)\<lparr>state := ZOMBI, noChilds := noChilds (pool k c) - int (card (children k t))\<rparr>
     else pool k c)"
proof -
  let ?k = "upd_tcb t (\<lambda>c. c\<lparr>state := ZOMBI\<rparr>) k"
  have v: "valid_tids ?k = valid_tids k" by (auto simp: valid_tids_def)
  have ch: "children ?k u = children k u" for u by (auto simp: children_def v)
  from assms have "relative_ok k t" by (simp add: family_inv_def)
  then have le: "int (card (children k t)) \<le> noChilds (pool k t)" by (simp add: relative_ok_def)
  show ?thesis
  proof (cases "Gid (pool k t) = t")
    case True
    with \<open>relative_ok k t\<close> have e: "noChilds (pool k t) = 0" "children k t = {}"
      using assms(3) by (auto simp: relative_ok_def)
    then have "tk_detach_children t ?k = ?k" by (simp add: tk_detach_children_def fold_detach_none)
    with e show ?thesis by simp
  next
    case False
    have "children ?k t \<inter> {t. in_pool t} = children ?k t" by (auto simp: children_def valid_tids_def)
    then show ?thesis
      using fold_detach_child_pool [of tids t ?k c] assms(2) False le
      by (simp add: tk_detach_children_def ch v) (auto simp: children_def valid_tids_def)
  qed
qed

lemma zombified_inv:
  assumes "kernel_inv X k" "t \<in> valid_tids k" "t \<noteq> 0"
  shows "kernel_inv X (zombified t k)" and "children (zombified t k) t = {}"
    and "parent_waits_for t (zombified t k) \<longleftrightarrow> parent_waits_for t k"
    and "Gid (pool (zombified t k) t) = Gid (pool k t)"
proof -
  have fam: "family_inv k" using assms(1) by (simp add: kernel_inv_def)
  note p = zombified_pool [OF fam assms(2,3)]
  note v = sched_same_valid_tids [OF zombified_same [of k t]]
  have neg: "u \<in> valid_tids k \<Longrightarrow> u \<noteq> -1" for u by (auto simp: valid_tids_def)
  have ch: "children (zombified t k) u = (if u = t then {} else children k u)" if "u \<in> valid_tids k" for u
    using neg [OF that] neg [OF assms(2)] by (auto simp: children_def v p)
  show "children (zombified t k) t = {}" by (simp add: ch [OF assms(2)])
  show g: "Gid (pool (zombified t k) t) = Gid (pool k t)" by (simp add: p)
  show "parent_waits_for t (zombified t k) \<longleftrightarrow> parent_waits_for t k"
    using family_invD [OF fam assms(2)] assms(3) by (auto simp: parent_waits_for_def g p relative_ok_def)
  have "relative_ok (zombified t k) u" if u: "u \<in> valid_tids k" for u
    using family_invD [OF fam u] ch [OF u] neg [OF u]
    by (auto simp: relative_ok_def v p)
  then have "family_inv (zombified t k)" by (simp add: family_inv_def v)
  with assms(1) show "kernel_inv X (zombified t k)"
    by (simp add: kernel_inv_def sched_same_inv [OF zombified_same])
qed

text \<open>Burying a thread that has no children keeps the family in order.\<close>

lemma bury_family:
  assumes "family_inv k" "t \<in> valid_tids k" "children k t = {}"
    and "\<And>u. \<exists>ix. pool k' u = (pool k u)\<lparr>Idx := ix, valid := valid (pool k u) \<and> u \<noteq> t\<rparr>"
  shows "family_inv k'" and "valid_tids k' = valid_tids k - {t}"
proof -
  have s: "Gid (pool k' u) = Gid (pool k u)" "noChilds (pool k' u) = noChilds (pool k u)"
    "state (pool k' u) = state (pool k u)" "valid (pool k' u) \<longleftrightarrow> valid (pool k u) \<and> u \<noteq> t" for u
    using assms(4) [of u] by auto
  show v: "valid_tids k' = valid_tids k - {t}" by (auto simp: valid_tids_def s)
  have sub: "children k' u \<subseteq> children k u" for u by (auto simp: children_def v s)
  have "relative_ok k' u" if u: "u \<in> valid_tids k'" for u
  proof -
    from u v have u': "u \<in> valid_tids k" "u \<noteq> t" by auto
    from family_invD [OF assms(1) u'(1)] have r: "relative_ok k u" .
    have "Gid (pool k u) \<noteq> t" using assms(3) u' by (auto simp: children_def)
    with r sub [of u] card_mono [OF finite_children sub [of u]] show ?thesis
      by (auto simp: relative_ok_def s v)
  qed
  then show "family_inv k'" by (simp add: family_inv_def)
qed

text \<open>What burying \<open>t\<close> leaves: its row without it, and every other thread as it was.\<close>

definition buried :: "thid_t set \<Rightarrow> thid_t \<Rightarrow> 'a kern_scheme \<Rightarrow> 'a kern_scheme \<Rightarrow> bool" where
  "buried X t k k' \<longleftrightarrow> kernel_inv X k' \<and>
     row k' (Prio (pool k t)) = remove1 t (row k (Prio (pool k t))) \<and>
     (\<forall>q. q \<noteq> Prio (pool k t) \<longrightarrow> row k' q = row k q) \<and>
     valid_tids k' = valid_tids k - {t} \<and>
     live_stacks k' = live_stacks k - {stack_begin (pool k t)} \<and>
     (\<forall>u. \<exists>ix. pool k' u = (pool k u)\<lparr>Idx := ix, valid := valid (pool k u) \<and> u \<noteq> t\<rparr>) \<and>
     (\<exists>tp sc rr pu ls. k' = k\<lparr>threadPool := tp, schedule := sc, roundrobin_prio_idxs := rr,
       procs_in_use := pu, live_stacks := ls\<rparr>)"

lemma bury_thread_kernel:
  assumes inv: "kernel_inv X k" and t: "t \<in> valid_tids k" "t \<noteq> 0" "t \<notin> X"
    and room: "procs k (Prio (pool k t)) < TK_MAX_THREADS_AT_PRIO" and ch: "children k t = {}"
  obtains k' where "bury_thread t k = Inr k'" "buried X t k k'"
proof -
  from inv have s: "sched_inv X k" and f: "family_inv k" by (simp_all add: kernel_inv_def)
  from t have t': "in_pool t" "valid (pool k t)" by (simp_all add: valid_tids_def)
  show ?thesis
  proof (rule bury_thread_returns [OF s t' t(2,3) room])
    fix k'
    assume k': "bury_thread t k = Inr k'" "sched_inv X k'"
      "row k' (Prio (pool k t)) = remove1 t (row k (Prio (pool k t)))"
      "\<And>q. q \<noteq> Prio (pool k t) \<Longrightarrow> row k' q = row k q"
      "\<And>u. \<exists>ix. pool k' u = (pool k u)\<lparr>Idx := ix, valid := valid (pool k u) \<and> u \<noteq> t\<rparr>"
      "live_stacks k' = live_stacks k - {stack_begin (pool k t)}"
      "\<exists>tp sc rr pu ls. k' = k\<lparr>threadPool := tp, schedule := sc, roundrobin_prio_idxs := rr,
         procs_in_use := pu, live_stacks := ls\<rparr>"
    have "buried X t k k'"
      unfolding buried_def kernel_inv_def
      using k'(2-7) bury_family [OF f t(1) ch k'(5)] by blast
    with k'(1) show thesis by (rule that)
  qed
qed

text \<open>
  \<^verbatim>\<open>tk_delete_thread\<close> of a valid thread other than the root thread keeps the
  invariant; it succeeds if the row of a thread that is buried at once is not full. The thread is buried at once when it
  was a zombie already, when it has no parent, or when its parent waits for it; otherwise it
  stays in its row as a zombie, to be joined.
\<close>

definition buried_at_once :: "thid_t \<Rightarrow> 'a kern_scheme \<Rightarrow> bool" where
  "buried_at_once t k \<longleftrightarrow>
     has_flag (state (pool k t)) ZOMBI \<or> Gid (pool k t) = -1 \<or> parent_waits_for t k"

lemma delete_thread_ok:
  assumes inv: "kernel_inv X k" and t: "t \<in> valid_tids k" "t \<noteq> 0" "t \<notin> X"
    and room: "buried_at_once t k \<Longrightarrow> procs k (Prio (pool k t)) < TK_MAX_THREADS_AT_PRIO"
  obtains k' where "tk_delete_thread t k = Inr (TK_OK, k')" "kernel_inv X k'"
    "valid_tids k' = (if buried_at_once t k then valid_tids k - {t} else valid_tids k)"
    "row k' (Prio (pool k t)) =
       (if buried_at_once t k then remove1 t (row k (Prio (pool k t))) else row k (Prio (pool k t)))"
    "\<And>q. q \<noteq> Prio (pool k t) \<Longrightarrow> row k' q = row k q"
    "\<not> buried_at_once t k \<Longrightarrow> state (pool k' t) = ZOMBI"
proof -
  from t have t': "in_pool t" "valid (pool k t)" by (simp_all add: valid_tids_def)
  show ?thesis
  proof (cases "has_flag (state (pool k t)) ZOMBI")
    case True
    from inv t True have "children k t = {}"
      by (simp add: kernel_inv_def family_inv_def relative_ok_def)
    moreover have once: "buried_at_once t k" using True by (simp add: buried_at_once_def)
    ultimately show ?thesis
    proof (elim bury_thread_kernel [OF inv t room [OF once]])
      fix k'
      assume k': "bury_thread t k = Inr k'" "buried X t k k'"
      have "tk_delete_thread t k = Inr (TK_OK, k')"
        using True t' k'(1) by (simp add: tk_delete_thread_def)
      with once show ?thesis using that [of k'] k'(2) by (simp add: buried_def)
    qed
  next
    case False
    note z = zombified_inv [OF inv t(1,2)]
    note zs = zombified_same [of k t]
    have tz: "t \<in> valid_tids (zombified t k)" by (simp add: sched_same_valid_tids [OF zs] t(1))
    have famz: "family_inv (zombified t k)" using z(1) by (simp add: kernel_inv_def)
    from try_detach_parent_ok [OF famz tz t(2), of False] obtain b k2 where
      d: "tk_try_detach_parent t False (zombified t k) = Inr (b, k2)" "family_inv k2"
      "sched_same (zombified t k) k2" "b \<Longrightarrow> Gid (pool k2 t) = -1" "\<not> b \<Longrightarrow> k2 = zombified t k"
      "b \<longleftrightarrow> Gid (pool (zombified t k) t) = -1 \<or> parent_waits_for t (zombified t k) \<or> False"
      "\<And>u. u \<noteq> t \<Longrightarrow> Gid (pool k2 u) = Gid (pool (zombified t k) u)"
      by metis
    have b: "b = buried_at_once t k" using d(6) z(3,4) False by (simp add: buried_at_once_def)
    note s2 = sched_same_trans [OF zs d(3)]
    have inv2: "kernel_inv X k2"
      using d(2) inv sched_same_inv [OF s2] by (simp add: kernel_inv_def)
    have del: "tk_delete_thread t k =
      (if b then andThen (bury_thread t k2) (\<lambda>k2. Inr (TK_OK, k2)) else Inr (TK_OK, k2))"
      using False t' d(1) by (simp add: tk_delete_thread_def)
    show ?thesis
    proof (cases b)
      case nb: False
      have "state (pool k2 t) = ZOMBI"
        using d(5) nb zombified_pool [of k t t] inv t(1,2) by (simp add: kernel_inv_def)
      moreover have "tk_delete_thread t k = Inr (TK_OK, k2)" using del nb by simp
      moreover have bn: "\<not> buried_at_once t k" using nb b by simp
      moreover note inv2
      ultimately show ?thesis
        using that [of k2] sched_same_row [OF s2] sched_same_valid_tids [OF s2] by simp
    next
      case yb: True
      have t2: "t \<in> valid_tids k2" "Prio (pool k2 t) = Prio (pool k t)"
        "procs k2 (Prio (pool k t)) = procs k (Prio (pool k t))"
        using s2 t(1) by (auto simp: sched_same_def valid_tids_def)
      have "children k2 t \<subseteq> children (zombified t k) t"
      proof
        fix c assume "c \<in> children k2 t"
        then have "c \<in> valid_tids (zombified t k)" "Gid (pool k2 c) = t" "c \<noteq> t"
          by (simp_all add: children_def sched_same_valid_tids [OF d(3)])
        with d(7) [OF this(3)] show "c \<in> children (zombified t k) t" by (simp add: children_def)
      qed
      with z(2) have "children k2 t = {}" by simp
      moreover from room [OF b [THEN iffD1, OF yb]] t2(2,3) have "procs k2 (Prio (pool k2 t)) < TK_MAX_THREADS_AT_PRIO" by simp
      ultimately show ?thesis
      proof (elim bury_thread_kernel [OF inv2 t2(1) t(2,3), rotated])
        fix k'
        assume bk: "bury_thread t k2 = Inr k'" "buried X t k2 k'"
        then have k': "bury_thread t k2 = Inr k'" "kernel_inv X k'"
          "row k' (Prio (pool k2 t)) = remove1 t (row k2 (Prio (pool k2 t)))"
          "\<And>q. q \<noteq> Prio (pool k2 t) \<Longrightarrow> row k' q = row k2 q" "valid_tids k' = valid_tids k2 - {t}"
          by (simp_all add: buried_def)
        have "tk_delete_thread t k = Inr (TK_OK, k')" using del yb k'(1) by simp
        moreover have bn: "buried_at_once t k" using yb b by simp
        moreover have "valid_tids k' = valid_tids k - {t}"
          using k'(5) sched_same_valid_tids [OF s2] by simp
        moreover have "row k' (Prio (pool k t)) = remove1 t (row k (Prio (pool k t)))"
          using k'(3) sched_same_row [OF s2] t2(2) by simp
        moreover have "row k' q = row k q" if "q \<noteq> Prio (pool k t)" for q
          using k'(4) [of q] sched_same_row [OF s2] t2(2) that by simp
        ultimately show ?thesis using that [of k'] k'(2) by simp
      qed
    qed
  qed
qed

end
