(* ===== verification/TkChoice.thy ===== *)
theory TkChoice
  imports TkFamily
begin

text \<open>
  The choice of the next thread (\<^verbatim>\<open>_tk_next_runable_thread\<close>) as a search of the rows
  in priority order, and \<^verbatim>\<open>tk_change_prio\<close> as moving a thread from one row to the end
  of another.
\<close>

section \<open>The next thread\<close>

definition ready :: "'a kern_scheme \<Rightarrow> thid_t \<Rightarrow> bool" where
  "ready k t \<longleftrightarrow> state (pool k t) = READY"

lemma row_valid:
  assumes "sched_ok X k" "p < TK_MAX_PRIO_LEVELS" "t \<in> set (row k p)"
  shows "t \<in> valid_tids k" "t \<notin> X" "Prio (pool k t) = p" "Thid (pool k t) = t"
proof -
  from assms show v: "t \<in> valid_tids k" "t \<notin> X" "Prio (pool k t) = p"
    by (auto elim!: row_entryE simp: valid_tids_def)
  with assms(1) show "Thid (pool k t) = t" by (simp add: sched_ok_def thread_ok_def)
qed

lemma try_row_find:
  assumes ok: "sched_ok X k" and p: "p < TK_MAX_PRIO_LEVELS"
  shows "idx + m = procs k p \<Longrightarrow> lst \<notin> set (drop idx (row k p)) \<Longrightarrow>
    try_row k p (procs k p) idx m lst = Inr
      (case find (ready k) (drop idx (row k p)) of
         Some t \<Rightarrow> (Some t, t) | None \<Rightarrow> (None, last (lst # drop idx (row k p))))"
proof (induction m arbitrary: idx lst)
  case 0
  then show ?case by simp
next
  case (Suc m)
  let ?t = "schedule k p idx"
  from Suc.prems have i: "idx < procs k p" by simp
  have d: "drop idx (row k p) = ?t # drop (Suc idx) (row k p)"
    using i by (simp add: nth_row flip: Cons_nth_drop_Suc)
  have "row k p ! idx \<in> set (row k p)" using i by simp
  then have "?t \<in> set (row k p)" by (simp add: nth_row i)
  note v = row_valid [OF ok p this]
  have len: "procs k p \<le> TK_MAX_THREADS_AT_PRIO" and dist: "distinct (row k p)"
    using sched_ok_row [OF ok p] by (simp_all add: row_ok_def)
  have "distinct (drop idx (row k p))" using dist by simp
  then have nt: "?t \<notin> set (drop (Suc idx) (row k p))" unfolding d by simp
  have nl: "?t \<noteq> lst" using Suc.prems(2) unfolding d by simp
  have s: "in_sched p idx" using p i len by (simp add: in_sched_def)
  have rest: "try_row k p (procs k p) ((idx + 1) mod procs k p) m ?t = Inr
      (case find (ready k) (drop (Suc idx) (row k p)) of
         Some t \<Rightarrow> (Some t, t) | None \<Rightarrow> (None, last (?t # drop (Suc idx) (row k p))))"
  proof (cases m)
    case 0
    with Suc.prems have "drop (Suc idx) (row k p) = []" by simp
    with 0 show ?thesis by simp
  next
    case (Suc m')
    with Suc.prems have "(idx + 1) mod procs k p = Suc idx" by simp
    with Suc.IH [of "Suc idx" ?t] Suc.prems nt show ?thesis by simp
  qed
  show ?case
  proof (cases "state (pool k ?t) = READY")
    case True
    then have "ready k ?t" by (simp add: ready_def)
    with True v s nl show ?thesis by (simp add: d valid_tids_def Let_def)
  next
    case False
    then have "\<not> ready k ?t" by (simp add: ready_def)
    with False v s nl rest show ?thesis by (simp add: d valid_tids_def Let_def split: option.split)
  qed
qed

text \<open>The threads of all rows from priority \<open>p\<close> on, most urgent first.\<close>

definition rows_from :: "'a kern_scheme \<Rightarrow> nat list \<Rightarrow> thid_t list" where
  "rows_from k ps = concat (map (row k) ps)"

lemma find_append:
  "find P (xs @ ys) = (case find P xs of Some x \<Rightarrow> Some x | None \<Rightarrow> find P ys)"
  by (induction xs) auto

lemma try_rows_find:
  assumes ok: "sched_ok X k"
  shows "sorted ps \<Longrightarrow> distinct ps \<Longrightarrow> set ps \<subseteq> {..<TK_MAX_PRIO_LEVELS} \<Longrightarrow>
    lst \<notin> set (rows_from k ps) \<Longrightarrow>
    try_rows k ps lst = Inr (case find (ready k) (rows_from k ps) of Some t \<Rightarrow> t | None \<Rightarrow> idle_Thid k)"
proof (induction ps arbitrary: lst)
  case Nil
  then show ?case by (simp add: rows_from_def)
next
  case (Cons p ps)
  from Cons.prems(3) have p: "p < TK_MAX_PRIO_LEVELS" by simp
  have c: "curr_idx (roundrobin_prio_idxs k p) = 0"
    using sched_ok_row [OF ok p] by (simp add: row_ok_def)
  have f: "find (ready k) (rows_from k (p # ps)) =
      (case find (ready k) (row k p) of Some t \<Rightarrow> Some t | None \<Rightarrow> find (ready k) (rows_from k ps))"
    by (simp add: rows_from_def find_append cong: option.case_cong)
  have disj: "t \<notin> set (rows_from k ps)" if "t \<in> set (row k p)" for t
  proof
    assume "t \<in> set (rows_from k ps)"
    then obtain q where q: "q \<in> set ps" "t \<in> set (row k q)" by (auto simp: rows_from_def)
    with Cons.prems(3) have "q < TK_MAX_PRIO_LEVELS" by auto
    from row_valid(3) [OF ok this q(2)] row_valid(3) [OF ok p that] have "q = p" by simp
    with q(1) Cons.prems(2) show False by simp
  qed
  show ?case
  proof (cases "procs k p = 0")
    case True
    then have "row k p = []" by (simp add: row_def)
    with True f Cons.IH [of lst] Cons.prems show ?thesis by (simp add: rows_from_def)
  next
    case False
    let ?l = "last (lst # row k p)"
    have "row k p \<noteq> []" using False by (metis length_row list.size(3))
    then have "?l \<in> set (row k p)" by simp
    then have "?l \<notin> set (rows_from k ps)" by (rule disj)
    with Cons.IH [of ?l] Cons.prems have
      ih: "try_rows k ps ?l = Inr (case find (ready k) (rows_from k ps) of Some t \<Rightarrow> t | None \<Rightarrow> idle_Thid k)"
      by simp
    have "lst \<notin> set (row k p)" using Cons.prems(4) by (simp add: rows_from_def)
    with try_row_find [OF ok p, of 0 "procs k p" lst] False c f ih show ?thesis
      by (simp split: option.splits)
  qed
qed

lemma next_runable_find:
  assumes "sched_inv X k"
  shows "tk_next_runable_thread k = Inr
    (case find (ready k) (rows_from k [0..<TK_MAX_PRIO_LEVELS]) of Some t \<Rightarrow> t | None \<Rightarrow> idle_Thid k)"
proof -
  have ok: "sched_ok X k" using assms by (simp add: sched_inv_def)
  have "-1 \<notin> set (rows_from k [0..<TK_MAX_PRIO_LEVELS])"
    using row_valid(1) [OF ok] by (fastforce simp: rows_from_def valid_tids_def)
  then show ?thesis
    unfolding tk_next_runable_thread_def by (intro try_rows_find [OF ok]) auto
qed

lemma find_SomeD: "find P xs = Some x \<Longrightarrow> x \<in> set xs \<and> P x"
  by (auto simp: find_Some_iff)

text \<open>Every valid thread is in the rows; what the search finds is most urgent.\<close>

lemma set_rows_from:
  assumes "sched_ok X k"
  shows "set (rows_from k [0..<TK_MAX_PRIO_LEVELS]) = valid_tids k - X"
proof (intro equalityI subsetI)
  fix t assume "t \<in> set (rows_from k [0..<TK_MAX_PRIO_LEVELS])"
  then show "t \<in> valid_tids k - X" using row_valid(1,2) [OF assms] by (auto simp: rows_from_def)
next
  fix t assume t: "t \<in> valid_tids k - X"
  with assms have "thread_ok X k t" by (simp add: sched_ok_def)
  with t show "t \<in> set (rows_from k [0..<TK_MAX_PRIO_LEVELS])"
    by (auto simp: thread_ok_def rows_from_def)
qed

lemma find_rows_from_least:
  assumes ok: "sched_ok X k" and f: "find (ready k) (rows_from k ps) = Some t" and "sorted ps"
    and ps: "set ps \<subseteq> {..<TK_MAX_PRIO_LEVELS}" and u: "u \<in> set (rows_from k ps)" "ready k u"
  shows "Prio (pool k t) \<le> Prio (pool k u)"
  using f \<open>sorted ps\<close> ps u
proof (induction ps)
  case Nil
  then show ?case by (simp add: rows_from_def)
next
  case (Cons p ps)
  from Cons.prems(3) have p: "p < TK_MAX_PRIO_LEVELS" by simp
  have uprio: "p \<le> Prio (pool k u)"
  proof -
    from Cons.prems(4) obtain q where q: "q \<in> set (p # ps)" "u \<in> set (row k q)"
      by (auto simp: rows_from_def)
    moreover from q(1) Cons.prems(3) have "q < TK_MAX_PRIO_LEVELS" by auto
    ultimately have "Prio (pool k u) = q" using row_valid(3) [OF ok] by simp
    with q(1) Cons.prems(2) show ?thesis by auto
  qed
  show ?case
  proof (cases "find (ready k) (row k p)")
    case (Some s)
    with Cons.prems(1) have "s = t" by (simp add: rows_from_def find_append)
    with find_SomeD [OF Some] row_valid(3) [OF ok p] uprio show ?thesis by simp
  next
    case None
    then have "u \<notin> set (row k p)" using Cons.prems(5) by (auto simp: find_None_iff)
    with Cons None show ?thesis by (simp add: rows_from_def find_append)
  qed
qed

lemma next_runable_most_urgent:
  assumes inv: "sched_inv X k"
  obtains t where "tk_next_runable_thread k = Inr t"
    "(t \<in> valid_tids k - X \<and> ready k t) \<or> (t = idle_Thid k \<and> (\<forall>u \<in> valid_tids k - X. \<not> ready k u))"
    "\<forall>u \<in> valid_tids k - X. ready k u \<longrightarrow> Prio (pool k t) \<le> Prio (pool k u)"
proof -
  have ok: "sched_ok X k" using inv by (simp add: sched_inv_def)
  let ?rs = "rows_from k [0..<TK_MAX_PRIO_LEVELS]"
  note s = set_rows_from [OF ok]
  show ?thesis
  proof (cases "find (ready k) ?rs")
    case None
    then have "\<forall>u \<in> valid_tids k - X. \<not> ready k u" by (auto simp: find_None_iff simp flip: s)
    with None next_runable_find [OF inv] that [of "idle_Thid k"] show ?thesis by simp
  next
    case (Some t)
    have "Prio (pool k t) \<le> Prio (pool k u)" if "u \<in> valid_tids k - X" "ready k u" for u
      by (rule find_rows_from_least [OF ok Some]) (use that s in auto)
    with Some next_runable_find [OF inv] find_SomeD [OF Some] that [of t] s show ?thesis by simp
  qed
qed

section \<open>Entering a row\<close>

text \<open>A thread in no row is put behind the last one of row \<open>p\<close>.\<close>

definition linked :: "nat \<Rightarrow> thid_t \<Rightarrow> (tcb_t \<Rightarrow> tcb_t) \<Rightarrow> 'a kern_scheme \<Rightarrow> 'a kern_scheme" where
  "linked p t f k = upd_tcb t f
     (upd_stat p (\<lambda>s. s\<lparr>procs_at_prio := procs_at_prio s + 1\<rparr>) (set_slot p (procs k p) t k))"

lemma linked_sel [simp]:
  "threadPool (linked p t f k) u = (if u = t then f (threadPool k t) else threadPool k u)"
  "schedule (linked p t f k) q j = (if q = p \<and> j = procs k p then t else schedule k q j)"
  "procs (linked p t f k) q = (if q = p then Suc (procs k p) else procs k q)"
  "curr_idx (roundrobin_prio_idxs (linked p t f k) q) = curr_idx (roundrobin_prio_idxs k q)"
  "active_thread (linked p t f k) = active_thread k"
  "procs_in_use (linked p t f k) = procs_in_use k"
  "proc_idx (linked p t f k) = proc_idx k"
  "idle_Thid (linked p t f k) = idle_Thid k"
  "live_stacks (linked p t f k) = live_stacks k"
  by (simp_all add: linked_def)

lemma linked_row:
  "row (linked p t f k) q = (if q = p then row k p @ [t] else row k q)"
  by (auto simp: row_def)

lemma sched_ok_link:
  assumes ok: "sched_ok X k" and p: "p < TK_MAX_PRIO_LEVELS" and room: "procs k p < TK_MAX_THREADS_AT_PRIO"
    and t: "in_pool t" "t \<in> X \<or> \<not> valid (pool k t)"
    and f: "valid (f (pool k t))" "Prio (f (pool k t)) = p" "Idx (f (pool k t)) = procs k p"
      "Thid (f (pool k t)) = t"
  shows "sched_ok (X - {t}) (linked p t f k)" and "valid_tids (linked p t f k) = insert t (valid_tids k)"
proof -
  let ?k' = "linked p t f k"
  show v: "valid_tids ?k' = insert t (valid_tids k)" using t f by (auto simp: valid_tids_def)
  have out: "schedule k q i \<noteq> t" if "q < TK_MAX_PRIO_LEVELS" "i < procs k q" for q i
    using sched_ok_entry [OF ok that] t(2) by (auto simp: entry_ok_def Let_def)
  have "row_ok (X - {t}) ?k' q" if q: "q < TK_MAX_PRIO_LEVELS" for q
  proof -
    have "t \<notin> set (row k q)"
    proof
      assume "t \<in> set (row k q)"
      then obtain i where "i < procs k q" "schedule k q i = t" by (auto simp: row_def)
      with out [OF q] show False by blast
    qed
    then have d: "distinct (row ?k' q)"
      using sched_ok_row [OF ok q] by (auto simp: linked_row row_ok_def)
    have e: "entry_ok (X - {t}) ?k' q i" if "i < procs ?k' q" for i
    proof (cases "q = p \<and> i = procs k p")
      case True
      then show ?thesis using t f by (auto simp: entry_ok_def)
    next
      case False
      with that have i: "i < procs k q" by (auto split: if_splits)
      with False out [OF q i] sched_ok_entry [OF ok q i] show ?thesis
        by (auto simp: entry_ok_def Let_def)
    qed
    from d e sched_ok_row [OF ok q] room show ?thesis by (auto simp: row_ok_def)
  qed
  moreover have "thread_ok (X - {t}) ?k' u" if "u \<in> valid_tids ?k'" for u
  proof (cases "u = t")
    case True
    with f p show ?thesis by (simp add: thread_ok_def linked_row)
  next
    case False
    with that ok have "thread_ok X k u" by (auto simp: v sched_ok_def)
    with False show ?thesis by (auto simp add: thread_ok_def linked_row)
  qed
  ultimately show "sched_ok (X - {t}) ?k'" by (simp add: sched_ok_def)
qed

section \<open>Changing a priority\<close>

lemma change_prio_error_0:
  assumes "valid (pool k tid)" "p < TK_MAX_PRIO_LEVELS" "procs k p < TK_MAX_THREADS_AT_PRIO"
  shows "change_prio_error tid p k = 0"
  using assms by (simp add: change_prio_error_def)

lemma change_prio_ok:
  assumes inv: "kernel_inv X k" and t: "t \<in> valid_tids k" "t \<noteq> 0" "t \<notin> X"
    and p: "p < TK_MAX_PRIO_LEVELS" "p \<noteq> Prio (pool k t)" "procs k p < TK_MAX_THREADS_AT_PRIO"
    and room: "procs k (Prio (pool k t)) < TK_MAX_THREADS_AT_PRIO"
  shows "\<exists>k'. tk_change_prio t (int p) k = Inr (wants_yield t p k, k') \<and> kernel_inv X k' \<and>
    valid_tids k' = valid_tids k \<and> Prio (pool k' t) = p \<and> row k' p = row k p @ [t] \<and>
    row k' (Prio (pool k t)) = remove1 t (row k (Prio (pool k t))) \<and>
    (\<forall>q. q \<noteq> p \<longrightarrow> q \<noteq> Prio (pool k t) \<longrightarrow> row k' q = row k q) \<and>
    (\<forall>u. \<exists>pr ix. pool k' u = (pool k u)\<lparr>Prio := pr, Idx := ix\<rparr>) \<and>
    (\<exists>tp sc rr. k' = k\<lparr>threadPool := tp, schedule := sc, roundrobin_prio_idxs := rr\<rparr>)"
proof -
  let ?o = "Prio (pool k t)" and ?i = "Idx (pool k t)"
  have si: "sched_inv X k" and fam: "family_inv k" using inv by (simp_all add: kernel_inv_def)
  have ok: "sched_ok X k" using si by (simp add: sched_inv_def)
  from t have t': "in_pool t" "valid (pool k t)" by (simp_all add: valid_tids_def)
  have o: "?o < TK_MAX_PRIO_LEVELS" by (rule valid_thread_slot(1) [OF ok t' t(3)])
  have i: "?i < procs k ?o" and s: "schedule k ?o ?i = t"
    using valid_thread_slot(2) [OF ok t' t(3)] t(2) by auto
  from unlink_row_total [OF ok o room] obtain k1 where k1: "unlink_row ?o ?i k = Inr k1" by blast
  note fr = unlink_row_frame [OF k1]
  have pool1: "\<exists>ix. pool k1 u = (pool k u)\<lparr>Idx := ix\<rparr>" for u using fr(2) [of u] by simp
  have ok1: "sched_ok (insert t X) k1" using sched_ok_unlink [OF ok o i room k1] s by simp
  have pr: "procs k1 p = procs k p" using fr(3) p(2) by simp
  let ?f = "\<lambda>c. c\<lparr>Prio := p, Idx := procs k1 p\<rparr>"
  let ?k' = "linked p t ?f k1"
  have e: "tk_change_prio t (int p) k = Inr (wants_yield t p k, ?k')"
    using k1 t' p change_prio_error_0 [OF t'(2) p(1,3)]
    by (simp add: tk_change_prio_def Let_def in_sched_def pr linked_def)
  have v1: "valid (pool k1 t)" "Thid (pool k1 t) = t"
    using pool1 [of t] t' ok t(1) by (auto simp: sched_ok_def thread_ok_def)
  have l: "sched_ok X ?k'" "valid_tids ?k' = insert t (valid_tids k1)"
    using sched_ok_link [OF ok1 p(1), of t ?f] p(3) pr t'(1) v1 t(3) by simp_all
  have "valid_tids k1 = valid_tids k"
    using pool1 by (auto simp: valid_tids_def) (metis tcb_t.select_convs(5) tcb_t.surjective tcb_t.update_convs(16))+
  then have v0: "valid_tids ?k' = valid_tids k" using l(2) t(1) by auto
  obtain k' where k': "k' = ?k'" by blast
  have e': "tk_change_prio t (int p) k = Inr (wants_yield t p k, k')" using e by (simp only: k')
  have v: "valid_tids k' = valid_tids k" using v0 by (simp only: k')
  have pool': "pool k' u = (pool k u)\<lparr>Prio := Prio (pool k' u), Idx := Idx (pool k' u)\<rparr>" for u
    using pool1 [of u] by (auto simp: k')
  have pool'': "\<exists>pr ix. pool k' u = (pool k u)\<lparr>Prio := pr, Idx := ix\<rparr>" for u
    using pool' by blast
  obtain tp sc rr where e1: "k1 = k\<lparr>threadPool := tp, schedule := sc, roundrobin_prio_idxs := rr\<rparr>"
    using fr(1) by blast
  have fr': "\<exists>tp sc rr. k' = k\<lparr>threadPool := tp, schedule := sc, roundrobin_prio_idxs := rr\<rparr>"
  proof (intro exI)
    show "k' = k\<lparr>threadPool := threadPool k', schedule := schedule k', roundrobin_prio_idxs := roundrobin_prio_idxs k'\<rparr>"
      by (simp add: k' linked_def upd_tcb_def upd_stat_def set_slot_def e1)
  qed
  from e1 have "procs_in_use k1 = procs_in_use k" by simp
  then have "procs_in_use k' = procs_in_use k" by (simp add: k')
  moreover have "sched_ok X k'" using l(1) by (simp only: k')
  ultimately have "sched_inv X k'" using v si by (simp add: sched_inv_def)
  moreover have "family_inv k'"
  proof -
    have g: "Gid (pool k' u) = Gid (pool k u)" "noChilds (pool k' u) = noChilds (pool k u)"
      "state (pool k' u) = state (pool k u)" for u
      by (subst pool', simp)+
    have "children k' u = children k u" for u by (simp add: children_def v g)
    with fam show ?thesis by (simp add: family_inv_def relative_ok_def v g)
  qed
  moreover have r1: "row k1 ?o = remove1 t (row k ?o)"
    using unlink_row_row(1) [OF k1 i] sched_ok_row [OF ok o] i s
    by (simp add: row_ok_def drop_nth_remove1 nth_row)
  have rq: "row k1 q = row k q" if "q \<noteq> ?o" for q
    using unlink_row_row(2) [OF k1 i that] .
  have "row k' q = (if q = p then row k p @ [t] else if q = ?o then remove1 t (row k ?o) else row k q)" for q
    using r1 rq [of p] rq [of q] p(2) unfolding k' linked_row by auto
  moreover have "Prio (pool k' t) = p" by (simp add: k')
  ultimately show ?thesis
    using e' v p(2) fr' pool'' by (intro exI [of _ k']) (simp add: kernel_inv_def)
qed

lemma change_prio_full:
  assumes "sched_ok X k" and t: "t \<in> valid_tids k" "t \<noteq> 0" "t \<notin> X"
    and p: "p < TK_MAX_PRIO_LEVELS" "p \<noteq> Prio (pool k t)" "procs k p < TK_MAX_THREADS_AT_PRIO"
    and full: "TK_MAX_THREADS_AT_PRIO \<le> procs k (Prio (pool k t))"
  shows "tk_change_prio t (int p) k = Inl Out_of_bounds"
proof -
  have t': "in_pool t" "valid (pool k t)" using t(1) by (simp_all add: valid_tids_def)
  note v = valid_thread_slot [OF assms(1) t' t(3)]
  have "unlink_row (Prio (pool k t)) (Idx (pool k t)) k = Inl Out_of_bounds"
    by (rule unlink_row_full [OF assms(1) v(1) _ full]) (use v(2) t(2) in auto)
  then show ?thesis
    using t' p change_prio_error_0 [OF t'(2) p(1,3)] by (simp add: tk_change_prio_def Let_def)
qed

lemma change_prio_exits:
  assumes "in_pool t" "0 \<le> prio" "prio < int TK_MAX_PRIO_LEVELS"
    and "\<not> valid (pool k t) \<or> procs k (nat prio) \<ge> TK_MAX_THREADS_AT_PRIO"
  shows "\<exists>c. tk_change_prio t prio k = Inl (Tk_exit c)"
proof -
  have "change_prio_error t (nat prio) k \<noteq> 0"
    using assms(3,4) by (auto simp: change_prio_error_def trap_defs)
  with assms show ?thesis by (simp add: tk_change_prio_def Let_def)
qed

end
