(* ===== verification/TkSwitch.thy ===== *)
theory TkSwitch
  imports TkChoice
begin

text \<open>
  The dispatcher, \<^verbatim>\<open>src/tk_switch.c\<close>: waking the threads whose time is up,
  reaping zombies, and giving up the processor.

  A context switch leaves the C function of the caller and comes back when the caller is
  dispatched again. What the other threads do meanwhile is the application's code: it is the
  parameter \<open>oth\<close> of the operations that yield, a function from the thread that waits to
  be dispatched and the state at the switch to the state when it is.
\<close>

section \<open>Operations\<close>

subsection \<open>The list of preempted threads\<close>

definition tk_preemplist :: "thid_t \<Rightarrow> 'a kern_scheme \<Rightarrow> 'a kern_scheme" where
  "tk_preemplist thid k =
     k\<lparr>npreempt := npreempt k + 1, preemptlist := (preemptlist k)(inpreempt k := thid),
       inpreempt := (inpreempt k + 1) mod TK_MAX_THREADS\<rparr>"

subsection \<open>Time-outs and zombies\<close>

text \<open>
  \<^verbatim>\<open>tk_difftime(act_time_us, wakeuptime) >= 0\<close>: the difference of two clock values
  as a signed number (\<^verbatim>\<open>time_t\<close> is signed).
\<close>

definition expired :: "clock_t \<Rightarrow> tcb_t \<Rightarrow> bool" where
  "expired now c \<longleftrightarrow> 0 \<le> sint (now - wakeuptime c)"

definition time_out :: "clock_t \<Rightarrow> thid_t \<Rightarrow> 'a kern_scheme \<Rightarrow> 'a kern_scheme" where
  "time_out now i k =
     (if has_flag (state (pool k i)) SLEEP \<and> expired now (pool k i) then
        upd_tcb i (\<lambda>c. c\<lparr>state := state c AND NOT STATE_QS, wakeupEvent := E_TIMER\<rparr>) k
      else k)"

definition reap :: "thid_t \<Rightarrow> 'a kern_scheme \<Rightarrow> 'a kern_scheme result" where
  "reap i k =
     (if has_flag (state (pool k i)) ZOMBI \<and> i \<noteq> active_thread k then
        andThen (tk_try_detach_parent i False k) (\<lambda>(gone, k1).
          if gone then andThen (tk_delete_thread i k1) (\<lambda>(_, k2). Inr k2) else Inr k1)
      else Inr k)"

definition wakeup_one :: "clock_t \<Rightarrow> thid_t \<Rightarrow> 'a kern_scheme \<Rightarrow> 'a kern_scheme result" where
  "wakeup_one now i k =
     (if npreempt k > 0 then Inr k
      else if valid (pool k i) then reap i (time_out now i k)
      else Inr k)"

definition tk_wakeup_timedout_threads :: "'a kern_scheme \<Rightarrow> 'a kern_scheme result" where
  "tk_wakeup_timedout_threads k = foldR (wakeup_one (clock_now k)) tids k"

subsection \<open>Yielding\<close>

text \<open>
  \<^verbatim>\<open>tk_yield\<close> up to the context switch. The thread taken from the list of preempted
  threads is overwritten by the choice of \<^verbatim>\<open>_tk_next_runable_thread\<close>, as in the code.
\<close>

definition take_preempted :: "'a kern_scheme \<Rightarrow> 'a kern_scheme result" where
  "take_preempted k =
     (if npreempt k > 0 then
        c_assert (npreempt k < 2)
          (Inr (k\<lparr>npreempt := npreempt k - 1, thread_to_run := preemptlist k (outpreempt k),
             outpreempt := (outpreempt k + 1) mod TK_MAX_THREADS\<rparr>))
      else Inr k)"

definition dispatch :: "'a kern_scheme \<Rightarrow> 'a kern_scheme result" where
  "dispatch k = andThen (tk_next_runable_thread k) (\<lambda>t.
     Inr (k\<lparr>thread_to_run := t, active_thread := t\<rparr>))"

definition tk_yield_switch :: "'a kern_scheme \<Rightarrow> 'a kern_scheme result" where
  "tk_yield_switch k =
     c_assert (IntFlagCntr k = 0)
       (andThen (tk_wakeup_timedout_threads k) (\<lambda>k1. andThen (take_preempted k1) dispatch))"

type_synonym 'a others = "thid_t \<Rightarrow> 'a kern_scheme \<Rightarrow> 'a kern_scheme result"

text \<open>Control comes back to \<open>me\<close>: at once if it was dispatched itself.\<close>

definition resume :: "'a others \<Rightarrow> thid_t \<Rightarrow> 'a kern_scheme \<Rightarrow> 'a kern_scheme result" where
  "resume oth me k = (if active_thread k = me then Inr k else oth me k)"

definition tk_yield :: "'a others \<Rightarrow> 'a kern_scheme \<Rightarrow> 'a kern_scheme result" where
  "tk_yield oth k = andThen (tk_yield_switch k) (resume oth (active_thread k))"

definition tk_yield_event :: "'a others \<Rightarrow> 'a kern_scheme \<Rightarrow> 'a kern_scheme result" where
  "tk_yield_event oth k = andThen (dispatch k) (resume oth (active_thread k))"

section \<open>What waking up and reaping change\<close>

text \<open>
  The part of the state that the scheduler's data operations never touch: who runs, the
  preemption list, the clock, and the globals of the other components.
\<close>

definition ctl_same :: "'a kern_scheme \<Rightarrow> 'a kern_scheme \<Rightarrow> bool" where
  "ctl_same k k' \<longleftrightarrow>
     active_thread k' = active_thread k \<and> proc_idx k' = proc_idx k \<and> idle_Thid k' = idle_Thid k \<and>
     IntFlagCntr k' = IntFlagCntr k \<and> npreempt k' = npreempt k \<and> inpreempt k' = inpreempt k \<and>
     outpreempt k' = outpreempt k \<and> preemptlist k' = preemptlist k \<and> clock_now k' = clock_now k \<and>
     kern.more k' = kern.more k"

lemma ctl_same_refl [simp]: "ctl_same k k"
  by (simp add: ctl_same_def)

lemma ctl_same_trans: "ctl_same k k1 \<Longrightarrow> ctl_same k1 k2 \<Longrightarrow> ctl_same k k2"
  by (simp add: ctl_same_def)

lemma ctl_same_upd_tcb [simp]: "ctl_same k (upd_tcb t f k)"
  by (simp add: ctl_same_def)

lemma ctl_same_try_detach_parent:
  "tk_try_detach_parent t force k = Inr (b, k') \<Longrightarrow> ctl_same k k'"
  by (auto simp: tk_try_detach_parent_def Let_def result_elims ctl_same_def unblock_parent_def
      split: if_splits)

lemma ctl_same_buried: "buried X t k k' \<Longrightarrow> ctl_same k k'"
  by (auto simp: buried_def ctl_same_def)

text \<open>
  The state in which the scheduler's operations work: the invariant, and a living root
  thread. There may be full rows; what goes wrong then is that a zombie in a full row cannot be
  taken out of it (\<open>stuck_zombie\<close>), because the loop that closes the gap reads the slot
  behind the row.
\<close>

definition kernel_ok :: "thid_t set \<Rightarrow> 'a kern_scheme \<Rightarrow> bool" where
  "kernel_ok X k \<longleftrightarrow> kernel_inv X k \<and>
     (\<forall>t \<in> insert 0 X. t \<in> valid_tids k \<and> \<not> has_flag (state (pool k t)) ZOMBI)"

definition full_row :: "nat \<Rightarrow> 'a kern_scheme \<Rightarrow> bool" where
  "full_row p k \<longleftrightarrow> TK_MAX_THREADS_AT_PRIO \<le> procs k p"

definition stuck_zombie :: "'a kern_scheme \<Rightarrow> bool" where
  "stuck_zombie k \<longleftrightarrow> (\<exists>t \<in> valid_tids k. has_flag (state (pool k t)) ZOMBI \<and> full_row (Prio (pool k t)) k)"

lemma stuck_zombie_mono:
  assumes "stuck_zombie k'" "valid_tids k' \<subseteq> valid_tids k" "\<And>q. procs k' q \<le> procs k q"
    and "\<And>u. has_flag (state (pool k' u)) ZOMBI = has_flag (state (pool k u)) ZOMBI" "\<And>u. Prio (pool k' u) = Prio (pool k u)"
  shows "stuck_zombie k"
  using assms unfolding stuck_zombie_def full_row_def by (metis order_trans subsetD)

lemma kernel_okD:
  assumes "kernel_ok X k"
  shows "kernel_inv X k" "sched_inv X k" "sched_ok X k" "family_inv k"
  using assms by (simp_all add: kernel_ok_def kernel_inv_def sched_inv_def)

lemma full_row_iff:
  assumes "sched_ok X k" "t \<in> valid_tids k" "t \<notin> X"
  shows "full_row (Prio (pool k t)) k \<longleftrightarrow> procs k (Prio (pool k t)) = TK_MAX_THREADS_AT_PRIO"
proof -
  have "Prio (pool k t) < TK_MAX_PRIO_LEVELS"
    by (rule valid_thread_slot(1) [OF assms(1) _ _ assms(3)]) (use assms(2) in \<open>auto simp: valid_tids_def\<close>)
  from sched_ok_row [OF assms(1) this] show ?thesis by (auto simp: row_ok_def full_row_def)
qed

lemma stuck_zombie_full:
  assumes "kernel_ok X k" "stuck_zombie k"
  shows "\<exists>t \<in> valid_tids k. has_flag (state (pool k t)) ZOMBI \<and> procs k (Prio (pool k t)) = TK_MAX_THREADS_AT_PRIO"
proof -
  obtain t where t: "t \<in> valid_tids k" "has_flag (state (pool k t)) ZOMBI" "full_row (Prio (pool k t)) k"
    using assms(2) by (auto simp: stuck_zombie_def)
  moreover have "t \<notin> X" using assms(1) t(2) by (auto simp: kernel_ok_def)
  ultimately show ?thesis using full_row_iff [OF kernel_okD(3) [OF assms(1)]] by blast
qed

text \<open>An operation that leaves the schedule alone and the family in order keeps \<open>kernel_ok\<close>.\<close>

lemma kernel_ok_same:
  assumes "kernel_ok X k" "sched_same k k'" "family_inv k'"
    and "\<And>t. t \<in> insert 0 X \<Longrightarrow> \<not> has_flag (state (pool k' t)) ZOMBI"
  shows "kernel_ok X k'"
proof -
  show ?thesis
    using assms sched_same_inv [OF assms(2)] sched_same_valid_tids [OF assms(2)]
    by (simp add: kernel_ok_def kernel_inv_def)
qed

lemma buried_pool: "buried X t k k' \<Longrightarrow> \<exists>ix. pool k' u = (pool k u)\<lparr>Idx := ix, valid := valid (pool k u) \<and> u \<noteq> t\<rparr>"
  by (simp add: buried_def)

lemma buried_state:
  assumes "buried X t k k'"
  shows "state (pool k' u) = state (pool k u)" "wakeuptime (pool k' u) = wakeuptime (pool k u)"
    "Gid (pool k' u) = Gid (pool k u)" "Prio (pool k' u) = Prio (pool k u)"
  using buried_pool [OF assms, of u] by auto

lemma buried_procs:
  assumes "buried X t k k'"
  shows "procs k' q \<le> procs k q"
proof -
  have "length (row k' q) \<le> length (row k q)"
    using assms by (cases "q = Prio (pool k t)") (auto simp: buried_def length_remove1)
  then show ?thesis by simp
qed

lemma kernel_ok_buried:
  assumes "kernel_ok X k" "buried X t k k'" "t \<notin> insert 0 X"
  shows "kernel_ok X k'"
proof -
  have "state (pool k' u) = state (pool k u)" for u by (rule buried_state [OF assms(2)])
  moreover have "kernel_inv X k'" "valid_tids k' = valid_tids k - {t}" using assms(2) by (simp_all add: buried_def)
  ultimately show ?thesis using assms(1,3) by (auto simp: kernel_ok_def)
qed

text \<open>Two states of a thread that only differ where a state change may.\<close>

lemma relative_ok_states:
  assumes "family_inv k" and "sched_same k k'"
    and "\<And>u. Gid (pool k' u) = Gid (pool k u)" "\<And>u. noChilds (pool k' u) = noChilds (pool k u)"
    and "\<And>u. has_flag (state (pool k' u)) ZOMBI = has_flag (state (pool k u)) ZOMBI"
    and "\<And>u. u \<noteq> 0 \<Longrightarrow> Gid (pool k u) = u \<Longrightarrow> has_flag (state (pool k' u)) TERM_T \<Longrightarrow>
          has_flag (state (pool k u)) TERM_T"
  shows "family_inv k'"
proof -
  have v: "valid_tids k' = valid_tids k" by (rule sched_same_valid_tids [OF assms(2)])
  have c: "children k' u = children k u" for u by (simp add: children_def v assms(3))
  have "relative_ok k' u" if "u \<in> valid_tids k" for u
    using family_invD [OF assms(1) that] assms(6) [of u] by (auto simp: relative_ok_def v c assms(3-5))
  then show ?thesis by (simp add: family_inv_def v)
qed

lemma time_out_pool:
  "wakeuptime (pool (time_out now i k) u) = wakeuptime (pool k u)"
  "has_flag (state (pool (time_out now i k) u)) ZOMBI = has_flag (state (pool k u)) ZOMBI"
  "Gid (pool (time_out now i k) u) = Gid (pool k u)"
  "ready k u \<Longrightarrow> ready (time_out now i k) u"
  "has_flag (state (pool (time_out now i k) u)) SLEEP \<longleftrightarrow>
     has_flag (state (pool k u)) SLEEP \<and> \<not> (u = i \<and> expired now (pool k u))"
  by (auto simp: time_out_def ready_def)

lemma time_out_ok:
  assumes "kernel_ok X k"
  shows "kernel_ok X (time_out now i k)" "ctl_same k (time_out now i k)" "sched_same k (time_out now i k)"
proof -
  show s: "sched_same k (time_out now i k)"
    by (simp add: time_out_def) (intro impI sched_same_upd_tcb, simp)
  show "ctl_same k (time_out now i k)" by (simp add: time_out_def)
  have "has_flag (x AND NOT STATE_QS) TERM_T = has_flag x TERM_T" for x
    unfolding has_flag_def by (subst clear_flags_disjoint) (simp_all add: procstate_defs)
  then have "family_inv (time_out now i k)"
    by (intro relative_ok_states [OF kernel_okD(4) [OF assms] s]) (simp_all add: time_out_def split: if_splits)
  then show "kernel_ok X (time_out now i k)"
    by (rule kernel_ok_same [OF assms s]) (use assms in \<open>auto simp: time_out_pool kernel_ok_def\<close>)
qed

lemma try_detach_parent_state:
  assumes "tk_try_detach_parent t force k = Inr (b, k')"
  shows "wakeuptime (pool k' u) = wakeuptime (pool k u)"
    "has_flag (state (pool k' u)) SLEEP = has_flag (state (pool k u)) SLEEP"
    "ready k u \<Longrightarrow> ready k' u"
    "Gid (pool k' u) = (if u = t \<and> b then -1 else Gid (pool k u))"
  using assms by (auto simp: tk_try_detach_parent_def Let_def result_elims unblock_parent_pool ready_def
      parent_waits_for_def split: if_splits)

text \<open>A parent that waits for \<open>t\<close> is handed \<open>t\<close>'s return value and made runnable.\<close>

definition delivered :: "int \<Rightarrow> tcb_t \<Rightarrow> bool" where
  "delivered rv c \<longleftrightarrow> retval c = rv \<and> wakeupEvent c = E_CHILDDEATH \<and> \<not> has_flag (state c) TERM_T"

lemma try_detach_parent_delivers:
  assumes "tk_try_detach_parent t force k = Inr (b, k')" "parent_waits_for t k"
    "Gid (pool k t) \<noteq> -1" "Gid (pool k t) \<noteq> t"
  shows "delivered (retval (pool k t)) (pool k' (Gid (pool k t)))"
  using assms by (auto simp: tk_try_detach_parent_def Let_def result_elims unblock_parent_pool delivered_def
      split: if_splits)

text \<open>A zombie is buried if it has no parent or its parent waits for it.\<close>

definition lay_to_rest :: "thid_t \<Rightarrow> 'a kern_scheme \<Rightarrow> 'a kern_scheme result" where
  "lay_to_rest i k = andThen (tk_try_detach_parent i False k)
     (\<lambda>(gone, k1). if gone then bury_thread i k1 else Inr k1)"

definition laid_to_rest :: "thid_t set \<Rightarrow> thid_t \<Rightarrow> 'a kern_scheme \<Rightarrow> 'a kern_scheme \<Rightarrow> bool" where
  "laid_to_rest X i k k' \<longleftrightarrow> kernel_ok X k' \<and> ctl_same k k' \<and>
     (\<forall>u. wakeuptime (pool k' u) = wakeuptime (pool k u) \<and>
       has_flag (state (pool k' u)) ZOMBI = has_flag (state (pool k u)) ZOMBI \<and>
       has_flag (state (pool k' u)) SLEEP = has_flag (state (pool k u)) SLEEP \<and>
       Prio (pool k' u) = Prio (pool k u) \<and> (ready k u \<longrightarrow> ready k' u) \<and>
       (Gid (pool k' u) = Gid (pool k u) \<or> u = i \<and> Gid (pool k' u) = -1)) \<and>
     valid_tids k' = (if Gid (pool k i) = -1 \<or> parent_waits_for i k then valid_tids k - {i} else valid_tids k) \<and>
     (\<forall>q. procs k' q \<le> procs k q) \<and>
     (parent_waits_for i k \<and> Gid (pool k i) \<noteq> -1 \<longrightarrow>
       delivered (retval (pool k i)) (pool k' (Gid (pool k i))))"

lemma lay_to_rest_ok:
  assumes ok: "kernel_ok X k" and i: "i \<in> valid_tids k" and z: "has_flag (state (pool k i)) ZOMBI"
    and room: "Gid (pool k i) = -1 \<or> parent_waits_for i k \<Longrightarrow> \<not> full_row (Prio (pool k i)) k"
  shows "\<exists>k'. lay_to_rest i k = Inr k' \<and> laid_to_rest X i k k'"
proof -
  have nz: "i \<noteq> 0" "i \<notin> X" using ok z by (auto simp: kernel_ok_def)
  have self: "parent_waits_for i k \<Longrightarrow> Gid (pool k i) \<noteq> i"
    using family_invD [OF kernel_okD(4) [OF ok] i] nz(1) by (auto simp: relative_ok_def parent_waits_for_def)
  from try_detach_parent_ok [OF kernel_okD(4) [OF ok] i nz(1), of False] obtain gone k1 where
    d: "tk_try_detach_parent i False k = Inr (gone, k1)" "family_inv k1" "sched_same k k1"
      "gone \<Longrightarrow> Gid (pool k1 i) = -1" "\<not> gone \<Longrightarrow> k1 = k"
      "gone \<longleftrightarrow> Gid (pool k i) = -1 \<or> parent_waits_for i k \<or> False"
      "\<And>u. u \<noteq> i \<Longrightarrow> Gid (pool k1 u) = Gid (pool k u)"
      "\<And>u. has_flag (state (pool k1 u)) ZOMBI = has_flag (state (pool k u)) ZOMBI"
    by metis
  note c1 = ctl_same_try_detach_parent [OF d(1)]
  note s1 = try_detach_parent_state [OF d(1)]
  show ?thesis
  proof (cases gone)
    case False
    then have "lay_to_rest i k = Inr k" using d(1,5) by (simp add: lay_to_rest_def)
    moreover have "laid_to_rest X i k k" using ok False d(6) by (auto simp: laid_to_rest_def)
    ultimately show ?thesis by blast
  next
    case g: True
    have ok1: "kernel_ok X k1"
      by (rule kernel_ok_same [OF ok d(3,2)]) (use ok d(8) in \<open>auto simp: kernel_ok_def\<close>)
    have i1: "i \<in> valid_tids k1" using i sched_same_valid_tids [OF d(3)] by simp
    have z1: "has_flag (state (pool k1 i)) ZOMBI" using z d(8) by simp
    have "procs k1 (Prio (pool k1 i)) < TK_MAX_THREADS_AT_PRIO"
      using room d(3,6) g by (auto simp: full_row_def sched_same_def)
    moreover have "children k1 i = {}"
      using family_invD [OF d(2) i1] z1 by (simp add: relative_ok_def)
    ultimately show ?thesis
    proof (rule bury_thread_kernel [OF kernel_okD(1) [OF ok1] i1 nz])
      fix k2
      assume b: "bury_thread i k1 = Inr k2" "buried X i k1 k2"
      have "lay_to_rest i k = Inr k2" using d(1) g b(1) by (simp add: lay_to_rest_def)
      moreover have "kernel_ok X k2" by (rule kernel_ok_buried [OF ok1 b(2)]) (use nz in simp)
      moreover have "ctl_same k k2" by (rule ctl_same_trans [OF c1 ctl_same_buried [OF b(2)]])
      moreover have "valid_tids k2 = valid_tids k - {i}"
        using b(2) sched_same_valid_tids [OF d(3)] by (simp add: buried_def)
      moreover have "procs k2 q \<le> procs k q" for q
        using buried_procs [OF b(2), of q] d(3) by (simp add: sched_same_def)
      moreover have "Prio (pool k2 u) = Prio (pool k u)" for u
        using buried_state(4) [OF b(2)] d(3) by (simp add: sched_same_def)
      moreover have "delivered (retval (pool k i)) (pool k2 (Gid (pool k i)))"
        if "parent_waits_for i k" "Gid (pool k i) \<noteq> -1"
        using try_detach_parent_delivers [OF d(1) that self [OF that(1)]]
          buried_pool [OF b(2), of "Gid (pool k i)"] by (auto simp: delivered_def)
      ultimately show ?thesis
        using g d(6,8) s1 buried_state(1-3) [OF b(2)] by (auto simp: laid_to_rest_def ready_def)
    qed
  qed
qed

lemma lay_to_rest_full:
  assumes ok: "kernel_ok X k" and i: "i \<in> valid_tids k" "i \<notin> insert 0 X"
    and gone: "Gid (pool k i) = -1 \<or> parent_waits_for i k" and full: "full_row (Prio (pool k i)) k"
  shows "lay_to_rest i k = Inl Out_of_bounds"
proof -
  have nz: "i \<noteq> 0" "i \<notin> X" using i(2) by auto
  from try_detach_parent_ok [OF kernel_okD(4) [OF ok] i(1) nz(1), of False] gone obtain k1 where
    d: "tk_try_detach_parent i False k = Inr (True, k1)" "sched_same k k1" by metis
  have "sched_inv X k1" using kernel_okD(2) [OF ok] sched_same_inv [OF d(2)] by blast
  then have "sched_ok X k1" by (simp add: sched_inv_def)
  moreover have "in_pool i" "valid (pool k1 i)" "TK_MAX_THREADS_AT_PRIO \<le> procs k1 (Prio (pool k1 i))"
    using i(1) d(2) full by (simp_all add: valid_tids_def sched_same_def full_row_def)
  ultimately show ?thesis using bury_thread_full [of X k1 i] nz d(1) by (simp add: lay_to_rest_def)
qed

lemma reap_lay:
  assumes "kernel_ok X k" "i \<in> valid_tids k" "has_flag (state (pool k i)) ZOMBI" "i \<noteq> active_thread k"
  shows "reap i k = lay_to_rest i k"
proof -
  have nz: "i \<noteq> 0" using assms(1,3) by (auto simp: kernel_ok_def)
  from try_detach_parent_ok [OF kernel_okD(4) [OF assms(1)] assms(2) nz, of False] obtain gone k1 where
    d: "tk_try_detach_parent i False k = Inr (gone, k1)" "sched_same k k1"
      "has_flag (state (pool k1 i)) ZOMBI = has_flag (state (pool k i)) ZOMBI"
    by metis
  have "valid (pool k1 i)" "in_pool i" using assms(2) d(2) by (simp_all add: valid_tids_def sched_same_def)
  with d(1,3) assms(3,4) show ?thesis
    by (simp add: reap_def lay_to_rest_def tk_delete_thread_def andThen_assoc)
qed

lemma reap_ok:
  assumes ok: "kernel_ok X k" and i: "i \<in> valid_tids k"
  obtains (stuck) "reap i k = Inl Out_of_bounds" "stuck_zombie k"
  | (fine) k' where "reap i k = Inr k'" "kernel_ok X k'" "ctl_same k k'"
    "\<And>u. wakeuptime (pool k' u) = wakeuptime (pool k u)"
    "\<And>u. has_flag (state (pool k' u)) ZOMBI = has_flag (state (pool k u)) ZOMBI"
    "\<And>u. has_flag (state (pool k' u)) SLEEP = has_flag (state (pool k u)) SLEEP"
    "valid_tids k' = (if has_flag (state (pool k i)) ZOMBI \<and> i \<noteq> active_thread k \<and>
        (Gid (pool k i) = -1 \<or> parent_waits_for i k) then valid_tids k - {i} else valid_tids k)"
    "\<And>u. Prio (pool k' u) = Prio (pool k u)" "\<And>q. procs k' q \<le> procs k q"
    "\<And>u. ready k u \<Longrightarrow> ready k' u"
    "\<And>u. Gid (pool k' u) = Gid (pool k u) \<or> has_flag (state (pool k u)) ZOMBI \<and> Gid (pool k' u) = -1"
proof (cases "has_flag (state (pool k i)) ZOMBI \<and> i \<noteq> active_thread k")
  case False
  then have "reap i k = Inr k" by (auto simp: reap_def)
  then show ?thesis by (rule fine) (use ok False in auto)
next
  case True
  note lay = reap_lay [OF ok i]
  show ?thesis
  proof (cases "(Gid (pool k i) = -1 \<or> parent_waits_for i k) \<and> full_row (Prio (pool k i)) k")
    case f: True
    have "i \<notin> insert 0 X" using ok True by (auto simp: kernel_ok_def)
    from lay_to_rest_full [OF ok i this] f lay True have "reap i k = Inl Out_of_bounds" by auto
    moreover have "stuck_zombie k" using f True i by (auto simp: stuck_zombie_def)
    ultimately show ?thesis by (rule stuck)
  next
    case False
    with lay_to_rest_ok [OF ok i] lay True obtain k' where
      k': "reap i k = Inr k'" "laid_to_rest X i k k'" by auto
    show ?thesis by (rule fine [OF k'(1)]) (use k'(2) True in \<open>auto simp: laid_to_rest_def\<close>)
  qed
qed

section \<open>The wake-up scan\<close>

text \<open>One iteration, and what the scan over \<open>js\<close> does to a thread.\<close>

definition woken_rel :: "thid_t set \<Rightarrow> clock_t \<Rightarrow> thid_t set \<Rightarrow> 'a kern_scheme \<Rightarrow> 'a kern_scheme \<Rightarrow> bool" where
  "woken_rel X now J k k' \<longleftrightarrow>
     kernel_ok X k' \<and> ctl_same k k' \<and> valid_tids k' \<subseteq> valid_tids k \<and>
     (\<forall>u \<in> valid_tids k. u \<notin> valid_tids k' \<longrightarrow> has_flag (state (pool k u)) ZOMBI \<and> u \<noteq> active_thread k) \<and>
     (\<forall>u. wakeuptime (pool k' u) = wakeuptime (pool k u) \<and>
       has_flag (state (pool k' u)) ZOMBI = has_flag (state (pool k u)) ZOMBI \<and>
       Prio (pool k' u) = Prio (pool k u) \<and> (ready k u \<longrightarrow> ready k' u) \<and>
       (Gid (pool k' u) = Gid (pool k u) \<or> has_flag (state (pool k u)) ZOMBI \<and> Gid (pool k' u) = -1)) \<and>
     (\<forall>q. procs k' q \<le> procs k q) \<and>
     (\<forall>u \<in> valid_tids k'. has_flag (state (pool k' u)) SLEEP \<longleftrightarrow>
       has_flag (state (pool k u)) SLEEP \<and> \<not> (u \<in> J \<and> expired now (pool k u)))"

lemma woken_rel_refl: "kernel_ok X k \<Longrightarrow> woken_rel X now {} k k"
  by (simp add: woken_rel_def)

lemma woken_rel_trans:
  assumes "woken_rel X now I k k1" "woken_rel X now J k1 k2"
  shows "woken_rel X now (I \<union> J) k k2"
proof -
  have e: "expired now (pool k1 u) = expired now (pool k u)" for u
    using assms(1) by (simp add: woken_rel_def expired_def)
  have g: "Gid (pool k2 u) = Gid (pool k u) \<or> has_flag (state (pool k u)) ZOMBI \<and> Gid (pool k2 u) = -1" for u
    using assms unfolding woken_rel_def by metis
  have p: "procs k2 q \<le> procs k q" for q
    using assms unfolding woken_rel_def by (meson order_trans)
  have "valid_tids k2 \<subseteq> valid_tids k1" using assms(2) by (simp add: woken_rel_def)
  with assms e g p show ?thesis
    unfolding woken_rel_def by (simp add: ctl_same_def subset_iff) blast
qed

lemma woken_stuck: "woken_rel X now J k k' \<Longrightarrow> stuck_zombie k' \<Longrightarrow> stuck_zombie k"
  unfolding woken_rel_def by (rule stuck_zombie_mono) (assumption, blast+)

lemma wakeup_one_ok:
  assumes "kernel_ok X k" "in_pool i" "\<not> npreempt k > 0"
  shows "(wakeup_one now i k = Inl Out_of_bounds \<and> stuck_zombie k) \<or>
    (\<exists>k'. wakeup_one now i k = Inr k' \<and> woken_rel X now {i} k k')"
proof (cases "valid (pool k i)")
  case False
  then have "wakeup_one now i k = Inr k" using assms(3) by (simp add: wakeup_one_def)
  moreover have "woken_rel X now {i} k k" using assms(1) False by (auto simp: woken_rel_def valid_tids_def)
  ultimately show ?thesis by blast
next
  case True
  let ?k1 = "time_out now i k"
  note t = time_out_ok [OF assms(1), of now i]
  note v1 = sched_same_valid_tids [OF t(3)]
  have "i \<in> valid_tids ?k1" using True assms(2) v1 by (simp add: valid_tids_def)
  then show ?thesis
  proof (rule reap_ok [OF t(1)])
    assume r: "reap i ?k1 = Inl Out_of_bounds" "stuck_zombie ?k1"
    have "stuck_zombie k"
      by (rule stuck_zombie_mono [OF r(2)]) (use t(3) in \<open>auto simp: v1 time_out_pool sched_same_def\<close>)
    with r(1) True assms(3) show ?thesis by (simp add: wakeup_one_def)
  next
    fix k'
    assume k': "reap i ?k1 = Inr k'" "kernel_ok X k'" "ctl_same ?k1 k'"
      "\<And>u. wakeuptime (pool k' u) = wakeuptime (pool ?k1 u)"
      "\<And>u. has_flag (state (pool k' u)) ZOMBI = has_flag (state (pool ?k1 u)) ZOMBI"
      "\<And>u. has_flag (state (pool k' u)) SLEEP = has_flag (state (pool ?k1 u)) SLEEP"
      "valid_tids k' = (if has_flag (state (pool ?k1 i)) ZOMBI \<and> i \<noteq> active_thread ?k1 \<and>
        (Gid (pool ?k1 i) = -1 \<or> parent_waits_for i ?k1) then valid_tids ?k1 - {i} else valid_tids ?k1)"
      "\<And>u. Prio (pool k' u) = Prio (pool ?k1 u)" "\<And>q. procs k' q \<le> procs ?k1 q"
      "\<And>u. ready ?k1 u \<Longrightarrow> ready k' u"
      "\<And>u. Gid (pool k' u) = Gid (pool ?k1 u) \<or> has_flag (state (pool ?k1 u)) ZOMBI \<and> Gid (pool k' u) = -1"
    have s: "Prio (pool ?k1 u) = Prio (pool k u)" "procs ?k1 q = procs k q" for u q
      using t(3) by (simp_all add: sched_same_def)
    have "active_thread ?k1 = active_thread k" using t(2) by (simp add: ctl_same_def)
    then have "woken_rel X now {i} k k'"
      using k'(2) ctl_same_trans [OF t(2) k'(3)] k'(4-11)
      unfolding woken_rel_def by (auto simp: time_out_pool v1 s split: if_splits)
    with k'(1) True assms(3) show ?thesis by (auto simp: wakeup_one_def)
  qed
qed

lemma wakeup_scan_ok:
  "kernel_ok X k \<Longrightarrow> set js \<subseteq> {t. in_pool t} \<Longrightarrow> \<not> npreempt k > 0 \<Longrightarrow>
     (foldR (wakeup_one now) js k = Inl Out_of_bounds \<and> stuck_zombie k) \<or>
     (\<exists>k'. foldR (wakeup_one now) js k = Inr k' \<and> woken_rel X now (set js) k k')"
proof (induction js arbitrary: k)
  case Nil
  then show ?case by (simp add: woken_rel_refl)
next
  case (Cons i js)
  from wakeup_one_ok [OF Cons.prems(1) _ Cons.prems(3), of i now] Cons.prems(2)
  consider "wakeup_one now i k = Inl Out_of_bounds" "stuck_zombie k"
    | k1 where "wakeup_one now i k = Inr k1" "woken_rel X now {i} k k1" by auto
  then show ?case
  proof cases
    case (2 k1)
    then have "kernel_ok X k1" "\<not> npreempt k1 > 0" using Cons.prems(3)
      by (simp_all add: woken_rel_def ctl_same_def)
    from Cons.IH [OF this(1) _ this(2)] Cons.prems(2)
    consider "foldR (wakeup_one now) js k1 = Inl Out_of_bounds" "stuck_zombie k1"
      | k2 where "foldR (wakeup_one now) js k1 = Inr k2" "woken_rel X now (set js) k1 k2" by auto
    then show ?thesis
    proof cases
      case 1
      then show ?thesis using 2 woken_stuck by auto
    next
      case (2 k2)
      have "woken_rel X now (set (i # js)) k k2" using woken_rel_trans [OF \<open>woken_rel X now {i} k k1\<close> 2(2)] by simp
      with \<open>wakeup_one now i k = Inr k1\<close> 2(1) show ?thesis by auto
    qed
  qed simp
qed

lemma wakeup_preempted:
  assumes "npreempt k > 0"
  shows "tk_wakeup_timedout_threads k = Inr k"
proof -
  have "foldR (wakeup_one now) js k = Inr k" for now js
    by (induction js) (use assms in \<open>simp_all add: wakeup_one_def\<close>)
  then show ?thesis by (simp add: tk_wakeup_timedout_threads_def)
qed

lemma wakeup_ok:
  assumes "kernel_ok X k"
  obtains (stuck) "tk_wakeup_timedout_threads k = Inl Out_of_bounds" "stuck_zombie k"
  | (fine) k' where "tk_wakeup_timedout_threads k = Inr k'"
    "woken_rel X (clock_now k) (if npreempt k > 0 then {} else {t. in_pool t}) k k'"
proof (cases "npreempt k > 0")
  case True
  show ?thesis by (rule fine [OF wakeup_preempted [OF True]]) (use True woken_rel_refl [OF assms] in simp)
next
  case False
  from wakeup_scan_ok [OF assms _ False, of tids "clock_now k"]
  consider "tk_wakeup_timedout_threads k = Inl Out_of_bounds" "stuck_zombie k"
    | k' where "foldR (wakeup_one (clock_now k)) tids k = Inr k'" "woken_rel X (clock_now k) (set tids) k k'"
    by (auto simp: tk_wakeup_timedout_threads_def)
  then show ?thesis
    by cases (use stuck fine False in \<open>auto simp: tk_wakeup_timedout_threads_def\<close>)
qed

section \<open>The switch\<close>

lemma kernel_ok_ctl:
  assumes "kernel_ok X k" "threadPool k' = threadPool k" "sched_same k k'"
  shows "kernel_ok X k'"
proof (rule kernel_ok_same [OF assms(1,3)])
  show "family_inv k'" by (rule relative_ok_states [OF kernel_okD(4) [OF assms(1)] assms(3)]) (simp_all add: assms(2))
qed (use assms in \<open>auto simp: kernel_ok_def\<close>)

text \<open>
  What a thread that yields leaves behind: the thread that runs is ready and no ready thread
  is more urgent; the idle thread runs only when nobody is ready.
\<close>

definition switched :: "thid_t set \<Rightarrow> 'a kern_scheme \<Rightarrow> bool" where
  "switched X k \<longleftrightarrow> kernel_ok X k \<and> thread_to_run k = active_thread k \<and>
     ((active_thread k \<in> valid_tids k - X \<and> ready k (active_thread k)) \<or>
      (active_thread k = idle_Thid k \<and> (\<forall>u \<in> valid_tids k - X. \<not> ready k u))) \<and>
     (\<forall>u \<in> valid_tids k - X. ready k u \<longrightarrow> Prio (pool k (active_thread k)) \<le> Prio (pool k u))"

lemma dispatch_ok:
  assumes "kernel_ok X k"
  obtains t where "tk_next_runable_thread k = Inr t"
    "dispatch k = Inr (k\<lparr>thread_to_run := t, active_thread := t\<rparr>)"
    "switched X (k\<lparr>thread_to_run := t, active_thread := t\<rparr>)"
proof (rule next_runable_most_urgent [OF kernel_okD(2) [OF assms]])
  fix t
  assume t: "tk_next_runable_thread k = Inr t"
    "(t \<in> valid_tids k - X \<and> ready k t) \<or> (t = idle_Thid k \<and> (\<forall>u \<in> valid_tids k - X. \<not> ready k u))"
    "\<forall>u \<in> valid_tids k - X. ready k u \<longrightarrow> Prio (pool k t) \<le> Prio (pool k u)"
  obtain k' where k': "k' = k\<lparr>thread_to_run := t, active_thread := t\<rparr>" by blast
  have "sched_same k k'" by (simp add: k' sched_same_def)
  moreover have "threadPool k' = threadPool k" by (simp add: k')
  ultimately have "kernel_ok X k'" "valid_tids k' = valid_tids k"
    using kernel_ok_ctl [OF assms] by (simp_all add: sched_same_valid_tids)
  moreover have "ready k' u = ready k u" for u by (simp add: ready_def k')
  ultimately have "switched X k'" using t(2,3) by (simp add: switched_def) (simp add: k')
  then show thesis using that [OF t(1)] t(1) by (simp add: dispatch_def k')
qed

lemma yield_switch_ok:
  assumes ok: "kernel_ok X k" and "IntFlagCntr k = 0" "npreempt k < 2"
  obtains (stuck) "tk_yield_switch k = Inl Out_of_bounds" "stuck_zombie k"
  | (fine) k1 k' where "tk_wakeup_timedout_threads k = Inr k1"
    "woken_rel X (clock_now k) (if npreempt k > 0 then {} else {t. in_pool t}) k k1"
    "tk_yield_switch k = Inr k'" "switched X k'" "threadPool k' = threadPool k1" "sched_same k1 k'"
    "npreempt k' = max 0 (npreempt k - 1) \<or> npreempt k < 0" "proc_idx k' = proc_idx k1"
    "IntFlagCntr k' = IntFlagCntr k1"
proof (rule wakeup_ok [OF ok])
  assume "tk_wakeup_timedout_threads k = Inl Out_of_bounds" "stuck_zombie k"
  with assms(2) show thesis by (intro stuck) (simp_all add: tk_yield_switch_def)
next
  fix k1
  assume k1: "tk_wakeup_timedout_threads k = Inr k1"
    "woken_rel X (clock_now k) (if npreempt k > 0 then {} else {t. in_pool t}) k k1"
  have ok1: "kernel_ok X k1" and c1: "npreempt k1 = npreempt k"
    using k1(2) by (simp_all add: woken_rel_def ctl_same_def)
  obtain k2 where k2: "k2 = (if npreempt k > 0 then k1\<lparr>npreempt := npreempt k1 - 1,
      thread_to_run := preemptlist k1 (outpreempt k1), outpreempt := (outpreempt k1 + 1) mod TK_MAX_THREADS\<rparr> else k1)"
    by blast
  have t2: "take_preempted k1 = Inr k2" using assms(3) c1 by (simp add: take_preempted_def k2)
  have s2: "sched_same k1 k2" "threadPool k2 = threadPool k1" by (simp_all add: k2 sched_same_def)
  have p2: "proc_idx k2 = proc_idx k1" "IntFlagCntr k2 = IntFlagCntr k1" by (simp_all add: k2)
  have n2: "npreempt k2 = max 0 (npreempt k - 1) \<or> npreempt k < 0"
    using assms(3) c1 by (auto simp: k2)
  show thesis
  proof (rule dispatch_ok [OF kernel_ok_ctl [OF ok1 s2(2,1)]])
    fix t
    assume d: "dispatch k2 = Inr (k2\<lparr>thread_to_run := t, active_thread := t\<rparr>)"
      "switched X (k2\<lparr>thread_to_run := t, active_thread := t\<rparr>)"
    have "tk_yield_switch k = Inr (k2\<lparr>thread_to_run := t, active_thread := t\<rparr>)"
      using assms(2) k1(1) t2 d(1) by (simp add: tk_yield_switch_def)
    moreover have "sched_same k1 (k2\<lparr>thread_to_run := t, active_thread := t\<rparr>)"
      using s2(1) by (simp add: sched_same_def)
    ultimately show thesis
      using fine [OF k1] d(2) s2(2) n2 p2 by simp
  qed
qed

end
