(* ===== verification/TkThread.thy ===== *)
theory TkThread
  imports TkSwitch
begin

text \<open>
  The operations of \<^verbatim>\<open>src/tk.c\<close> that give up the processor: creating the kernel and
  its threads, joining, sleeping and dying, and what they leave. \<open>oth\<close> is what the other
  threads do while the caller is not dispatched (see \<open>TkSwitch\<close>); the result of
  \<^verbatim>\<open>stalloc\<close>, whose code depends on the port, is a parameter too.
\<close>

section \<open>Operations\<close>

subsection \<open>Creating a thread\<close>

text \<open>
  The \<^verbatim>\<open>do ... while (valid)\<close> loop: the next free index after \<open>i\<close>, around the pool.
  After one round without a free entry it never ends.
\<close>

fun next_free :: "nat \<Rightarrow> 'a kern_scheme \<Rightarrow> thid_t \<Rightarrow> thid_t result" where
  "next_free 0 k i = Inl Hangs"
| "next_free (Suc n) k i =
     (let j = (i + 1) mod int TK_MAX_THREADS in
      if valid (pool k j) then next_free n k j else Inr j)"

definition create_error :: "nat \<Rightarrow> 'a kern_scheme \<Rightarrow> 32 word" where
  "create_error prio k =
     (if procs_in_use k \<ge> int TK_MAX_THREADS then TC_MAX_THREADS else 0) OR
     (if prio \<ge> TK_MAX_PRIO_LEVELS then TC_MAX_PRIO_LEVELS else 0) OR
     (if TK_MAX_THREADS_AT_PRIO \<le> procs k prio then TC_THREADS_AT_PRIO else 0)"

text \<open>The control block of a new thread (its name is already there).\<close>

definition new_tcb :: "thid_t \<Rightarrow> thid_t \<Rightarrow> nat \<Rightarrow> nat \<Rightarrow> int \<Rightarrow> nat \<Rightarrow> nat \<Rightarrow> tcb_t \<Rightarrow> tcb_t" where
  "new_tcb t creator prio slot inpar stk sz c =
     c\<lparr>stack_begin := stk, valid := True, state := READY, bOnId := \<lparr>kind = BON_SCHED, entity = Ent_null\<rparr>,
       Thid := t, Gid := creator, noChilds := 0, t_errno := 0, stack_size := sz, Prio := prio,
       Idx := slot, stack_crc := 0, wakeupEvent := E_NONE, retval := inpar\<rparr>"

text \<open>
  \<^verbatim>\<open>_tk_construct_thread_scope\<close>: the new thread runs on its own stack up to its first
  \<^verbatim>\<open>tk_yield\<close> in \<^verbatim>\<open>_tk_constructor\<close>; the creator continues when it is
  dispatched again.
\<close>

definition tk_construct_thread_scope :: "'a others \<Rightarrow> thid_t \<Rightarrow> 'a kern_scheme \<Rightarrow> 'a kern_scheme result" where
  "tk_construct_thread_scope oth t k =
     andThen (tk_yield_switch (k\<lparr>active_thread := t\<rparr>)) (resume oth (active_thread k))"

text \<open>Entering the new thread in its row: \<^verbatim>\<open>__tk_proc_idx\<close> is read again here.\<close>

definition enter_row :: "nat \<Rightarrow> 'a kern_scheme \<Rightarrow> 'a kern_scheme result" where
  "enter_row prio k =
     (let slot = procs k prio; t = proc_idx k in
      at_tid t (in_bounds (in_sched prio slot)
       (Inr (upd_stat prio (\<lambda>s. s\<lparr>procs_at_prio := procs_at_prio s + 1\<rparr>)
          (set_slot prio slot t (upd_tcb t (\<lambda>c. c\<lparr>Idx := slot\<rparr>) k))))))"

text \<open>Everything up to the constructor: checks, control block, accounting.\<close>

definition tk_spawn ::
  "nat option \<Rightarrow> string \<Rightarrow> nat \<Rightarrow> int \<Rightarrow> nat \<Rightarrow> 'a kern_scheme \<Rightarrow> (thid_t \<times> 'a kern_scheme) result" where
  "tk_spawn stk name prio inpar sz k =
     in_bounds (prio < TK_MAX_PRIO_LEVELS)
      (let slot = procs k prio in
       if create_error prio k \<noteq> 0 then Inl (Tk_exit (create_error prio k))
       else andThen (next_free TK_MAX_THREADS k (proc_idx k)) (\<lambda>t.
        if \<not> length name < TK_THREAD_NAME_LEN then Inl (Tk_exit TC_NAME_LEN)
        else case stk of None \<Rightarrow> Inl (Tk_exit TC_NOMEM) | Some a \<Rightarrow>
         let k1 = upd_tcb t (\<lambda>c. new_tcb t (active_thread k) prio slot inpar a sz (c\<lparr>tname := name\<rparr>))
                    (k\<lparr>proc_idx := t, live_stacks := insert a (live_stacks k)\<rparr>);
             k2 = upd_tcb (active_thread k) (\<lambda>c. c\<lparr>noChilds := noChilds c + 1\<rparr>) k1
         in Inr (t, k2\<lparr>procs_in_use := procs_in_use k2 + 1\<rparr>)))"

definition tk_create_thread ::
  "'a others \<Rightarrow> nat option \<Rightarrow> string \<Rightarrow> nat \<Rightarrow> int \<Rightarrow> nat \<Rightarrow> 'a kern_scheme \<Rightarrow> (thid_t \<times> 'a kern_scheme) result" where
  "tk_create_thread oth stk name prio inpar sz k =
     andThen (tk_spawn stk name prio inpar sz k) (\<lambda>(t, k1).
       andThen (tk_construct_thread_scope oth t k1) (\<lambda>k2.
         andThen (enter_row prio k2) (\<lambda>k3. Inr (t, k3))))"

subsection \<open>Creating the kernel\<close>

definition reset_tcb :: "tcb_t \<Rightarrow> tcb_t" where
  "reset_tcb c = c\<lparr>state := ZOMBI, bOnId := \<lparr>kind = BON_SCHED, entity = Ent_null\<rparr>, wakeuptime := 0,
     valid := False, tname := take TK_THREAD_NAME_LEN (tname c), Gid := 0, Thid := 0, noChilds := 0,
     t_errno := 0, stack_size := 0, stack_begin := 0, stack_crc := 0, wakeupEvent := E_NONE, retval := 0\<rparr>"

definition reset_tables :: "'a kern_scheme \<Rightarrow> 'a kern_scheme" where
  "reset_tables k =
     (let k1 = fold (\<lambda>i. upd_tcb i reset_tcb) tids k;
          k2 = (upd_tcb 0 (\<lambda>c. c\<lparr>state := READY, valid := True, tname := ''tk_root''\<rparr>) k1)
                 \<lparr>procs_in_use := 1, proc_idx := 0\<rparr>
      in fold (\<lambda>p k. fold (\<lambda>j. set_slot p j 0) [0..<TK_MAX_THREADS_AT_PRIO]
                       (upd_stat p (\<lambda>_. \<lparr>procs_at_prio = 0, curr_idx = 0\<rparr>) k)) [0..<TK_MAX_PRIO_LEVELS] k2)"

definition tk_create_kernel :: "'a others \<Rightarrow> nat option \<Rightarrow> 'a kern_scheme \<Rightarrow> 'a kern_scheme result" where
  "tk_create_kernel oth stk k =
     andThen (tk_create_thread oth stk ''idle'' (TK_MAX_PRIO_LEVELS - 1) 0 TK_MINIMUM_STACK_SIZE (reset_tables k))
      (\<lambda>(idle, k1).
        let k2 = upd_tcb (Gid (pool k1 idle)) (\<lambda>c. c\<lparr>noChilds := noChilds c - 1\<rparr>) (k1\<lparr>idle_Thid := idle\<rparr>);
            k3 = upd_tcb idle (\<lambda>c. c\<lparr>Gid := Thid c\<rparr>) k2
        in Inr (set_slot 0 0 0 (upd_stat 0 (\<lambda>s. s\<lparr>procs_at_prio := 1\<rparr>) k3)))"

subsection \<open>Joining, sleeping and dying\<close>

text \<open>The running thread starts to wait for \<open>pid\<close>.\<close>

definition join_wait :: "thid_t \<Rightarrow> 'a kern_scheme \<Rightarrow> 'a kern_scheme" where
  "join_wait pid k = upd_tcb (active_thread k)
     (\<lambda>c. c\<lparr>bOnId := \<lparr>kind = BON_SCHED, entity = Ent_tcb pid\<rparr>, state := state c OR TERM_T\<rparr>) k"

text \<open>The second component is the value stored through \<^verbatim>\<open>value_ptr\<close> (if it is not NULL).\<close>

definition tk_join :: "'a others \<Rightarrow> thid_t \<Rightarrow> 'a kern_scheme \<Rightarrow> (rc_t \<times> int option \<times> 'a kern_scheme) result" where
  "tk_join oth pid k =
     at_tid pid
      (if Gid (pool k pid) \<noteq> active_thread k then Inr (Rc_errno EINVAL, None, k)
       else if \<not> valid (pool k pid) then Inr (Rc_errno ESRCH, None, k)
       else if has_flag (state (pool k pid)) ZOMBI then
         andThen (tk_try_detach_parent pid True k) (\<lambda>(_, k1). Inr (Rc_ok, Some (retval (pool k pid)), k1))
       else
         andThen (tk_yield oth (join_wait pid k)) (\<lambda>k2.
           c_assert (wakeupEvent (pool k2 (active_thread k2)) = E_CHILDDEATH)
            (Inr (Rc_ok, Some (retval (pool k2 (active_thread k2))), k2))))"

definition sleep_until :: "32 word \<Rightarrow> 'a kern_scheme \<Rightarrow> 'a kern_scheme" where
  "sleep_until time_ms k =
     upd_tcb (active_thread k) (\<lambda>c. c\<lparr>wakeuptime := clock_now k + time_ms * 1000, state := state c OR SLEEP\<rparr>) k"

definition tk_msleep :: "'a others \<Rightarrow> 32 word \<Rightarrow> 'a kern_scheme \<Rightarrow> 'a kern_scheme result" where
  "tk_msleep oth time_ms k = tk_yield oth (sleep_until time_ms k)"

text \<open>
  The destructor never returns: \<open>die\<close> is what it does before its loop,
  \<open>await_nirvana n\<close> the first \<open>n\<close> rounds of the loop.
\<close>

definition die :: "int \<Rightarrow> 'a kern_scheme \<Rightarrow> 'a kern_scheme" where
  "die rv k = tk_detach_children (active_thread k)
     (upd_tcb (active_thread k) (\<lambda>c. c\<lparr>state := ZOMBI, retval := rv\<rparr>) k)"

fun await_nirvana :: "'a others \<Rightarrow> nat \<Rightarrow> 'a kern_scheme \<Rightarrow> 'a kern_scheme result" where
  "await_nirvana oth 0 k = Inr k"
| "await_nirvana oth (Suc n) k = andThen (tk_msleep oth 1000 k) (await_nirvana oth n)"

definition tk_destructor :: "'a others \<Rightarrow> nat \<Rightarrow> int \<Rightarrow> 'a kern_scheme \<Rightarrow> 'a kern_scheme result" where
  "tk_destructor oth n rv k = await_nirvana oth n (die rv k)"

text \<open>The idle thread: \<open>n\<close> rounds of its endless loop.\<close>

fun tk_idle :: "'a others \<Rightarrow> nat \<Rightarrow> 'a kern_scheme \<Rightarrow> 'a kern_scheme result" where
  "tk_idle oth 0 k = Inr k"
| "tk_idle oth (Suc n) k = andThen (tk_yield oth k) (tk_idle oth n)"

section \<open>The kernel after its creation\<close>

lemma pool_fold_upd_tcb:
  "distinct js \<Longrightarrow> threadPool (fold (\<lambda>i. upd_tcb i f) js k) u =
     (if u \<in> set js then f (threadPool k u) else threadPool k u)"
  by (induction js arbitrary: k) auto

lemma fold_upd_tcb_frame:
  "\<exists>tp. fold (\<lambda>i. upd_tcb i f) js k = k\<lparr>threadPool := tp\<rparr>"
proof (induction js arbitrary: k)
  case Nil
  show ?case by (rule exI [of _ "threadPool k"]) simp
next
  case (Cons i js)
  from Cons [of "upd_tcb i f k"] show ?case by (auto simp: upd_tcb_def)
qed

text \<open>The wanted picture of the tables, checked against the code's loops by evaluation.\<close>

lemma reset_rows:
  assumes "p < TK_MAX_PRIO_LEVELS"
  shows "roundrobin_prio_idxs (reset_tables k) p = \<lparr>procs_at_prio = 0, curr_idx = 0\<rparr>"
    and "j < TK_MAX_THREADS_AT_PRIO \<Longrightarrow> schedule (reset_tables k) p j = 0"
proof -
  let ?clear = "\<lambda>p k. fold (\<lambda>j. set_slot p j 0) [0..<TK_MAX_THREADS_AT_PRIO]
     (upd_stat p (\<lambda>_. \<lparr>procs_at_prio = 0, curr_idx = 0\<rparr>) k)"
  have slots: "schedule (fold (\<lambda>j. set_slot p j 0) js k) q i = (if q = p \<and> i \<in> set js then 0 else schedule k q i)"
    "roundrobin_prio_idxs (fold (\<lambda>j. set_slot p j 0) js k) = roundrobin_prio_idxs k"
    for js p q i and k :: "'a kern_scheme"
    by (induction js arbitrary: k) auto
  have rows: "roundrobin_prio_idxs (fold ?clear ps k) q =
      (if q \<in> set ps then \<lparr>procs_at_prio = 0, curr_idx = 0\<rparr> else roundrobin_prio_idxs k q)"
    "j < TK_MAX_THREADS_AT_PRIO \<Longrightarrow>
      schedule (fold ?clear ps k) q j = (if q \<in> set ps then 0 else schedule k q j)"
    for ps q j and k :: "'a kern_scheme"
    by (induction ps arbitrary: k) (auto simp: slots)
  show "roundrobin_prio_idxs (reset_tables k) p = \<lparr>procs_at_prio = 0, curr_idx = 0\<rparr>"
    "j < TK_MAX_THREADS_AT_PRIO \<Longrightarrow> schedule (reset_tables k) p j = 0"
    using assms by (simp_all add: reset_tables_def Let_def rows)
qed

section \<open>Finding a free control block\<close>

lemma next_free_sound:
  "next_free n k i = Inr t \<Longrightarrow> in_pool t \<and> \<not> valid (pool k t)"
proof (induction n arbitrary: i)
  case 0
  then show ?case by simp
next
  case (Suc n)
  have "in_pool ((i + 1) mod int TK_MAX_THREADS)" by (simp add: in_pool_def)
  with Suc show ?case by (auto simp: Let_def split: if_splits)
qed

lemma next_free_total:
  "1 \<le> m \<Longrightarrow> m \<le> n \<Longrightarrow> \<not> valid (pool k ((i + int m) mod int TK_MAX_THREADS)) \<Longrightarrow>
     \<exists>t. next_free n k i = Inr t"
proof (induction n arbitrary: i m)
  case 0
  then show ?case by simp
next
  case (Suc n)
  let ?j = "(i + 1) mod int TK_MAX_THREADS"
  show ?case
  proof (cases "valid (pool k ?j)")
    case False
    then show ?thesis by (simp add: Let_def)
  next
    case True
    with Suc.prems(3) have "m \<noteq> 1" by auto
    with Suc.prems(1,2) have m: "1 \<le> m - 1" "m - 1 \<le> n" "1 + int (m - 1) = int m" by auto
    have "(?j + int (m - 1)) mod int TK_MAX_THREADS = (i + 1 + int (m - 1)) mod int TK_MAX_THREADS"
      by (simp only: mod_add_left_eq)
    also have "i + 1 + int (m - 1) = i + int m" using m(3) by simp
    finally have "\<not> valid (pool k ((?j + int (m - 1)) mod int TK_MAX_THREADS))"
      using Suc.prems(3) by simp
    from Suc.IH [OF m(1,2) this] True show ?thesis by (simp add: Let_def)
  qed
qed

lemma next_free_found:
  assumes "procs_in_use k = int (card (valid_tids k))" "procs_in_use k < int TK_MAX_THREADS"
  obtains t where "next_free TK_MAX_THREADS k i = Inr t" "in_pool t" "\<not> valid (pool k t)"
proof -
  have "card {t. in_pool t} = TK_MAX_THREADS"
    by (metis distinct_card distinct_tids length_map length_upt diff_zero set_tids tids_def)
  with assms have "valid_tids k \<noteq> {t. in_pool t}" by auto
  then obtain f where f: "in_pool f" "\<not> valid (pool k f)" by (auto simp: valid_tids_def)
  let ?d = "(f - i - 1) mod int TK_MAX_THREADS + 1"
  have N: "0 < int TK_MAX_THREADS" by simp
  have dm: "1 \<le> ?d" "?d \<le> int TK_MAX_THREADS" using pos_mod_bound [OF N, of "f - i - 1"] pos_mod_sign [OF N, of "f - i - 1"] by linarith+
  have "(i + ?d) mod int TK_MAX_THREADS = ((f - i - 1) mod int TK_MAX_THREADS + (i + 1)) mod int TK_MAX_THREADS"
    by (simp add: algebra_simps)
  also have "\<dots> = (f - i - 1 + (i + 1)) mod int TK_MAX_THREADS" by (rule mod_add_left_eq)
  also have "\<dots> = f" using f(1) by (simp add: in_pool_def)
  finally have "(i + ?d) mod int TK_MAX_THREADS = f" .
  moreover have "0 \<le> ?d" using dm(1) by linarith
  then obtain m where m0: "?d = int m" by (rule nonneg_int_cases)
  with dm have m: "?d = int m" "1 \<le> m" "m \<le> TK_MAX_THREADS" by linarith+
  ultimately have "\<not> valid (pool k ((i + int m) mod int TK_MAX_THREADS))" using f(2) by simp
  from next_free_total [OF m(2,3) this] obtain t where "next_free TK_MAX_THREADS k i = Inr t" by blast
  with that next_free_sound show ?thesis by blast
qed

section \<open>Creating a thread\<close>

text \<open>While \<open>t\<close> is being created it is valid, but in no row yet.\<close>

definition creating :: "thid_t \<Rightarrow> nat \<Rightarrow> 'a kern_scheme \<Rightarrow> bool" where
  "creating t p k \<longleftrightarrow> kernel_ok {t} k \<and> t \<noteq> 0 \<and> proc_idx k = t \<and> Prio (pool k t) = p \<and>
     p < TK_MAX_PRIO_LEVELS \<and> \<not> full_row p k"

lemma sched_ok_new:
  assumes "sched_ok X k" "in_pool t" "\<not> valid (pool k t)" "Thid (f (pool k t)) = t"
  shows "sched_ok (insert t X) (upd_tcb t f k)"
proof -
  let ?k = "upd_tcb t f k"
  have out: "schedule k q i \<noteq> t" if "q < TK_MAX_PRIO_LEVELS" "i < procs k q" for q i
    using sched_ok_entry [OF assms(1) that] assms(3) by (auto simp: entry_ok_def Let_def)
  have r: "row ?k q = row k q" for q by (simp add: row_def)
  have "row_ok (insert t X) ?k q" if q: "q < TK_MAX_PRIO_LEVELS" for q
    using sched_ok_row [OF assms(1) q] out [OF q] by (auto simp: row_ok_def r entry_ok_def Let_def)
  moreover have "thread_ok (insert t X) ?k u" if "u \<in> valid_tids ?k" for u
  proof (cases "u = t")
    case True
    with assms(4) show ?thesis by (simp add: thread_ok_def)
  next
    case False
    with that assms(1) have "thread_ok X k u" by (simp add: sched_ok_def valid_tids_def)
    with False show ?thesis by (simp add: thread_ok_def r)
  qed
  ultimately show ?thesis by (simp add: sched_ok_def)
qed

text \<open>The state handed to \<^verbatim>\<open>_tk_construct_thread_scope\<close>.\<close>

abbreviation spawned :: "thid_t \<Rightarrow> (tcb_t \<Rightarrow> tcb_t) \<Rightarrow> 'a kern_scheme \<Rightarrow> 'a kern_scheme" where
  "spawned t f k \<equiv> upd_tcb (active_thread k) (\<lambda>c. c\<lparr>noChilds := noChilds c + 1\<rparr>) (upd_tcb t f k)"

lemma spawned_family:
  assumes fam: "family_inv k" and c: "active_thread k \<in> valid_tids k"
    "\<not> has_flag (state (pool k (active_thread k))) ZOMBI"
    "active_thread k = 0 \<or> Gid (pool k (active_thread k)) \<noteq> active_thread k"
    and t: "in_pool t" "\<not> valid (pool k t)" "t \<noteq> 0"
    and f: "valid (f (pool k t))" "Gid (f (pool k t)) = active_thread k" "noChilds (f (pool k t)) = 0"
      "state (f (pool k t)) = READY"
  shows "family_inv (spawned t f k)" and "valid_tids (spawned t f k) = insert t (valid_tids k)"
proof -
  let ?k = "spawned t f k" and ?c = "active_thread k"
  have ct: "?c \<noteq> t" using c(1) t(2) by (auto simp: valid_tids_def)
  show v: "valid_tids ?k = insert t (valid_tids k)" using t(1) f(1) ct by (auto simp: valid_tids_def)
  have nt: "t \<notin> valid_tids k" using t(2) by (simp add: valid_tids_def)
  have g: "Gid (pool k u) \<noteq> t" if "u \<in> valid_tids k" for u
    using family_invD [OF fam that] nt t(1) by (auto simp: relative_ok_def)
  have ch: "children ?k u = (if u = ?c then insert t (children k u) else if u = t then {} else children k u)" for u
    using ct nt f(2) g by (auto simp: children_def v)
  have "relative_ok ?k u" if u: "u \<in> valid_tids ?k" for u
  proof (cases "u = t")
    case True
    with ct c f ch show ?thesis by (simp add: relative_ok_def v)
  next
    case False
    with u v have u': "u \<in> valid_tids k" by simp
    have "t \<notin> children k u" using nt by (simp add: children_def)
    with family_invD [OF fam u'] False ct c ch show ?thesis
      by (auto simp: relative_ok_def v)
  qed
  then show "family_inv ?k" by (simp add: family_inv_def)
qed

lemma spawned_ok:
  assumes ok: "kernel_ok {} k" and c: "active_thread k \<in> valid_tids k"
    "\<not> has_flag (state (pool k (active_thread k))) ZOMBI"
    "active_thread k = 0 \<or> Gid (pool k (active_thread k)) \<noteq> active_thread k"
    and t: "in_pool t" "\<not> valid (pool k t)"
    and f: "valid (f (pool k t))" "Gid (f (pool k t)) = active_thread k" "noChilds (f (pool k t)) = 0"
      "state (f (pool k t)) = READY" "Thid (f (pool k t)) = t"
    and k': "sched_same (spawned t f k) (k'\<lparr>procs_in_use := procs_in_use k, live_stacks := live_stacks k\<rparr>)"
      "threadPool k' = threadPool (spawned t f k)" "procs_in_use k' = procs_in_use k + 1"
  shows "kernel_ok {t} k'" and "t \<noteq> 0"
proof -
  let ?s = "spawned t f k"
  show t0: "t \<noteq> 0" using ok t by (auto simp: kernel_ok_def valid_tids_def)
  have s: "schedule k' = schedule k" "roundrobin_prio_idxs k' = roundrobin_prio_idxs k"
    using k'(1) by (simp_all add: sched_same_def)
  note fam = spawned_family [where f = f, OF kernel_okD(4) [OF ok] c t t0 f(1-4)]
  have v: "valid_tids k' = insert t (valid_tids k)"
    using fam(2) by (simp add: valid_tids_def k'(2))
  have "sched_ok {t} (upd_tcb t f k)" by (rule sched_ok_new [where f = f, OF kernel_okD(3) [OF ok] t f(5)])
  then have "sched_ok {t} ?s" by (rule iffD2 [OF sched_ok_cong, rotated -1]) simp_all
  then have "sched_ok {t} k'" by (rule iffD2 [OF sched_ok_cong, rotated -1]) (simp_all add: s k'(2))
  moreover have "t \<notin> valid_tids k" using t by (simp add: valid_tids_def)
  ultimately have "sched_inv {t} k'"
    using kernel_okD(2) [OF ok] k'(3) by (simp add: sched_inv_def v)
  moreover have "family_inv k'"
    using fam by (simp add: family_inv_def relative_ok_def children_def v k'(2))
  moreover have "\<not> has_flag (state (pool k' 0)) ZOMBI" "\<not> has_flag (state (pool k' t)) ZOMBI"
    using ok f(4) t0 t(2) c(1) by (auto simp: k'(2) kernel_ok_def valid_tids_def)
  ultimately show "kernel_ok {t} k'"
    using ok by (simp add: kernel_ok_def kernel_inv_def v)
qed

text \<open>The new thread's first yield keeps the picture; then it enters its row.\<close>

lemma creating_switch:
  assumes "creating t p k" "IntFlagCntr k = 0" "npreempt k < 2" "\<not> stuck_zombie k"
  shows "\<exists>k'. tk_yield_switch k = Inr k' \<and> creating t p k'"
proof (rule yield_switch_ok [where k = k and X = "{t}"])
  show "kernel_ok {t} k" "IntFlagCntr k = 0" "npreempt k < 2"
    using assms by (simp_all add: creating_def)
  show "stuck_zombie k \<Longrightarrow> \<exists>k'. tk_yield_switch k = Inr k' \<and> creating t p k'" using assms(4) by simp
  fix k1 k'
  assume k1: "woken_rel {t} (clock_now k) (if npreempt k > 0 then {} else {t. in_pool t}) k k1"
    and k': "tk_yield_switch k = Inr k'" "switched {t} k'" "threadPool k' = threadPool k1" "sched_same k1 k'"
      "proc_idx k' = proc_idx k1"
  have "Prio (pool k' t) = p" "proc_idx k' = t" "procs k' p \<le> procs k p"
    using assms(1) k1 k'(3-5) by (auto simp: creating_def woken_rel_def ctl_same_def sched_same_def)
  with assms(1) k'(2) have "creating t p k'" by (auto simp: creating_def switched_def full_row_def)
  with k'(1) show ?thesis by blast
qed

lemma enter_row_linked:
  assumes "creating t p k"
  shows "enter_row p k = Inr (linked p t (\<lambda>c. c\<lparr>Idx := procs k p\<rparr>) k)"
proof -
  have "t \<in> valid_tids k" using assms by (simp add: creating_def kernel_ok_def)
  with assms show ?thesis
    by (simp add: enter_row_def Let_def creating_def in_sched_def valid_tids_def linked_def
        upd_tcb_def upd_stat_def set_slot_def full_row_def)
qed

lemma creating_done:
  assumes c: "creating t p k"
  obtains k' where "enter_row p k = Inr k'" "kernel_ok {} k'" "row k' p = row k p @ [t]"
    "\<And>q. q \<noteq> p \<Longrightarrow> row k' q = row k q" "valid_tids k' = valid_tids k" "Prio (pool k' t) = p"
    "active_thread k' = active_thread k"
    "\<And>u. Gid (pool k' u) = Gid (pool k u) \<and> state (pool k' u) = state (pool k u)"
    "idle_Thid k' = idle_Thid k" "IntFlagCntr k' = IntFlagCntr k" "npreempt k' = npreempt k"
proof -
  let ?f = "\<lambda>c. c\<lparr>Idx := procs k p\<rparr>"
  have ok: "kernel_ok {t} k" and t: "t \<in> valid_tids k" "t \<noteq> 0" "Prio (pool k t) = p"
    and p: "p < TK_MAX_PRIO_LEVELS" "procs k p < TK_MAX_THREADS_AT_PRIO"
    using c by (simp_all add: creating_def kernel_ok_def full_row_def)
  have tp: "in_pool t" "valid (pool k t)" using t(1) by (simp_all add: valid_tids_def)
  have id: "Thid (pool k t) = t" using kernel_okD(3) [OF ok] t(1) by (simp add: sched_ok_def thread_ok_def)
  obtain k' where k': "k' = linked p t ?f k" by blast
  have "sched_ok ({t} - {t}) k'" "valid_tids k' = insert t (valid_tids k)"
    unfolding k' by (rule sched_ok_link [OF kernel_okD(3) [OF ok] p(1)]; use p(2) tp t id in simp)+
  then have so: "sched_ok {} k'" and v: "valid_tids k' = valid_tids k" using t(1) by auto
  have same: "Gid (pool k' u) = Gid (pool k u)" "noChilds (pool k' u) = noChilds (pool k u)"
    "state (pool k' u) = state (pool k u)" for u by (simp_all add: k')
  have "family_inv k'"
    using kernel_okD(4) [OF ok] by (simp add: family_inv_def relative_ok_def children_def v same)
  moreover have "procs_in_use k' = procs_in_use k" by (simp add: k')
  ultimately have "kernel_ok {} k'"
    using so ok kernel_okD(2) [OF ok] by (simp add: kernel_ok_def kernel_inv_def sched_inv_def v same)
  with v show ?thesis
    by (intro that [OF enter_row_linked [OF c, folded k']]) (simp_all add: k' linked_row t(3), simp_all add: linked_def)
qed

text \<open>When the checks pass, \<open>tk_spawn\<close> leaves a kernel with a thread in creation.\<close>

definition may_spawn :: "nat \<Rightarrow> string \<Rightarrow> 'a kern_scheme \<Rightarrow> bool" where
  "may_spawn prio name k \<longleftrightarrow>
     prio < TK_MAX_PRIO_LEVELS \<and> \<not> full_row prio k \<and>
     procs_in_use k < int TK_MAX_THREADS \<and> length name < TK_THREAD_NAME_LEN"

definition may_parent :: "'a kern_scheme \<Rightarrow> bool" where
  "may_parent k \<longleftrightarrow> active_thread k \<in> valid_tids k \<and>
     \<not> has_flag (state (pool k (active_thread k))) ZOMBI \<and>
     (active_thread k = 0 \<or> Gid (pool k (active_thread k)) \<noteq> active_thread k)"

definition spawned_from :: "'a kern_scheme \<Rightarrow> nat \<Rightarrow> thid_t \<Rightarrow> 'a kern_scheme \<Rightarrow> bool" where
  "spawned_from k prio t k' \<longleftrightarrow>
     creating t prio k' \<and> t \<notin> valid_tids k \<and> valid_tids k' = insert t (valid_tids k) \<and>
     active_thread k' = active_thread k \<and> idle_Thid k' = idle_Thid k \<and>
     IntFlagCntr k' = IntFlagCntr k \<and> npreempt k' = npreempt k \<and>
     Gid (pool k' t) = active_thread k \<and> ready k' t \<and>
     (\<forall>u. u \<noteq> t \<longrightarrow> state (pool k' u) = state (pool k u) \<and> Gid (pool k' u) = Gid (pool k u) \<and>
        Prio (pool k' u) = Prio (pool k u)) \<and> (\<forall>q. procs k' q = procs k q)"

lemma spawn_ok:
  assumes ok: "kernel_ok {} k" and par: "may_parent k" and may: "may_spawn prio name k"
  shows "\<exists>t k'. tk_spawn (Some a) name prio inpar sz k = Inr (t, k') \<and> spawned_from k prio t k'"
proof -
  have prio: "prio < TK_MAX_PRIO_LEVELS" "procs k prio < TK_MAX_THREADS_AT_PRIO"
    and free: "procs_in_use k < int TK_MAX_THREADS" "length name < TK_THREAD_NAME_LEN"
    using may by (simp_all add: may_spawn_def full_row_def)
  have c: "active_thread k \<in> valid_tids k" "\<not> has_flag (state (pool k (active_thread k))) ZOMBI"
    "active_thread k = 0 \<or> Gid (pool k (active_thread k)) \<noteq> active_thread k"
    using par by (simp_all add: may_parent_def)
  have e: "create_error prio k = 0" using prio free(1) by (simp add: create_error_def)
  from next_free_found [OF _ free(1), of "proc_idx k"] kernel_okD(2) [OF ok] obtain t where
    t: "next_free TK_MAX_THREADS k (proc_idx k) = Inr t" "in_pool t" "\<not> valid (pool k t)"
    by (auto simp: sched_inv_def)
  obtain f where f: "f = (\<lambda>c. new_tcb t (active_thread k) prio (procs k prio) inpar a sz (c\<lparr>tname := name\<rparr>))"
    by blast
  obtain k3 where k3: "k3 = (spawned t f (k\<lparr>proc_idx := t, live_stacks := insert a (live_stacks k)\<rparr>))
      \<lparr>procs_in_use := procs_in_use k + 1\<rparr>" by blast
  have ct: "active_thread k \<noteq> t" using c(1) t(3) by (auto simp: valid_tids_def)
  have pool3: "threadPool k3 = threadPool (spawned t f k)" by (simp add: k3 upd_tcb_def)
  have same3: "sched_same (spawned t f k) (k3\<lparr>procs_in_use := procs_in_use k, live_stacks := live_stacks k\<rparr>)"
    using pool3 by (simp add: sched_same_def) (simp add: k3)
  have "procs_in_use k3 = procs_in_use k + 1" by (simp add: k3)
  then have "kernel_ok {t} k3"
    by (auto intro!: spawned_ok [where f = f, OF ok c t(2,3) _ _ _ _ _ same3 pool3] simp: f new_tcb_def)
  moreover have t0: "t \<noteq> 0" using ok t by (auto simp: kernel_ok_def valid_tids_def)
  ultimately have "creating t prio k3"
    using prio ct by (simp add: creating_def full_row_def) (simp add: k3 f new_tcb_def)
  moreover have "valid_tids k3 = insert t (valid_tids k)"
    using t(2) ct by (auto simp: valid_tids_def pool3 f new_tcb_def)
  ultimately have "spawned_from k prio t k3"
    using t(3) ct by (simp add: spawned_from_def ready_def valid_tids_def pool3)
      (simp add: k3 f new_tcb_def)
  moreover have "tk_spawn (Some a) name prio inpar sz k = Inr (t, k3)"
    using prio(1) e t(1) free(2) by (simp add: tk_spawn_def Let_def f k3)
  ultimately show ?thesis by blast
qed

lemma creating_active: "creating t p k \<Longrightarrow> creating t p (k\<lparr>active_thread := u\<rparr>)"
  using kernel_ok_ctl [of "{t}" k "k\<lparr>active_thread := u\<rparr>"]
  by (simp add: creating_def sched_same_def full_row_def)

lemma create_thread_ok:
  assumes ok: "kernel_ok {} k" and par: "may_parent k" and may: "may_spawn prio name k"
    and cpu: "IntFlagCntr k = 0" "npreempt k < 2" "\<not> stuck_zombie k"
    and oth: "\<And>t k1. creating t prio k1 \<Longrightarrow> \<exists>k2. oth (active_thread k) k1 = Inr k2 \<and> creating t prio k2"
  shows "\<exists>t k'. tk_create_thread oth (Some a) name prio inpar sz k = Inr (t, k') \<and> kernel_ok {} k' \<and>
    t \<notin> valid_tids k \<and> t \<in> valid_tids k' \<and> Prio (pool k' t) = prio \<and> last (row k' prio) = t"
proof -
  from spawn_ok [OF ok par may, of a inpar sz] obtain t k3 where
    k3: "tk_spawn (Some a) name prio inpar sz k = Inr (t, k3)" "spawned_from k prio t k3" by blast
  then have cr: "creating t prio (k3\<lparr>active_thread := t\<rparr>)" by (simp add: spawned_from_def creating_active)
  have "IntFlagCntr (k3\<lparr>active_thread := t\<rparr>) = 0" "npreempt (k3\<lparr>active_thread := t\<rparr>) < 2"
    using cpu k3(2) by (simp_all add: spawned_from_def)
  moreover have "\<not> stuck_zombie (k3\<lparr>active_thread := t\<rparr>)"
  proof
    assume "stuck_zombie (k3\<lparr>active_thread := t\<rparr>)"
    with cpu(3) k3(2) show False
      by (auto simp: stuck_zombie_def spawned_from_def full_row_def valid_tids_def ready_def)
  qed
  ultimately obtain k4 where
    k4: "tk_yield_switch (k3\<lparr>active_thread := t\<rparr>) = Inr k4" "creating t prio k4"
    using creating_switch [OF cr] by blast
  have "active_thread k3 = active_thread k" using k3(2) by (simp add: spawned_from_def)
  then have "tk_construct_thread_scope oth t k3 = resume oth (active_thread k) k4"
    using k4(1) by (simp add: tk_construct_thread_scope_def)
  then obtain k5 where k5: "tk_construct_thread_scope oth t k3 = Inr k5" "creating t prio k5"
    using oth [OF k4(2)] k4(2) by (cases "active_thread k4 = active_thread k") (auto simp: resume_def)
  show ?thesis
  proof (rule creating_done [OF k5(2)])
    fix k'
    assume k': "enter_row prio k5 = Inr k'" "kernel_ok {} k'" "row k' prio = row k5 prio @ [t]"
      "valid_tids k' = valid_tids k5" "Prio (pool k' t) = prio"
    have "tk_create_thread oth (Some a) name prio inpar sz k = Inr (t, k')"
      using k3(1) k5(1) k'(1) by (simp add: tk_create_thread_def)
    moreover have "t \<in> valid_tids k'" using k5(2) k'(4) by (simp add: creating_def kernel_ok_def)
    moreover have "t \<notin> valid_tids k" using k3(2) by (simp add: spawned_from_def)
    ultimately show ?thesis using k'(2,3,5) by (intro exI [of _ t] exI [of _ k']) simp
  qed
qed

section \<open>The kernel after its creation\<close>

text \<open>
  The state in which \<^verbatim>\<open>tk_create_kernel\<close> is called: the globals of a program that
  has just started are zero (the application may have set nothing of the kernel's).
\<close>

definition bss :: "'a kern_scheme \<Rightarrow> bool" where
  "bss k \<longleftrightarrow> active_thread k = 0 \<and> idle_Thid k = 0 \<and> IntFlagCntr k = 0 \<and> npreempt k = 0 \<and>
     Prio (pool k 0) = 0"

lemma reset_pool:
  assumes "in_pool u"
  shows "pool (reset_tables k) u =
    (if u = 0 then (reset_tcb (pool k 0))\<lparr>state := READY, valid := True, tname := ''tk_root''\<rparr>
     else reset_tcb (pool k u))"
proof -
  have "threadPool (fold (\<lambda>j. set_slot p j 0) js k) = threadPool k" for p js and k :: "'a kern_scheme"
    by (induction js arbitrary: k) auto
  then have "threadPool (fold (\<lambda>p k. fold (\<lambda>j. set_slot p j 0) [0..<TK_MAX_THREADS_AT_PRIO]
      (upd_stat p (\<lambda>_. \<lparr>procs_at_prio = 0, curr_idx = 0\<rparr>) k)) ps k) = threadPool k" for ps and k :: "'a kern_scheme"
    by (induction ps arbitrary: k) auto
  then show ?thesis using assms by (simp add: reset_tables_def Let_def pool_fold_upd_tcb)
qed

lemma reset_frame:
  "procs_in_use (reset_tables k) = 1" "proc_idx (reset_tables k) = 0"
  "active_thread (reset_tables k) = active_thread k" "idle_Thid (reset_tables k) = idle_Thid k"
  "IntFlagCntr (reset_tables k) = IntFlagCntr k" "npreempt (reset_tables k) = npreempt k"
  "live_stacks (reset_tables k) = live_stacks k"
proof -
  have s: "\<exists>sc. fold (\<lambda>j. set_slot p j 0) js k = k\<lparr>schedule := sc\<rparr>" for p js and k :: "'a kern_scheme"
  proof (induction js arbitrary: k)
    case Nil
    show ?case by (rule exI [of _ "schedule k"]) simp
  next
    case (Cons j js)
    from Cons [of "set_slot p j 0 k"] show ?case by (auto simp: set_slot_def)
  qed
  have r: "\<exists>sc rr. fold (\<lambda>p k. fold (\<lambda>j. set_slot p j 0) [0..<TK_MAX_THREADS_AT_PRIO]
      (upd_stat p (\<lambda>_. \<lparr>procs_at_prio = 0, curr_idx = 0\<rparr>) k)) ps k = k\<lparr>schedule := sc, roundrobin_prio_idxs := rr\<rparr>"
    for ps and k :: "'a kern_scheme"
  proof (induction ps arbitrary: k)
    case Nil
    show ?case by (rule exI [of _ "schedule k"], rule exI [of _ "roundrobin_prio_idxs k"]) simp
  next
    case (Cons p ps)
    let ?u = "upd_stat p (\<lambda>_. \<lparr>procs_at_prio = 0, curr_idx = 0\<rparr>) k"
    obtain sc where "fold (\<lambda>j. set_slot p j 0) [0..<TK_MAX_THREADS_AT_PRIO] ?u = ?u\<lparr>schedule := sc\<rparr>"
      using s by blast
    with Cons [of "?u\<lparr>schedule := sc\<rparr>"] show ?case by (auto simp: upd_stat_def)
  qed
  obtain tp where "fold (\<lambda>i. upd_tcb i reset_tcb) tids k = k\<lparr>threadPool := tp\<rparr>"
    using fold_upd_tcb_frame by blast
  moreover obtain sc rr where "reset_tables k = ((upd_tcb 0 (\<lambda>c. c\<lparr>state := READY, valid := True,
      tname := ''tk_root''\<rparr>) (fold (\<lambda>i. upd_tcb i reset_tcb) tids k))\<lparr>procs_in_use := 1, proc_idx := 0\<rparr>)
      \<lparr>schedule := sc, roundrobin_prio_idxs := rr\<rparr>"
    unfolding reset_tables_def Let_def using r by blast
  ultimately show "procs_in_use (reset_tables k) = 1" "proc_idx (reset_tables k) = 0"
    "active_thread (reset_tables k) = active_thread k" "idle_Thid (reset_tables k) = idle_Thid k"
    "IntFlagCntr (reset_tables k) = IntFlagCntr k" "npreempt (reset_tables k) = npreempt k"
    "live_stacks (reset_tables k) = live_stacks k"
    by (simp_all add: upd_tcb_def)
qed

text \<open>A scan that finds nobody asleep and no zombie changes nothing.\<close>

lemma wakeup_nobody:
  assumes "\<And>u. in_pool u \<Longrightarrow> valid (pool k u) \<Longrightarrow> state (pool k u) = READY"
  shows "tk_wakeup_timedout_threads k = Inr k"
proof -
  have "foldR (wakeup_one now) js k = Inr k" if "set js \<subseteq> {t. in_pool t}" for now js
    using that
  proof (induction js)
    case Nil
    then show ?case by simp
  next
    case (Cons j js)
    have "wakeup_one now j k = Inr k"
      using assms [of j] Cons.prems by (auto simp: wakeup_one_def time_out_def reap_def)
    with Cons show ?case by simp
  qed
  then show ?thesis by (simp add: tk_wakeup_timedout_threads_def)
qed

lemma try_rows_empty:
  "(\<And>p. p \<in> set ps \<Longrightarrow> procs k p = 0) \<Longrightarrow> try_rows k ps lst = Inr (idle_Thid k)"
  by (induction ps) simp_all

text \<open>The kernel right after its creation: the root thread runs, the idle thread waits.\<close>

definition booted :: "'a kern_scheme \<Rightarrow> bool" where
  "booted k \<longleftrightarrow>
     (\<forall>u. in_pool u \<longrightarrow> (valid (pool k u) \<longleftrightarrow> u = 0 \<or> u = 1)) \<and>
     (\<forall>u. (u = 0 \<or> u = 1) \<longrightarrow> Thid (pool k u) = u \<and> Gid (pool k u) = u \<and> noChilds (pool k u) = 0 \<and>
        state (pool k u) = READY) \<and>
     Prio (pool k 0) = 0 \<and> Prio (pool k 1) = TK_MAX_PRIO_LEVELS - 1 \<and> Idx (pool k 1) = 0 \<and>
     (\<forall>p < TK_MAX_PRIO_LEVELS. roundrobin_prio_idxs k p =
        \<lparr>procs_at_prio = (if p = 0 \<or> p = TK_MAX_PRIO_LEVELS - 1 then 1 else 0), curr_idx = 0\<rparr>) \<and>
     (\<forall>p < TK_MAX_PRIO_LEVELS. \<forall>j < TK_MAX_THREADS_AT_PRIO. schedule k p j =
        (if p = TK_MAX_PRIO_LEVELS - 1 \<and> j = 0 then 1 else 0)) \<and>
     procs_in_use k = 2 \<and> proc_idx k = 1 \<and> idle_Thid k = 1 \<and> active_thread k = 0 \<and>
     IntFlagCntr k = 0 \<and> npreempt k = 0"

lemma in_pool_1 [simp]: "in_pool 1"
  by (simp add: in_pool_def tuning_defs)

lemma reset_rows_Suc:
  "p < TK_MAX_PRIO_LEVELS \<Longrightarrow> procs (reset_tables k) p = 0"
  by (simp add: reset_rows)

lemma create_idle:
  assumes b: "bss k"
  shows "\<exists>k'. tk_create_thread oth (Some a) ''idle'' (TK_MAX_PRIO_LEVELS - 1) 0 sz (reset_tables k) = Inr (1, k') \<and>
    threadPool k' = (threadPool (reset_tables k))(
      1 := (new_tcb 1 0 (TK_MAX_PRIO_LEVELS - 1) 0 0 a sz ((pool (reset_tables k) 1)\<lparr>tname := ''idle''\<rparr>)),
      0 := (pool (reset_tables k) 0)\<lparr>noChilds := noChilds (pool (reset_tables k) 0) + 1\<rparr>) \<and>
    schedule k' = (schedule (reset_tables k))(TK_MAX_PRIO_LEVELS - 1 :=
      (schedule (reset_tables k) (TK_MAX_PRIO_LEVELS - 1))(0 := 1)) \<and>
    roundrobin_prio_idxs k' = (roundrobin_prio_idxs (reset_tables k))(TK_MAX_PRIO_LEVELS - 1 :=
      \<lparr>procs_at_prio = 1, curr_idx = 0\<rparr>) \<and>
    procs_in_use k' = 2 \<and> proc_idx k' = 1 \<and> active_thread k' = 0 \<and> IntFlagCntr k' = 0 \<and> npreempt k' = 0"
proof -
  obtain k0 where k0: "k0 = reset_tables k" by blast
  let ?p = "TK_MAX_PRIO_LEVELS - 1"
  note fr = reset_frame [of k, folded k0]
  from b have z: "active_thread k0 = 0" "idle_Thid k0 = 0" "IntFlagCntr k0 = 0" "npreempt k0 = 0"
    by (simp_all add: bss_def fr)
  have p: "?p < TK_MAX_PRIO_LEVELS" by simp
  have pr: "procs k0 q = 0" if "q < TK_MAX_PRIO_LEVELS" for q
    using reset_rows_Suc [OF that, of k] by (simp add: k0)
  have rr: "roundrobin_prio_idxs k0 ?p = \<lparr>procs_at_prio = 0, curr_idx = 0\<rparr>"
    using reset_rows(1) [OF p, of k] by (simp only: k0)
  have e: "create_error ?p k0 = 0"
    using pr [OF p] p by (simp add: create_error_def fr) (simp add: tuning_defs)
  have nv: "valid (pool k0 u) \<longleftrightarrow> u = 0" if "in_pool u" for u
    using reset_pool [OF that, of k] by (simp add: k0 reset_tcb_def)
  have nf: "next_free TK_MAX_THREADS k0 (proc_idx k0) = Inr 1"
    using nv [OF in_pool_1] by (simp add: fr tuning_defs numeral_eq_Suc Let_def)
  let ?f = "\<lambda>c. new_tcb 1 0 ?p 0 0 a sz (c\<lparr>tname := ''idle''\<rparr>)"
  obtain k3 where k3: "k3 = (upd_tcb 0 (\<lambda>c. c\<lparr>noChilds := noChilds c + 1\<rparr>)
      (upd_tcb 1 ?f (k0\<lparr>proc_idx := 1, live_stacks := insert a (live_stacks k0)\<rparr>)))\<lparr>procs_in_use := 2\<rparr>"
    by blast
  have st: "state (pool (k3\<lparr>active_thread := 1\<rparr>) u) = READY"
    if "in_pool u" "valid (pool (k3\<lparr>active_thread := 1\<rparr>) u)" for u
    using that nv [OF that(1)] reset_pool [OF in_pool_0, of k]
    by (auto simp: k3 new_tcb_def k0 [symmetric] split: if_splits)
  have "try_rows (k3\<lparr>active_thread := 1\<rparr>) [0..<TK_MAX_PRIO_LEVELS] (-1) = Inr (idle_Thid (k3\<lparr>active_thread := 1\<rparr>))"
    by (rule try_rows_empty) (simp add: k3 pr)
  then have "tk_yield_switch (k3\<lparr>active_thread := 1\<rparr>) = Inr (k3\<lparr>thread_to_run := 0, active_thread := 0\<rparr>)"
    using wakeup_nobody [OF st]
    by (simp add: tk_yield_switch_def take_preempted_def dispatch_def tk_next_runable_thread_def) (simp add: k3 z)
  then have sc: "tk_construct_thread_scope oth 1 k3 = Inr (k3\<lparr>thread_to_run := 0, active_thread := 0\<rparr>)"
    by (simp add: tk_construct_thread_scope_def resume_def) (simp add: k3 z)
  have "in_sched ?p 0" by (simp add: in_sched_def)
  then have er: "enter_row ?p (k3\<lparr>thread_to_run := 0, active_thread := 0\<rparr>) =
      Inr (upd_stat ?p (\<lambda>s. s\<lparr>procs_at_prio := procs_at_prio s + 1\<rparr>) (set_slot ?p 0 1
        (upd_tcb 1 (\<lambda>c. c\<lparr>Idx := 0\<rparr>) (k3\<lparr>thread_to_run := 0, active_thread := 0\<rparr>))))"
    using pr [OF p] by (simp add: enter_row_def Let_def) (simp add: k3 pr [OF p])
  have "tk_create_thread oth (Some a) ''idle'' ?p 0 sz k0 = Inr (1,
      upd_stat ?p (\<lambda>s. s\<lparr>procs_at_prio := procs_at_prio s + 1\<rparr>) (set_slot ?p 0 1
        (upd_tcb 1 (\<lambda>c. c\<lparr>Idx := 0\<rparr>) (k3\<lparr>thread_to_run := 0, active_thread := 0\<rparr>))))"
    using e nf sc er pr [OF p] p
    by (simp add: tk_create_thread_def tk_spawn_def Let_def z fr k3 TK_THREAD_NAME_LEN_def)
  then show ?thesis
    unfolding k0 [symmetric]
    by (intro exI conjI) (assumption, auto simp: fun_eq_iff k3 z rr [unfolded One_nat_def] new_tcb_def upd_stat_def set_slot_def upd_tcb_def)
qed

lemma create_kernel_booted:
  assumes b: "bss k"
  obtains k' where "tk_create_kernel oth (Some a) k = Inr k'" "booted k'"
proof -
  obtain k0 where k0: "k0 = reset_tables k" by blast
  let ?p = "TK_MAX_PRIO_LEVELS - 1"
  from create_idle [OF b, of oth a TK_MINIMUM_STACK_SIZE, folded k0] obtain k1 where
    k1: "tk_create_thread oth (Some a) ''idle'' ?p 0 TK_MINIMUM_STACK_SIZE k0 = Inr (1, k1)"
    "threadPool k1 = (threadPool k0)(
      1 := (new_tcb 1 0 ?p 0 0 a TK_MINIMUM_STACK_SIZE ((pool k0 1)\<lparr>tname := ''idle''\<rparr>)),
      0 := (pool k0 0)\<lparr>noChilds := noChilds (pool k0 0) + 1\<rparr>)"
    "schedule k1 = (schedule k0)(?p := (schedule k0 ?p)(0 := 1))"
    "roundrobin_prio_idxs k1 = (roundrobin_prio_idxs k0)(?p := \<lparr>procs_at_prio = 1, curr_idx = 0\<rparr>)"
    "procs_in_use k1 = 2" "proc_idx k1 = 1" "active_thread k1 = 0" "IntFlagCntr k1 = 0" "npreempt k1 = 0"
    by blast
  obtain k' where k': "k' = set_slot 0 0 0 (upd_stat 0 (\<lambda>s. s\<lparr>procs_at_prio := 1\<rparr>)
      (upd_tcb 1 (\<lambda>c. c\<lparr>Gid := Thid c\<rparr>) (upd_tcb (Gid (pool k1 1)) (\<lambda>c. c\<lparr>noChilds := noChilds c - 1\<rparr>)
        (k1\<lparr>idle_Thid := 1\<rparr>))))" by blast
  have run: "tk_create_kernel oth (Some a) k = Inr k'"
    using k1(1) by (simp add: tk_create_kernel_def Let_def k' flip: k0)
  have p0: "?p \<noteq> 0" "\<not> TK_MAX_PRIO_LEVELS \<le> Suc 0" by (simp_all add: tuning_defs)
  have pool0: "pool k0 u = (if u = 0 then (reset_tcb (pool k 0))\<lparr>state := READY, valid := True, tname := ''tk_root''\<rparr>
     else reset_tcb (pool k u))" if "in_pool u" for u using reset_pool [OF that, of k] by (simp only: k0)
  have rr0: "roundrobin_prio_idxs k0 q = \<lparr>procs_at_prio = 0, curr_idx = 0\<rparr>" if "q < TK_MAX_PRIO_LEVELS" for q
    using reset_rows(1) [OF that, of k] by (simp add: k0)
  have sc0: "schedule k0 q j = 0" if "q < TK_MAX_PRIO_LEVELS" "j < TK_MAX_THREADS_AT_PRIO" for q j
    using reset_rows(2) [OF that, of k] by (simp add: k0)
  have "booted k'"
    using b unfolding booted_def bss_def k'
    by (auto simp: k1 pool0 new_tcb_def reset_tcb_def rr0 sc0 p0)
  with run show ?thesis by (rule that)
qed

lemma booted_ok:
  assumes b: "booted k"
  shows "kernel_ok {} k" and "valid_tids k = {0, 1}"
    and "row k p = (if p = 0 then [0] else if p = TK_MAX_PRIO_LEVELS - 1 then [1] else [])
       \<or> \<not> p < TK_MAX_PRIO_LEVELS"
proof -
  let ?l = "TK_MAX_PRIO_LEVELS - 1"
  have l: "?l \<noteq> 0" "?l < TK_MAX_PRIO_LEVELS" by (simp_all add: tuning_defs)
  show v: "valid_tids k = {0, 1}" using b by (auto simp: valid_tids_def booted_def)
  have procs: "procs k p = (if p = 0 \<or> p = ?l then 1 else 0)"
    and curr: "curr_idx (roundrobin_prio_idxs k p) = 0" if "p < TK_MAX_PRIO_LEVELS" for p
    using b that by (simp_all add: booted_def)
  have sch: "schedule k p j = (if p = ?l \<and> j = 0 then 1 else 0)"
    if "p < TK_MAX_PRIO_LEVELS" "j < TK_MAX_THREADS_AT_PRIO" for p j
    using b that by (simp add: booted_def)
  have rw: "row k p = (if p = 0 then [0] else if p = ?l then [1] else [])" if "p < TK_MAX_PRIO_LEVELS" for p
    using procs [OF that] sch [OF that, of 0] l by (auto simp: row_def)
  then show "row k p = (if p = 0 then [0] else if p = ?l then [1] else []) \<or> \<not> p < TK_MAX_PRIO_LEVELS" for p
    by blast
  have t: "Thid (pool k u) = u \<and> Gid (pool k u) = u \<and> noChilds (pool k u) = 0 \<and> state (pool k u) = READY"
    if "u = 0 \<or> u = 1" for u using b that unfolding booted_def by blast
  have pr: "Prio (pool k 0) = 0" "Prio (pool k 1) = ?l" "Idx (pool k 1) = 0" "valid (pool k 0)" "valid (pool k 1)"
    using b by (simp_all add: booted_def)
  have "row_ok {} k p" if p: "p < TK_MAX_PRIO_LEVELS" for p
    using procs [OF p] curr [OF p] rw [OF p] sch [OF p] l pr
    by (auto simp: row_ok_def entry_ok_def tuning_defs)
  moreover have "thread_ok {} k 0" "thread_ok {} k 1"
    using t [of 0] t [of 1] pr rw [of 0] rw [OF l(2)] l by (auto simp: thread_ok_def)
  ultimately have "sched_ok {} k" by (simp add: sched_ok_def v)
  moreover have "procs_in_use k = 2" using b by (simp add: booted_def)
  ultimately have "sched_inv {} k" by (simp add: sched_inv_def v)
  moreover have "children k 0 = {}" "children k 1 = {}"
    using t [of 0] t [of 1] by (auto simp: children_def v)
  then have "family_inv k" using t [of 0] t [of 1] by (simp add: family_inv_def relative_ok_def v)
  ultimately show "kernel_ok {} k" using t [of 0] by (simp add: kernel_ok_def kernel_inv_def v)
qed

end
