(* ===== verification/TkSystem.thy ===== *)
theory TkSystem
  imports TkThread
begin

text \<open>
  What joining, dying, being deleted and sleeping do, call by call. Each keeps \<open>kernel_ok\<close>.
\<close>

section \<open>Steps that change one control block\<close>

text \<open>
  A change of one thread's control block that the schedule and the family tree do not see:
  the zombie flag stays, and a thread that is its own parent does not start to wait for it.
\<close>

lemma kernel_ok_upd_tcb:
  assumes ok: "kernel_ok X k"
    and f: "\<And>c. valid (f c) = valid c \<and> Prio (f c) = Prio c \<and> Idx (f c) = Idx c \<and> Thid (f c) = Thid c \<and>
      stack_begin (f c) = stack_begin c"
      "Gid (f (pool k t)) = Gid (pool k t)" "noChilds (f (pool k t)) = noChilds (pool k t)"
      "has_flag (state (f (pool k t))) ZOMBI = has_flag (state (pool k t)) ZOMBI"
    and w: "t \<noteq> 0 \<Longrightarrow> Gid (pool k t) = t \<Longrightarrow> has_flag (state (f (pool k t))) TERM_T \<Longrightarrow>
      has_flag (state (pool k t)) TERM_T"
  shows "kernel_ok X (upd_tcb t f k)"
proof -
  have s: "sched_same k (upd_tcb t f k)" by (rule sched_same_upd_tcb) (rule f(1))
  have "family_inv (upd_tcb t f k)"
    by (rule relative_ok_states [OF kernel_okD(4) [OF ok] s]) (use f(2-4) w in \<open>auto split: if_splits\<close>)
  then show ?thesis
    by (rule kernel_ok_same [OF ok s]) (use ok f(4) in \<open>auto simp: kernel_ok_def\<close>)
qed

lemma has_flag_or: "has_flag (s OR f) g \<longleftrightarrow> has_flag s g \<or> has_flag f g"
proof -
  have "(s OR f) AND g = (s AND g) OR (f AND g)" by (rule bit_word_eqI) (auto simp: bit_simps)
  then show ?thesis by (simp add: has_flag_def or_eq_0_iff)
qed

lemma flag_facts [simp]:
  "\<not> has_flag SLEEP ZOMBI" "\<not> has_flag TERM_T ZOMBI" "\<not> has_flag QUEUE ZOMBI" "\<not> has_flag STATE_QS ZOMBI"
  "\<not> has_flag SLEEP TERM_T" "\<not> has_flag QUEUE TERM_T" "\<not> has_flag STATE_QS TERM_T"
  "\<not> has_flag TERM_T SLEEP" "\<not> has_flag QUEUE SLEEP" "\<not> has_flag TERM_T QUEUE" "\<not> has_flag SLEEP QUEUE"
  "has_flag SLEEP SLEEP" "has_flag TERM_T TERM_T" "has_flag QUEUE QUEUE"
  by (simp_all add: has_flag_def procstate_defs)

lemma sleep_until_ok: "kernel_ok X k \<Longrightarrow> kernel_ok X (sleep_until ms k)"
  unfolding sleep_until_def by (rule kernel_ok_upd_tcb) (auto simp: has_flag_or)

section \<open>Sleeping\<close>

text \<open>
  The signed difference of two clock values: a deadline in the future up to half the range
  of the clock is not expired; one further away is taken for the past.
\<close>

lemma sint_nonneg: "0 \<le> sint w \<longleftrightarrow> uint w < 2147483648" for w :: "32 word"
proof -
  have b: "- 2147483648 \<le> sint w" "sint w < 2147483648" using sint_ge [of w] sint_lt [of w] by simp_all
  have "uint w = take_bit 32 (sint w)" using uint_sint [of w] by simp
  then have u: "uint w = sint w mod 4294967296" by (simp add: take_bit_eq_mod)
  show ?thesis
  proof (cases "0 \<le> sint w")
    case True
    then have "uint w = sint w" using b(2) u by simp
    with True b(2) show ?thesis by simp
  next
    case False
    then have "(sint w + 4294967296) mod 4294967296 = sint w + 4294967296"
      using b by (intro mod_pos_pos_trivial) simp_all
    then have "uint w = sint w + 4294967296" using u by simp
    with False b(1) show ?thesis by simp
  qed
qed

lemma expired_after:
  assumes "wakeuptime c = now + d"
  shows "expired now c \<longleftrightarrow> d = 0 \<or> 2 ^ 31 < uint d"
proof -
  have e: "sint (now - wakeuptime c) = sint (- d)" by (simp add: assms)
  have d: "0 \<le> uint d" "uint d < 4294967296" using uint_bounded [of d] by simp_all
  have "uint (- d) = (- uint d) mod 4294967296" by (simp add: uint_word_ariths)
  then have u: "uint (- d) = (if uint d = 0 then 0 else 4294967296 - uint d)"
    using d by (simp add: zmod_zminus1_eq_if)
  have "0 \<le> sint (- d) \<longleftrightarrow> uint (- d) < 2147483648" by (rule sint_nonneg)
  then show ?thesis using d u by (simp add: expired_def e uint_0_iff)
qed

section \<open>Dying and being deleted\<close>

text \<open>A thread made a zombie, with a return value or without, that has let go of its children.\<close>

lemma ctl_same_fold: "(\<And>j k. ctl_same k (f j k)) \<Longrightarrow> ctl_same k (fold f js k)"
  by (induction js arbitrary: k) (auto intro: ctl_same_trans)

lemma ctl_same_detach_children: "ctl_same k (tk_detach_children t k)"
  unfolding tk_detach_children_def
  by (rule ctl_same_fold) (simp add: detach_child_def ctl_same_def)

lemma zombified_ok:
  assumes ok: "kernel_ok X k" and t: "t \<in> valid_tids k" "t \<notin> insert 0 X"
  shows "kernel_ok X (zombified t k)" "ctl_same k (zombified t k)"
    "has_flag (state (pool (zombified t k) t)) ZOMBI"
    "retval (pool (zombified t k) t) = retval (pool k t)"
    "parent_waits_for t (zombified t k) \<longleftrightarrow> parent_waits_for t k"
    "Gid (pool (zombified t k) t) = Gid (pool k t)"
proof -
  have nz: "t \<noteq> 0" "t \<notin> X" using t(2) by auto
  note p = zombified_pool [OF kernel_okD(4) [OF ok] t(1) nz(1)]
  note z = zombified_inv [OF kernel_okD(1) [OF ok] t(1) nz(1)]
  show "parent_waits_for t (zombified t k) \<longleftrightarrow> parent_waits_for t k"
    "Gid (pool (zombified t k) t) = Gid (pool k t)" by (rule z(3), rule z(4))
  have fam: "family_inv (zombified t k)" using z(1) by (simp add: kernel_inv_def)
  show "kernel_ok X (zombified t k)"
    by (rule kernel_ok_same [OF ok zombified_same fam]) (use ok nz p in \<open>auto simp: kernel_ok_def\<close>)
  show "has_flag (state (pool (zombified t k) t)) ZOMBI" by (simp add: p)
  show "retval (pool (zombified t k) t) = retval (pool k t)" by (simp add: p)
  show "ctl_same k (zombified t k)"
    by (rule ctl_same_trans [OF ctl_same_upd_tcb ctl_same_detach_children])
qed

text \<open>\<^verbatim>\<open>tk_delete_thread\<close> of any thread but the root, zombie or not.\<close>

lemma delete_lay:
  assumes "t \<in> valid_tids k" "\<not> has_flag (state (pool k t)) ZOMBI"
  shows "tk_delete_thread t k = andThen (lay_to_rest t (zombified t k)) (\<lambda>k'. Inr (TK_OK, k'))"
proof -
  have "andThen (tk_try_detach_parent t False k1) (\<lambda>(b, k1). if b then andThen (bury_thread t k1) (\<lambda>k2. Inr (TK_OK, k2))
      else Inr (TK_OK, k1)) = andThen (lay_to_rest t k1) (\<lambda>k'. Inr (TK_OK, k'))" for k1 :: "'a kern_scheme"
    by (cases "tk_try_detach_parent t False k1") (auto simp: lay_to_rest_def)
  with assms show ?thesis by (simp add: tk_delete_thread_def valid_tids_def)
qed

lemma delete_ok:
  assumes ok: "kernel_ok X k" and t: "t \<in> valid_tids k" "t \<notin> insert 0 X"
    and room: "buried_at_once t k \<Longrightarrow> \<not> full_row (Prio (pool k t)) k"
  shows "\<exists>k'. tk_delete_thread t k = Inr (TK_OK, k') \<and> kernel_ok X k' \<and> ctl_same k k' \<and>
    valid_tids k' = (if buried_at_once t k then valid_tids k - {t} else valid_tids k) \<and>
    (\<not> has_flag (state (pool k t)) ZOMBI \<and> parent_waits_for t k \<and> Gid (pool k t) \<noteq> -1 \<longrightarrow>
       delivered (retval (pool k t)) (pool k' (Gid (pool k t)))) \<and>
    (\<forall>u. u \<noteq> t \<longrightarrow> (ready k u \<longrightarrow> ready k' u) \<and>
       has_flag (state (pool k' u)) ZOMBI = has_flag (state (pool k u)) ZOMBI) \<and>
    (\<forall>u. Gid (pool k' u) = Gid (pool k u) \<or> Gid (pool k' u) = -1 \<and> (u = t \<or> Gid (pool k u) = t))"
proof (cases "has_flag (state (pool k t)) ZOMBI")
  case False
  note z = zombified_ok [OF ok t]
  have zp: "ready k u \<longrightarrow> ready (zombified t k) u"
    "has_flag (state (pool (zombified t k) u)) ZOMBI = has_flag (state (pool k u)) ZOMBI"
    "Gid (pool (zombified t k) u) = Gid (pool k u) \<or> Gid (pool (zombified t k) u) = -1 \<and> Gid (pool k u) = t"
    if "u \<noteq> t" for u
    using zombified_pool [OF kernel_okD(4) [OF ok] t(1), of u] t(2) that by (auto simp: ready_def children_def)
  have tz: "t \<in> valid_tids (zombified t k)" using t(1) sched_same_valid_tids [OF zombified_same [of k t]] by simp
  have "Gid (pool (zombified t k) t) = -1 \<or> parent_waits_for t (zombified t k) \<Longrightarrow> \<not> full_row (Prio (pool (zombified t k) t)) (zombified t k)"
    using room z(5,6) zombified_same [of k t] by (simp add: buried_at_once_def full_row_def sched_same_def)
  from lay_to_rest_ok [OF z(1) tz z(3) this] obtain k' where
    k': "lay_to_rest t (zombified t k) = Inr k'" "laid_to_rest X t (zombified t k) k'" by blast
  have g: "Gid (pool k' u) = Gid (pool k u) \<or> Gid (pool k' u) = -1 \<and> (u = t \<or> Gid (pool k u) = t)" for u
    using k'(2) zp(3) [of u] z(6) unfolding laid_to_rest_def by (cases "u = t") metis+
  have r: "(ready k u \<longrightarrow> ready k' u) \<and> has_flag (state (pool k' u)) ZOMBI = has_flag (state (pool k u)) ZOMBI"
    if "u \<noteq> t" for u
    using k'(2) zp(1,2) [OF that] unfolding laid_to_rest_def by metis
  have "ctl_same k k'" using k'(2) by (auto simp: laid_to_rest_def intro: ctl_same_trans [OF z(2)])
  with k' delete_lay [OF t(1) False] False show ?thesis
    using z(4-6) g r sched_same_valid_tids [OF zombified_same [of k t]]
    by (intro exI [of _ k']) (simp add: laid_to_rest_def buried_at_once_def)
next
  case True
  have nz: "t \<noteq> 0" "t \<notin> X" using t(2) by auto
  have "procs k (Prio (pool k t)) < TK_MAX_THREADS_AT_PRIO" using room True by (simp add: buried_at_once_def full_row_def)
  moreover have "children k t = {}"
    using family_invD [OF kernel_okD(4) [OF ok] t(1)] True by (simp add: relative_ok_def)
  ultimately show ?thesis
  proof (rule bury_thread_kernel [OF kernel_okD(1) [OF ok] t(1) nz])
    fix k'
    assume b: "bury_thread t k = Inr k'" "buried X t k k'"
    have "tk_delete_thread t k = Inr (TK_OK, k')"
      using True t(1) b(1) by (simp add: tk_delete_thread_def valid_tids_def)
    with kernel_ok_buried [OF ok b(2) t(2)] ctl_same_buried [OF b(2)] b(2) True buried_state(1,3) [OF b(2)] show ?thesis
      by (intro exI [of _ k']) (simp add: buried_def buried_at_once_def ready_def)
  qed
qed

lemma delete_full:
  assumes ok: "kernel_ok X k" and t: "t \<in> valid_tids k" "t \<notin> insert 0 X"
    and full: "buried_at_once t k" "full_row (Prio (pool k t)) k"
  shows "tk_delete_thread t k = Inl Out_of_bounds"
proof (cases "has_flag (state (pool k t)) ZOMBI")
  case True
  have "bury_thread t k = Inl Out_of_bounds"
    by (rule bury_thread_full [OF kernel_okD(3) [OF ok]]) (use t full(2) in \<open>auto simp: valid_tids_def full_row_def\<close>)
  then show ?thesis using True t(1) by (simp add: tk_delete_thread_def valid_tids_def)
next
  case False
  note z = zombified_ok [OF ok t]
  have tz: "t \<in> valid_tids (zombified t k)" using t(1) sched_same_valid_tids [OF zombified_same [of k t]] by simp
  have "Gid (pool (zombified t k) t) = -1 \<or> parent_waits_for t (zombified t k)" using full(1) False z(5,6) by (simp add: buried_at_once_def)
  moreover have "full_row (Prio (pool (zombified t k) t)) (zombified t k)"
    using full(2) zombified_same [of k t] by (simp add: full_row_def sched_same_def)
  ultimately have "lay_to_rest t (zombified t k) = Inl Out_of_bounds" by (rule lay_to_rest_full [OF z(1) tz t(2)])
  then show ?thesis by (simp add: delete_lay [OF t(1) False])
qed

lemma delete_invalid: "in_pool t \<Longrightarrow> \<not> valid (pool k t) \<Longrightarrow> tk_delete_thread t k = Inr (TK_ERROR, k)"
  by (simp add: tk_delete_thread_def)

lemma die_zombified:
  "die rv k = zombified (active_thread k) (upd_tcb (active_thread k) (\<lambda>c. c\<lparr>retval := rv\<rparr>) k)"
proof -
  have "c\<lparr>state := ZOMBI, retval := rv\<rparr> = c\<lparr>retval := rv, state := ZOMBI\<rparr>" for c :: tcb_t
    by (cases c) simp
  moreover have "upd_tcb t g (upd_tcb t f k) = upd_tcb t (\<lambda>c. g (f c)) k" for t f g and k :: "'a kern_scheme"
    by (simp add: upd_tcb_def)
  ultimately show ?thesis by (simp only: die_def)
qed

lemma die_ok:
  assumes ok: "kernel_ok X k" and t: "active_thread k \<in> valid_tids k" "active_thread k \<notin> insert 0 X"
  shows "kernel_ok X (die rv k)" and "ctl_same k (die rv k)"
    and "state (pool (die rv k) (active_thread k)) = ZOMBI" and "retval (pool (die rv k) (active_thread k)) = rv"
proof -
  let ?t = "active_thread k" let ?k = "upd_tcb ?t (\<lambda>c. c\<lparr>retval := rv\<rparr>) k"
  have ok': "kernel_ok X ?k" by (rule kernel_ok_upd_tcb [OF ok]) simp_all
  have t': "?t \<in> valid_tids ?k" using t(1) by (auto simp: valid_tids_def)
  note z = zombified_ok [OF ok' t' t(2)]
  show "kernel_ok X (die rv k)" unfolding die_zombified by (rule z(1))
  show "ctl_same k (die rv k)" unfolding die_zombified by (rule ctl_same_trans [OF ctl_same_upd_tcb z(2)])
  show "retval (pool (die rv k) ?t) = rv" unfolding die_zombified using z(4) by simp
  show "state (pool (die rv k) ?t) = ZOMBI"
    unfolding die_zombified using zombified_pool [OF kernel_okD(4) [OF ok'] t'] t(2) by simp
qed

section \<open>Joining\<close>

lemma join_errors:
  assumes "in_pool pid"
  shows "Gid (pool k pid) \<noteq> active_thread k \<Longrightarrow> tk_join oth pid k = Inr (Rc_errno EINVAL, None, k)"
    and "Gid (pool k pid) = active_thread k \<Longrightarrow> \<not> valid (pool k pid) \<Longrightarrow>
      tk_join oth pid k = Inr (Rc_errno ESRCH, None, k)"
  using assms by (simp_all add: tk_join_def)

text \<open>Joining a zombie: its value, and the zombie is left to the next wake-up scan.\<close>

lemma join_zombie_ok:
  assumes ok: "kernel_ok X k" and t: "pid \<in> valid_tids k" "pid \<noteq> 0" "pid \<noteq> active_thread k"
    and g: "Gid (pool k pid) = active_thread k" and z: "has_flag (state (pool k pid)) ZOMBI"
  shows "\<exists>k'. tk_join oth pid k = Inr (Rc_ok, Some (retval (pool k pid)), k') \<and> kernel_ok X k' \<and>
    ctl_same k k' \<and> valid_tids k' = valid_tids k \<and> Gid (pool k' pid) = -1"
proof -
  have "Gid (pool k pid) \<noteq> pid" using g t(3) by simp
  with try_detach_parent_ok [OF kernel_okD(4) [OF ok] t(1,2), of True] obtain b k1 where
    d: "tk_try_detach_parent pid True k = Inr (b, k1)" "family_inv k1" "sched_same k k1"
      "b \<Longrightarrow> Gid (pool k1 pid) = -1" "b \<longleftrightarrow> Gid (pool k pid) = -1 \<or> parent_waits_for pid k \<or> True"
      "\<And>u. has_flag (state (pool k1 u)) ZOMBI = has_flag (state (pool k u)) ZOMBI"
    by metis
  have "kernel_ok X k1" by (rule kernel_ok_same [OF ok d(3,2)]) (use ok d(6) in \<open>auto simp: kernel_ok_def\<close>)
  moreover have "tk_join oth pid k = Inr (Rc_ok, Some (retval (pool k pid)), k1)"
    using t(1) g z d(1) by (simp add: tk_join_def valid_tids_def)
  ultimately show ?thesis
    using ctl_same_try_detach_parent [OF d(1)] sched_same_valid_tids [OF d(3)] d(4,5) by blast
qed

lemma join_wait_ok:
  assumes ok: "kernel_ok X k" and g: "active_thread k = 0 \<or> Gid (pool k (active_thread k)) \<noteq> active_thread k"
  shows "kernel_ok X (join_wait pid k)" "ctl_same k (join_wait pid k)"
    and "Gid (pool k pid) = active_thread k \<Longrightarrow> parent_waits_for pid (join_wait pid k)"
    and "\<not> ready (join_wait pid k) (active_thread k)"
proof -
  show "kernel_ok X (join_wait pid k)"
    unfolding join_wait_def by (rule kernel_ok_upd_tcb [OF ok]) (use g in \<open>auto simp: has_flag_or\<close>)
  show "ctl_same k (join_wait pid k)" by (simp add: join_wait_def)
  show "Gid (pool k pid) = active_thread k \<Longrightarrow> parent_waits_for pid (join_wait pid k)"
    by (auto simp: parent_waits_for_def join_wait_def has_flag_or)
  show "\<not> ready (join_wait pid k) (active_thread k)" by (simp add: ready_def join_wait_def)
qed

section \<open>Detaching\<close>

text \<open>
  \<^verbatim>\<open>tk_detach\<close> rejects exactly the threads that have a parent, so the only ones it
  accepts are those that are detached already: it never changes anything.
\<close>

lemma detach_nothing:
  "in_pool t \<Longrightarrow> tk_detach t k = Inr
     (if \<not> valid (pool k t) then Rc_errno ESRCH
      else if Gid (pool k t) \<noteq> -1 then Rc_errno EINVAL else Rc_ok, k)"
  by (simp add: tk_detach_def tk_try_detach_parent_def Let_def)

end
