(* ===== verification/TkSteps.thy ===== *)
theory TkSteps
  imports TkSystem
begin

text \<open>
  The kernel as a transition system. A step is what one thread does from the moment it runs to
  the next context switch, or the return of a call that does not switch; it is named by the call.
  \<open>X\<close> holds the thread under creation, if there is one. The running thread and its call are
  arbitrary, as long as the call returns (its model is \<open>Inr\<close>), so a run of the system is an
  interleaving of the calls of any application, except that it keeps to four rules, because the
  code does not check them:

  \<^item> the idle thread only yields, and is not deleted;
  \<^item> the root thread is not deleted, does not return, and keeps its priority;
  \<^item> a thread that ends itself does it by returning, not by \<^verbatim>\<open>tk_delete_thread\<close>;
  \<^item> while a thread is under creation, it is not deleted or re-prioritised, and no other
    creation begins: \<^verbatim>\<open>tk_create_thread\<close> reads \<^verbatim>\<open>__tk_proc_idx\<close> again after a
    context switch.
\<close>

section \<open>The step relation\<close>

type_synonym 'a sys = "thid_t set \<times> 'a kern_scheme"

datatype call =
  Yield
| Tick clock_t
| Preempt thid_t
| Sleep "32 word"
| Join_living thid_t
| Join_zombie thid_t
| Exit int
| Delete thid_t
| Detach thid_t
| Change_prio thid_t nat
| Create_begin thid_t nat
| Create_end thid_t

inductive kcall :: "call \<Rightarrow> 'a sys \<Rightarrow> 'a sys \<Rightarrow> bool" where
  yield: "tk_yield_switch k = Inr k' \<Longrightarrow> kcall Yield (X, k) (X, k')"
| tick: "kcall (Tick c) (X, k) (X, k\<lparr>clock_now := c\<rparr>)"
| preempt: "npreempt k = 0 \<Longrightarrow> kcall (Preempt t) (X, k) (X, tk_preemplist t k)"
| sleep: "active_thread k \<noteq> idle_Thid k \<Longrightarrow> tk_yield_switch (sleep_until ms k) = Inr k' \<Longrightarrow>
    kcall (Sleep ms) (X, k) (X, k')"
| join_living: "active_thread k \<noteq> idle_Thid k \<Longrightarrow> pid \<in> valid_tids k \<Longrightarrow>
    Gid (pool k pid) = active_thread k \<Longrightarrow> \<not> has_flag (state (pool k pid)) ZOMBI \<Longrightarrow>
    tk_yield_switch (TkThread.join_wait pid k) = Inr k' \<Longrightarrow> kcall (Join_living pid) (X, k) (X, k')"
| join_zombie: "active_thread k \<noteq> idle_Thid k \<Longrightarrow> pid \<in> valid_tids k \<Longrightarrow> pid \<noteq> active_thread k \<Longrightarrow>
    has_flag (state (pool k pid)) ZOMBI \<Longrightarrow> tk_join oth pid k = Inr (rc, v, k') \<Longrightarrow> kcall (Join_zombie pid) (X, k) (X, k')"
| exit: "active_thread k \<noteq> 0 \<Longrightarrow> active_thread k \<noteq> idle_Thid k \<Longrightarrow>
    tk_yield_switch (sleep_until 1000 (TkThread.die rv k)) = Inr k' \<Longrightarrow> kcall (Exit rv) (X, k) (X, k')"
| delete: "t \<notin> X \<union> {0, idle_Thid k, active_thread k} \<Longrightarrow> tk_delete_thread t k = Inr (rc, k') \<Longrightarrow>
    kcall (Delete t) (X, k) (X, k')"
| detach: "tk_detach t k = Inr (rc, k') \<Longrightarrow> kcall (Detach t) (X, k) (X, k')"
| change_prio: "t \<notin> X \<union> {0} \<Longrightarrow> tk_change_prio t (int p) k = Inr (y, k') \<Longrightarrow>
    kcall (Change_prio t p) (X, k) (X, k')"
| create_begin: "active_thread k \<noteq> idle_Thid k \<Longrightarrow> tk_spawn (Some a) name prio inpar sz k = Inr (t, k1) \<Longrightarrow>
    tk_yield_switch (k1\<lparr>active_thread := t\<rparr>) = Inr k' \<Longrightarrow> kcall (Create_begin t prio) ({}, k) ({t}, k')"
| create_end: "enter_row (Prio (pool k t)) k = Inr k' \<Longrightarrow> kcall (Create_end t) ({t}, k) ({}, k')"

definition kstep :: "'a sys \<Rightarrow> 'a sys \<Rightarrow> bool" where
  "kstep s s' \<longleftrightarrow> (\<exists>c. kcall c s s')"

lemma kstepI: "kcall c s s' \<Longrightarrow> kstep s s'"
  by (auto simp: kstep_def)

section \<open>The invariant of the system\<close>

text \<open>
  On top of \<open>kernel_ok\<close>: at most one preemption is pending, the idle thread exists and is
  always ready, only it and the root thread are their own parents, and a scheduled thread runs.
\<close>

definition sys_ok :: "'a sys \<Rightarrow> bool" where
  "sys_ok s = (case s of (X, k) \<Rightarrow>
     kernel_ok X k \<and> IntFlagCntr k = 0 \<and> 0 \<le> npreempt k \<and> npreempt k < 2 \<and>
     idle_Thid k \<in> valid_tids k - X - {0} \<and> ready k (idle_Thid k) \<and> Gid (pool k (idle_Thid k)) = idle_Thid k \<and>
     (\<forall>t \<in> valid_tids k. Gid (pool k t) = t \<longrightarrow> t = 0 \<or> t = idle_Thid k) \<and>
     active_thread k \<in> valid_tids k - X \<and> \<not> has_flag (state (pool k (active_thread k))) ZOMBI \<and>
     (\<forall>t \<in> X. X = {t} \<and> proc_idx k = t \<and> t \<noteq> 0))"

definition reachable :: "'a kern_scheme \<Rightarrow> 'a sys \<Rightarrow> bool" where
  "reachable k s \<longleftrightarrow> kstep\<^sup>*\<^sup>* ({}, k) s"

lemma booted_sys_ok: "booted k \<Longrightarrow> sys_ok ({}, k)"
  using booted_ok [of k] by (auto simp: sys_ok_def booted_def ready_def)

text \<open>What a step must show about the threads, when the switch itself is not part of it.\<close>

definition sys_pre :: "thid_t set \<Rightarrow> 'a kern_scheme \<Rightarrow> bool" where
  "sys_pre X k \<longleftrightarrow>
     kernel_ok X k \<and> IntFlagCntr k = 0 \<and> 0 \<le> npreempt k \<and> npreempt k < 2 \<and>
     idle_Thid k \<in> valid_tids k - X - {0} \<and> ready k (idle_Thid k) \<and> Gid (pool k (idle_Thid k)) = idle_Thid k \<and>
     (\<forall>t \<in> valid_tids k. Gid (pool k t) = t \<longrightarrow> t = 0 \<or> t = idle_Thid k) \<and>
     (\<forall>t \<in> X. X = {t} \<and> proc_idx k = t \<and> t \<noteq> 0)"

lemma sys_ok_iff:
  "sys_ok (X, k) \<longleftrightarrow> sys_pre X k \<and> active_thread k \<in> valid_tids k - X \<and>
     \<not> has_flag (state (pool k (active_thread k))) ZOMBI"
  by (auto simp: sys_ok_def sys_pre_def)

section \<open>Every step keeps the invariant\<close>

lemma woken_pre:
  assumes pre: "sys_pre X k" and w: "woken_rel X now J k k1"
  shows "sys_pre X k1"
proof -
  have kz: "\<not> has_flag (state (pool k (idle_Thid k))) ZOMBI" using pre by (simp add: sys_pre_def ready_def)
  have c: "idle_Thid k1 = idle_Thid k" "IntFlagCntr k1 = IntFlagCntr k" "npreempt k1 = npreempt k"
    "proc_idx k1 = proc_idx k" using w by (simp_all add: woken_rel_def ctl_same_def)
  have i: "idle_Thid k \<in> valid_tids k1" using pre w kz unfolding woken_rel_def sys_pre_def by blast
  have g: "Gid (pool k1 u) = u \<longrightarrow> Gid (pool k u) = u" if "u \<in> valid_tids k1" for u
    using w that unfolding woken_rel_def by (metis mem_Collect_eq not_in_pool_neg valid_tids_def)
  have gi: "Gid (pool k1 (idle_Thid k)) = idle_Thid k"
    using w kz pre unfolding woken_rel_def sys_pre_def by metis
  have "ready k1 (idle_Thid k)" using w pre unfolding woken_rel_def sys_pre_def by blast
  moreover have "kernel_ok X k1" using w by (simp add: woken_rel_def)
  moreover have "valid_tids k1 \<subseteq> valid_tids k" using w by (simp add: woken_rel_def)
  ultimately show ?thesis
    using pre i g gi unfolding sys_pre_def c by blast
qed

lemma sys_pre_same:
  assumes "sys_pre X k" "kernel_ok X k'" "sched_same k k'"
    and "\<And>u. Gid (pool k' u) = Gid (pool k u) \<or> Gid (pool k' u) = -1 \<and> u \<noteq> idle_Thid k"
    and "IntFlagCntr k' = IntFlagCntr k" "0 \<le> npreempt k'" "npreempt k' < 2" "proc_idx k' = proc_idx k"
    and "ready k' (idle_Thid k)"
  shows "sys_pre X k'"
proof -
  have v: "valid_tids k' = valid_tids k" by (rule sched_same_valid_tids [OF assms(3)])
  have i: "idle_Thid k' = idle_Thid k" using assms(3) by (simp add: sched_same_def)
  have n: "u \<noteq> -1" if "u \<in> valid_tids k" for u using that by (auto simp: valid_tids_def)
  have g: "Gid (pool k u) = u" if "u \<in> valid_tids k" "Gid (pool k' u) = u" for u
    using assms(4) [of u] that n by auto
  have gi: "Gid (pool k' (idle_Thid k)) = Gid (pool k (idle_Thid k))" using assms(4) by blast
  show ?thesis
    using assms(1,2,5-9) g unfolding sys_pre_def v i gi by simp
qed

lemma yield_step:
  assumes pre: "sys_pre X k"
  shows "(tk_yield_switch k = Inl Out_of_bounds \<and> stuck_zombie k) \<or>
    (\<exists>k'. tk_yield_switch k = Inr k' \<and> sys_ok (X, k') \<and> ready k' (active_thread k'))"
proof -
  have h: "kernel_ok X k" "IntFlagCntr k = 0" "npreempt k < 2" using pre by (simp_all add: sys_pre_def)
  show ?thesis
  proof (rule yield_switch_ok [OF h])
    fix k1 k'
    assume k1: "woken_rel X (clock_now k) (if npreempt k > 0 then {} else {t. in_pool t}) k k1"
      and k': "tk_yield_switch k = Inr k'" "switched X k'" "threadPool k' = threadPool k1" "sched_same k1 k'"
        "npreempt k' = max 0 (npreempt k - 1) \<or> npreempt k < 0" "proc_idx k' = proc_idx k1"
        "IntFlagCntr k' = IntFlagCntr k1"
    note p1 = woken_pre [OF pre k1]
    have v: "valid_tids k' = valid_tids k1" by (rule sched_same_valid_tids [OF k'(4)])
    have i: "idle_Thid k' = idle_Thid k1" using k'(4) by (simp add: sched_same_def)
    have r: "ready k' u = ready k1 u" for u by (simp add: ready_def k'(3))
    have ok': "kernel_ok X k'" using k'(2) by (simp add: switched_def)
    have n: "0 \<le> npreempt k'" "npreempt k' < 2" using k'(5) pre by (auto simp: sys_pre_def)
    have p': "sys_pre X k'"
      by (rule sys_pre_same [OF p1 ok' k'(4)])
        (use k'(3,6,7) n p1 in \<open>simp_all add: sys_pre_def ready_def\<close>)
    have "active_thread k' \<in> valid_tids k' - X \<and> ready k' (active_thread k')"
      using k'(2) p' unfolding switched_def sys_pre_def by blast
    with p' have "sys_ok (X, k')" "ready k' (active_thread k')" by (simp_all add: sys_ok_iff ready_def)
    with k'(1) show ?thesis by blast
  qed simp
qed

lemma sys_okD:
  assumes "sys_ok (X, k)"
  shows "sys_pre X k" "kernel_ok X k" "active_thread k \<in> valid_tids k" "active_thread k \<notin> X"
    "\<not> has_flag (state (pool k (active_thread k))) ZOMBI"
    "active_thread k \<noteq> idle_Thid k \<Longrightarrow> active_thread k = 0 \<or> Gid (pool k (active_thread k)) \<noteq> active_thread k"
  using assms by (auto simp: sys_ok_iff sys_pre_def)

text \<open>A call of the running thread that ends in a yield.\<close>

lemma then_yield:
  assumes "sys_pre X k" "tk_yield_switch k = Inr k'"
  shows "sys_ok (X, k')" "ready k' (active_thread k')"
  using yield_step [OF assms(1)] assms(2) by auto

lemma ctl_same_sys:
  assumes "ctl_same k k'"
  shows "IntFlagCntr k' = IntFlagCntr k" "npreempt k' = npreempt k" "proc_idx k' = proc_idx k"
    "idle_Thid k' = idle_Thid k" "active_thread k' = active_thread k"
  using assms by (simp_all add: ctl_same_def)

lemma step_sleep:
  assumes "sys_pre X k" "active_thread k \<noteq> idle_Thid k"
  shows "sys_pre X (sleep_until ms k)"
proof (rule sys_pre_same [OF assms(1)])
  show "kernel_ok X (sleep_until ms k)" using assms(1) by (simp add: sys_pre_def sleep_until_ok)
  show "sched_same k (sleep_until ms k)" unfolding sleep_until_def by (rule sched_same_upd_tcb) simp
qed (use assms in \<open>auto simp: sys_pre_def sleep_until_def ready_def\<close>)

lemma step_join_wait:
  assumes "sys_ok (X, k)" "active_thread k \<noteq> idle_Thid k"
  shows "sys_pre X (TkThread.join_wait pid k)"
proof (rule sys_pre_same [OF sys_okD(1) [OF assms(1)]])
  show "kernel_ok X (TkThread.join_wait pid k)"
    by (rule join_wait_ok(1) [OF sys_okD(2) [OF assms(1)] sys_okD(6) [OF assms]])
  show "sched_same k (TkThread.join_wait pid k)" unfolding join_wait_def by (rule sched_same_upd_tcb) simp
qed (use sys_okD(1) [OF assms(1)] assms(2) in \<open>auto simp: sys_pre_def join_wait_def ready_def\<close>)

lemma step_die:
  assumes "sys_ok (X, k)" "active_thread k \<noteq> 0" "active_thread k \<noteq> idle_Thid k"
  shows "sys_pre X (TkThread.die rv k)"
proof -
  let ?t = "active_thread k"
  note a = sys_okD(3,4) [OF assms(1)]
  have nt: "?t \<notin> insert 0 X" using a(2) assms(2) by simp
  note d = die_ok [OF sys_okD(2) [OF assms(1)] a(1) nt, of rv]
  let ?k = "upd_tcb ?t (\<lambda>c. c\<lparr>retval := rv\<rparr>) k"
  have s: "sched_same k (TkThread.die rv k)"
    unfolding die_zombified
    by (rule sched_same_trans [OF sched_same_upd_tcb zombified_same]) simp
  have ok': "kernel_ok X ?k" by (rule kernel_ok_upd_tcb [OF sys_okD(2) [OF assms(1)]]) simp_all
  have t': "?t \<in> valid_tids ?k" using a(1) by (auto simp: valid_tids_def)
  have p: "pool (TkThread.die rv k) u = (if u \<in> children ?k ?t then (pool ?k u)\<lparr>Gid := -1\<rparr>
      else if u = ?t then (pool ?k u)\<lparr>state := ZOMBI, noChilds := noChilds (pool ?k u) - int (card (children ?k ?t))\<rparr>
      else pool ?k u)" for u
    unfolding die_zombified by (rule zombified_pool [OF kernel_okD(4) [OF ok'] t' assms(2)])
  have pre: "sys_pre X k" by (rule sys_okD(1) [OF assms(1)])
  have ni: "idle_Thid k \<notin> children ?k ?t"
    using pre assms(3) by (auto simp: children_def sys_pre_def split: if_splits)
  show ?thesis
  proof (rule sys_pre_same [OF pre d(1) s])
    show "Gid (pool (TkThread.die rv k) u) = Gid (pool k u) \<or> Gid (pool (TkThread.die rv k) u) = -1 \<and> u \<noteq> idle_Thid k" for u
      using ni by (auto simp: p)
    show "ready (TkThread.die rv k) (idle_Thid k)"
      using pre ni assms(3) by (simp add: p ready_def sys_pre_def)
  qed (use pre ctl_same_sys [OF d(2)] in \<open>simp_all add: sys_pre_def\<close>)
qed

lemma step_delete:
  assumes ok: "sys_ok (X, k)" and t: "t \<notin> X \<union> {0, idle_Thid k, active_thread k}"
    and del: "tk_delete_thread t k = Inr (rc, k')"
  shows "sys_ok (X, k')"
proof (cases "valid (pool k t)")
  case False
  with del ok show ?thesis by (simp add: tk_delete_thread_def result_elims)
next
  case True
  with del have tv: "t \<in> valid_tids k" by (simp add: tk_delete_thread_def result_elims valid_tids_def)
  have tn: "t \<notin> insert 0 X" using t by auto
  have "buried_at_once t k \<Longrightarrow> \<not> full_row (Prio (pool k t)) k"
    using delete_full [OF sys_okD(2) [OF ok] tv tn] del by auto
  from delete_ok [OF sys_okD(2) [OF ok] tv tn this] del have
    d: "kernel_ok X k'" "ctl_same k k'" "valid_tids k - {t} \<subseteq> valid_tids k'" "valid_tids k' \<subseteq> valid_tids k"
    "\<And>u. u \<noteq> t \<Longrightarrow> ready k u \<Longrightarrow> ready k' u"
    "\<And>u. u \<noteq> t \<Longrightarrow> has_flag (state (pool k' u)) ZOMBI = has_flag (state (pool k u)) ZOMBI"
    "\<And>u. Gid (pool k' u) = Gid (pool k u) \<or> Gid (pool k' u) = -1 \<and> (u = t \<or> Gid (pool k u) = t)"
    by (auto split: if_splits)
  note c = ctl_same_sys [OF d(2)]
  have pre: "sys_pre X k" by (rule sys_okD(1) [OF ok])
  have n: "u \<noteq> -1" if "u \<in> valid_tids k" for u using that by (auto simp: valid_tids_def)
  have g: "u = 0 \<or> u = idle_Thid k" if "u \<in> valid_tids k'" "Gid (pool k' u) = u" for u
  proof -
    have uv: "u \<in> valid_tids k" using d(4) that(1) by blast
    then have "Gid (pool k u) = u" using d(7) [of u] n [OF uv] that(2) by auto
    with uv pre show ?thesis unfolding sys_pre_def by blast
  qed
  have iv: "idle_Thid k \<in> valid_tids k" "Gid (pool k (idle_Thid k)) = idle_Thid k"
    using pre by (simp_all add: sys_pre_def)
  have gi: "Gid (pool k' (idle_Thid k)) = idle_Thid k" using d(7) [of "idle_Thid k"] iv t by auto
  have "sys_pre X k'"
    using pre d(1,3,4,5) t g gi unfolding sys_pre_def c by auto
  then show ?thesis
    using d(3,6) t sys_okD(3-5) [OF ok] by (auto simp: sys_ok_iff c)
qed

text \<open>Steps that neither change a state nor a parent: changing a priority, entering a row.\<close>

lemma sys_ok_frame:
  assumes "sys_ok (X, k)" "kernel_ok Y k'" "Y \<subseteq> X" "valid_tids k' = valid_tids k"
    and "\<And>u. Gid (pool k' u) = Gid (pool k u) \<and> state (pool k' u) = state (pool k u)"
    and "IntFlagCntr k' = IntFlagCntr k" "npreempt k' = npreempt k" "proc_idx k' = proc_idx k \<or> Y = {}"
    and "idle_Thid k' = idle_Thid k" "active_thread k' = active_thread k"
  shows "sys_ok (Y, k')"
proof -
  have X: "X = {t} \<and> proc_idx k = t \<and> t \<noteq> 0" if "t \<in> X" for t
    using assms(1) that by (simp add: sys_ok_def)
  have Y: "\<forall>t \<in> Y. Y = {t} \<and> proc_idx k' = t \<and> t \<noteq> 0"
  proof
    fix t assume t: "t \<in> Y"
    with assms(3) have "t \<in> X" by blast
    with X [OF this] assms(3,8) t show "Y = {t} \<and> proc_idx k' = t \<and> t \<noteq> 0" by auto
  qed
  have st: "state (pool k' u) = state (pool k u)" "Gid (pool k' u) = Gid (pool k u)" for u
    using assms(5) by simp_all
  show ?thesis
    using assms(1-3) Y unfolding sys_ok_def prod.case ready_def assms(4,6,7,9,10) st by blast
qed

lemma step_change_prio:
  assumes ok: "sys_ok (X, k)" and t: "t \<notin> X \<union> {0}" and ch: "tk_change_prio t (int p) k = Inr (y, k')"
  shows "sys_ok (X, k')"
proof -
  have tv: "t \<in> valid_tids k" and e: "change_prio_error t p k = 0" and p: "p < TK_MAX_PRIO_LEVELS"
    using ch by (auto simp: tk_change_prio_def Let_def result_elims valid_tids_def change_prio_error_def
        trap_defs or_eq_0_iff split: if_splits)
  show ?thesis
  proof (cases "p = Prio (pool k t)")
    case True
    with ch tv e p ok show ?thesis
      by (auto simp: tk_change_prio_def Let_def result_elims valid_tids_def split: if_splits)
  next
    case False
    have nz: "t \<noteq> 0" "t \<notin> X" using t by auto
    have kok: "kernel_ok X k" by (rule sys_okD(2) [OF ok])
    have new: "procs k p < TK_MAX_THREADS_AT_PRIO"
      using e by (auto simp: change_prio_error_def trap_defs or_eq_0_iff split: if_splits)
    have old: "procs k (Prio (pool k t)) < TK_MAX_THREADS_AT_PRIO"
      using change_prio_full [OF kernel_okD(3) [OF kok] tv nz p False new] ch by (cases "TK_MAX_THREADS_AT_PRIO \<le> procs k (Prio (pool k t))") auto
    from change_prio_ok [OF kernel_okD(1) [OF kok] tv nz p False new old] ch have
      c: "kernel_inv X k'" "valid_tids k' = valid_tids k"
        "\<And>u. \<exists>pr ix. pool k' u = (pool k u)\<lparr>Prio := pr, Idx := ix\<rparr>"
        "\<exists>tp sc rr. k' = k\<lparr>threadPool := tp, schedule := sc, roundrobin_prio_idxs := rr\<rparr>"
      by auto
    have st: "Gid (pool k' u) = Gid (pool k u) \<and> state (pool k' u) = state (pool k u)" for u
      using c(3) [of u] by auto
    have "kernel_ok X k'" using kok c(1,2) st by (simp add: kernel_ok_def)
    then show ?thesis
      by (rule sys_ok_frame [OF ok _ subset_refl c(2) st]) (use c(4) in auto)
  qed
qed

lemma step_join_zombie:
  assumes ok: "sys_ok (X, k)" and pid: "pid \<in> valid_tids k" "pid \<noteq> active_thread k"
    and z: "has_flag (state (pool k pid)) ZOMBI" and j: "tk_join oth pid k = Inr (rc, v, k')"
  shows "sys_ok (X, k')"
proof (cases "Gid (pool k pid) = active_thread k")
  case False
  with j ok show ?thesis by (simp add: tk_join_def result_elims)
next
  case True
  have kok: "kernel_ok X k" and pre: "sys_pre X k" using sys_okD [OF ok] by simp_all
  have p0: "pid \<noteq> 0" using kok z by (auto simp: kernel_ok_def)
  obtain b where d: "tk_try_detach_parent pid True k = Inr (b, k')"
    using j True z pid(1) by (auto simp: tk_join_def result_elims valid_tids_def)
  from join_zombie_ok [OF kok pid(1) p0 pid(2) True z, of oth] j have "kernel_ok X k'" by auto
  note t = try_detach_parent_state [OF d]
  note s = sched_same_try_detach_parent [OF d]
  note c = ctl_same_sys [OF ctl_same_try_detach_parent [OF d]]
  have ni: "pid \<noteq> idle_Thid k" using pre z by (auto simp: sys_pre_def ready_def)
  have "sys_pre X k'"
    by (rule sys_pre_same [OF pre \<open>kernel_ok X k'\<close> s]) (use pre ni t(3,4) c in \<open>auto simp: sys_pre_def\<close>)
  moreover have "has_flag (state (pool k' (active_thread k))) ZOMBI = has_flag (state (pool k (active_thread k))) ZOMBI"
    using d by (auto simp: tk_try_detach_parent_def Let_def result_elims unblock_parent_pool split: if_splits)
  ultimately show ?thesis
    using sys_okD(3-5) [OF ok] sched_same_valid_tids [OF s] by (simp add: sys_ok_iff c)
qed

text \<open>The checks that a creation has passed.\<close>

lemma spawn_may: "tk_spawn (Some a) name prio inpar sz k = Inr (t, k1) \<Longrightarrow> may_spawn prio name k"
  by (auto simp: tk_spawn_def Let_def result_elims may_spawn_def full_row_def create_error_def trap_defs or_eq_0_iff
      split: if_splits)

lemma spawn_pre:
  assumes ok: "sys_ok ({}, k)" and "active_thread k \<noteq> idle_Thid k" and sp: "spawned_from k prio t k1"
  shows "sys_pre {t} (k1\<lparr>active_thread := t\<rparr>)"
proof -
  have cr: "creating t prio (k1\<lparr>active_thread := t\<rparr>)" using sp by (simp add: spawned_from_def creating_active)
  have at: "active_thread k \<noteq> t" using sp sys_okD(3) [OF ok] by (auto simp: spawned_from_def)
  have v: "valid_tids (k1\<lparr>active_thread := t\<rparr>) = insert t (valid_tids k)"
    using sp by (simp add: spawned_from_def valid_tids_def)
  have i: "idle_Thid k \<noteq> t" using sp sys_okD(1) [OF ok] by (auto simp: spawned_from_def sys_pre_def)
  have same: "state (pool k1 u) = state (pool k u) \<and> Gid (pool k1 u) = Gid (pool k u)" if "u \<noteq> t" for u
    using sp that by (simp add: spawned_from_def)
  have g: "u = 0 \<or> u = idle_Thid k" if "u \<in> insert t (valid_tids k)" "Gid (pool k1 u) = u" for u
  proof -
    have "u \<noteq> t" using that(2) sp at by (auto simp: spawned_from_def)
    with that same [of u] sys_okD(1) [OF ok] show ?thesis unfolding sys_pre_def by auto
  qed
  show ?thesis
    using sys_okD(1) [OF ok] sp cr i g same [OF i] unfolding sys_pre_def v
    by (simp add: spawned_from_def creating_def ready_def)
qed

lemma kcall_sys_ok:
  assumes "kcall c s s'" "sys_ok s"
  shows "sys_ok s'"
  using assms
proof (induction rule: kcall.induct)
  case (yield k k' X)
  then show ?case by (blast intro: then_yield dest: sys_okD(1))
next
  case (tick c X k)
  have "kernel_ok X (k\<lparr>clock_now := c\<rparr>)"
    by (rule kernel_ok_ctl [OF sys_okD(2) [OF tick]]) (simp_all add: sched_same_def)
  then show ?case by (rule sys_ok_frame [OF tick]) (simp_all add: valid_tids_def)
next
  case (preempt k t X)
  have "kernel_ok X (tk_preemplist t k)"
    by (rule kernel_ok_ctl [OF sys_okD(2) [OF preempt(2)]]) (simp_all add: sched_same_def tk_preemplist_def)
  with preempt show ?case
    by (auto simp: sys_ok_def tk_preemplist_def valid_tids_def ready_def)
next
  case (sleep k ms k' X)
  then show ?case by (blast intro: then_yield step_sleep dest: sys_okD(1))
next
  case (join_living k pid k' X)
  then show ?case by (blast intro: then_yield step_join_wait)
next
  case (join_zombie k pid oth rc v k' X)
  then show ?case by (blast intro: step_join_zombie)
next
  case (exit k rv k' X)
  have "sys_pre X (TkThread.die rv k)" by (rule step_die [OF exit(4,1,2)])
  moreover have "active_thread (TkThread.die rv k) \<noteq> idle_Thid (TkThread.die rv k)"
  proof -
    have nt: "active_thread k \<notin> insert 0 X" using exit(1) sys_okD(4) [OF exit(4)] by simp
    from ctl_same_sys [OF die_ok(2) [OF sys_okD(2,3) [OF exit(4)] nt, of rv]] exit(2) show ?thesis by simp
  qed
  ultimately show ?case by (rule then_yield(1) [OF step_sleep exit(3)])
next
  case (delete t X k rc k')
  then show ?case by (blast intro: step_delete)
next
  case (detach t k rc k' X)
  then have "in_pool t" by (simp add: tk_detach_def result_elims)
  with detach show ?case by (simp add: detach_nothing)
next
  case (change_prio t X p k y k')
  then show ?case by (blast intro: step_change_prio)
next
  case (create_begin k a name prio inpar sz t k1 k')
  have par: "may_parent k"
    using sys_okD(3,5) [OF create_begin(4)] sys_okD(6) [OF create_begin(4,1)] by (simp add: may_parent_def)
  from spawn_ok [OF sys_okD(2) [OF create_begin(4)] par spawn_may [OF create_begin(2)], of a inpar sz] create_begin(2)
  have "spawned_from k prio t k1" by auto
  from spawn_pre [OF create_begin(4,1) this] create_begin(3) show ?case by (rule then_yield(1))
next
  case (create_end k t k')
  have k: "kernel_ok {t} k" "proc_idx k = t" "t \<noteq> 0" "t \<in> valid_tids k"
    using create_end(2) by (auto simp: sys_ok_def kernel_ok_def)
  have "Prio (pool k t) < TK_MAX_PRIO_LEVELS" using create_end(1) k by (simp add: enter_row_def Let_def result_elims in_sched_def)
  moreover have "\<not> full_row (Prio (pool k t)) k"
    using create_end(1) by (auto simp: enter_row_def Let_def result_elims in_sched_def full_row_def)
  ultimately have "creating t (Prio (pool k t)) k" using k by (simp add: creating_def)
  then show ?case
  proof (rule creating_done)
    fix k2
    assume "enter_row (Prio (pool k t)) k = Inr k2" "kernel_ok {} k2" "valid_tids k2 = valid_tids k"
      "active_thread k2 = active_thread k" "\<And>u. Gid (pool k2 u) = Gid (pool k u) \<and> state (pool k2 u) = state (pool k u)"
      "idle_Thid k2 = idle_Thid k" "IntFlagCntr k2 = IntFlagCntr k" "npreempt k2 = npreempt k"
    with create_end(1) show ?case by (intro sys_ok_frame [OF create_end(2)]) auto
  qed
qed

lemma kstep_sys_ok: "kstep s s' \<Longrightarrow> sys_ok s \<Longrightarrow> sys_ok s'"
  by (auto simp: kstep_def intro: kcall_sys_ok)

lemma reachable_sys_ok:
  assumes "booted k" "reachable k s"
  shows "sys_ok s"
  using assms(2) unfolding reachable_def
proof (induction rule: rtranclp_induct)
  case base
  show ?case by (rule booted_sys_ok [OF assms(1)])
next
  case (step s s')
  then show ?case by (blast intro: kstep_sys_ok)
qed

end
