(* ===== verification/TkJoin.thy ===== *)
theory TkJoin
  imports TkSteps
begin

text \<open>
  A thread that waits in \<^verbatim>\<open>tk_join\<close> for a child, from its context switch to the moment it
  runs again: whatever the other threads call meanwhile, it runs again only after it was handed
  the value with which the child has returned.
\<close>

section \<open>Waiting and being told\<close>

text \<open>
  Thread \<open>p\<close> waits for its child \<open>c\<close>, which has not returned, or with \<open>rv\<close>; or \<open>p\<close> has been told
  that its child died with \<open>rv\<close>.
\<close>

definition waits_for :: "thid_t \<Rightarrow> thid_t \<Rightarrow> int \<Rightarrow> 'a kern_scheme \<Rightarrow> bool" where
  "waits_for p c rv k \<longleftrightarrow> c \<in> valid_tids k \<and> Gid (pool k c) = p \<and> state (pool k p) = TERM_T \<and>
     entity (bOnId (pool k p)) = Ent_tcb c \<and> (has_flag (state (pool k c)) ZOMBI \<longrightarrow> retval (pool k c) = rv)"

definition told :: "thid_t \<Rightarrow> int \<Rightarrow> 'a kern_scheme \<Rightarrow> bool" where
  "told p rv k \<longleftrightarrow> state (pool k p) = READY \<and> wakeupEvent (pool k p) = E_CHILDDEATH \<and> retval (pool k p) = rv"

definition joining :: "thid_t \<Rightarrow> thid_t \<Rightarrow> int \<Rightarrow> 'a kern_scheme \<Rightarrow> bool" where
  "joining p c rv k \<longleftrightarrow> p \<in> valid_tids k \<and> c \<noteq> p \<and> (waits_for p c rv k \<or> told p rv k)"

lemma joining_ready: "joining p c rv k \<Longrightarrow> ready k p \<Longrightarrow> told p rv k"
  by (auto simp: joining_def waits_for_def ready_def procstate_defs)

lemma joining_awake [simp]:
  "joining p c rv k \<Longrightarrow> \<not> has_flag (state (pool k p)) ZOMBI"
  "joining p c rv k \<Longrightarrow> \<not> has_flag (state (pool k p)) SLEEP"
  by (auto simp: joining_def waits_for_def told_def has_flag_def procstate_defs)

text \<open>What must stay of the two control blocks.\<close>

definition same_parent :: "tcb_t \<Rightarrow> tcb_t \<Rightarrow> bool" where
  "same_parent b b' \<longleftrightarrow> state b' = state b \<and> bOnId b' = bOnId b \<and> wakeupEvent b' = wakeupEvent b \<and>
     retval b' = retval b \<and> valid b' = valid b"

definition same_child :: "tcb_t \<Rightarrow> tcb_t \<Rightarrow> bool" where
  "same_child b b' \<longleftrightarrow> valid b' = valid b \<and> Gid b' = Gid b \<and> has_flag (state b') ZOMBI = has_flag (state b) ZOMBI \<and>
     (has_flag (state b) ZOMBI \<longrightarrow> retval b' = retval b)"

lemma same_refl: "same_parent b b" "same_child b b"
  by (simp_all add: same_parent_def same_child_def)

lemma joining_same:
  assumes "joining p c rv k" "same_parent (pool k p) (pool k' p)" "waits_for p c rv k \<Longrightarrow> same_child (pool k c) (pool k' c)"
  shows "joining p c rv k'"
  using assms by (auto simp: joining_def waits_for_def told_def same_parent_def same_child_def valid_tids_def)

lemma joining_pool: "joining p c rv k \<Longrightarrow> threadPool k' = threadPool k \<Longrightarrow> joining p c rv k'"
  by (erule joining_same) (simp_all add: same_refl)

section \<open>Waking up and reaping\<close>

lemma joining_time_out: "joining p c rv k \<Longrightarrow> joining p c rv (time_out now i k)"
  by (rule joining_same) (auto simp: time_out_def same_child_def same_refl)

lemma told_detach:
  assumes "told p rv k" "in_pool p" "tk_try_detach_parent i force k = Inr (gone, k')"
  shows "same_parent (pool k p) (pool k' p)"
proof -
  have "\<not> parent_waits_for i k" if "Gid (pool k i) = p"
    using that assms(1) by (simp add: parent_waits_for_def told_def procstate_defs has_flag_def)
  then show ?thesis
    using assms(2,3) by (auto simp: tk_try_detach_parent_def Let_def result_elims unblock_parent_pool same_parent_def split: if_splits)
qed

lemma waits_detach_child:
  assumes "waits_for p c rv k" "in_pool p" "c \<noteq> p" "has_flag (state (pool k c)) ZOMBI"
    and "tk_try_detach_parent c False k = Inr (gone, k')"
  shows "told p rv k'" "valid (pool k' p) = valid (pool k p)"
proof -
  have g: "Gid (pool k c) = p" "p \<noteq> -1" "parent_waits_for c k"
    using assms(1,2) by (auto simp: waits_for_def parent_waits_for_def)
  from assms(5) g obtain k2 where "k2 = upd_tcb p (\<lambda>c. c\<lparr>noChilds := noChilds c - 1\<rparr>) (unblock_parent c k)"
    "k' = upd_tcb c (\<lambda>c. c\<lparr>Gid := -1\<rparr>) k2"
    by (auto simp: tk_try_detach_parent_def Let_def result_elims)
  then show "told p rv k'" "valid (pool k' p) = valid (pool k p)"
    using assms(1,3,4) g(1) by (simp_all add: unblock_parent_pool told_def waits_for_def procstate_defs)
qed

text \<open>Cutting the tie of a thread \<open>i\<close>; if \<open>i\<close> is the child, it is a zombie and is not forced.\<close>

lemma joining_detach:
  assumes j: "joining p c rv k" and d: "tk_try_detach_parent i force k = Inr (gone, k')"
    and f: "family_inv k" and i: "i \<in> valid_tids k"
    and c: "waits_for p c rv k \<Longrightarrow> i = c \<Longrightarrow> has_flag (state (pool k c)) ZOMBI \<and> \<not> force"
  shows "joining p c rv k' \<and> (i = c \<longrightarrow> told p rv k')"
proof (cases "told p rv k")
  case True
  have p: "in_pool p" "p \<in> valid_tids k" using j by (simp_all add: joining_def valid_tids_def)
  note same = told_detach [OF True p(1) d]
  have "\<not> waits_for p c rv k" using True by (simp add: waits_for_def told_def procstate_defs)
  with joining_same [OF j same] True same show ?thesis by (auto simp: told_def same_parent_def)
next
  case False
  with j have w: "waits_for p c rv k" "c \<noteq> p" "in_pool p" "valid (pool k p)" by (simp_all add: joining_def valid_tids_def)
  show ?thesis
  proof (cases "i = c")
    case True
    with c w(1) d have z: "has_flag (state (pool k c)) ZOMBI" "tk_try_detach_parent c False k = Inr (gone, k')" by auto
    from waits_detach_child [OF w(1,3,2) z] w show ?thesis by (simp add: joining_def valid_tids_def)
  next
    case ne: False
    have "\<not> parent_waits_for i k" if "Gid (pool k i) = p" using that w ne by (simp add: parent_waits_for_def waits_for_def)
    then have "same_parent (pool k p) (pool k' p)"
      using d by (auto simp: tk_try_detach_parent_def Let_def result_elims unblock_parent_pool same_parent_def split: if_splits)
    moreover have "same_child (pool k c) (pool k' c)"
    proof -
      have "\<not> has_flag (state (pool k c)) ZOMBI" if "Gid (pool k i) = c"
        using family_invD [OF f, of c] w i ne that by (auto simp: waits_for_def relative_ok_def children_def)
      moreover have "has_flag (x AND NOT TERM_T) ZOMBI = has_flag x ZOMBI" for x
        unfolding has_flag_def by (subst clear_flags_disjoint) (simp_all add: procstate_defs)
      ultimately show ?thesis
        using d ne by (auto simp: tk_try_detach_parent_def Let_def result_elims unblock_parent_pool same_child_def split: if_splits)
    qed
    ultimately show ?thesis using ne by (intro conjI joining_same [OF j]) auto
  qed
qed

lemma bury_pool:
  assumes "bury_thread i k = Inr k'"
  shows "\<exists>ix. pool k' u = (pool k u)\<lparr>Idx := ix, valid := valid (pool k u) \<and> u \<noteq> i\<rparr>"
proof -
  from assms obtain k1 where
    "unlink_row (Prio (pool k i)) (Idx (pool k i)) (k\<lparr>procs_in_use := procs_in_use k - 1\<rparr>) = Inr k1"
    "k' = upd_tcb i (\<lambda>c. c\<lparr>valid := False\<rparr>) (k1\<lparr>live_stacks := live_stacks k1 - {stack_begin (pool k1 i)}\<rparr>)"
    by (auto simp: bury_thread_def Let_def result_elims)
  with unlink_row_frame(2) [OF this(1), of u] show ?thesis by auto
qed

lemma joining_bury:
  assumes "joining p c rv k" "bury_thread i k = Inr k'" "i \<noteq> p" "i = c \<Longrightarrow> told p rv k"
  shows "joining p c rv k'"
proof (rule joining_same [OF assms(1)])
  show "same_parent (pool k p) (pool k' p)"
    using bury_pool [OF assms(2), of p] assms(3) by (auto simp: same_parent_def)
  assume "waits_for p c rv k"
  then have "i \<noteq> c" using assms(4) by (auto simp: waits_for_def told_def procstate_defs)
  then show "same_child (pool k c) (pool k' c)"
    using bury_pool [OF assms(2), of c] by (auto simp: same_child_def)
qed

lemma joining_reap:
  assumes j: "joining p c rv k" and ok: "kernel_ok X k" and i: "i \<in> valid_tids k" and r: "reap i k = Inr k'"
  shows "joining p c rv k'"
proof (cases "has_flag (state (pool k i)) ZOMBI \<and> i \<noteq> active_thread k")
  case False
  then show ?thesis using r j by (auto simp: reap_def)
next
  case True
  then have ip: "i \<noteq> p" using joining_awake(1) [OF j] by auto
  from reap_lay [OF ok i] True r have "lay_to_rest i k = Inr k'" by simp
  then obtain gone k1 where d: "tk_try_detach_parent i False k = Inr (gone, k1)"
    and b: "if gone then bury_thread i k1 = Inr k' else k' = k1"
    by (auto simp: lay_to_rest_def result_elims split: if_splits)
  from joining_detach [OF j d kernel_okD(4) [OF ok] i] True
  have "joining p c rv k1 \<and> (i = c \<longrightarrow> told p rv k1)" by auto
  then show ?thesis using b joining_bury [of p c rv k1 i k'] ip by (auto split: if_splits)
qed

lemma joining_scan:
  "joining p c rv k \<Longrightarrow> kernel_ok X k \<Longrightarrow> set js \<subseteq> {t. in_pool t} \<Longrightarrow> foldR (wakeup_one now) js k = Inr k' \<Longrightarrow>
     joining p c rv k'"
proof (induction js arbitrary: k)
  case (Cons i js)
  show ?case
  proof (cases "npreempt k > 0")
    case True
    then have "wakeup_one now i k = Inr k" by (simp add: wakeup_one_def)
    with Cons.prems(4) have "foldR (wakeup_one now) js k = Inr k'" by simp
    with Cons show ?thesis by simp
  next
    case False
    from Cons.prems(4) obtain k1 where k1: "wakeup_one now i k = Inr k1" "foldR (wakeup_one now) js k1 = Inr k'"
      by (auto simp: result_elims)
    from wakeup_one_ok [OF Cons.prems(2) _ False, of i now] Cons.prems(3) k1(1) have
      w: "kernel_ok X k1" by (auto simp: woken_rel_def)
    have "joining p c rv k1"
    proof (cases "valid (pool k i)")
      case True
      have "i \<in> valid_tids (time_out now i k)"
        using True Cons.prems(3) sched_same_valid_tids [OF time_out_ok(3) [OF Cons.prems(2), of now i]] by (simp add: valid_tids_def)
      moreover have "reap i (time_out now i k) = Inr k1" using k1(1) True False by (simp add: wakeup_one_def)
      ultimately show ?thesis
        by (rule joining_reap [OF joining_time_out [OF Cons.prems(1)] time_out_ok(1) [OF Cons.prems(2)]])
    qed (use k1(1) False Cons.prems(1) in \<open>simp add: wakeup_one_def\<close>)
    from Cons.IH [OF this w _ k1(2)] Cons.prems(3) show ?thesis by simp
  qed
qed simp

lemma joining_switch:
  assumes "joining p c rv k" "kernel_ok X k" "tk_yield_switch k = Inr k'"
  shows "joining p c rv k'"
proof -
  from assms(3) obtain k1 where k1: "tk_wakeup_timedout_threads k = Inr k1" "threadPool k' = threadPool k1"
    by (auto simp: tk_yield_switch_def take_preempted_def dispatch_def result_elims split: if_splits)
  have "joining p c rv k1"
    by (rule joining_scan [OF assms(1,2), of tids "clock_now k"]) (use k1(1) in \<open>auto simp: tk_wakeup_timedout_threads_def\<close>)
  from joining_pool [OF this k1(2)] show ?thesis .
qed

section \<open>The calls of the other threads\<close>

lemma joining_upd:
  assumes "joining p c rv k" "t \<noteq> p" "same_child (pool k c) (pool (upd_tcb t f k) c)"
  shows "joining p c rv (upd_tcb t f k)"
  by (rule joining_same [OF assms(1)]) (use assms(2,3) in \<open>simp_all add: same_refl\<close>)

lemma joining_zombified:
  assumes j: "joining p c rv k" and f: "family_inv k" and t: "t \<in> valid_tids k" "t \<noteq> 0" "t \<noteq> p"
    and c: "t = c \<Longrightarrow> waits_for p c rv k \<Longrightarrow> retval (pool k c) = rv"
  shows "joining p c rv (zombified t k)"
proof -
  note z = zombified_pool [OF f t(1,2)]
  have sp: "same_parent (pool k p) (pool (zombified t k) p)" using t(3) by (simp add: z same_parent_def)
  show ?thesis
  proof (cases "waits_for p c rv k")
    case False
    with joining_same [OF j sp] show ?thesis by blast
  next
    case True
    then have "c \<notin> children k t" using t(3) by (auto simp: waits_for_def children_def)
    then have "waits_for p c rv (zombified t k)"
      using True c t sp j sched_same_valid_tids [OF zombified_same [of k t]]
      by (auto simp: waits_for_def same_parent_def joining_def z)
    moreover have "p \<in> valid_tids (zombified t k)" "c \<noteq> p"
      using j sched_same_valid_tids [OF zombified_same [of k t]] by (simp_all add: joining_def)
    ultimately show ?thesis by (simp add: joining_def)
  qed
qed

lemma joining_delete:
  assumes j: "joining p c rv k" and ok: "kernel_ok X k" and t: "t \<notin> {0, p, c}"
    and d: "tk_delete_thread t k = Inr (rc, k')"
  shows "joining p c rv k'"
proof (cases "valid (pool k t)")
  case False
  with d j show ?thesis by (simp add: tk_delete_thread_def result_elims)
next
  case True
  with d have tv: "t \<in> valid_tids k" by (simp add: tk_delete_thread_def result_elims valid_tids_def)
  note f = kernel_okD(4) [OF ok]
  have inv: "kernel_inv X k" using ok by (simp add: kernel_ok_def)
  show ?thesis
  proof (cases "has_flag (state (pool k t)) ZOMBI")
    case z: True
    with d True have "bury_thread t k = Inr k'" by (auto simp: tk_delete_thread_def result_elims)
    with joining_bury [OF j] t show ?thesis by blast
  next
    case False
    with d True obtain gone k1 where k1: "tk_try_detach_parent t False (zombified t k) = Inr (gone, k1)"
      "if gone then bury_thread t k1 = Inr k' else k' = k1"
      by (auto simp: tk_delete_thread_def result_elims split: if_splits)
    have tn: "t \<noteq> 0" "t \<noteq> p" "t \<noteq> c" using t by simp_all
    have "family_inv (zombified t k)" using zombified_inv(1) [OF inv tv tn(1)] by (simp add: kernel_inv_def)
    from joining_detach [OF joining_zombified [OF j f tv tn(1,2)] k1(1) this] tn tv
      sched_same_valid_tids [OF zombified_same [of k t]]
    have "joining p c rv k1" by auto
    with joining_bury [OF this] k1(2) tn show ?thesis by (auto split: if_splits)
  qed
qed

lemma joining_die:
  assumes j: "joining p c rv k" and ok: "kernel_ok X k" and a: "active_thread k \<in> valid_tids k" "active_thread k \<notin> insert 0 X" "active_thread k \<noteq> p"
    and c: "active_thread k = c \<Longrightarrow> Gid (pool k c) = p \<Longrightarrow> v = rv"
  shows "joining p c rv (sleep_until ms (TkThread.die v k))"
proof -
  let ?t = "active_thread k"
  let ?k = "upd_tcb ?t (\<lambda>b. b\<lparr>retval := v\<rparr>) k"
  have ok': "kernel_ok X ?k" by (rule kernel_ok_upd_tcb [OF ok]) simp_all
  have "joining p c rv ?k" 
  proof (cases "?t = c \<and> waits_for p c rv k")
    case True
    with j a(1,3) c show ?thesis by (auto simp: joining_def waits_for_def valid_tids_def)
  next
    case False
    show ?thesis by (rule joining_same [OF j]) (use False a(3) in \<open>auto simp: same_refl\<close>)
  qed
  moreover have "?t \<in> valid_tids ?k" using a(1) by (auto simp: valid_tids_def)
  ultimately have d: "joining p c rv (TkThread.die v k)"
    unfolding die_zombified
    by (rule joining_zombified [OF _ kernel_okD(4) [OF ok']]) (use a(2,3) c in \<open>auto simp: waits_for_def\<close>)
  have "active_thread (TkThread.die v k) = ?t"
    using die_ok(2) [OF ok a(1,2)] by (simp add: ctl_same_def)
  then show ?thesis
    unfolding sleep_until_def using joining_upd [OF d, of ?t] a(3)
    by (simp add: same_child_def has_flag_or)
qed

lemma joining_spawn:
  assumes j: "joining p c rv k" and a: "active_thread k \<noteq> p"
    and s: "tk_spawn stk name prio inpar sz k = Inr (t, k1)"
  shows "joining p c rv (k1\<lparr>active_thread := t\<rparr>)"
proof -
  obtain slot a where t: "\<not> valid (pool k t)"
    and k1: "threadPool k1 = threadPool (upd_tcb (active_thread k) (\<lambda>c. c\<lparr>noChilds := noChilds c + 1\<rparr>)
      (upd_tcb t (\<lambda>c. new_tcb t (active_thread k) prio slot inpar a sz (c\<lparr>tname := name\<rparr>)) k))"
    using s by (auto simp: tk_spawn_def Let_def result_elims upd_tcb_def dest: next_free_sound split: if_splits option.splits)
  have "t \<noteq> p" using t j by (auto simp: joining_def valid_tids_def)
  moreover have "t \<noteq> c" if "waits_for p c rv k" using t that by (auto simp: waits_for_def valid_tids_def)
  ultimately show ?thesis
    by (intro joining_same [OF j]) (use a in \<open>auto simp: k1 same_parent_def same_child_def\<close>)
qed

text \<open>
  What another thread may do while \<open>p\<close> waits: any call of the kernel, except that it deletes
  neither \<open>p\<close> nor the child; if the child of \<open>p\<close> returns, it does so with \<open>rv\<close>.
\<close>

definition other_call :: "thid_t \<Rightarrow> thid_t \<Rightarrow> int \<Rightarrow> 'a sys \<Rightarrow> 'a sys \<Rightarrow> bool" where
  "other_call p c rv s s' \<longleftrightarrow> (\<exists>call. kcall call s s' \<and> active_thread (snd s) \<noteq> p \<and> call \<noteq> Delete p \<and> call \<noteq> Delete c \<and>
     (\<forall>v. call = Exit v \<and> active_thread (snd s) = c \<and> Gid (pool (snd s) c) = p \<longrightarrow> v = rv))"

lemma change_prio_path:
  assumes ch: "tk_change_prio t (int q) k = Inr (y, k')" and n: "Prio (pool k t) \<noteq> q"
  shows "\<exists>k1. unlink_row (Prio (pool k t)) (Idx (pool k t)) k = Inr k1 \<and>
    k' = upd_tcb t (\<lambda>c. c\<lparr>Prio := q, Idx := procs k1 q\<rparr>)
      (upd_stat q (\<lambda>s. s\<lparr>procs_at_prio := procs_at_prio s + 1\<rparr>) (set_slot q (procs k1 q) t k1))"
proof -
  have e: "change_prio_error t q k = 0"
    using ch unfolding tk_change_prio_def Let_def by (auto simp only: result_elims nat_int split: if_splits)
  from ch have "\<exists>k1. unlink_row (Prio (pool k t)) (Idx (pool k t)) k = Inr k1 \<and>
      in_bounds (in_sched q (procs k1 q)) (Inr (wants_yield t q k, upd_tcb t (\<lambda>c. c\<lparr>Prio := q, Idx := procs k1 q\<rparr>)
        (upd_stat q (\<lambda>s. s\<lparr>procs_at_prio := procs_at_prio s + 1\<rparr>) (set_slot q (procs k1 q) t k1)))) = Inr (y, k')"
    unfolding tk_change_prio_def Let_def nat_int
    by (simp only: result_elims e n if_False if_True simp_thms)
  then show ?thesis by (simp only: result_elims prod.inject sum.inject) blast
qed

lemma joining_change_prio:
  assumes j: "joining p c rv k" and ch: "tk_change_prio t (int q) k = Inr (y, k')"
  shows "joining p c rv k'" "active_thread k' = active_thread k"
proof -
  have "(\<exists>pr ix. pool k' u = (pool k u)\<lparr>Prio := pr, Idx := ix\<rparr>) \<and> active_thread k' = active_thread k" for u
  proof (cases "Prio (pool k t) = q")
    case True
    then have "k' = k" using ch by (auto simp: tk_change_prio_def Let_def result_elims split: if_splits)
    moreover have "b = b\<lparr>Prio := Prio b, Idx := Idx b\<rparr>" for b :: tcb_t by simp
    ultimately show ?thesis by blast
  next
    case False
    from change_prio_path [OF ch this] obtain k1 where k1: "unlink_row (Prio (pool k t)) (Idx (pool k t)) k = Inr k1"
      and f: "k' = linked q t (\<lambda>b. b\<lparr>Prio := q, Idx := procs k1 q\<rparr>) k1"
      by (auto simp: linked_def)
    obtain ix where ix: "pool k1 u = (pool k u)\<lparr>Idx := ix\<rparr>" using unlink_row_frame(2) [OF k1] by blast
    have "active_thread k1 = active_thread k" using unlink_row_frame(1) [OF k1] by auto
    then have "active_thread k' = active_thread k" by (simp add: f)
    moreover have "\<exists>pr ix. pool k' u = (pool k u)\<lparr>Prio := pr, Idx := ix\<rparr>"
    proof (cases "u = t")
      case True
      with ix show ?thesis by (auto simp: f)
    next
      case False
      have "(pool k u)\<lparr>Idx := ix\<rparr> = (pool k u)\<lparr>Prio := Prio (pool k u), Idx := ix\<rparr>" by simp
      with False ix show ?thesis by (metis f linked_sel(1))
    qed
    ultimately show ?thesis by blast
  qed
  then have s: "\<exists>pr ix. pool k' u = (pool k u)\<lparr>Prio := pr, Idx := ix\<rparr>" and a: "active_thread k' = active_thread k" for u
    by blast+
  show "active_thread k' = active_thread k" by (rule a)
  show "joining p c rv k'"
    by (rule joining_same [OF j]) (use s [of p] s [of c] in \<open>auto simp: same_parent_def same_child_def\<close>)
qed

lemma switch_joining:
  assumes "joining p c rv k" "sys_pre X k" "tk_yield_switch k = Inr k'"
  shows "joining p c rv k' \<and> (active_thread k' = p \<longrightarrow> ready k' p)"
  using joining_switch [OF assms(1) _ assms(3)] then_yield(2) [OF assms(2,3)] assms(2) by (auto simp: sys_pre_def)

lemma kcall_joining:
  assumes "kcall call s s'" "sys_ok s" "joining p c rv (snd s)" "active_thread (snd s) \<noteq> p" "call \<noteq> Delete p" "call \<noteq> Delete c"
    and "\<And>v. call = Exit v \<Longrightarrow> active_thread (snd s) = c \<Longrightarrow> Gid (pool (snd s) c) = p \<Longrightarrow> v = rv"
  shows "joining p c rv (snd s') \<and> (active_thread (snd s') = p \<longrightarrow> ready (snd s') p)"
  using assms
proof (induction rule: kcall.induct)
  case (yield k k' X)
  then show ?case using switch_joining sys_okD(1) by simp blast
next
  case (tick t X k)
  have "joining p c rv (k\<lparr>clock_now := t\<rparr>)" by (rule joining_pool [of p c rv k]) (use tick in simp_all)
  with tick show ?case by simp
next
  case (preempt k t X)
  have "joining p c rv (tk_preemplist t k)"
    by (rule joining_pool [of p c rv k]) (use preempt in \<open>simp_all add: tk_preemplist_def\<close>)
  with preempt show ?case by (simp add: tk_preemplist_def)
next
  case (sleep k ms k' X)
  then have "joining p c rv (sleep_until ms k)"
    unfolding sleep_until_def by (intro joining_upd) (simp_all add: same_child_def has_flag_or)
  with sleep show ?case using switch_joining step_sleep sys_okD(1) by simp blast
next
  case (join_living k pid k' X)
  then have "joining p c rv (TkThread.join_wait pid k)"
    unfolding join_wait_def by (intro joining_upd) (simp_all add: same_child_def has_flag_or)
  with join_living show ?case using switch_joining step_join_wait by simp blast
next
  case (join_zombie k pid oth rc v k' X)
  show ?case
  proof (cases "Gid (pool k pid) = active_thread k")
    case False
    with join_zombie(5,7,8) show ?thesis by (simp add: tk_join_def result_elims)
  next
    case True
    then obtain b where d: "tk_try_detach_parent pid True k = Inr (b, k')"
      using join_zombie(2,4,5) by (auto simp: tk_join_def result_elims valid_tids_def)
    have "waits_for p c rv k \<Longrightarrow> pid \<noteq> c" using True join_zombie(8) by (auto simp: waits_for_def)
    with joining_detach [OF _ d kernel_okD(4) [OF sys_okD(2) [OF join_zombie(6)]] join_zombie(2)] join_zombie(7)
    have "joining p c rv k'" by auto
    with join_zombie(8) ctl_same_sys [OF ctl_same_try_detach_parent [OF d]] show ?thesis by simp
  qed
next
  case (exit k v k' X)
  have a: "active_thread k \<in> valid_tids k" "active_thread k \<notin> insert 0 X" "active_thread k \<noteq> p"
    using sys_okD(3,4) [OF exit(4)] exit(1,6) by simp_all
  have j: "joining p c rv (sleep_until 1000 (TkThread.die v k))"
    by (rule joining_die [OF _ sys_okD(2) [OF exit(4)] a]) (use exit(5,9) in auto)
  have "active_thread (TkThread.die v k) \<noteq> idle_Thid (TkThread.die v k)"
    using ctl_same_sys [OF die_ok(2) [OF sys_okD(2,3) [OF exit(4)] a(2), of v]] exit(2) by simp
  from switch_joining [OF j step_sleep [OF step_die [OF exit(4,1,2)] this] exit(3)] show ?case by simp
next
  case (delete t X k rc k')
  have t: "t \<notin> {0, p, c}" using delete by auto
  have "joining p c rv k'" using joining_delete [OF _ sys_okD(2) [OF delete(3)] t delete(2)] delete(4) by simp
  moreover have "active_thread k' = active_thread k"
  proof (cases "valid (pool k t)")
    case False
    with delete(2) show ?thesis by (simp add: tk_delete_thread_def result_elims)
  next
    case True
    with delete(2) have tv: "t \<in> valid_tids k" by (simp add: tk_delete_thread_def result_elims valid_tids_def)
    have tn: "t \<notin> insert 0 X" using delete(1) by auto
    have "buried_at_once t k \<Longrightarrow> \<not> full_row (Prio (pool k t)) k"
      using delete_full [OF sys_okD(2) [OF delete(3)] tv tn] delete(2) by auto
    from delete_ok [OF sys_okD(2) [OF delete(3)] tv tn this] delete(2) have "ctl_same k k'" by (auto split: if_splits)
    then show ?thesis by (rule ctl_same_sys)
  qed
  ultimately show ?case using delete(5) by simp
next
  case (detach t k rc k' X)
  then have "in_pool t" by (simp add: tk_detach_def result_elims)
  with detach show ?case by (simp add: detach_nothing)
next
  case (change_prio t X q k y k')
  then show ?case using joining_change_prio [of p c rv k t q y k'] by simp
next
  case (create_begin k a name prio inpar sz t k1 k')
  have par: "may_parent k"
    using sys_okD(3,5) [OF create_begin(4)] sys_okD(6) [OF create_begin(4,1)] by (simp add: may_parent_def)
  from spawn_ok [OF sys_okD(2) [OF create_begin(4)] par spawn_may [OF create_begin(2)], of a inpar sz] create_begin(2)
  have sp: "spawned_from k prio t k1" by auto
  have "joining p c rv (k1\<lparr>active_thread := t\<rparr>)"
    by (rule joining_spawn [OF _ _ create_begin(2)]) (use create_begin(5,6) in simp_all)
  from switch_joining [OF this spawn_pre [OF create_begin(4,1) sp] create_begin(3)] show ?case by simp
next
  case (create_end k t k')
  obtain n where k': "threadPool k' = threadPool (upd_tcb (proc_idx k) (\<lambda>b. b\<lparr>Idx := n\<rparr>) k)" "active_thread k' = active_thread k"
    using create_end(1) by (auto simp: enter_row_def Let_def result_elims)
  have "joining p c rv k'"
    by (rule joining_same [of p c rv k]) (use create_end(3) k'(1) in \<open>auto simp: same_parent_def same_child_def\<close>)
  with create_end(4) k'(2) show ?case by simp
qed

text \<open>Any number of such calls.\<close>

lemma other_calls_joining:
  assumes "(other_call p c rv)\<^sup>*\<^sup>* s s'" "sys_ok s" "joining p c rv (snd s)"
    "active_thread (snd s) = p \<Longrightarrow> ready (snd s) p"
  shows "sys_ok s' \<and> joining p c rv (snd s') \<and> (active_thread (snd s') = p \<longrightarrow> ready (snd s') p)"
  using assms
proof (induction rule: rtranclp_induct)
  case (step s1 s2)
  then obtain call where "kcall call s1 s2" "active_thread (snd s1) \<noteq> p" "call \<noteq> Delete p" "call \<noteq> Delete c"
    "\<forall>v. call = Exit v \<and> active_thread (snd s1) = c \<and> Gid (pool (snd s1) c) = p \<longrightarrow> v = rv"
    by (auto simp: other_call_def)
  with step kcall_joining [of call s1 s2 p c rv] kcall_sys_ok [of call s1 s2] show ?case by blast
qed simp

section \<open>The child has returned\<close>

text \<open>The scan reaches the child, which is a zombie that does not run: its parent is ready then.\<close>

lemma reap_child_tells:
  assumes j: "joining p c rv k" and ok: "kernel_ok X k" and c: "c \<in> valid_tids k" "has_flag (state (pool k c)) ZOMBI" "c \<noteq> active_thread k"
    and r: "reap c k = Inr k'"
  shows "ready k' p"
proof -
  from reap_lay [OF ok c] r have "lay_to_rest c k = Inr k'" by simp
  then obtain gone k1 where d: "tk_try_detach_parent c False k = Inr (gone, k1)"
    and b: "if gone then bury_thread c k1 = Inr k' else k' = k1"
    by (auto simp: lay_to_rest_def result_elims split: if_splits)
  from joining_detach [OF j d kernel_okD(4) [OF ok] c(1)] c(2) have "told p rv k1" by auto
  then have "ready k1 p" by (simp add: told_def ready_def)
  then show ?thesis using b bury_pool [of c k1 k' p] by (auto simp: ready_def split: if_splits)
qed

lemma scan_keeps_ready:
  assumes "kernel_ok X k" "set js \<subseteq> {t. in_pool t}" "\<not> npreempt k > 0" "foldR (wakeup_one now) js k = Inr k'"
  shows "woken_rel X now (set js) k k'"
  using wakeup_scan_ok [OF assms(1-3), of now] assms(4) by auto

lemma scan_tells_parent:
  assumes j: "joining p c rv k" and ok: "kernel_ok X k" and z: "has_flag (state (pool k c)) ZOMBI" "c \<noteq> active_thread k"
    and n: "npreempt k = 0" and s: "tk_wakeup_timedout_threads k = Inr k'"
  shows "ready k' p"
proof (cases "told p rv k")
  case True
  have "woken_rel X (clock_now k) (set tids) k k'"
    by (rule scan_keeps_ready [OF ok]) (use n s in \<open>simp_all add: tk_wakeup_timedout_threads_def\<close>)
  with True show ?thesis by (simp add: woken_rel_def told_def ready_def)
next
  case False
  with j have c: "in_pool c" by (simp add: joining_def waits_for_def valid_tids_def)
  then obtain as bs where t: "tids = as @ c # bs" "c \<notin> set as" by (metis mem_Collect_eq set_tids split_list_first)
  have sub: "set as \<subseteq> {t. in_pool t}" "set bs \<subseteq> {t. in_pool t}" using set_tids unfolding t(1) by auto
  let ?now = "clock_now k"
  obtain k1 k2 where f: "foldR (wakeup_one ?now) as k = Inr k1" "wakeup_one ?now c k1 = Inr k2" "foldR (wakeup_one ?now) bs k2 = Inr k'"
    using s unfolding tk_wakeup_timedout_threads_def t(1) foldR_append by (auto simp: result_elims)
  have w1: "woken_rel X ?now (set as) k k1" by (rule scan_keeps_ready [OF ok sub(1) _ f(1)]) (simp add: n)
  have n1: "\<not> npreempt k1 > 0" "c \<noteq> active_thread k1" "kernel_ok X k1" "has_flag (state (pool k1 c)) ZOMBI"
    using w1 n z by (simp_all add: woken_rel_def ctl_same_def)
  have j1: "joining p c rv k1" by (rule joining_scan [OF j ok sub(1) f(1)])
  have "woken_rel X ?now {c} k1 k2" using wakeup_one_ok [OF n1(3) c n1(1), of ?now] f(2) by auto
  then have n2: "\<not> npreempt k2 > 0" "kernel_ok X k2" "ready k1 p \<Longrightarrow> ready k2 p"
    using n1(1) by (simp_all add: woken_rel_def ctl_same_def)
  have "ready k2 p"
  proof (cases "told p rv k1")
    case True
    then show ?thesis using n2(3) by (simp add: told_def ready_def)
  next
    case False
    with j1 have v: "c \<in> valid_tids k1" by (simp add: joining_def waits_for_def)
    note o = time_out_ok [OF n1(3), of ?now c]
    have "reap c (time_out ?now c k1) = Inr k2" using f(2) n1(1) v by (simp add: wakeup_one_def valid_tids_def)
    then show ?thesis
      by (rule reap_child_tells [OF joining_time_out [OF j1] o(1), rotated -1])
        (use v n1(2,4) o(2) sched_same_valid_tids [OF o(3)] in \<open>simp_all add: time_out_pool ctl_same_def\<close>)
  qed
  moreover have "woken_rel X ?now (set bs) k2 k'" by (rule scan_keeps_ready [OF n2(2) sub(2) n2(1) f(3)])
  ultimately show ?thesis by (simp add: woken_rel_def)
qed

lemma yield_tells_parent:
  assumes "joining p c rv k" "sys_ok (X, k)" "has_flag (state (pool k c)) ZOMBI" "c \<noteq> active_thread k" "npreempt k = 0" "\<not> stuck_zombie k"
  shows "\<exists>k'. tk_yield_switch k = Inr k' \<and> ready k' p"
proof -
  from yield_step [OF sys_okD(1) [OF assms(2)]] assms(6) obtain k' where k': "tk_yield_switch k = Inr k'" by auto
  then obtain k1 where k1: "tk_wakeup_timedout_threads k = Inr k1" "threadPool k' = threadPool k1"
    by (auto simp: tk_yield_switch_def take_preempted_def dispatch_def result_elims split: if_splits)
  from scan_tells_parent [OF assms(1) sys_okD(2) [OF assms(2)] assms(3-5) k1(1)] k' k1(2) show ?thesis
    by (auto simp: ready_def)
qed

end
