(* ===== verification/TkRing.thy ===== *)
theory TkRing
  imports TkSwitch
begin

text \<open>
  The data of inter-thread communication, \<^verbatim>\<open>include/tk_itc.h\<close> and
  \<^verbatim>\<open>src/tk_itcshared.c\<close>: the ITC object with its ring of blocked threads, the helpers
  on it, and the interface \<open>wait_queue\<close> that the ring provides to the semaphores.
\<close>

section \<open>Data\<close>

datatype itc_rc = RC_OK | ERR_TIMEOUT | ERR_OBJDEL | ERR_OBJID | ERR_OBJTYPE | ERR_OBJFULL | ERR_BUFSIZ
  | ERR_NOQCB | ERR_FULL | ERR_NOSCB | ERR_NOSEM | ERR_TATSDEL | ERR_NOMEM | ERR_BLOCKLIMIT

definition FIFO :: "32 word" where "FIFO = 0x00"
definition WAIT :: "32 word" where "WAIT = 0x00"
definition PRIOR :: "32 word" where "PRIOR = 0x02"
definition NOWAIT :: "32 word" where "NOWAIT = 0x08"

lemmas ipc_flag_defs = FIFO_def WAIT_def PRIOR_def NOWAIT_def

datatype itc_set_t = SEM | S_QUEUE | V_QUEUE

text \<open>Four words of a simple message, and a message of variable length.\<close>

type_synonym q_t = "32 word list"

record qv_t =
  mb :: "8 word list buffer"
  mlen :: nat

text \<open>
  \<open>blocked_procs\<close> is a ring of addresses of control blocks, named by their index. The two
  arms of the union \<open>m\<close> are separate fields, of which \<open>b_type\<close> tells the one in use.
\<close>

record itc_t =
  itc_name :: string
  token :: int
  flags :: "32 word"
  sizeof_q :: nat
  maxSizeof_m :: nat
  b_type :: itc_set_t
  blocked_procs :: "nat \<Rightarrow> thid_t option"
  in_idx :: nat
  out_idx :: nat
  min_idx :: nat
  mout_idx :: nat
  m_q :: "nat \<Rightarrow> q_t"
  m_qv :: "nat \<Rightarrow> qv_t"

record itc_kern = kern +
  itc_array :: "nat \<Rightarrow> itc_t option"
  itc_idx :: nat

text \<open>\<open>at_itc qid k f\<close>: \<open>f\<close> of the object \<^verbatim>\<open>*__itc_array[qid]\<close>.\<close>

definition at_itc :: "nat \<Rightarrow> 'a itc_kern_scheme \<Rightarrow> (itc_t \<Rightarrow> 'b result) \<Rightarrow> 'b result" where
  "at_itc qid k f = in_bounds (qid < TK_MAX_NUM_Q)
     (case itc_array k qid of None \<Rightarrow> Inl Null_deref | Some q \<Rightarrow> f q)"

definition put_itc :: "nat \<Rightarrow> itc_t \<Rightarrow> 'a itc_kern_scheme \<Rightarrow> 'a itc_kern_scheme" where
  "put_itc qid q k = k\<lparr>itc_array := (itc_array k)(qid := Some q)\<rparr>"

lemma at_itc_Some [simp]: "qid < TK_MAX_NUM_Q \<Longrightarrow> itc_array k qid = Some q \<Longrightarrow> at_itc qid k f = f q"
  by (simp add: at_itc_def)

lemma at_itc_eq_Inr [result_elims]:
  "at_itc qid k f = Inr y \<longleftrightarrow> qid < TK_MAX_NUM_Q \<and> (\<exists>q. itc_array k qid = Some q \<and> f q = Inr y)"
  by (auto simp: at_itc_def result_elims split: option.splits)

lemma put_itc_sel [simp]:
  "threadPool (put_itc qid q k) = threadPool k" "active_thread (put_itc qid q k) = active_thread k"
  "itc_idx (put_itc qid q k) = itc_idx k" "clock_now (put_itc qid q k) = clock_now k"
  "itc_array (put_itc qid q k) j = (if j = qid then Some q else itc_array k j)"
  by (simp_all add: put_itc_def)

lemma upd_tcb_itc [simp]:
  "itc_array (upd_tcb t f k) = itc_array k" "itc_idx (upd_tcb t f k) = itc_idx k"
  by (simp_all add: upd_tcb_def)

section \<open>Helpers on the ring\<close>

text \<open>\<^verbatim>\<open>i--; if (i > MAX) i = MAX - 1\<close>, unsigned.\<close>

definition ring_dec :: "nat \<Rightarrow> nat" where
  "ring_dec i = (if i = 0 then TK_MAX_BLOCKED_ON_Q - 1
     else if i - 1 > TK_MAX_BLOCKED_ON_Q then TK_MAX_BLOCKED_ON_Q - 1 else i - 1)"

definition ring_inc :: "nat \<Rightarrow> nat" where
  "ring_inc i = (i + 1) mod TK_MAX_BLOCKED_ON_Q"

text \<open>
  The loop \<^verbatim>\<open>for (i = out; i != in; i++, i %= MAX)\<close> as the list of its positions;
  it does not end when \<open>in\<close> is no position of the ring.
\<close>

fun ring_walk :: "nat \<Rightarrow> nat \<Rightarrow> nat \<Rightarrow> nat list result" where
  "ring_walk n i e = (if i = e then Inr [] else
     case n of 0 \<Rightarrow> Inl Hangs | Suc n' \<Rightarrow> andThen (ring_walk n' (ring_inc i) e) (\<lambda>is. Inr (i # is)))"

declare ring_walk.simps [simp del]

definition itc_uintDiff :: "nat \<Rightarrow> nat \<Rightarrow> nat \<Rightarrow> nat" where
  "itc_uintDiff x1 x2 mx = (if x1 \<le> x2 then x2 - x1 else mx - x1 + x2)"

text \<open>The copying loop of \<^verbatim>\<open>_itc_removeBlocked\<close>.\<close>

fun close_gap :: "nat \<Rightarrow> nat \<Rightarrow> nat \<Rightarrow> itc_t \<Rightarrow> itc_t result" where
  "close_gap n idx cp q = (if idx = in_idx q then Inr q else
     case n of 0 \<Rightarrow> Inl Hangs
     | Suc n' \<Rightarrow> in_bounds (idx < TK_MAX_BLOCKED_ON_Q)
         (close_gap n' (ring_inc idx) (ring_inc cp)
           (q\<lparr>blocked_procs := (blocked_procs q)(idx := blocked_procs q cp)\<rparr>)))"

declare close_gap.simps [simp del]

definition itc_removeBlocked :: "itc_t \<Rightarrow> nat \<Rightarrow> itc_t result" where
  "itc_removeBlocked q idx =
     (if out_idx q = idx then
        in_bounds (idx < TK_MAX_BLOCKED_ON_Q)
          (Inr (q\<lparr>blocked_procs := (blocked_procs q)(idx := None), out_idx := ring_inc (out_idx q),
             token := token q + 1\<rparr>))
      else if ring_dec (in_idx q) = idx then
        in_bounds (idx < TK_MAX_BLOCKED_ON_Q)
          (Inr (q\<lparr>blocked_procs := (blocked_procs q)(idx := None), in_idx := ring_dec (in_idx q),
             token := token q + 1\<rparr>))
      else andThen (close_gap TK_MAX_BLOCKED_ON_Q idx (ring_inc idx) q) (\<lambda>q1.
        Inr (q1\<lparr>in_idx := ring_dec (in_idx q1), token := token q1 + 1\<rparr>)))"

text \<open>
  \<^verbatim>\<open>_itc_proveConcistency\<close>: as many threads of the ring are blocked on it, or ready
  to run after a time-out, as the token says.
\<close>

definition counts_as_blocked :: "'a kern_scheme \<Rightarrow> thid_t \<Rightarrow> bool" where
  "counts_as_blocked k t \<longleftrightarrow> has_flag (state (pool k t)) QUEUE \<or> state (pool k t) = READY"

fun count_blocked :: "'a kern_scheme \<Rightarrow> itc_t \<Rightarrow> nat list \<Rightarrow> nat result" where
  "count_blocked k q [] = Inr 0"
| "count_blocked k q (i # is) = (case blocked_procs q i of None \<Rightarrow> Inl Null_deref
     | Some t \<Rightarrow> andThen (count_blocked k q is) (\<lambda>n. Inr (if counts_as_blocked k t then n + 1 else n)))"

definition itc_proveConcistency :: "nat \<Rightarrow> 'a itc_kern_scheme \<Rightarrow> bool result" where
  "itc_proveConcistency qid k = at_itc qid k (\<lambda>q.
     if token q > 0 then Inr True
     else andThen (ring_walk TK_MAX_BLOCKED_ON_Q (out_idx q) (in_idx q)) (\<lambda>is.
       andThen (count_blocked k q is) (\<lambda>n. Inr (int n = \<bar>token q\<bar>))))"

text \<open>\<^verbatim>\<open>_itc_findNextEmpySlot\<close>: the search from the last slot used, around the table.\<close>

fun find_slot :: "nat \<Rightarrow> 'a itc_kern_scheme \<Rightarrow> nat \<Rightarrow> nat \<Rightarrow> nat \<times> nat" where
  "find_slot 0 k i c = (i, c)"
| "find_slot (Suc n) k i c =
     (if itc_array k i \<noteq> None \<and> c < TK_MAX_NUM_Q then find_slot n k ((i + 1) mod TK_MAX_NUM_Q) (c + 1)
      else (i, c))"

definition itc_findNextEmpySlot :: "'a itc_kern_scheme \<Rightarrow> itc_rc \<times> 'a itc_kern_scheme" where
  "itc_findNextEmpySlot k =
     (let (i, c) = find_slot TK_MAX_NUM_Q k (itc_idx k) 0
      in (if c = TK_MAX_NUM_Q then ERR_OBJFULL else RC_OK, k\<lparr>itc_idx := i\<rparr>))"

definition tk_itc :: "'a itc_kern_scheme \<Rightarrow> itc_rc \<times> 'a itc_kern_scheme" where
  "tk_itc k = (RC_OK, k\<lparr>itc_idx := 0,
     itc_array := (\<lambda>i. if i < TK_MAX_NUM_Q then None else itc_array k i)\<rparr>)"

section \<open>The ring as a list\<close>

abbreviation MAXB :: nat where "MAXB \<equiv> TK_MAX_BLOCKED_ON_Q"

definition ring_len :: "itc_t \<Rightarrow> nat" where
  "ring_len q = (in_idx q + MAXB - out_idx q) mod MAXB"

definition ring_pos :: "itc_t \<Rightarrow> nat \<Rightarrow> nat" where
  "ring_pos q j = (out_idx q + j) mod MAXB"

definition waiting :: "itc_t \<Rightarrow> thid_t option list" where
  "waiting q = map (\<lambda>j. blocked_procs q (ring_pos q j)) [0..<ring_len q]"

definition ring_ok :: "itc_t \<Rightarrow> bool" where
  "ring_ok q \<longleftrightarrow> in_idx q < MAXB \<and> out_idx q < MAXB"

lemma length_waiting [simp]: "length (waiting q) = ring_len q"
  by (simp add: waiting_def)

lemma nth_waiting: "j < ring_len q \<Longrightarrow> waiting q ! j = blocked_procs q (ring_pos q j)"
  by (simp add: waiting_def)

lemma ring_len_less: "ring_len q < MAXB"
  by (simp add: ring_len_def)

lemma ring_inc_less [simp]: "ring_inc i < MAXB"
  by (simp add: ring_inc_def)

lemma ring_dec_less [simp]: "i < MAXB \<Longrightarrow> ring_dec i < MAXB"
  by (auto simp: ring_dec_def)

lemma ring_pos_less [simp]: "ring_pos q j < MAXB"
  by (simp add: ring_pos_def)

lemma ring_inc_eq: "i < MAXB \<Longrightarrow> ring_inc i = (if i + 1 = MAXB then 0 else i + 1)"
  by (auto simp: ring_inc_def)

lemma ring_dec_eq: "i < MAXB \<Longrightarrow> ring_dec i = (if i = 0 then MAXB - 1 else i - 1)"
  by (auto simp: ring_dec_def)

lemma mod_MAXB_eq: "i < 2 * MAXB \<Longrightarrow> i mod MAXB = (if i < MAXB then i else i - MAXB)"
  by (simp add: mod_if le_mod_geq)

lemma ring_pos_eq:
  "ring_ok q \<Longrightarrow> j \<le> MAXB \<Longrightarrow> ring_pos q j = (if out_idx q + j < MAXB then out_idx q + j else out_idx q + j - MAXB)"
  by (simp add: ring_pos_def ring_ok_def mod_MAXB_eq)

lemma ring_len_eq:
  "ring_ok q \<Longrightarrow> ring_len q = (if out_idx q \<le> in_idx q then in_idx q - out_idx q else in_idx q + MAXB - out_idx q)"
  by (auto simp: ring_len_def ring_ok_def mod_MAXB_eq)

lemma ring_pos_inj:
  "ring_ok q \<Longrightarrow> i < MAXB \<Longrightarrow> j < MAXB \<Longrightarrow> ring_pos q i = ring_pos q j \<longleftrightarrow> i = j"
  by (auto simp: ring_pos_eq ring_ok_def split: if_splits)

lemma ring_pos_len: "ring_ok q \<Longrightarrow> ring_pos q (ring_len q) = in_idx q"
  by (auto simp: ring_pos_eq ring_len_eq ring_ok_def split: if_splits)

lemma ring_inc_pos: "ring_inc (ring_pos q j) = ring_pos q (Suc j)"
  by (simp add: ring_inc_def ring_pos_def mod_Suc_eq)

lemma ring_pos_0 [simp]: "ring_ok q \<Longrightarrow> ring_pos q 0 = out_idx q"
  by (simp add: ring_pos_def ring_ok_def)

lemma ring_dec_pos:
  assumes "ring_ok q" "0 < ring_len q"
  shows "ring_dec (in_idx q) = ring_pos q (ring_len q - 1)"
  using assms by (auto simp: ring_dec_eq ring_pos_eq ring_len_eq ring_ok_def split: if_splits)

lemma ring_upd_procs [simp]:
  "ring_len (q\<lparr>blocked_procs := bp\<rparr>) = ring_len q" "ring_pos (q\<lparr>blocked_procs := bp\<rparr>) = ring_pos q"
  "ring_ok (q\<lparr>blocked_procs := bp\<rparr>) = ring_ok q"
  by (simp_all add: ring_len_def ring_pos_def ring_ok_def fun_eq_iff)

lemma ring_upd_token [simp]:
  "ring_len (q\<lparr>token := t\<rparr>) = ring_len q" "ring_pos (q\<lparr>token := t\<rparr>) = ring_pos q"
  "ring_ok (q\<lparr>token := t\<rparr>) = ring_ok q" "waiting (q\<lparr>token := t\<rparr>) = waiting q"
  by (simp_all add: ring_len_def ring_pos_def ring_ok_def waiting_def fun_eq_iff)

lemma ring_pos_upd_in [simp]: "ring_pos (q\<lparr>in_idx := e\<rparr>) = ring_pos q"
  by (simp add: ring_pos_def fun_eq_iff)

text \<open>The copying loop, from the \<open>i\<close>-th waiter on.\<close>

lemma close_gap_shift:
  assumes "ring_ok q" "i \<le> ring_len q" "ring_len q - i \<le> n"
  shows "\<exists>bp. close_gap n (ring_pos q i) (ring_pos q (Suc i)) q = Inr (q\<lparr>blocked_procs := bp\<rparr>) \<and>
    (\<forall>j < ring_len q. bp (ring_pos q j) =
       (if i \<le> j then blocked_procs q (ring_pos q (Suc j)) else blocked_procs q (ring_pos q j)))"
  using assms
proof (induction n arbitrary: i q)
  case 0
  then have "i = ring_len q" by simp
  with 0 have "ring_pos q i = in_idx q" by (simp add: ring_pos_len)
  moreover have "q = q\<lparr>blocked_procs := blocked_procs q\<rparr>" by simp
  ultimately have "close_gap 0 (ring_pos q i) (ring_pos q (Suc i)) q = Inr (q\<lparr>blocked_procs := blocked_procs q\<rparr>)"
    by (simp add: close_gap.simps)
  with 0 show ?case by (intro exI [of _ "blocked_procs q"]) simp
next
  case (Suc n)
  show ?case
  proof (cases "i = ring_len q")
    case True
    with Suc.prems have "ring_pos q i = in_idx q" by (simp add: ring_pos_len)
    then have "close_gap (Suc n) (ring_pos q i) (ring_pos q (Suc i)) q = Inr (q\<lparr>blocked_procs := blocked_procs q\<rparr>)"
      by (simp add: close_gap.simps)
    with True show ?thesis by (intro exI [of _ "blocked_procs q"]) simp
  next
    case False
    with Suc.prems have i: "i < ring_len q" by simp
    let ?q = "q\<lparr>blocked_procs := (blocked_procs q)(ring_pos q i := blocked_procs q (ring_pos q (Suc i)))\<rparr>"
    have ne: "ring_pos q i \<noteq> in_idx q"
      using ring_pos_inj [OF Suc.prems(1), of i "ring_len q"] i ring_len_less [of q] ring_pos_len [OF Suc.prems(1)]
      by simp
    have run: "close_gap (Suc n) (ring_pos q i) (ring_pos q (Suc i)) q =
        close_gap n (ring_pos ?q (Suc i)) (ring_pos ?q (Suc (Suc i))) ?q"
      using ne by (subst close_gap.simps) (simp add: ring_inc_pos)
    have ih: "ring_ok ?q" "Suc i \<le> ring_len ?q" "ring_len ?q - Suc i \<le> n"
      using Suc.prems i by simp_all
    from Suc.IH [OF ih, unfolded ring_upd_procs] obtain bp where
      bp0: "close_gap n (ring_pos q (Suc i)) (ring_pos q (Suc (Suc i))) ?q = Inr (?q\<lparr>blocked_procs := bp\<rparr>)"
      "\<forall>j < ring_len q. bp (ring_pos q j) =
        (if Suc i \<le> j then blocked_procs ?q (ring_pos q (Suc j)) else blocked_procs ?q (ring_pos q j))"
      by blast
    then have bp: "close_gap n (ring_pos ?q (Suc i)) (ring_pos ?q (Suc (Suc i))) ?q = Inr (?q\<lparr>blocked_procs := bp\<rparr>)"
      "\<And>j. j < ring_len q \<Longrightarrow> bp (ring_pos q j) =
        (if Suc i \<le> j then blocked_procs ?q (ring_pos q (Suc j)) else blocked_procs ?q (ring_pos q j))"
      unfolding ring_upd_procs by blast+
    have "bp (ring_pos q j) = (if i \<le> j then blocked_procs q (ring_pos q (Suc j)) else blocked_procs q (ring_pos q j))"
      if j: "j < ring_len q" for j
    proof -
      have "ring_pos q (Suc j) \<noteq> ring_pos q i" if "i < Suc j"
        using that ring_pos_inj [OF Suc.prems(1), of "Suc j" i] i j ring_len_less [of q] by simp
      moreover have "ring_pos q j \<noteq> ring_pos q i" if "j \<noteq> i"
        using that ring_pos_inj [OF Suc.prems(1), of j i] i j ring_len_less [of q] by simp
      ultimately show ?thesis
        using bp(2) [OF j] by (cases "j < i"; cases "j = i") simp_all
    qed
    with bp(1) run show ?thesis by (intro exI [of _ bp]) simp
  qed
qed

lemma waiting_eqI:
  "ring_len q = length ws \<Longrightarrow> (\<And>j. j < length ws \<Longrightarrow> blocked_procs q (ring_pos q j) = ws ! j) \<Longrightarrow> waiting q = ws"
  by (rule nth_equalityI) (simp_all add: nth_waiting)

text \<open>Two states of an object that differ in the ring and the token only.\<close>

definition ring_frame :: "itc_t \<Rightarrow> itc_t \<Rightarrow> bool" where
  "ring_frame q q' \<longleftrightarrow> itc_name q' = itc_name q \<and> flags q' = flags q \<and> sizeof_q q' = sizeof_q q \<and>
     maxSizeof_m q' = maxSizeof_m q \<and> b_type q' = b_type q \<and> min_idx q' = min_idx q \<and>
     mout_idx q' = mout_idx q \<and> m_q q' = m_q q \<and> m_qv q' = m_qv q"

text \<open>Taking the \<open>j\<close>-th waiter out of the ring, wherever it sits.\<close>

lemma removeBlocked_waiting:
  assumes ok: "ring_ok q" and j: "j < ring_len q"
  obtains q' where "itc_removeBlocked q (ring_pos q j) = Inr q'" "ring_ok q'"
    "waiting q' = drop_nth j (waiting q)" "token q' = token q + 1"
    "ring_frame q q'"
proof -
  note lt = ring_len_less [of q]
  show ?thesis
  proof (cases "j = 0")
    case True
    let ?q = "q\<lparr>blocked_procs := (blocked_procs q)(out_idx q := None), out_idx := ring_inc (out_idx q), token := token q + 1\<rparr>"
    have ok': "ring_ok ?q" using ok by (simp add: ring_ok_def)
    have len: "ring_len ?q = ring_len q - 1"
      using ok ok' j by (auto simp: ring_len_eq ring_ok_def ring_inc_eq split: if_splits)
    have pos: "ring_pos ?q i = ring_pos q (Suc i)" for i
      by (simp add: ring_pos_def ring_inc_def mod_add_left_eq)
    have "waiting ?q = drop_nth 0 (waiting q)"
    proof (rule waiting_eqI)
      show "ring_len ?q = length (drop_nth 0 (waiting q))" using j True len by simp
      fix i assume "i < length (drop_nth 0 (waiting q))"
      then have i: "i < ring_len q - 1" using j True by simp
      have "ring_pos q (Suc i) \<noteq> out_idx q"
        using ring_pos_inj [OF ok, of "Suc i" 0] i lt ok by simp
      then show "blocked_procs ?q (ring_pos ?q i) = drop_nth 0 (waiting q) ! i"
        using i j True by (simp add: pos [simplified] nth_drop_nth nth_waiting)
    qed
    moreover have "itc_removeBlocked q (ring_pos q j) = Inr ?q"
      using True ok by (simp add: itc_removeBlocked_def ring_ok_def)
    moreover have "ring_frame q ?q" by (simp add: ring_frame_def)
    ultimately show ?thesis using that [of ?q] ok' True by simp
  next
    case j0: False
    have ne: "ring_pos q j \<noteq> out_idx q" using ring_pos_inj [OF ok, of j 0] j lt ok j0 by simp
    show ?thesis
    proof (cases "j = ring_len q - 1")
      case True
      let ?q = "q\<lparr>blocked_procs := (blocked_procs q)(ring_pos q j := None), in_idx := ring_dec (in_idx q), token := token q + 1\<rparr>"
      have ok': "ring_ok ?q" using ok by (simp add: ring_ok_def)
      have len: "ring_len ?q = ring_len q - 1"
        using ok ok' j j0 by (auto simp: ring_len_eq ring_ok_def ring_dec_eq split: if_splits)
      have "waiting ?q = drop_nth j (waiting q)"
      proof (rule waiting_eqI)
        show "ring_len ?q = length (drop_nth j (waiting q))" using j len by simp
        fix i assume "i < length (drop_nth j (waiting q))"
        then have i: "i < ring_len q - 1" using j by simp
        have "ring_pos q i \<noteq> ring_pos q j" using ring_pos_inj [OF ok, of i j] i j lt True by simp
        then show "blocked_procs ?q (ring_pos ?q i) = drop_nth j (waiting q) ! i"
          using i j True by (simp add: nth_drop_nth nth_waiting)
      qed
      moreover have "itc_removeBlocked q (ring_pos q j) = Inr ?q"
        using True ok j ne ring_dec_pos [OF ok] by (simp add: itc_removeBlocked_def)
      moreover have "ring_frame q ?q" by (simp add: ring_frame_def)
      ultimately show ?thesis using that [of ?q] ok' by simp
    next
      case False
      have nd: "ring_pos q j \<noteq> ring_dec (in_idx q)"
        using ring_dec_pos [OF ok] ring_pos_inj [OF ok, of j "ring_len q - 1"] j lt False by simp
      have "j \<le> ring_len q" "ring_len q - j \<le> TK_MAX_BLOCKED_ON_Q" using j lt by simp_all
      from close_gap_shift [OF ok this] obtain bp where
        bp: "close_gap TK_MAX_BLOCKED_ON_Q (ring_pos q j) (ring_pos q (Suc j)) q = Inr (q\<lparr>blocked_procs := bp\<rparr>)"
        "\<And>i. i < ring_len q \<Longrightarrow> bp (ring_pos q i) =
           (if j \<le> i then blocked_procs q (ring_pos q (Suc i)) else blocked_procs q (ring_pos q i))"
        by blast
      let ?q = "q\<lparr>blocked_procs := bp, in_idx := ring_dec (in_idx q), token := token q + 1\<rparr>"
      have ok': "ring_ok ?q" using ok by (simp add: ring_ok_def)
      have len: "ring_len ?q = ring_len q - 1"
        using ok ok' j j0 by (auto simp: ring_len_eq ring_ok_def ring_dec_eq split: if_splits)
      have "waiting ?q = drop_nth j (waiting q)"
      proof (rule waiting_eqI)
        show "ring_len ?q = length (drop_nth j (waiting q))" using j len by simp
        fix i assume "i < length (drop_nth j (waiting q))"
        then have i: "i < ring_len q - 1" using j by simp
        then show "blocked_procs ?q (ring_pos ?q i) = drop_nth j (waiting q) ! i"
          using bp(2) [of i] j by (simp add: nth_drop_nth nth_waiting)
      qed
      moreover have "itc_removeBlocked q (ring_pos q j) = Inr ?q"
        using ne nd bp(1) by (simp add: itc_removeBlocked_def ring_inc_pos)
      moreover have "ring_frame q ?q" by (simp add: ring_frame_def)
      ultimately show ?thesis using that [of ?q] ok' by simp
    qed
  qed
qed

text \<open>Entering the ring at its in index, as \<^verbatim>\<open>lock_stage\<close> does.\<close>

definition ring_enter :: "thid_t option \<Rightarrow> itc_t \<Rightarrow> itc_t" where
  "ring_enter t q = q\<lparr>blocked_procs := (blocked_procs q)(in_idx q := t), in_idx := ring_inc (in_idx q)\<rparr>"

lemma ring_enter_waiting:
  assumes ok: "ring_ok q" and room: "ring_len q + 1 < MAXB"
  shows "ring_ok (ring_enter t q)" and "waiting (ring_enter t q) = waiting q @ [t]"
    and "ring_frame q (ring_enter t q)" and "token (ring_enter t q) = token q"
proof -
  show ok': "ring_ok (ring_enter t q)" using ok by (simp add: ring_enter_def ring_ok_def)
  show "ring_frame q (ring_enter t q)" "token (ring_enter t q) = token q"
    by (simp_all add: ring_enter_def ring_frame_def)
  have len: "ring_len (ring_enter t q) = ring_len q + 1"
    using ok ok' room by (auto simp: ring_enter_def ring_len_eq ring_ok_def ring_inc_eq split: if_splits)
  have pos: "ring_pos (ring_enter t q) = ring_pos q" by (simp add: ring_enter_def)
  show "waiting (ring_enter t q) = waiting q @ [t]"
  proof (rule waiting_eqI)
    show "ring_len (ring_enter t q) = length (waiting q @ [t])" by (simp add: len)
    fix j assume "j < length (waiting q @ [t])"
    then have j: "j \<le> ring_len q" by simp
    have "ring_pos q j = in_idx q \<longleftrightarrow> j = ring_len q"
      using ring_pos_inj [OF ok, of j "ring_len q"] ring_pos_len [OF ok] j room by simp
    then show "blocked_procs (ring_enter t q) (ring_pos (ring_enter t q) j) = (waiting q @ [t]) ! j"
      using j by (auto simp: pos nth_append nth_waiting ring_enter_def)
  qed
qed

lemma ring_walk_from:
  assumes "ring_ok q" "i \<le> ring_len q" "ring_len q - i \<le> n"
  shows "ring_walk n (ring_pos q i) (in_idx q) = Inr (map (ring_pos q) [i..<ring_len q])"
  using assms
proof (induction n arbitrary: i)
  case 0
  then have "i = ring_len q" by simp
  with 0 show ?case by (simp add: ring_walk.simps ring_pos_len)
next
  case (Suc n)
  show ?case
  proof (cases "i = ring_len q")
    case True
    with Suc.prems show ?thesis by (simp add: ring_walk.simps ring_pos_len)
  next
    case False
    with Suc.prems have i: "i < ring_len q" by simp
    then have "ring_pos q i \<noteq> in_idx q"
      using ring_pos_inj [OF Suc.prems(1), of i "ring_len q"] ring_len_less [of q] ring_pos_len [OF Suc.prems(1)]
      by simp
    moreover have "ring_walk n (ring_pos q (Suc i)) (in_idx q) = Inr (map (ring_pos q) [Suc i..<ring_len q])"
      by (rule Suc.IH) (use Suc.prems i in auto)
    ultimately show ?thesis
      using i by (subst ring_walk.simps) (simp add: ring_inc_pos upt_conv_Cons)
  qed
qed

lemma ring_walk_waiting:
  "ring_ok q \<Longrightarrow> ring_walk MAXB (out_idx q) (in_idx q) = Inr (map (ring_pos q) [0..<ring_len q])"
  using ring_walk_from [of q 0 MAXB] ring_len_less [of q] by simp

lemma uintDiff_ring: "ring_ok q \<Longrightarrow> itc_uintDiff (out_idx q) (in_idx q) MAXB = ring_len q"
  by (auto simp: itc_uintDiff_def ring_len_eq ring_ok_def)

section \<open>The interface of a queue of waiting threads\<close>

text \<open>
  What a blocking object needs of the queue its threads wait in: a thread enters at the end,
  and the thread at any position can leave, the others keeping their order.
\<close>

locale wait_queue =
  fixes waiters :: "'q \<Rightarrow> 'a list" and ok :: "'q \<Rightarrow> bool" and room :: "'q \<Rightarrow> bool"
    and enter :: "'a \<Rightarrow> 'q \<Rightarrow> 'q" and leave :: "'q \<Rightarrow> nat \<Rightarrow> 'q result"
  assumes enter: "ok q \<Longrightarrow> room q \<Longrightarrow> ok (enter a q) \<and> waiters (enter a q) = waiters q @ [a]"
    and leave: "ok q \<Longrightarrow> j < length (waiters q) \<Longrightarrow>
      \<exists>q'. leave q j = Inr q' \<and> ok q' \<and> waiters q' = drop_nth j (waiters q)"
begin

text \<open>First in, first out: what entered an empty queue first leaves it first.\<close>

lemma first_out:
  assumes "ok q" "waiters q = a # ws"
  shows "\<exists>q'. leave q 0 = Inr q' \<and> ok q' \<and> waiters q' = ws"
  using leave [OF assms(1), of 0] assms(2) by (simp add: drop_nth_def)

text \<open>A thread that gives up waiting leaves the queue as if it had never entered it.\<close>

lemma enter_leave:
  assumes "ok q" "room q"
  shows "\<exists>q'. leave (enter a q) (length (waiters q)) = Inr q' \<and> ok q' \<and> waiters q' = waiters q"
  using leave [of "enter a q" "length (waiters q)"] enter [OF assms] by (simp add: drop_nth_def)

text \<open>Nobody gets lost: the threads after a departure are the others, once each.\<close>

lemma leave_set:
  assumes "ok q" "distinct (waiters q)" "j < length (waiters q)"
  shows "\<exists>q'. leave q j = Inr q' \<and> ok q' \<and> distinct (waiters q') \<and>
    set (waiters q') = set (waiters q) - {waiters q ! j}"
  using leave [OF assms(1,3)] assms(2,3) by (auto simp: set_drop_nth distinct_drop_nth)

end

interpretation ring: wait_queue waiting ring_ok "\<lambda>q. ring_len q + 1 < MAXB" ring_enter
  "\<lambda>q j. itc_removeBlocked q (ring_pos q j)"
proof
  fix q :: itc_t and a :: "thid_t option" and j :: nat
  show "ring_ok (ring_enter a q) \<and> waiting (ring_enter a q) = waiting q @ [a]"
    if "ring_ok q" "ring_len q + 1 < MAXB" using ring_enter_waiting [OF that] by blast
  show "\<exists>q'. itc_removeBlocked q (ring_pos q j) = Inr q' \<and> ring_ok q' \<and> waiting q' = drop_nth j (waiting q)"
    if "ring_ok q" "j < length (waiting q)"
    using removeBlocked_waiting [OF that(1), of j] that(2) by auto
qed

end
