(* ===== verification/TkItc.thy ===== *)
theory TkItc
  imports TkRing
begin

text \<open>
  Inter-thread communication, \<^verbatim>\<open>src/tk_itc.c\<close>: counting semaphores, simple queues
  (four words a message) and queues of variable messages, all on \<open>lock_stage\<close> and
  \<open>unlock_stage\<close>, and \<^verbatim>\<open>tk_itc_destruct\<close> of \<^verbatim>\<open>src/tk_itcshared.c\<close>.
  What \<^verbatim>\<open>malloc\<close> and \<^verbatim>\<open>calloc\<close> return is a parameter: the contents of
  the new object, or a flag that tells success.
\<close>

section \<open>Taking and giving a token\<close>

text \<open>
  \<^verbatim>\<open>clock() / CLK_TCK * 1000\<close>, whose unit is milliseconds while the wake-up scan
  compares the deadline with a clock in microseconds.
\<close>

definition itc_clock :: "'a kern_scheme \<Rightarrow> clock_t" where
  "itc_clock k = (clock_now k div 1000000) * 1000"

text \<open>After a time-out: the loop that takes every other timed-out thread out of the ring.\<close>

definition purge_one :: "nat \<Rightarrow> nat \<Rightarrow> 'a itc_kern_scheme \<Rightarrow> 'a itc_kern_scheme result" where
  "purge_one qid mark k = at_itc qid k (\<lambda>q. in_bounds (mark < MAXB)
     (case blocked_procs q mark of None \<Rightarrow> Inl Null_deref
      | Some t \<Rightarrow>
         if state (pool k t) = READY \<and> wakeupEvent (pool k t) = E_TIMER then
           andThen (itc_removeBlocked q mark) (\<lambda>q1.
             Inr (put_itc qid q1 (upd_tcb t (\<lambda>c. c\<lparr>wakeupEvent := E_ITC2\<rparr>) k)))
         else Inr k))"

fun purge :: "nat \<Rightarrow> nat \<Rightarrow> nat \<Rightarrow> 'a itc_kern_scheme \<Rightarrow> 'a itc_kern_scheme result" where
  "purge n qid mark k = andThen (purge_one qid mark k) (\<lambda>k1. at_itc qid k1 (\<lambda>q.
     if mark = in_idx q then Inr k1
     else if token q < 0 \<and> ring_inc mark \<noteq> in_idx q then
       (case n of 0 \<Rightarrow> Inl Hangs | Suc n' \<Rightarrow> purge n' qid (ring_inc mark) k1)
     else Inr k1))"

declare purge.simps [simp del]

definition timed_out :: "nat \<Rightarrow> nat \<Rightarrow> 'a itc_kern_scheme \<Rightarrow> (itc_rc \<times> 'a itc_kern_scheme) result" where
  "timed_out qid mark k = at_itc qid k (\<lambda>q.
     if token q \<ge> 0 then Inr (ERR_TIMEOUT, k)
     else andThen (itc_removeBlocked q (ring_dec mark)) (\<lambda>q1.
       let k1 = put_itc qid q1 k in
       if token q1 \<ge> 0 then Inr (ERR_TIMEOUT, k1)
       else andThen (purge MAXB qid (out_idx q1) k1) (\<lambda>k2. Inr (ERR_TIMEOUT, k2))))"

definition lock_resume :: "thid_t \<Rightarrow> nat \<Rightarrow> nat \<Rightarrow> 'a itc_kern_scheme \<Rightarrow> (itc_rc \<times> 'a itc_kern_scheme) result" where
  "lock_resume me qid mark k =
     (if wakeupEvent (pool k me) = E_TIMER then timed_out qid mark k
      else if wakeupEvent (pool k me) = E_ITC2 then Inr (ERR_TIMEOUT, k)
      else Inr (RC_OK, k))"

text \<open>
  The first part of \<open>lock_stage\<close>: take a token, refuse, or queue the running thread;
  \<open>Some mark\<close> when it is to wait, with the in index after it.
\<close>

definition enqueued :: "thid_t \<Rightarrow> itc_t \<Rightarrow> itc_t" where
  "enqueued me q = ring_enter (Some me) (q\<lparr>token := token q - 1\<rparr>)"

definition block_self :: "32 word \<Rightarrow> 'a kern_scheme \<Rightarrow> 'a kern_scheme" where
  "block_self timeout k = upd_tcb (active_thread k)
     (\<lambda>c. if timeout = 0 then c\<lparr>state := state c OR QUEUE, wakeupEvent := E_NONE\<rparr>
          else c\<lparr>state := state c OR STATE_QS, wakeuptime := itc_clock k + timeout\<rparr>) k"

definition lock_begin :: "nat \<Rightarrow> 32 word \<Rightarrow> 'a itc_kern_scheme \<Rightarrow>
  ((itc_rc + nat) \<times> 'a itc_kern_scheme) result" where
  "lock_begin qid timeout k = at_itc qid k (\<lambda>q.
     if token q > 0 then Inr (Inl RC_OK, put_itc qid (q\<lparr>token := token q - 1\<rparr>) k)
     else if \<not> nat \<bar>token q\<bar> < MAXB - 1 then Inr (Inl ERR_BLOCKLIMIT, k)
     else in_bounds (in_idx q < MAXB)
       (let q1 = enqueued (active_thread k) q
        in Inr (Inr (in_idx q1), block_self timeout (put_itc qid q1 k))))"

type_synonym 'a itc_others = "thid_t \<Rightarrow> 'a itc_kern_scheme \<Rightarrow> 'a itc_kern_scheme result"

definition lock_stage :: "'a itc_others \<Rightarrow> nat \<Rightarrow> 32 word \<Rightarrow> 'a itc_kern_scheme \<Rightarrow>
  (itc_rc \<times> 'a itc_kern_scheme) result" where
  "lock_stage oth qid timeout k = andThen (lock_begin qid timeout k) (\<lambda>(r, k1).
     case r of Inl rc \<Rightarrow> Inr (rc, k1)
     | Inr mark \<Rightarrow> andThen (tk_yield oth k1) (\<lambda>k2.
         if timeout = 0 then Inr (RC_OK, k2) else lock_resume (active_thread k) qid mark k2))"

text \<open>Waking a thread that waits on an ITC object.\<close>

definition wake_itc :: "thid_t \<Rightarrow> 'a kern_scheme \<Rightarrow> 'a kern_scheme" where
  "wake_itc him k = upd_tcb him (\<lambda>c. c\<lparr>state := state c AND NOT STATE_QST, wakeupEvent := E_ITC\<rparr>) k"

text \<open>
  By priority: the first of the most urgent waiters; \<open>best\<close> is its priority and position so
  far.
\<close>

fun most_urgent :: "'a kern_scheme \<Rightarrow> itc_t \<Rightarrow> nat list \<Rightarrow> nat \<times> nat \<Rightarrow> (nat \<times> nat) result" where
  "most_urgent k q [] best = Inr best"
| "most_urgent k q (i # is) best = (case blocked_procs q i of None \<Rightarrow> Inl Null_deref
     | Some t \<Rightarrow> most_urgent k q is (if Prio (pool k t) < fst best then (Prio (pool k t), i) else best))"

definition unlock_prior :: "nat \<Rightarrow> itc_t \<Rightarrow> 'a itc_kern_scheme \<Rightarrow> 'a itc_kern_scheme option result" where
  "unlock_prior qid q k =
     andThen (ring_walk MAXB (out_idx q) (in_idx q)) (\<lambda>is.
      if in_idx q = out_idx q then Inr None
      else andThen (most_urgent k q is (TK_MAX_PRIO_LEVELS + 2, 0)) (\<lambda>(p, i).
        c_assert (p \<noteq> TK_MAX_PRIO_LEVELS + 2)
         (case blocked_procs q i of None \<Rightarrow> Inl Null_deref
          | Some t \<Rightarrow> andThen (itc_removeBlocked q i) (\<lambda>q1. Inr (Some (put_itc qid q1 (wake_itc t k)))))))"

text \<open>
  In order of arrival: the waiters that time-outs have released already are passed over, but
  the last one of the ring is woken in any case.
\<close>

function pop_waiter :: "'a kern_scheme \<Rightarrow> itc_t \<Rightarrow> (thid_t \<times> itc_t) result" where
  "pop_waiter k q = in_bounds (out_idx q < MAXB) (case blocked_procs q (out_idx q) of None \<Rightarrow> Inl Null_deref
     | Some t \<Rightarrow>
        let q1 = q\<lparr>out_idx := ring_inc (out_idx q), token := token q + 1\<rparr> in
        if \<not> has_flag (state (pool k t)) QUEUE \<and> token q1 < 0 then pop_waiter k q1 else Inr (t, q1))"
  by pat_completeness auto
termination by (relation "measure (\<lambda>(k, q). nat (- token q))") auto

declare pop_waiter.simps [simp del]

definition unlock_fifo :: "nat \<Rightarrow> itc_t \<Rightarrow> 'a itc_kern_scheme \<Rightarrow> (thid_t \<times> 'a itc_kern_scheme) result" where
  "unlock_fifo qid q k = andThen (pop_waiter k q) (\<lambda>(t, q1). Inr (t, put_itc qid q1 (wake_itc t k)))"

definition unlock_stage :: "'a itc_others \<Rightarrow> nat \<Rightarrow> 'a itc_kern_scheme \<Rightarrow> (itc_rc \<times> 'a itc_kern_scheme) result" where
  "unlock_stage oth qid k = at_itc qid k (\<lambda>q.
     if token q < 0 then
       if flags q AND PRIOR \<noteq> 0 then
         andThen (unlock_prior qid q k) (\<lambda>r. case r of None \<Rightarrow> Inr (RC_OK, k)
           | Some k1 \<Rightarrow> andThen (tk_yield oth k1) (\<lambda>k2. Inr (RC_OK, k2)))
       else andThen (unlock_fifo qid q k) (\<lambda>(_, k1). andThen (tk_yield oth k1) (\<lambda>k2. Inr (RC_OK, k2)))
     else Inr (RC_OK, put_itc qid (q\<lparr>token := token q + 1\<rparr>) k))"

section \<open>Semaphores\<close>

text \<open>
  \<^verbatim>\<open>m1\<close> is the memory of the new object, if there is any, \<^verbatim>\<open>m2\<close> tells
  whether there was memory for its ring.
\<close>

definition sm_init :: "string \<Rightarrow> nat \<Rightarrow> 32 word \<Rightarrow> itc_t \<Rightarrow> itc_t" where
  "sm_init name count fl q = q\<lparr>blocked_procs := (\<lambda>_. None), itc_name := take 4 name, token := int count,
     flags := fl, sizeof_q := 0, b_type := SEM, in_idx := 0, out_idx := 0\<rparr>"

definition sm_create :: "itc_t option \<Rightarrow> bool \<Rightarrow> string \<Rightarrow> nat \<Rightarrow> 32 word \<Rightarrow> 'a itc_kern_scheme \<Rightarrow>
  (itc_rc \<times> nat \<times> 'a itc_kern_scheme) result" where
  "sm_create m1 m2 name count fl k =
     (let (rc, k1) = itc_findNextEmpySlot k; i = itc_idx k1 in
      if rc = ERR_OBJFULL then Inr (rc, 0, k1)
      else in_bounds (i < TK_MAX_NUM_Q)
       (case m1 of None \<Rightarrow> Inr (ERR_NOMEM, 0, k1\<lparr>itc_array := (itc_array k1)(i := None)\<rparr>)
        | Some q \<Rightarrow>
           if \<not> m2 then Inr (ERR_NOMEM, 0, put_itc i q k1)
           else Inr (RC_OK, i, put_itc i (sm_init name count fl q) k1)))"

definition sm_delete :: "nat \<Rightarrow> 'a itc_kern_scheme \<Rightarrow> (itc_rc \<times> 'a itc_kern_scheme) result" where
  "sm_delete qid k = at_itc qid k (\<lambda>q. Inr (RC_OK, k\<lparr>itc_array := (itc_array k)(qid := None)\<rparr>))"

text \<open>The checks that the operations on an object of a given type share.\<close>

definition wrong_type :: "nat \<Rightarrow> itc_set_t \<Rightarrow> 'a itc_kern_scheme \<Rightarrow> itc_rc option" where
  "wrong_type qid ty k = (case itc_array k qid of None \<Rightarrow> Some ERR_OBJDEL
     | Some q \<Rightarrow> if b_type q \<noteq> ty then Some ERR_OBJTYPE else None)"

definition would_block :: "nat \<Rightarrow> 32 word \<Rightarrow> 'a itc_kern_scheme \<Rightarrow> bool" where
  "would_block qid fl k = (case itc_array k qid of None \<Rightarrow> False
     | Some q \<Rightarrow> token q \<le> 0 \<and> fl AND NOWAIT \<noteq> 0)"

definition sm_p :: "'a itc_others \<Rightarrow> nat \<Rightarrow> 32 word \<Rightarrow> 32 word \<Rightarrow> 'a itc_kern_scheme \<Rightarrow>
  (itc_rc \<times> 'a itc_kern_scheme) result" where
  "sm_p oth qid fl timeout k = in_bounds (qid < TK_MAX_NUM_Q)
     (case wrong_type qid SEM k of Some rc \<Rightarrow> Inr (rc, k)
      | None \<Rightarrow> if would_block qid fl k then Inr (ERR_NOSEM, k) else lock_stage oth qid timeout k)"

definition sm_v :: "'a itc_others \<Rightarrow> nat \<Rightarrow> 'a itc_kern_scheme \<Rightarrow> (itc_rc \<times> 'a itc_kern_scheme) result" where
  "sm_v oth qid k = in_bounds (qid < TK_MAX_NUM_Q)
     (case wrong_type qid SEM k of Some rc \<Rightarrow> Inr (rc, k) | None \<Rightarrow> unlock_stage oth qid k)"

section \<open>Queues of four words\<close>

definition q_init :: "itc_set_t \<Rightarrow> nat \<Rightarrow> itc_t \<Rightarrow> itc_t" where
  "q_init ty count q = q\<lparr>sizeof_q := count, b_type := ty, min_idx := 0, mout_idx := 0,
     m_q := (\<lambda>_. replicate 4 0), m_qv := (\<lambda>_. \<lparr>mb = Null, mlen = 0\<rparr>)\<rparr>"

definition q_create :: "itc_t option \<Rightarrow> bool \<Rightarrow> bool \<Rightarrow> string \<Rightarrow> nat \<Rightarrow> 32 word \<Rightarrow> 'a itc_kern_scheme \<Rightarrow>
  (itc_rc \<times> nat \<times> 'a itc_kern_scheme) result" where
  "q_create m1 m2 m3 name count fl k =
     andThen (sm_create m1 m2 name 0 fl k) (\<lambda>(rc, qid, k1).
       if rc \<noteq> RC_OK then Inr (rc, qid, k1)
       else if \<not> m3 then andThen (sm_delete qid k1) (\<lambda>(_, k2). Inr (ERR_NOMEM, qid, k2))
       else at_itc (itc_idx k1) k1 (\<lambda>q. Inr (RC_OK, qid, put_itc (itc_idx k1) (q_init S_QUEUE count q) k1)))"

text \<open>
  The storage \<^verbatim>\<open>m\<close> of a semaphore was never set: to free it is to free a wild pointer.
\<close>

definition q_delete :: "nat \<Rightarrow> 'a itc_kern_scheme \<Rightarrow> (itc_rc \<times> 'a itc_kern_scheme) result" where
  "q_delete qid k = at_itc qid k (\<lambda>q. if b_type q = SEM then Inl Wild_pointer else sm_delete qid k)"

text \<open>Reading the oldest message; writing behind the newest.\<close>

definition take_msg :: "nat \<Rightarrow> 'a itc_kern_scheme \<Rightarrow> (q_t \<times> 'a itc_kern_scheme) result" where
  "take_msg qid k = at_itc qid k (\<lambda>q. in_bounds (mout_idx q < sizeof_q q)
     (Inr (m_q q (mout_idx q), put_itc qid (q\<lparr>mout_idx := (mout_idx q + 1) mod sizeof_q q\<rparr>) k)))"

definition put_msg :: "nat \<Rightarrow> q_t \<Rightarrow> 'a itc_kern_scheme \<Rightarrow> 'a itc_kern_scheme result" where
  "put_msg qid msg k = at_itc qid k (\<lambda>q. in_bounds (min_idx q < sizeof_q q)
     (Inr (put_itc qid (q\<lparr>m_q := (m_q q)(min_idx q := msg), min_idx := (min_idx q + 1) mod sizeof_q q\<rparr>) k)))"

definition queue_full :: "nat \<Rightarrow> 'a itc_kern_scheme \<Rightarrow> bool" where
  "queue_full qid k = (case itc_array k qid of None \<Rightarrow> False
     | Some q \<Rightarrow> token q > 0 \<and> \<not> token q < int (sizeof_q q))"

text \<open>\<^verbatim>\<open>assert(_itc_proveConcistency(qid))\<close> after the lock or unlock.\<close>

definition checked :: "nat \<Rightarrow> (itc_rc \<times> 'a itc_kern_scheme) result \<Rightarrow> (itc_rc \<times> 'a itc_kern_scheme) result" where
  "checked qid m = andThen m (\<lambda>(rc, k). andThen (itc_proveConcistency qid k) (\<lambda>b. c_assert b (Inr (rc, k))))"

definition q_receive :: "'a itc_others \<Rightarrow> nat \<Rightarrow> 32 word \<Rightarrow> 32 word \<Rightarrow> 'a itc_kern_scheme \<Rightarrow>
  (itc_rc \<times> q_t option \<times> 'a itc_kern_scheme) result" where
  "q_receive oth qid fl timeout k = in_bounds (qid < TK_MAX_NUM_Q)
     (case wrong_type qid S_QUEUE k of Some rc \<Rightarrow> Inr (rc, None, k)
      | None \<Rightarrow> if would_block qid fl k then Inr (ERR_NOSEM, None, k)
        else andThen (checked qid (lock_stage oth qid timeout k)) (\<lambda>(rc, k1).
          if rc \<noteq> RC_OK then Inr (rc, None, k1)
          else andThen (take_msg qid k1) (\<lambda>(msg, k2). Inr (RC_OK, Some msg, k2))))"

definition q_send :: "'a itc_others \<Rightarrow> nat \<Rightarrow> q_t \<Rightarrow> 'a itc_kern_scheme \<Rightarrow> (itc_rc \<times> 'a itc_kern_scheme) result" where
  "q_send oth qid msg k = in_bounds (qid < TK_MAX_NUM_Q)
     (case wrong_type qid S_QUEUE k of Some rc \<Rightarrow> Inr (rc, k)
      | None \<Rightarrow> if queue_full qid k then Inr (ERR_FULL, k)
        else andThen (put_msg qid msg k) (\<lambda>k1. checked qid (unlock_stage oth qid k1)))"

section \<open>Queues of variable messages\<close>

definition q_vcreate :: "itc_t option \<Rightarrow> bool \<Rightarrow> bool \<Rightarrow> string \<Rightarrow> 32 word \<Rightarrow> nat \<Rightarrow> nat \<Rightarrow> 'a itc_kern_scheme \<Rightarrow>
  (itc_rc \<times> nat \<times> 'a itc_kern_scheme) result" where
  "q_vcreate m1 m2 m3 name fl count mmlen k =
     andThen (sm_create m1 m2 name 0 fl k) (\<lambda>(rc, qid, k1).
       if rc \<noteq> RC_OK then Inr (rc, qid, k1)
       else if \<not> m3 then andThen (sm_delete qid k1) (\<lambda>(_, k2). Inr (ERR_NOMEM, qid, k2))
       else at_itc (itc_idx k1) k1 (\<lambda>q.
         Inr (RC_OK, qid, put_itc (itc_idx k1) ((q_init V_QUEUE count q)\<lparr>maxSizeof_m := mmlen\<rparr>) k1)))"

text \<open>
  Every buffer is freed, also the ones \<open>q_vreceive\<close> has freed already: a pointer that was
  freed keeps its value.
\<close>

definition free_vmsg :: "nat \<Rightarrow> nat \<Rightarrow> 'a itc_kern_scheme \<Rightarrow> 'a itc_kern_scheme result" where
  "free_vmsg qid i k = at_itc qid k (\<lambda>q. andThen (c_free (mb (m_qv q i))) (\<lambda>b.
     Inr (put_itc qid (q\<lparr>m_qv := (m_qv q)(i := (m_qv q i)\<lparr>mb := b\<rparr>)\<rparr>) k)))"

definition q_vdelete :: "nat \<Rightarrow> 'a itc_kern_scheme \<Rightarrow> (itc_rc \<times> 'a itc_kern_scheme) result" where
  "q_vdelete qid k = at_itc qid k (\<lambda>q. if b_type q \<noteq> V_QUEUE then Inl Wild_pointer
     else andThen (foldR (free_vmsg qid) [0..<sizeof_q q] k) (sm_delete qid))"

text \<open>
  Copying a variable message out and freeing its buffer; \<open>buf_len\<close> is only compared with
  the queue's limit.
\<close>

definition take_vmsg :: "nat \<Rightarrow> 'a itc_kern_scheme \<Rightarrow> (8 word list \<times> nat \<times> 'a itc_kern_scheme) result" where
  "take_vmsg qid k = at_itc qid k (\<lambda>q. in_bounds (mout_idx q < sizeof_q q)
     (let v = m_qv q (mout_idx q) in c_deref (mb v) (\<lambda>bytes. in_bounds (mlen v < length bytes)
        (Inr (take (mlen v + 1) bytes, mlen v,
           put_itc qid (q\<lparr>m_qv := (m_qv q)(mout_idx q := v\<lparr>mb := Freed\<rparr>),
             mout_idx := (mout_idx q + 1) mod sizeof_q q\<rparr>) k)))))"

definition q_vreceive :: "'a itc_others \<Rightarrow> nat \<Rightarrow> 32 word \<Rightarrow> 32 word \<Rightarrow> nat \<Rightarrow> 'a itc_kern_scheme \<Rightarrow>
  (itc_rc \<times> (8 word list \<times> nat) option \<times> 'a itc_kern_scheme) result" where
  "q_vreceive oth qid fl timeout buf_len k = in_bounds (qid < TK_MAX_NUM_Q)
     (case wrong_type qid V_QUEUE k of Some rc \<Rightarrow> Inr (rc, None, k)
      | None \<Rightarrow> if would_block qid fl k then Inr (ERR_NOSEM, None, k)
        else at_itc qid k (\<lambda>q. if maxSizeof_m q < buf_len then Inr (ERR_BUFSIZ, None, k)
        else andThen (checked qid (lock_stage oth qid timeout k)) (\<lambda>(rc, k1).
          if rc \<noteq> RC_OK then Inr (rc, None, k1)
          else andThen (take_vmsg qid k1) (\<lambda>(msg, n, k2). Inr (RC_OK, Some (msg, n), k2)))))"

text \<open>
  Storing a variable message. The new buffer is stored through \<^verbatim>\<open>__itc_array[__itc_idx]\<close>,
  the object of the slot created last, and the bytes are copied through
  \<^verbatim>\<open>__itc_array[qid]\<close>; both are written as in the code. \<open>m\<close> tells whether
  \<^verbatim>\<open>malloc\<close> succeeds; \<open>bytes\<close> is what \<^verbatim>\<open>msg_buf\<close>
  points to, of which \<^verbatim>\<open>len + 1\<close> bytes are copied. \<open>pr\<close> tells whether
  \<^verbatim>\<open>printk\<close> prints (\<^verbatim>\<open>TK_HOWTO_PRINTK\<close>; by default it is
  \<^verbatim>\<open>((void)0)\<close>): its argument is a string found through the object in slot
  \<^verbatim>\<open>mout_idx\<close> of the table, \<^verbatim>\<open>mout_idx\<close> being the queue's.
\<close>

definition put_vbuf :: "bool \<Rightarrow> nat \<Rightarrow> nat \<Rightarrow> 'a itc_kern_scheme \<Rightarrow> 'a itc_kern_scheme result" where
  "put_vbuf m i len k = at_itc (itc_idx k) k (\<lambda>q.
     if b_type q \<noteq> V_QUEUE then Inl Wild_pointer
     else in_bounds (i < sizeof_q q) (Inr (put_itc (itc_idx k) (q\<lparr>m_qv := (m_qv q)(i :=
       (m_qv q i)\<lparr>mb := if m then Live (replicate (len + 1) 0) else Null\<rparr>)\<rparr>) k)))"

definition put_vbytes :: "nat \<Rightarrow> 8 word list \<Rightarrow> nat \<Rightarrow> 'a itc_kern_scheme \<Rightarrow> 'a itc_kern_scheme result" where
  "put_vbytes qid bytes len k = at_itc qid k (\<lambda>q. let i = min_idx q in
     in_bounds (i < sizeof_q q \<and> len < length bytes) (c_deref (mb (m_qv q i)) (\<lambda>buf. in_bounds (len < length buf)
       (Inr (put_itc qid (q\<lparr>m_qv := (m_qv q)(i := \<lparr>mb = Live (take (len + 1) bytes @ drop (len + 1) buf), mlen = len\<rparr>),
          min_idx := (i + 1) mod sizeof_q q\<rparr>) k)))))"

definition put_vmsg :: "bool \<Rightarrow> nat \<Rightarrow> 8 word list \<Rightarrow> nat \<Rightarrow> 'a itc_kern_scheme \<Rightarrow>
  (itc_rc \<times> 'a itc_kern_scheme) result" where
  "put_vmsg m qid bytes len k = at_itc qid k (\<lambda>q. andThen (put_vbuf m (min_idx q) len k) (\<lambda>k1.
     if \<not> m then Inr (ERR_NOMEM, k1)
     else andThen (put_vbytes qid bytes len k1) (\<lambda>k2. Inr (RC_OK, k2))))"

definition trace_vmsg :: "bool \<Rightarrow> nat \<Rightarrow> 'a itc_kern_scheme \<Rightarrow> 'a itc_kern_scheme result" where
  "trace_vmsg pr qid k = (if \<not> pr then Inr k
     else at_itc qid k (\<lambda>q. at_itc (mout_idx q) k (\<lambda>q'. if b_type q \<noteq> V_QUEUE then Inl Wild_pointer
       else in_bounds (mout_idx q' < sizeof_q q) (c_deref (mb (m_qv q (mout_idx q'))) (\<lambda>bytes.
         in_bounds (0 \<in> set bytes) (Inr k))))))"

lemma trace_nothing [simp]: "trace_vmsg False qid k = Inr k"
  by (simp add: trace_vmsg_def)

definition q_vsend :: "bool \<Rightarrow> bool \<Rightarrow> 'a itc_others \<Rightarrow> nat \<Rightarrow> 8 word list \<Rightarrow> nat \<Rightarrow> 'a itc_kern_scheme \<Rightarrow>
  (itc_rc \<times> 'a itc_kern_scheme) result" where
  "q_vsend pr m oth qid bytes len k = in_bounds (qid < TK_MAX_NUM_Q)
     (case wrong_type qid V_QUEUE k of Some rc \<Rightarrow> Inr (rc, k)
      | None \<Rightarrow> if queue_full qid k then Inr (ERR_FULL, k)
        else andThen (put_vmsg m qid bytes len k) (\<lambda>(rc, k1).
          if rc \<noteq> RC_OK then Inr (rc, k1) else andThen (trace_vmsg pr qid k1) (\<lambda>k2. checked qid (unlock_stage oth qid k2))))"

section \<open>Taking the component down\<close>

text \<open>
  \<^verbatim>\<open>tk_itc_destruct\<close> frees what every object owns. The slots of the table keep their
  values, so the freed objects are the ones found non-null; the result is the table as it is
  left, to which the model adds nothing.
\<close>

definition destruct_one :: "nat \<Rightarrow> 'a itc_kern_scheme \<Rightarrow> 'a itc_kern_scheme result" where
  "destruct_one i k = (case itc_array k i of None \<Rightarrow> Inr k
     | Some q \<Rightarrow> if b_type q = V_QUEUE then foldR (free_vmsg i) [0..<sizeof_q q] k else Inr k)"

definition tk_itc_destruct :: "'a itc_kern_scheme \<Rightarrow> (itc_rc \<times> 'a itc_kern_scheme) result" where
  "tk_itc_destruct k = andThen (foldR destruct_one [0..<TK_MAX_NUM_Q] k) (\<lambda>k1. Inr (RC_OK, k1))"

end
