(* ===== verification/TkSem.thy ===== *)
theory TkSem
  imports TkItc TkSystem
begin

text \<open>
  What the locking stages of \<open>TkItc\<close> do, against an abstract counting semaphore: either a
  number of tokens, or the threads that wait, in the order of their arrival.
\<close>

section \<open>The abstract semaphore\<close>

datatype sem_spec = Tokens nat | Waiters "thid_t list"

definition spec_of :: "itc_t \<Rightarrow> sem_spec" where
  "spec_of q = (if token q < 0 then Waiters (map the (waiting q)) else Tokens (nat (token q)))"

fun spec_p :: "thid_t \<Rightarrow> sem_spec \<Rightarrow> sem_spec" where
  "spec_p me (Tokens (Suc n)) = Tokens n"
| "spec_p me (Tokens 0) = Waiters [me]"
| "spec_p me (Waiters ts) = Waiters (ts @ [me])"

definition spec_waiters :: "thid_t list \<Rightarrow> sem_spec" where
  "spec_waiters ts = (if ts = [] then Tokens 0 else Waiters ts)"

fun spec_v :: "nat \<Rightarrow> sem_spec \<Rightarrow> sem_spec" where
  "spec_v j (Tokens n) = Tokens (Suc n)"
| "spec_v j (Waiters ts) = spec_waiters (drop_nth j ts)"

text \<open>
  The invariant of an object: its ring holds valid threads, once each, and there are as many
  as a negative token says.
\<close>

definition itc_ok :: "'a kern_scheme \<Rightarrow> itc_t \<Rightarrow> bool" where
  "itc_ok k q \<longleftrightarrow> ring_ok q \<and> int (ring_len q) = max 0 (- token q) \<and>
     (\<forall>w \<in> set (waiting q). \<exists>t \<in> valid_tids k. w = Some t) \<and> distinct (waiting q)"

lemma itc_okD:
  assumes "itc_ok k q"
  shows "ring_ok q" "waiting q = map Some (map the (waiting q))" "distinct (map the (waiting q))"
    "set (map the (waiting q)) \<subseteq> valid_tids k" "length (map the (waiting q)) = ring_len q"
proof -
  show "ring_ok q" using assms by (simp add: itc_ok_def)
  have s: "w = Some (the w) \<and> the w \<in> valid_tids k" if "w \<in> set (waiting q)" for w
    using assms that by (auto simp: itc_ok_def)
  show m: "waiting q = map Some (map the (waiting q))"
    using s by (simp add: map_idI comp_def)
  then have "distinct (map Some (map the (waiting q)))" using assms by (simp add: itc_ok_def del: map_map)
  then show "distinct (map the (waiting q))" by (metis distinct_map)
  show "set (map the (waiting q)) \<subseteq> valid_tids k" using s by auto
qed simp

lemma itc_ok_empty: "itc_ok k q \<Longrightarrow> token q = 0 \<Longrightarrow> waiting q = []"
  by (metis itc_ok_def length_0_conv length_waiting max.idem neg_0_equal_iff_equal of_nat_eq_0_iff)

lemma itc_ok_nonempty: "itc_ok k q \<Longrightarrow> token q < 0 \<Longrightarrow> waiting q \<noteq> []"
  by (auto simp: itc_ok_def simp flip: length_waiting)

lemma spec_of_waiters:
  "itc_ok k q \<Longrightarrow> token q \<le> 0 \<Longrightarrow> spec_of q = spec_waiters (map the (waiting q))"
  by (cases "token q = 0") (auto simp: spec_of_def spec_waiters_def dest: itc_ok_empty itc_ok_nonempty)

lemma itc_ok_valid: "itc_ok k q \<Longrightarrow> valid_tids k' = valid_tids k \<Longrightarrow> itc_ok k' q"
  by (simp add: itc_ok_def)

section \<open>Taking a token\<close>

lemma valid_put_itc [simp]: "valid_tids (put_itc qid q k) = valid_tids k"
  by (simp add: valid_tids_def)

lemma block_self_same: "sched_same k (block_self timeout k)"
  unfolding block_self_def by (rule sched_same_upd_tcb) simp

lemma block_self_sel [simp]:
  "itc_array (block_self timeout k) = itc_array k" "itc_idx (block_self timeout k) = itc_idx k"
  "valid_tids (block_self timeout k) = valid_tids k" "active_thread (block_self timeout k) = active_thread k"
  by (simp_all add: block_self_def sched_same_valid_tids [OF block_self_same])
    (simp add: block_self_same sched_same_valid_tids block_self_def [symmetric])

lemma block_self_blocked:
  "has_flag (state (pool (block_self timeout k) (active_thread k))) QUEUE"
  "\<not> ready (block_self timeout k) (active_thread k)"
  by (simp_all add: block_self_def ready_def)

lemma enqueued_ok:
  assumes "itc_ok k q" "token q \<le> 0" "nat \<bar>token q\<bar> < MAXB - 1" "me \<in> valid_tids k" "Some me \<notin> set (waiting q)"
  shows "itc_ok k (enqueued me q)" "waiting (enqueued me q) = waiting q @ [Some me]"
    "token (enqueued me q) = token q - 1" "ring_frame q (enqueued me q)"
proof -
  let ?q = "q\<lparr>token := token q - 1\<rparr>"
  have r: "ring_ok ?q" "ring_len ?q + 1 < MAXB" using assms(1-3) by (auto simp: itc_ok_def)
  note e = ring_enter_waiting [OF r, of "Some me"]
  show w: "waiting (enqueued me q) = waiting q @ [Some me]" using e(2) by (simp add: enqueued_def)
  show t: "token (enqueued me q) = token q - 1" using e(4) by (simp add: enqueued_def)
  show "ring_frame q (enqueued me q)" using e(3) by (simp add: enqueued_def ring_frame_def)
  have "ring_len (enqueued me q) = ring_len q + 1" using w by (metis length_append_singleton length_waiting Suc_eq_plus1)
  then show "itc_ok k (enqueued me q)"
    using assms e(1) w t by (auto simp: itc_ok_def enqueued_def)
qed

text \<open>
  \<open>lock_stage\<close> up to the yield: a token is taken, or the running thread is refused because
  the ring is full, or it is queued behind the others and no longer ready.
\<close>

lemma lock_begin_cases:
  assumes q: "qid < TK_MAX_NUM_Q" "itc_array k qid = Some q" and ok: "itc_ok k q"
    and me: "active_thread k \<in> valid_tids k" "Some (active_thread k) \<notin> set (waiting q)"
  shows "(token q > 0 \<longrightarrow> lock_begin qid timeout k = Inr (Inl RC_OK, put_itc qid (q\<lparr>token := token q - 1\<rparr>) k)) \<and>
    (token q \<le> 0 \<and> ring_len q = MAXB - 1 \<longrightarrow> lock_begin qid timeout k = Inr (Inl ERR_BLOCKLIMIT, k)) \<and>
    (token q \<le> 0 \<and> ring_len q \<noteq> MAXB - 1 \<longrightarrow>
       lock_begin qid timeout k = Inr (Inr (in_idx (enqueued (active_thread k) q)),
         block_self timeout (put_itc qid (enqueued (active_thread k) q) k)) \<and>
       itc_ok k (enqueued (active_thread k) q))"
proof -
  have len: "token q \<le> 0 \<Longrightarrow> nat \<bar>token q\<bar> = ring_len q" using ok by (auto simp: itc_ok_def)
  have lt: "ring_len q < MAXB" by (rule ring_len_less)
  have "in_idx q < MAXB" using ok by (simp add: itc_ok_def ring_ok_def)
  then show ?thesis
    using q len lt enqueued_ok(1) [OF ok _ _ me] by (auto simp: lock_begin_def Let_def)
qed

lemma lock_begin_refines:
  assumes q: "qid < TK_MAX_NUM_Q" "itc_array k qid = Some q" and ok: "itc_ok k q"
    and me: "active_thread k \<in> valid_tids k" "Some (active_thread k) \<notin> set (waiting q)"
    and room: "ring_len q \<noteq> MAXB - 1"
  shows "\<exists>r k' q'. lock_begin qid timeout k = Inr (r, k') \<and> itc_array k' qid = Some q' \<and> itc_ok k' q' \<and>
    spec_of q' = spec_p (active_thread k) (spec_of q) \<and> (r = Inl RC_OK \<longleftrightarrow> token q > 0)"
proof (cases "token q > 0")
  case True
  let ?q = "q\<lparr>token := token q - 1\<rparr>"
  obtain n where n: "token q = int (Suc n)" using True by (metis gr0_conv_Suc zero_less_imp_eq_int)
  have "itc_ok (put_itc qid ?q k) ?q" using ok True by (auto simp: itc_ok_def)
  moreover have "spec_of ?q = spec_p (active_thread k) (spec_of q)" by (simp add: spec_of_def n nat_add_distrib)
  ultimately show ?thesis
    using lock_begin_cases [OF q ok me, of timeout] True
    by (intro exI [of _ "Inl RC_OK"] exI [of _ "put_itc qid ?q k"] exI [of _ ?q]) simp
next
  case False
  let ?e = "enqueued (active_thread k) q"
  have t: "token q \<le> 0" "nat \<bar>token q\<bar> < MAXB - 1"
    using False ok room ring_len_less [of q] by (auto simp: itc_ok_def)
  note e = enqueued_ok [OF ok t me]
  have "spec_of ?e = spec_p (active_thread k) (spec_of q)"
    using t(1) e(2,3) itc_ok_empty [OF ok] by (cases "token q = 0") (simp_all add: spec_of_def)
  moreover have "itc_ok (block_self timeout (put_itc qid ?e k)) ?e"
    by (rule itc_ok_valid [OF e(1)]) simp
  ultimately show ?thesis
    using lock_begin_cases [OF q ok me, of timeout] False room t
    by (intro exI [of _ "Inr (in_idx ?e)"] exI [of _ "block_self timeout (put_itc qid ?e k)"] exI [of _ ?e]) simp
qed

section \<open>Giving a token\<close>

subsection \<open>In the order of arrival\<close>

lemma ring_pop:
  assumes ok: "ring_ok q" and n: "0 < ring_len q"
  shows "ring_ok (q\<lparr>out_idx := ring_inc (out_idx q), token := t\<rparr>)"
    and "waiting (q\<lparr>out_idx := ring_inc (out_idx q), token := t\<rparr>) = tl (waiting q)"
    and "blocked_procs q (out_idx q) = hd (waiting q)"
proof -
  let ?q = "q\<lparr>out_idx := ring_inc (out_idx q)\<rparr>"
  have ok': "ring_ok ?q" using ok by (simp add: ring_ok_def)
  then show "ring_ok (q\<lparr>out_idx := ring_inc (out_idx q), token := t\<rparr>)" by simp
  have len: "ring_len ?q = ring_len q - 1"
    using ok ok' n by (auto simp: ring_len_eq ring_ok_def ring_inc_eq split: if_splits)
  have pos: "ring_pos ?q i = ring_pos q (Suc i)" for i
    by (simp add: ring_pos_def ring_inc_def mod_add_left_eq)
  have "waiting ?q = tl (waiting q)"
    by (rule waiting_eqI) (simp_all add: len pos nth_tl nth_waiting)
  then show "waiting (q\<lparr>out_idx := ring_inc (out_idx q), token := t\<rparr>) = tl (waiting q)" by simp
  have "waiting q ! 0 = blocked_procs q (ring_pos q 0)" using n by (rule nth_waiting)
  then show "blocked_procs q (out_idx q) = hd (waiting q)"
    using ok n by (metis ring_pos_0 hd_conv_nth length_greater_0_conv length_waiting)
qed

text \<open>The position of the first blocked waiter, or of the last waiter.\<close>

fun first_blocked :: "('a \<Rightarrow> bool) \<Rightarrow> 'a list \<Rightarrow> nat" where
  "first_blocked P [] = 0"
| "first_blocked P (t # ts) = (if P t \<or> ts = [] then 0 else Suc (first_blocked P ts))"

lemma first_blocked_less: "ts \<noteq> [] \<Longrightarrow> first_blocked P ts < length ts"
  by (induction ts) auto

lemma first_blocked_hit: "\<exists>t \<in> set ts. P t \<Longrightarrow> P (ts ! first_blocked P ts) \<and> (\<forall>j < first_blocked P ts. \<not> P (ts ! j))"
proof (induction ts)
  case Nil
  then show ?case by simp
next
  case (Cons t ts)
  then show ?case by (auto simp: nth_Cons split: nat.split)
qed

lemma pop_waiter_spec:
  assumes "ring_ok q" "waiting q = map Some ts" "ts \<noteq> []" "token q = - int (length ts)"
  shows "\<exists>q'. pop_waiter k q = Inr (ts ! first_blocked (\<lambda>t. has_flag (state (pool k t)) QUEUE) ts, q') \<and>
    ring_ok q' \<and> ring_frame q q' \<and>
    waiting q' = map Some (drop (Suc (first_blocked (\<lambda>t. has_flag (state (pool k t)) QUEUE) ts)) ts) \<and>
    token q' = - int (length ts - Suc (first_blocked (\<lambda>t. has_flag (state (pool k t)) QUEUE) ts))"
  using assms
proof (induction ts arbitrary: q)
  case Nil
  then show ?case by simp
next
  case (Cons t ts)
  let ?P = "\<lambda>t. has_flag (state (pool k t)) QUEUE"
  let ?q = "q\<lparr>out_idx := ring_inc (out_idx q), token := token q + 1\<rparr>"
  have "length (waiting q) = Suc (length ts)" using Cons.prems(2) by simp
  then have n: "0 < ring_len q" by simp
  note p = ring_pop [OF Cons.prems(1) n]
  have hd: "blocked_procs q (out_idx q) = Some t" using p(3) Cons.prems(2) by simp
  have w: "waiting ?q = map Some ts" using p(2) Cons.prems(2) by simp
  have tok: "token ?q = - int (length ts)" using Cons.prems(4) by simp
  have "out_idx q < MAXB" using Cons.prems(1) by (simp add: ring_ok_def)
  then have run: "pop_waiter k q = (if \<not> ?P t \<and> token ?q < 0 then pop_waiter k ?q else Inr (t, ?q))"
    using hd by (subst pop_waiter.simps) (simp add: Let_def)
  have fr: "ring_frame q ?q" by (simp add: ring_frame_def)
  show ?case
  proof (cases "?P t \<or> ts = []")
    case True
    then have "pop_waiter k q = Inr (t, ?q)" using run tok by auto
    with True p(1) w tok fr show ?thesis by (intro exI [of _ ?q]) auto
  next
    case False
    then have "pop_waiter k q = pop_waiter k ?q" using run tok by auto
    moreover from Cons.IH [OF p(1) w _ tok] False obtain q' where
      "pop_waiter k ?q = Inr (ts ! first_blocked ?P ts, q')" "ring_ok q'" "ring_frame ?q q'"
      "waiting q' = map Some (drop (Suc (first_blocked ?P ts)) ts)"
      "token q' = - int (length ts - Suc (first_blocked ?P ts))" by blast
    moreover have "ring_frame q q'" using calculation(4) by (simp add: ring_frame_def)
    ultimately show ?thesis using False by (intro exI [of _ q']) simp
  qed
qed

text \<open>Waking a thread: it waits for nothing any more.\<close>

lemma wake_itc_same: "sched_same k (wake_itc t k)"
  unfolding wake_itc_def by (rule sched_same_upd_tcb) simp

lemma wake_itc_valid [simp]: "valid_tids (wake_itc t k) = valid_tids k"
  by (rule sched_same_valid_tids [OF wake_itc_same])

lemma wake_itc_itc [simp]: "itc_array (wake_itc t k) = itc_array k" "itc_idx (wake_itc t k) = itc_idx k"
  by (simp_all add: wake_itc_def)

lemma wake_itc_ready: "ready (wake_itc t k) t \<longleftrightarrow> state (pool k t) AND NOT STATE_QST = 0"
  by (simp add: ready_def wake_itc_def READY_def)

subsection \<open>By priority\<close>

lemma most_urgent_from:
  assumes "ring_ok q" "waiting q = map Some ts" "n = length ts"
    and "m < i" "i \<le> n" "\<forall>l < i. Prio (pool k (ts ! m)) \<le> Prio (pool k (ts ! l))"
    and "\<forall>l < m. Prio (pool k (ts ! m)) < Prio (pool k (ts ! l))"
  shows "\<exists>j < n. most_urgent k q (map (ring_pos q) [i..<n]) (Prio (pool k (ts ! m)), ring_pos q m) =
      Inr (Prio (pool k (ts ! j)), ring_pos q j) \<and>
    (\<forall>l < n. Prio (pool k (ts ! j)) \<le> Prio (pool k (ts ! l))) \<and>
    (\<forall>l < j. Prio (pool k (ts ! j)) < Prio (pool k (ts ! l)))"
  using assms
proof (induction "n - i" arbitrary: i m)
  case 0
  then show ?case by (intro exI [of _ m]) simp
next
  case (Suc d)
  then have i: "i < n" by simp
  have len: "ring_len q = n" using Suc.prems(2,3) by (metis length_map length_waiting)
  have b: "blocked_procs q (ring_pos q i) = Some (ts ! i)"
    using nth_waiting [of i q] i len Suc.prems(2,3) by simp
  let ?m = "if Prio (pool k (ts ! i)) < Prio (pool k (ts ! m)) then i else m"
  have step: "most_urgent k q (map (ring_pos q) [i..<n]) (Prio (pool k (ts ! m)), ring_pos q m) =
      most_urgent k q (map (ring_pos q) [Suc i..<n]) (Prio (pool k (ts ! ?m)), ring_pos q ?m)"
    using i b by (simp add: upt_conv_Cons)
  have "d = n - Suc i" using Suc.hyps(2) by simp
  moreover have "?m < Suc i" "Suc i \<le> n" using Suc.prems(4) i by auto
  moreover have "\<forall>l < Suc i. Prio (pool k (ts ! ?m)) \<le> Prio (pool k (ts ! l))"
    using Suc.prems(6) by (auto simp: less_Suc_eq)
  moreover have "\<forall>l < ?m. Prio (pool k (ts ! ?m)) < Prio (pool k (ts ! l))"
    using Suc.prems(6,7) by (auto intro: less_le_trans)
  ultimately show ?case unfolding step by (rule Suc.hyps(1) [OF _ Suc.prems(1-3)])
qed

lemma most_urgent_spec:
  assumes "ring_ok q" "waiting q = map Some ts" "ts \<noteq> []" "Prio (pool k (ts ! 0)) < b"
  shows "\<exists>j < length ts. most_urgent k q (map (ring_pos q) [0..<ring_len q]) (b, i0) =
      Inr (Prio (pool k (ts ! j)), ring_pos q j) \<and>
    (\<forall>l < length ts. Prio (pool k (ts ! j)) \<le> Prio (pool k (ts ! l))) \<and>
    (\<forall>l < j. Prio (pool k (ts ! j)) < Prio (pool k (ts ! l)))"
proof -
  have len: "ring_len q = length ts" using assms(2) by (metis length_map length_waiting)
  have n: "0 < length ts" using assms(3) by simp
  have "blocked_procs q (ring_pos q 0) = Some (ts ! 0)"
    using nth_waiting [of 0 q] n len assms(2) by simp
  then have "most_urgent k q (map (ring_pos q) [0..<ring_len q]) (b, i0) =
      most_urgent k q (map (ring_pos q) [1..<length ts]) (Prio (pool k (ts ! 0)), ring_pos q 0)"
    using n assms(4) by (simp add: len upt_conv_Cons)
  with most_urgent_from [OF assms(1,2) refl, of 0 1 k] n show ?thesis by simp
qed

lemma unlock_prior_spec:
  assumes ok: "itc_ok k q" and neg: "token q < 0" and pr: "\<forall>t \<in> valid_tids k. Prio (pool k t) < TK_MAX_PRIO_LEVELS"
  shows "\<exists>j q'. j < ring_len q \<and> unlock_prior qid q k =
      Inr (Some (put_itc qid q' (wake_itc (the (waiting q ! j)) k))) \<and>
    itc_ok k q' \<and> ring_frame q q' \<and> spec_of q' = spec_v j (spec_of q) \<and>
    (\<forall>l < ring_len q. Prio (pool k (the (waiting q ! j))) \<le> Prio (pool k (the (waiting q ! l)))) \<and>
    (\<forall>l < j. Prio (pool k (the (waiting q ! j))) < Prio (pool k (the (waiting q ! l))))"
proof -
  obtain ts where ts: "ts = map the (waiting q)" by blast
  note o = itc_okD [OF ok, folded ts]
  have ne: "ts \<noteq> []" using itc_ok_nonempty [OF ok neg] by (simp add: ts)
  have len: "ring_len q = length ts" using o(5) by simp
  have nth: "the (waiting q ! l) = ts ! l" if "l < ring_len q" for l using that by (simp add: ts)
  have "ts ! 0 \<in> valid_tids k" using o(4) ne by auto
  then have "Prio (pool k (ts ! 0)) < TK_MAX_PRIO_LEVELS + 2" using pr by (meson less_SucI trans_less_add1)
  from most_urgent_spec [OF o(1,2) ne this, of 0] obtain j where
    j: "j < length ts" "most_urgent k q (map (ring_pos q) [0..<ring_len q]) (TK_MAX_PRIO_LEVELS + 2, 0) =
      Inr (Prio (pool k (ts ! j)), ring_pos q j)"
    "\<forall>l < length ts. Prio (pool k (ts ! j)) \<le> Prio (pool k (ts ! l))"
    "\<forall>l < j. Prio (pool k (ts ! j)) < Prio (pool k (ts ! l))" by blast
  have jl: "j < ring_len q" using j(1) len by simp
  have "ts ! j \<in> valid_tids k" using o(4) j(1) by auto
  then have pj: "Prio (pool k (ts ! j)) \<noteq> TK_MAX_PRIO_LEVELS + 2" using pr by fastforce
  have b: "blocked_procs q (ring_pos q j) = Some (ts ! j)"
    using nth_waiting [OF jl] o(2) j(1) by simp
  have nq: "in_idx q \<noteq> out_idx q" using o(1) ne len by (auto simp: ring_len_eq)
  show ?thesis
  proof (rule removeBlocked_waiting [OF o(1) jl])
    fix q'
    assume q': "itc_removeBlocked q (ring_pos q j) = Inr q'" "ring_ok q'" "waiting q' = drop_nth j (waiting q)"
      "token q' = token q + 1" "ring_frame q q'"
    have run: "unlock_prior qid q k = Inr (Some (put_itc qid q' (wake_itc (ts ! j) k)))"
      using ring_walk_waiting [OF o(1)] nq j(2) pj b q'(1) by (simp add: unlock_prior_def)
    have "ring_len q' = ring_len q - 1" using q'(3) jl by (metis length_drop_nth length_waiting)
    then have ok': "itc_ok k q'"
      using ok q'(2-4) jl neg set_drop_nth_subset [of j "waiting q"] distinct_drop_nth [of "waiting q" j]
      by (auto simp: itc_ok_def of_nat_diff)
    have "spec_of q' = spec_waiters (map the (waiting q'))"
      by (rule spec_of_waiters [OF ok']) (use neg q'(4) in simp)
    also have "\<dots> = spec_v j (spec_of q)"
      using neg q'(3) by (simp add: spec_of_def drop_nth_def take_map drop_map)
    finally have "spec_of q' = spec_v j (spec_of q)" .
    with run ok' q'(5) j(3,4) jl len nth show ?thesis
      by (intro exI [of _ j] exI [of _ q']) simp
  qed
qed

lemma unlock_fifo_spec:
  assumes ok: "itc_ok k q" and neg: "token q < 0"
  shows "\<exists>j q'. j < ring_len q \<and> unlock_fifo qid q k =
      Inr (the (waiting q ! j), put_itc qid q' (wake_itc (the (waiting q ! j)) k)) \<and>
    itc_ok k q' \<and> token q' \<le> 0 \<and> ring_frame q q' \<and> map the (waiting q') = drop (Suc j) (map the (waiting q)) \<and>
    j = first_blocked (\<lambda>t. has_flag (state (pool k t)) QUEUE) (map the (waiting q))"
proof -
  obtain ts where ts: "ts = map the (waiting q)" by blast
  note o = itc_okD [OF ok, folded ts]
  have ne: "ts \<noteq> []" using itc_ok_nonempty [OF ok neg] by (simp add: ts)
  have len: "ring_len q = length ts" using o(5) by simp
  let ?j = "first_blocked (\<lambda>t. has_flag (state (pool k t)) QUEUE) ts"
  have j: "?j < length ts" by (rule first_blocked_less [OF ne])
  have tok: "token q = - int (length ts)" using ok neg len by (simp add: itc_ok_def)
  from pop_waiter_spec [OF o(1,2) ne tok] obtain q' where
    q': "pop_waiter k q = Inr (ts ! ?j, q')" "ring_ok q'" "ring_frame q q'"
      "waiting q' = map Some (drop (Suc ?j) ts)" "token q' = - int (length ts - Suc ?j)" by blast
  have l': "ring_len q' = length ts - Suc ?j" using q'(4) by (metis length_drop length_map length_waiting)
  have sub: "set (waiting q') \<subseteq> set (waiting q)" "distinct (waiting q')"
  proof -
    have w: "waiting q' = drop (Suc ?j) (waiting q)" unfolding q'(4) by (subst o(2)) (rule drop_map [symmetric])
    show "set (waiting q') \<subseteq> set (waiting q)" unfolding w by (rule set_drop_subset)
    show "distinct (waiting q')" unfolding w using ok by (simp add: itc_ok_def)
  qed
  have tq: "token q' \<le> 0" using q'(5) by simp
  have c: "int (ring_len q') = max 0 (- token q')" using l' q'(5) by simp
  have ok': "itc_ok k q'" using ok q'(2) c sub unfolding itc_ok_def by blast
  have jw: "?j < length (waiting q)" using j o(5) len by (metis length_waiting)
  have n: "the (waiting q ! ?j) = ts ! ?j" unfolding ts by (rule nth_map [symmetric, OF jw [unfolded ts]])
  have m: "map the (waiting q') = drop (Suc ?j) ts" unfolding q'(4) by (simp add: comp_def)
  have run: "unlock_fifo qid q k = Inr (the (waiting q ! ?j), put_itc qid q' (wake_itc (the (waiting q ! ?j)) k))"
    unfolding n using q'(1) by (simp add: unlock_fifo_def)
  show ?thesis
    by (rule exI [of _ ?j], rule exI [of _ q'])
      (use j len run ok' q'(3) tq m in \<open>simp only: ts simp_thms\<close>)
qed

end
