(* ===== verification/TkDemo.thy ===== *)
theory TkDemo
  imports TkSteps TkSem
begin

text \<open>
  Concrete kernels for the witnesses: \<open>kernel0\<close>, what \<^verbatim>\<open>tk_create_kernel\<close>
  makes of the zeroed globals; \<open>demo\<close>, the same with a third thread; and \<open>itc_demo\<close>,
  that kernel with a table of ITC objects.
\<close>

section \<open>A concrete kernel\<close>

definition blank_tcb :: tcb_t where
  "blank_tcb = \<lparr>Thid = 0, Gid = 0, noChilds = 0, tname = [], valid = False, state = READY,
     bOnId = \<lparr>kind = BON_SCHED, entity = Ent_null\<rparr>, t_errno = 0, stack_begin = 0, stack_size = 0,
     stack_crc = 0, wakeuptime = 0, wakeupEvent = E_NONE, retval = 0, Prio = 0, Idx = 0\<rparr>"

definition bss0 :: kern where
  "bss0 = \<lparr>threadPool = (\<lambda>_. blank_tcb), schedule = (\<lambda>_ _. 0),
     roundrobin_prio_idxs = (\<lambda>_. \<lparr>procs_at_prio = 0, curr_idx = 0\<rparr>), active_thread = 0, thread_to_run = 0,
     procs_in_use = 0, proc_idx = 0, idle_Thid = 0, IntFlagCntr = 0, npreempt = 0, inpreempt = 0,
     outpreempt = 0, preemptlist = (\<lambda>_. 0), clock_now = 0, live_stacks = {}\<rparr>"

definition nobody :: "'a others" where
  "nobody me k = Inr (k\<lparr>active_thread := me\<rparr>)"

definition kernel0 :: kern where
  "kernel0 = (case tk_create_kernel nobody (Some 4096) bss0 of Inr k \<Rightarrow> k | Inl _ \<Rightarrow> bss0)"

lemma bss0_bss: "bss bss0"
  by (simp add: bss_def bss0_def blank_tcb_def)

lemma kernel0_booted: "booted kernel0"
  by (rule create_kernel_booted [OF bss0_bss, of nobody 4096]) (simp add: kernel0_def)

lemma kernel0_facts [simp]:
  "kernel_ok {} kernel0" "sched_inv {} kernel0" "sys_ok ({}, kernel0)" "valid_tids kernel0 = {0, 1}"
  "active_thread kernel0 = 0" "IntFlagCntr kernel0 = 0" "npreempt kernel0 = 0" "procs_in_use kernel0 = 2"
  "idle_Thid kernel0 = 1" "state (pool kernel0 0) = READY" "state (pool kernel0 1) = READY"
  "Prio (pool kernel0 1) = 15" "Prio (pool kernel0 0) = 0" "reachable kernel0 ({}, kernel0)"
  using kernel0_booted booted_ok [OF kernel0_booted] booted_sys_ok [OF kernel0_booted]
  by (simp_all add: booted_def kernel_okD reachable_def TK_MAX_PRIO_LEVELS_def)

lemma kernel0_procs:
  "p < TK_MAX_PRIO_LEVELS \<Longrightarrow> procs kernel0 p = (if p = 0 \<or> p = 15 then 1 else 0)"
  using kernel0_booted by (simp add: booted_def TK_MAX_PRIO_LEVELS_def)

lemma kernel0_unstuck [simp]: "\<not> stuck_zombie kernel0"
  by (auto simp: stuck_zombie_def)

text \<open>
  The kernel after the root thread has created a thread 2 of priority 3, with the states of
  the root thread and of thread 2 and what the root thread waits for left open.
\<close>

definition demo :: "procstate \<Rightarrow> bon_t \<Rightarrow> procstate \<Rightarrow> thid_t \<Rightarrow> kern" where
  "demo s0 b0 s2 act = bss0\<lparr>
     threadPool := (\<lambda>t. if t = 0 then blank_tcb\<lparr>valid := True, state := s0, bOnId := b0, noChilds := 1\<rparr>
        else if t = 1 then blank_tcb\<lparr>Thid := 1, Gid := 1, valid := True, Prio := 15\<rparr>
        else if t = 2 then blank_tcb\<lparr>Thid := 2, Gid := 0, valid := True, state := s2, Prio := 3, retval := 7,
          stack_begin := 8192\<rparr>
        else blank_tcb),
     schedule := (\<lambda>p j. if p = 15 \<and> j = 0 then 1 else if p = 3 \<and> j = 0 then 2 else 0),
     roundrobin_prio_idxs := (\<lambda>p. \<lparr>procs_at_prio = (if p = 0 \<or> p = 3 \<or> p = 15 then 1 else 0), curr_idx = 0\<rparr>),
     active_thread := act, procs_in_use := 3, proc_idx := 2, idle_Thid := 1, live_stacks := {4096, 8192}\<rparr>"

lemma demo_sel [simp]:
  "pool (demo s0 b0 s2 act) 0 = blank_tcb\<lparr>valid := True, state := s0, bOnId := b0, noChilds := 1\<rparr>"
  "pool (demo s0 b0 s2 act) 1 = blank_tcb\<lparr>Thid := 1, Gid := 1, valid := True, Prio := 15\<rparr>"
  "pool (demo s0 b0 s2 act) 2 = blank_tcb\<lparr>Thid := 2, Gid := 0, valid := True, state := s2, Prio := 3,
     retval := 7, stack_begin := 8192\<rparr>"
  "active_thread (demo s0 b0 s2 act) = act" "IntFlagCntr (demo s0 b0 s2 act) = 0"
  "npreempt (demo s0 b0 s2 act) = 0" "idle_Thid (demo s0 b0 s2 act) = 1" "procs_in_use (demo s0 b0 s2 act) = 3"
  "roundrobin_prio_idxs (demo s0 b0 s2 act) p = \<lparr>procs_at_prio = (if p = 0 \<or> p = 3 \<or> p = 15 then 1 else 0), curr_idx = 0\<rparr>"
  "schedule (demo s0 b0 s2 act) p j = (if p = 15 \<and> j = 0 then 1 else if p = 3 \<and> j = 0 then 2 else 0)"
  by (simp_all add: demo_def bss0_def)

text \<open>What makes such a kernel correct, whatever further components it has.\<close>

definition demo_like :: "procstate \<Rightarrow> bon_t \<Rightarrow> procstate \<Rightarrow> 'a kern_scheme \<Rightarrow> bool" where
  "demo_like s0 b0 s2 k \<longleftrightarrow> pool k = pool (demo s0 b0 s2 0) \<and> schedule k = schedule (demo s0 b0 s2 0) \<and>
     roundrobin_prio_idxs k = roundrobin_prio_idxs (demo s0 b0 s2 0) \<and> idle_Thid k = 1 \<and> procs_in_use k = 3 \<and>
     live_stacks k = live_stacks (demo s0 b0 s2 0)"

lemma demo_likeD:
  assumes "demo_like s0 b0 s2 k"
  shows "pool k t = pool (demo s0 b0 s2 0) t" "idle_Thid k = 1" "procs_in_use k = 3"
    "roundrobin_prio_idxs k p = \<lparr>procs_at_prio = (if p = 0 \<or> p = 3 \<or> p = 15 then 1 else 0), curr_idx = 0\<rparr>"
    "schedule k p j = (if p = 15 \<and> j = 0 then 1 else if p = 3 \<and> j = 0 then 2 else 0)"
    "valid_tids k = {0, 1, 2}"
    "row k p = (if p = 0 then [0] else if p = 3 then [2] else if p = 15 then [1] else [])"
    "children k t = (if t = 0 then {2} else {})"
proof -
  show s: "pool k t = pool (demo s0 b0 s2 0) t" "idle_Thid k = 1" "procs_in_use k = 3"
    "roundrobin_prio_idxs k p = \<lparr>procs_at_prio = (if p = 0 \<or> p = 3 \<or> p = 15 then 1 else 0), curr_idx = 0\<rparr>"
    "schedule k p j = (if p = 15 \<and> j = 0 then 1 else if p = 3 \<and> j = 0 then 2 else 0)" for t p j
    using assms by (simp_all add: demo_like_def)
  show v: "valid_tids k = {0, 1, 2}"
    by (auto simp: valid_tids_def s(1) demo_def blank_tcb_def in_pool_def TK_MAX_THREADS_def bss0_def split: if_splits)
  show "row k p = (if p = 0 then [0] else if p = 3 then [2] else if p = 15 then [1] else [])"
    by (simp add: row_def s)
  show "children k t = (if t = 0 then {2} else {})"
    by (auto simp: children_def v s(1) blank_tcb_def)
qed

lemma demo_like_ok:
  assumes d: "demo_like s0 b0 s2 k" and z: "\<not> has_flag s0 ZOMBI"
  shows "kernel_ok {} k"
proof -
  note s = demo_likeD [OF d]
  have "row_ok {} k p" for p
    by (auto simp: row_ok_def entry_ok_def blank_tcb_def in_pool_def tuning_defs Let_def s)
  moreover have "thread_ok {} k t" if "t \<in> {0, 1, 2}" for t
    using that by (auto simp: thread_ok_def blank_tcb_def tuning_defs s)
  ultimately have "sched_inv {} k" by (simp add: sched_inv_def sched_ok_def s)
  moreover have "relative_ok k t" if "t \<in> {0, 1, 2}" for t
    using that z by (auto simp: relative_ok_def blank_tcb_def s)
  then have "family_inv k" by (simp add: family_inv_def s)
  ultimately show ?thesis using z by (simp add: kernel_ok_def kernel_inv_def s)
qed

lemma demo_like_unstuck:
  assumes "demo_like s0 b0 s2 k"
  shows "\<not> full_row p k" "\<not> stuck_zombie k"
  by (auto simp: stuck_zombie_def full_row_def tuning_defs demo_likeD [OF assms])

lemma demo_like_demo: "demo_like s0 b0 s2 (demo s0 b0 s2 act)"
  by (simp add: demo_like_def fun_eq_iff) (simp add: demo_def)

lemmas demo_valid [simp] = demo_likeD(6) [OF demo_like_demo]
lemmas demo_row [simp] = demo_likeD(7) [OF demo_like_demo]
lemmas demo_children = demo_likeD(8) [OF demo_like_demo]
lemmas demo_ok = demo_like_ok [OF demo_like_demo]
lemmas demo_unstuck [simp] = demo_like_unstuck [OF demo_like_demo]

section \<open>A kernel with ITC objects\<close>

definition itc_demo :: "procstate \<Rightarrow> procstate \<Rightarrow> thid_t \<Rightarrow> (nat \<Rightarrow> itc_t option) \<Rightarrow> nat \<Rightarrow> itc_kern" where
  "itc_demo s0 s2 act arr i =
     kern.extend (demo s0 \<lparr>kind = BON_SCHED, entity = Ent_null\<rparr> s2 act) (itc_kern.fields arr i)"

lemma itc_demo_sel [simp]:
  "pool (itc_demo s0 s2 act arr i) = pool (demo s0 \<lparr>kind = BON_SCHED, entity = Ent_null\<rparr> s2 act)"
  "active_thread (itc_demo s0 s2 act arr i) = act" "IntFlagCntr (itc_demo s0 s2 act arr i) = 0"
  "npreempt (itc_demo s0 s2 act arr i) = 0" "itc_array (itc_demo s0 s2 act arr i) = arr"
  "itc_idx (itc_demo s0 s2 act arr i) = i" "clock_now (itc_demo s0 s2 act arr i) = 0"
  by (simp_all add: itc_demo_def kern.extend_def itc_kern.fields_def)
    (simp_all add: demo_def bss0_def)

lemma demo_like_itc: "demo_like s0 \<lparr>kind = BON_SCHED, entity = Ent_null\<rparr> s2 (itc_demo s0 s2 act arr i)"
  by (simp add: demo_like_def itc_demo_def kern.extend_def) (simp add: demo_def)

lemmas itc_demo_valid [simp] = demo_likeD(6) [OF demo_like_itc]
lemmas itc_demo_ok = demo_like_ok [OF demo_like_itc]
lemmas itc_demo_unstuck [simp] = demo_like_unstuck [OF demo_like_itc]

text \<open>A semaphore, with nothing in its ring, and a queue of four messages.\<close>

definition blank_itc :: itc_t where
  "blank_itc = \<lparr>itc_name = [], token = 0, flags = FIFO, sizeof_q = 0, maxSizeof_m = 0, b_type = SEM,
     blocked_procs = (\<lambda>_. None), in_idx = 0, out_idx = 0, min_idx = 0, mout_idx = 0,
     m_q = (\<lambda>_. replicate 4 0), m_qv = (\<lambda>_. \<lparr>mb = Null, mlen = 0\<rparr>)\<rparr>"

lemma blank_itc_sel [simp]:
  "b_type blank_itc = SEM" "flags blank_itc = FIFO" "token blank_itc = 0" "sizeof_q blank_itc = 0"
  by (simp_all add: blank_itc_def)

lemma blank_itc_ok [simp]:
  "itc_ok k blank_itc" "waiting blank_itc = []"
  "waiting (blank_itc\<lparr>token := n\<rparr>) = []" "itc_ok k (blank_itc\<lparr>token := 1\<rparr>)"
  by (simp_all add: itc_ok_def ring_ok_def ring_len_def blank_itc_def waiting_def)

text \<open>A semaphore for which the threads \<open>ts\<close> wait.\<close>

definition held :: "thid_t list \<Rightarrow> itc_t" where
  "held ts = blank_itc\<lparr>token := - int (length ts), in_idx := length ts,
     blocked_procs := (\<lambda>i. if i < length ts then Some (ts ! i) else None)\<rparr>"

lemma held_sel [simp]:
  "b_type (held ts) = SEM" "flags (held ts) = FIFO" "token (held ts) = - int (length ts)" "sizeof_q (held ts) = 0"
  by (simp_all add: held_def)

lemma held_waiting [simp]:
  assumes "length ts < MAXB"
  shows "ring_len (held ts) = length ts" "waiting (held ts) = map Some ts"
proof -
  show l: "ring_len (held ts) = length ts" using assms by (simp add: ring_len_def held_def blank_itc_def)
  show "waiting (held ts) = map Some ts"
    by (rule waiting_eqI) (use assms in \<open>simp_all add: l ring_pos_def\<close>, simp add: held_def blank_itc_def)
qed

lemma held_ok: "length ts < MAXB \<Longrightarrow> distinct ts \<Longrightarrow> set ts \<subseteq> valid_tids k \<Longrightarrow> itc_ok k (held ts)"
  by (auto simp: itc_ok_def ring_ok_def distinct_map) (auto simp: held_def blank_itc_def)

text \<open>Queues of \<open>n\<close> messages, empty.\<close>

definition empty_queue :: "itc_set_t \<Rightarrow> nat \<Rightarrow> itc_t" where
  "empty_queue ty n = (q_init ty n blank_itc)\<lparr>maxSizeof_m := 64\<rparr>"

lemma empty_queue_sel [simp]:
  "b_type (empty_queue ty n) = ty" "sizeof_q (empty_queue ty n) = n" "token (empty_queue ty n) = 0"
  "min_idx (empty_queue ty n) = 0" "mout_idx (empty_queue ty n) = 0" "in_idx (empty_queue ty n) = 0"
  "out_idx (empty_queue ty n) = 0" "maxSizeof_m (empty_queue ty n) = 64" "mb (m_qv (empty_queue ty n) i) = Null"
  by (simp_all add: empty_queue_def q_init_def blank_itc_def)

end
