(* ===== verification/TkJoinDemo.thy ===== *)
theory TkJoinDemo
  imports TkJoin TkDemo
begin

text \<open>
  A concrete run of a join on the kernel \<open>demo\<close>: the root thread joins thread 2, thread 2
  returns 9, and the yield of the idle thread buries it and lets the root thread run again.
\<close>

section \<open>Switches of a small kernel\<close>

text \<open>The scan passes over a thread whose time has not come and which is no waiting zombie.\<close>

definition quiet :: "clock_t \<Rightarrow> kern \<Rightarrow> thid_t \<Rightarrow> bool" where
  "quiet now k u \<longleftrightarrow> (valid (pool k u) \<longrightarrow> \<not> (has_flag (state (pool k u)) SLEEP \<and> expired now (pool k u)) \<and>
     \<not> (has_flag (state (pool k u)) ZOMBI \<and> u \<noteq> active_thread k))"

lemma quiet_scan: "(\<And>u. u \<in> set js \<Longrightarrow> quiet now k u) \<Longrightarrow> foldR (wakeup_one now) js k = Inr k"
proof (induction js)
  case (Cons j js)
  have "wakeup_one now j k = Inr k"
    using Cons.prems [of j] by (auto simp: wakeup_one_def time_out_def reap_def quiet_def)
  with Cons show ?case by simp
qed simp

lemma quiet_switch:
  assumes "\<And>u. in_pool u \<Longrightarrow> quiet (clock_now k) k u"
    and "IntFlagCntr k = 0" "npreempt k = 0" "tk_next_runable_thread k = Inr t"
  shows "tk_yield_switch k = Inr (k\<lparr>thread_to_run := t, active_thread := t\<rparr>)"
  using quiet_scan [of tids "clock_now k" k] assms by (simp add: tk_wakeup_timedout_threads_def tk_yield_switch_def take_preempted_def dispatch_def)


text \<open>The next thread of a kernel with the threads of \<open>demo\<close>.\<close>

lemma three_next:
  assumes ok: "kernel_ok {} k" and v: "0 \<in> valid_tids k" "1 \<in> valid_tids k" "valid_tids k \<subseteq> {0, 1, 2}" "ready k 1" "idle_Thid k = 1"
    and p: "Prio (pool k 0) = 0" "Prio (pool k 1) = 15" "Prio (pool k 2) = 3"
  shows "tk_next_runable_thread k = Inr (if ready k 0 then 0 else if 2 \<in> valid_tids k \<and> ready k 2 then 2 else 1)"
proof -
  from next_runable_most_urgent [OF kernel_okD(2) [OF ok]] obtain t where t: "tk_next_runable_thread k = Inr t"
    "(t \<in> valid_tids k - {} \<and> ready k t) \<or> (t = idle_Thid k \<and> (\<forall>u \<in> valid_tids k - {}. \<not> ready k u))"
    "\<forall>u \<in> valid_tids k - {}. ready k u \<longrightarrow> Prio (pool k t) \<le> Prio (pool k u)" by blast
  have r: "t \<in> valid_tids k" "ready k t" using t(2) v by auto
  then consider "t = 0" | "t = 1" | "t = 2" "2 \<in> valid_tids k" using v(3) by auto
  then show ?thesis
    by cases (use r t(1,3) v p in auto)
qed

section \<open>The run\<close>

abbreviation (input) "on_two \<equiv> \<lparr>kind = BON_SCHED, entity = Ent_tcb 2\<rparr>"

definition join_run :: "nat \<Rightarrow> kern" where
  "join_run n =
    (if n = 0 then demo READY \<lparr>kind = BON_SCHED, entity = Ent_null\<rparr> READY 0
     else if n = 1 then demo TERM_T on_two READY 2\<lparr>thread_to_run := 2\<rparr>
     else upd_tcb 2 (\<lambda>c. c\<lparr>retval := 9, wakeuptime := 1000000\<rparr>) (demo TERM_T on_two (ZOMBI OR SLEEP) 1)\<lparr>thread_to_run := 1\<rparr>)"

lemma join_wait_run: "join_wait 2 (join_run 0) = demo TERM_T on_two READY 0"
  by (simp add: join_wait_def upd_tcb_def join_run_def demo_def bss0_def fun_eq_iff blank_tcb_def procstate_defs)

lemma switch_run0: "tk_yield_switch (join_wait 2 (join_run 0)) = Inr (join_run 1)"
proof -
  have "kernel_ok {} (demo TERM_T on_two READY 0)" by (rule demo_ok) simp
  from three_next [OF this] have "tk_next_runable_thread (demo TERM_T on_two READY 0) = Inr 2"
    by (simp add: ready_def blank_tcb_def procstate_defs)
  from quiet_switch [OF _ _ _ this] show ?thesis
    unfolding join_wait_run by (simp add: join_run_def)  (auto simp: quiet_def demo_def bss0_def blank_tcb_def procstate_defs has_flag_def)
qed

lemma die_run1: "sleep_until 1000 (TkThread.die 9 (join_run 1)) = 
  upd_tcb 2 (\<lambda>c. c\<lparr>retval := 9, wakeuptime := 1000000\<rparr>) (demo TERM_T on_two (ZOMBI OR SLEEP) 2)\<lparr>thread_to_run := 2\<rparr>"
proof -
  have "TkThread.die 9 (join_run 1) = upd_tcb 2 (\<lambda>c. c\<lparr>state := ZOMBI, retval := 9\<rparr>) (join_run 1)"
    unfolding die_def tk_detach_children_def by (subst fold_detach_none) (simp_all add: join_run_def blank_tcb_def)
  then show ?thesis by (simp add: sleep_until_def upd_tcb_def join_run_def demo_def bss0_def fun_eq_iff blank_tcb_def)
qed

lemma run0_ok: "sys_ok ({}, join_run 0)"
proof -
  have "kernel_ok {} (demo READY \<lparr>kind = BON_SCHED, entity = Ent_null\<rparr> READY 0)" by (rule demo_ok) simp
  then show ?thesis by (auto simp: sys_ok_def join_run_def ready_def blank_tcb_def)
qed

lemma run1_ok: "sys_ok ({}, join_run 1)"
  by (rule then_yield(1) [OF step_join_wait [OF run0_ok] switch_run0]) (simp add: join_run_def)

lemma switch_run1: "tk_yield_switch (sleep_until 1000 (TkThread.die 9 (join_run 1))) = Inr (join_run 2)"
proof -
  let ?k = "sleep_until 1000 (TkThread.die 9 (join_run 1))"
  have "sys_pre {} ?k"
    by (rule step_sleep [OF step_die [OF run1_ok]]) (simp_all add: die_def tk_detach_children_def fold_detach_none join_run_def blank_tcb_def)
  then have "kernel_ok {} ?k" by (simp add: sys_pre_def)
  moreover have "valid_tids ?k = valid_tids (demo TERM_T on_two (ZOMBI OR SLEEP) 2)"
    unfolding die_run1 by (auto simp: valid_tids_def blank_tcb_def)
  ultimately have "tk_next_runable_thread ?k = Inr 1"
    by (subst three_next) (unfold die_run1, simp_all add: ready_def blank_tcb_def procstate_defs)
  from quiet_switch [OF _ _ _ this] show ?thesis
    unfolding die_run1 by (simp add: join_run_def)  (auto simp: quiet_def demo_def bss0_def blank_tcb_def procstate_defs has_flag_def expired_def upd_tcb_def)
qed

lemma exit_step: "kcall (Exit 9) ({}, join_run 1) ({}, join_run 2)"
  by (rule kcall.exit) (use switch_run1 in \<open>simp_all add: join_run_def\<close>)


lemma run2_ok: "sys_ok ({}, join_run 2)" by (rule kcall_sys_ok [OF exit_step run1_ok])

lemma run2_valid: "valid_tids (join_run 2) = {0, 1, 2}"
proof -
  have "valid_tids (join_run 2) = valid_tids (demo TERM_T on_two (ZOMBI OR SLEEP) 1)"
    by (auto simp: join_run_def valid_tids_def blank_tcb_def)
  then show ?thesis by simp
qed

lemma switch_run2: "\<exists>k. tk_yield_switch (join_run 2) = Inr k \<and> active_thread k = 0"
proof -
  note ok = sys_okD(2) [OF run2_ok]
  have w: "pool (join_run 2) 2 = blank_tcb\<lparr>Thid := 2, valid := True, state := ZOMBI OR SLEEP, Prio := 3, retval := 9,
     stack_begin := 8192, wakeuptime := 1000000\<rparr>" "active_thread (join_run 2) = 1" "IntFlagCntr (join_run 2) = 0"
     "npreempt (join_run 2) = 0" "clock_now (join_run 2) = 0"
     "pool (join_run 2) 0 = blank_tcb\<lparr>valid := True, state := TERM_T, bOnId := on_two, noChilds := 1\<rparr>"
     "pool (join_run 2) 1 = blank_tcb\<lparr>Thid := 1, Gid := 1, valid := True, Prio := 15\<rparr>" "idle_Thid (join_run 2) = 1"
    by (simp_all add: join_run_def) (simp_all add: demo_def bss0_def blank_tcb_def)
  have z: "has_flag (state (pool (join_run 2) 2)) ZOMBI" by (simp add: w has_flag_or)
  have pw: "parent_waits_for 2 (join_run 2)" by (simp add: parent_waits_for_def w blank_tcb_def)
  have nf: "\<not> full_row 3 (join_run 2)" using demo_unstuck(1) [of 3 TERM_T on_two "ZOMBI OR SLEEP" 1] by (simp add: full_row_def join_run_def)
  have two: "2 \<in> valid_tids (join_run 2)" "2 \<noteq> active_thread (join_run 2)" by (simp_all add: run2_valid w)
  from lay_to_rest_ok [OF ok two(1) z] nf obtain k1 where
    k1: "lay_to_rest 2 (join_run 2) = Inr k1" "laid_to_rest {} 2 (join_run 2) k1" by (auto simp: w blank_tcb_def)
  then have r: "reap 2 (join_run 2) = Inr k1" using reap_lay [OF ok two(1) z two(2)] by simp
  have v: "valid_tids k1 = {0, 1}" "kernel_ok {} k1" "delivered 9 (pool k1 0)" "ctl_same (join_run 2) k1"
    using k1(2) pw run2_valid by (auto simp: laid_to_rest_def w blank_tcb_def)
  have "joining 0 2 9 (join_run 2)"
    by (simp add: joining_def waits_for_def run2_valid w blank_tcb_def)
  from joining_reap [OF this ok two(1) r] v(3) have "told 0 9 k1" by (auto simp: joining_def waits_for_def delivered_def)
  then have r0: "ready k1 0" by (simp add: told_def ready_def)
  have r1: "ready k1 1" "Prio (pool k1 u) = Prio (pool (join_run 2) u)" for u
    using k1(2) by (simp_all add: laid_to_rest_def ready_def w blank_tcb_def)
  have scan: "tk_wakeup_timedout_threads (join_run 2) = Inr k1"
  proof -
    have one: "wakeup_one 0 2 (join_run 2) = Inr k1"
      using r by (simp add: wakeup_one_def time_out_def w blank_tcb_def expired_def)
    have "quiet 0 k1 u" if "u \<in> {3, 4, 5, 6, 7, 8, 9}" for u
    proof -
      have "u \<notin> valid_tids k1" "in_pool u" using that v(1) by (auto simp: in_pool_def TK_MAX_THREADS_def)
      then show ?thesis by (simp add: quiet_def valid_tids_def)
    qed
    then have f1: "foldR (wakeup_one 0) [3, 4, 5, 6, 7, 8, 9] k1 = Inr k1" by (intro quiet_scan) simp
    have f2: "foldR (wakeup_one 0) [0, 1] (join_run 2) = Inr (join_run 2)"
      by (rule quiet_scan) (auto simp: quiet_def w blank_tcb_def procstate_defs has_flag_def)
    have t: "tids = [0, 1] @ 2 # [3, 4, 5, 6, 7, 8, 9]" by (simp add: tids_def TK_MAX_THREADS_def upt_rec)
    show ?thesis
      unfolding tk_wakeup_timedout_threads_def w t foldR_append f2 andThen_Inr foldR.simps(2) [of _ 2] one by (rule f1)
  qed
  have c: "npreempt k1 = 0" "idle_Thid k1 = 1" using v(4) by (simp_all add: ctl_same_def w)
  have "tk_next_runable_thread k1 = Inr 0"
    using three_next [OF v(2)] v(1) r0 r1 c by (simp add: w blank_tcb_def)
  then show ?thesis using scan c by (simp add: tk_yield_switch_def take_preempted_def dispatch_def w)
qed

lemma run2_facts:
  "has_flag (state (pool (join_run 2) 2)) ZOMBI" "active_thread (join_run 2) = 1" "npreempt (join_run 2) = 0" "\<not> stuck_zombie (join_run 2)"
  by (auto simp: join_run_def stuck_zombie_def full_row_def has_flag_or tuning_defs)

lemma join_run_calls:
  obtains k where "(other_call 0 2 9)\<^sup>*\<^sup>* ({}, join_run 1) ({}, join_run 2)"
    "(other_call 0 2 9)\<^sup>*\<^sup>* ({}, join_run 1) ({}, k)" "active_thread k = 0"
proof -
  from switch_run2 obtain k where k: "tk_yield_switch (join_run 2) = Inr k" "active_thread k = 0" by blast
  have e: "other_call 0 2 9 ({}, join_run 1) ({}, join_run 2)"
    using exit_step by (auto simp: other_call_def join_run_def)
  have "kcall Yield ({}, join_run 2) ({}, k)" by (rule kcall.yield [OF k(1)])
  then have y: "other_call 0 2 9 ({}, join_run 2) ({}, k)" by (auto simp: other_call_def join_run_def)
  show ?thesis
    by (rule that [OF r_into_rtranclp [of "other_call 0 2 9"] _ k(2)]) (use e y in auto)
qed

end
