(* ===== verification/TkKernelProps.thy ===== *)
theory TkKernelProps
  imports TkJoinDemo
begin

text \<open>
  The properties of the kernel core (\<^verbatim>\<open>tk.c\<close> and \<^verbatim>\<open>tk_switch.c\<close>), each with a
  witness on a concrete kernel of \<open>TkDemo\<close>.
\<close>

section \<open>Scheduling\<close>

text \<open>
  C1. In every state that an interleaving of the threads' calls of \<^verbatim>\<open>tk.c\<close> reaches from a
  booted kernel, as long as each call returns and the application keeps to the four rules of
  \<open>TkSteps\<close> (above all, no creation begins while another is under way), the schedule and the
  family tree are in order: no row is overfilled, each row lists, once each, exactly the valid
  threads of its priority, every thread but the one under creation is in its row, the thread
  count is right, parents are alive and count at least their children, and a scheduled living
  thread runs. Rows may be full.
\<close>

theorem reachable_kernel_ok:
  assumes "booted k" "reachable k (X, k')"
  shows "kernel_ok X k' \<and> active_thread k' \<in> valid_tids k' - X \<and>
    procs_in_use k' = int (card (valid_tids k')) \<and>
    (\<forall>p < TK_MAX_PRIO_LEVELS. procs k' p \<le> TK_MAX_THREADS_AT_PRIO \<and> distinct (row k' p) \<and>
       set (row k' p) = {t \<in> valid_tids k' - X. Prio (pool k' t) = p})"
proof -
  have s: "sys_ok (X, k')" by (rule reachable_sys_ok [OF assms])
  note ok = sys_okD(2) [OF s]
  have "procs k' p \<le> TK_MAX_THREADS_AT_PRIO \<and> distinct (row k' p) \<and>
      set (row k' p) = {t \<in> valid_tids k' - X. Prio (pool k' t) = p}" if p: "p < TK_MAX_PRIO_LEVELS" for p
    using sched_ok_row [OF kernel_okD(3) [OF ok] p] row_valid [OF kernel_okD(3) [OF ok] p]
      kernel_okD(3) [OF ok] by (auto simp: row_ok_def sched_ok_def thread_ok_def)
  with ok sys_okD(3,4) [OF s] kernel_okD(2) [OF ok] show ?thesis by (simp add: sched_inv_def)
qed

theorem reachable_kernel_ok_witness:
  "kernel_ok {} kernel0 \<and> active_thread kernel0 \<in> valid_tids kernel0 - {} \<and>
    procs_in_use kernel0 = int (card (valid_tids kernel0)) \<and> set (row kernel0 15) = {1}"
proof -
  have "{t. (t = 0 \<or> t = 1) \<and> Prio (pool kernel0 t) = 15} = {1}" by auto
  then show ?thesis
    using reachable_kernel_ok [OF kernel0_booted, of "{}" kernel0] by (simp add: TK_MAX_PRIO_LEVELS_def)
qed

text \<open>
  C2. What happens in every such state when the running thread yields. Either the call reads the
  schedule behind a row, and this only when a zombie is in a full row, which it cannot be taken out
  of; or it returns: no assertion of the dispatcher fails, no other table is read outside its
  bounds, the thread that gets the processor is ready and no ready thread is more urgent.
\<close>

theorem reachable_yield:
  assumes "booted k" "reachable k (X, k')"
  shows "(tk_yield_switch k' = Inl Out_of_bounds \<and>
      (\<exists>t \<in> valid_tids k'. has_flag (state (pool k' t)) ZOMBI \<and> procs k' (Prio (pool k' t)) = TK_MAX_THREADS_AT_PRIO)) \<or>
    (\<exists>k''. tk_yield_switch k' = Inr k'' \<and> reachable k (X, k'') \<and>
      active_thread k'' \<in> valid_tids k'' - X \<and> state (pool k'' (active_thread k'')) = READY \<and>
      (\<forall>u \<in> valid_tids k'' - X. state (pool k'' u) = READY \<longrightarrow> Prio (pool k'' (active_thread k'')) \<le> Prio (pool k'' u)))"
proof -
  have s: "sys_ok (X, k')" by (rule reachable_sys_ok [OF assms])
  then have h: "kernel_ok X k'" "IntFlagCntr k' = 0" "npreempt k' < 2" by (simp_all add: sys_ok_def)
  from yield_step [OF sys_okD(1) [OF s]]
  consider "tk_yield_switch k' = Inl Out_of_bounds" "stuck_zombie k'"
    | k'' where "tk_yield_switch k' = Inr k''" "sys_ok (X, k'')" "ready k'' (active_thread k'')" by blast
  then show ?thesis
  proof cases
    case 1
    then show ?thesis using stuck_zombie_full [OF h(1)] by blast
  next
    case (2 k'')
    have "switched X k''" by (rule yield_switch_ok [OF h]) (use 2(1) in simp_all)
    moreover have "reachable k (X, k'')"
      using assms(2) kcall.yield [OF 2(1), of X] unfolding reachable_def by (blast intro: rtranclp.rtrancl_into_rtrancl kstepI)
    ultimately show ?thesis using 2 sys_okD(3,4) [OF 2(2)] by (auto simp: switched_def ready_def)
  qed
qed

theorem reachable_yield_witness:
  "\<exists>k''. tk_yield_switch kernel0 = Inr k'' \<and> reachable kernel0 ({}, k'') \<and>
    active_thread k'' \<in> valid_tids k'' \<and> state (pool k'' (active_thread k'')) = READY"
proof -
  have "procs kernel0 (Prio (pool kernel0 t)) \<noteq> TK_MAX_THREADS_AT_PRIO" if "t \<in> {0, 1}" for t
    using that kernel0_procs [of 0] kernel0_procs [of 15] by (auto simp: tuning_defs)
  then show ?thesis using reachable_yield [OF kernel0_booted, of "{}" kernel0] by auto
qed

text \<open>
  C3. \<^verbatim>\<open>_tk_next_runable_thread\<close> returns, without tripping its assertions, the first
  ready thread of the rows taken in the order of the priorities, or the idle thread: within a
  priority the longest-standing ready thread is always chosen (there is no rotation).
\<close>

theorem next_runable_is_first_ready:
  assumes "sched_inv {} k"
  shows "tk_next_runable_thread k = Inr
    (case find (\<lambda>t. state (pool k t) = READY) (concat (map (row k) [0..<TK_MAX_PRIO_LEVELS])) of
       Some t \<Rightarrow> t | None \<Rightarrow> idle_Thid k)"
  using next_runable_find [OF assms] by (simp add: rows_from_def ready_def [abs_def])

theorem next_runable_is_first_ready_witness:
  "tk_next_runable_thread kernel0 = Inr
    (case find (\<lambda>t. state (pool kernel0 t) = READY) (concat (map (row kernel0) [0..<TK_MAX_PRIO_LEVELS])) of
       Some t \<Rightarrow> t | None \<Rightarrow> idle_Thid kernel0)"
  by (rule next_runable_is_first_ready) simp

text \<open>
  C4. The wake-up scan wakes exactly the sleeping threads whose deadline the clock has reached
  (and no thread at all while a preemption is pending), and takes out of the pool only zombies
  that are not running; it returns unless a zombie is in a full row.
\<close>

theorem wakeup_scan_exact:
  assumes "kernel_ok {} k" "\<not> stuck_zombie k"
  shows "\<exists>k'. tk_wakeup_timedout_threads k = Inr k' \<and> kernel_ok {} k' \<and>
    (\<forall>u \<in> valid_tids k'. has_flag (state (pool k' u)) SLEEP \<longleftrightarrow>
       has_flag (state (pool k u)) SLEEP \<and> (npreempt k > 0 \<or> \<not> expired (clock_now k) (pool k u))) \<and>
    valid_tids k' \<subseteq> valid_tids k \<and>
    (\<forall>u \<in> valid_tids k - valid_tids k'. has_flag (state (pool k u)) ZOMBI \<and> u \<noteq> active_thread k)"
proof (rule wakeup_ok [OF assms(1)])
  assume "stuck_zombie k"
  with assms(2) show ?thesis by simp
next
  fix k'
  assume "tk_wakeup_timedout_threads k = Inr k'"
    "woken_rel {} (clock_now k) (if npreempt k > 0 then {} else {t. in_pool t}) k k'"
  then show ?thesis
    by (intro exI [of _ k']) (auto simp: woken_rel_def valid_tids_def)
qed

theorem wakeup_scan_exact_witness:
  "\<exists>k'. tk_wakeup_timedout_threads (demo READY \<lparr>kind = BON_SCHED, entity = Ent_null\<rparr> SLEEP 0) = Inr k' \<and>
    kernel_ok {} k' \<and> valid_tids k' = {0, 1, 2} \<and> \<not> has_flag (state (pool k' 2)) SLEEP"
proof -
  let ?k = "demo READY \<lparr>kind = BON_SCHED, entity = Ent_null\<rparr> SLEEP 0"
  have "kernel_ok {} ?k" by (rule demo_ok) simp
  from wakeup_scan_exact [OF this demo_unstuck(2)] obtain k' where
    k': "tk_wakeup_timedout_threads ?k = Inr k'" "kernel_ok {} k'" "valid_tids k' \<subseteq> {0, 1, 2}"
      "\<And>u. u \<in> valid_tids k' \<Longrightarrow> has_flag (state (pool k' u)) SLEEP \<Longrightarrow> \<not> expired (clock_now ?k) (pool ?k u)"
      "\<And>u. u \<in> {0, 1, 2} - valid_tids k' \<Longrightarrow> has_flag (state (pool ?k u)) ZOMBI"
    by auto
  have nz: "\<not> has_flag (state (pool ?k u)) ZOMBI" if "u \<in> {0, 1, 2}" for u
    using that by (auto simp: blank_tcb_def)
  have "{0, 1, 2} \<subseteq> valid_tids k'" using k'(5) nz by blast
  with k'(3) have v: "valid_tids k' = {0, 1, 2}" by blast
  moreover have "2 \<in> valid_tids k'" by (simp add: v)
  moreover have "expired (clock_now ?k) (pool ?k 2)" by (simp add: demo_def bss0_def blank_tcb_def expired_def)
  ultimately show ?thesis using k'(1,2,4) by blast
qed

text \<open>
  C9. A thread that sleeps for \<open>ms\<close> milliseconds is due after \<open>ms * 1000 mod 2 ^ 32\<close> microseconds,
  the product wrapped: if that is at most \<open>2 ^ 31\<close>, it is due at a clock value \<open>e < 2 ^ 31\<close> microseconds
  later exactly when \<open>e\<close> has passed it; if it is more, the thread is due at once. So the sleep is as
  long as requested up to about 35 minutes, over at once between that and about 71 minutes, and for
  longer requests what is left of them modulo about 71 minutes decides.
\<close>

theorem sleep_deadline:
  "let c = pool (sleep_until ms k) (active_thread k); d = uint ms * 1000 mod 2 ^ 32 in
    has_flag (state c) SLEEP \<and> uint (wakeuptime c) = (uint (clock_now k) + uint ms * 1000) mod 2 ^ 32 \<and>
    (if d \<le> 2 ^ 31 then \<forall>e. uint e < 2 ^ 31 \<longrightarrow> (expired (clock_now k + e) c \<longleftrightarrow> d \<le> uint e)
     else expired (clock_now k) c)"
proof -
  obtain c where c: "c = pool (sleep_until ms k) (active_thread k)" by blast
  let ?d = "uint ms * 1000 mod 2 ^ 32"
  have f: "has_flag (state c) SLEEP" "wakeuptime c = clock_now k + ms * 1000"
    by (simp_all add: c sleep_until_def)
  have m: "uint (ms * 1000) = ?d" by (simp add: uint_word_ariths)
  have w: "uint (wakeuptime c) = (uint (clock_now k) + uint ms * 1000) mod 2 ^ 32"
    unfolding f(2) by (simp add: uint_word_ariths mod_add_right_eq)
  have near: "expired (clock_now k + e) c \<longleftrightarrow> ?d \<le> uint e" if h: "?d \<le> 2 ^ 31" "uint e < 2 ^ 31" for e
  proof -
    have b: "0 \<le> uint e" "0 \<le> ?d" "?d \<le> 2147483648" "uint e < 2147483648" using h by simp_all
    have t: "wakeuptime c = (clock_now k + e) + (ms * 1000 - e)" by (simp add: f(2))
    have u: "uint (ms * 1000 - e) = (?d - uint e) mod 4294967296"
      using uint_word_ariths(2) [of "ms * 1000" e] by (simp add: m)
    have "(D - uint e) mod 4294967296 = (if uint e \<le> D then D - uint e else D - uint e + 4294967296)"
      if D: "0 \<le> D" "D \<le> 2147483648" for D
    proof (cases "uint e \<le> D")
      case True
      moreover have "(D - uint e) mod 4294967296 = D - uint e"
        by (rule mod_pos_pos_trivial) (use True D b(1) in linarith)+
      ultimately show ?thesis by simp
    next
      case False
      with b D have "(D - uint e + 4294967296) mod 4294967296 = D - uint e + 4294967296"
        by (intro mod_pos_pos_trivial) linarith+
      with False show ?thesis by simp
    qed
    from this [OF b(2,3)] have v: "uint (ms * 1000 - e) = (if uint e \<le> ?d then ?d - uint e else ?d - uint e + 4294967296)"
      using u by simp
    have x: "expired (clock_now k + e) c \<longleftrightarrow> uint (ms * 1000 - e) = 0 \<or> 2147483648 < uint (ms * 1000 - e)"
      unfolding expired_after [OF t] by (simp add: uint_0_iff)
    show ?thesis
    proof (cases "uint e \<le> ?d")
      case True
      with v have "uint (ms * 1000 - e) = ?d - uint e" by (simp only: if_True)
      with x b True show ?thesis by linarith
    next
      case False
      with v have "uint (ms * 1000 - e) = ?d - uint e + 4294967296" by (simp only: if_False)
      with x b False show ?thesis by linarith
    qed
  qed
  have far: "expired (clock_now k) c" if "\<not> ?d \<le> 2 ^ 31"
    using that unfolding expired_after [OF f(2)] m by simp
  show ?thesis unfolding Let_def c [symmetric] using f(1) w near far by simp
qed

theorem sleep_deadline_witness:
  "has_flag (state (pool (sleep_until 20 kernel0) 0)) SLEEP \<and>
    expired (clock_now kernel0 + 25000) (pool (sleep_until 20 kernel0) 0) \<and>
    \<not> expired (clock_now kernel0 + 15000) (pool (sleep_until 20 kernel0) 0) \<and>
    expired (clock_now kernel0) (pool (sleep_until 3000000 kernel0) 0) \<and>
    \<not> expired (clock_now kernel0 + 705000000) (pool (sleep_until 5000000 kernel0) 0) \<and>
    expired (clock_now kernel0 + 705032704) (pool (sleep_until 5000000 kernel0) 0)"
  using sleep_deadline [of 20 kernel0] sleep_deadline [of 3000000 kernel0] sleep_deadline [of 5000000 kernel0]
  by (simp add: Let_def)

section \<open>Threads coming and going\<close>

text \<open>
  From zeroed globals \<^verbatim>\<open>tk_create_kernel\<close> succeeds, whatever its allocator returned
  for the idle thread's stack, and leaves the root thread running at priority 0 and a ready idle
  thread, its own parent, at the lowest priority.
\<close>

theorem create_kernel_succeeds:
  assumes "bss k"
  shows "\<exists>k'. tk_create_kernel oth (Some a) k = Inr k' \<and> kernel_ok {} k' \<and> valid_tids k' = {0, 1} \<and>
    active_thread k' = 0 \<and> idle_Thid k' = 1 \<and> row k' 0 = [0] \<and> row k' (TK_MAX_PRIO_LEVELS - 1) = [1] \<and>
    noChilds (pool k' 0) = 0 \<and> Gid (pool k' 1) = 1"
proof (rule create_kernel_booted [OF assms])
  fix k'
  assume k': "tk_create_kernel oth (Some a) k = Inr k'" "booted k'"
  note b = booted_ok [OF k'(2)]
  have l: "TK_MAX_PRIO_LEVELS - 1 < TK_MAX_PRIO_LEVELS" "TK_MAX_PRIO_LEVELS - 1 \<noteq> 0" by (simp_all add: tuning_defs)
  have "row k' 0 = [0]" "row k' (TK_MAX_PRIO_LEVELS - 1) = [1]"
    using b(3) [of 0] b(3) [of "TK_MAX_PRIO_LEVELS - 1"] l by simp_all
  moreover have "active_thread k' = 0" "idle_Thid k' = 1" "noChilds (pool k' 0) = 0" "Gid (pool k' 1) = 1"
    using k'(2) unfolding booted_def by blast+
  ultimately show ?thesis using k'(1) b(1,2) by blast
qed

theorem create_kernel_succeeds_witness:
  "\<exists>k'. tk_create_kernel nobody (Some 4096) bss0 = Inr k' \<and> kernel_ok {} k' \<and> valid_tids k' = {0, 1} \<and>
    active_thread k' = 0 \<and> idle_Thid k' = 1 \<and> row k' 0 = [0] \<and> row k' (TK_MAX_PRIO_LEVELS - 1) = [1] \<and>
    noChilds (pool k' 0) = 0 \<and> Gid (pool k' 1) = 1"
  by (rule create_kernel_succeeds) (rule bss0_bss)

text \<open>
  C5. Creating a thread with a priority whose row is not full, a free control block, a short name and a
  stack succeeds, when no zombie is in a full row: a new thread of that priority enters its row at the end and the kernel stays
  in order, provided that the threads that run meanwhile leave the creation undisturbed
  (\<open>creating\<close>; in particular none of them creates a thread, because the code reads
  \<^verbatim>\<open>__tk_proc_idx\<close> again after the context switch).
\<close>

theorem create_thread_succeeds:
  assumes "kernel_ok {} k" "may_parent k" "may_spawn prio name k" "IntFlagCntr k = 0" "npreempt k < 2" "\<not> stuck_zombie k"
    and "\<And>t k1. creating t prio k1 \<Longrightarrow> \<exists>k2. oth (active_thread k) k1 = Inr k2 \<and> creating t prio k2"
  shows "\<exists>t k'. tk_create_thread oth (Some a) name prio inpar sz k = Inr (t, k') \<and> kernel_ok {} k' \<and>
    t \<notin> valid_tids k \<and> t \<in> valid_tids k' \<and> Prio (pool k' t) = prio \<and> last (row k' prio) = t"
  by (rule create_thread_ok [OF assms(1-6)]) (rule assms(7))

theorem create_thread_succeeds_witness:
  "\<exists>t k'. tk_create_thread nobody (Some 8192) ''task'' 3 7 768 kernel0 = Inr (t, k') \<and> kernel_ok {} k' \<and>
    t \<notin> valid_tids kernel0 \<and> t \<in> valid_tids k' \<and> Prio (pool k' t) = 3 \<and> last (row k' 3) = t"
proof (rule create_thread_succeeds)
  show "may_parent kernel0" by (simp add: may_parent_def)
  show "may_spawn 3 ''task'' kernel0"
    using kernel0_procs [of 3] by (simp add: may_spawn_def full_row_def tuning_defs)
  show "\<exists>k2. nobody (active_thread kernel0) k1 = Inr k2 \<and> creating t 3 k2" if "creating t 3 k1" for t k1
    using that by (simp add: nobody_def creating_active)
qed simp_all

text \<open>
  \<^verbatim>\<open>tk_create_thread\<close> exits with a trap code, before it changes anything, when the
  pool or the row is full, and when the name is too long or there is no memory for the stack.
\<close>

theorem create_thread_exits:
  assumes "kernel_ok {} k" "prio < TK_MAX_PRIO_LEVELS"
  shows "(procs_in_use k \<ge> int TK_MAX_THREADS \<or> procs k prio \<ge> TK_MAX_THREADS_AT_PRIO \<longrightarrow>
       (\<exists>c. tk_create_thread oth stk name prio inpar sz k = Inl (Tk_exit c) \<and> c AND TC_ISA_ERR \<noteq> 0)) \<and>
    (procs_in_use k < int TK_MAX_THREADS \<and> procs k prio < TK_MAX_THREADS_AT_PRIO \<longrightarrow>
       (\<not> length name < TK_THREAD_NAME_LEN \<longrightarrow>
          tk_create_thread oth stk name prio inpar sz k = Inl (Tk_exit TC_NAME_LEN)) \<and>
       (length name < TK_THREAD_NAME_LEN \<longrightarrow>
          tk_create_thread oth None name prio inpar sz k = Inl (Tk_exit TC_NOMEM)))"
proof -
  have "create_error prio k AND TC_ISA_ERR \<noteq> 0"
    if "procs_in_use k \<ge> int TK_MAX_THREADS \<or> procs k prio \<ge> TK_MAX_THREADS_AT_PRIO"
    using that assms(2) by (auto simp: create_error_def trap_defs)
  moreover have "create_error prio k AND TC_ISA_ERR \<noteq> 0 \<Longrightarrow> create_error prio k \<noteq> 0" by auto
  moreover have e: "create_error prio k = 0" if "procs_in_use k < int TK_MAX_THREADS" "procs k prio < TK_MAX_THREADS_AT_PRIO"
    using that assms(2) by (simp add: create_error_def)
  moreover obtain t where "next_free TK_MAX_THREADS k (proc_idx k) = Inr t"
    if "procs_in_use k < int TK_MAX_THREADS"
    using next_free_found [of k "proc_idx k"] kernel_okD(2) [OF assms(1)] by (auto simp: sched_inv_def)
  ultimately show ?thesis
    using assms(2) by (auto simp: tk_create_thread_def tk_spawn_def Let_def)
qed

theorem create_thread_exits_witness:
  "tk_create_thread nobody None ''task'' 3 7 768 kernel0 = Inl (Tk_exit TC_NOMEM)"
  using create_thread_exits [of kernel0 3 nobody None "''task''" 7 768] kernel0_procs [of 3]
  by (simp add: tuning_defs)

text \<open>
  C7. A thread that calls \<^verbatim>\<open>tk_join\<close> for a living child gets the value the child
  returns. It stops running; the other threads then make any sequence of the calls of
  \<open>TkSteps\<close>, as long as none deletes the caller or the child, and the child, if it returns,
  returns \<open>rv\<close>. Whenever control comes back to the caller, \<^verbatim>\<open>tk_join\<close> has found the event
  it asserts, and returns 0 and \<open>rv\<close> (stored by the child's destructor, copied by
  \<^verbatim>\<open>_tk_try_detach_parent\<close> when the child is reaped, read after the yield). And once the child
  has returned and does not run any more, the next yield makes the caller ready, unless a
  preemption is pending, which skips the scan, or a zombie lies in a full row. The kernel is in any
  state that satisfies the invariant of C1.
\<close>

theorem join_receives_value:
  assumes "sys_ok (X, k)" "active_thread k \<noteq> idle_Thid k" "ready k (active_thread k)"
    and "c \<in> valid_tids k" "c \<noteq> active_thread k" "Gid (pool k c) = active_thread k" "\<not> has_flag (state (pool k c)) ZOMBI"
    and "tk_yield_switch (TkThread.join_wait c k) = Inr k1" "(other_call (active_thread k) c rv)\<^sup>*\<^sup>* (X, k1) (Y, k2)"
  shows "(active_thread k2 = active_thread k \<and> oth (active_thread k) k1 = Inr k2 \<longrightarrow> tk_join oth c k = Inr (Rc_ok, Some rv, k2)) \<and>
    (has_flag (state (pool k2 c)) ZOMBI \<and> active_thread k2 \<noteq> c \<and> npreempt k2 = 0 \<and> \<not> stuck_zombie k2 \<longrightarrow>
      (\<exists>k3. tk_yield_switch k2 = Inr k3 \<and> ready k3 (active_thread k)))"
proof (intro conjI impI)
  let ?p = "active_thread k" and ?k = "TkThread.join_wait c k"
  note pre = step_join_wait [OF assms(1,2), of c]
  have "joining ?p c rv ?k"
    using assms(3-7) sys_okD(3) [OF assms(1)]
    by (auto simp: joining_def waits_for_def join_wait_def ready_def procstate_defs valid_tids_def)
  from switch_joining [OF this pre assms(8)] have
    s: "joining ?p c rv k1" "active_thread k1 = ?p \<Longrightarrow> ready k1 ?p" by simp_all
  have j: "sys_ok (Y, k2) \<and> joining ?p c rv k2 \<and> (active_thread k2 = ?p \<longrightarrow> ready k2 ?p)"
    using other_calls_joining [OF assms(9) then_yield(1) [OF pre assms(8)]] s by auto
  then show "\<exists>k3. tk_yield_switch k2 = Inr k3 \<and> ready k3 ?p"
    if "has_flag (state (pool k2 c)) ZOMBI \<and> active_thread k2 \<noteq> c \<and> npreempt k2 = 0 \<and> \<not> stuck_zombie k2"
    using yield_tells_parent [of ?p c rv k2 Y] that by auto
  assume a: "active_thread k2 = ?p \<and> oth ?p k1 = Inr k2"
  with j have t: "wakeupEvent (pool k2 ?p) = E_CHILDDEATH" "retval (pool k2 ?p) = rv"
    using joining_ready [of ?p c rv k2] by (simp_all add: told_def)
  have "tk_yield oth ?k = Inr k2"
  proof (cases "active_thread k1 = ?p")
    case True
    then have "\<not> other_call ?p c rv (X, k1) s" for s by (simp add: other_call_def)
    with assms(9) have "k2 = k1" by (metis converse_rtranclpE prod.inject)
    with True assms(8) show ?thesis by (simp add: tk_yield_def resume_def join_wait_def)
  next
    case False
    with assms(8) a show ?thesis by (simp add: tk_yield_def resume_def join_wait_def)
  qed
  moreover have "in_pool c" "valid (pool k c)" using assms(4) by (simp_all add: valid_tids_def)
  ultimately show "tk_join oth c k = Inr (Rc_ok, Some rv, k2)"
    using assms(6,7) a t by (simp add: tk_join_def)
qed

theorem join_receives_value_witness:
  "\<exists>k2. tk_join (\<lambda>_ _. Inr k2) 2 (demo READY \<lparr>kind = BON_SCHED, entity = Ent_null\<rparr> READY 0) = Inr (Rc_ok, Some 9, k2) \<and>
    (\<exists>k3. tk_yield_switch (join_run 2) = Inr k3 \<and> ready k3 0)"
proof -
  obtain k2 where k2: "(other_call 0 2 9)\<^sup>*\<^sup>* ({}, join_run 1) ({}, join_run 2)"
    "(other_call 0 2 9)\<^sup>*\<^sup>* ({}, join_run 1) ({}, k2)" "active_thread k2 = 0"
    by (rule join_run_calls)
  have h: "active_thread (join_run 0) = 0" "0 \<noteq> idle_Thid (join_run 0)" "ready (join_run 0) 0" "2 \<in> valid_tids (join_run 0)"
    "Gid (pool (join_run 0) 2) = 0" "\<not> has_flag (state (pool (join_run 0) 2)) ZOMBI"
    by (simp_all add: join_run_def ready_def blank_tcb_def)
  note j = join_receives_value [OF run0_ok, unfolded h(1), OF h(2-4) _ h(5,6) switch_run0]
  have "tk_join (\<lambda>_ _. Inr k2) 2 (join_run 0) = Inr (Rc_ok, Some 9, k2)"
    using j [OF _ k2(2), of "\<lambda>_ _. Inr k2"] k2(3) by simp
  moreover have "\<exists>k3. tk_yield_switch (join_run 2) = Inr k3 \<and> ready k3 0"
    using j [OF _ k2(1)] run2_facts by simp
  ultimately show ?thesis by (auto simp: join_run_def)
qed

text \<open>
  C6. What \<^verbatim>\<open>tk_delete_thread\<close> does with a valid thread other than the root thread. A
  zombie, an orphan, or a thread its parent waits for is freed at once: when its row is full, the
  loop that closes the gap reads the schedule behind the row; otherwise the call succeeds and the
  row loses the thread. Any other thread becomes a zombie that stays in its row until it is joined,
  whether the row is full or not. When the call returns, the kernel is in order.
\<close>

theorem delete_thread_outcomes:
  assumes "kernel_ok {} k" "t \<in> valid_tids k" "t \<noteq> 0"
  shows "let once = has_flag (state (pool k t)) ZOMBI \<or> Gid (pool k t) = -1 \<or> parent_waits_for t k; p = Prio (pool k t) in
    if once \<and> procs k p = TK_MAX_THREADS_AT_PRIO then tk_delete_thread t k = Inl Out_of_bounds
    else \<exists>k'. tk_delete_thread t k = Inr (TK_OK, k') \<and> kernel_ok {} k' \<and>
      (if once then valid_tids k' = valid_tids k - {t} \<and> row k' p = remove1 t (row k p)
       else valid_tids k' = valid_tids k \<and> row k' p = row k p \<and> state (pool k' t) = ZOMBI)"
proof -
  have t: "t \<notin> insert 0 {}" "t \<notin> {}" using assms(3) by simp_all
  let ?p = "Prio (pool k t)"
  have full: "full_row ?p k \<longleftrightarrow> procs k ?p = TK_MAX_THREADS_AT_PRIO"
    using full_row_iff [OF kernel_okD(3) [OF assms(1)] assms(2)] by simp
  show ?thesis
  proof (cases "buried_at_once t k \<and> full_row ?p k")
    case True
    with delete_full [OF assms(1,2) t(1)] full show ?thesis by (simp add: buried_at_once_def Let_def)
  next
    case False
    then have room: "buried_at_once t k \<Longrightarrow> \<not> full_row ?p k" by simp
    then have room': "buried_at_once t k \<Longrightarrow> procs k ?p < TK_MAX_THREADS_AT_PRIO" by (simp add: full_row_def)
    from delete_ok [OF assms(1,2) t(1) room] obtain k' where k': "tk_delete_thread t k = Inr (TK_OK, k')" "kernel_ok {} k'"
      by blast
    obtain k2 where "tk_delete_thread t k = Inr (TK_OK, k2)"
      "valid_tids k2 = (if buried_at_once t k then valid_tids k - {t} else valid_tids k)"
      "row k2 ?p = (if buried_at_once t k then remove1 t (row k ?p) else row k ?p)"
      "\<not> buried_at_once t k \<Longrightarrow> state (pool k2 t) = ZOMBI"
      using delete_thread_ok [OF kernel_okD(1) [OF assms(1)] assms(2,3) t(2) room'] by metis
    with k' False full show ?thesis by (auto simp: buried_at_once_def Let_def)
  qed
qed

text \<open>The kernel of \<open>demo\<close> with two more threads of priority 3, orphans; the row is full.\<close>

definition crowded :: "procstate \<Rightarrow> kern" where
  "crowded s2 =
     (linked 3 4 (\<lambda>c. blank_tcb\<lparr>Thid := 4, Gid := -1, valid := True, Prio := 3, Idx := 2\<rparr>)
      (linked 3 3 (\<lambda>c. blank_tcb\<lparr>Thid := 3, Gid := -1, valid := True, Prio := 3, Idx := 1\<rparr>)
        (demo READY \<lparr>kind = BON_SCHED, entity = Ent_null\<rparr> s2 0)))\<lparr>procs_in_use := 5\<rparr>"

lemma crowded_pool:
  "pool (crowded s2) t = (if t = 3 then blank_tcb\<lparr>Thid := 3, Gid := -1, valid := True, Prio := 3, Idx := 1\<rparr>
     else if t = 4 then blank_tcb\<lparr>Thid := 4, Gid := -1, valid := True, Prio := 3, Idx := 2\<rparr>
     else pool (demo READY \<lparr>kind = BON_SCHED, entity = Ent_null\<rparr> s2 0) t)"
  "procs (crowded s2) p = (if p = 3 then 3 else if p = 0 \<or> p = 15 then 1 else 0)"
  by (simp_all add: crowded_def) 

lemma crowded_sched: "sched_ok {} (crowded s2)" "valid_tids (crowded s2) = {0, 1, 2, 3, 4}"
proof -
  let ?k = "demo READY \<lparr>kind = BON_SCHED, entity = Ent_null\<rparr> s2 0"
  let ?f = "\<lambda>c :: tcb_t. blank_tcb\<lparr>Thid := 3, Gid := -1, valid := True, Prio := 3, Idx := 1\<rparr>"
  let ?g = "\<lambda>c :: tcb_t. blank_tcb\<lparr>Thid := 4, Gid := -1, valid := True, Prio := 3, Idx := 2\<rparr>"
  have "sched_ok {} ?k" by (rule kernel_okD(3) [OF demo_ok]) simp
  moreover have nv: "\<not> valid (pool ?k 3)" "\<not> valid (pool ?k 4)" by (simp_all add: demo_def bss0_def blank_tcb_def)
  ultimately have a: "sched_ok ({} - {3}) (linked 3 3 ?f ?k)" "valid_tids (linked 3 3 ?f ?k) = insert 3 (valid_tids ?k)"
    by (intro sched_ok_link; simp add: tuning_defs in_pool_def)+
  have a': "sched_ok {} (linked 3 3 ?f ?k)" using a(1) by simp
  have b: "sched_ok ({} - {4}) (linked 3 4 ?g (linked 3 3 ?f ?k))"
    "valid_tids (linked 3 4 ?g (linked 3 3 ?f ?k)) = insert 4 (valid_tids (linked 3 3 ?f ?k))"
    by (rule sched_ok_link [OF a']; use nv in \<open>simp add: tuning_defs in_pool_def\<close>)+
  have "sched_ok {} (crowded s2) \<longleftrightarrow> sched_ok {} (linked 3 4 ?g (linked 3 3 ?f ?k))"
    unfolding crowded_def by (rule sched_ok_cong) simp_all
  with b(1) show "sched_ok {} (crowded s2)" by simp
  have "valid_tids (crowded s2) = valid_tids (linked 3 4 ?g (linked 3 3 ?f ?k))" by (simp add: crowded_def valid_tids_def)
  with a(2) b(2) show "valid_tids (crowded s2) = {0, 1, 2, 3, 4}" by auto
qed

lemma crowded_ok: "kernel_ok {} (crowded s2)"
proof -
  let ?k = "crowded s2"
  have c: "children ?k t = (if t = 0 then {2} else {})" if "t \<in> {0, 1, 2, 3, 4}" for t
    using that by (auto simp: children_def crowded_sched(2) crowded_pool blank_tcb_def)
  have "relative_ok ?k t" if "t \<in> {0, 1, 2, 3, 4}" for t
    using that by (auto simp: relative_ok_def crowded_sched(2) crowded_pool c [OF that] blank_tcb_def)
  then have "family_inv ?k" by (simp add: family_inv_def crowded_sched(2))
  moreover have "procs_in_use ?k = 5" by (simp add: crowded_def)
  ultimately show ?thesis
    using crowded_sched by (simp add: kernel_ok_def kernel_inv_def sched_inv_def crowded_pool)
qed

theorem delete_thread_outcomes_witness:
  "(\<exists>k'. tk_delete_thread 2 (demo READY \<lparr>kind = BON_SCHED, entity = Ent_null\<rparr> READY 0) = Inr (TK_OK, k') \<and>
    kernel_ok {} k' \<and> valid_tids k' = {0, 1, 2} \<and> row k' 3 = [2] \<and> state (pool k' 2) = ZOMBI) \<and>
    tk_delete_thread 3 (crowded READY) = Inl Out_of_bounds"
proof -
  let ?k = "demo READY \<lparr>kind = BON_SCHED, entity = Ent_null\<rparr> READY 0"
  have "kernel_ok {} ?k" by (rule demo_ok) simp
  from delete_thread_outcomes [OF this, of 2] delete_thread_outcomes [OF crowded_ok, of 3 READY] show ?thesis
    by (simp add: parent_waits_for_def blank_tcb_def Let_def tuning_defs crowded_sched(2) crowded_pool)
qed

text \<open>
  C8. Changing the priority of a valid thread other than the root thread moves it from its row
  to the end of the row of the new priority and keeps the kernel's order, given a spare slot in
  both rows; whether the caller should yield is decided as the code documents.
\<close>

theorem change_prio_moves:
  assumes "kernel_ok {} k" "t \<in> valid_tids k" "t \<noteq> 0" "p < TK_MAX_PRIO_LEVELS" "p \<noteq> Prio (pool k t)"
    and "procs k p < TK_MAX_THREADS_AT_PRIO" "procs k (Prio (pool k t)) < TK_MAX_THREADS_AT_PRIO"
  shows "\<exists>k'. tk_change_prio t (int p) k = Inr (wants_yield t p k, k') \<and> kernel_inv {} k' \<and>
    valid_tids k' = valid_tids k \<and> Prio (pool k' t) = p \<and> row k' p = row k p @ [t] \<and>
    row k' (Prio (pool k t)) = remove1 t (row k (Prio (pool k t))) \<and>
    (\<forall>q. q \<noteq> p \<longrightarrow> q \<noteq> Prio (pool k t) \<longrightarrow> row k' q = row k q)"
  using change_prio_ok [OF kernel_okD(1) [OF assms(1)] assms(2,3) _ assms(4,5,6,7)] by blast

theorem change_prio_moves_witness:
  "\<exists>k'. tk_change_prio 2 (int 5) (demo READY \<lparr>kind = BON_SCHED, entity = Ent_null\<rparr> READY 0) = Inr (True, k') \<and>
    kernel_inv {} k' \<and> Prio (pool k' 2) = 5 \<and> row k' 5 = [2] \<and> row k' 3 = []"
proof -
  let ?k = "demo READY \<lparr>kind = BON_SCHED, entity = Ent_null\<rparr> READY 0"
  have "kernel_ok {} ?k" by (rule demo_ok) simp
  from change_prio_moves [OF this, of 2 5] show ?thesis
    by (auto simp: blank_tcb_def wants_yield_def tuning_defs)
qed

text \<open>
  \<^verbatim>\<open>tk_detach\<close> never changes anything: it rejects every valid thread that has a
  parent, with \<^verbatim>\<open>EINVAL\<close>, and accepts only those that are detached already. (The
  condition in the code is the reverse of the documented one.)
\<close>

theorem detach_changes_nothing:
  "tk_detach t k = (if in_pool t then Inr
     (if \<not> valid (pool k t) then Rc_errno ESRCH
      else if Gid (pool k t) \<noteq> -1 then Rc_errno EINVAL else Rc_ok, k) else Inl Out_of_bounds)"
  by (simp add: detach_nothing) (simp add: tk_detach_def at_tid_def)

text \<open>
  Freeing a thread whose row is full reads the schedule behind the row's last slot: the
  loop that closes the gap copies one slot too many.
\<close>

theorem full_row_out_of_bounds:
  assumes "sched_ok {} k" "t \<in> valid_tids k" "t \<noteq> 0"
    and "procs k (Prio (pool k t)) = TK_MAX_THREADS_AT_PRIO"
  shows "bury_thread t k = Inl Out_of_bounds"
  by (rule bury_thread_full [OF assms(1)]) (use assms(2-4) in \<open>simp_all add: valid_tids_def\<close>)

theorem full_row_out_of_bounds_witness: "bury_thread 3 (crowded READY) = Inl Out_of_bounds"
  by (rule full_row_out_of_bounds [OF kernel_okD(3) [OF crowded_ok]]) (simp_all add: tuning_defs crowded_sched(2) crowded_pool blank_tcb_def)

text \<open>
  Why only one creation at a time keeps the kernel in order: of two creations that overlap, both
  enter the thread that \<^verbatim>\<open>__tk_proc_idx\<close> names, and the other thread is in no row.
\<close>

lemma enter_row_row:
  assumes "enter_row p k = Inr k'"
  shows "row k' q = (if q = p then row k p @ [proc_idx k] else row k q)" "proc_idx k' = proc_idx k"
  using assms by (auto simp: enter_row_def Let_def result_elims row_def)

lemma creations_clash:
  assumes "enter_row p k = Inr k1" "enter_row q k1 = Inr k2" "p \<noteq> q"
  shows "row k2 p = row k p @ [proc_idx k]" "row k2 q = row k q @ [proc_idx k]"
  using enter_row_row [OF assms(1)] enter_row_row [OF assms(2)] assms(3) by simp_all

end
