(* ===== verification/TkItcNy.thy ===== *)
theory TkItcNy
  imports TkItc
begin

text \<open>
  \<^verbatim>\<open>src/tk_itcny.c\<close>: the variants of the ITC operations for interrupt handlers,
  which never yield. Their creation and deletion use the functions of \<open>TkItc\<close>; their
  locking stages differ from the ordinary ones in what follows the change of the ring. In
  \<open>unlock_stage_ny\<close> the woken thread is put on the list of preempted threads by the address
  of its control block, although the list holds thread numbers; \<open>addr\<close> is that address as a
  number.
\<close>

section \<open>The stages\<close>

definition lock_stage_ny :: "nat \<Rightarrow> 32 word \<Rightarrow> 'a itc_kern_scheme \<Rightarrow>
  (itc_rc \<times> 'a itc_kern_scheme) result" where
  "lock_stage_ny qid timeout k = andThen (lock_begin qid timeout k) (\<lambda>(r, k1).
     case r of Inl rc \<Rightarrow> Inr (rc, k1)
     | Inr mark \<Rightarrow> if timeout = 0 then Inr (RC_OK, k1) else lock_resume (active_thread k) qid mark k1)"

definition unlock_stage_ny :: "(thid_t \<Rightarrow> thid_t) \<Rightarrow> nat \<Rightarrow> 'a itc_kern_scheme \<Rightarrow>
  (itc_rc \<times> 'a itc_kern_scheme) result" where
  "unlock_stage_ny addr qid k = at_itc qid k (\<lambda>q.
     if token q < 0 then
       if flags q AND PRIOR \<noteq> 0 then
         andThen (unlock_prior qid q k) (\<lambda>r. case r of None \<Rightarrow> Inr (RC_OK, k) | Some k1 \<Rightarrow> Inr (RC_OK, k1))
       else andThen (unlock_fifo qid q k) (\<lambda>(t, k1). Inr (RC_OK, tk_preemplist (addr t) k1))
     else Inr (RC_OK, put_itc qid (q\<lparr>token := token q + 1\<rparr>) k))"

section \<open>Semaphores\<close>

definition sm_create_ny :: "itc_t option \<Rightarrow> bool \<Rightarrow> string \<Rightarrow> nat \<Rightarrow> 32 word \<Rightarrow> 'a itc_kern_scheme \<Rightarrow>
  (itc_rc \<times> nat \<times> 'a itc_kern_scheme) result" where
  "sm_create_ny m1 m2 name count fl k =
     (let (rc, k1) = itc_findNextEmpySlot k; i = itc_idx k1 in
      if rc = ERR_OBJFULL then Inr (rc, 0, k1)
      else in_bounds (i < TK_MAX_NUM_Q)
       (case m1 of None \<Rightarrow> Inr (ERR_NOMEM, 0, k1\<lparr>itc_array := (itc_array k1)(i := None)\<rparr>)
        | Some q \<Rightarrow>
           if \<not> m2 then Inr (ERR_NOMEM, 0, put_itc i q k1)
           else Inr (RC_OK, i, put_itc i (sm_init name count fl q) k1)))"

definition sm_delete_ny :: "nat \<Rightarrow> 'a itc_kern_scheme \<Rightarrow> (itc_rc \<times> 'a itc_kern_scheme) result" where
  "sm_delete_ny qid k = at_itc qid k (\<lambda>q. Inr (RC_OK, k\<lparr>itc_array := (itc_array k)(qid := None)\<rparr>))"

definition sm_p_ny :: "nat \<Rightarrow> 32 word \<Rightarrow> 32 word \<Rightarrow> 'a itc_kern_scheme \<Rightarrow>
  (itc_rc \<times> 'a itc_kern_scheme) result" where
  "sm_p_ny qid fl timeout k = in_bounds (qid < TK_MAX_NUM_Q)
     (case wrong_type qid SEM k of Some rc \<Rightarrow> Inr (rc, k)
      | None \<Rightarrow> if would_block qid fl k then Inr (ERR_NOSEM, k) else lock_stage_ny qid timeout k)"

definition sm_v_ny :: "(thid_t \<Rightarrow> thid_t) \<Rightarrow> nat \<Rightarrow> 'a itc_kern_scheme \<Rightarrow> (itc_rc \<times> 'a itc_kern_scheme) result" where
  "sm_v_ny addr qid k = in_bounds (qid < TK_MAX_NUM_Q)
     (case wrong_type qid SEM k of Some rc \<Rightarrow> Inr (rc, k) | None \<Rightarrow> unlock_stage_ny addr qid k)"

section \<open>Queues of four words\<close>

definition q_create_ny :: "itc_t option \<Rightarrow> bool \<Rightarrow> bool \<Rightarrow> string \<Rightarrow> nat \<Rightarrow> 32 word \<Rightarrow> 'a itc_kern_scheme \<Rightarrow>
  (itc_rc \<times> nat \<times> 'a itc_kern_scheme) result" where
  "q_create_ny m1 m2 m3 name count fl k =
     andThen (sm_create m1 m2 name 0 fl k) (\<lambda>(rc, qid, k1).
       if rc \<noteq> RC_OK then Inr (rc, qid, k1)
       else if \<not> m3 then andThen (sm_delete qid k1) (\<lambda>(_, k2). Inr (ERR_NOMEM, qid, k2))
       else at_itc (itc_idx k1) k1 (\<lambda>q. Inr (RC_OK, qid, put_itc (itc_idx k1) (q_init S_QUEUE count q) k1)))"

definition q_delete_ny :: "nat \<Rightarrow> 'a itc_kern_scheme \<Rightarrow> (itc_rc \<times> 'a itc_kern_scheme) result" where
  "q_delete_ny qid k = at_itc qid k (\<lambda>q. if b_type q = SEM then Inl Wild_pointer else sm_delete qid k)"

definition q_receive_ny :: "nat \<Rightarrow> 32 word \<Rightarrow> 32 word \<Rightarrow> 'a itc_kern_scheme \<Rightarrow>
  (itc_rc \<times> q_t option \<times> 'a itc_kern_scheme) result" where
  "q_receive_ny qid fl timeout k = in_bounds (qid < TK_MAX_NUM_Q)
     (case wrong_type qid S_QUEUE k of Some rc \<Rightarrow> Inr (rc, None, k)
      | None \<Rightarrow> if would_block qid fl k then Inr (ERR_NOSEM, None, k)
        else andThen (checked qid (lock_stage_ny qid timeout k)) (\<lambda>(rc, k1).
          if rc \<noteq> RC_OK then Inr (rc, None, k1)
          else andThen (take_msg qid k1) (\<lambda>(msg, k2). Inr (RC_OK, Some msg, k2))))"

text \<open>
  \<open>q_send_ny\<close> disables interrupts at its start; the \<open>bool\<close> of its result tells whether they
  are enabled again when it returns.
\<close>

definition q_send_ny :: "(thid_t \<Rightarrow> thid_t) \<Rightarrow> nat \<Rightarrow> q_t \<Rightarrow> 'a itc_kern_scheme \<Rightarrow>
  (itc_rc \<times> bool \<times> 'a itc_kern_scheme) result" where
  "q_send_ny addr qid msg k = in_bounds (qid < TK_MAX_NUM_Q)
     (case wrong_type qid S_QUEUE k of Some rc \<Rightarrow> Inr (rc, False, k)
      | None \<Rightarrow> if queue_full qid k then Inr (ERR_FULL, False, k)
        else andThen (put_msg qid msg k) (\<lambda>k1. andThen (checked qid (unlock_stage_ny addr qid k1)) (\<lambda>(rc, k2).
          Inr (rc, rc = RC_OK, k2))))"

section \<open>Queues of variable messages\<close>

definition q_vcreate_ny :: "itc_t option \<Rightarrow> bool \<Rightarrow> bool \<Rightarrow> string \<Rightarrow> 32 word \<Rightarrow> nat \<Rightarrow> nat \<Rightarrow> 'a itc_kern_scheme \<Rightarrow>
  (itc_rc \<times> nat \<times> 'a itc_kern_scheme) result" where
  "q_vcreate_ny m1 m2 m3 name fl count mmlen k =
     andThen (sm_create m1 m2 name 0 fl k) (\<lambda>(rc, qid, k1).
       if rc \<noteq> RC_OK then Inr (rc, qid, k1)
       else if \<not> m3 then andThen (sm_delete qid k1) (\<lambda>(_, k2). Inr (ERR_NOMEM, qid, k2))
       else at_itc (itc_idx k1) k1 (\<lambda>q.
         Inr (RC_OK, qid, put_itc (itc_idx k1) ((q_init V_QUEUE count q)\<lparr>maxSizeof_m := mmlen\<rparr>) k1)))"

definition q_vdelete_ny :: "nat \<Rightarrow> 'a itc_kern_scheme \<Rightarrow> (itc_rc \<times> 'a itc_kern_scheme) result" where
  "q_vdelete_ny qid k = at_itc qid k (\<lambda>q. if b_type q \<noteq> V_QUEUE then Inl Wild_pointer
     else andThen (foldR (free_vmsg qid) [0..<sizeof_q q] k) (sm_delete qid))"

definition q_vreceive_ny :: "nat \<Rightarrow> 32 word \<Rightarrow> 32 word \<Rightarrow> nat \<Rightarrow> 'a itc_kern_scheme \<Rightarrow>
  (itc_rc \<times> (8 word list \<times> nat) option \<times> 'a itc_kern_scheme) result" where
  "q_vreceive_ny qid fl timeout buf_len k = in_bounds (qid < TK_MAX_NUM_Q)
     (case wrong_type qid V_QUEUE k of Some rc \<Rightarrow> Inr (rc, None, k)
      | None \<Rightarrow> if would_block qid fl k then Inr (ERR_NOSEM, None, k)
        else at_itc qid k (\<lambda>q. if maxSizeof_m q < buf_len then Inr (ERR_BUFSIZ, None, k)
        else andThen (checked qid (lock_stage_ny qid timeout k)) (\<lambda>(rc, k1).
          if rc \<noteq> RC_OK then Inr (rc, None, k1)
          else andThen (take_vmsg qid k1) (\<lambda>(msg, n, k2). Inr (RC_OK, Some (msg, n), k2)))))"

definition q_vsend_ny :: "bool \<Rightarrow> bool \<Rightarrow> (thid_t \<Rightarrow> thid_t) \<Rightarrow> nat \<Rightarrow> 8 word list \<Rightarrow> nat \<Rightarrow> 'a itc_kern_scheme \<Rightarrow>
  (itc_rc \<times> 'a itc_kern_scheme) result" where
  "q_vsend_ny pr m addr qid bytes len k = in_bounds (qid < TK_MAX_NUM_Q)
     (case wrong_type qid V_QUEUE k of Some rc \<Rightarrow> Inr (rc, k)
      | None \<Rightarrow> if queue_full qid k then Inr (ERR_FULL, k)
        else andThen (put_vmsg m qid bytes len k) (\<lambda>(rc, k1).
          if rc \<noteq> RC_OK then Inr (rc, k1) else andThen (trace_vmsg pr qid k1) (\<lambda>k2. checked qid (unlock_stage_ny addr qid k2))))"

end
