(* ===== verification/TkQueue.thy ===== *)
theory TkQueue
  imports TkItcNy TkSem
begin

text \<open>
  Message queues as lists: the interface \<open>bounded_fifo\<close> of a bounded queue, with the round
  trip proved once from its laws, and its interpretations on the queues of four words and on
  the queues of variable messages of \<open>TkItc\<close>, and on their non-yielding variants.
\<close>

section \<open>The interface\<close>

fun recv_n :: "('s \<Rightarrow> ('m \<times> 's) result) \<Rightarrow> nat \<Rightarrow> 's \<Rightarrow> ('m list \<times> 's) result" where
  "recv_n recv 0 s = Inr ([], s)"
| "recv_n recv (Suc n) s = andThen (recv s) (\<lambda>(m, s1). andThen (recv_n recv n s1) (\<lambda>(ms, s2). Inr (m # ms, s2)))"

locale bounded_fifo =
  fixes content :: "'s \<Rightarrow> 'm list" and ok :: "'s \<Rightarrow> bool" and cap :: "'s \<Rightarrow> nat" and fits :: "'m \<Rightarrow> bool"
    and send :: "'m \<Rightarrow> 's \<Rightarrow> 's result" and recv :: "'s \<Rightarrow> ('m \<times> 's) result"
  assumes send: "ok s \<Longrightarrow> length (content s) < cap s \<Longrightarrow> fits m \<Longrightarrow>
      \<exists>s'. send m s = Inr s' \<and> ok s' \<and> cap s' = cap s \<and> content s' = content s @ [m]"
    and recv: "ok s \<Longrightarrow> content s = m # ms \<Longrightarrow>
      \<exists>s'. recv s = Inr (m, s') \<and> ok s' \<and> cap s' = cap s \<and> content s' = ms"
begin

lemma send_all:
  assumes "ok s" "length (content s) + length ms \<le> cap s" "\<forall>m \<in> set ms. fits m"
  shows "\<exists>s'. foldR send ms s = Inr s' \<and> ok s' \<and> cap s' = cap s \<and> content s' = content s @ ms"
  using assms
proof (induction ms arbitrary: s)
  case Nil
  then show ?case by simp
next
  case (Cons m ms)
  from Cons.prems have "length (content s) < cap s" "fits m" by simp_all
  from send [OF Cons.prems(1) this] obtain s1 where
    s1: "send m s = Inr s1" "ok s1" "cap s1 = cap s" "content s1 = content s @ [m]" by blast
  with Cons.prems Cons.IH [of s1] show ?case by auto
qed

lemma recv_all:
  assumes "ok s" "content s = ms @ rest"
  shows "\<exists>s'. recv_n recv (length ms) s = Inr (ms, s') \<and> ok s' \<and> cap s' = cap s \<and> content s' = rest"
  using assms
proof (induction ms arbitrary: s)
  case Nil
  then show ?case by simp
next
  case (Cons m ms)
  from recv [OF Cons.prems(1), of m "ms @ rest"] Cons.prems(2) obtain s1 where
    s1: "recv s = Inr (m, s1)" "ok s1" "cap s1 = cap s" "content s1 = ms @ rest" by auto
  with Cons.IH [of s1] show ?case by auto
qed

text \<open>What was sent is received, in order, behind what was in the queue.\<close>

lemma round_trip:
  assumes "ok s" "length (content s) + length ms \<le> cap s" "\<forall>m \<in> set ms. fits m"
  shows "\<exists>s1 s2. foldR send ms s = Inr s1 \<and>
    recv_n recv (length (content s) + length ms) s1 = Inr (content s @ ms, s2) \<and> ok s2 \<and> content s2 = []"
proof -
  from send_all [OF assms] obtain s1 where
    s1: "foldR send ms s = Inr s1" "ok s1" "content s1 = (content s @ ms) @ []" by auto
  from recv_all [OF s1(2,3)] s1(1) show ?thesis by auto
qed

end

section \<open>The index arithmetic of a queue\<close>

text \<open>The messages of a queue: as many as there are tokens, from the out index on, around.\<close>

definition queue_slots :: "itc_t \<Rightarrow> nat list" where
  "queue_slots q = map (\<lambda>i. (mout_idx q + i) mod sizeof_q q) [0..<nat (token q)]"

definition queue_ok :: "itc_t \<Rightarrow> bool" where
  "queue_ok q \<longleftrightarrow> 0 < sizeof_q q \<and> 0 \<le> token q \<and> token q \<le> int (sizeof_q q) \<and> mout_idx q < sizeof_q q \<and>
     min_idx q = (mout_idx q + nat (token q)) mod sizeof_q q \<and> in_idx q = out_idx q"

lemma length_queue_slots [simp]: "length (queue_slots q) = nat (token q)"
  by (simp add: queue_slots_def)

lemma set_queue_slots: "queue_ok q \<Longrightarrow> set (queue_slots q) \<subseteq> {..<sizeof_q q}"
  by (auto simp: queue_slots_def queue_ok_def)

text \<open>The slot behind the last message is free while the queue is not full.\<close>

lemma mod_add_inj:
  fixes a :: nat
  assumes "i < n" "j < n" "(a + i) mod n = (a + j) mod n"
  shows "i = j"
proof -
  have le: "i' = j'" if "i' \<le> j'" "j' < n" "(a + i') mod n = (a + j') mod n" for i' j'
  proof -
    have "n dvd (a + j') - (a + i')" using that by (subst mod_eq_dvd_iff_nat [symmetric]) simp_all
    then show ?thesis using that nat_dvd_not_less [of "j' - i'" n] by (cases "i' = j'") auto
  qed
  show ?thesis using le [of i j] le [of j i] assms by (cases "i \<le> j") auto
qed

lemma slots_send:
  assumes ok: "queue_ok q" and room: "nat (token q) < sizeof_q q"
  shows "min_idx q \<notin> set (queue_slots q)" "min_idx q < sizeof_q q"
    "queue_slots (q\<lparr>token := token q + 1\<rparr>) = queue_slots q @ [min_idx q]"
    "queue_ok (q\<lparr>min_idx := (min_idx q + 1) mod sizeof_q q, token := token q + 1\<rparr>)"
proof -
  have m: "min_idx q = (mout_idx q + nat (token q)) mod sizeof_q q" and t: "0 \<le> token q" "0 < sizeof_q q"
    using ok by (simp_all add: queue_ok_def)
  show "min_idx q < sizeof_q q" using t by (simp add: m)
  show "min_idx q \<notin> set (queue_slots q)"
  proof
    assume "min_idx q \<in> set (queue_slots q)"
    then obtain i where i: "i < nat (token q)" "(mout_idx q + i) mod sizeof_q q = (mout_idx q + nat (token q)) mod sizeof_q q"
      by (auto simp: queue_slots_def m)
    then have "i = nat (token q)" using room by (intro mod_add_inj [of i "sizeof_q q"]) simp_all
    with i(1) show False by simp
  qed
  show "queue_slots (q\<lparr>token := token q + 1\<rparr>) = queue_slots q @ [min_idx q]"
    using t by (simp add: queue_slots_def m nat_add_distrib)
  show "queue_ok (q\<lparr>min_idx := (min_idx q + 1) mod sizeof_q q, token := token q + 1\<rparr>)"
    using ok room by (simp add: queue_ok_def m nat_add_distrib mod_Suc_eq)
qed

lemma slots_recv:
  assumes ok: "queue_ok q" and some: "0 < token q"
  shows "mout_idx q < sizeof_q q"
    "queue_slots q = mout_idx q # queue_slots (q\<lparr>token := token q - 1, mout_idx := (mout_idx q + 1) mod sizeof_q q\<rparr>)"
    "queue_ok (q\<lparr>token := token q - 1, mout_idx := (mout_idx q + 1) mod sizeof_q q\<rparr>)"
proof -
  obtain n where n: "token q = int (Suc n)" using some by (metis gr0_conv_Suc zero_less_imp_eq_int)
  show "mout_idx q < sizeof_q q" using ok by (simp add: queue_ok_def)
  then show "queue_slots q =
      mout_idx q # queue_slots (q\<lparr>token := token q - 1, mout_idx := (mout_idx q + 1) mod sizeof_q q\<rparr>)"
    by (simp add: queue_slots_def n map_Suc_upt [symmetric] upt_conv_Cons mod_Suc_eq comp_def mod_add_left_eq nat_add_distrib
        del: upt_Suc map_Suc_upt)
  show "queue_ok (q\<lparr>token := token q - 1, mout_idx := (mout_idx q + 1) mod sizeof_q q\<rparr>)"
    using ok by (simp add: queue_ok_def n nat_add_distrib mod_add_left_eq)
qed

section \<open>Queues of four words\<close>

lemma put_itc_put [simp]: "put_itc qid q2 (put_itc qid q1 k) = put_itc qid q2 k"
  by (simp add: put_itc_def)

definition is_queue :: "itc_set_t \<Rightarrow> nat \<Rightarrow> 'a itc_kern_scheme \<Rightarrow> itc_t \<Rightarrow> bool" where
  "is_queue ty qid k q \<longleftrightarrow> qid < TK_MAX_NUM_Q \<and> itc_array k qid = Some q \<and> b_type q = ty \<and> queue_ok q"

definition msgs :: "itc_t \<Rightarrow> q_t list" where
  "msgs q = map (m_q q) (queue_slots q)"

lemma queue_fullness:
  assumes "is_queue ty qid k q"
  shows "wrong_type qid ty k = None" "queue_full qid k \<longleftrightarrow> nat (token q) = sizeof_q q"
    "would_block qid fl k \<longleftrightarrow> token q = 0 \<and> fl AND NOWAIT \<noteq> 0"
  using assms by (auto simp: is_queue_def wrong_type_def queue_full_def queue_ok_def would_block_def)

text \<open>The consistency check holds of a queue nobody waits for.\<close>

lemma checked_queue:
  assumes "qid < TK_MAX_NUM_Q" "queue_ok q"
  shows "checked qid (Inr (rc, put_itc qid q k)) = Inr (rc, put_itc qid q k)"
proof -
  have "itc_proveConcistency qid (put_itc qid q k) = Inr True"
    using assms by (cases "token q > 0")
      (simp_all add: itc_proveConcistency_def queue_ok_def ring_walk.simps)
  then show ?thesis by (simp add: checked_def)
qed

definition after_send :: "q_t \<Rightarrow> itc_t \<Rightarrow> itc_t" where
  "after_send m q = q\<lparr>m_q := (m_q q)(min_idx q := m), min_idx := (min_idx q + 1) mod sizeof_q q, token := token q + 1\<rparr>"

definition after_recv :: "itc_t \<Rightarrow> itc_t" where
  "after_recv q = q\<lparr>token := token q - 1, mout_idx := (mout_idx q + 1) mod sizeof_q q\<rparr>"

lemma after_send_ok:
  assumes "is_queue S_QUEUE qid k q" "nat (token q) < sizeof_q q"
  shows "is_queue S_QUEUE qid (put_itc qid (after_send m q) k) (after_send m q)"
    "msgs (after_send m q) = msgs q @ [m]" "sizeof_q (after_send m q) = sizeof_q q"
proof -
  have ok: "queue_ok q" using assms(1) by (simp add: is_queue_def)
  note s = slots_send [OF ok assms(2)]
  have "queue_ok (after_send m q)" using s(4) by (simp add: after_send_def queue_ok_def)
  then show "is_queue S_QUEUE qid (put_itc qid (after_send m q) k) (after_send m q)"
    using assms(1) by (simp add: is_queue_def after_send_def)
  have "queue_slots (after_send m q) = queue_slots q @ [min_idx q]"
    using s(3) by (simp add: after_send_def queue_slots_def)
  then show "msgs (after_send m q) = msgs q @ [m]"
    using s(1) by (auto simp: msgs_def after_send_def)
qed (simp add: after_send_def)

lemma after_recv_ok:
  assumes "is_queue S_QUEUE qid k q" "0 < token q"
  shows "is_queue S_QUEUE qid (put_itc qid (after_recv q) k) (after_recv q)"
    "msgs q = m_q q (mout_idx q) # msgs (after_recv q)" "sizeof_q (after_recv q) = sizeof_q q"
proof -
  have ok: "queue_ok q" using assms(1) by (simp add: is_queue_def)
  note s = slots_recv [OF ok assms(2), folded after_recv_def]
  show "is_queue S_QUEUE qid (put_itc qid (after_recv q) k) (after_recv q)"
    using assms(1) s(3) by (simp add: is_queue_def after_recv_def)
  show "msgs q = m_q q (mout_idx q) # msgs (after_recv q)"
    using s(2) by (simp add: msgs_def) (simp add: after_recv_def)
qed (simp add: after_recv_def)

lemma q_send_run:
  assumes q: "is_queue S_QUEUE qid k q" and room: "nat (token q) < sizeof_q q"
  shows "q_send oth qid m k = Inr (RC_OK, put_itc qid (after_send m q) k)"
    "q_send_ny addr qid m k = Inr (RC_OK, True, put_itc qid (after_send m q) k)"
proof -
  have o: "queue_ok q" "qid < TK_MAX_NUM_Q" "itc_array k qid = Some q" using q by (simp_all add: is_queue_def)
  let ?q1 = "q\<lparr>m_q := (m_q q)(min_idx q := m), min_idx := (min_idx q + 1) mod sizeof_q q\<rparr>"
  have p: "put_msg qid m k = Inr (put_itc qid ?q1 k)"
    using o slots_send(2) [OF o(1) room] by (simp add: put_msg_def)
  have t: "\<not> token ?q1 < 0" using o(1) by (simp add: queue_ok_def)
  have q2: "?q1\<lparr>token := token ?q1 + 1\<rparr> = after_send m q" by (simp add: after_send_def)
  have u: "unlock_stage oth qid (put_itc qid ?q1 k) = Inr (RC_OK, put_itc qid (after_send m q) k)"
    "unlock_stage_ny addr qid (put_itc qid ?q1 k) = Inr (RC_OK, put_itc qid (after_send m q) k)"
    using o(2) t q2 by (simp_all add: unlock_stage_def unlock_stage_ny_def)
  have c: "queue_ok (after_send m q)" using after_send_ok(1) [OF q room] by (simp add: is_queue_def)
  show "q_send oth qid m k = Inr (RC_OK, put_itc qid (after_send m q) k)"
    "q_send_ny addr qid m k = Inr (RC_OK, True, put_itc qid (after_send m q) k)"
    using queue_fullness [OF q] room o(2) p u checked_queue [OF o(2) c, of RC_OK k]
    by (simp_all add: q_send_def q_send_ny_def)
qed

lemma q_receive_run:
  assumes q: "is_queue S_QUEUE qid k q" and some: "0 < token q"
  shows "q_receive oth qid fl timeout k = Inr (RC_OK, Some (m_q q (mout_idx q)), put_itc qid (after_recv q) k)"
    "q_receive_ny qid fl timeout k = Inr (RC_OK, Some (m_q q (mout_idx q)), put_itc qid (after_recv q) k)"
proof -
  have o: "queue_ok q" "qid < TK_MAX_NUM_Q" "itc_array k qid = Some q" using q by (simp_all add: is_queue_def)
  let ?q1 = "q\<lparr>token := token q - 1\<rparr>"
  have l: "lock_stage oth qid timeout k = Inr (RC_OK, put_itc qid ?q1 k)"
    "lock_stage_ny qid timeout k = Inr (RC_OK, put_itc qid ?q1 k)"
    using o some by (simp_all add: lock_stage_def lock_stage_ny_def lock_begin_def)
  have c: "checked qid (Inr (RC_OK, put_itc qid ?q1 k)) = Inr (RC_OK, put_itc qid ?q1 k)"
  proof -
    have "itc_proveConcistency qid (put_itc qid ?q1 k) = Inr True"
      using o some by (cases "token q > 1")
        (simp_all add: itc_proveConcistency_def queue_ok_def ring_walk.simps)
    then show ?thesis by (simp add: checked_def)
  qed
  have t: "take_msg qid (put_itc qid ?q1 k) = Inr (m_q q (mout_idx q), put_itc qid (after_recv q) k)"
    using o slots_recv(1) [OF o(1) some] by (simp add: take_msg_def after_recv_def)
  show "q_receive oth qid fl timeout k = Inr (RC_OK, Some (m_q q (mout_idx q)), put_itc qid (after_recv q) k)"
    "q_receive_ny qid fl timeout k = Inr (RC_OK, Some (m_q q (mout_idx q)), put_itc qid (after_recv q) k)"
    using queue_fullness [OF q] some o(2) l c t by (simp_all add: q_receive_def q_receive_ny_def)
qed

section \<open>Queues of variable messages\<close>

text \<open>
  The operations work on such a queue only while its slot is the one created last
  (\<open>itc_idx k = qid\<close>), because of where \<open>q_vsend\<close> stores the buffer. A message is its
  \<open>mlen + 1\<close> bytes.
\<close>

definition vmsg :: "qv_t \<Rightarrow> 8 word list" where
  "vmsg v = (case mb v of Live b \<Rightarrow> b | _ \<Rightarrow> [])"

definition vmsgs :: "itc_t \<Rightarrow> 8 word list list" where
  "vmsgs q = map (\<lambda>i. vmsg (m_qv q i)) (queue_slots q)"

definition is_vqueue :: "nat \<Rightarrow> nat \<Rightarrow> 'a itc_kern_scheme \<Rightarrow> itc_t \<Rightarrow> bool" where
  "is_vqueue buf_len qid k q \<longleftrightarrow> is_queue V_QUEUE qid k q \<and> itc_idx k = qid \<and> buf_len \<le> maxSizeof_m q \<and>
     (\<forall>i \<in> set (queue_slots q). \<exists>b. mb (m_qv q i) = Live b \<and> length b = mlen (m_qv q i) + 1)"

definition after_vsend :: "8 word list \<Rightarrow> itc_t \<Rightarrow> itc_t" where
  "after_vsend b q = q\<lparr>m_qv := (m_qv q)(min_idx q := \<lparr>mb = Live b, mlen = length b - 1\<rparr>),
     min_idx := (min_idx q + 1) mod sizeof_q q, token := token q + 1\<rparr>"

definition after_vrecv :: "itc_t \<Rightarrow> itc_t" where
  "after_vrecv q = q\<lparr>token := token q - 1, m_qv := (m_qv q)(mout_idx q := (m_qv q (mout_idx q))\<lparr>mb := Freed\<rparr>),
     mout_idx := (mout_idx q + 1) mod sizeof_q q\<rparr>"

lemma after_vsend_ok:
  assumes q: "is_vqueue bl qid k q" and room: "nat (token q) < sizeof_q q" and b: "b \<noteq> []"
  shows "is_vqueue bl qid (put_itc qid (after_vsend b q) k) (after_vsend b q)"
    "vmsgs (after_vsend b q) = vmsgs q @ [b]" "sizeof_q (after_vsend b q) = sizeof_q q"
proof -
  have ok: "queue_ok q" using q by (simp add: is_vqueue_def is_queue_def)
  note s = slots_send [OF ok room]
  have "queue_ok (after_vsend b q)" using s(4) by (simp add: after_vsend_def queue_ok_def)
  moreover have sl: "queue_slots (after_vsend b q) = queue_slots q @ [min_idx q]"
    using s(3) by (simp add: after_vsend_def queue_slots_def)
  moreover have "m_qv (after_vsend b q) i = m_qv q i" if "i \<in> set (queue_slots q)" for i
    using that s(1) by (auto simp: after_vsend_def)
  moreover have "m_qv (after_vsend b q) (min_idx q) = \<lparr>mb = Live b, mlen = length b - 1\<rparr>"
    by (simp add: after_vsend_def)
  moreover have "b_type (after_vsend b q) = b_type q" "maxSizeof_m (after_vsend b q) = maxSizeof_m q"
    by (simp_all add: after_vsend_def)
  ultimately show "is_vqueue bl qid (put_itc qid (after_vsend b q) k) (after_vsend b q)"
    "vmsgs (after_vsend b q) = vmsgs q @ [b]"
    using q b by (auto simp: is_vqueue_def is_queue_def vmsgs_def vmsg_def Suc_leI)
qed (simp add: after_vsend_def)

lemma after_vrecv_ok:
  assumes q: "is_vqueue bl qid k q" and some: "0 < token q"
  shows "is_vqueue bl qid (put_itc qid (after_vrecv q) k) (after_vrecv q)"
    "vmsgs q = vmsg (m_qv q (mout_idx q)) # vmsgs (after_vrecv q)" "sizeof_q (after_vrecv q) = sizeof_q q"
proof -
  have ok: "queue_ok q" using q by (simp add: is_vqueue_def is_queue_def)
  note s = slots_recv [OF ok some]
  have o: "queue_ok (after_vrecv q)" using s(3) by (simp add: after_vrecv_def queue_ok_def)
  have sl: "queue_slots q = mout_idx q # queue_slots (after_vrecv q)"
    using s(2) by (simp add: after_vrecv_def queue_slots_def)
  have "distinct (queue_slots q)"
  proof -
    have "inj_on (\<lambda>i. (mout_idx q + i) mod sizeof_q q) {..<nat (token q)}"
      using ok by (intro inj_onI, elim mod_add_inj [rotated 2]) (auto simp: queue_ok_def)
    then show ?thesis by (simp add: queue_slots_def distinct_map atLeast0LessThan)
  qed
  then have "m_qv (after_vrecv q) i = m_qv q i" if "i \<in> set (queue_slots (after_vrecv q))" for i
    using that sl by (auto simp: after_vrecv_def)
  moreover have "b_type (after_vrecv q) = b_type q" "maxSizeof_m (after_vrecv q) = maxSizeof_m q"
    by (simp_all add: after_vrecv_def)
  ultimately show "is_vqueue bl qid (put_itc qid (after_vrecv q) k) (after_vrecv q)"
    "vmsgs q = vmsg (m_qv q (mout_idx q)) # vmsgs (after_vrecv q)"
    using q o sl by (auto simp: is_vqueue_def is_queue_def vmsgs_def)
qed (simp add: after_vrecv_def)

lemma put_vmsg_run:
  assumes q: "is_vqueue bl qid k q" and room: "nat (token q) < sizeof_q q" and b: "b \<noteq> []"
  shows "put_vmsg True qid b (length b - 1) k =
    Inr (RC_OK, put_itc qid (q\<lparr>m_qv := (m_qv q)(min_idx q := \<lparr>mb = Live b, mlen = length b - 1\<rparr>),
      min_idx := (min_idx q + 1) mod sizeof_q q\<rparr>) k)"
proof -
  have o: "queue_ok q" "qid < TK_MAX_NUM_Q" "itc_array k qid = Some q" "b_type q = V_QUEUE" "itc_idx k = qid"
    using q by (simp_all add: is_vqueue_def is_queue_def)
  let ?i = "min_idx q" and ?n = "length b - 1"
  let ?q1 = "q\<lparr>m_qv := (m_qv q)(?i := (m_qv q ?i)\<lparr>mb := Live (replicate (?n + 1) 0)\<rparr>)\<rparr>"
  have i: "?i < sizeof_q q" by (rule slots_send(2) [OF o(1) room])
  have n: "?n < length b" "Suc ?n = length b" using b by (cases b; simp)+
  have "put_vbuf True ?i ?n k = Inr (put_itc qid ?q1 k)" using o i by (simp add: put_vbuf_def)
  moreover have "put_vbytes qid b ?n (put_itc qid ?q1 k) =
      Inr (put_itc qid (q\<lparr>m_qv := (m_qv q)(?i := \<lparr>mb = Live b, mlen = ?n\<rparr>), min_idx := (?i + 1) mod sizeof_q q\<rparr>) k)"
    using o(2) i n by (simp add: put_vbytes_def Let_def)
  ultimately show ?thesis using o(2,3) by (simp add: put_vmsg_def)
qed

lemma q_vsend_run:
  assumes q: "is_vqueue bl qid k q" and room: "nat (token q) < sizeof_q q" and b: "b \<noteq> []"
  shows "q_vsend False True oth qid b (length b - 1) k = Inr (RC_OK, put_itc qid (after_vsend b q) k)"
    "q_vsend_ny False True addr qid b (length b - 1) k = Inr (RC_OK, put_itc qid (after_vsend b q) k)"
proof -
  have i: "is_queue V_QUEUE qid k q" using q by (simp add: is_vqueue_def)
  have o: "queue_ok q" "qid < TK_MAX_NUM_Q" using i by (simp_all add: is_queue_def)
  obtain q1 where q1: "q1 = q\<lparr>m_qv := (m_qv q)(min_idx q := \<lparr>mb = Live b, mlen = length b - 1\<rparr>),
      min_idx := (min_idx q + 1) mod sizeof_q q\<rparr>" by blast
  note p = put_vmsg_run [OF q room b, folded q1]
  have t: "\<not> token q1 < 0" using o(1) by (simp add: queue_ok_def q1)
  have q2: "q1\<lparr>token := token q1 + 1\<rparr> = after_vsend b q" by (simp add: after_vsend_def q1)
  have u: "unlock_stage oth qid (put_itc qid q1 k) = Inr (RC_OK, put_itc qid (after_vsend b q) k)"
    "unlock_stage_ny addr qid (put_itc qid q1 k) = Inr (RC_OK, put_itc qid (after_vsend b q) k)"
    using o(2) t q2 by (simp_all add: unlock_stage_def unlock_stage_ny_def)
  have c: "queue_ok (after_vsend b q)"
    using after_vsend_ok(1) [OF q room b] by (simp add: is_vqueue_def is_queue_def)
  show "q_vsend False True oth qid b (length b - 1) k = Inr (RC_OK, put_itc qid (after_vsend b q) k)"
    "q_vsend_ny False True addr qid b (length b - 1) k = Inr (RC_OK, put_itc qid (after_vsend b q) k)"
    using queue_fullness [OF i] room o(2) p u checked_queue [OF o(2) c, of RC_OK k]
    by (simp_all add: q_vsend_def q_vsend_ny_def)
qed

lemma q_vreceive_run:
  assumes q: "is_vqueue bl qid k q" and some: "0 < token q"
  shows "q_vreceive oth qid fl timeout bl k =
      Inr (RC_OK, Some (vmsg (m_qv q (mout_idx q)), length (vmsg (m_qv q (mout_idx q))) - 1), put_itc qid (after_vrecv q) k)"
    "q_vreceive_ny qid fl timeout bl k =
      Inr (RC_OK, Some (vmsg (m_qv q (mout_idx q)), length (vmsg (m_qv q (mout_idx q))) - 1), put_itc qid (after_vrecv q) k)"
proof -
  have i: "is_queue V_QUEUE qid k q" "bl \<le> maxSizeof_m q" using q by (simp_all add: is_vqueue_def)
  have o: "queue_ok q" "qid < TK_MAX_NUM_Q" "itc_array k qid = Some q" using i by (simp_all add: is_queue_def)
  have "mout_idx q \<in> set (queue_slots q)" using slots_recv(2) [OF o(1) some] by simp
  then obtain b where b: "mb (m_qv q (mout_idx q)) = Live b" "length b = mlen (m_qv q (mout_idx q)) + 1"
    using q unfolding is_vqueue_def by blast
  let ?q1 = "q\<lparr>token := token q - 1\<rparr>"
  have l: "lock_stage oth qid timeout k = Inr (RC_OK, put_itc qid ?q1 k)"
    "lock_stage_ny qid timeout k = Inr (RC_OK, put_itc qid ?q1 k)"
    using o some by (simp_all add: lock_stage_def lock_stage_ny_def lock_begin_def)
  have "itc_proveConcistency qid (put_itc qid ?q1 k) = Inr True"
    using o some by (cases "token q > 1")
      (simp_all add: itc_proveConcistency_def queue_ok_def ring_walk.simps)
  then have c: "checked qid (Inr (RC_OK, put_itc qid ?q1 k)) = Inr (RC_OK, put_itc qid ?q1 k)"
    by (simp add: checked_def)
  have t: "take_vmsg qid (put_itc qid ?q1 k) = Inr (b, length b - 1, put_itc qid (after_vrecv q) k)"
    using o b slots_recv(1) [OF o(1) some] by (simp add: take_vmsg_def after_vrecv_def Let_def)
  have v: "vmsg (m_qv q (mout_idx q)) = b" using b by (simp add: vmsg_def)
  show "q_vreceive oth qid fl timeout bl k =
      Inr (RC_OK, Some (vmsg (m_qv q (mout_idx q)), length (vmsg (m_qv q (mout_idx q))) - 1), put_itc qid (after_vrecv q) k)"
    "q_vreceive_ny qid fl timeout bl k =
      Inr (RC_OK, Some (vmsg (m_qv q (mout_idx q)), length (vmsg (m_qv q (mout_idx q))) - 1), put_itc qid (after_vrecv q) k)"
    unfolding v using queue_fullness [OF i(1)] some o(2,3) l c t i(2)
    by (simp_all add: q_vreceive_def q_vreceive_ny_def)
qed

section \<open>The queues are bounded queues\<close>

definition at_queue :: "nat \<Rightarrow> 'b \<Rightarrow> (itc_t \<Rightarrow> 'b) \<Rightarrow> 'a itc_kern_scheme \<Rightarrow> 'b" where
  "at_queue qid d f k = (case itc_array k qid of None \<Rightarrow> d | Some q \<Rightarrow> f q)"

definition sent :: "(itc_rc \<times> 's) result \<Rightarrow> 's result" where
  "sent m = andThen m (\<lambda>(rc, k). c_assert (rc = RC_OK) (Inr k))"

definition received :: "(itc_rc \<times> 'm option \<times> 's) result \<Rightarrow> ('m \<times> 's) result" where
  "received m = andThen m (\<lambda>(_, r, k). case r of None \<Rightarrow> Inl Assert_failed | Some x \<Rightarrow> Inr (x, k))"

lemma at_queue_is [simp]: "is_queue ty qid k q \<Longrightarrow> at_queue qid d f k = f q"
  by (simp add: at_queue_def is_queue_def)

lemma is_queue_put: "is_queue ty qid (put_itc qid q' k) q \<Longrightarrow> q = q'"
  by (simp add: is_queue_def)

lemma msgs_some: "msgs q \<noteq> [] \<Longrightarrow> 0 < token q" "vmsgs q \<noteq> [] \<Longrightarrow> 0 < token q"
  by (auto simp: msgs_def vmsgs_def queue_slots_def)

text \<open>A queue operation of the code as one of the interface, in the four cases.\<close>

lemma simple_send:
  assumes "is_queue S_QUEUE qid k q" "length (at_queue qid [] msgs k) < at_queue qid 0 sizeof_q k"
    and "f m k = Inr (put_itc qid (after_send m q) k)"
  shows "\<exists>k'. f m k = Inr k' \<and> (\<exists>q'. is_queue S_QUEUE qid k' q') \<and>
    at_queue qid 0 sizeof_q k' = at_queue qid 0 sizeof_q k \<and> at_queue qid [] msgs k' = at_queue qid [] msgs k @ [m]"
proof -
  have room: "nat (token q) < sizeof_q q" using assms(1,2) by (simp add: msgs_def)
  note a = after_send_ok [OF assms(1) room, of m]
  then show ?thesis using assms(1,3) by auto
qed

lemma simple_recv:
  assumes "is_queue S_QUEUE qid k q" "at_queue qid [] msgs k = m # ms"
    and "f k = Inr (m_q q (mout_idx q), put_itc qid (after_recv q) k)"
  shows "\<exists>k'. f k = Inr (m, k') \<and> (\<exists>q'. is_queue S_QUEUE qid k' q') \<and>
    at_queue qid 0 sizeof_q k' = at_queue qid 0 sizeof_q k \<and> at_queue qid [] msgs k' = ms"
proof -
  have some: "0 < token q" using assms(1,2) by (intro msgs_some) simp
  note a = after_recv_ok [OF assms(1) some]
  then show ?thesis using assms by auto
qed

interpretation simple: bounded_fifo "at_queue qid [] msgs" "\<lambda>k. \<exists>q. is_queue S_QUEUE qid k q"
  "at_queue qid 0 sizeof_q" "\<lambda>_. True" "\<lambda>m k. sent (q_send oth qid m k)"
  "\<lambda>k. received (q_receive oth qid fl timeout k)" for oth qid fl timeout
proof (unfold_locales, goal_cases)
  case (1 k m)
  then obtain q where q: "is_queue S_QUEUE qid k q" by blast
  then have "nat (token q) < sizeof_q q" using 1 by (simp add: msgs_def)
  from q_send_run(1) [OF q this, of oth m] show ?case by (intro simple_send [OF q 1(2)]) (simp add: sent_def)
next
  case (2 k m ms)
  then obtain q where q: "is_queue S_QUEUE qid k q" by blast
  then have "0 < token q" using 2 by (intro msgs_some) simp
  from q_receive_run(1) [OF q this, of oth fl timeout] show ?case
    by (intro simple_recv [OF q 2(2)]) (simp add: received_def)
qed

definition sent_sti :: "(itc_rc \<times> bool \<times> 's) result \<Rightarrow> 's result" where
  "sent_sti m = andThen m (\<lambda>(rc, sti, k). c_assert (rc = RC_OK \<and> sti) (Inr k))"

definition received_v :: "(itc_rc \<times> (8 word list \<times> nat) option \<times> 's) result \<Rightarrow> (8 word list \<times> 's) result" where
  "received_v m = andThen m (\<lambda>(_, r, k). case r of None \<Rightarrow> Inl Assert_failed
     | Some (b, n) \<Rightarrow> c_assert (n = length b - 1) (Inr (b, k)))"

interpretation simple_ny: bounded_fifo "at_queue qid [] msgs" "\<lambda>k. \<exists>q. is_queue S_QUEUE qid k q"
  "at_queue qid 0 sizeof_q" "\<lambda>_. True" "\<lambda>m k. sent_sti (q_send_ny addr qid m k)"
  "\<lambda>k. received (q_receive_ny qid fl timeout k)" for addr qid fl timeout
proof (unfold_locales, goal_cases)
  case (1 k m)
  then obtain q where q: "is_queue S_QUEUE qid k q" by blast
  then have "nat (token q) < sizeof_q q" using 1 by (simp add: msgs_def)
  from q_send_run(2) [OF q this, of addr m] show ?case by (intro simple_send [OF q 1(2)]) (simp add: sent_sti_def)
next
  case (2 k m ms)
  then obtain q where q: "is_queue S_QUEUE qid k q" by blast
  then have "0 < token q" using 2 by (intro msgs_some) simp
  from q_receive_run(2) [OF q this, of fl timeout] show ?case
    by (intro simple_recv [OF q 2(2)]) (simp add: received_def)
qed

lemma at_vqueue_is [simp]: "is_vqueue bl qid k q \<Longrightarrow> at_queue qid d f k = f q"
  by (simp add: is_vqueue_def is_queue_def at_queue_def)

lemma var_send:
  assumes "is_vqueue bl qid k q" "length (at_queue qid [] vmsgs k) < at_queue qid 0 sizeof_q k" "m \<noteq> []"
    and "f m k = Inr (put_itc qid (after_vsend m q) k)"
  shows "\<exists>k'. f m k = Inr k' \<and> (\<exists>q'. is_vqueue bl qid k' q') \<and>
    at_queue qid 0 sizeof_q k' = at_queue qid 0 sizeof_q k \<and> at_queue qid [] vmsgs k' = at_queue qid [] vmsgs k @ [m]"
proof -
  have room: "nat (token q) < sizeof_q q" using assms(1,2) by (simp add: vmsgs_def)
  note a = after_vsend_ok [OF assms(1) room assms(3)]
  then show ?thesis using assms(1,4) by auto
qed

lemma var_recv:
  assumes "is_vqueue bl qid k q" "at_queue qid [] vmsgs k = m # ms"
    and "f k = Inr (vmsg (m_qv q (mout_idx q)), put_itc qid (after_vrecv q) k)"
  shows "\<exists>k'. f k = Inr (m, k') \<and> (\<exists>q'. is_vqueue bl qid k' q') \<and>
    at_queue qid 0 sizeof_q k' = at_queue qid 0 sizeof_q k \<and> at_queue qid [] vmsgs k' = ms"
proof -
  have some: "0 < token q" using assms(1,2) by (intro msgs_some) simp
  note a = after_vrecv_ok [OF assms(1) some]
  then show ?thesis using assms by auto
qed

interpretation variable: bounded_fifo "at_queue qid [] vmsgs" "\<lambda>k. \<exists>q. is_vqueue bl qid k q"
  "at_queue qid 0 sizeof_q" "\<lambda>m. m \<noteq> []" "\<lambda>m k. sent (q_vsend False True oth qid m (length m - 1) k)"
  "\<lambda>k. received_v (q_vreceive oth qid fl timeout bl k)" for oth qid fl timeout bl
proof (unfold_locales, goal_cases)
  case (1 k m)
  then obtain q where q: "is_vqueue bl qid k q" by blast
  then have "nat (token q) < sizeof_q q" using 1 by (simp add: vmsgs_def)
  from q_vsend_run(1) [OF q this 1(3), of oth] show ?case by (intro var_send [OF q 1(2,3)]) (simp add: sent_def)
next
  case (2 k m ms)
  then obtain q where q: "is_vqueue bl qid k q" by blast
  then have "0 < token q" using 2 by (intro msgs_some) simp
  from q_vreceive_run(1) [OF q this, of oth fl timeout] show ?case
    by (intro var_recv [OF q 2(2)]) (simp add: received_v_def)
qed

interpretation variable_ny: bounded_fifo "at_queue qid [] vmsgs" "\<lambda>k. \<exists>q. is_vqueue bl qid k q"
  "at_queue qid 0 sizeof_q" "\<lambda>m. m \<noteq> []" "\<lambda>m k. sent (q_vsend_ny False True addr qid m (length m - 1) k)"
  "\<lambda>k. received_v (q_vreceive_ny qid fl timeout bl k)" for addr qid fl timeout bl
proof (unfold_locales, goal_cases)
  case (1 k m)
  then obtain q where q: "is_vqueue bl qid k q" by blast
  then have "nat (token q) < sizeof_q q" using 1 by (simp add: vmsgs_def)
  from q_vsend_run(2) [OF q this 1(3), of addr] show ?case by (intro var_send [OF q 1(2,3)]) (simp add: sent_def)
next
  case (2 k m ms)
  then obtain q where q: "is_vqueue bl qid k q" by blast
  then have "0 < token q" using 2 by (intro msgs_some) simp
  from q_vreceive_run(2) [OF q this, of fl timeout] show ?case
    by (intro var_recv [OF q 2(2)]) (simp add: received_v_def)
qed

end
