(* ===== verification/TkItcProps.thy ===== *)
theory TkItcProps
  imports TkDemo TkQueue
begin

text \<open>
  The properties of inter-thread communication. Semaphores refine the abstract counting
  semaphore of \<open>TkSem\<close>; queues are first in, first out; and what the code does when a
  time-out, a deletion or two interrupts meet a queue.
\<close>

section \<open>Objects\<close>

text \<open>The search for a free slot visits every slot once, from the last one used.\<close>

lemma find_slot_spec:
  assumes "i < TK_MAX_NUM_Q" "c + n = TK_MAX_NUM_Q"
  shows "find_slot n k i c =
    (case find (\<lambda>j. itc_array k ((i + j) mod TK_MAX_NUM_Q) = None) [0..<n] of
       Some j \<Rightarrow> ((i + j) mod TK_MAX_NUM_Q, c + j)
     | None \<Rightarrow> ((i + n) mod TK_MAX_NUM_Q, c + n))"
  using assms
proof (induction n arbitrary: i c)
  case 0
  then show ?case by simp
next
  case (Suc n)
  have c: "c < TK_MAX_NUM_Q" using Suc.prems(2) by simp
  show ?case
  proof (cases "itc_array k i = None")
    case True
    then show ?thesis using Suc.prems by (simp add: upt_rec)
  next
    case False
    then obtain q where q: "itc_array k i = Some q" by blast
    let ?i = "(i + 1) mod TK_MAX_NUM_Q"
    have "?i < TK_MAX_NUM_Q" by simp
    moreover have "(c + 1) + n = TK_MAX_NUM_Q" using Suc.prems(2) by simp
    ultimately have ih: "find_slot n k ?i (c + 1) =
      (case find (\<lambda>j. itc_array k ((?i + j) mod TK_MAX_NUM_Q) = None) [0..<n] of
         Some j \<Rightarrow> ((?i + j) mod TK_MAX_NUM_Q, (c + 1) + j)
       | None \<Rightarrow> ((?i + n) mod TK_MAX_NUM_Q, (c + 1) + n))" by (rule Suc.IH)
    have sh: "(?i + j) mod TK_MAX_NUM_Q = (i + Suc j) mod TK_MAX_NUM_Q" for j
      by (metis add_Suc_right add_Suc_shift Suc_eq_plus1 mod_add_left_eq)
    have f: "find (\<lambda>j. itc_array k ((i + j) mod TK_MAX_NUM_Q) = None) [0..<Suc n] =
        map_option Suc (find (\<lambda>j. itc_array k ((i + Suc j) mod TK_MAX_NUM_Q) = None) [0..<n])"
      using q Suc.prems(1) by (simp add: upt_conv_Cons map_Suc_upt [symmetric] find_map comp_def del: upt_Suc)
    have "find_slot (Suc n) k i c = find_slot n k ?i (c + 1)" using q c by simp
    then show ?thesis unfolding f ih [unfolded sh] by (simp split: option.split)
  qed
qed

lemma find_slot_around:
  assumes "itc_idx k < TK_MAX_NUM_Q"
  shows "(\<forall>i < TK_MAX_NUM_Q. itc_array k i \<noteq> None) \<Longrightarrow>
      itc_findNextEmpySlot k = (ERR_OBJFULL, k\<lparr>itc_idx := itc_idx k\<rparr>)"
    and "i < TK_MAX_NUM_Q \<Longrightarrow> itc_array k i = None \<Longrightarrow>
      \<exists>j. itc_findNextEmpySlot k = (RC_OK, k\<lparr>itc_idx := j\<rparr>) \<and> j < TK_MAX_NUM_Q \<and> itc_array k j = None"
proof -
  let ?P = "\<lambda>j. itc_array k ((itc_idx k + j) mod TK_MAX_NUM_Q) = None"
  note spec = find_slot_spec [OF assms, of 0 TK_MAX_NUM_Q k, simplified]
  {
    assume "\<forall>i < TK_MAX_NUM_Q. itc_array k i \<noteq> None"
    then have "find ?P [0..<TK_MAX_NUM_Q] = None" by (simp add: find_None_iff del: not_None_eq)
    then show "itc_findNextEmpySlot k = (ERR_OBJFULL, k\<lparr>itc_idx := itc_idx k\<rparr>)"
      using spec assms by (simp add: itc_findNextEmpySlot_def)
  next
    assume i: "i < TK_MAX_NUM_Q" "itc_array k i = None"
    let ?j = "(i + TK_MAX_NUM_Q - itc_idx k) mod TK_MAX_NUM_Q"
    have "(itc_idx k + ?j) mod TK_MAX_NUM_Q = i"
      using assms i(1) by (simp add: mod_add_right_eq)
    then have "find ?P [0..<TK_MAX_NUM_Q] \<noteq> None"
      unfolding find_None_iff using i(2) by (auto intro!: exI [of _ ?j])
    then obtain j where j: "find ?P [0..<TK_MAX_NUM_Q] = Some j" by auto
    then have "j < TK_MAX_NUM_Q" "?P j" by (auto simp: find_Some_iff)
    with j spec show "\<exists>j. itc_findNextEmpySlot k = (RC_OK, k\<lparr>itc_idx := j\<rparr>) \<and> j < TK_MAX_NUM_Q \<and>
        itc_array k j = None"
      by (intro exI [of _ "(itc_idx k + j) mod TK_MAX_NUM_Q"]) (simp add: itc_findNextEmpySlot_def)
  }
qed

text \<open>
  \<open>sm_create\<close> gives a semaphore with the wanted number of tokens and no waiters in a
  slot that was free, and touches no other object; with all slots taken it fails and changes
  no object.
\<close>

theorem sm_create_fresh:
  assumes "itc_idx k < TK_MAX_NUM_Q"
  shows "if \<forall>i < TK_MAX_NUM_Q. itc_array k i \<noteq> None
    then \<exists>k'. sm_create (Some q) True name count fl k = Inr (ERR_OBJFULL, 0, k') \<and> itc_array k' = itc_array k
    else \<exists>i k' q'. sm_create (Some q) True name count fl k = Inr (RC_OK, i, k') \<and> i < TK_MAX_NUM_Q \<and>
      itc_array k i = None \<and> itc_array k' = (itc_array k)(i \<mapsto> q') \<and> b_type q' = SEM \<and> flags q' = fl \<and>
      itc_ok k' q' \<and> spec_of q' = Tokens count"
proof (cases "\<forall>i < TK_MAX_NUM_Q. itc_array k i \<noteq> None")
  case True
  then show ?thesis using find_slot_around(1) [OF assms True] by (simp add: sm_create_def)
next
  case False
  then obtain i where "i < TK_MAX_NUM_Q" "itc_array k i = None" by auto
  from find_slot_around(2) [OF assms this] obtain j where
    j: "itc_findNextEmpySlot k = (RC_OK, k\<lparr>itc_idx := j\<rparr>)" "j < TK_MAX_NUM_Q" "itc_array k j = None" by blast
  let ?q = "sm_init name count fl q"
  have "itc_ok k' ?q" "spec_of ?q = Tokens count" for k' :: "'a itc_kern_scheme"
    by (simp_all add: itc_ok_def sm_init_def ring_ok_def ring_len_def waiting_def spec_of_def)
  moreover have "sm_create (Some q) True name count fl k = Inr (RC_OK, j, put_itc j ?q (k\<lparr>itc_idx := j\<rparr>))"
    using j by (simp add: sm_create_def)
  moreover have "itc_array (put_itc j ?q (k\<lparr>itc_idx := j\<rparr>)) = (itc_array k)(j \<mapsto> ?q)" "b_type ?q = SEM" "flags ?q = fl"
    by (simp_all add: put_itc_def sm_init_def)
  ultimately show ?thesis using j(2,3) False by (simp del: not_None_eq) blast
qed

theorem sm_create_fresh_witness:
  "\<exists>i k' q'. sm_create (Some blank_itc) True ''sem'' 3 FIFO (itc_demo READY READY 0 (\<lambda>_. None) 4) =
      Inr (RC_OK, i, k') \<and> b_type q' = SEM \<and> itc_array k' i = Some q' \<and> spec_of q' = Tokens 3"
proof -
  let ?k = "itc_demo READY READY 0 (\<lambda>_. None) 4"
  have i: "itc_idx ?k < TK_MAX_NUM_Q" by (simp add: TK_MAX_NUM_Q_def)
  have f: "\<not> (\<forall>i < TK_MAX_NUM_Q. itc_array ?k i \<noteq> None)" by (auto intro: exI [of _ 0])
  obtain j k' q' where "sm_create (Some blank_itc) True ''sem'' 3 FIFO ?k = Inr (RC_OK, j, k')"
    "itc_array k' = (itc_array ?k)(j \<mapsto> q')" "b_type q' = SEM" "spec_of q' = Tokens 3"
    using sm_create_fresh [OF i, of blank_itc "''sem''" 3 FIFO, unfolded if_not_P [OF f]] by blast
  then show ?thesis by (intro exI [of _ j] exI [of _ k'] exI [of _ q']) simp
qed

section \<open>Semaphores\<close>

lemma taken_refines:
  assumes "itc_ok k q" "token q > 0"
  shows "itc_ok k (q\<lparr>token := token q - 1\<rparr>)" "spec_of (q\<lparr>token := token q - 1\<rparr>) = spec_p me (spec_of q)"
proof -
  obtain n where n: "token q = int (Suc n)" using assms(2) by (metis gr0_conv_Suc zero_less_imp_eq_int)
  show "itc_ok k (q\<lparr>token := token q - 1\<rparr>)" using assms by (auto simp: itc_ok_def)
  show "spec_of (q\<lparr>token := token q - 1\<rparr>) = spec_p me (spec_of q)" by (simp add: spec_of_def n nat_add_distrib)
qed

lemma enqueued_refines:
  assumes ok: "itc_ok k q" and t: "token q \<le> 0" and room: "ring_len q \<noteq> MAXB - 1"
    and me: "me \<in> valid_tids k" "Some me \<notin> set (waiting q)"
  shows "itc_ok k (enqueued me q)" "spec_of (enqueued me q) = spec_p me (spec_of q)"
proof -
  have r: "nat \<bar>token q\<bar> < MAXB - 1"
    using t ok room ring_len_less [of q] by (auto simp: itc_ok_def)
  note e = enqueued_ok [OF ok t r me]
  show "itc_ok k (enqueued me q)" by (rule e(1))
  show "spec_of (enqueued me q) = spec_p me (spec_of q)"
    using t e(2,3) itc_ok_empty [OF ok] by (cases "token q = 0") (simp_all add: spec_of_def)
qed

text \<open>
  C10. \<open>sm_p\<close> takes a token as the abstract semaphore does. With \<open>NOWAIT\<close> and no token it
  refuses; with the ring full it refuses too; otherwise the running thread ends up last in the
  ring, not ready, before the processor is given away. In no case does an array access leave
  its bounds.
\<close>

theorem sm_p_refines:
  assumes q: "qid < TK_MAX_NUM_Q" "itc_array k qid = Some q" "b_type q = SEM" and ok: "itc_ok k q"
    and me: "active_thread k \<in> valid_tids k" "Some (active_thread k) \<notin> set (waiting q)"
  shows "if token q \<le> 0 \<and> fl AND NOWAIT \<noteq> 0 then sm_p oth qid fl timeout k = Inr (ERR_NOSEM, k)
    else if token q \<le> 0 \<and> ring_len q = MAXB - 1 then sm_p oth qid fl timeout k = Inr (ERR_BLOCKLIMIT, k)
    else \<exists>q'. itc_ok k q' \<and> spec_of q' = spec_p (active_thread k) (spec_of q) \<and>
      (if token q > 0 then sm_p oth qid fl timeout k = Inr (RC_OK, put_itc qid q' k)
       else \<exists>k1. k1 = block_self timeout (put_itc qid q' k) \<and> \<not> ready k1 (active_thread k) \<and>
         sm_p oth qid fl timeout k = andThen (tk_yield oth k1) (\<lambda>k2.
           if timeout = 0 then Inr (RC_OK, k2) else lock_resume (active_thread k) qid (in_idx q') k2))"
proof -
  have w: "wrong_type qid SEM k = None" using q by (simp add: wrong_type_def)
  note lb = lock_begin_cases [OF q(1,2) ok me, of timeout]
  have run: "sm_p oth qid fl timeout k =
      (if token q \<le> 0 \<and> fl AND NOWAIT \<noteq> 0 then Inr (ERR_NOSEM, k) else lock_stage oth qid timeout k)"
    using q w by (simp add: sm_p_def would_block_def)
  consider "token q \<le> 0 \<and> fl AND NOWAIT \<noteq> 0 \<or> token q \<le> 0 \<and> ring_len q = MAXB - 1" | "token q > 0"
    | "token q \<le> 0" "ring_len q \<noteq> MAXB - 1" by linarith
  then show ?thesis
  proof cases
    case 1
    then show ?thesis unfolding run using lb by (auto simp: lock_stage_def)
  next
    case 2
    let ?q = "q\<lparr>token := token q - 1\<rparr>"
    have "lock_stage oth qid timeout k = Inr (RC_OK, put_itc qid ?q k)" using lb 2 by (simp add: lock_stage_def)
    with 2 taken_refines [OF ok 2] show ?thesis unfolding run by (intro if_bool_eq_conj [THEN iffD2]) auto
  next
    case 3
    let ?q = "enqueued (active_thread k) q" and ?me = "active_thread k"
    let ?k = "block_self timeout (put_itc qid ?q k)"
    have "lock_stage oth qid timeout k = andThen (tk_yield oth ?k) (\<lambda>k2.
        if timeout = 0 then Inr (RC_OK, k2) else lock_resume ?me qid (in_idx ?q) k2)"
      using lb 3 by (simp add: lock_stage_def)
    moreover have "\<not> ready ?k ?me" using block_self_blocked(2) [of timeout "put_itc qid ?q k"] by simp
    moreover note enqueued_refines [OF ok 3 me]
    ultimately show ?thesis using 3 unfolding run by auto
  qed
qed

theorem sm_p_refines_witness:
  "\<exists>q'. sm_p nobody 0 WAIT 0 (itc_demo READY READY 0 (\<lambda>_. Some (blank_itc\<lparr>token := 1\<rparr>)) 0) =
      Inr (RC_OK, put_itc 0 q' (itc_demo READY READY 0 (\<lambda>_. Some (blank_itc\<lparr>token := 1\<rparr>)) 0)) \<and>
    spec_of q' = Tokens 0"
proof -
  let ?q = "blank_itc\<lparr>token := 1\<rparr>"
  let ?k = "itc_demo READY READY 0 (\<lambda>_. Some ?q) 0"
  have h: "0 < TK_MAX_NUM_Q" "itc_array ?k 0 = Some ?q" "b_type ?q = SEM" "itc_ok ?k ?q"
    "active_thread ?k \<in> valid_tids ?k" "Some (active_thread ?k) \<notin> set (waiting ?q)"
    by simp_all
  have "spec_p 0 (spec_of ?q) = Tokens 0" by (simp add: spec_of_def)
  then show ?thesis using sm_p_refines [OF h, of WAIT nobody 0] by auto
qed

text \<open>
  C11. \<open>sm_v\<close> on a semaphore nobody waits for adds a token. Otherwise one waiter is made
  ready and leaves the ring before the processor is given away: with \<open>PRIOR\<close> the first of the
  most urgent ones, in order of arrival the first that still waits, with those before it that
  time-outs have released already.
\<close>

theorem sm_v_refines:
  assumes q: "qid < TK_MAX_NUM_Q" "itc_array k qid = Some q" "b_type q = SEM" and ok: "itc_ok k q"
    and pr: "\<forall>t \<in> valid_tids k. Prio (pool k t) < TK_MAX_PRIO_LEVELS"
  shows "if token q \<ge> 0
    then \<exists>q'. sm_v oth qid k = Inr (RC_OK, put_itc qid q' k) \<and> itc_ok k q' \<and> spec_of q' = spec_v 0 (spec_of q)
    else \<exists>j q' ts k1. ts = map the (waiting q) \<and> j < length ts \<and> k1 = put_itc qid q' (wake_itc (ts ! j) k) \<and>
      sm_v oth qid k = andThen (tk_yield oth k1) (\<lambda>k2. Inr (RC_OK, k2)) \<and> itc_ok k1 q' \<and>
      (if flags q AND PRIOR \<noteq> 0
       then spec_of q' = spec_v j (spec_of q) \<and>
         (\<forall>l < length ts. Prio (pool k (ts ! j)) \<le> Prio (pool k (ts ! l))) \<and>
         (\<forall>l < j. Prio (pool k (ts ! j)) < Prio (pool k (ts ! l)))
       else spec_of q' = spec_waiters (drop (Suc j) ts) \<and>
         j = first_blocked (\<lambda>t. has_flag (state (pool k t)) QUEUE) ts)"
proof -
  have w: "wrong_type qid SEM k = None" using q by (simp add: wrong_type_def)
  have run: "sm_v oth qid k = unlock_stage oth qid k" using q w by (simp add: sm_v_def)
  have len: "length (map the (waiting q)) = ring_len q" by simp
  show ?thesis
  proof (cases "token q \<ge> 0")
    case True
    let ?q = "q\<lparr>token := token q + 1\<rparr>"
    have "itc_ok k ?q" using ok True by (auto simp: itc_ok_def)
    moreover have "spec_of ?q = spec_v 0 (spec_of q)" using True by (simp add: spec_of_def nat_add_distrib)
    moreover have "sm_v oth qid k = Inr (RC_OK, put_itc qid ?q k)" using q True by (simp add: run unlock_stage_def)
    ultimately show ?thesis using True by auto
  next
    case False
    then have neg: "token q < 0" by simp
    show ?thesis
    proof (cases "flags q AND PRIOR = 0")
      case fifo: True
      from unlock_fifo_spec [OF ok neg, of qid] obtain j q' where
        j: "j < ring_len q" "unlock_fifo qid q k = Inr (the (waiting q ! j), put_itc qid q' (wake_itc (the (waiting q ! j)) k))"
          "itc_ok k q'" "token q' \<le> 0" "map the (waiting q') = drop (Suc j) (map the (waiting q))"
          "j = first_blocked (\<lambda>t. has_flag (state (pool k t)) QUEUE) (map the (waiting q))" by blast
      let ?t = "map the (waiting q) ! j"
      have t: "the (waiting q ! j) = ?t" using j(1) by simp
      have "sm_v oth qid k = andThen (tk_yield oth (put_itc qid q' (wake_itc ?t k))) (\<lambda>k2. Inr (RC_OK, k2))"
        using q neg fifo j(2) unfolding run t by (simp add: unlock_stage_def)
      moreover have "itc_ok (put_itc qid q' (wake_itc ?t k)) q'" by (rule itc_ok_valid [OF j(3)]) simp
      moreover have "spec_of q' = spec_waiters (drop (Suc j) (map the (waiting q)))"
        unfolding j(5) [symmetric] by (rule spec_of_waiters [OF j(3,4)])
      moreover have "\<not> (flags q AND PRIOR \<noteq> 0)" using fifo by simp
      moreover obtain k1 where "k1 = put_itc qid q' (wake_itc (map the (waiting q) ! j) k)" by blast
      ultimately show ?thesis unfolding if_not_P [OF False] using j(1,6) len by metis
    next
      case prior: False
      from unlock_prior_spec [OF ok neg pr, of qid] obtain j q' where
        j: "j < ring_len q" "unlock_prior qid q k = Inr (Some (put_itc qid q' (wake_itc (the (waiting q ! j)) k)))"
          "itc_ok k q'" "spec_of q' = spec_v j (spec_of q)"
          "\<forall>l < ring_len q. Prio (pool k (the (waiting q ! j))) \<le> Prio (pool k (the (waiting q ! l)))"
          "\<forall>l < j. Prio (pool k (the (waiting q ! j))) < Prio (pool k (the (waiting q ! l)))" by blast
      let ?ts = "map the (waiting q)"
      have t: "the (waiting q ! l) = ?ts ! l" if "l < ring_len q" for l using that by simp
      have "sm_v oth qid k = andThen (tk_yield oth (put_itc qid q' (wake_itc (?ts ! j) k))) (\<lambda>k2. Inr (RC_OK, k2))"
        using q neg prior j(2) t [OF j(1)] unfolding run by (simp add: unlock_stage_def)
      moreover have "itc_ok (put_itc qid q' (wake_itc (?ts ! j) k)) q'" by (rule itc_ok_valid [OF j(3)]) simp
      moreover have "\<forall>l < length ?ts. Prio (pool k (?ts ! j)) \<le> Prio (pool k (?ts ! l))"
        using j(1,5) by simp
      moreover have "\<forall>l < j. Prio (pool k (?ts ! j)) < Prio (pool k (?ts ! l))" using j(1,6) by simp
      moreover obtain k1 where "k1 = put_itc qid q' (wake_itc (?ts ! j) k)" by blast
      ultimately show ?thesis unfolding if_not_P [OF False] if_P [OF prior] using j(1,4) len by metis
    qed
  qed
qed

theorem sm_v_refines_witness:
  "\<exists>q' k1. sm_v nobody 0 (itc_demo READY QUEUE 0 (\<lambda>_. Some (held [2])) 0) =
      andThen (tk_yield nobody k1) (\<lambda>k2. Inr (RC_OK, k2)) \<and>
    k1 = put_itc 0 q' (wake_itc 2 (itc_demo READY QUEUE 0 (\<lambda>_. Some (held [2])) 0)) \<and> spec_of q' = Tokens 0"
proof -
  let ?k = "itc_demo READY QUEUE 0 (\<lambda>_. Some (held [2])) 0"
  have m: "length [2 :: thid_t] < MAXB" by (simp add: TK_MAX_BLOCKED_ON_Q_def TK_MAX_THREADS_def)
  have "itc_ok ?k (held [2])" by (rule held_ok [OF m]) auto
  moreover have "\<forall>t \<in> valid_tids ?k. Prio (pool ?k t) < TK_MAX_PRIO_LEVELS"
    by (auto simp: blank_tcb_def tuning_defs)
  moreover have "\<not> 0 \<le> token (held [2])" by simp
  moreover have "flags (held [2]) AND PRIOR = 0" by (simp add: FIFO_def PRIOR_def)
  ultimately show ?thesis
    using sm_v_refines [of 0 ?k "held [2]" nobody] held_waiting [OF m] by (auto simp: spec_waiters_def)
qed

lemma kernel_ok_put_itc:
  assumes "kernel_ok X k"
  shows "kernel_ok X (put_itc qid q k)"
proof -
  have s: "sched_same k (put_itc qid q k)" by (simp add: sched_same_def put_itc_def)
  have "family_inv (put_itc qid q k)" by (rule relative_ok_states [OF kernel_okD(4) [OF assms] s]) auto
  then show ?thesis by (rule kernel_ok_same [OF assms s]) (use assms in \<open>auto simp: kernel_ok_def\<close>)
qed

lemma kernel_ok_wake_itc: "kernel_ok X k \<Longrightarrow> kernel_ok X (wake_itc t k)"
  unfolding wake_itc_def by (rule kernel_ok_upd_tcb) simp_all

text \<open>
  C12. Priority hand-over: when the most urgent thread of the system is blocked on a \<open>PRIOR\<close>
  semaphore, \<open>sm_v\<close> gives it the processor: unless a zombie is in a full row, the dispatcher
  that \<open>sm_v\<close> calls returns without a fault and that thread runs, ready.
\<close>

theorem sm_v_hands_over:
  assumes k: "kernel_ok X k" "IntFlagCntr k = 0" "npreempt k < 2" "\<not> stuck_zombie k"
    and q: "qid < TK_MAX_NUM_Q" "itc_array k qid = Some q" "b_type q = SEM" and ok: "itc_ok k q"
    and pr: "\<forall>u \<in> valid_tids k. Prio (pool k u) < TK_MAX_PRIO_LEVELS"
    and t: "t \<in> valid_tids k - X" "Some t \<in> set (waiting q)" "state (pool k t) = QUEUE" "flags q AND PRIOR \<noteq> 0"
    and top: "\<forall>u \<in> valid_tids k - {t}. Prio (pool k t) < Prio (pool k u)"
  shows "\<exists>k2. sm_v oth qid k = andThen (resume oth (active_thread k) k2) (\<lambda>k3. Inr (RC_OK, k3)) \<and>
    active_thread k2 = t \<and> ready k2 t \<and> kernel_ok X k2"
proof -
  have neg: "\<not> token q \<ge> 0" using ok t(2) by (auto simp: itc_ok_def simp flip: length_waiting)
  obtain j q' ts k1 where j: "ts = map the (waiting q)" "j < length ts" "k1 = put_itc qid q' (wake_itc (ts ! j) k)"
      "sm_v oth qid k = andThen (tk_yield oth k1) (\<lambda>k2. Inr (RC_OK, k2))"
      "\<forall>l < length ts. Prio (pool k (ts ! j)) \<le> Prio (pool k (ts ! l))"
    using sm_v_refines [OF q ok pr, of oth, unfolded if_not_P [OF neg] if_P [OF t(4)]] by blast
  have "t \<in> set ts" using t(2) j(1) by force
  then have le: "Prio (pool k (ts ! j)) \<le> Prio (pool k t)" using j(5) by (metis in_set_conv_nth)
  have "ts ! j \<in> valid_tids k" using itc_okD(4) [OF ok] j(1,2) by auto
  with le top have tj: "ts ! j = t" by (metis Diff_iff leD singletonD)
  have k1: "kernel_ok X k1" unfolding j(3) by (rule kernel_ok_put_itc) (rule kernel_ok_wake_itc [OF k(1)])
  have c: "IntFlagCntr k1 = 0" "npreempt k1 < 2" "active_thread k1 = active_thread k" "valid_tids k1 = valid_tids k"
    "\<And>u. Prio (pool k1 u) = Prio (pool k u)"
    using k(2,3) by (simp_all add: j(3) wake_itc_def) (auto simp: put_itc_def valid_tids_def)
  have rt: "ready k1 t" using t(3) by (simp add: j(3) tj ready_def wake_itc_def READY_def QUEUE_def STATE_QST_def)
  have ns: "\<not> stuck_zombie k1"
  proof
    assume "stuck_zombie k1"
    moreover have "has_flag (state (pool k1 u)) ZOMBI = has_flag (state (pool k u)) ZOMBI" "procs k1 p = procs k p" for u p
      by (simp_all add: j(3) wake_itc_def) (simp add: put_itc_def)
    ultimately show False using k(4) by (simp add: stuck_zombie_def full_row_def c(4,5))
  qed
  show ?thesis
  proof (rule yield_switch_ok [OF k1 c(1,2)])
    assume "stuck_zombie k1"
    with ns show ?thesis by simp
  next
    fix k2 k'
    assume w: "woken_rel X (clock_now k1) (if npreempt k1 > 0 then {} else {t. in_pool t}) k1 k2"
      and y: "tk_yield_switch k1 = Inr k'" "switched X k'" "threadPool k' = threadPool k2" "sched_same k2 k'"
    have z: "\<not> has_flag (state (pool k1 t)) ZOMBI" using rt by (simp add: ready_def)
    have v1: "t \<in> valid_tids k1" using t(1) by (simp add: c(4))
    have "t \<in> valid_tids k2" using w z v1 unfolding woken_rel_def by blast
    then have v: "t \<in> valid_tids k' - X" using t(1) sched_same_valid_tids [OF y(4)] by simp
    have "ready k2 t" using w rt unfolding woken_rel_def by blast
    then have r: "ready k' t" by (simp add: ready_def y(3))
    have p: "Prio (pool k' u) = Prio (pool k u)" for u
      using w by (simp add: woken_rel_def y(3) c(5))
    have sub: "valid_tids k' \<subseteq> valid_tids k"
      using w sched_same_valid_tids [OF y(4)] c(4) by (auto simp: woken_rel_def)
    have "active_thread k' = t"
    proof (rule ccontr)
      assume ne: "active_thread k' \<noteq> t"
      have a: "active_thread k' \<in> valid_tids k'" "Prio (pool k' (active_thread k')) \<le> Prio (pool k' t)"
        using y(2) v r by (auto simp: switched_def)
      with sub top ne show False by (metis p Diff_iff leD singletonD subsetD)
    qed
    with y(1,2) r c(3) show ?thesis
      by (intro exI [of _ k']) (simp add: j(4) tk_yield_def andThen_assoc switched_def)
  qed
qed

theorem sm_v_hands_over_witness:
  "\<exists>k2. sm_v nobody 0 (itc_demo QUEUE READY 2 (\<lambda>_. Some (held [0]\<lparr>flags := PRIOR\<rparr>)) 0) =
      andThen (resume nobody 2 k2) (\<lambda>k3. Inr (RC_OK, k3)) \<and> active_thread k2 = 0"
proof -
  let ?q = "held [0]\<lparr>flags := PRIOR\<rparr>"
  let ?k = "itc_demo QUEUE READY 2 (\<lambda>_. Some ?q) 0"
  have m: "length [0 :: thid_t] < MAXB" by (simp add: TK_MAX_BLOCKED_ON_Q_def TK_MAX_THREADS_def)
  have w: "waiting ?q = waiting (held [0])" "ring_ok ?q = ring_ok (held [0])" "ring_len ?q = ring_len (held [0])"
    by (simp_all add: waiting_def ring_len_def ring_pos_def ring_ok_def)
  have "itc_ok ?k (held [0])" by (rule held_ok [OF m]) auto
  then have o: "itc_ok ?k ?q" by (simp add: itc_ok_def w)
  have k: "kernel_ok {} ?k" by (rule itc_demo_ok) simp
  have h: "IntFlagCntr ?k = 0" "npreempt ?k < 2" "\<not> stuck_zombie ?k" "0 < TK_MAX_NUM_Q" "itc_array ?k 0 = Some ?q" "b_type ?q = SEM"
    "\<forall>u \<in> valid_tids ?k. Prio (pool ?k u) < TK_MAX_PRIO_LEVELS" "0 \<in> valid_tids ?k - {}"
    "Some 0 \<in> set (waiting ?q)" "state (pool ?k 0) = QUEUE" "flags ?q AND PRIOR \<noteq> 0"
    "\<forall>u \<in> valid_tids ?k - {0}. Prio (pool ?k 0) < Prio (pool ?k u)"
    by (auto simp: held_waiting [OF m] blank_tcb_def tuning_defs PRIOR_def) (simp add: w(1) [unfolded PRIOR_def] held_waiting [OF m])
  show ?thesis using sm_v_hands_over [OF k h(1-6) o h(7-12), of nobody] by auto
qed

section \<open>Queues\<close>

lemma empty_queue_is:
  assumes "itc_array k qid = Some (empty_queue ty n)" "qid < TK_MAX_NUM_Q" "0 < n"
  shows "is_queue ty qid k (empty_queue ty n)" "queue_slots (empty_queue ty n) = []"
  using assms by (simp_all add: is_queue_def queue_ok_def queue_slots_def)

text \<open>
  C13. Messages sent to a simple queue with room for them come out in the order in which they
  were sent, behind the ones that were there; no send reports an error or gives up the
  processor, and the queue is empty afterwards.
\<close>

theorem queue_round_trip:
  assumes "is_queue S_QUEUE qid k q" "length (msgs q) + length ms \<le> sizeof_q q"
  shows "\<exists>k1 k2. foldR (\<lambda>m k. sent (q_send oth qid m k)) ms k = Inr k1 \<and>
    recv_n (\<lambda>k. received (q_receive oth qid fl timeout k)) (length (msgs q) + length ms) k1 = Inr (msgs q @ ms, k2) \<and>
    at_queue qid [] msgs k2 = []"
  using simple.round_trip [of qid k ms oth fl timeout] assms by auto

theorem queue_round_trip_witness:
  "\<exists>k1 k2. foldR (\<lambda>m k. sent (q_send nobody 0 m k)) [[1,2,3,4], [5,6,7,8]]
      (itc_demo READY READY 0 (\<lambda>_. Some (empty_queue S_QUEUE 3)) 0) = Inr k1 \<and>
    recv_n (\<lambda>k. received (q_receive nobody 0 WAIT 0 k)) 2 k1 = Inr ([[1,2,3,4], [5,6,7,8]], k2)"
proof -
  let ?k = "itc_demo READY READY 0 (\<lambda>_. Some (empty_queue S_QUEUE 3)) 0"
  have q: "is_queue S_QUEUE 0 ?k (empty_queue S_QUEUE 3)" "msgs (empty_queue S_QUEUE 3) = []"
    using empty_queue_is [of ?k 0 S_QUEUE 3] by (simp_all add: msgs_def)
  show ?thesis
    using queue_round_trip [OF q(1), of "[[1,2,3,4], [5,6,7,8]]" nobody WAIT 0] q(2)
    by (auto simp: numeral_2_eq_2)
qed

text \<open>
  The same of queues of variable messages, as long as the queue's slot is the one created
  last: each message comes out with its bytes and its length.
\<close>

theorem vqueue_round_trip:
  assumes "is_vqueue bl qid k q" "length (vmsgs q) + length ms \<le> sizeof_q q" "[] \<notin> set ms"
  shows "\<exists>k1 k2. foldR (\<lambda>m k. sent (q_vsend False True oth qid m (length m - 1) k)) ms k = Inr k1 \<and>
    recv_n (\<lambda>k. received_v (q_vreceive oth qid fl timeout bl k)) (length (vmsgs q) + length ms) k1 =
      Inr (vmsgs q @ ms, k2) \<and> at_queue qid [] vmsgs k2 = []"
proof -
  have "\<forall>m \<in> set ms. m \<noteq> []" using assms(3) by auto
  then show ?thesis using variable.round_trip [of bl qid k ms oth fl timeout] assms(1,2) by auto
qed

theorem vqueue_round_trip_witness:
  "\<exists>k1 k2. foldR (\<lambda>m k. sent (q_vsend False True nobody 0 m (length m - 1) k)) [[1,2,3], [5]]
      (itc_demo READY READY 0 (\<lambda>_. Some (empty_queue V_QUEUE 3)) 0) = Inr k1 \<and>
    recv_n (\<lambda>k. received_v (q_vreceive nobody 0 WAIT 0 8 k)) 2 k1 = Inr ([[1,2,3], [5]], k2)"
proof -
  let ?k = "itc_demo READY READY 0 (\<lambda>_. Some (empty_queue V_QUEUE 3)) 0"
  have q: "is_vqueue 8 0 ?k (empty_queue V_QUEUE 3)" "vmsgs (empty_queue V_QUEUE 3) = []"
    using empty_queue_is [of ?k 0 V_QUEUE 3] by (simp_all add: vmsgs_def is_vqueue_def)
  show ?thesis
    using vqueue_round_trip [OF q(1), of "[[1,2,3], [5]]" nobody WAIT 0] q(2)
    by (auto simp: numeral_2_eq_2)
qed

text \<open>
  C14. A full queue refuses a message and an empty one refuses to be read without waiting; a
  deleted object and one of another kind are refused first. None of these calls changes
  anything, but \<open>q_send_ny\<close> returns from all of them with interrupts disabled.
\<close>

theorem queue_errors:
  assumes "qid < TK_MAX_NUM_Q"
  shows "(\<forall>rc. wrong_type qid S_QUEUE k = Some rc \<longrightarrow>
      q_send oth qid m k = Inr (rc, k) \<and> q_receive oth qid fl timeout k = Inr (rc, None, k) \<and>
      q_send_ny addr qid m k = Inr (rc, False, k)) \<and>
    (\<forall>q. is_queue S_QUEUE qid k q \<and> length (msgs q) = sizeof_q q \<longrightarrow>
      q_send oth qid m k = Inr (ERR_FULL, k) \<and> q_send_ny addr qid m k = Inr (ERR_FULL, False, k)) \<and>
    (\<forall>q. is_queue S_QUEUE qid k q \<and> msgs q = [] \<and> fl AND NOWAIT \<noteq> 0 \<longrightarrow>
      q_receive oth qid fl timeout k = Inr (ERR_NOSEM, None, k))"
proof (intro conjI allI impI)
  fix q
  assume q: "is_queue S_QUEUE qid k q \<and> length (msgs q) = sizeof_q q"
  note f = queue_fullness [OF conjunct1 [OF q]]
  show "q_send oth qid m k = Inr (ERR_FULL, k)" "q_send_ny addr qid m k = Inr (ERR_FULL, False, k)"
    using assms q f by (simp_all add: q_send_def q_send_ny_def msgs_def)
next
  fix q
  assume q: "is_queue S_QUEUE qid k q \<and> msgs q = [] \<and> fl AND NOWAIT \<noteq> 0"
  then have "token q = 0" by (auto simp: msgs_def queue_slots_def is_queue_def queue_ok_def)
  then show "q_receive oth qid fl timeout k = Inr (ERR_NOSEM, None, k)"
    using assms q queue_fullness [of S_QUEUE qid k q] by (simp add: q_receive_def)
qed (use assms in \<open>simp_all add: q_send_def q_receive_def q_send_ny_def\<close>)

theorem queue_errors_witness:
  "q_receive nobody 0 NOWAIT 5 (itc_demo READY READY 0 (\<lambda>_. Some (empty_queue S_QUEUE 3)) 0) =
     Inr (ERR_NOSEM, None, itc_demo READY READY 0 (\<lambda>_. Some (empty_queue S_QUEUE 3)) 0) \<and>
   q_send_ny id 0 [1,2,3,4] (itc_demo READY READY 0 (\<lambda>_. None) 0) =
     Inr (ERR_OBJDEL, False, itc_demo READY READY 0 (\<lambda>_. None) 0)"
proof -
  let ?k = "itc_demo READY READY 0 (\<lambda>_. Some (empty_queue S_QUEUE 3)) 0"
    and ?e = "itc_demo READY READY 0 (\<lambda>_. None) 0"
  have n: "0 < TK_MAX_NUM_Q" by simp
  have "is_queue S_QUEUE 0 ?k (empty_queue S_QUEUE 3) \<and> msgs (empty_queue S_QUEUE 3) = []"
    using empty_queue_is [of ?k 0 S_QUEUE 3] by (simp add: msgs_def)
  moreover have "NOWAIT AND NOWAIT \<noteq> 0" by (simp add: NOWAIT_def)
  moreover have "wrong_type 0 S_QUEUE ?e = Some ERR_OBJDEL" by (simp add: wrong_type_def)
  ultimately show ?thesis
    using queue_errors [OF n, of ?k nobody _ NOWAIT 5] queue_errors [OF n, of ?e _ "[1,2,3,4]" _ _ id] by metis
qed

text \<open>
  \<open>q_vsend\<close> to a queue that is not the one created last stores the new buffer in the other
  queue: the slot written to is still null, and copying the message into it is a fault.
\<close>

theorem vsend_wrong_queue:
  assumes "is_queue V_QUEUE qid k q" "length (vmsgs q) < sizeof_q q" "mb (m_qv q (min_idx q)) = Null"
    and "itc_idx k \<noteq> qid" "is_queue V_QUEUE (itc_idx k) k q'" "min_idx q < sizeof_q q'" "len < length bytes"
  shows "q_vsend pr True oth qid bytes len k = Inl Null_deref"
proof -
  have o: "qid < TK_MAX_NUM_Q" "itc_array k qid = Some q" "queue_ok q" using assms(1) by (simp_all add: is_queue_def)
  have r: "nat (token q) < sizeof_q q" using assms(2) by (simp add: vmsgs_def)
  have i: "min_idx q < sizeof_q q" by (rule slots_send(2) [OF o(3) r])
  have "put_vmsg True qid bytes len k = Inl Null_deref"
    using assms(3-7) o i by (simp add: put_vmsg_def put_vbuf_def put_vbytes_def is_queue_def Let_def)
  then show ?thesis using queue_fullness [OF assms(1)] r o(1) by (simp add: q_vsend_def)
qed

theorem vsend_wrong_queue_witness:
  "q_vsend True True nobody 0 [65, 0] 1 (itc_demo READY READY 0 (\<lambda>_. Some (empty_queue V_QUEUE 3)) 1) = Inl Null_deref"
proof -
  let ?k = "itc_demo READY READY 0 (\<lambda>_. Some (empty_queue V_QUEUE 3)) 1"
  have n: "1 < TK_MAX_NUM_Q" by (simp add: TK_MAX_NUM_Q_def)
  have q: "is_queue V_QUEUE 0 ?k (empty_queue V_QUEUE 3)" "is_queue V_QUEUE 1 ?k (empty_queue V_QUEUE 3)"
    using n by (auto intro!: empty_queue_is(1))
  show ?thesis
    by (rule vsend_wrong_queue [where q' = "empty_queue V_QUEUE 3", OF q(1)]) (use q(2) in \<open>simp_all add: vmsgs_def queue_slots_def\<close>)
qed

text \<open>
  \<open>q_vdelete\<close> frees a buffer a second time if \<open>q_vreceive\<close> freed it before: after one
  message went through the queue, deleting it is a fault.
\<close>

lemma free_vmsgs_freed:
  assumes "foldR (free_vmsg qid) is k = Inr k'" "itc_array k qid = Some q" "i \<in> set is"
    "mb (m_qv q i) = Freed"
  shows False
  using assms
proof (induction "is" arbitrary: k q)
  case Nil
  then show ?case by simp
next
  case (Cons j js)
  from Cons.prems(1) obtain k1 where k1: "free_vmsg qid j k = Inr k1" "foldR (free_vmsg qid) js k1 = Inr k'"
    by (auto simp: result_elims)
  then obtain b where b: "c_free (mb (m_qv q j)) = Inr b" "qid < TK_MAX_NUM_Q"
    "k1 = put_itc qid (q\<lparr>m_qv := (m_qv q)(j := (m_qv q j)\<lparr>mb := b\<rparr>)\<rparr>) k"
    using Cons.prems(2) by (auto simp: free_vmsg_def result_elims)
  have "j \<noteq> i" using b(1) Cons.prems(4) by auto
  then show ?case
    using Cons.prems(3,4) by (intro Cons.IH [OF k1(2), of "q\<lparr>m_qv := (m_qv q)(j := (m_qv q j)\<lparr>mb := b\<rparr>)\<rparr>"])
      (simp_all add: b(3))
qed

lemma free_vmsgs_fault:
  assumes "foldR (free_vmsg qid) is k = Inl e" "itc_array k qid \<noteq> None" "qid < TK_MAX_NUM_Q"
  shows "e = Double_free"
  using assms
proof (induction "is" arbitrary: k)
  case Nil
  then show ?case by simp
next
  case (Cons j js)
  then obtain q where q: "itc_array k qid = Some q" by blast
  show ?case
  proof (cases "mb (m_qv q j) = Freed")
    case True
    then show ?thesis using Cons.prems q by (simp add: free_vmsg_def)
  next
    case False
    then obtain b where "c_free (mb (m_qv q j)) = Inr b" by (cases "mb (m_qv q j)") auto
    then show ?thesis using Cons q by (auto simp: free_vmsg_def)
  qed
qed

theorem vdelete_double_free:
  assumes q: "is_vqueue bl qid k q" and some: "vmsgs q \<noteq> []"
  shows "\<exists>m k1. q_vreceive oth qid fl timeout bl k = Inr (RC_OK, m, k1) \<and> q_vdelete qid k1 = Inl Double_free"
proof -
  note t = msgs_some(2) [OF some]
  let ?q = "after_vrecv q" and ?k = "put_itc qid (after_vrecv q) k"
  have o: "qid < TK_MAX_NUM_Q" "b_type ?q = V_QUEUE" "sizeof_q ?q = sizeof_q q" "mout_idx q < sizeof_q q"
    using q by (simp_all add: is_vqueue_def is_queue_def after_vrecv_def queue_ok_def)
  have f: "mb (m_qv ?q (mout_idx q)) = Freed" by (simp add: after_vrecv_def)
  have "foldR (free_vmsg qid) [0..<sizeof_q ?q] ?k = Inl Double_free"
  proof (cases "foldR (free_vmsg qid) [0..<sizeof_q ?q] ?k")
    case (Inl e)
    then show ?thesis using free_vmsgs_fault [OF Inl] o(1) by simp
  next
    case (Inr k')
    have "mout_idx q \<in> set [0..<sizeof_q ?q]" using o(3,4) by simp
    then show ?thesis using free_vmsgs_freed [OF Inr _ _ f] by simp
  qed
  then have "q_vdelete qid ?k = Inl Double_free" using o(1,2) by (simp add: q_vdelete_def)
  with q_vreceive_run(1) [OF q t, of oth fl timeout] show ?thesis by blast
qed

theorem vdelete_double_free_witness:
  "\<exists>k q m k1. vmsgs q = [[7, 0]] \<and> itc_array k 0 = Some q \<and>
    q_vreceive nobody 0 WAIT 0 8 k = Inr (RC_OK, m, k1) \<and> q_vdelete 0 (k1 :: itc_kern) = Inl Double_free"
proof -
  let ?k = "itc_demo READY READY 0 (\<lambda>_. Some (empty_queue V_QUEUE 3)) 0"
  let ?q = "after_vsend [7, 0] (empty_queue V_QUEUE 3)"
  have q: "is_vqueue 8 0 ?k (empty_queue V_QUEUE 3)" "vmsgs (empty_queue V_QUEUE 3) = []"
    using empty_queue_is [of ?k 0 V_QUEUE 3] by (simp_all add: vmsgs_def is_vqueue_def)
  note a = after_vsend_ok [OF q(1), of "[7, 0]"]
  have "is_vqueue 8 0 (put_itc 0 ?q ?k) ?q" "vmsgs ?q = [[7, 0]]" using a(1,2) q(2) by simp_all
  then show ?thesis
    using vdelete_double_free [of 8 0 "put_itc 0 ?q ?k" ?q nobody WAIT 0]
    by (intro exI [of _ "put_itc 0 ?q ?k"] exI [of _ ?q]) auto
qed

section \<open>Interrupts\<close>

text \<open>
  Two releases by interrupt handlers before the next \<open>tk_yield\<close>, each waking a thread in
  order of arrival, leave two entries on the list of preempted threads, and the next
  \<open>tk_yield\<close> fails its assertion that there is at most one.
\<close>

lemma unlock_ny_preempts:
  assumes q: "qid < TK_MAX_NUM_Q" "itc_array k qid = Some q" "b_type q = SEM" and ok: "itc_ok k q"
    and w: "token q < 0" "flags q AND PRIOR = 0"
  shows "\<exists>k1. sm_v_ny addr qid k = Inr (RC_OK, k1) \<and> npreempt k1 = npreempt k + 1 \<and>
    IntFlagCntr k1 = IntFlagCntr k \<and> valid_tids k1 = valid_tids k \<and>
    (\<forall>i. i \<noteq> qid \<longrightarrow> itc_array k1 i = itc_array k i)"
proof -
  obtain t q' where u: "unlock_fifo qid q k = Inr (t, put_itc qid q' (wake_itc t k))"
    using unlock_fifo_spec [OF ok w(1), of qid] by blast
  let ?k1 = "tk_preemplist (addr t) (put_itc qid q' (wake_itc t k))"
  have "sm_v_ny addr qid k = Inr (RC_OK, ?k1)"
    using q w u by (simp add: sm_v_ny_def wrong_type_def unlock_stage_ny_def)
  moreover have "npreempt ?k1 = npreempt k + 1" "IntFlagCntr ?k1 = IntFlagCntr k"
    by (simp_all add: tk_preemplist_def put_itc_def wake_itc_def)
  moreover have "valid_tids ?k1 = valid_tids k"
    by (simp add: tk_preemplist_def put_itc_def wake_itc_def) (auto simp: valid_tids_def)
  moreover have "\<forall>i. i \<noteq> qid \<longrightarrow> itc_array ?k1 i = itc_array k i"
    by (simp add: tk_preemplist_def put_itc_def wake_itc_def)
  ultimately show ?thesis by blast
qed

theorem two_interrupts_trap:
  assumes i: "IntFlagCntr k = 0" "npreempt k = 0"
    and q1: "s1 < TK_MAX_NUM_Q" "itc_array k s1 = Some q1" "b_type q1 = SEM" "itc_ok k q1" "token q1 < 0"
      "flags q1 AND PRIOR = 0"
    and q2: "s2 < TK_MAX_NUM_Q" "itc_array k s2 = Some q2" "b_type q2 = SEM" "itc_ok k q2" "token q2 < 0"
      "flags q2 AND PRIOR = 0"
    and ne: "s1 \<noteq> s2"
  shows "\<exists>k1 k2. sm_v_ny addr s1 k = Inr (RC_OK, k1) \<and> sm_v_ny addr s2 k1 = Inr (RC_OK, k2) \<and>
    tk_yield oth k2 = Inl Assert_failed"
proof -
  obtain k1 where k1: "sm_v_ny addr s1 k = Inr (RC_OK, k1)" "npreempt k1 = npreempt k + 1"
    "IntFlagCntr k1 = IntFlagCntr k" "valid_tids k1 = valid_tids k" "itc_array k1 s2 = itc_array k s2"
    using unlock_ny_preempts [OF q1, of addr] ne by (metis (no_types))
  have "itc_ok k1 q2" by (rule itc_ok_valid [OF q2(4) k1(4)])
  then obtain k2 where k2: "sm_v_ny addr s2 k1 = Inr (RC_OK, k2)" "npreempt k2 = npreempt k1 + 1"
    "IntFlagCntr k2 = IntFlagCntr k1"
    using unlock_ny_preempts [of s2 k1 q2 addr] q2 k1(5) by auto
  have "tk_wakeup_timedout_threads k2 = Inr k2"
    using k2(2) k1(2) i by (intro wakeup_preempted) simp
  then have "tk_yield oth k2 = Inl Assert_failed"
    using k1(2,3) k2(2,3) i by (simp add: tk_yield_def tk_yield_switch_def take_preempted_def)
  with k1(1) k2(1) show ?thesis by blast
qed

theorem two_interrupts_trap_witness:
  "\<exists>k k1 k2. sm_v_ny id 0 k = Inr (RC_OK, k1) \<and> sm_v_ny id 1 k1 = Inr (RC_OK, k2) \<and>
    tk_yield nobody (k2 :: itc_kern) = Inl Assert_failed"
proof -
  let ?arr = "\<lambda>i. if i = 0 then Some (held [0]) else Some (held [2])"
  let ?k = "itc_demo QUEUE QUEUE 1 ?arr 0"
  have m: "length [0 :: thid_t] < MAXB" "length [2 :: thid_t] < MAXB"
    by (simp_all add: TK_MAX_BLOCKED_ON_Q_def TK_MAX_THREADS_def)
  have o: "itc_ok ?k (held [0])" "itc_ok ?k (held [2])" by (auto intro!: held_ok m [simplified])
  have n: "0 < TK_MAX_NUM_Q" "1 < TK_MAX_NUM_Q" by (simp_all add: TK_MAX_NUM_Q_def)
  have f: "FIFO AND PRIOR = 0" by (simp add: FIFO_def PRIOR_def)
  have "\<exists>k1 k2. sm_v_ny id 0 ?k = Inr (RC_OK, k1) \<and> sm_v_ny id 1 k1 = Inr (RC_OK, k2) \<and>
      tk_yield nobody k2 = Inl Assert_failed"
    by (rule two_interrupts_trap [of ?k 0 "held [0]" 1 "held [2]"]) (use n o f in simp_all)
  then show ?thesis by blast
qed

section \<open>Time-outs\<close>

text \<open>
  The time-out of a semaphore is computed in milliseconds and compared in microseconds:
  once the system has been up for two seconds, a thread that queues itself with a time-out of
  anything up to half an hour (1990000 ms) has a deadline that is past already, and the wake-up
  scan of its own \<open>tk_yield\<close> ends its wait.
\<close>

theorem itc_timeout_expired:
  assumes "2000000 \<le> uint (clock_now k)" "uint (clock_now k) < 2 ^ 31" "0 < timeout" "uint timeout \<le> 1990000"
  shows "has_flag (state (pool (block_self timeout k) (active_thread k))) SLEEP \<and>
    expired (clock_now k) (pool (block_self timeout k) (active_thread k))"
proof -
  let ?n = "uint (clock_now k)"
  have w: "uint (itc_clock k) = (?n div 1000000) * 1000"
  proof -
    let ?d = "clock_now k div 1000000"
    have d: "uint ?d = ?n div 1000000" by (simp add: uint_div)
    have "uint ?d * uint (1000 :: 32 word) < 2 ^ LENGTH(32)" using assms(2) unfolding d by simp
    then have "uint (?d * 1000) = uint ?d * uint (1000 :: 32 word)" by (rule uint_mult_lem [THEN iffD1])
    then show ?thesis by (simp add: itc_clock_def d)
  qed
  have s: "uint (itc_clock k + timeout) = (?n div 1000000) * 1000 + uint timeout"
  proof -
    have "uint (itc_clock k) + uint timeout < 2 ^ LENGTH(32)" using w assms(2,4) by simp
    then show ?thesis unfolding w [symmetric] by (rule uint_add_lem [THEN iffD1])
  qed
  have le: "(?n div 1000000) * 1000 + uint timeout \<le> ?n" using assms(1,4) by linarith
  have "uint (clock_now k - (itc_clock k + timeout)) = ?n - uint (itc_clock k + timeout)"
    using le s by (intro uint_sub_lem [THEN iffD1]) simp
  moreover have "?n < 2147483648" using assms(2) by simp
  moreover have "0 \<le> uint (itc_clock k + timeout)" by (rule uint_ge_0)
  ultimately have "uint (clock_now k - (itc_clock k + timeout)) < 2147483648" by linarith
  then have "0 \<le> sint (clock_now k - (itc_clock k + timeout))" by (simp only: sint_nonneg)
  moreover have "timeout \<noteq> 0" using assms(3) by auto
  ultimately show ?thesis by (simp add: block_self_def expired_def)
qed

theorem itc_timeout_expired_witness:
  "expired 3000000 (pool (block_self 1000 ((itc_demo READY READY 0 (\<lambda>_. None) 0)\<lparr>clock_now := 3000000\<rparr>)) 0)"
proof -
  let ?k = "(itc_demo READY READY 0 (\<lambda>_. None) 0)\<lparr>clock_now := 3000000\<rparr>"
  have "2000000 \<le> uint (clock_now ?k)" "uint (clock_now ?k) < 2 ^ 31" by simp_all
  moreover have "0 < (1000 :: 32 word)" "uint (1000 :: 32 word) \<le> 1990000" by simp_all
  ultimately show ?thesis using itc_timeout_expired [of ?k 1000] by simp
qed

text \<open>
  A time-out removes its thread from the ring by the position at which it entered. If an
  earlier waiter has left meanwhile, another thread sits there: with the ring holding
  \<open>a\<close>, \<open>c\<close>, \<open>d\<close> and the time-out of \<open>c\<close>, which entered as the third, \<open>d\<close> is removed,
  the clean-up removes \<open>c\<close>, and \<open>d\<close> stays blocked in no ring: no later \<open>sm_v\<close> wakes it.
\<close>

theorem timeout_loses_waiter:
  assumes q: "qid < TK_MAX_NUM_Q" "itc_array k qid = Some q"
    and r: "out_idx q = 0" "in_idx q = 3" "token q = -3" "blocked_procs q 0 = Some a"
      "blocked_procs q 1 = Some c" "blocked_procs q 2 = Some d"
    and s: "state (pool k c) = READY" "wakeupEvent (pool k c) = E_TIMER" "has_flag (state (pool k a)) QUEUE"
      "has_flag (state (pool k d)) QUEUE" "distinct [a, c, d]"
  shows "\<exists>k' q'. timed_out qid 3 k = Inr (ERR_TIMEOUT, k') \<and> itc_array k' qid = Some q' \<and>
    waiting q' = [Some a] \<and> token q' = -1 \<and> has_flag (state (pool k' d)) QUEUE \<and> Some d \<notin> set (waiting q')"
proof -
  have b: "MAXB = 10" by (simp add: TK_MAX_BLOCKED_ON_Q_def TK_MAX_THREADS_def)
  obtain q1 where q1: "q1 = q\<lparr>blocked_procs := (blocked_procs q)(2 := None), in_idx := 2, token := -2\<rparr>" by blast
  obtain q2 where q2: "q2 = q1\<lparr>blocked_procs := (blocked_procs q1)(1 := None), in_idx := 1, token := -1\<rparr>" by blast
  have r1: "itc_removeBlocked q 2 = Inr q1"
    using r by (simp add: itc_removeBlocked_def ring_dec_def b q1)
  have r2: "itc_removeBlocked q1 1 = Inr q2"
    using r by (simp add: itc_removeBlocked_def ring_dec_def b q1 q2)
  let ?k1 = "put_itc qid q1 k"
  let ?k2 = "put_itc qid q2 (upd_tcb c (\<lambda>c. c\<lparr>wakeupEvent := E_ITC2\<rparr>) ?k1)"
  have sel: "blocked_procs q1 0 = Some a" "blocked_procs q1 1 = Some c" "in_idx q1 = 2" "out_idx q1 = 0" "token q1 = -2"
    "in_idx q2 = 1" "token q2 = -1" "out_idx q2 = 0" "blocked_procs q2 0 = Some a"
    using r by (simp_all add: q1 q2)
  have "state (pool k a) \<noteq> READY" using s(3) by auto
  then have p0: "purge_one qid 0 ?k1 = Inr ?k1" using q(1) sel by (simp add: purge_one_def b)
  have p1: "purge_one qid 1 ?k1 = Inr ?k2"
    using q(1) sel s r2 by (simp add: purge_one_def b)
  have "purge (MAXB - 1) qid 1 ?k1 = Inr ?k2"
    using p1 q(1) sel by (subst purge.simps) simp
  then have "purge MAXB qid 0 ?k1 = Inr ?k2"
    using p0 q(1) sel by (subst purge.simps) (simp add: b ring_inc_def)
  then have run: "timed_out qid 3 k = Inr (ERR_TIMEOUT, ?k2)"
    using q r(3) r1 sel by (simp add: timed_out_def ring_dec_def b)
  have "ring_len q2 = 1" using sel by (simp add: ring_len_def b)
  moreover have "ring_pos q2 0 = 0" using sel by (simp add: ring_pos_def)
  ultimately have "waiting q2 = [Some a]" using sel by (simp add: waiting_def)
  then show ?thesis
    using run s sel(7) by (intro exI [of _ ?k2] exI [of _ q2]) simp
qed

theorem timeout_loses_waiter_witness:
  "\<exists>k k' q'. timed_out 0 3 k = Inr (ERR_TIMEOUT, k' :: itc_kern) \<and> itc_array k' 0 = Some q' \<and>
    waiting q' = [Some 0] \<and> has_flag (state (pool k' 2)) QUEUE"
proof -
  let ?k = "upd_tcb 1 (\<lambda>c. c\<lparr>wakeupEvent := E_TIMER\<rparr>) (itc_demo QUEUE QUEUE 1 (\<lambda>_. Some (held [0, 1, 2])) 0)"
  have "\<exists>k' q'. timed_out 0 3 ?k = Inr (ERR_TIMEOUT, k') \<and> itc_array k' 0 = Some q' \<and>
      waiting q' = [Some 0] \<and> token q' = -1 \<and> has_flag (state (pool k' 2)) QUEUE \<and> Some 2 \<notin> set (waiting q')"
    by (rule timeout_loses_waiter [where q = "held [0, 1, 2]" and c = 1])
      (simp_all add: blank_tcb_def, simp_all add: held_def blank_itc_def has_flag_def procstate_defs)
  then show ?thesis by blast
qed

end
