(* ===== verification/TkSearch.thy ===== *)
theory TkSearch
  imports TkPrelude "HOL-Library.Multiset"
begin

text \<open>
  \<^verbatim>\<open>src/tk_ansi_search.c\<close>: quicksort and binary search on an array of elements with
  a comparison function, and the interface \<open>comparator\<close> that the comparison has to meet.
  The array is the memory \<open>xs\<close> that the elements lie in, position \<open>i\<close> for the bytes from
  \<^verbatim>\<open>a + i * sz\<close> on, so that a range of it may be sorted and the scan below the range
  reads what lies there; a position outside \<open>xs\<close> is out of bounds. The counters
  \<^verbatim>\<open>qsort_depth\<close> and \<^verbatim>\<open>curr_depth\<close> are the pair \<open>d\<close>.
\<close>

section \<open>Sorting\<close>

definition MAX_SORT_ELEMENT_SIZE :: nat where "MAX_SORT_ELEMENT_SIZE = 255"

type_synonym 'a comparison = "'a \<Rightarrow> 'a \<Rightarrow> int"

definition valid_pos :: "'a list \<Rightarrow> int \<Rightarrow> bool" where
  "valid_pos xs i \<longleftrightarrow> 0 \<le> i \<and> i < int (length xs)"

definition at :: "'a list \<Rightarrow> int \<Rightarrow> 'a" where
  "at xs i = xs ! nat i"

text \<open>
  \<open>swap_at sz\<close> copies through a buffer of \<^verbatim>\<open>MAX_SORT_ELEMENT_SIZE\<close> bytes.
\<close>

definition swap_at :: "nat \<Rightarrow> 'a list \<Rightarrow> int \<Rightarrow> int \<Rightarrow> 'a list result" where
  "swap_at sz xs l r = in_bounds (sz \<le> MAX_SORT_ELEMENT_SIZE \<and> valid_pos xs l \<and> valid_pos xs r)
     (Inr (xs[nat l := at xs r, nat r := at xs l]))"

text \<open>The two scans: \<^verbatim>\<open>while (cmp(a[++i], v) < 0)\<close> and \<^verbatim>\<open>while (cmp(a[--j], v) > 0)\<close>.\<close>

function scan_up :: "'a comparison \<Rightarrow> 'a list \<Rightarrow> int \<Rightarrow> int \<Rightarrow> int result" where
  "scan_up cmp xs r i = in_bounds (valid_pos xs (i + 1))
     (if cmp (at xs (i + 1)) (at xs r) < 0 then scan_up cmp xs r (i + 1) else Inr (i + 1))"
  by pat_completeness auto
termination by (relation "measure (\<lambda>(cmp, xs, r, i). nat (int (length xs) - i))") (auto simp: valid_pos_def)

function scan_down :: "'a comparison \<Rightarrow> 'a list \<Rightarrow> int \<Rightarrow> int \<Rightarrow> int result" where
  "scan_down cmp xs r j = in_bounds (valid_pos xs (j - 1))
     (if cmp (at xs (j - 1)) (at xs r) > 0 then scan_down cmp xs r (j - 1) else Inr (j - 1))"
  by pat_completeness auto
termination by (relation "measure (\<lambda>(cmp, xs, r, j). nat j)") (auto simp: valid_pos_def)

declare scan_up.simps [simp del] scan_down.simps [simp del]

lemma scan_up_gt: "scan_up cmp xs r i = Inr i' \<Longrightarrow> i < i'"
proof (induction cmp xs r i rule: scan_up.induct)
  case (1 cmp xs r i)
  then show ?case by (subst (asm) (2) scan_up.simps) (auto simp: result_elims split: if_splits)
qed

lemma scan_down_less: "scan_down cmp xs r j = Inr j' \<Longrightarrow> j' < j"
proof (induction cmp xs r j rule: scan_down.induct)
  case (1 cmp xs r j)
  then show ?case by (subst (asm) (2) scan_down.simps) (auto simp: result_elims split: if_splits)
qed

text \<open>The loop \<^verbatim>\<open>for (;;)\<close>: the array and the position of the pivot.\<close>

function partition_loop :: "nat \<Rightarrow> 'a comparison \<Rightarrow> int \<Rightarrow> 'a list \<Rightarrow> int \<Rightarrow> int \<Rightarrow> ('a list \<times> int) result" where
  "partition_loop sz cmp r xs i j =
     andThen (scan_up cmp xs r i) (\<lambda>i'. andThen (scan_down cmp xs r j) (\<lambda>j'.
       if i' \<ge> j' then Inr (xs, i')
       else andThen (swap_at sz xs i' j') (\<lambda>xs'. partition_loop sz cmp r xs' i' j')))"
  by pat_completeness auto
termination
  by (relation "measure (\<lambda>(sz, cmp, r, xs, i, j). nat (j - i))")
    (auto, (drule scan_up_gt, drule scan_down_less, linarith)+)

declare partition_loop.simps [simp del]

text \<open>
  The recursion; \<open>n\<close> is its fuel, and with a sane comparison as many levels as the range has
  elements, and one more, are enough.
\<close>

type_synonym depths = "nat \<times> nat"

definition enter_depth :: "depths \<Rightarrow> depths" where
  "enter_depth d = (max (fst d) (snd d + 1), snd d + 1)"

fun tk_quicksort :: "nat \<Rightarrow> nat \<Rightarrow> 'a comparison \<Rightarrow> 'a list \<Rightarrow> int \<Rightarrow> int \<Rightarrow> depths \<Rightarrow>
  ('a list \<times> depths) result" where
  "tk_quicksort 0 sz cmp xs l r d = Inl Hangs"
| "tk_quicksort (Suc n) sz cmp xs l r d = (let d1 = enter_depth d in
     if r > l then
       andThen (partition_loop sz cmp r xs (l - 1) r) (\<lambda>(xs1, i). andThen (swap_at sz xs1 i r) (\<lambda>xs2.
         andThen (tk_quicksort n sz cmp xs2 l (i - 1) d1) (\<lambda>(xs3, d2).
           andThen (tk_quicksort n sz cmp xs3 (i + 1) r d2) (\<lambda>(xs4, d3).
             Inr (xs4, (fst d3, snd d3 - 1))))))
     else Inr (xs, (fst d1, snd d1 - 1)))"

text \<open>\<^verbatim>\<open>qsort(array, count, size, compare)\<close>, the array at position \<open>b\<close> of the memory.\<close>

definition c_qsort :: "nat \<Rightarrow> 'a comparison \<Rightarrow> 'a list \<Rightarrow> nat \<Rightarrow> nat \<Rightarrow> nat \<Rightarrow> ('a list \<times> depths) result" where
  "c_qsort sz cmp xs b n cur =
     tk_quicksort (Suc n) sz cmp xs (int b) (int b + int n - 1) (0, cur)"

section \<open>Searching\<close>

text \<open>
  \<open>prev\<close> holds \<^verbatim>\<open>x\<close> and \<^verbatim>\<open>rc\<close> of the iteration before; reading them before
  the first is reading uninitialised variables.
\<close>

function bsearch_loop :: "'a comparison \<Rightarrow> 'a \<Rightarrow> 'a list \<Rightarrow> int \<Rightarrow> int \<Rightarrow> (int \<times> int) option \<Rightarrow> int result" where
  "bsearch_loop cmp v xs l r prev =
     (if r \<ge> l then
        (let x = (r + l) div 2 in in_bounds (valid_pos xs x)
          (let rc = cmp v (at xs x) in
           if rc = 0 then Inr x
           else if rc < 0 then bsearch_loop cmp v xs l (x - 1) (Some (x, rc))
           else bsearch_loop cmp v xs (x + 1) r (Some (x, rc))))
      else case prev of None \<Rightarrow> Inl Uninitialised
        | Some (x, rc) \<Rightarrow> if rc < 0 then Inr (-1 * x - 1) else Inr (-1 * x - 2))"
  by pat_completeness auto
termination
  by (relation "measure (\<lambda>(cmp, v, xs, l, r, prev). nat (r - l + 1))") (auto simp: valid_pos_def)

declare bsearch_loop.simps [simp del]

definition tk_bsearch :: "'a comparison \<Rightarrow> 'a \<Rightarrow> 'a list \<Rightarrow> int \<Rightarrow> int \<Rightarrow> int result" where
  "tk_bsearch cmp v xs l r = bsearch_loop cmp v xs l r None"

definition c_bsearch :: "'a comparison \<Rightarrow> 'a \<Rightarrow> 'a list \<Rightarrow> nat \<Rightarrow> int option result" where
  "c_bsearch cmp key xs n = andThen (tk_bsearch cmp key xs 0 (int n - 1)) (\<lambda>i.
     Inr (if i \<ge> 0 then Some i else None))"

section \<open>The comparison\<close>

locale comparator =
  fixes cmp :: "'a comparison"
  assumes refl: "cmp x x = 0"
    and sym: "cmp x y < 0 \<longleftrightarrow> cmp y x > 0"
    and trans: "cmp x y \<le> 0 \<Longrightarrow> cmp y z \<le> 0 \<Longrightarrow> cmp x z \<le> 0"
begin

lemma le_iff_ge: "cmp x y \<le> 0 \<longleftrightarrow> cmp y x \<ge> 0"
  using sym [of y x] by linarith

lemma le_total: "cmp x y \<le> 0 \<or> cmp y x \<le> 0"
  using le_iff_ge [of x y] by linarith

lemma less_le:
  assumes "cmp x y < 0" "cmp y z \<le> 0"
  shows "cmp x z < 0"
proof (rule ccontr)
  assume "\<not> cmp x z < 0"
  then have "cmp z x \<le> 0" by (simp add: le_iff_ge)
  then have "cmp y x \<le> 0" by (rule trans [OF assms(2)])
  with assms(1) show False by (simp add: sym)
qed

end

section \<open>Rearranging a range\<close>

definition shuffled :: "int \<Rightarrow> int \<Rightarrow> 'a list \<Rightarrow> 'a list \<Rightarrow> bool" where
  "shuffled l r xs xs' \<longleftrightarrow> length xs' = length xs \<and> mset xs' = mset xs \<and>
     (\<forall>k \<in> {l..r}. \<exists>k' \<in> {l..r}. at xs' k = at xs k') \<and>
     (\<forall>k. 0 \<le> k \<and> k \<notin> {l..r} \<longrightarrow> at xs' k = at xs k)"

lemma shuffled_refl [simp]: "shuffled l r xs xs"
  by (auto simp: shuffled_def)

lemma shuffled_trans: "shuffled l r xs ys \<Longrightarrow> shuffled l r ys zs \<Longrightarrow> shuffled l r xs zs"
  unfolding shuffled_def by (metis (no_types, lifting))

lemma shuffled_mono:
  assumes "shuffled l r xs ys" "l' \<le> l" "r \<le> r'" "0 \<le> l'"
  shows "shuffled l' r' xs ys"
  unfolding shuffled_def
proof (intro conjI ballI allI impI)
  fix k assume k: "k \<in> {l'..r'}"
  show "\<exists>k' \<in> {l'..r'}. at ys k = at xs k'"
  proof (cases "k \<in> {l..r}")
    case True
    then obtain k' where "k' \<in> {l..r}" "at ys k = at xs k'" using assms(1) unfolding shuffled_def by blast
    then show ?thesis using assms by (intro bexI [of _ k']) auto
  next
    case False
    then show ?thesis using assms k unfolding shuffled_def by (intro bexI [of _ k]) auto
  qed
qed (use assms in \<open>auto simp: shuffled_def\<close>)

lemma shuffled_length: "shuffled l r xs ys \<Longrightarrow> length ys = length xs"
  by (simp add: shuffled_def)

lemma swap_at_run:
  assumes "sz \<le> MAX_SORT_ELEMENT_SIZE" "valid_pos xs i" "valid_pos xs j"
  obtains ys where "swap_at sz xs i j = Inr ys" "length ys = length xs"
    "\<And>k. 0 \<le> k \<Longrightarrow> at ys k = (if k = i then at xs j else if k = j then at xs i else at xs k)"
    "\<And>l r. 0 \<le> l \<Longrightarrow> l \<le> i \<Longrightarrow> i \<le> r \<Longrightarrow> l \<le> j \<Longrightarrow> j \<le> r \<Longrightarrow> shuffled l r xs ys"
proof -
  let ?ys = "xs[nat i := at xs j, nat j := at xs i]"
  have v: "nat i < length xs" "nat j < length xs" "0 \<le> i" "0 \<le> j" using assms(2,3) by (auto simp: valid_pos_def)
  have a: "at ?ys k = (if k = i then at xs j else if k = j then at xs i else at xs k)" if "0 \<le> k" for k
    using v that by (auto simp: at_def nth_list_update)
  have m: "mset ?ys = mset xs" using v by (simp add: at_def mset_swap)
  show ?thesis
  proof
    show "swap_at sz xs i j = Inr ?ys" using assms by (simp add: swap_at_def)
    show "shuffled l r xs ?ys" if "0 \<le> l" "l \<le> i" "i \<le> r" "l \<le> j" "j \<le> r" for l r
      unfolding shuffled_def
    proof (intro conjI ballI allI impI)
      fix k assume "k \<in> {l..r}"
      show "\<exists>k' \<in> {l..r}. at ?ys k = at xs k'"
        using that \<open>k \<in> {l..r}\<close> a [of k] by auto
    qed (use a that m in auto)
  qed (use a in auto)
qed

section \<open>Sorting sorts\<close>

context comparator
begin

lemma scan_up_stops:
  assumes "i < m" "\<forall>k. i < k \<and> k \<le> m \<longrightarrow> valid_pos xs k" "\<not> cmp (at xs m) (at xs r) < 0"
  obtains i' where "scan_up cmp xs r i = Inr i'" "i < i'" "i' \<le> m" "\<not> cmp (at xs i') (at xs r) < 0"
    "\<forall>k. i < k \<and> k < i' \<longrightarrow> cmp (at xs k) (at xs r) < 0"
proof -
  have "\<exists>i'. scan_up cmp xs r i = Inr i' \<and> i < i' \<and> i' \<le> m \<and> \<not> cmp (at xs i') (at xs r) < 0 \<and>
      (\<forall>k. i < k \<and> k < i' \<longrightarrow> cmp (at xs k) (at xs r) < 0)"
    using assms
  proof (induction "nat (m - i)" arbitrary: i)
    case 0
    then show ?case by simp
  next
    case (Suc n)
    have v: "valid_pos xs (i + 1)" using Suc.prems(1,2) by simp
    show ?case
    proof (cases "cmp (at xs (i + 1)) (at xs r) < 0")
      case True
      then have "i + 1 \<noteq> m" using Suc.prems(3) by auto
      moreover have "n = nat (m - (i + 1))" using Suc.hyps(2) by simp
      ultimately obtain i' where i': "scan_up cmp xs r (i + 1) = Inr i'" "i + 1 < i'" "i' \<le> m"
        "\<not> cmp (at xs i') (at xs r) < 0" "\<forall>k. i + 1 < k \<and> k < i' \<longrightarrow> cmp (at xs k) (at xs r) < 0"
        using Suc.hyps(1) [of "i + 1"] Suc.prems by auto
      have "cmp (at xs k) (at xs r) < 0" if "i < k" "k < i'" for k
        using that i'(5) True by (cases "k = i + 1") auto
      with i' True v show ?thesis by (subst scan_up.simps) auto
    next
      case False
      then show ?thesis using v Suc.prems(1) by (subst scan_up.simps) auto
    qed
  qed
  then show ?thesis using that by blast
qed

lemma scan_down_stops:
  assumes "m < j" "\<forall>k. m \<le> k \<and> k < j \<longrightarrow> valid_pos xs k" "\<not> cmp (at xs m) (at xs r) > 0"
  obtains j' where "scan_down cmp xs r j = Inr j'" "m \<le> j'" "j' < j" "\<not> cmp (at xs j') (at xs r) > 0"
    "\<forall>k. j' < k \<and> k < j \<longrightarrow> cmp (at xs k) (at xs r) > 0"
proof -
  have "\<exists>j'. scan_down cmp xs r j = Inr j' \<and> m \<le> j' \<and> j' < j \<and> \<not> cmp (at xs j') (at xs r) > 0 \<and>
      (\<forall>k. j' < k \<and> k < j \<longrightarrow> cmp (at xs k) (at xs r) > 0)"
    using assms
  proof (induction "nat (j - m)" arbitrary: j)
    case 0
    then show ?case by simp
  next
    case (Suc n)
    have v: "valid_pos xs (j - 1)" using Suc.prems(1,2) by simp
    show ?case
    proof (cases "cmp (at xs (j - 1)) (at xs r) > 0")
      case True
      then have "j - 1 \<noteq> m" using Suc.prems(3) by auto
      moreover have "n = nat (j - 1 - m)" using Suc.hyps(2) by simp
      ultimately obtain j' where j': "scan_down cmp xs r (j - 1) = Inr j'" "m \<le> j'" "j' < j - 1"
        "\<not> cmp (at xs j') (at xs r) > 0" "\<forall>k. j' < k \<and> k < j - 1 \<longrightarrow> cmp (at xs k) (at xs r) > 0"
        using Suc.hyps(1) [of "j - 1"] Suc.prems by auto
      have "cmp (at xs k) (at xs r) > 0" if "j' < k" "k < j" for k
        using that j'(5) True by (cases "k = j - 1") auto
      with j' True v show ?thesis by (subst scan_down.simps) auto
    next
      case False
      then show ?thesis using v Suc.prems(1) by (subst scan_down.simps) auto
    qed
  qed
  then show ?thesis using that by blast
qed

text \<open>
  The loop, from any point on: what lies left of \<open>i\<close> is at most the pivot, what lies right of
  \<open>j\<close> at least; an element below the range, or its first one, stops the downward scan.
\<close>

lemma partition_ok:
  assumes r: "l \<le> r" "0 \<le> l" "r < int (length xs)" and sz: "sz \<le> MAX_SORT_ELEMENT_SIZE"
    and ij: "l - 1 \<le> i" "i < j" "j \<le> r"
    and left: "\<forall>k. l \<le> k \<and> k \<le> i \<longrightarrow> cmp (at xs k) (at xs r) \<le> 0"
    and right: "\<forall>k. j \<le> k \<and> k \<le> r \<longrightarrow> cmp (at xs k) (at xs r) \<ge> 0"
    and s: "0 \<le> s" "s \<le> l" "cmp (at xs s) (at xs r) \<le> 0" "l < j"
  shows "\<exists>ys p. partition_loop sz cmp r xs i j = Inr (ys, p) \<and> shuffled l r xs ys \<and> at ys r = at xs r \<and>
    l \<le> p \<and> p \<le> r \<and> (\<forall>k. l \<le> k \<and> k < p \<longrightarrow> cmp (at ys k) (at ys r) \<le> 0) \<and>
    (\<forall>k. p \<le> k \<and> k \<le> r \<longrightarrow> cmp (at ys k) (at ys r) \<ge> 0) \<and>
    (cmp (at xs l) (at xs r) < 0 \<longrightarrow> at ys l = at xs l)"
  using r ij left right s
proof (induction "nat (j - i)" arbitrary: i j xs rule: less_induct)
  case less
  note prems = less.prems
  have "i < r" "\<forall>k. i < k \<and> k \<le> r \<longrightarrow> valid_pos xs k" "\<not> cmp (at xs r) (at xs r) < 0"
    using prems(1-6) by (auto simp: valid_pos_def refl)
  then obtain i' where i': "scan_up cmp xs r i = Inr i'" "i < i'" "i' \<le> r" "\<not> cmp (at xs i') (at xs r) < 0"
    "\<forall>k. i < k \<and> k < i' \<longrightarrow> cmp (at xs k) (at xs r) < 0" by (rule scan_up_stops)
  have "s < j" "\<forall>k. s \<le> k \<and> k < j \<longrightarrow> valid_pos xs k" "\<not> cmp (at xs s) (at xs r) > 0"
    using prems(1-6,9-12) by (auto simp: valid_pos_def)
  then obtain j' where j': "scan_down cmp xs r j = Inr j'" "s \<le> j'" "j' < j" "\<not> cmp (at xs j') (at xs r) > 0"
    "\<forall>k. j' < k \<and> k < j \<longrightarrow> cmp (at xs k) (at xs r) > 0" by (rule scan_down_stops)
  have le: "cmp (at xs k) (at xs r) \<le> 0" if "l \<le> k" "k < i'" for k
    using prems(7) i'(5) that by (cases "k \<le> i") (auto simp: less_imp_le)
  have ge: "cmp (at xs k) (at xs r) \<ge> 0" if "j' < k" "k \<le> r" for k
    using prems(8) j'(5) that by (cases "j \<le> k") (auto simp: less_imp_le)
  show ?case
  proof (cases "i' \<ge> j'")
    case True
    have "partition_loop sz cmp r xs i j = Inr (xs, i')"
      using i'(1) j'(1) True by (subst partition_loop.simps) simp
    moreover have "cmp (at xs k) (at xs r) \<ge> 0" if "i' \<le> k" "k \<le> r" for k
      using that True i'(4) ge by (cases "k = i'") auto
    ultimately show ?thesis using le i'(2,3) prems(4)
      by (intro exI [of _ xs] exI [of _ i']) auto
  next
    case False
    have v: "valid_pos xs i'" "valid_pos xs j'" "l \<le> i'" "i' < j'" "j' < r"
      using i' j' prems(1-6) False by (auto simp: valid_pos_def)
    show ?thesis
    proof (rule swap_at_run [OF sz v(1,2)])
      fix xs'
      assume run: "swap_at sz xs i' j' = Inr xs'" and len: "length xs' = length xs"
        and sw: "\<And>k. 0 \<le> k \<Longrightarrow> at xs' k = (if k = i' then at xs j' else if k = j' then at xs i' else at xs k)"
        and sh: "\<And>l r. 0 \<le> l \<Longrightarrow> l \<le> i' \<Longrightarrow> i' \<le> r \<Longrightarrow> l \<le> j' \<Longrightarrow> j' \<le> r \<Longrightarrow> shuffled l r xs xs'"
      have p: "at xs' r = at xs r" "cmp (at xs' s) (at xs r) \<le> 0"
        using sw [of r] sw [of s] v prems(1,2,9-11) j'(4) by auto
      have first: "at xs' l = at xs l" if "cmp (at xs l) (at xs r) < 0"
      proof -
        have "l \<noteq> i'" using that i'(4) by auto
        then show ?thesis using sw [of l] v prems(2) by auto
      qed
      have ih: "\<exists>ys p. partition_loop sz cmp r xs' i' j' = Inr (ys, p) \<and> shuffled l r xs' ys \<and> at ys r = at xs' r \<and>
        l \<le> p \<and> p \<le> r \<and> (\<forall>k. l \<le> k \<and> k < p \<longrightarrow> cmp (at ys k) (at ys r) \<le> 0) \<and>
        (\<forall>k. p \<le> k \<and> k \<le> r \<longrightarrow> cmp (at ys k) (at ys r) \<ge> 0) \<and>
        (cmp (at xs' l) (at xs' r) < 0 \<longrightarrow> at ys l = at xs' l)"
      proof (rule less.hyps)
        show "nat (j' - i') < nat (j - i)" using i'(2) j'(3) v(4) by simp
        show "\<forall>k. l \<le> k \<and> k \<le> i' \<longrightarrow> cmp (at xs' k) (at xs' r) \<le> 0"
          unfolding p(1) using sw le j'(4) prems(2) v by auto
        show "\<forall>k. j' \<le> k \<and> k \<le> r \<longrightarrow> cmp (at xs' k) (at xs' r) \<ge> 0"
          unfolding p(1) using sw ge i'(4) prems(2) v by auto
      qed (use prems v len p in auto)
      have step: "partition_loop sz cmp r xs i j = partition_loop sz cmp r xs' i' j'"
        using i'(1) j'(1) run False by (subst partition_loop.simps) simp
      have sh': "shuffled l r xs xs'" using v prems(2) by (intro sh) auto
      from ih obtain ys q where "partition_loop sz cmp r xs' i' j' = Inr (ys, q)" "shuffled l r xs' ys" "at ys r = at xs' r"
        "l \<le> q" "q \<le> r" "\<forall>k. l \<le> k \<and> k < q \<longrightarrow> cmp (at ys k) (at ys r) \<le> 0"
        "\<forall>k. q \<le> k \<and> k \<le> r \<longrightarrow> cmp (at ys k) (at ys r) \<ge> 0"
        "cmp (at xs' l) (at xs' r) < 0 \<longrightarrow> at ys l = at xs' l" by blast
      then show ?thesis unfolding step using p(1) first shuffled_trans [OF sh']
        by (intro exI [of _ ys] exI [of _ q]) simp
    qed
  qed
qed

text \<open>A range is in order.\<close>

definition ordered :: "int \<Rightarrow> int \<Rightarrow> 'a list \<Rightarrow> bool" where
  "ordered l r xs \<longleftrightarrow> (\<forall>i j. l \<le> i \<and> i \<le> j \<and> j \<le> r \<longrightarrow> cmp (at xs i) (at xs j) \<le> 0)"

lemma shuffled_bound:
  assumes "shuffled l r xs ys" "\<forall>k. l \<le> k \<and> k \<le> r \<longrightarrow> P (at xs k)"
  shows "\<forall>k. l \<le> k \<and> k \<le> r \<longrightarrow> P (at ys k)"
  using assms unfolding shuffled_def by (metis atLeastAtMost_iff)

lemma shuffled_outside: "shuffled l r xs ys \<Longrightarrow> 0 \<le> k \<Longrightarrow> k < l \<or> r < k \<Longrightarrow> at ys k = at xs k"
  by (auto simp: shuffled_def)

text \<open>Two ordered parts around a pivot.\<close>

lemma ordered_join:
  assumes "ordered l (p - 1) xs" "ordered (p + 1) r xs"
    and "\<forall>k. l \<le> k \<and> k \<le> p - 1 \<longrightarrow> cmp (at xs k) (at xs p) \<le> 0"
    and "\<forall>k. p + 1 \<le> k \<and> k \<le> r \<longrightarrow> cmp (at xs p) (at xs k) \<le> 0"
  shows "ordered l r xs"
  unfolding ordered_def
proof (intro allI impI)
  fix i j
  assume ij: "l \<le> i \<and> i \<le> j \<and> j \<le> r"
  consider "j \<le> p - 1" | "p + 1 \<le> i" | "i \<le> p" "p \<le> j" by linarith
  then show "cmp (at xs i) (at xs j) \<le> 0"
  proof cases
    case 1
    then show ?thesis using assms(1) ij by (simp add: ordered_def)
  next
    case 2
    then show ?thesis using assms(2) ij by (simp add: ordered_def)
  next
    case 3
    have "cmp (at xs i) (at xs p) \<le> 0" using assms(3) 3 ij by (cases "i = p") (simp_all add: refl)
    moreover have "cmp (at xs p) (at xs j) \<le> 0" using assms(4) 3 ij by (cases "j = p") (simp_all add: refl)
    ultimately show ?thesis by (rule trans)
  qed
qed

lemma quicksort_ok:
  assumes "0 \<le> l" "r < int (length xs)" "sz \<le> MAX_SORT_ELEMENT_SIZE" "0 < n" "nat (r - l + 1) \<le> n"
    and "l < r \<Longrightarrow> 0 \<le> s" "l < r \<Longrightarrow> s \<le> l" "\<forall>k. l \<le> k \<and> k \<le> r \<longrightarrow> cmp (at xs s) (at xs k) \<le> 0"
  shows "\<exists>ys d'. tk_quicksort n sz cmp xs l r d = Inr (ys, d') \<and> shuffled l r xs ys \<and> ordered l r ys \<and>
    snd d' = snd d \<and> fst d' \<le> max (fst d) (snd d + n)"
  using assms
proof (induction n arbitrary: xs l r d s)
  case 0
  then show ?case by simp
next
  case (Suc n)
  note prems = Suc.prems
  let ?d = "enter_depth d"
  show ?case
  proof (cases "l < r")
    case False
    then have "i = j" if "l \<le> i \<and> i \<le> j \<and> j \<le> r" for i j using that by linarith
    then have "ordered l r xs" unfolding ordered_def using refl by (metis order_refl)
    with False show ?thesis by (auto simp: enter_depth_def Let_def)
  next
    case True
    note s = prems(6,7) [OF True]
    have n: "0 < n" using prems(5) True by simp
    have "\<exists>ys p. partition_loop sz cmp r xs (l - 1) r = Inr (ys, p) \<and> shuffled l r xs ys \<and> at ys r = at xs r \<and>
      l \<le> p \<and> p \<le> r \<and> (\<forall>k. l \<le> k \<and> k < p \<longrightarrow> cmp (at ys k) (at ys r) \<le> 0) \<and>
      (\<forall>k. p \<le> k \<and> k \<le> r \<longrightarrow> cmp (at ys k) (at ys r) \<ge> 0) \<and>
      (cmp (at xs l) (at xs r) < 0 \<longrightarrow> at ys l = at xs l)"
      by (rule partition_ok) (use prems True s in \<open>auto simp: refl\<close>)
    then obtain xs1 p where p: "partition_loop sz cmp r xs (l - 1) r = Inr (xs1, p)" "shuffled l r xs xs1"
      "l \<le> p" "p \<le> r" "\<forall>k. l \<le> k \<and> k < p \<longrightarrow> cmp (at xs1 k) (at xs1 r) \<le> 0"
      "\<forall>k. p \<le> k \<and> k \<le> r \<longrightarrow> cmp (at xs1 k) (at xs1 r) \<ge> 0" "at xs1 r = at xs r"
      "cmp (at xs l) (at xs r) < 0 \<Longrightarrow> at xs1 l = at xs l" by blast
    have "valid_pos xs1 p" "valid_pos xs1 r"
      using prems(1,2) p(3,4) shuffled_length [OF p(2)] by (auto simp: valid_pos_def)
    then show ?thesis
    proof (rule swap_at_run [OF prems(3)])
      fix xs2
      assume run: "swap_at sz xs1 p r = Inr xs2" and len: "length xs2 = length xs1"
        and sw: "\<And>k. 0 \<le> k \<Longrightarrow> at xs2 k = (if k = p then at xs1 r else if k = r then at xs1 p else at xs1 k)"
        and sh: "\<And>l r'. 0 \<le> l \<Longrightarrow> l \<le> p \<Longrightarrow> p \<le> r' \<Longrightarrow> l \<le> r \<Longrightarrow> r \<le> r' \<Longrightarrow> shuffled l r' xs1 xs2"
      have sh2: "shuffled l r xs xs2" using p(2) sh prems(1) p(3,4) True by (intro shuffled_trans [OF p(2)] sh) auto
      have below: "\<forall>k. l \<le> k \<and> k \<le> p - 1 \<longrightarrow> cmp (at xs2 k) (at xs2 p) \<le> 0"
        using sw p(3-5) prems(1) by auto
      have above: "\<forall>k. p + 1 \<le> k \<and> k \<le> r \<longrightarrow> cmp (at xs2 p) (at xs2 k) \<le> 0"
        using sw p(3,4,6) prems(1) by (auto simp: le_iff_ge)
      have sent: "\<forall>k. l \<le> k \<and> k \<le> r \<longrightarrow> cmp (at xs s) (at xs2 k) \<le> 0"
        using shuffled_bound [OF sh2 prems(8)] .
      have sent2: "\<forall>k. l \<le> k \<and> k \<le> p - 1 \<longrightarrow> cmp (at xs2 s) (at xs2 k) \<le> 0"
      proof (cases "s = l \<and> \<not> cmp (at xs l) (at xs r) < 0")
        case True
        then have "cmp (at xs2 p) (at xs s) \<le> 0" using sw [of p] p(7,3) prems(1) le_iff_ge [of "at xs r" "at xs l"] by simp
        then have 1: "cmp (at xs2 p) (at xs2 k) \<le> 0" if "l \<le> k" "k \<le> r" for k
          using sent that trans by blast
        have 2: "cmp (at xs2 s) (at xs2 p) \<le> 0" if "l \<le> p - 1" using below that True by simp
        show ?thesis
        proof (intro allI impI)
          fix k
          assume "l \<le> k \<and> k \<le> p - 1"
          then show "cmp (at xs2 s) (at xs2 k) \<le> 0" using trans [OF 2 1, of k] p(4) by simp
        qed
      next
        case False
        have "at xs2 s = at xs s" if "l \<le> p - 1"
        proof (cases "s = l")
          case True
          then show ?thesis using that False sw [of l] p(4,8) prems(1) s by auto
        next
          case False
          then show ?thesis using shuffled_outside [OF sh2, of s] s by auto
        qed
        then show ?thesis using sent p(4) by auto
      qed
      have "\<exists>ys d'. tk_quicksort n sz cmp xs2 l (p - 1) ?d = Inr (ys, d') \<and> shuffled l (p - 1) xs2 ys \<and>
        ordered l (p - 1) ys \<and> snd d' = snd ?d \<and> fst d' \<le> max (fst ?d) (snd ?d + n)"
        by (rule Suc.IH [where s = s]) (use prems n s sent2 p(3,4) shuffled_length [OF sh2] in auto)
      then obtain xs3 d2 where q: "tk_quicksort n sz cmp xs2 l (p - 1) ?d = Inr (xs3, d2)" "shuffled l (p - 1) xs2 xs3"
        "ordered l (p - 1) xs3" "snd d2 = snd ?d" "fst d2 \<le> max (fst ?d) (snd ?d + n)" by blast
      have o3: "at xs3 k = at xs2 k" if "0 \<le> k" "k < l \<or> p \<le> k" for k
        using shuffled_outside [OF q(2) that(1)] that(2) by auto
      have sent3: "\<forall>k. p + 1 \<le> k \<and> k \<le> r \<longrightarrow> cmp (at xs3 p) (at xs3 k) \<le> 0"
        using o3 above p(3) prems(1) by auto
      have "\<exists>ys d'. tk_quicksort n sz cmp xs3 (p + 1) r d2 = Inr (ys, d') \<and> shuffled (p + 1) r xs3 ys \<and>
        ordered (p + 1) r ys \<and> snd d' = snd d2 \<and> fst d' \<le> max (fst d2) (snd d2 + n)"
        by (rule Suc.IH [where s = p]) (use prems n s sent3 p(3,4) shuffled_length [OF sh2] shuffled_length [OF q(2)] in auto)
      then obtain xs4 d3 where t: "tk_quicksort n sz cmp xs3 (p + 1) r d2 = Inr (xs4, d3)" "shuffled (p + 1) r xs3 xs4"
        "ordered (p + 1) r xs4" "snd d3 = snd d2" "fst d3 \<le> max (fst d2) (snd d2 + n)" by blast
      have o4: "at xs4 k = at xs3 k" if "0 \<le> k" "k \<le> p" for k
        using shuffled_outside [OF t(2) that(1)] that(2) by auto
      have below4: "\<forall>k. l \<le> k \<and> k \<le> p - 1 \<longrightarrow> cmp (at xs4 k) (at xs4 p) \<le> 0"
        using shuffled_bound [OF q(2) below] o3 [of p] o4 p(3) prems(1) by auto
      have "\<forall>k. p + 1 \<le> k \<and> k \<le> r \<longrightarrow> cmp (at xs2 p) (at xs3 k) \<le> 0"
        using above o3 p(3) prems(1) by auto
      then have above4: "\<forall>k. p + 1 \<le> k \<and> k \<le> r \<longrightarrow> cmp (at xs4 p) (at xs4 k) \<le> 0"
        using shuffled_bound [OF t(2), of "\<lambda>x. cmp (at xs2 p) x \<le> 0"] o3 [of p] o4 [of p] p(3) prems(1) by auto
      have "ordered l (p - 1) xs4" using q(3) o4 prems(1) by (auto simp: ordered_def)
      then have ord: "ordered l r xs4" by (rule ordered_join [OF _ t(3) below4 above4])
      have "shuffled l r xs xs4"
        by (rule shuffled_trans [OF sh2], rule shuffled_trans [OF shuffled_mono [OF q(2)] shuffled_mono [OF t(2)]])
          (use p(3,4) prems(1) in auto)
      moreover have "tk_quicksort (Suc n) sz cmp xs l r d = Inr (xs4, (fst d3, snd d3 - 1))"
        using True p(1) run q(1) t(1) by (simp add: Let_def)
      moreover have "snd d3 - 1 = snd d" "fst d3 \<le> max (fst d) (snd d + Suc n)"
        using q(4,5) t(4,5) by (auto simp: enter_depth_def)
      ultimately show ?thesis using ord by simp
    qed
  qed
qed

section \<open>Searching finds\<close>

text \<open>
  The loop keeps: everything left of \<open>l\<close> is below the key and everything right of \<open>r\<close> above,
  and the last position looked at borders the range.
\<close>

lemma bsearch_ok:
  assumes ord: "ordered 0 (n - 1) xs" and n: "n \<le> int (length xs)" and b: "0 \<le> l" "r < n"
    and lo: "\<forall>k. 0 \<le> k \<and> k < l \<longrightarrow> cmp v (at xs k) > 0" and hi: "\<forall>k. r < k \<and> k < n \<longrightarrow> cmp v (at xs k) < 0"
    and lr: "l \<le> r + 1" and some: "prev = None \<longrightarrow> l \<le> r"
    and prev: "\<forall>x rc. prev = Some (x, rc) \<longrightarrow> (if rc < 0 then x = r + 1 else x + 1 = l) \<or> l \<le> r"
  shows "\<exists>i. bsearch_loop cmp v xs l r prev = Inr i \<and>
    (if 0 \<le> i then i < n \<and> cmp v (at xs i) = 0
     else (let p = - i - 1 in 0 \<le> p \<and> p \<le> n \<and> (\<forall>k. 0 \<le> k \<and> k < p \<longrightarrow> cmp v (at xs k) > 0) \<and>
       (\<forall>k. p \<le> k \<and> k < n \<longrightarrow> cmp v (at xs k) < 0)))"
  using b lo hi lr some prev
proof (induction "nat (r - l + 1)" arbitrary: l r prev rule: less_induct)
  case less
  note prems = less.prems
  show ?case
  proof (cases "l \<le> r")
    case False
    then obtain x rc where p: "prev = Some (x, rc)" using prems(6) by (cases prev) auto
    have e: "r + 1 = l" using False prems(5) by simp
    have "bsearch_loop cmp v xs l r prev = Inr (- l - 1)"
      using p False prems(7) e by (subst bsearch_loop.simps) auto
    with prems(1-4) e show ?thesis by (intro exI [of _ "- l - 1"]) (auto simp: Let_def)
  next
    case True
    obtain x where x: "x = (r + l) div 2" by blast
    have xb: "l \<le> x" "x \<le> r" using True x by auto
    have v: "valid_pos xs x" using xb prems(1,2) n by (auto simp: valid_pos_def)
    consider "cmp v (at xs x) = 0" | "cmp v (at xs x) < 0" | "cmp v (at xs x) > 0" by linarith
    then show ?thesis
    proof cases
      case 1
      then have "bsearch_loop cmp v xs l r prev = Inr x"
        using True v x by (subst bsearch_loop.simps) (simp add: Let_def)
      with 1 xb prems(1,2) show ?thesis by auto
    next
      case 2
      have "cmp v (at xs k) < 0" if "x - 1 < k" "k < n" for k
        using less_le [OF 2] ord that xb prems(1) by (auto simp: ordered_def)
      moreover have "bsearch_loop cmp v xs l r prev = bsearch_loop cmp v xs l (x - 1) (Some (x, cmp v (at xs x)))"
        using True v x 2 by (subst bsearch_loop.simps) (simp add: Let_def)
      ultimately show ?thesis
        using less.hyps [of "x - 1" l "Some (x, cmp v (at xs x))"] 2 xb prems(1-3) by (auto simp: Let_def)
    next
      case 3
      have "cmp v (at xs k) > 0" if "0 \<le> k" "k < x + 1" for k
      proof -
        have "cmp (at xs k) (at xs x) \<le> 0" using ord that xb prems(1,2) by (auto simp: ordered_def)
        moreover have "cmp (at xs x) v < 0" using 3 by (simp add: sym)
        ultimately have "cmp (at xs k) v < 0" using trans le_iff_ge sym less_le by (meson leD le_less_linear order_less_imp_le)
        then show ?thesis by (simp add: sym)
      qed
      moreover have "bsearch_loop cmp v xs l r prev = bsearch_loop cmp v xs (x + 1) r (Some (x, cmp v (at xs x)))"
        using True v x 3 by (subst bsearch_loop.simps) (simp add: Let_def)
      ultimately show ?thesis
        using less.hyps [of r "x + 1" "Some (x, cmp v (at xs x))"] 3 xb prems(1,2,4) by (auto simp: Let_def)
    qed
  qed
qed

end

section \<open>Properties\<close>

interpretation int_order: comparator "\<lambda>x y :: int. x - y"
  by unfold_locales auto

lemma ordered_sorted:
  assumes "comparator.ordered cmp (int b) (int b + int n - 1) xs" "comparator cmp" "b + n \<le> length xs"
  shows "sorted_wrt (\<lambda>x y. cmp x y \<le> 0) (take n (drop b xs))"
  unfolding sorted_wrt_iff_nth_less
proof (intro allI impI)
  fix i j
  assume ij: "i < j" "j < length (take n (drop b xs))"
  then have "cmp (at xs (int b + int i)) (at xs (int b + int j)) \<le> 0"
    using assms(1) by (simp add: comparator.ordered_def [OF assms(2)])
  with ij assms(3) show "cmp (take n (drop b xs) ! i) (take n (drop b xs) ! j) \<le> 0"
    by (simp add: at_def nat_add_distrib)
qed

context comparator
begin

lemma c_qsort_ok:
  assumes b: "b + n \<le> length xs" "s \<le> b" and sz: "sz \<le> MAX_SORT_ELEMENT_SIZE"
    and sent: "\<forall>k. b \<le> k \<and> k < b + n \<longrightarrow> cmp (xs ! s) (xs ! k) \<le> 0"
  shows "\<exists>ys d. c_qsort sz cmp xs b n cur = Inr (ys, d) \<and> mset ys = mset xs \<and>
    take b ys = take b xs \<and> drop (b + n) ys = drop (b + n) xs \<and>
    sorted_wrt (\<lambda>x y. cmp x y \<le> 0) (take n (drop b ys)) \<and> fst d \<le> cur + n + 1"
proof -
  let ?r = "int b + int n - 1"
  have "cmp (at xs (int s)) (at xs k) \<le> 0" if "int b \<le> k" "k \<le> ?r" for k
    using sent [rule_format, of "nat k"] that by (auto simp: at_def nat_less_iff le_nat_iff)
  then have "\<exists>ys d. tk_quicksort (Suc n) sz cmp xs (int b) ?r (0, cur) = Inr (ys, d) \<and>
      shuffled (int b) ?r xs ys \<and> ordered (int b) ?r ys \<and> snd d = cur \<and> fst d \<le> max 0 (cur + Suc n)"
    using quicksort_ok [of "int b" ?r xs sz "Suc n" "int s" "(0, cur)"] b sz by auto
  then obtain ys d where ys: "tk_quicksort (Suc n) sz cmp xs (int b) ?r (0, cur) = Inr (ys, d)"
    "shuffled (int b) ?r xs ys" "ordered (int b) ?r ys" "fst d \<le> cur + Suc n" by auto
  have len: "length ys = length xs" by (rule shuffled_length [OF ys(2)])
  have out: "ys ! k = xs ! k" if "k < b \<or> b + n \<le> k" for k
  proof -
    have "at ys (int k) = at xs (int k)" using ys(2) that by (auto simp: shuffled_def)
    then show ?thesis by (simp add: at_def)
  qed
  have "take b ys = take b xs" "drop (b + n) ys = drop (b + n) xs"
    using len out by (auto intro!: nth_equalityI)
  moreover have "sorted_wrt (\<lambda>x y. cmp x y \<le> 0) (take n (drop b ys))"
    by (rule ordered_sorted [OF ys(3) comparator_axioms]) (use b(1) len in simp)
  moreover have "mset ys = mset xs" using ys(2) by (simp add: shuffled_def)
  ultimately show ?thesis using ys(1,4) by (auto simp: c_qsort_def)
qed

end

text \<open>
  C15. \<open>qsort\<close> on a range whose first element, or an element below it in memory, is none above
  the range's elements, returns; it sorts the range, keeps the elements, leaves the rest of the memory
  alone, and recurses no deeper than the range is long plus one.
\<close>

theorem qsort_sorts:
  assumes cmp: "comparator cmp" and b: "b + n \<le> length xs" "s \<le> b" and sz: "sz \<le> MAX_SORT_ELEMENT_SIZE"
    and sent: "\<forall>k. b \<le> k \<and> k < b + n \<longrightarrow> cmp (xs ! s) (xs ! k) \<le> 0"
  shows "\<exists>ys d. c_qsort sz cmp xs b n cur = Inr (ys, d) \<and> mset ys = mset xs \<and>
    take b ys = take b xs \<and> drop (b + n) ys = drop (b + n) xs \<and>
    sorted_wrt (\<lambda>x y. cmp x y \<le> 0) (take n (drop b ys)) \<and> fst d \<le> cur + n + 1"
  by (rule comparator.c_qsort_ok [OF cmp b sz sent])

theorem qsort_sorts_witness:
  "\<exists>ys d. c_qsort 4 (\<lambda>x y. x - y) [0, 3, 1, 2, 9] 1 3 0 = Inr (ys, d) \<and> mset ys = mset [0, 3, 1, 2, 9 :: int] \<and>
    sorted_wrt (\<lambda>x y. x - y \<le> 0) (take 3 (drop 1 ys)) \<and> fst d \<le> 4"
proof -
  have "\<forall>k. 1 \<le> k \<and> k < 1 + 3 \<longrightarrow> [0, 3, 1, 2, 9] ! 0 - [0, 3, 1, 2, 9 :: int] ! k \<le> 0"
    by (auto simp: less_Suc_eq numeral_eq_Suc)
  then show ?thesis
    using qsort_sorts [OF int_order.comparator_axioms, of 1 3 "[0, 3, 1, 2, 9]" 0 4 0]
    by (auto simp: MAX_SORT_ELEMENT_SIZE_def)
qed

lemma scan_down_falls:
  assumes "0 \<le> j" "j \<le> int (length xs)" "\<forall>k. 0 \<le> k \<and> k < j \<longrightarrow> cmp (at xs k) (at xs r) > 0"
  shows "scan_down cmp xs r j = Inl Out_of_bounds"
  using assms
proof (induction "nat j" arbitrary: j)
  case 0
  then have "j = 0" by simp
  then show ?case by (subst scan_down.simps) (simp add: valid_pos_def)
next
  case (Suc n)
  have "scan_down cmp xs r (j - 1) = Inl Out_of_bounds"
    by (rule Suc.hyps(1)) (use Suc.hyps(2) Suc.prems in auto)
  moreover have "valid_pos xs (j - 1)" "cmp (at xs (j - 1)) (at xs r) > 0"
    using Suc.hyps(2) Suc.prems by (auto simp: valid_pos_def)
  ultimately show ?case by (subst scan_down.simps) simp
qed

lemma c_qsort_falls:
  assumes "2 \<le> n" "n \<le> length xs" "\<forall>k < n - 1. cmp (xs ! k) (xs ! (n - 1)) > 0"
  shows "c_qsort sz cmp xs 0 n cur = Inl Out_of_bounds"
proof -
  let ?r = "int n - 1"
  have l: "at xs ?r = xs ! (n - 1)" using assms(1) by (simp add: at_def nat_diff_distrib)
  have "at xs 0 = xs ! 0" by (simp add: at_def)
  then have "cmp (at xs 0) (at xs ?r) > 0" using assms l by simp
  then have u: "scan_up cmp xs ?r (- 1) = Inr 0"
    using assms(1,2) by (subst scan_up.simps) (cases xs; simp add: valid_pos_def)
  have "scan_down cmp xs ?r ?r = Inl Out_of_bounds"
    by (rule scan_down_falls) (use assms l in \<open>auto simp: at_def nat_less_iff\<close>)
  then have "partition_loop sz cmp ?r xs (- 1) ?r = Inl Out_of_bounds"
    using u by (subst partition_loop.simps) simp
  then show ?thesis using assms(1) by (simp add: c_qsort_def Let_def)
qed

text \<open>
  With nothing below the range, a range whose last element is the smallest, and no other
  as small, makes \<open>qsort\<close> read below the array.
\<close>

theorem qsort_reads_below:
  assumes "2 \<le> n" "n \<le> length xs" "\<forall>k < n - 1. cmp (xs ! k) (xs ! (n - 1)) > 0"
  shows "c_qsort sz cmp xs 0 n cur = Inl Out_of_bounds"
  by (rule c_qsort_falls [where cmp = cmp, OF assms])

theorem qsort_reads_below_witness:
  "c_qsort 4 (\<lambda>x y. x - y) [2, 1 :: int] 0 2 0 = Inl Out_of_bounds"
  using qsort_reads_below [of 2 "[2, 1 :: int]" "\<lambda>x y. x - y" 4 0] by (simp add: numeral_2_eq_2)

text \<open>
  \<open>_tk_bsearch\<close> on a sorted array that is not empty returns: the position of an element
  equal to the key, or the place where the key belongs, counted down from \<open>-1\<close>, with every
  element before it below the key and every element from it on above. Of an empty array it
  reads variables that were never set.
\<close>

theorem bsearch_finds:
  assumes cmp: "comparator cmp" and ord: "sorted_wrt (\<lambda>x y. cmp x y \<le> 0) xs"
  shows "if xs = [] then tk_bsearch cmp v xs 0 (int (length xs) - 1) = Inl Uninitialised
    else \<exists>i. tk_bsearch cmp v xs 0 (int (length xs) - 1) = Inr i \<and>
      (if 0 \<le> i then nat i < length xs \<and> cmp v (xs ! nat i) = 0
       else \<exists>p \<le> length xs. i = - int p - 1 \<and> (\<forall>k < p. cmp v (xs ! k) > 0) \<and>
         (\<forall>k. p \<le> k \<and> k < length xs \<longrightarrow> cmp v (xs ! k) < 0))"
proof (cases "xs = []")
  case True
  then show ?thesis by (simp add: tk_bsearch_def bsearch_loop.simps)
next
  case False
  let ?n = "int (length xs)"
  have "cmp (at xs i) (at xs j) \<le> 0" if "0 \<le> i" "i \<le> j" "j \<le> ?n - 1" for i j
    using ord that comparator.refl [OF cmp] by (cases "i = j") (auto simp: at_def sorted_wrt_iff_nth_less nat_less_iff)
  then have o: "comparator.ordered cmp 0 (?n - 1) xs" by (simp add: comparator.ordered_def [OF cmp])
  obtain i where i: "tk_bsearch cmp v xs 0 (?n - 1) = Inr i"
    "if 0 \<le> i then i < ?n \<and> cmp v (at xs i) = 0
     else (let p = - i - 1 in 0 \<le> p \<and> p \<le> ?n \<and> (\<forall>k. 0 \<le> k \<and> k < p \<longrightarrow> cmp v (at xs k) > 0) \<and>
       (\<forall>k. p \<le> k \<and> k < ?n \<longrightarrow> cmp v (at xs k) < 0))"
    using comparator.bsearch_ok [OF cmp o, of 0 "?n - 1" v None] False by (auto simp: tk_bsearch_def)
  have "if 0 \<le> i then nat i < length xs \<and> cmp v (xs ! nat i) = 0
       else \<exists>p \<le> length xs. i = - int p - 1 \<and> (\<forall>k < p. cmp v (xs ! k) > 0) \<and>
         (\<forall>k. p \<le> k \<and> k < length xs \<longrightarrow> cmp v (xs ! k) < 0)"
  proof (cases "0 \<le> i")
    case True
    then show ?thesis using i(2) by (auto simp: at_def)
  next
    case neg: False
    have "cmp v (xs ! k) > 0" if "k < nat (- i - 1)" for k
      using i(2) neg that by (auto simp: at_def Let_def dest: spec [of _ "int k"])
    moreover have "cmp v (xs ! k) < 0" if "nat (- i - 1) \<le> k" "k < length xs" for k
      using i(2) neg that by (auto simp: at_def Let_def dest: spec [of _ "int k"])
    ultimately show ?thesis using i(2) neg by (auto simp: Let_def intro!: exI [of _ "nat (- i - 1)"])
  qed
  with i(1) False show ?thesis by auto
qed

theorem bsearch_finds_witness:
  "\<exists>i. tk_bsearch (\<lambda>x y. x - y) 5 [1, 5, 7 :: int] 0 2 = Inr i \<and> (i < 0 \<or> [1, 5, 7] ! nat i = (5 :: int))"
proof -
  have "sorted_wrt (\<lambda>x y. x - y \<le> 0) [1, 5, 7 :: int]" by simp
  from bsearch_finds [OF int_order.comparator_axioms this, of 5]
  obtain i where "tk_bsearch (\<lambda>x y. x - y) 5 [1, 5, 7 :: int] 0 2 = Inr i"
    "i < 0 \<or> 5 - [1, 5, 7] ! nat i = (0 :: int)" by (auto split: if_splits)
  then show ?thesis by (intro exI [of _ i]) auto
qed

end
