(* ===== verification/TkMutex.thy ===== *)
theory TkMutex
  imports TkSem
begin

text \<open>
  POSIX mutexes and condition variables: the data of \<^verbatim>\<open>include/pthread.h\<close>,
  \<^verbatim>\<open>src/pthread_sync.c\<close>, \<^verbatim>\<open>src/pthread_mutex.c\<close> and
  \<^verbatim>\<open>src/pthread_cond.c\<close>. A structure that another one embeds, such as the mutex
  \<^verbatim>\<open>cv_mux\<close> of a condition variable, is an object of its own with its own address;
  the maps \<open>mutexes\<close>, \<open>conds\<close> and \<open>rwlocks\<close> are the memory.
\<close>

section \<open>Data\<close>

text \<open>The owner: null, the fake \<^verbatim>\<open>(pthread_t) 1\<close> of a condition variable, or a thread.\<close>

datatype owner_t = No_owner | Cv_owner | Owner thid_t

datatype pbon_kind_t = PBON_NOLINK | PBON_CONDVAR | PBON_RWLOCK

datatype bcast_t = BSINGLE | BCAST

definition PTHREADS_MAX_BLOCKED :: nat where "PTHREADS_MAX_BLOCKED = TK_MAX_THREADS"

record pthread_mutex_t =
  m_owner :: owner_t
  m_numb :: nat
  m_thread :: "nat \<Rightarrow> thid_t option"
  m_linkOf :: pbon_kind_t
  m_link :: "nat option"
  m_valid :: bool

record pthread_cond_t =
  coop_mux :: "nat option"
  cv_mux :: nat
  c_valid :: bool

record pthread_rwlock_t =
  readers_reading :: int
  writers_writing :: int
  blocked_writers :: int
  blocked_readers :: int
  mx_self :: nat
  readers_lock :: nat
  writers_lock :: nat
  bwriters_prio :: "nat \<Rightarrow> int"
  rw_valid :: bool

record pthread_once_t =
  o_done :: int
  o_started :: int

record pth_kern = itc_kern +
  sem_once :: nat
  mutexes :: "nat \<Rightarrow> pthread_mutex_t"
  conds :: "nat \<Rightarrow> pthread_cond_t"
  rwlocks :: "nat \<Rightarrow> pthread_rwlock_t"
  onces :: "nat \<Rightarrow> pthread_once_t"

type_synonym 'a pth_others = "thid_t \<Rightarrow> 'a pth_kern_scheme \<Rightarrow> 'a pth_kern_scheme result"

text \<open>The initialisers of \<^verbatim>\<open>pthread.h\<close>; the blocked array is zeroed.\<close>

definition PTHREAD_MUTEX_INITIALIZER :: pthread_mutex_t where
  "PTHREAD_MUTEX_INITIALIZER = \<lparr>m_owner = No_owner, m_numb = 0, m_thread = (\<lambda>_. None),
     m_linkOf = PBON_NOLINK, m_link = None, m_valid = True\<rparr>"

definition PTHREAD_CV_MUTEX_INITIALIZER :: pthread_mutex_t where
  "PTHREAD_CV_MUTEX_INITIALIZER = \<lparr>m_owner = Cv_owner, m_numb = 0, m_thread = (\<lambda>_. None),
     m_linkOf = PBON_NOLINK, m_link = None, m_valid = True\<rparr>"

definition PTHREAD_COND_INITIALIZER :: "nat \<Rightarrow> pthread_cond_t" where
  "PTHREAD_COND_INITIALIZER cv = \<lparr>coop_mux = None, cv_mux = cv, c_valid = True\<rparr>"

definition PTHREAD_RWLOCK_INITIALIZER :: "nat \<Rightarrow> nat \<Rightarrow> nat \<Rightarrow> pthread_rwlock_t" where
  "PTHREAD_RWLOCK_INITIALIZER mx rl wl = \<lparr>readers_reading = 0, writers_writing = 0, blocked_writers = 0,
     blocked_readers = 0, mx_self = mx, readers_lock = rl, writers_lock = wl, bwriters_prio = (\<lambda>_. 0),
     rw_valid = True\<rparr>"

definition put_mutex :: "nat \<Rightarrow> pthread_mutex_t \<Rightarrow> 'a pth_kern_scheme \<Rightarrow> 'a pth_kern_scheme" where
  "put_mutex m x k = k\<lparr>mutexes := (mutexes k)(m := x)\<rparr>"

definition put_cond :: "nat \<Rightarrow> pthread_cond_t \<Rightarrow> 'a pth_kern_scheme \<Rightarrow> 'a pth_kern_scheme" where
  "put_cond c x k = k\<lparr>conds := (conds k)(c := x)\<rparr>"

section \<open>The primitives\<close>

definition block_on_mutex :: "nat \<Rightarrow> thid_t \<Rightarrow> 'a kern_scheme \<Rightarrow> 'a kern_scheme" where
  "block_on_mutex m self k = upd_tcb self
     (\<lambda>c. c\<lparr>bOnId := \<lparr>kind = BON_PMUTEX, entity = Ent_mutex m\<rparr>, state := state c OR QUEUE\<rparr>) k"

definition mutex_lock_primitive :: "nat \<Rightarrow> 'a pth_kern_scheme \<Rightarrow> (bool \<times> 'a pth_kern_scheme) result" where
  "mutex_lock_primitive m k =
     (let x = mutexes k m; self = active_thread k in
      if m_owner x = No_owner then Inr (False, put_mutex m (x\<lparr>m_owner := Owner self, m_numb := 0\<rparr>) k)
      else in_bounds (m_numb x < PTHREADS_MAX_BLOCKED)
        (Inr (True, block_on_mutex m self (put_mutex m (x\<lparr>m_linkOf := PBON_NOLINK, m_link := None,
           m_thread := (m_thread x)(m_numb x := Some self), m_numb := m_numb x + 1\<rparr>) k))))"

definition wake_from_mutex :: "thid_t \<Rightarrow> 'a kern_scheme \<Rightarrow> 'a kern_scheme" where
  "wake_from_mutex t k = upd_tcb t (\<lambda>c. c\<lparr>bOnId := \<lparr>kind = BON_SCHED, entity = Ent_null\<rparr>,
     state := state c AND NOT QUEUE, wakeupEvent := E_ITC\<rparr>) k"

text \<open>All of them, with a broadcast.\<close>

fun wake_all :: "(nat \<Rightarrow> thid_t option) \<Rightarrow> nat list \<Rightarrow> 'a kern_scheme \<Rightarrow> 'a kern_scheme result" where
  "wake_all th [] k = Inr k"
| "wake_all th (i # is) k = (case th i of None \<Rightarrow> Inl Null_deref
     | Some t \<Rightarrow> wake_all th is (wake_from_mutex t k))"

text \<open>The first of the most urgent; \<^verbatim>\<open>j\<close> is set only when one is more urgent than \<open>p\<close>.\<close>

fun pick_owner :: "'a kern_scheme \<Rightarrow> (nat \<Rightarrow> thid_t option) \<Rightarrow> nat list \<Rightarrow> nat \<Rightarrow> nat option \<Rightarrow> nat option result" where
  "pick_owner k th [] p j = Inr j"
| "pick_owner k th (i # is) p j = (case th i of None \<Rightarrow> Inl Null_deref
     | Some t \<Rightarrow> if Prio (pool k t) < p then pick_owner k th is (Prio (pool k t)) (Some i)
         else pick_owner k th is p j)"

fun shift_blocked :: "nat list \<Rightarrow> (nat \<Rightarrow> thid_t option) \<Rightarrow> (nat \<Rightarrow> thid_t option) result" where
  "shift_blocked [] th = Inr th"
| "shift_blocked (i # is) th = in_bounds (i + 1 < PTHREADS_MAX_BLOCKED) (shift_blocked is (th(i := th (i + 1))))"

definition mutex_unlock_primitive :: "nat \<Rightarrow> bcast_t \<Rightarrow> 'a pth_kern_scheme \<Rightarrow> (bool \<times> 'a pth_kern_scheme) result" where
  "mutex_unlock_primitive m bc k =
     (let x = mutexes k m in
      if m_owner x = No_owner then c_assert (m_numb x = 0) (Inr (False, k))
      else if m_numb x = 0 then Inr (False, put_mutex m (x\<lparr>m_owner := No_owner\<rparr>) k)
      else if bc = BCAST then
        andThen (wake_all (m_thread x) [0..<m_numb x] k) (\<lambda>k1.
          Inr (True, put_mutex m (x\<lparr>m_numb := 0\<rparr>) k1))
      else andThen (pick_owner k (m_thread x) [0..<m_numb x] TK_MAX_PRIO_LEVELS None) (\<lambda>j.
        case j of None \<Rightarrow> Inl Uninitialised
        | Some j \<Rightarrow> (case m_thread x j of None \<Rightarrow> Inl Null_deref
          | Some new \<Rightarrow> andThen (shift_blocked [j..<m_numb x] (m_thread x)) (\<lambda>th.
              Inr (True, wake_from_mutex new (put_mutex m (x\<lparr>m_owner := Owner new, m_thread := th,
                m_numb := m_numb x - 1\<rparr>) k))))))"

section \<open>Mutexes\<close>

definition pthread_yield :: "'a pth_others \<Rightarrow> 'a pth_kern_scheme \<Rightarrow> 'a pth_kern_scheme result" where
  "pthread_yield oth k = tk_yield oth k"

definition yield_if :: "'a pth_others \<Rightarrow> bool \<times> 'a pth_kern_scheme \<Rightarrow> 'a pth_kern_scheme result" where
  "yield_if oth bk = (if fst bk then pthread_yield oth (snd bk) else Inr (snd bk))"

definition pthread_mutex_lock :: "'a pth_others \<Rightarrow> nat \<Rightarrow> 'a pth_kern_scheme \<Rightarrow> (int \<times> 'a pth_kern_scheme) result" where
  "pthread_mutex_lock oth m k = c_assert (m_valid (mutexes k m))
     (andThen (mutex_lock_primitive m k) (\<lambda>bk. andThen (yield_if oth bk) (\<lambda>k1. Inr (0, k1))))"

definition pthread_mutex_unlock :: "'a pth_others \<Rightarrow> nat \<Rightarrow> 'a pth_kern_scheme \<Rightarrow> (int \<times> 'a pth_kern_scheme) result" where
  "pthread_mutex_unlock oth m k = c_assert (m_valid (mutexes k m))
     (andThen (mutex_unlock_primitive m BSINGLE k) (\<lambda>bk. andThen (yield_if oth bk) (\<lambda>k1. Inr (0, k1))))"

text \<open>The operations that are not implemented assert so, after the check of the object.\<close>

definition not_implemented :: "bool \<Rightarrow> 'a pth_kern_scheme \<Rightarrow> (int \<times> 'a pth_kern_scheme) result" where
  "not_implemented v k = c_assert v (c_assert False (Inr (0, k)))"

definition pthread_mutex_init :: "nat \<Rightarrow> 'a pth_kern_scheme \<Rightarrow> (int \<times> 'a pth_kern_scheme) result" where
  "pthread_mutex_init m k = not_implemented (m_valid (mutexes k m)) k"

definition pthread_mutex_destroy :: "nat \<Rightarrow> 'a pth_kern_scheme \<Rightarrow> (int \<times> 'a pth_kern_scheme) result" where
  "pthread_mutex_destroy m k = not_implemented (m_valid (mutexes k m)) k"

definition pthread_mutex_trylock :: "nat \<Rightarrow> 'a pth_kern_scheme \<Rightarrow> (int \<times> 'a pth_kern_scheme) result" where
  "pthread_mutex_trylock m k = not_implemented (m_valid (mutexes k m)) k"

definition pthread_mutex_timedlock :: "nat \<Rightarrow> 'a pth_kern_scheme \<Rightarrow> (int \<times> 'a pth_kern_scheme) result" where
  "pthread_mutex_timedlock m k = not_implemented (m_valid (mutexes k m)) k"

section \<open>Condition variables\<close>

definition pthread_cond_init :: "nat \<Rightarrow> 'a pth_kern_scheme \<Rightarrow> (int \<times> 'a pth_kern_scheme) result" where
  "pthread_cond_init c k = not_implemented True k"

definition pthread_cond_destroy :: "nat \<Rightarrow> 'a pth_kern_scheme \<Rightarrow> (int \<times> 'a pth_kern_scheme) result" where
  "pthread_cond_destroy c k = not_implemented (c_valid (conds k c)) k"

definition pthread_cond_timedwait :: "nat \<Rightarrow> 'a pth_kern_scheme \<Rightarrow> (int \<times> 'a pth_kern_scheme) result" where
  "pthread_cond_timedwait c k = not_implemented (c_valid (conds k c)) k"

text \<open>The mutex of the condition variable is never free: it goes back to the fake owner.\<close>

definition reown_cv :: "nat \<Rightarrow> 'a pth_kern_scheme \<Rightarrow> 'a pth_kern_scheme" where
  "reown_cv cv k = put_mutex cv ((mutexes k cv)\<lparr>m_owner := Cv_owner\<rparr>) k"

definition pthread_cond_signal :: "'a pth_others \<Rightarrow> nat \<Rightarrow> 'a pth_kern_scheme \<Rightarrow> (int \<times> 'a pth_kern_scheme) result" where
  "pthread_cond_signal oth c k =
     (let cv = cv_mux (conds k c) in c_assert (c_valid (conds k c))
       (case coop_mux (conds k c) of None \<Rightarrow> Inr (0, k)
        | Some _ \<Rightarrow> andThen (mutex_unlock_primitive cv BSINGLE k) (\<lambda>(y, k1).
            andThen (if m_owner (mutexes k1 cv) = No_owner
                     then c_assert (m_numb (mutexes k1 cv) = 0) (Inr (reown_cv cv k1)) else Inr k1) (\<lambda>k2.
            andThen (yield_if oth (y, k2)) (\<lambda>k3.
              case coop_mux (conds k3 c) of None \<Rightarrow> Inl Null_deref
              | Some coop \<Rightarrow> andThen (pthread_mutex_unlock oth coop k3) (\<lambda>(_, k4). Inr (0, k4)))))))"

definition pthread_cond_broadcast :: "'a pth_others \<Rightarrow> nat \<Rightarrow> 'a pth_kern_scheme \<Rightarrow> (int \<times> 'a pth_kern_scheme) result" where
  "pthread_cond_broadcast oth c k =
     (let cv = cv_mux (conds k c) in c_assert (c_valid (conds k c))
       (case coop_mux (conds k c) of None \<Rightarrow> Inr (0, k)
        | Some coop \<Rightarrow> andThen (mutex_unlock_primitive cv BCAST k) (\<lambda>(y1, k1).
            let k2 = if m_numb (mutexes k1 cv) = 0 then reown_cv cv k1 else k1 in
            andThen (mutex_unlock_primitive coop BSINGLE k2) (\<lambda>(y2, k3).
              andThen (yield_if oth (y1 \<or> y2, k3)) (\<lambda>k4. Inr (0, k4))))))"

definition pthread_cond_wait :: "'a pth_others \<Rightarrow> nat \<Rightarrow> nat \<Rightarrow> 'a pth_kern_scheme \<Rightarrow> (int \<times> 'a pth_kern_scheme) result" where
  "pthread_cond_wait oth c m k =
     (let cv = cv_mux (conds k c) in c_assert (c_valid (conds k c))
       (andThen (mutex_unlock_primitive m BSINGLE (put_cond c ((conds k c)\<lparr>coop_mux := Some m\<rparr>) k)) (\<lambda>(_, k1).
        andThen (mutex_lock_primitive cv k1) (\<lambda>(y, k2). c_assert y
          (let k3 = put_mutex cv ((mutexes k2 cv)\<lparr>m_linkOf := PBON_CONDVAR, m_link := Some c\<rparr>) k2 in
           andThen (pthread_yield oth k3) (\<lambda>k4.
             case coop_mux (conds k4 c) of None \<Rightarrow> Inl Null_deref
             | Some coop \<Rightarrow> andThen (pthread_mutex_lock oth coop k4) (\<lambda>(_, k5). Inr (0, k5))))))))"

end
