(* ===== verification/TkSemaphore.thy ===== *)
theory TkSemaphore
  imports TkQueue
begin

text \<open>
  POSIX semaphores on top of the ITC semaphores, \<^verbatim>\<open>src/semaphore.c\<close>, and the system
  queues of \<^verbatim>\<open>src/tk_sysqueues.c\<close>.
\<close>

section \<open>Error numbers\<close>

text \<open>
  The numbers of the codes: the enumerations of \<^verbatim>\<open>tk.h\<close>, \<^verbatim>\<open>tk_itc.h\<close>,
  \<^verbatim>\<open>tk_ptime.h\<close>, \<^verbatim>\<open>tk_mem.h\<close> and \<^verbatim>\<open>errno.h\<close> continue one
  another.
\<close>

fun rc_num :: "itc_rc \<Rightarrow> int" where
  "rc_num RC_OK = 0"
| "rc_num ERR_TIMEOUT = 2"
| "rc_num ERR_OBJDEL = 3"
| "rc_num ERR_OBJID = 4"
| "rc_num ERR_OBJTYPE = 5"
| "rc_num ERR_OBJFULL = 6"
| "rc_num ERR_BUFSIZ = 7"
| "rc_num ERR_NOQCB = 8"
| "rc_num ERR_FULL = 9"
| "rc_num ERR_NOSCB = 10"
| "rc_num ERR_NOSEM = 11"
| "rc_num ERR_TATSDEL = 12"
| "rc_num ERR_NOMEM = 13"
| "rc_num ERR_BLOCKLIMIT = 14"

definition E_NOENT :: int where "E_NOENT = 21"
definition E_BADF :: int where "E_BADF = 28"
definition E_NOMEM :: int where "E_NOMEM = 31"
definition E_BUSY :: int where "E_BUSY = 35"
definition E_EXIST :: int where "E_EXIST = 36"
definition E_INVAL :: int where "E_INVAL = 41"
definition E_MFILE :: int where "E_MFILE = 42"
definition E_NFILE :: int where "E_NFILE = 43"
definition E_AGAIN :: int where "E_AGAIN = 54"
definition E_MSGSIZE :: int where "E_MSGSIZE = 59"
definition E_NAMETOOLONG :: int where "E_NAMETOOLONG = 83"

lemmas errno_defs = E_NOENT_def E_BADF_def E_NOMEM_def E_BUSY_def E_EXIST_def E_INVAL_def E_MFILE_def
  E_NFILE_def E_AGAIN_def E_MSGSIZE_def E_NAMETOOLONG_def

text \<open>\<^verbatim>\<open>errno = e\<close>: the error number of the running thread.\<close>

definition set_errno :: "int \<Rightarrow> 'a kern_scheme \<Rightarrow> 'a kern_scheme" where
  "set_errno e k = upd_tcb (active_thread k) (\<lambda>c. c\<lparr>t_errno := e\<rparr>) k"

section \<open>Semaphores\<close>

text \<open>\<open>m1\<close> and \<open>m2\<close> are what \<open>sm_create\<close> gets from \<^verbatim>\<open>malloc\<close>; \<open>sem\<close> is \<^verbatim>\<open>*sem\<close>.\<close>

definition posix_rc :: "itc_rc \<Rightarrow> int" where
  "posix_rc rc = (if rc = RC_OK then 0 else E_INVAL)"

definition sem_init :: "itc_t option \<Rightarrow> bool \<Rightarrow> nat \<Rightarrow> int \<Rightarrow> nat \<Rightarrow> 'a itc_kern_scheme \<Rightarrow>
  (int \<times> nat \<times> 'a itc_kern_scheme) result" where
  "sem_init m1 m2 sem pshared value k =
     (if pshared \<noteq> 0 then Inr (E_INVAL, sem, k)
      else andThen (sm_create m1 m2 ''PS'' value FIFO k) (\<lambda>(rc, qid, k1).
        Inr (posix_rc rc, if rc = RC_OK then qid else sem, set_errno (rc_num rc) k1)))"

definition sem_destroy :: "nat \<Rightarrow> 'a itc_kern_scheme \<Rightarrow> (int \<times> 'a itc_kern_scheme) result" where
  "sem_destroy sem k = c_assert False (Inr (0, k))"

definition sem_trywait :: "nat \<Rightarrow> 'a itc_kern_scheme \<Rightarrow> (int \<times> 'a itc_kern_scheme) result" where
  "sem_trywait sem k = c_assert False (Inr (0, k))"

definition sem_wait :: "'a itc_others \<Rightarrow> nat \<Rightarrow> 'a itc_kern_scheme \<Rightarrow> (int \<times> 'a itc_kern_scheme) result" where
  "sem_wait oth sem k =
     andThen (if IntFlagCntr k \<noteq> 0 then sm_p_ny sem WAIT 0 k else sm_p oth sem WAIT 0 k) (\<lambda>(rc, k1).
       Inr (posix_rc rc, set_errno (rc_num rc) k1))"

definition sem_post :: "(thid_t \<Rightarrow> thid_t) \<Rightarrow> 'a itc_others \<Rightarrow> nat \<Rightarrow> 'a itc_kern_scheme \<Rightarrow>
  (int \<times> 'a itc_kern_scheme) result" where
  "sem_post addr oth sem k =
     andThen (if IntFlagCntr k \<noteq> 0 then sm_v_ny addr sem k else sm_v oth sem k) (\<lambda>(rc, k1).
       Inr (posix_rc rc, set_errno (rc_num rc) k1))"

section \<open>System queues\<close>

definition TK_NUMBER_OF_SYSQ :: nat where "TK_NUMBER_OF_SYSQ = 9"
definition SYSQ_LENGT :: nat where "SYSQ_LENGT = 10"

text \<open>
  The loop stops at the first error. \<open>mem i\<close> is what the three allocations of the \<open>i\<close>-th
  queue give; the array \<^verbatim>\<open>tk_sys_queues\<close> is \<open>sq\<close>. The digits of the name are
  written for \<^verbatim>\<open>i > 10\<close> only, which is never.
\<close>

fun create_sysqueues :: "(nat \<Rightarrow> itc_t option \<times> bool \<times> bool) \<Rightarrow> nat list \<Rightarrow> (nat \<Rightarrow> nat) \<Rightarrow>
  'a itc_kern_scheme \<Rightarrow> (itc_rc \<times> (nat \<Rightarrow> nat) \<times> 'a itc_kern_scheme) result" where
  "create_sysqueues mem [] sq k = Inr (RC_OK, sq, k)"
| "create_sysqueues mem (i # is) sq k =
     (case mem i of (m1, m2, m3) \<Rightarrow>
       andThen (q_create_ny m1 m2 m3 ''SQ'' SYSQ_LENGT FIFO k) (\<lambda>(rc, qid, k1).
         if rc = RC_OK then create_sysqueues mem is (sq(i := qid)) k1
         else Inr (rc, if m1 \<noteq> None \<and> m2 \<and> rc = ERR_NOMEM then sq(i := qid) else sq, k1)))"

definition tk_create_system_queues :: "(nat \<Rightarrow> itc_t option \<times> bool \<times> bool) \<Rightarrow> (nat \<Rightarrow> nat) \<Rightarrow>
  'a itc_kern_scheme \<Rightarrow> (itc_rc \<times> (nat \<Rightarrow> nat) \<times> 'a itc_kern_scheme) result" where
  "tk_create_system_queues mem sq k = create_sysqueues mem [0..<TK_NUMBER_OF_SYSQ] sq k"

end
