(* ===== verification/TkPthread.thy ===== *)
theory TkPthread
  imports TkMutex TkSemaphore TkSystem
begin

text \<open>
  Reader-writer locks (\<^verbatim>\<open>src/pthread_rwlock.c\<close>), thread management
  (\<^verbatim>\<open>src/pthread_sched.c\<close>) and the attribute functions
  (\<^verbatim>\<open>src/pthread_attr_*.c\<close>), none of which is implemented.
\<close>

section \<open>Reader-writer locks\<close>

definition put_rwlock :: "nat \<Rightarrow> pthread_rwlock_t \<Rightarrow> 'a pth_kern_scheme \<Rightarrow> 'a pth_kern_scheme" where
  "put_rwlock w x k = k\<lparr>rwlocks := (rwlocks k)(w := x)\<rparr>"

definition upd_rwlock :: "nat \<Rightarrow> (pthread_rwlock_t \<Rightarrow> pthread_rwlock_t) \<Rightarrow> 'a pth_kern_scheme \<Rightarrow> 'a pth_kern_scheme" where
  "upd_rwlock w f k = put_rwlock w (f (rwlocks k w)) k"

abbreviation my_prio :: "'a kern_scheme \<Rightarrow> nat" where
  "my_prio k \<equiv> Prio (pool k (active_thread k))"

text \<open>The two sums over \<^verbatim>\<open>bwriters_prio\<close>: at least as urgent as the caller, at most as urgent.\<close>

definition granted_first :: "nat \<Rightarrow> 'a pth_kern_scheme \<Rightarrow> int" where
  "granted_first w k = (let x = rwlocks k w in
     if blocked_writers x \<noteq> 0 then sum_list (map (bwriters_prio x) [0..<my_prio k + 1]) else 0)"

definition granted_again :: "nat \<Rightarrow> int \<Rightarrow> 'a pth_kern_scheme \<Rightarrow> int" where
  "granted_again w g k = (let x = rwlocks k w in
     if blocked_writers x \<noteq> 0 then g + sum_list (map (bwriters_prio x) [my_prio k..<TK_MAX_PRIO_LEVELS]) else 0)"

text \<open>The loop of \<open>pthread_rwlock_rdlock\<close>; \<open>n\<close> bounds how often the reader is woken in vain.\<close>

fun rdlock_loop :: "nat \<Rightarrow> 'a pth_others \<Rightarrow> nat \<Rightarrow> int \<Rightarrow> 'a pth_kern_scheme \<Rightarrow> 'a pth_kern_scheme result" where
  "rdlock_loop n oth w g k = (let x = rwlocks k w in
     if writers_writing x \<noteq> 0 \<or> g \<noteq> 0 then
       (case n of 0 \<Rightarrow> Inl Hangs | Suc n' \<Rightarrow>
         andThen (if g \<noteq> 0 \<and> writers_writing x = 0 \<and> readers_reading x = 0
                  then andThen (pthread_cond_signal oth (writers_lock x) k) (\<lambda>(_, k1). Inr k1) else Inr k) (\<lambda>k1.
         andThen (pthread_cond_wait oth (readers_lock x) (mx_self x)
                   (upd_rwlock w (\<lambda>x. x\<lparr>blocked_readers := blocked_readers x + 1\<rparr>) k1)) (\<lambda>(_, k2).
           let k3 = upd_rwlock w (\<lambda>x. x\<lparr>blocked_readers := blocked_readers x - 1\<rparr>) k2 in
           rdlock_loop n' oth w (granted_again w g k3) k3)))
     else Inr k)"

declare rdlock_loop.simps [simp del]

definition pthread_rwlock_rdlock :: "nat \<Rightarrow> 'a pth_others \<Rightarrow> nat \<Rightarrow> 'a pth_kern_scheme \<Rightarrow>
  (int \<times> 'a pth_kern_scheme) result" where
  "pthread_rwlock_rdlock n oth w k = c_assert (rw_valid (rwlocks k w))
     (andThen (pthread_mutex_lock oth (mx_self (rwlocks k w)) k) (\<lambda>(_, k1).
      andThen (rdlock_loop n oth w (granted_first w k1) k1) (\<lambda>k2.
        let k3 = upd_rwlock w (\<lambda>x. x\<lparr>readers_reading := readers_reading x + 1\<rparr>) k2 in
        andThen (pthread_mutex_unlock oth (mx_self (rwlocks k3 w)) k3) (\<lambda>(_, k4). Inr (0, k4)))))"

fun wrlock_loop :: "nat \<Rightarrow> 'a pth_others \<Rightarrow> nat \<Rightarrow> 'a pth_kern_scheme \<Rightarrow> 'a pth_kern_scheme result" where
  "wrlock_loop n oth w k = (let x = rwlocks k w in
     if readers_reading x \<noteq> 0 \<or> writers_writing x \<noteq> 0 then
       (case n of 0 \<Rightarrow> Inl Hangs | Suc n' \<Rightarrow>
         let p = my_prio k; k1 = upd_rwlock w (\<lambda>x. x\<lparr>blocked_writers := blocked_writers x + 1,
               bwriters_prio := (bwriters_prio x)(p := bwriters_prio x p + 1)\<rparr>) k in
         andThen (pthread_cond_wait oth (writers_lock x) (mx_self x) k1) (\<lambda>(_, k2).
           let p2 = my_prio k2; k3 = upd_rwlock w (\<lambda>x. x\<lparr>blocked_writers := blocked_writers x - 1,
                 bwriters_prio := (bwriters_prio x)(p2 := bwriters_prio x p2 - 1)\<rparr>) k2 in
           wrlock_loop n' oth w k3))
     else Inr k)"

declare wrlock_loop.simps [simp del]

definition pthread_rwlock_wrlock :: "nat \<Rightarrow> 'a pth_others \<Rightarrow> nat \<Rightarrow> 'a pth_kern_scheme \<Rightarrow>
  (int \<times> 'a pth_kern_scheme) result" where
  "pthread_rwlock_wrlock n oth w k = c_assert (rw_valid (rwlocks k w))
     (andThen (pthread_mutex_lock oth (mx_self (rwlocks k w)) k) (\<lambda>(_, k1).
      andThen (wrlock_loop n oth w k1) (\<lambda>k2.
        let k3 = upd_rwlock w (\<lambda>x. x\<lparr>writers_writing := writers_writing x + 1\<rparr>) k2 in
        c_assert (writers_writing (rwlocks k3 w) < 2)
          (andThen (pthread_mutex_unlock oth (mx_self (rwlocks k3 w)) k3) (\<lambda>(_, k4). Inr (0, k4))))))"

text \<open>Whom the end of a writer wakes, and the end of a reader.\<close>

definition writer_leaves :: "'a pth_others \<Rightarrow> nat \<Rightarrow> 'a pth_kern_scheme \<Rightarrow> (int \<times> 'a pth_kern_scheme) result" where
  "writer_leaves oth w k =
     (let k1 = upd_rwlock w (\<lambda>x. x\<lparr>writers_writing := 0\<rparr>) k; x = rwlocks k1 w in
      if blocked_writers x \<noteq> 0 then
        if granted_first w k1 \<noteq> 0 then pthread_cond_signal oth (writers_lock x) k1
        else if blocked_readers x \<noteq> 0 then pthread_cond_broadcast oth (readers_lock x) k1
        else pthread_cond_signal oth (writers_lock x) k1
      else pthread_cond_broadcast oth (readers_lock x) k1)"

definition reader_leaves :: "'a pth_others \<Rightarrow> nat \<Rightarrow> 'a pth_kern_scheme \<Rightarrow> (int \<times> 'a pth_kern_scheme) result" where
  "reader_leaves oth w k =
     (let k1 = upd_rwlock w (\<lambda>x. x\<lparr>readers_reading := readers_reading x - 1\<rparr>) k in
      pthread_cond_signal oth (readers_lock (rwlocks k1 w)) k1)"

definition pthread_rwlock_unlock :: "'a pth_others \<Rightarrow> nat \<Rightarrow> 'a pth_kern_scheme \<Rightarrow> (int \<times> 'a pth_kern_scheme) result" where
  "pthread_rwlock_unlock oth w k = c_assert (rw_valid (rwlocks k w))
     (andThen (pthread_mutex_lock oth (mx_self (rwlocks k w)) k) (\<lambda>(_, k1).
        let x = rwlocks k1 w in
        if readers_reading x = 0 \<and> writers_writing x = 0 then
          andThen (pthread_mutex_unlock oth (mx_self x) k1) (\<lambda>(_, k2). Inr (E_INVAL, k2))
        else c_assert (writers_writing x < 2)
          (andThen (if writers_writing x \<noteq> 0 then writer_leaves oth w k1 else reader_leaves oth w k1) (\<lambda>(_, k2).
             andThen (pthread_mutex_unlock oth (mx_self (rwlocks k2 w)) k2) (\<lambda>(_, k3). Inr (0, k3))))))"

definition pthread_rwlock_init :: "nat \<Rightarrow> 'a pth_kern_scheme \<Rightarrow> (int \<times> 'a pth_kern_scheme) result" where
  "pthread_rwlock_init w k = not_implemented True k"

definition pthread_rwlock_destroy :: "nat \<Rightarrow> 'a pth_kern_scheme \<Rightarrow> (int \<times> 'a pth_kern_scheme) result" where
  "pthread_rwlock_destroy w k = not_implemented (rw_valid (rwlocks k w)) k"

definition pthread_rwlock_tryrdlock :: "nat \<Rightarrow> 'a pth_kern_scheme \<Rightarrow> (int \<times> 'a pth_kern_scheme) result" where
  "pthread_rwlock_tryrdlock w k = not_implemented True k"

definition pthread_rwlock_timedrdlock :: "nat \<Rightarrow> 'a pth_kern_scheme \<Rightarrow> (int \<times> 'a pth_kern_scheme) result" where
  "pthread_rwlock_timedrdlock w k = not_implemented True k"

definition pthread_rwlock_trywrlock :: "nat \<Rightarrow> 'a pth_kern_scheme \<Rightarrow> (int \<times> 'a pth_kern_scheme) result" where
  "pthread_rwlock_trywrlock w k = not_implemented True k"

definition pthread_rwlock_timedwrlock :: "nat \<Rightarrow> 'a pth_kern_scheme \<Rightarrow> (int \<times> 'a pth_kern_scheme) result" where
  "pthread_rwlock_timedwrlock w k = not_implemented True k"

section \<open>Threads\<close>

record pthread_attr_t =
  a_valid :: bool
  a_stackaddr :: nat
  a_stacksize :: nat
  a_detachstate :: int
  a_priority :: nat

text \<open>A \<^verbatim>\<open>pthread_t\<close> is the address of a control block, named by its index.\<close>

definition tk_pthread_sched :: "itc_t option \<Rightarrow> bool \<Rightarrow> 'a pth_kern_scheme \<Rightarrow> (itc_rc \<times> 'a pth_kern_scheme) result" where
  "tk_pthread_sched m1 m2 k = andThen (sm_create m1 m2 ''SOnc'' 1 FIFO k) (\<lambda>(rc, qid, k1).
     Inr (rc, if rc = RC_OK then k1\<lparr>sem_once := qid\<rparr> else k1))"

definition tk_pthread_sched_destruct :: "'a pth_kern_scheme \<Rightarrow> (itc_rc \<times> 'a pth_kern_scheme) result" where
  "tk_pthread_sched_destruct k = sm_delete (sem_once k) k"

definition tk_pthread_sync :: "itc_rc" where "tk_pthread_sync = RC_OK"
definition tk_pthread_sync_destruct :: "itc_rc" where "tk_pthread_sync_destruct = RC_OK"

definition pthread_create_named_np :: "'a pth_others \<Rightarrow> nat option \<Rightarrow> pthread_attr_t option \<Rightarrow> int \<Rightarrow> string \<Rightarrow>
  'a pth_kern_scheme \<Rightarrow> (int \<times> thid_t \<times> pthread_attr_t option \<times> 'a pth_kern_scheme) result" where
  "pthread_create_named_np oth stk attr arg name k =
     (case attr of
       Some a \<Rightarrow> andThen (tk_create_thread oth stk name (a_priority a) arg (a_stacksize a) k) (\<lambda>(t, k1).
         Inr (0, t, Some (a\<lparr>a_stackaddr := stack_begin (pool k1 t)\<rparr>), k1))
     | None \<Rightarrow> andThen (tk_create_thread oth stk name (TK_MAX_PRIO_LEVELS div 2) arg TK_NORMAL_STACK_SIZE k)
         (\<lambda>(t, k1). Inr (0, t, None, k1)))"

definition pthread_join :: "'a pth_others \<Rightarrow> thid_t \<Rightarrow> 'a pth_kern_scheme \<Rightarrow> (rc_t \<times> int option \<times> 'a pth_kern_scheme) result" where
  "pthread_join oth t k = tk_join oth (Thid (pool k t)) k"

definition pthread_detach :: "thid_t \<Rightarrow> 'a pth_kern_scheme \<Rightarrow> (rc_t \<times> 'a pth_kern_scheme) result" where
  "pthread_detach t k = tk_detach (Thid (pool k t)) k"

definition pthread_self :: "'a kern_scheme \<Rightarrow> thid_t" where
  "pthread_self k = active_thread k"

definition pthread_equal :: "thid_t \<Rightarrow> thid_t \<Rightarrow> 'a kern_scheme \<Rightarrow> bool" where
  "pthread_equal t1 t2 k \<longleftrightarrow> Thid (pool k t1) = Thid (pool k t2)"

text \<open>
  \<open>locked_once\<close> runs a critical section of \<open>pthread_once\<close>; its semaphore has a time-out of
  1000, and failing to get it is a failed assertion.
\<close>

definition locked_once :: "'a pth_others \<Rightarrow> ('a pth_kern_scheme \<Rightarrow> 'b \<times> 'a pth_kern_scheme) \<Rightarrow> 'a pth_kern_scheme \<Rightarrow>
  ('b \<times> 'a pth_kern_scheme) result" where
  "locked_once oth f k =
     andThen (sm_p oth (sem_once k) WAIT 1000 k) (\<lambda>(rc, k1). c_assert (rc = RC_OK)
       (case f k1 of (b, k2) \<Rightarrow> andThen (sm_v oth (sem_once k2) k2) (\<lambda>(rc, k3). c_assert (rc = RC_OK) (Inr (b, k3)))))"

definition claim_once :: "nat \<Rightarrow> 'a pth_kern_scheme \<Rightarrow> bool \<times> 'a pth_kern_scheme" where
  "claim_once c k = (if o_started (onces k c) < 0
     then (True, k\<lparr>onces := (onces k)(c := (onces k c)\<lparr>o_started := o_started (onces k c) + 1\<rparr>)\<rparr>)
     else (False, k))"

definition finish_once :: "nat \<Rightarrow> 'a pth_kern_scheme \<Rightarrow> unit \<times> 'a pth_kern_scheme" where
  "finish_once c k = ((), k\<lparr>onces := (onces k)(c := (onces k c)\<lparr>o_done := 1\<rparr>)\<rparr>)"

definition pthread_once :: "'a pth_others \<Rightarrow> nat option \<Rightarrow> ('a pth_kern_scheme \<Rightarrow> 'a pth_kern_scheme result) \<Rightarrow>
  'a pth_kern_scheme \<Rightarrow> (int \<times> 'a pth_kern_scheme) result" where
  "pthread_once oth once init_routine k =
     (case once of None \<Rightarrow> Inr (E_INVAL, k)
      | Some c \<Rightarrow> andThen (locked_once oth (claim_once c) k) (\<lambda>(need2run, k1).
          if need2run then andThen (init_routine k1) (\<lambda>k2.
            andThen (locked_once oth (finish_once c) k2) (\<lambda>(_, k3). Inr (0, k3)))
          else Inr (0, k1)))"

definition pthread_cancel :: "thid_t \<Rightarrow> 'a pth_kern_scheme \<Rightarrow> (int \<times> 'a pth_kern_scheme) result" where
  "pthread_cancel t k = andThen (tk_delete_thread (Thid (pool k t)) k) (\<lambda>(rc, k1). c_assert (rc = TK_OK) (Inr (0, k1)))"

definition pthread_setschedparam :: "'a pth_others \<Rightarrow> thid_t \<Rightarrow> int \<Rightarrow> 'a pth_kern_scheme \<Rightarrow>
  (int \<times> 'a pth_kern_scheme) result" where
  "pthread_setschedparam oth t prio k = andThen (tk_change_prio (Thid (pool k t)) prio k) (\<lambda>(y, k1).
     if y then andThen (tk_yield oth k1) (\<lambda>k2. Inr (0, k2)) else Inr (0, k1))"

definition pthread_getschedparam :: "thid_t \<Rightarrow> 'a kern_scheme \<Rightarrow> int \<times> nat" where
  "pthread_getschedparam t k = (0, Prio (pool k t))"

section \<open>Attributes\<close>

definition pthread_attr_init :: "'a pth_kern_scheme \<Rightarrow> (int \<times> 'a pth_kern_scheme) result" where
  "pthread_attr_init k = not_implemented True k"

definition pthread_attr_destroy :: "'a pth_kern_scheme \<Rightarrow> (int \<times> 'a pth_kern_scheme) result" where
  "pthread_attr_destroy k = not_implemented True k"

definition pthread_attr_getschedparam :: "'a pth_kern_scheme \<Rightarrow> (int \<times> 'a pth_kern_scheme) result" where
  "pthread_attr_getschedparam k = not_implemented True k"

definition pthread_attr_setschedparam :: "'a pth_kern_scheme \<Rightarrow> (int \<times> 'a pth_kern_scheme) result" where
  "pthread_attr_setschedparam k = not_implemented True k"

definition pthread_attr_getstacksize :: "'a pth_kern_scheme \<Rightarrow> (int \<times> 'a pth_kern_scheme) result" where
  "pthread_attr_getstacksize k = not_implemented True k"

definition pthread_attr_setstacksize :: "'a pth_kern_scheme \<Rightarrow> (int \<times> 'a pth_kern_scheme) result" where
  "pthread_attr_setstacksize k = not_implemented True k"

definition pthread_condattr_init :: "'a pth_kern_scheme \<Rightarrow> (int \<times> 'a pth_kern_scheme) result" where
  "pthread_condattr_init k = not_implemented True k"

definition pthread_condattr_destroy :: "'a pth_kern_scheme \<Rightarrow> (int \<times> 'a pth_kern_scheme) result" where
  "pthread_condattr_destroy k = not_implemented True k"

definition pthread_mutexattr_init :: "'a pth_kern_scheme \<Rightarrow> (int \<times> 'a pth_kern_scheme) result" where
  "pthread_mutexattr_init k = not_implemented True k"

definition pthread_mutexattr_destroy :: "'a pth_kern_scheme \<Rightarrow> (int \<times> 'a pth_kern_scheme) result" where
  "pthread_mutexattr_destroy k = not_implemented True k"

definition pthread_rwlockattr_init :: "'a pth_kern_scheme \<Rightarrow> (int \<times> 'a pth_kern_scheme) result" where
  "pthread_rwlockattr_init k = not_implemented True k"

text \<open>\<open>v\<close> is the \<^verbatim>\<open>valid\<close> field of the attribute object.\<close>

definition pthread_rwlockattr_destroy :: "bool \<Rightarrow> 'a pth_kern_scheme \<Rightarrow> (int \<times> 'a pth_kern_scheme) result" where
  "pthread_rwlockattr_destroy v k = not_implemented v k"

end
