(* ===== verification/TkMutexSpec.thy ===== *)
theory TkMutexSpec
  imports TkPthread
begin

text \<open>
  The primitives of mutexes against an abstract mutex: free, or held by an owner with the
  threads that wait for it in the order of their arrival. The array of blocked threads is a
  second provider of the interface \<open>wait_queue\<close>.
\<close>

section \<open>The array of blocked threads\<close>

definition m_waiting :: "pthread_mutex_t \<Rightarrow> thid_t option list" where
  "m_waiting x = map (m_thread x) [0..<m_numb x]"

definition m_enter :: "thid_t option \<Rightarrow> pthread_mutex_t \<Rightarrow> pthread_mutex_t" where
  "m_enter a x = x\<lparr>m_thread := (m_thread x)(m_numb x := a), m_numb := m_numb x + 1\<rparr>"

definition m_leave :: "pthread_mutex_t \<Rightarrow> nat \<Rightarrow> pthread_mutex_t result" where
  "m_leave x j = andThen (shift_blocked [j..<m_numb x] (m_thread x)) (\<lambda>th.
     Inr (x\<lparr>m_thread := th, m_numb := m_numb x - 1\<rparr>))"

lemma length_m_waiting [simp]: "length (m_waiting x) = m_numb x"
  by (simp add: m_waiting_def)

lemma nth_m_waiting: "j < m_numb x \<Longrightarrow> m_waiting x ! j = m_thread x j"
  by (simp add: m_waiting_def)

lemma shift_blocked_ok:
  assumes "n < PTHREADS_MAX_BLOCKED" "j \<le> n"
  shows "shift_blocked [j..<n] th = Inr (\<lambda>i. if j \<le> i \<and> i < n then th (i + 1) else th i)"
  using assms(2)
proof (induction "n - j" arbitrary: j th)
  case 0
  then show ?case by (auto simp: fun_eq_iff)
next
  case (Suc d)
  then have j: "j < n" by simp
  have "shift_blocked [j..<n] th = shift_blocked [Suc j..<n] (th(j := th (j + 1)))"
    using j assms(1) by (simp add: upt_conv_Cons)
  also have "\<dots> = Inr (\<lambda>i. if Suc j \<le> i \<and> i < n then (th(j := th (j + 1))) (i + 1) else (th(j := th (j + 1))) i)"
    by (rule Suc.hyps(1)) (use Suc.hyps(2) j in simp_all)
  also have "\<dots> = Inr (\<lambda>i. if j \<le> i \<and> i < n then th (i + 1) else th i)"
    using j by (auto simp: fun_eq_iff)
  finally show ?case .
qed

lemma m_leave_ok:
  assumes "m_numb x < PTHREADS_MAX_BLOCKED" "j < m_numb x"
  obtains y where "m_leave x j = Inr y" "m_waiting y = drop_nth j (m_waiting x)" "m_numb y = m_numb x - 1"
    "m_owner y = m_owner x" "m_valid y = m_valid x"
proof -
  let ?th = "\<lambda>i. if j \<le> i \<and> i < m_numb x then m_thread x (i + 1) else m_thread x i"
  have "map ?th [0..<m_numb x - 1] = drop_nth j (map (m_thread x) [0..<m_numb x])"
    by (rule nth_equalityI) (use assms(2) in \<open>auto simp: nth_drop_nth length_drop_nth\<close>)
  then show ?thesis
    using shift_blocked_ok [OF assms(1), of j] assms(2)
    by (intro that [of "x\<lparr>m_thread := ?th, m_numb := m_numb x - 1\<rparr>"]) (simp_all add: m_leave_def m_waiting_def)
qed

interpretation blocked: wait_queue m_waiting "\<lambda>x. m_numb x < PTHREADS_MAX_BLOCKED"
  "\<lambda>x. m_numb x + 1 < PTHREADS_MAX_BLOCKED" m_enter m_leave
proof
  fix x :: pthread_mutex_t and a :: "thid_t option" and j :: nat
  show "m_numb (m_enter a x) < PTHREADS_MAX_BLOCKED \<and> m_waiting (m_enter a x) = m_waiting x @ [a]"
    if "m_numb x + 1 < PTHREADS_MAX_BLOCKED"
    using that by (simp add: m_enter_def m_waiting_def)
  show "\<exists>y. m_leave x j = Inr y \<and> m_numb y < PTHREADS_MAX_BLOCKED \<and> m_waiting y = drop_nth j (m_waiting x)"
    if "m_numb x < PTHREADS_MAX_BLOCKED" "j < length (m_waiting x)"
    by (rule m_leave_ok [OF that(1), of j]) (use that in auto)
qed

section \<open>The abstract mutex\<close>

datatype mutex_spec = Mutex_free | Mutex_held owner_t "thid_t list"

definition mutex_spec_of :: "pthread_mutex_t \<Rightarrow> mutex_spec" where
  "mutex_spec_of x = (if m_owner x = No_owner then Mutex_free
     else Mutex_held (m_owner x) (map the (m_waiting x)))"

fun spec_lock :: "thid_t \<Rightarrow> mutex_spec \<Rightarrow> mutex_spec" where
  "spec_lock me Mutex_free = Mutex_held (Owner me) []"
| "spec_lock me (Mutex_held ow ts) = Mutex_held ow (ts @ [me])"

fun spec_unlock :: "nat \<Rightarrow> mutex_spec \<Rightarrow> mutex_spec" where
  "spec_unlock j Mutex_free = Mutex_free"
| "spec_unlock j (Mutex_held ow ts) =
     (if ts = [] then Mutex_free else Mutex_held (Owner (ts ! j)) (drop_nth j ts))"

definition mutex_ok :: "'a kern_scheme \<Rightarrow> pthread_mutex_t \<Rightarrow> bool" where
  "mutex_ok k x \<longleftrightarrow> m_numb x < PTHREADS_MAX_BLOCKED \<and> distinct (m_waiting x) \<and>
     (\<forall>w \<in> set (m_waiting x). \<exists>t \<in> valid_tids k. w = Some t) \<and> (m_owner x = No_owner \<longrightarrow> m_numb x = 0)"

lemma mutex_okD:
  assumes "mutex_ok k x"
  shows "m_waiting x = map Some (map the (m_waiting x))" "set (map the (m_waiting x)) \<subseteq> valid_tids k"
    "length (map the (m_waiting x)) = m_numb x"
proof -
  have s: "w = Some (the w) \<and> the w \<in> valid_tids k" if "w \<in> set (m_waiting x)" for w
    using assms that by (auto simp: mutex_ok_def)
  then show "m_waiting x = map Some (map the (m_waiting x))" by (simp add: map_idI comp_def)
  show "set (map the (m_waiting x)) \<subseteq> valid_tids k" using s by auto
qed simp

lemma put_mutex_sel [simp]:
  "mutexes (put_mutex m x k) = (mutexes k)(m := x)" "threadPool (put_mutex m x k) = threadPool k"
  "active_thread (put_mutex m x k) = active_thread k" "conds (put_mutex m x k) = conds k"
  "valid_tids (put_mutex m x k) = valid_tids k" "rwlocks (put_mutex m x k) = rwlocks k"
  by (simp_all add: put_mutex_def valid_tids_def)

lemma wake_from_mutex_sel [simp]:
  "mutexes (wake_from_mutex t k) = mutexes k" "conds (wake_from_mutex t k) = conds k"
  "rwlocks (wake_from_mutex t k) = rwlocks k" "active_thread (wake_from_mutex t k) = active_thread k"
  "valid_tids (wake_from_mutex t k) = valid_tids k"
  "Prio (pool (wake_from_mutex t k) u) = Prio (pool k u)"
  by (simp_all add: wake_from_mutex_def upd_tcb_def) (auto simp: valid_tids_def)

lemma block_on_mutex_sel [simp]:
  "mutexes (block_on_mutex m t k) = mutexes k" "conds (block_on_mutex m t k) = conds k"
  "rwlocks (block_on_mutex m t k) = rwlocks k" "active_thread (block_on_mutex m t k) = active_thread k"
  "valid_tids (block_on_mutex m t k) = valid_tids k"
  "has_flag (state (pool (block_on_mutex m t k) t)) QUEUE" "\<not> ready (block_on_mutex m t k) t"
  by (simp_all add: block_on_mutex_def upd_tcb_def ready_def) (auto simp: valid_tids_def)

lemma mutex_ok_valid: "valid_tids k' = valid_tids k \<Longrightarrow> mutex_ok k' x = mutex_ok k x"
  by (simp add: mutex_ok_def)

section \<open>Locking and unlocking\<close>

lemma mutex_lock_spec:
  assumes ok: "mutex_ok k (mutexes k m)" and room: "m_numb (mutexes k m) + 1 < PTHREADS_MAX_BLOCKED"
    and me: "active_thread k \<in> valid_tids k" "Some (active_thread k) \<notin> set (m_waiting (mutexes k m))"
  shows "\<exists>y k' x'. mutex_lock_primitive m k = Inr (y, k') \<and> mutexes k' = (mutexes k)(m := x') \<and> mutex_ok k' x' \<and>
    mutex_spec_of x' = spec_lock (active_thread k) (mutex_spec_of (mutexes k m)) \<and>
    (y \<longleftrightarrow> m_owner (mutexes k m) \<noteq> No_owner) \<and> (y \<longrightarrow> \<not> ready k' (active_thread k)) \<and>
    (\<not> y \<longrightarrow> threadPool k' = threadPool k) \<and> m_valid x' = m_valid (mutexes k m) \<and>
    conds k' = conds k \<and> rwlocks k' = rwlocks k"
proof (cases "m_owner (mutexes k m) = No_owner")
  case True
  let ?x = "(mutexes k m)\<lparr>m_owner := Owner (active_thread k), m_numb := 0\<rparr>"
  have "mutex_ok (put_mutex m ?x k) ?x" by (simp add: mutex_ok_def m_waiting_def PTHREADS_MAX_BLOCKED_def)
  then show ?thesis using True
    by (intro exI [of _ False] exI [of _ "put_mutex m ?x k"] exI [of _ ?x])
      (simp add: mutex_lock_primitive_def mutex_spec_of_def m_waiting_def)
next
  case False
  let ?x = "(mutexes k m)\<lparr>m_linkOf := PBON_NOLINK, m_link := None,
    m_thread := (m_thread (mutexes k m))(m_numb (mutexes k m) := Some (active_thread k)), m_numb := m_numb (mutexes k m) + 1\<rparr>"
  let ?k = "block_on_mutex m (active_thread k) (put_mutex m ?x k)"
  have w: "m_waiting ?x = m_waiting (mutexes k m) @ [Some (active_thread k)]" by (simp add: m_waiting_def)
  have "mutex_ok ?k ?x" using ok room me False w by (auto simp: mutex_ok_def)
  moreover have "mutex_lock_primitive m k = Inr (True, ?k)" using False room by (simp add: mutex_lock_primitive_def Let_def)
  moreover have "mutex_spec_of ?x = spec_lock (active_thread k) (mutex_spec_of (mutexes k m))"
    using False w by (simp add: mutex_spec_of_def)
  ultimately show ?thesis using False by (intro exI [of _ True] exI [of _ ?k] exI [of _ ?x]) simp
qed

lemma pick_owner_from:
  assumes "n = length ts" "\<forall>i < n. th i = Some (ts ! i)" "m < i" "i \<le> n"
    and "\<forall>l < i. Prio (pool k (ts ! m)) \<le> Prio (pool k (ts ! l))"
    and "\<forall>l < m. Prio (pool k (ts ! m)) < Prio (pool k (ts ! l))"
  shows "\<exists>j < n. pick_owner k th [i..<n] (Prio (pool k (ts ! m))) (Some m) = Inr (Some j) \<and>
    (\<forall>l < n. Prio (pool k (ts ! j)) \<le> Prio (pool k (ts ! l))) \<and>
    (\<forall>l < j. Prio (pool k (ts ! j)) < Prio (pool k (ts ! l)))"
  using assms
proof (induction "n - i" arbitrary: i m)
  case 0
  then show ?case by (intro exI [of _ m]) simp
next
  case (Suc d)
  then have i: "i < n" by simp
  let ?m = "if Prio (pool k (ts ! i)) < Prio (pool k (ts ! m)) then i else m"
  have step: "pick_owner k th [i..<n] (Prio (pool k (ts ! m))) (Some m) =
      pick_owner k th [Suc i..<n] (Prio (pool k (ts ! ?m))) (Some ?m)"
    using i Suc.prems(2) by (simp add: upt_conv_Cons)
  have "d = n - Suc i" using Suc.hyps(2) by simp
  moreover have "?m < Suc i" "Suc i \<le> n" using Suc.prems(3) i by auto
  moreover have "\<forall>l < Suc i. Prio (pool k (ts ! ?m)) \<le> Prio (pool k (ts ! l))"
    using Suc.prems(5) by (auto simp: less_Suc_eq)
  moreover have "\<forall>l < ?m. Prio (pool k (ts ! ?m)) < Prio (pool k (ts ! l))"
    using Suc.prems(5,6) by (auto intro: less_le_trans)
  ultimately show ?case unfolding step by (rule Suc.hyps(1) [OF _ Suc.prems(1,2)])
qed

lemma pick_owner_spec:
  assumes "\<forall>i < length ts. th i = Some (ts ! i)" "ts \<noteq> []" "Prio (pool k (ts ! 0)) < p"
  shows "\<exists>j < length ts. pick_owner k th [0..<length ts] p None = Inr (Some j) \<and>
    (\<forall>l < length ts. Prio (pool k (ts ! j)) \<le> Prio (pool k (ts ! l))) \<and>
    (\<forall>l < j. Prio (pool k (ts ! j)) < Prio (pool k (ts ! l)))"
proof -
  have "pick_owner k th [0..<length ts] p None = pick_owner k th [1..<length ts] (Prio (pool k (ts ! 0))) (Some 0)"
    using assms by (simp add: upt_conv_Cons)
  with pick_owner_from [OF refl assms(1), of 0 1 k] assms(2) show ?thesis by (simp add: Suc_leI)
qed

lemma mutex_unlock_free:
  "m_owner (mutexes k m) = No_owner \<Longrightarrow> m_numb (mutexes k m) = 0 \<Longrightarrow> mutex_unlock_primitive m bc k = Inr (False, k)"
  "m_owner (mutexes k m) \<noteq> No_owner \<Longrightarrow> m_numb (mutexes k m) = 0 \<Longrightarrow>
     mutex_unlock_primitive m bc k = Inr (False, put_mutex m ((mutexes k m)\<lparr>m_owner := No_owner\<rparr>) k)"
  by (simp_all add: mutex_unlock_primitive_def Let_def)

lemma mutex_unlock_wakes:
  assumes ok: "mutex_ok k (mutexes k m)" and some: "0 < m_numb (mutexes k m)"
    and pr: "\<forall>t \<in> valid_tids k. Prio (pool k t) < TK_MAX_PRIO_LEVELS"
  shows "\<exists>j x' ts. ts = map the (m_waiting (mutexes k m)) \<and> j < length ts \<and>
    mutex_unlock_primitive m BSINGLE k = Inr (True, wake_from_mutex (ts ! j) (put_mutex m x' k)) \<and>
    mutex_ok k x' \<and> m_owner x' = Owner (ts ! j) \<and> m_waiting x' = map Some (drop_nth j ts) \<and>
    m_valid x' = m_valid (mutexes k m) \<and>
    (\<forall>l < length ts. Prio (pool k (ts ! j)) \<le> Prio (pool k (ts ! l))) \<and>
    (\<forall>l < j. Prio (pool k (ts ! j)) < Prio (pool k (ts ! l)))"
proof -
  obtain x where x: "x = mutexes k m" by blast
  obtain ts where ts: "ts = map the (m_waiting x)" by blast
  note ok = ok [folded x] and some = some [folded x]
  note o = mutex_okD [OF ok, folded ts]
  have n: "m_numb x < PTHREADS_MAX_BLOCKED" "m_owner x \<noteq> No_owner" using ok some by (auto simp: mutex_ok_def)
  have ne: "ts \<noteq> []" using o(3) some by auto
  have th: "\<forall>i < length ts. m_thread x i = Some (ts ! i)"
  proof (intro allI impI)
    fix i assume "i < length ts"
    then have "m_waiting x ! i = Some (ts ! i)" using o(1) by (metis nth_map)
    then show "m_thread x i = Some (ts ! i)" using \<open>i < length ts\<close> o(3) by (simp add: nth_m_waiting)
  qed
  have "ts ! 0 \<in> valid_tids k" using o(2) ne by auto
  then have "Prio (pool k (ts ! 0)) < TK_MAX_PRIO_LEVELS" using pr by blast
  from pick_owner_spec [OF th ne this] obtain j where
    j: "j < length ts" "pick_owner k (m_thread x) [0..<length ts] TK_MAX_PRIO_LEVELS None = Inr (Some j)"
      "\<forall>l < length ts. Prio (pool k (ts ! j)) \<le> Prio (pool k (ts ! l))"
      "\<forall>l < j. Prio (pool k (ts ! j)) < Prio (pool k (ts ! l))" by blast
  have jn: "j < m_numb x" using j(1) o(3) by simp
  have tj: "m_thread x j = Some (ts ! j)" using th j(1) by simp
  show ?thesis
  proof (rule m_leave_ok [OF n(1) jn])
    fix y
    assume y: "m_leave x j = Inr y" "m_waiting y = drop_nth j (m_waiting x)" "m_numb y = m_numb x - 1" "m_valid y = m_valid x"
    obtain th' where th': "shift_blocked [j..<m_numb x] (m_thread x) = Inr th'" "y = x\<lparr>m_thread := th', m_numb := m_numb x - 1\<rparr>"
      using y(1) by (auto simp: m_leave_def result_elims)
    let ?x = "x\<lparr>m_owner := Owner (ts ! j), m_thread := th', m_numb := m_numb x - 1\<rparr>"
    have run: "mutex_unlock_primitive m BSINGLE k = Inr (True, wake_from_mutex (ts ! j) (put_mutex m ?x k))"
      using n some j(2) tj th'(1) o(3) unfolding mutex_unlock_primitive_def by (simp add: Let_def flip: x)
    have w: "m_waiting ?x = drop_nth j (m_waiting x)" using y(2) by (simp add: m_waiting_def th'(2))
    also have "\<dots> = map Some (drop_nth j ts)"
      by (subst o(1)) (simp add: drop_nth_def take_map drop_map del: map_map)
    finally have w2: "m_waiting ?x = map Some (drop_nth j ts)" .
    have "mutex_ok k ?x"
      unfolding mutex_ok_def w using ok n(1) distinct_drop_nth [of "m_waiting x" j] set_drop_nth_subset [of j "m_waiting x"]
      by (auto simp: mutex_ok_def)
    then show ?thesis using run w2 j(1,3,4) ts unfolding x [symmetric]
      by (intro exI [of _ j] exI [of _ ?x] exI [of _ ts]) simp
  qed
qed

end
