(* ===== verification/TkPthreadProps.thy ===== *)
theory TkPthreadProps
  imports TkMutexSpec TkDemo
begin

text \<open>
  The properties of the POSIX threads component, with \<open>pth_demo\<close>, the demonstration kernel
  extended by mutexes, condition variables and reader-writer locks, for the witnesses.
\<close>

section \<open>A kernel with POSIX objects\<close>

text \<open>
  Mutex \<open>0\<close> belongs to the user, \<open>1\<close> and \<open>2\<close> are embedded in the condition variables \<open>0\<close> and
  \<open>1\<close>, the readers' and the writers' of the lock \<open>0\<close>, whose own mutex is \<open>3\<close>.
\<close>

definition pth_demo :: "procstate \<Rightarrow> procstate \<Rightarrow> (nat \<Rightarrow> pthread_mutex_t) \<Rightarrow> (nat \<Rightarrow> pthread_cond_t) \<Rightarrow>
  (nat \<Rightarrow> pthread_rwlock_t) \<Rightarrow> pth_kern" where
  "pth_demo s0 s2 ms cs ws = itc_kern.extend (itc_demo s0 s2 0 (\<lambda>_. Some (blank_itc\<lparr>token := 1\<rparr>)) 0)
     (pth_kern.fields 0 ms cs ws (\<lambda>_. \<lparr>o_done = 0, o_started = -1\<rparr>))"

lemma pth_demo_sel [simp]:
  "mutexes (pth_demo s0 s2 ms cs ws) = ms" "conds (pth_demo s0 s2 ms cs ws) = cs"
  "rwlocks (pth_demo s0 s2 ms cs ws) = ws" "sem_once (pth_demo s0 s2 ms cs ws) = 0"
  "onces (pth_demo s0 s2 ms cs ws) c = \<lparr>o_done = 0, o_started = -1\<rparr>"
  "active_thread (pth_demo s0 s2 ms cs ws) = 0" "itc_array (pth_demo s0 s2 ms cs ws) i = Some (blank_itc\<lparr>token := 1\<rparr>)"
  "pool (pth_demo s0 s2 ms cs ws) = pool (demo s0 \<lparr>kind = BON_SCHED, entity = Ent_null\<rparr> s2 0)"
  by (simp_all add: pth_demo_def itc_kern.extend_def pth_kern.fields_def itc_demo_def kern.extend_def
      itc_kern.fields_def demo_def bss0_def)

lemma demo_like_pth: "demo_like s0 \<lparr>kind = BON_SCHED, entity = Ent_null\<rparr> s2 (pth_demo s0 s2 ms cs ws)"
  by (simp add: demo_like_def pth_demo_def itc_kern.extend_def)
    (simp add: itc_demo_def kern.extend_def demo_def)

lemmas pth_demo_valid [simp] = demo_likeD(6) [OF demo_like_pth]

text \<open>A mutex held by \<open>ow\<close> for which \<open>ts\<close> wait.\<close>

definition held_mutex :: "owner_t \<Rightarrow> thid_t list \<Rightarrow> pthread_mutex_t" where
  "held_mutex ow ts = PTHREAD_MUTEX_INITIALIZER\<lparr>m_owner := ow, m_numb := length ts,
     m_thread := (\<lambda>i. if i < length ts then Some (ts ! i) else None)\<rparr>"

lemma held_mutex_sel [simp]:
  "m_owner (held_mutex ow ts) = ow" "m_numb (held_mutex ow ts) = length ts" "m_valid (held_mutex ow ts)"
  "m_thread (held_mutex ow ts) = (\<lambda>i. if i < length ts then Some (ts ! i) else None)"
  by (simp_all add: held_mutex_def PTHREAD_MUTEX_INITIALIZER_def)

lemma held_mutex_waiting [simp]: "m_waiting (held_mutex ow ts) = map Some ts"
  by (rule nth_equalityI) (simp_all add: m_waiting_def)

lemma held_mutex_ok:
  "length ts < PTHREADS_MAX_BLOCKED \<Longrightarrow> distinct ts \<Longrightarrow> set ts \<subseteq> valid_tids k \<Longrightarrow> ow = No_owner \<longrightarrow> ts = [] \<Longrightarrow>
    mutex_ok k (held_mutex ow ts)"
  by (auto simp: mutex_ok_def distinct_map)

section \<open>Mutexes\<close>

text \<open>
  C16. \<open>pthread_mutex_lock\<close> on a free mutex makes the caller its owner at once; on one that is
  taken it puts the caller behind those that wait already and gives up the processor with the
  caller not ready. No other mutex changes.
\<close>

theorem mutex_lock_refines:
  assumes ok: "mutex_ok k (mutexes k m)" "m_valid (mutexes k m)"
    and room: "m_numb (mutexes k m) + 1 < PTHREADS_MAX_BLOCKED"
    and me: "active_thread k \<in> valid_tids k" "Some (active_thread k) \<notin> set (m_waiting (mutexes k m))"
  shows "\<exists>k' x'. mutexes k' = (mutexes k)(m := x') \<and> mutex_ok k' x' \<and>
    mutex_spec_of x' = spec_lock (active_thread k) (mutex_spec_of (mutexes k m)) \<and>
    (if m_owner (mutexes k m) = No_owner
     then pthread_mutex_lock oth m k = Inr (0, k') \<and> threadPool k' = threadPool k
     else pthread_mutex_lock oth m k = andThen (tk_yield oth k') (\<lambda>k2. Inr (0, k2)) \<and> \<not> ready k' (active_thread k))"
proof -
  obtain y k' x' where l: "mutex_lock_primitive m k = Inr (y, k')" "mutexes k' = (mutexes k)(m := x')" "mutex_ok k' x'"
    "mutex_spec_of x' = spec_lock (active_thread k) (mutex_spec_of (mutexes k m))"
    "y \<longleftrightarrow> m_owner (mutexes k m) \<noteq> No_owner" "y \<longrightarrow> \<not> ready k' (active_thread k)"
    "\<not> y \<longrightarrow> threadPool k' = threadPool k"
    using mutex_lock_spec [OF ok(1) room me] by blast
  have "pthread_mutex_lock oth m k = (if y then andThen (tk_yield oth k') (\<lambda>k2. Inr (0, k2)) else Inr (0, k'))"
    using l(1) ok(2) by (simp add: pthread_mutex_lock_def yield_if_def pthread_yield_def)
  with l(2-) show ?thesis by (intro exI [of _ k'] exI [of _ x']) simp
qed

theorem mutex_lock_refines_witness:
  "\<exists>k' x'. pthread_mutex_lock nobody 0 (pth_demo READY READY (\<lambda>_. held_mutex (Owner 2) [1]) (\<lambda>_. undefined) (\<lambda>_. undefined)) =
      andThen (tk_yield nobody k') (\<lambda>k2. Inr (0, k2)) \<and> mutexes k' 0 = x' \<and>
    mutex_spec_of x' = Mutex_held (Owner 2) [1, 0]"
proof -
  let ?k = "pth_demo READY READY (\<lambda>_. held_mutex (Owner 2) [1]) (\<lambda>_. undefined) (\<lambda>_. undefined)"
  have b: "PTHREADS_MAX_BLOCKED = 10" by (simp add: PTHREADS_MAX_BLOCKED_def TK_MAX_THREADS_def)
  have "mutex_ok ?k (mutexes ?k 0)" by (auto intro!: held_mutex_ok simp: b)
  then obtain k' x' where "mutexes k' = (mutexes ?k)(0 := x')"
    "mutex_spec_of x' = spec_lock 0 (mutex_spec_of (held_mutex (Owner 2) [1]))"
    "pthread_mutex_lock nobody 0 ?k = andThen (tk_yield nobody k') (\<lambda>k2. Inr (0, k2))"
    using mutex_lock_refines [of ?k 0 nobody] by (auto simp: b)
  then show ?thesis by (intro exI [of _ k'] exI [of _ x']) (simp add: mutex_spec_of_def)
qed

text \<open>
  C17. \<open>pthread_mutex_unlock\<close> frees a mutex nobody waits for; otherwise it hands it to the first
  of the most urgent waiters, which is blocked no more, and gives up the processor.
\<close>

theorem mutex_unlock_refines:
  assumes ok: "mutex_ok k (mutexes k m)" "m_valid (mutexes k m)"
    and pr: "\<forall>t \<in> valid_tids k. Prio (pool k t) < TK_MAX_PRIO_LEVELS"
  shows "if m_numb (mutexes k m) = 0
    then \<exists>k'. pthread_mutex_unlock oth m k = Inr (0, k') \<and> mutex_spec_of (mutexes k' m) = Mutex_free \<and>
      threadPool k' = threadPool k
    else \<exists>j k' ts. ts = map the (m_waiting (mutexes k m)) \<and> j < length ts \<and>
      pthread_mutex_unlock oth m k = andThen (tk_yield oth k') (\<lambda>k2. Inr (0, k2)) \<and> mutex_ok k' (mutexes k' m) \<and>
      mutex_spec_of (mutexes k' m) = spec_unlock j (mutex_spec_of (mutexes k m)) \<and>
      m_owner (mutexes k' m) = Owner (ts ! j) \<and> \<not> has_flag (state (pool k' (ts ! j))) QUEUE \<and>
      (\<forall>l < length ts. Prio (pool k (ts ! j)) \<le> Prio (pool k (ts ! l))) \<and>
      (\<forall>l < j. Prio (pool k (ts ! j)) < Prio (pool k (ts ! l)))"
proof (cases "m_numb (mutexes k m) = 0")
  case True
  then show ?thesis
    using mutex_unlock_free [of k m BSINGLE] ok(2)
    by (cases "m_owner (mutexes k m) = No_owner")
      (simp_all add: pthread_mutex_unlock_def yield_if_def mutex_spec_of_def)
next
  case False
  then obtain j x' ts where u: "ts = map the (m_waiting (mutexes k m))" "j < length ts"
    "mutex_unlock_primitive m BSINGLE k = Inr (True, wake_from_mutex (ts ! j) (put_mutex m x' k))"
    "mutex_ok k x'" "m_owner x' = Owner (ts ! j)" "m_waiting x' = map Some (drop_nth j ts)"
    "\<forall>l < length ts. Prio (pool k (ts ! j)) \<le> Prio (pool k (ts ! l))"
    "\<forall>l < j. Prio (pool k (ts ! j)) < Prio (pool k (ts ! l))"
    using mutex_unlock_wakes [OF ok(1) _ pr] by blast
  let ?k = "wake_from_mutex (ts ! j) (put_mutex m x' k)"
  have "m_owner (mutexes k m) \<noteq> No_owner" using ok(1) False by (auto simp: mutex_ok_def)
  moreover have "ts \<noteq> []" using u(2) by auto
  ultimately have "mutex_spec_of x' = spec_unlock j (mutex_spec_of (mutexes k m))"
    using u(1,5,6) by (simp add: mutex_spec_of_def comp_def)
  moreover have "mutex_ok ?k x'" using u(4) by (simp add: mutex_ok_valid [of ?k k])
  moreover have "\<not> has_flag (state (pool ?k (ts ! j))) QUEUE" by (simp add: wake_from_mutex_def)
  moreover have "pthread_mutex_unlock oth m k = andThen (tk_yield oth ?k) (\<lambda>k2. Inr (0, k2))"
    using u(3) ok(2) by (simp add: pthread_mutex_unlock_def yield_if_def pthread_yield_def)
  ultimately show ?thesis
    using u(2,5,7,8) False unfolding u(1) [symmetric]
    by (intro if_not_P [THEN iffD2] exI [of _ j] exI [of _ ?k] exI [of _ ts]) simp_all
qed

theorem mutex_unlock_refines_witness:
  "\<exists>k'. pthread_mutex_unlock nobody 0 (pth_demo READY READY (\<lambda>_. held_mutex (Owner 0) [1, 2]) (\<lambda>_. undefined) (\<lambda>_. undefined)) =
      andThen (tk_yield nobody k') (\<lambda>k2. Inr (0, k2)) \<and> m_owner (mutexes k' 0) = Owner 2 \<and>
    \<not> has_flag (state (pool k' 2)) QUEUE"
proof -
  let ?k = "pth_demo READY READY (\<lambda>_. held_mutex (Owner 0) [1, 2]) (\<lambda>_. undefined) (\<lambda>_. undefined)"
  have b: "PTHREADS_MAX_BLOCKED = 10" by (simp add: PTHREADS_MAX_BLOCKED_def TK_MAX_THREADS_def)
  have "mutex_ok ?k (mutexes ?k 0)" by (auto intro!: held_mutex_ok simp: b)
  moreover have "\<forall>t \<in> valid_tids ?k. Prio (pool ?k t) < TK_MAX_PRIO_LEVELS"
    by (simp add: blank_tcb_def TK_MAX_PRIO_LEVELS_def)
  ultimately obtain j k' where u: "j < 2"
    "pthread_mutex_unlock nobody 0 ?k = andThen (tk_yield nobody k') (\<lambda>k2. Inr (0, k2))"
    "m_owner (mutexes k' 0) = Owner ([1, 2] ! j)" "\<not> has_flag (state (pool k' ([1, 2] ! j))) QUEUE"
    "\<forall>l < 2. Prio (pool ?k ([1, 2] ! j)) \<le> Prio (pool ?k ([1, 2] ! l))"
    using mutex_unlock_refines [of ?k 0 nobody] by (auto simp: numeral_2_eq_2)
  from u(5) have "Prio (pool ?k ([1, 2] ! j)) \<le> Prio (pool ?k ([1, 2] ! 1))"
    by (rule allE [of _ 1]) (simp del: pth_demo_sel)
  then have "j = 1" using u(1) by (cases j) (auto simp: blank_tcb_def)
  then show ?thesis using u(2-4) by (intro exI [of _ k']) simp
qed

section \<open>Condition variables\<close>

lemma lock_free_mutex:
  "m_valid (mutexes k m) \<Longrightarrow> m_owner (mutexes k m) = No_owner \<Longrightarrow>
    pthread_mutex_lock oth m k = Inr (0, put_mutex m ((mutexes k m)\<lparr>m_owner := Owner (active_thread k), m_numb := 0\<rparr>) k)"
  by (simp add: pthread_mutex_lock_def mutex_lock_primitive_def yield_if_def)

lemma unlock_quiet_mutex:
  "m_valid (mutexes k m) \<Longrightarrow> m_owner (mutexes k m) \<noteq> No_owner \<Longrightarrow> m_numb (mutexes k m) = 0 \<Longrightarrow>
    pthread_mutex_unlock oth m k = Inr (0, put_mutex m ((mutexes k m)\<lparr>m_owner := No_owner\<rparr>) k)"
  by (simp add: pthread_mutex_unlock_def mutex_unlock_free yield_if_def)

text \<open>A condition variable nobody waits for.\<close>

definition quiet_cond :: "'a pth_kern_scheme \<Rightarrow> nat \<Rightarrow> bool" where
  "quiet_cond k c \<longleftrightarrow> c_valid (conds k c) \<and> m_owner (mutexes k (cv_mux (conds k c))) = Cv_owner \<and>
     m_numb (mutexes k (cv_mux (conds k c))) = 0"

lemma signal_unused: "c_valid (conds k c) \<Longrightarrow> coop_mux (conds k c) = None \<Longrightarrow> pthread_cond_signal oth c k = Inr (0, k)"
  by (simp add: pthread_cond_signal_def Let_def)

text \<open>
  A thread that signals a condition variable for which nobody waits any more, but some
  thread has waited before, loses the mutex it holds: \<open>pthread_cond_signal\<close> unlocks the
  cooperating mutex, which the caller still believes to own, and no thread is woken.
\<close>

theorem cond_signal_drops_mutex:
  assumes q: "quiet_cond k c" and coop: "coop_mux (conds k c) = Some m" "m \<noteq> cv_mux (conds k c)"
    and held: "m_valid (mutexes k m)" "m_owner (mutexes k m) = Owner (active_thread k)" "m_numb (mutexes k m) = 0"
  shows "\<exists>k'. pthread_cond_signal oth c k = Inr (0, k') \<and> mutex_spec_of (mutexes k' m) = Mutex_free \<and>
    quiet_cond k' c \<and> threadPool k' = threadPool k \<and> active_thread k' = active_thread k"
proof -
  let ?cv = "cv_mux (conds k c)"
  let ?k1 = "put_mutex ?cv ((mutexes k ?cv)\<lparr>m_owner := No_owner\<rparr>) k"
  let ?k2 = "reown_cv ?cv ?k1"
  let ?k3 = "put_mutex m ((mutexes ?k2 m)\<lparr>m_owner := No_owner\<rparr>) ?k2"
  have "pthread_mutex_unlock oth m ?k2 = Inr (0, ?k3)"
    using held coop(2) by (intro unlock_quiet_mutex) (simp_all add: reown_cv_def)
  then have "pthread_cond_signal oth c k = Inr (0, ?k3)"
    using q coop(1) by (simp add: pthread_cond_signal_def quiet_cond_def mutex_unlock_free Let_def yield_if_def)
      (simp add: reown_cv_def)
  moreover have "quiet_cond ?k3 c" "mutex_spec_of (mutexes ?k3 m) = Mutex_free"
    using q coop(2) by (simp_all add: quiet_cond_def reown_cv_def mutex_spec_of_def)
  ultimately show ?thesis by (intro exI [of _ ?k3]) (simp add: reown_cv_def)
qed

theorem cond_signal_drops_mutex_witness:
  "\<exists>k'. pthread_cond_signal nobody 0 (pth_demo READY READY
      ((\<lambda>_. held_mutex (Owner 0) [])(1 := held_mutex Cv_owner [])) (\<lambda>_. \<lparr>coop_mux = Some 0, cv_mux = 1, c_valid = True\<rparr>)
      (\<lambda>_. undefined)) = Inr (0, k') \<and> mutex_spec_of (mutexes k' 0) = Mutex_free"
proof -
  let ?k = "pth_demo READY READY ((\<lambda>_. held_mutex (Owner 0) [])(1 := held_mutex Cv_owner []))
    (\<lambda>_. \<lparr>coop_mux = Some 0, cv_mux = 1, c_valid = True\<rparr>) (\<lambda>_. undefined)"
  have "quiet_cond ?k 0" by (simp add: quiet_cond_def)
  then show ?thesis using cond_signal_drops_mutex [of ?k 0 0 nobody] by auto
qed

section \<open>Reader-writer locks\<close>

lemma put_rwlock_sel [simp]:
  "mutexes (put_rwlock w x k) = mutexes k" "conds (put_rwlock w x k) = conds k"
  "rwlocks (put_rwlock w x k) = (rwlocks k)(w := x)" "threadPool (put_rwlock w x k) = threadPool k"
  "active_thread (put_rwlock w x k) = active_thread k"
  by (simp_all add: put_rwlock_def)

text \<open>A lock whose own mutex is free.\<close>

definition entry_free :: "'a pth_kern_scheme \<Rightarrow> nat \<Rightarrow> bool" where
  "entry_free k w \<longleftrightarrow> rw_valid (rwlocks k w) \<and> m_valid (mutexes k (mx_self (rwlocks k w))) \<and>
     m_owner (mutexes k (mx_self (rwlocks k w))) = No_owner"

text \<open>The kernel with the lock's own mutex taken by the caller, and given back.\<close>

abbreviation entered :: "nat \<Rightarrow> 'a pth_kern_scheme \<Rightarrow> 'a pth_kern_scheme" where
  "entered w k \<equiv> put_mutex (mx_self (rwlocks k w))
     ((mutexes k (mx_self (rwlocks k w)))\<lparr>m_owner := Owner (active_thread k), m_numb := 0\<rparr>) k"

abbreviation left :: "nat \<Rightarrow> 'a pth_kern_scheme \<Rightarrow> 'a pth_kern_scheme" where
  "left w k \<equiv> put_mutex (mx_self (rwlocks k w)) ((mutexes k (mx_self (rwlocks k w)))\<lparr>m_owner := No_owner\<rparr>) k"

lemma enter_rwlock: "entry_free k w \<Longrightarrow> pthread_mutex_lock oth (mx_self (rwlocks k w)) k = Inr (0, entered w k)"
  by (simp add: entry_free_def lock_free_mutex)

lemma rdlock_free:
  assumes "entry_free k w" "writers_writing (rwlocks k w) = 0" "blocked_writers (rwlocks k w) = 0"
  shows "pthread_rwlock_rdlock n oth w k =
    Inr (0, left w (upd_rwlock w (\<lambda>x. x\<lparr>readers_reading := readers_reading x + 1\<rparr>) (entered w k)))"
proof -
  have "rdlock_loop n oth w (granted_first w (entered w k)) (entered w k) = Inr (entered w k)"
    using assms by (subst rdlock_loop.simps) (simp add: granted_first_def Let_def)
  moreover have "pthread_mutex_unlock oth (mx_self (rwlocks k w))
      (upd_rwlock w (\<lambda>x. x\<lparr>readers_reading := readers_reading x + 1\<rparr>) (entered w k)) =
    Inr (0, left w (upd_rwlock w (\<lambda>x. x\<lparr>readers_reading := readers_reading x + 1\<rparr>) (entered w k)))"
    using assms(1) by (subst unlock_quiet_mutex) (simp_all add: upd_rwlock_def entry_free_def)
  ultimately show ?thesis
    using assms(1) by (simp add: pthread_rwlock_rdlock_def enter_rwlock Let_def)
      (simp add: entry_free_def upd_rwlock_def)
qed

lemma wrlock_free:
  assumes "entry_free k w" "writers_writing (rwlocks k w) = 0" "readers_reading (rwlocks k w) = 0"
  shows "pthread_rwlock_wrlock n oth w k =
    Inr (0, left w (upd_rwlock w (\<lambda>x. x\<lparr>writers_writing := 1\<rparr>) (entered w k)))"
proof -
  have "wrlock_loop n oth w (entered w k) = Inr (entered w k)"
    using assms by (subst wrlock_loop.simps) (simp add: Let_def)
  moreover have "pthread_mutex_unlock oth (mx_self (rwlocks k w))
      (upd_rwlock w (\<lambda>x. x\<lparr>writers_writing := 1\<rparr>) (entered w k)) =
    Inr (0, left w (upd_rwlock w (\<lambda>x. x\<lparr>writers_writing := 1\<rparr>) (entered w k)))"
    using assms(1) by (subst unlock_quiet_mutex) (simp_all add: upd_rwlock_def entry_free_def)
  moreover have "upd_rwlock w (\<lambda>x. x\<lparr>writers_writing := writers_writing x + 1\<rparr>) (entered w k) =
    upd_rwlock w (\<lambda>x. x\<lparr>writers_writing := 1\<rparr>) (entered w k)"
    using assms(2) by (simp add: upd_rwlock_def)
  ultimately show ?thesis
    using assms(1) by (simp add: pthread_rwlock_wrlock_def enter_rwlock Let_def)
      (simp add: entry_free_def upd_rwlock_def)
qed

text \<open>What leaving does, when nobody waits on the condition variable it signals.\<close>

definition unused_cond :: "'a pth_kern_scheme \<Rightarrow> nat \<Rightarrow> bool" where
  "unused_cond k c \<longleftrightarrow> c_valid (conds k c) \<and> coop_mux (conds k c) = None"

lemma unlock_reader:
  assumes "entry_free k w" "writers_writing (rwlocks k w) = 0" "readers_reading (rwlocks k w) \<noteq> 0"
    and "unused_cond k (readers_lock (rwlocks k w))"
  shows "pthread_rwlock_unlock oth w k =
    Inr (0, left w (upd_rwlock w (\<lambda>x. x\<lparr>readers_reading := readers_reading x - 1\<rparr>) (entered w k)))"
proof -
  let ?k = "upd_rwlock w (\<lambda>x. x\<lparr>readers_reading := readers_reading x - 1\<rparr>) (entered w k)"
  have "reader_leaves oth w (entered w k) = Inr (0, ?k)"
    using assms(4) unfolding reader_leaves_def Let_def
    by (intro signal_unused) (simp_all add: unused_cond_def upd_rwlock_def)
  moreover have "pthread_mutex_unlock oth (mx_self (rwlocks k w)) ?k = Inr (0, left w ?k)"
    using assms(1) by (subst unlock_quiet_mutex) (simp_all add: upd_rwlock_def entry_free_def)
  ultimately show ?thesis
    using assms(1-3) by (simp add: pthread_rwlock_unlock_def enter_rwlock Let_def)
      (simp add: entry_free_def upd_rwlock_def)
qed

lemma unlock_writer:
  assumes "entry_free k w" "writers_writing (rwlocks k w) = 1" "blocked_writers (rwlocks k w) = 0"
    and "unused_cond k (readers_lock (rwlocks k w))"
  shows "pthread_rwlock_unlock oth w k =
    Inr (0, left w (upd_rwlock w (\<lambda>x. x\<lparr>writers_writing := 0\<rparr>) (entered w k)))"
proof -
  let ?k = "upd_rwlock w (\<lambda>x. x\<lparr>writers_writing := 0\<rparr>) (entered w k)"
  have "writer_leaves oth w (entered w k) = Inr (0, ?k)"
    using assms(3,4) by (simp add: writer_leaves_def unused_cond_def Let_def)
      (simp add: upd_rwlock_def pthread_cond_broadcast_def Let_def)
  moreover have "pthread_mutex_unlock oth (mx_self (rwlocks k w)) ?k = Inr (0, left w ?k)"
    using assms(1) by (subst unlock_quiet_mutex) (simp_all add: upd_rwlock_def entry_free_def)
  ultimately show ?thesis
    using assms(1-3) by (simp add: pthread_rwlock_unlock_def enter_rwlock Let_def)
      (simp add: entry_free_def upd_rwlock_def)
qed

text \<open>What both kinds of holders leave behind.\<close>

definition as_before :: "'a pth_kern_scheme \<Rightarrow> nat \<Rightarrow> 'a pth_kern_scheme \<Rightarrow> bool" where
  "as_before k w k' \<longleftrightarrow> rwlocks k' = rwlocks k \<and> entry_free k' w \<and> threadPool k' = threadPool k"

definition idle_rwlock :: "'a pth_kern_scheme \<Rightarrow> nat \<Rightarrow> bool" where
  "idle_rwlock k w \<longleftrightarrow> entry_free k w \<and> readers_reading (rwlocks k w) = 0 \<and> writers_writing (rwlocks k w) = 0 \<and>
     blocked_writers (rwlocks k w) = 0 \<and> unused_cond k (readers_lock (rwlocks k w))"

lemma rwlock_reset: "readers_reading x = n \<Longrightarrow> x\<lparr>readers_reading := n\<rparr> = x" "writers_writing x = n \<Longrightarrow> x\<lparr>writers_writing := n\<rparr> = x"
  by auto

lemma read_round_trip:
  assumes idle: "idle_rwlock k w"
  shows "\<exists>k1 k2. pthread_rwlock_rdlock n oth w k = Inr (0, k1) \<and> readers_reading (rwlocks k1 w) = 1 \<and>
    threadPool k1 = threadPool k \<and> pthread_rwlock_unlock oth w k1 = Inr (0, k2) \<and> as_before k w k2"
proof -
  let ?r = "left w (upd_rwlock w (\<lambda>x. x\<lparr>readers_reading := readers_reading x + 1\<rparr>) (entered w k))"
  let ?u = "left w (upd_rwlock w (\<lambda>x. x\<lparr>readers_reading := readers_reading x - 1\<rparr>) (entered w ?r))"
  have r: "entry_free ?r w" "unused_cond ?r (readers_lock (rwlocks ?r w))" "writers_writing (rwlocks ?r w) = 0"
    "readers_reading (rwlocks ?r w) = 1" "threadPool ?r = threadPool k"
    using idle by (simp_all add: idle_rwlock_def entry_free_def unused_cond_def upd_rwlock_def)
  have "readers_reading (rwlocks ?r w) \<noteq> 0" using r(4) by simp
  note u = unlock_reader [OF r(1,3) this r(2), of oth]
  have "as_before k w ?u"
    using idle by (simp add: as_before_def idle_rwlock_def entry_free_def upd_rwlock_def rwlock_reset fun_upd_idem)
  moreover have "pthread_rwlock_rdlock n oth w k = Inr (0, ?r)" using idle by (simp add: idle_rwlock_def rdlock_free)
  ultimately show ?thesis using r(4,5) u by blast
qed

lemma write_round_trip:
  assumes idle: "idle_rwlock k w"
  shows "\<exists>k1 k2. pthread_rwlock_wrlock n oth w k = Inr (0, k1) \<and> writers_writing (rwlocks k1 w) = 1 \<and>
    threadPool k1 = threadPool k \<and> pthread_rwlock_unlock oth w k1 = Inr (0, k2) \<and> as_before k w k2"
proof -
  let ?r = "left w (upd_rwlock w (\<lambda>x. x\<lparr>writers_writing := 1\<rparr>) (entered w k))"
  let ?u = "left w (upd_rwlock w (\<lambda>x. x\<lparr>writers_writing := 0\<rparr>) (entered w ?r))"
  have r: "entry_free ?r w" "unused_cond ?r (readers_lock (rwlocks ?r w))" "writers_writing (rwlocks ?r w) = 1"
    "blocked_writers (rwlocks ?r w) = 0" "threadPool ?r = threadPool k"
    using idle by (simp_all add: idle_rwlock_def entry_free_def unused_cond_def upd_rwlock_def)
  note u = unlock_writer [OF r(1,3,4,2), of oth]
  have "as_before k w ?u"
    using idle by (simp add: as_before_def idle_rwlock_def entry_free_def upd_rwlock_def rwlock_reset fun_upd_idem)
  moreover have "pthread_rwlock_wrlock n oth w k = Inr (0, ?r)" using idle by (simp add: idle_rwlock_def wrlock_free)
  ultimately show ?thesis using r(3,5) u by blast
qed

lemma unlock_unheld:
  assumes "entry_free k w" "readers_reading (rwlocks k w) = 0" "writers_writing (rwlocks k w) = 0"
  shows "\<exists>k'. pthread_rwlock_unlock oth w k = Inr (E_INVAL, k') \<and> as_before k w k'"
  using assms unlock_quiet_mutex [of "entered w k" "mx_self (rwlocks k w)" oth]
  by (simp add: pthread_rwlock_unlock_def enter_rwlock Let_def) (simp add: as_before_def entry_free_def)

text \<open>
  C18. A reader that gets the lock uncontended and gives it back leaves the lock as it was, and
  so does a writer; while it is inside, \<open>readers_reading\<close> or \<open>writers_writing\<close> is one. No thread is
  blocked or woken and nobody yields; to unlock a lock nobody holds is refused.
\<close>

theorem rwlock_round_trip:
  assumes idle: "idle_rwlock k w"
  shows "(\<exists>k1 k2. pthread_rwlock_rdlock n oth w k = Inr (0, k1) \<and> readers_reading (rwlocks k1 w) = 1 \<and>
      threadPool k1 = threadPool k \<and> pthread_rwlock_unlock oth w k1 = Inr (0, k2) \<and> as_before k w k2) \<and>
    (\<exists>k1 k2. pthread_rwlock_wrlock n oth w k = Inr (0, k1) \<and> writers_writing (rwlocks k1 w) = 1 \<and>
      threadPool k1 = threadPool k \<and> pthread_rwlock_unlock oth w k1 = Inr (0, k2) \<and> as_before k w k2) \<and>
    (\<exists>k'. pthread_rwlock_unlock oth w k = Inr (E_INVAL, k') \<and> as_before k w k')"
  using read_round_trip [OF idle, of n oth] write_round_trip [OF idle, of n oth] unlock_unheld [of k w oth] idle
  unfolding idle_rwlock_def by blast

text \<open>The lock \<open>0\<close>, with its parts, used by \<open>rr\<close> readers.\<close>

definition demo_rwlock :: "int \<Rightarrow> int \<Rightarrow> pthread_rwlock_t" where
  "demo_rwlock rr bw = (PTHREAD_RWLOCK_INITIALIZER 3 0 1)\<lparr>readers_reading := rr, blocked_writers := bw\<rparr>"

definition demo_conds :: "nat option \<Rightarrow> nat \<Rightarrow> pthread_cond_t" where
  "demo_conds coop c = \<lparr>coop_mux = (if c = 0 then None else coop), cv_mux = c + 1, c_valid = True\<rparr>"

lemma demo_rwlock_sel [simp]:
  "readers_reading (demo_rwlock rr bw) = rr" "writers_writing (demo_rwlock rr bw) = 0" "mx_self (demo_rwlock rr bw) = 3"
  "blocked_writers (demo_rwlock rr bw) = bw" "readers_lock (demo_rwlock rr bw) = 0" "writers_lock (demo_rwlock rr bw) = 1"
  "rw_valid (demo_rwlock rr bw)" "c_valid (demo_conds coop c)" "coop_mux (demo_conds coop 0) = None"
  by (simp_all add: demo_rwlock_def PTHREAD_RWLOCK_INITIALIZER_def demo_conds_def)

theorem rwlock_round_trip_witness:
  "\<exists>k1 k2. pthread_rwlock_rdlock 5 nobody 0 (pth_demo READY READY (\<lambda>_. held_mutex No_owner []) (demo_conds None)
      (\<lambda>_. demo_rwlock 0 0)) = Inr (0, k1) \<and> readers_reading (rwlocks k1 0) = 1 \<and>
    pthread_rwlock_unlock nobody 0 k1 = Inr (0, k2) \<and> readers_reading (rwlocks k2 0) = 0"
proof -
  let ?k = "pth_demo READY READY (\<lambda>_. held_mutex No_owner []) (demo_conds None) (\<lambda>_. demo_rwlock 0 0)"
  have "idle_rwlock ?k 0" by (simp add: idle_rwlock_def entry_free_def unused_cond_def)
  then obtain k1 k2 where "pthread_rwlock_rdlock 5 nobody 0 ?k = Inr (0, k1)" "readers_reading (rwlocks k1 0) = 1"
    "pthread_rwlock_unlock nobody 0 k1 = Inr (0, k2)" "as_before ?k 0 k2"
    using rwlock_round_trip [of ?k 0 5 nobody] by blast
  then show ?thesis by (intro exI [of _ k1] exI [of _ k2]) (simp add: as_before_def)
qed

text \<open>
  The last reader to leave does not let a waiting writer in. Nobody has ever waited to
  read, so the condition variable that \<open>pthread_rwlock_unlock\<close> signals is unused; whoever waits
  to write, on \<open>writers_lock\<close>, goes on waiting there, with the lock free.
\<close>

theorem last_reader_wakes_nobody:
  assumes free: "entry_free k w" and one: "readers_reading (rwlocks k w) = 1" "writers_writing (rwlocks k w) = 0"
    and unused: "unused_cond k (readers_lock (rwlocks k w))"
    and away: "m = cv_mux (conds k (writers_lock (rwlocks k w)))" "m \<noteq> mx_self (rwlocks k w)"
  shows "\<exists>k'. pthread_rwlock_unlock oth w k = Inr (0, k') \<and> readers_reading (rwlocks k' w) = 0 \<and>
    writers_writing (rwlocks k' w) = 0 \<and> blocked_writers (rwlocks k' w) = blocked_writers (rwlocks k w) \<and>
    mutexes k' m = mutexes k m \<and> threadPool k' = threadPool k \<and> entry_free k' w"
proof -
  have "readers_reading (rwlocks k w) \<noteq> 0" using one(1) by simp
  note u = unlock_reader [OF free one(2) this unused, of oth]
  show ?thesis unfolding u using free one away(2)
    by (intro exI [of _ "left w (upd_rwlock w (\<lambda>x. x\<lparr>readers_reading := readers_reading x - 1\<rparr>) (entered w k))"])
      (simp add: upd_rwlock_def entry_free_def)
qed

theorem last_reader_wakes_nobody_witness:
  "\<exists>k'. pthread_rwlock_unlock nobody 0 (pth_demo READY QUEUE ((\<lambda>_. held_mutex No_owner [])(2 := held_mutex Cv_owner [2]))
      (demo_conds (Some 3)) (\<lambda>_. demo_rwlock 1 1)) = Inr (0, k') \<and> readers_reading (rwlocks k' 0) = 0 \<and>
    mutexes k' 2 = held_mutex Cv_owner [2] \<and> blocked_writers (rwlocks k' 0) = 1 \<and> state (pool k' 2) = QUEUE"
proof -
  let ?k = "pth_demo READY QUEUE ((\<lambda>_. held_mutex No_owner [])(2 := held_mutex Cv_owner [2])) (demo_conds (Some 3))
    (\<lambda>_. demo_rwlock 1 1)"
  have "entry_free ?k 0" "unused_cond ?k (readers_lock (rwlocks ?k 0))"
    "2 = cv_mux (conds ?k (writers_lock (rwlocks ?k 0)))"
    by (simp_all add: entry_free_def unused_cond_def) (simp add: demo_conds_def)
  then obtain k' where "pthread_rwlock_unlock nobody 0 ?k = Inr (0, k')" "readers_reading (rwlocks k' 0) = 0"
    "blocked_writers (rwlocks k' 0) = blocked_writers (rwlocks ?k 0)" "mutexes k' 2 = mutexes ?k 2" "threadPool k' = threadPool ?k"
    using last_reader_wakes_nobody [of ?k 0 2 nobody] by auto
  then show ?thesis by (intro exI [of _ k']) simp
qed

section \<open>Running a routine once\<close>

text \<open>A semaphore in the table, and what the operations do when nobody waits for it.\<close>

definition sem_at :: "'a itc_kern_scheme \<Rightarrow> nat \<Rightarrow> itc_t \<Rightarrow> bool" where
  "sem_at k s q \<longleftrightarrow> s < TK_MAX_NUM_Q \<and> itc_array k s = Some q \<and> b_type q = SEM"

lemma sm_p_token:
  "sem_at k s q \<Longrightarrow> 0 < token q \<Longrightarrow> sm_p oth s fl timeout k = Inr (RC_OK, put_itc s (q\<lparr>token := token q - 1\<rparr>) k)"
  by (simp add: sem_at_def sm_p_def wrong_type_def would_block_def lock_stage_def lock_begin_def at_itc_def)

lemma sm_v_token:
  "sem_at k s q \<Longrightarrow> 0 \<le> token q \<Longrightarrow> sm_v oth s k = Inr (RC_OK, put_itc s (q\<lparr>token := token q + 1\<rparr>) k)"
  by (simp add: sem_at_def sm_v_def wrong_type_def unlock_stage_def at_itc_def)

text \<open>A critical section of \<open>pthread_once\<close> whose body changes no semaphore.\<close>

lemma locked_once_free:
  assumes q: "sem_at k (sem_once k) q" "0 < token q"
    and f: "f (put_itc (sem_once k) (q\<lparr>token := token q - 1\<rparr>) k) =
      (b, k1\<lparr>itc_array := (itc_array k)(sem_once k \<mapsto> q\<lparr>token := token q - 1\<rparr>)\<rparr>)"
    and k1: "sem_once k1 = sem_once k" "itc_array k1 = itc_array k"
  shows "locked_once oth f k = Inr (b, k1)"
proof -
  let ?k2 = "k1\<lparr>itc_array := (itc_array k)(sem_once k \<mapsto> q\<lparr>token := token q - 1\<rparr>)\<rparr>"
  have "sem_at ?k2 (sem_once k) (q\<lparr>token := token q - 1\<rparr>)" using q(1) by (simp add: sem_at_def)
  then have "sm_v oth (sem_once k) ?k2 = Inr (RC_OK, put_itc (sem_once k) q ?k2)"
    using q(2) sm_v_token [of ?k2 "sem_once k" "q\<lparr>token := token q - 1\<rparr>" oth] by simp
  moreover have "put_itc (sem_once k) q ?k2 = k1"
    using q(1) k1(2) by (simp add: put_itc_def sem_at_def fun_upd_idem)
  ultimately show ?thesis
    using sm_p_token [OF q, of oth WAIT 1000] f k1(1) by (simp add: locked_once_def)
qed

lemma claim_once_free:
  assumes "sem_at k (sem_once k) q" "0 < token q"
  shows "locked_once oth (claim_once c) k =
    Inr (o_started (onces k c) < 0, if o_started (onces k c) < 0
      then k\<lparr>onces := (onces k)(c := (onces k c)\<lparr>o_started := o_started (onces k c) + 1\<rparr>)\<rparr> else k)"
  by (rule locked_once_free [OF assms]) (simp_all add: claim_once_def put_itc_def)

lemma finish_once_free:
  assumes "sem_at k (sem_once k) q" "0 < token q"
  shows "locked_once oth (finish_once c) k = Inr ((), k\<lparr>onces := (onces k)(c := (onces k c)\<lparr>o_done := 1\<rparr>)\<rparr>)"
  by (rule locked_once_free [OF assms]) (simp_all add: finish_once_def put_itc_def)

lemma pthread_once_over:
  "sem_at k (sem_once k) q \<Longrightarrow> 0 < token q \<Longrightarrow> 0 \<le> o_started (onces k c) \<Longrightarrow> pthread_once oth (Some c) init k = Inr (0, k)"
  by (simp add: pthread_once_def claim_once_free)



end
