(* ===== verification/TkMqueue.thy ===== *)
theory TkMqueue
  imports TkSearch TkPthread
begin

text \<open>
  POSIX message queues, \<^verbatim>\<open>src/mqueue.c\<close>: the pools of queues and of descriptors, the box of
  messages that is kept in order by \<^verbatim>\<open>qsort\<close>, and the operations. Names are the
  characters before the terminating zero; the outcome of every \<^verbatim>\<open>malloc\<close> is an
  argument. Results are read as signed: \<open>-1\<close> is \<^verbatim>\<open>(size_t)-1\<close> in \<open>mq_receive\<close>.
\<close>

section \<open>Data\<close>

definition QNAME_LEN :: nat where "QNAME_LEN = 24"
definition NUMBER_OF_QUEUES :: nat where "NUMBER_OF_QUEUES = 100"
definition NUMBER_OF_FILES :: nat where "NUMBER_OF_FILES = 100"
definition CREATE_ONLY :: nat where "CREATE_ONLY = NUMBER_OF_FILES + 1"

text \<open>
  \<^verbatim>\<open>sys/fcntl.h\<close>. \<^verbatim>\<open>O_CREAT\<close> and \<^verbatim>\<open>O_NONBLOCK\<close> are those of its own branch; with GNU
  tools they come from the C library (and are the \<open>FO_CREAT\<close> and \<open>FO_NONBLOCK\<close> of \<open>TkRegFile\<close>). Only
  that the flags are different bits matters here.
\<close>

definition O_RDONLY :: "32 word" where "O_RDONLY = 0x01"
definition O_WRONLY :: "32 word" where "O_WRONLY = 0x02"
definition O_RDWR :: "32 word" where "O_RDWR = 0x04"
definition O_CREAT :: "32 word" where "O_CREAT = 0x10"
definition O_NONBLOCK :: "32 word" where "O_NONBLOCK = 0x40"

lemmas oflag_defs = O_RDONLY_def O_WRONLY_def O_RDWR_def O_CREAT_def O_NONBLOCK_def

text \<open>\<^verbatim>\<open>time_t\<close> is a signed long.\<close>

datatype OrderT = OrderT (o_time: int) (o_prio: "32 word") (o_inOrder: "32 word")

record mess_t =
  mbuffer :: "8 word list buffer"
  msgSz :: nat
  mess_order :: OrderT

record mq_attr_t =
  mq_msgsize :: nat
  mq_maxmsg :: nat

record mbox_t =
  mIdxIn :: nat
  mIdxOut :: nat
  messArray :: "mess_t list buffer"
  lastInOrder :: "32 word"

record queue_d =
  q_taken :: int
  q_name :: string
  q_attr :: mq_attr_t
  mBox :: mbox_t
  q_sem :: nat

record file_d =
  f_taken :: int
  f_tId :: thid_t
  f_oflags :: "32 word"
  f_qId :: nat

record mq_kern = pth_kern +
  queuePool :: "nat \<Rightarrow> queue_d"
  filePool :: "nat \<Rightarrow> file_d"
  poolAccessSem :: nat
  mq_once :: nat
  sort_depths :: depths

type_synonym 'a mq_others = "thid_t \<Rightarrow> 'a mq_kern_scheme \<Rightarrow> 'a mq_kern_scheme result"

text \<open>The positions from which free slots are searched; the code never moves them.\<close>

definition qPIdx :: nat where "qPIdx = 0"
definition fPIdx :: nat where "fPIdx = 0"

definition put_queue :: "nat \<Rightarrow> queue_d \<Rightarrow> 'a mq_kern_scheme \<Rightarrow> 'a mq_kern_scheme" where
  "put_queue i Q k = k\<lparr>queuePool := (queuePool k)(i := Q)\<rparr>"

section \<open>The order of messages\<close>

definition compOrder :: "OrderT \<Rightarrow> OrderT \<Rightarrow> int" where
  "compOrder a b =
     (if o_prio a > o_prio b then -1 else if o_prio a < o_prio b then 1
      else if o_time a < o_time b then -1 else if o_time a > o_time b then 1
      else if o_inOrder a < o_inOrder b then -1 else if o_inOrder a > o_inOrder b then 1 else 0)"

definition compMess :: "mess_t \<Rightarrow> mess_t \<Rightarrow> int" where
  "compMess e1 e2 = compOrder (mess_order e1) (mess_order e2)"

instantiation OrderT :: linorder
begin

definition less_eq_OrderT :: "OrderT \<Rightarrow> OrderT \<Rightarrow> bool" where
  "less_eq_OrderT a b \<longleftrightarrow> compOrder a b \<le> 0"

definition less_OrderT :: "OrderT \<Rightarrow> OrderT \<Rightarrow> bool" where
  "less_OrderT a b \<longleftrightarrow> compOrder a b < 0"

instance
proof
  fix a b c :: OrderT
  show "a \<le> a" by (simp add: less_eq_OrderT_def compOrder_def)
  show "(a < b) = (a \<le> b \<and> \<not> b \<le> a)"
    by (cases a; cases b) (auto simp: less_eq_OrderT_def less_OrderT_def compOrder_def split: if_splits)
  show "a \<le> b \<or> b \<le> a"
    by (cases a; cases b) (auto simp: less_eq_OrderT_def compOrder_def split: if_splits)
  show "a = b" if "a \<le> b" "b \<le> a"
    using that by (cases a; cases b) (auto simp: less_eq_OrderT_def compOrder_def split: if_splits)
  show "a \<le> c" if "a \<le> b" "b \<le> c"
    using that by (cases a; cases b; cases c) (auto simp: less_eq_OrderT_def compOrder_def split: if_splits)
qed

end

lemma compMess_iff:
  "compMess e1 e2 \<le> 0 \<longleftrightarrow> mess_order e1 \<le> mess_order e2" "compMess e1 e2 < 0 \<longleftrightarrow> mess_order e1 < mess_order e2"
  "compMess e1 e2 > 0 \<longleftrightarrow> mess_order e2 < mess_order e1" "compMess e1 e2 = 0 \<longleftrightarrow> mess_order e1 = mess_order e2"
proof -
  show le: "compMess e1 e2 \<le> 0 \<longleftrightarrow> mess_order e1 \<le> mess_order e2"
    by (simp add: compMess_def less_eq_OrderT_def)
  show less: "compMess e1 e2 < 0 \<longleftrightarrow> mess_order e1 < mess_order e2"
    by (simp add: compMess_def less_OrderT_def)
  show "compMess e1 e2 > 0 \<longleftrightarrow> mess_order e2 < mess_order e1" using le by auto
  show "compMess e1 e2 = 0 \<longleftrightarrow> mess_order e1 = mess_order e2"
    using le less by (metis order_le_less order_less_irrefl)
qed

interpretation mess: comparator compMess
  by unfold_locales (auto simp: compMess_iff)

section \<open>The box\<close>

text \<open>\<^verbatim>\<open>NUMB_MESS(Q)\<close>, the number of messages in the box.\<close>

definition NUMB_MESS :: "queue_d \<Rightarrow> nat" where
  "NUMB_MESS Q = (let b = mBox Q in
     if mIdxIn b \<ge> mIdxOut b then mIdxIn b - mIdxOut b
     else mq_maxmsg (q_attr Q) - mIdxOut b + mIdxIn b)"

text \<open>\<^verbatim>\<open>mq_maxmsg - 1\<close> in \<^verbatim>\<open>size_t\<close>.\<close>

definition room_limit :: "queue_d \<Rightarrow> nat" where
  "room_limit Q = (if mq_maxmsg (q_attr Q) = 0 then 2 ^ 32 - 1 else mq_maxmsg (q_attr Q) - 1)"

text \<open>\<^verbatim>\<open>sizeof(MessT)\<close> for pointers and longs of four bytes.\<close>

definition SIZEOF_MessT :: nat where "SIZEOF_MessT = 20"

definition ring_next :: "queue_d \<Rightarrow> nat \<Rightarrow> nat result" where
  "ring_next Q i = (if mq_maxmsg (q_attr Q) = 0 then Inl Div_by_zero else Inr ((i + 1) mod mq_maxmsg (q_attr Q)))"

text \<open>The positions of the messages, and the two copying loops of \<open>sortByPrio\<close>.\<close>

definition box_positions :: "queue_d \<Rightarrow> nat list" where
  "box_positions Q = map (\<lambda>j. (mIdxOut (mBox Q) + j) mod mq_maxmsg (q_attr Q)) [0..<NUMB_MESS Q]"

definition copy_out :: "nat list \<Rightarrow> mess_t list \<Rightarrow> mess_t list result" where
  "copy_out ps arr = in_bounds (\<forall>p \<in> set ps. p < length arr) (Inr (map (\<lambda>p. arr ! p) ps))"

fun copy_in :: "nat list \<Rightarrow> mess_t list \<Rightarrow> mess_t list \<Rightarrow> mess_t list" where
  "copy_in (p # ps) (m # ms) arr = copy_in ps ms (arr[p := m])"
| "copy_in _ _ arr = arr"

text \<open>\<open>mt\<close> tells whether there is memory for the temporary array; it is not checked.\<close>

definition sortByPrio :: "bool \<Rightarrow> nat \<Rightarrow> queue_d \<Rightarrow> (queue_d \<times> depths) result" where
  "sortByPrio mt cur Q = c_deref (messArray (mBox Q)) (\<lambda>arr.
     let n = NUMB_MESS Q; put = (\<lambda>a. Q\<lparr>mBox := (mBox Q)\<lparr>messArray := Live a\<rparr>\<rparr>) in
     if mIdxOut (mBox Q) \<le> mIdxIn (mBox Q) then
       andThen (c_qsort SIZEOF_MessT compMess arr (mIdxOut (mBox Q)) n cur) (\<lambda>(arr', d). Inr (put arr', d))
     else if \<not> mt then Inl Null_deref
     else andThen (copy_out (box_positions Q) arr) (\<lambda>tempT.
       andThen (c_qsort SIZEOF_MessT compMess tempT 0 n cur) (\<lambda>(tempT', d).
         Inr (put (copy_in (box_positions Q) tempT' arr), d))))"

text \<open>Storing a message, from the \<^verbatim>\<open>memcpy\<close> to the sorting; reading the first one.\<close>

definition fill_mess :: "8 word list \<Rightarrow> nat \<Rightarrow> OrderT \<Rightarrow> mess_t \<Rightarrow> mess_t result" where
  "fill_mess bytes len ord m = c_deref (mbuffer m) (\<lambda>buf. in_bounds (len \<le> length buf \<and> len \<le> length bytes)
     (Inr (m\<lparr>mbuffer := Live (take len bytes @ drop len buf), msgSz := len, mess_order := ord\<rparr>)))"

definition put_mess :: "bool \<Rightarrow> nat \<Rightarrow> 8 word list \<Rightarrow> nat \<Rightarrow> 32 word \<Rightarrow> int \<Rightarrow> queue_d \<Rightarrow> (queue_d \<times> depths) result" where
  "put_mess mt cur bytes len prio now Q = (let b = mBox Q in c_deref (messArray b) (\<lambda>arr.
     in_bounds (mIdxIn b < length arr)
      (andThen (fill_mess bytes len (OrderT now prio (lastInOrder b)) (arr ! mIdxIn b)) (\<lambda>m.
        andThen (ring_next Q (mIdxIn b)) (\<lambda>i.
          sortByPrio mt cur (Q\<lparr>mBox := b\<lparr>messArray := Live (arr[mIdxIn b := m]), lastInOrder := lastInOrder b + 1,
            mIdxIn := i\<rparr>\<rparr>))))))"

definition take_mess :: "queue_d \<Rightarrow> (8 word list \<times> 32 word \<times> queue_d) result" where
  "take_mess Q = (let b = mBox Q in c_deref (messArray b) (\<lambda>arr.
     in_bounds (mIdxOut b < length arr \<and> mIdxIn b < length arr)
      (let m = arr ! mIdxOut b in c_deref (mbuffer m) (\<lambda>buf. in_bounds (msgSz m \<le> length buf)
        (andThen (ring_next Q (mIdxOut b)) (\<lambda>i.
          Inr (take (msgSz m) buf, o_prio (mess_order (arr ! mIdxIn b)), Q\<lparr>mBox := b\<lparr>mIdxOut := i\<rparr>\<rparr>)))))))"

section \<open>The pools\<close>

text \<open>\<^verbatim>\<open>assert(sem_wait(&poolAccessSem) == 0)\<close> and its counterpart.\<close>

definition pool_wait :: "'a mq_others \<Rightarrow> nat \<Rightarrow> 'a mq_kern_scheme \<Rightarrow> 'a mq_kern_scheme result" where
  "pool_wait oth s k = andThen (sem_wait oth s k) (\<lambda>(rc, k1). c_assert (rc = 0) (Inr k1))"

definition pool_post :: "(thid_t \<Rightarrow> thid_t) \<Rightarrow> 'a mq_others \<Rightarrow> nat \<Rightarrow> 'a mq_kern_scheme \<Rightarrow> 'a mq_kern_scheme result" where
  "pool_post addr oth s k = andThen (sem_post addr oth s k) (\<lambda>(rc, k1). c_assert (rc = 0) (Inr k1))"

text \<open>
  Leaving with an error. Where the code sets \<^verbatim>\<open>errno\<close> first, \<open>sem_post\<close> sets it
  again, to its own result.
\<close>

definition fail_early :: "(thid_t \<Rightarrow> thid_t) \<Rightarrow> 'a mq_others \<Rightarrow> int \<Rightarrow> 'a mq_kern_scheme \<Rightarrow> 'a mq_kern_scheme result" where
  "fail_early addr oth e k = pool_post addr oth (poolAccessSem k) (set_errno e k)"

definition fail_late :: "(thid_t \<Rightarrow> thid_t) \<Rightarrow> 'a mq_others \<Rightarrow> int \<Rightarrow> 'a mq_kern_scheme \<Rightarrow> 'a mq_kern_scheme result" where
  "fail_late addr oth e k = andThen (pool_post addr oth (poolAccessSem k) k) (\<lambda>k1. Inr (set_errno e k1))"

text \<open>The memory and the helpers a call gets from outside.\<close>

record 'a mq_env =
  env_others :: "'a mq_others"
  env_addr :: "thid_t \<Rightarrow> thid_t"
  env_sem :: "itc_t option"
  env_ring :: bool

definition initialize :: "'a mq_env \<Rightarrow> 'a mq_kern_scheme \<Rightarrow> 'a mq_kern_scheme result" where
  "initialize E k =
     andThen (sem_init (env_sem E) (env_ring E) (poolAccessSem k) 0 1 k) (\<lambda>(rc, s, k1). c_assert (rc = 0)
       (andThen (pool_wait (env_others E) s (k1\<lparr>poolAccessSem := s\<rparr>)) (\<lambda>k2.
          pool_post (env_addr E) (env_others E) (poolAccessSem k2)
           (k2\<lparr>queuePool := (\<lambda>i. if i < NUMBER_OF_QUEUES then (queuePool k2 i)\<lparr>q_taken := 0, q_name := []\<rparr> else queuePool k2 i),
               filePool := (\<lambda>i. if i < NUMBER_OF_FILES then (filePool k2 i)\<lparr>f_taken := 0\<rparr> else filePool k2 i)\<rparr>))))"

text \<open>The start of every call.\<close>

definition mq_enter :: "'a mq_env \<Rightarrow> 'a mq_kern_scheme \<Rightarrow> 'a mq_kern_scheme result" where
  "mq_enter E k = andThen (pthread_once (env_others E) (Some (mq_once k)) (initialize E) k) (\<lambda>(_, k1).
     pool_wait (env_others E) (poolAccessSem k1) k1)"

definition mq_leave :: "'a mq_env \<Rightarrow> 'a mq_kern_scheme \<Rightarrow> 'a mq_kern_scheme result" where
  "mq_leave E k = pool_post (env_addr E) (env_others E) (poolAccessSem k) k"

text \<open>Calls that only take and release the pools.\<close>

definition mq_noop :: "'a mq_env \<Rightarrow> 'a mq_kern_scheme \<Rightarrow> (int \<times> 'a mq_kern_scheme) result" where
  "mq_noop E k = andThen (mq_enter E k) (\<lambda>k1. andThen (mq_leave E k1) (\<lambda>k2. Inr (0, k2)))"

definition mq_close :: "'a mq_env \<Rightarrow> int \<Rightarrow> 'a mq_kern_scheme \<Rightarrow> (int \<times> 'a mq_kern_scheme) result" where
  "mq_close E mq k = mq_noop E k"

definition mq_getattr :: "'a mq_env \<Rightarrow> int \<Rightarrow> 'a mq_kern_scheme \<Rightarrow> (int \<times> 'a mq_kern_scheme) result" where
  "mq_getattr E mq k = mq_noop E k"

definition mq_setattr :: "'a mq_env \<Rightarrow> int \<Rightarrow> mq_attr_t \<Rightarrow> 'a mq_kern_scheme \<Rightarrow> (int \<times> 'a mq_kern_scheme) result" where
  "mq_setattr E mq new k = mq_noop E k"

definition mq_unlink :: "string \<Rightarrow> int" where
  "mq_unlink nm = 0"

section \<open>Opening\<close>

text \<open>The search for a free slot of a pool of \<open>n\<close>: where it stops, and after how many steps.\<close>

fun free_slot :: "nat \<Rightarrow> (nat \<Rightarrow> int) \<Rightarrow> nat \<Rightarrow> nat \<Rightarrow> nat \<Rightarrow> nat \<times> nat" where
  "free_slot 0 tk n i j = (i, j)"
| "free_slot (Suc c) tk n i j = (if tk i \<noteq> 0 then free_slot c tk n ((i + 1) mod n) (j + 1) else (i, j))"

text \<open>\<^verbatim>\<open>strncmp(a, b, QNAME_LEN) == 0\<close>.\<close>

definition same_name :: "string \<Rightarrow> string \<Rightarrow> bool" where
  "same_name a b \<longleftrightarrow> take QNAME_LEN a = take QNAME_LEN b"

definition named_queue :: "string \<Rightarrow> 'a mq_kern_scheme \<Rightarrow> nat option" where
  "named_queue nm k = find (\<lambda>i. q_taken (queuePool k i) \<noteq> 0 \<and> same_name (q_name (queuePool k i)) nm) [0..<NUMBER_OF_QUEUES]"

text \<open>
  The buffers of the messages, of \<open>sz\<close> bytes: \<open>bufs\<close> gives what \<^verbatim>\<open>malloc\<close> returns for
  each, a function from positions to contents. When one fails, those before it are freed.
\<close>

fun alloc_messages :: "nat \<Rightarrow> (nat \<Rightarrow> (nat \<Rightarrow> 8 word) option) \<Rightarrow> nat list \<Rightarrow> mess_t list \<Rightarrow> mess_t list option" where
  "alloc_messages sz bufs [] arr = Some arr"
| "alloc_messages sz bufs (i # is) arr = (case bufs i of None \<Rightarrow> None
     | Some g \<Rightarrow> alloc_messages sz bufs is
         (arr[i := (arr ! i)\<lparr>mbuffer := Live (map g [0..<sz]), msgSz := 0, mess_order := OrderT 0 0 0\<rparr>]))"

text \<open>
  The queue of a free slot \<open>qId\<close>; \<open>mem\<close> is what \<^verbatim>\<open>malloc\<close> returns for the array. Its size
  \<^verbatim>\<open>mq_maxmsg * sizeof(MessT)\<close> wraps, so the block may hold fewer messages than the loop
  fills in; filling in one behind them is out of bounds. The result is the identifier, or that
  the call has ended with \<open>-1\<close>.
\<close>

definition array_slots :: "nat \<Rightarrow> nat" where
  "array_slots n = (n * SIZEOF_MessT mod 2 ^ 32) div SIZEOF_MessT"

lemma array_slots_all: "n * SIZEOF_MessT < 2 ^ 32 \<Longrightarrow> array_slots n = n"
  by (simp add: array_slots_def SIZEOF_MessT_def)

definition new_queue :: "'a mq_env \<Rightarrow> (nat \<Rightarrow> mess_t) option \<Rightarrow> (nat \<Rightarrow> (nat \<Rightarrow> 8 word) option) \<Rightarrow>
  string \<Rightarrow> 32 word \<Rightarrow>
  mq_attr_t option \<Rightarrow> nat \<Rightarrow> 'a mq_kern_scheme \<Rightarrow> (nat option \<times> 'a mq_kern_scheme) result" where
  "new_queue E mem bufs nm oflags attr qId k =
     (let Q = (queuePool k qId)\<lparr>q_taken := 1, q_name := take QNAME_LEN nm\<rparr> in
      case attr of None \<Rightarrow> Inr (None, set_errno E_INVAL (put_queue qId Q k))
      | Some atr \<Rightarrow>
         let Q1 = Q\<lparr>q_attr := atr\<rparr> in
         case mem of
           None \<Rightarrow> andThen (fail_late (env_addr E) (env_others E) E_NFILE
               (put_queue qId (Q1\<lparr>mBox := (mBox Q1)\<lparr>messArray := Null\<rparr>\<rparr>) k)) (\<lambda>k1. Inr (None, k1))
         | Some g \<Rightarrow>
            (case alloc_messages (mq_msgsize atr) bufs [0..<array_slots (mq_maxmsg atr)]
                (map g [0..<array_slots (mq_maxmsg atr)]) of
              None \<Rightarrow> andThen (fail_late (env_addr E) (env_others E) E_NFILE
                 (put_queue qId (Q1\<lparr>mBox := (mBox Q1)\<lparr>messArray := Freed,
                    lastInOrder := (if bufs 0 = None then lastInOrder (mBox Q1) else 0)\<rparr>\<rparr>) k)) (\<lambda>k1. Inr (None, k1))
            | Some arr' \<Rightarrow> in_bounds (array_slots (mq_maxmsg atr) = mq_maxmsg atr) (
               let Q2 = Q1\<lparr>mBox := (mBox Q1)\<lparr>messArray := Live arr', mIdxIn := 0, mIdxOut := 0,
                     lastInOrder := (if arr' = [] then lastInOrder (mBox Q1) else 0)\<rparr>\<rparr>;
                   k2 = put_queue qId Q2 k in
               if oflags AND O_NONBLOCK = 0
               then andThen (sem_init (env_sem E) (env_ring E) (q_sem Q2) 0 0 k2) (\<lambda>(rc, s, k3). c_assert (rc = 0)
                 (Inr (Some qId, put_queue qId ((queuePool k3 qId)\<lparr>q_sem := s\<rparr>) k3)))
               else Inr (Some qId, k2))))"

definition mq_create :: "'a mq_env \<Rightarrow> (nat \<Rightarrow> mess_t) option \<Rightarrow> (nat \<Rightarrow> (nat \<Rightarrow> 8 word) option) \<Rightarrow>
  string \<Rightarrow> 32 word \<Rightarrow>
  mq_attr_t option \<Rightarrow> 'a mq_kern_scheme \<Rightarrow> (nat option \<times> 'a mq_kern_scheme) result" where
  "mq_create E mem bufs nm oflags attr k =
     (let (i, j) = free_slot NUMBER_OF_QUEUES (\<lambda>i. q_taken (queuePool k i)) NUMBER_OF_QUEUES qPIdx 0 in
      if j = NUMBER_OF_QUEUES
      then andThen (fail_early (env_addr E) (env_others E) E_MFILE k) (\<lambda>k1. Inr (None, k1))
      else let k1 = put_queue i ((queuePool k i)\<lparr>q_taken := 1\<rparr>) k in
        if named_queue nm k1 \<noteq> None
        then andThen (fail_late (env_addr E) (env_others E) E_EXIST k1) (\<lambda>k2. Inr (None, k2))
        else new_queue E mem bufs nm oflags attr j k1)"

text \<open>The descriptor; \<open>qid\<close> is the queue that was created, if one was.\<close>

definition mq_describe :: "'a mq_env \<Rightarrow> string \<Rightarrow> 32 word \<Rightarrow> nat option \<Rightarrow> 'a mq_kern_scheme \<Rightarrow>
  (nat option \<times> 'a mq_kern_scheme) result" where
  "mq_describe E nm oflags qid k =
     (if oflags AND (O_RDONLY OR O_WRONLY OR O_RDWR) = 0 then Inr (Some CREATE_ONLY, k)
      else case (if oflags AND O_CREAT = 0 then named_queue nm k else qid) of
        None \<Rightarrow> andThen (fail_late (env_addr E) (env_others E) E_NOENT k) (\<lambda>k1. Inr (None, k1))
      | Some q \<Rightarrow>
         (let (i, j) = free_slot NUMBER_OF_FILES (\<lambda>i. f_taken (filePool k i)) NUMBER_OF_FILES fPIdx 0 in
          if j = NUMBER_OF_FILES
          then andThen (fail_early (env_addr E) (env_others E) E_MFILE k) (\<lambda>k1. Inr (None, k1))
          else Inr (Some j, k\<lparr>filePool := (filePool k)(i :=
            \<lparr>f_taken = 1, f_tId = active_thread k, f_oflags = oflags, f_qId = q\<rparr>)\<rparr>)))"

definition mq_open :: "'a mq_env \<Rightarrow> (nat \<Rightarrow> mess_t) option \<Rightarrow> (nat \<Rightarrow> (nat \<Rightarrow> 8 word) option) \<Rightarrow>
  string \<Rightarrow> 32 word \<Rightarrow>
  mq_attr_t option \<Rightarrow> 'a mq_kern_scheme \<Rightarrow> (int \<times> 'a mq_kern_scheme) result" where
  "mq_open E mem bufs nm oflags attr k = andThen (mq_enter E k) (\<lambda>k1.
     let early = (\<lambda>e. andThen (fail_early (env_addr E) (env_others E) e k1) (\<lambda>k2. Inr (-1, k2))) in
     if length nm > QNAME_LEN then early E_NAMETOOLONG
     else if nm = [] \<or> hd nm \<noteq> CHR ''/'' then early E_INVAL
     else andThen (if oflags AND O_CREAT \<noteq> 0 then mq_create E mem bufs nm oflags attr k1 else Inr (Some 0, k1)) (\<lambda>(r, k2).
       case r of None \<Rightarrow> Inr (-1, k2)
       | Some _ \<Rightarrow> andThen (mq_describe E nm oflags r k2) (\<lambda>(d, k3).
           case d of None \<Rightarrow> Inr (-1, k3)
           | Some dId \<Rightarrow> andThen (mq_leave E k3) (\<lambda>k4. Inr (int dId, k4)))))"

section \<open>Sending and receiving\<close>

text \<open>The caller of \<open>mq_receive\<close> asks for the priority: \<^verbatim>\<open>msgprio\<close> is not null.\<close>

text \<open>The checks the two share: a descriptor of the caller, open in this direction, of a queue.\<close>

definition bad_descriptor :: "int \<Rightarrow> 32 word \<Rightarrow> 'a mq_kern_scheme \<Rightarrow> bool" where
  "bad_descriptor mq dir k \<longleftrightarrow>
     (let f = filePool k (nat mq) in
      \<not> (0 \<le> mq \<and> mq < int NUMBER_OF_FILES \<and> f_taken f = 1 \<and> f_tId f = active_thread k) \<or>
      f_oflags f AND dir = 0 \<or> q_taken (queuePool k (f_qId f)) \<noteq> 1)"

definition mq_receive :: "'a mq_env \<Rightarrow> int \<Rightarrow> nat \<Rightarrow> 'a mq_kern_scheme \<Rightarrow>
  (int \<times> (8 word list \<times> 32 word) option \<times> 'a mq_kern_scheme) result" where
  "mq_receive E mq buflen k = andThen (mq_enter E k) (\<lambda>k1.
     let late = (\<lambda>e. andThen (fail_late (env_addr E) (env_others E) e k1) (\<lambda>k2. Inr (-1, None, k2)));
         f = filePool k1 (nat mq); q = f_qId f; Q = queuePool k1 q in
     if bad_descriptor mq (O_RDONLY OR O_RDWR) k1 then late E_BADF
     else if \<not> buflen \<ge> mq_msgsize (q_attr Q) then late E_MSGSIZE
     else if NUMB_MESS Q = 0 \<and> f_oflags f AND O_NONBLOCK \<noteq> 0 then late E_AGAIN
     else andThen (mq_leave E k1) (\<lambda>k2. andThen (pool_wait (env_others E) (q_sem (queuePool k2 q)) k2) (\<lambda>k3.
       andThen (take_mess (queuePool k3 q)) (\<lambda>(bytes, prio, Q').
         Inr (int (length bytes), Some (bytes, prio), put_queue q Q' k3)))))"

text \<open>\<^verbatim>\<open>time(&ttime)\<close>: the clock read as signed.\<close>

definition time_of :: "'a kern_scheme \<Rightarrow> int" where
  "time_of k = sint (clock_now k)"

definition mq_send :: "'a mq_env \<Rightarrow> bool \<Rightarrow> int \<Rightarrow> 8 word list \<Rightarrow> nat \<Rightarrow> 32 word \<Rightarrow> 'a mq_kern_scheme \<Rightarrow>
  (int \<times> 'a mq_kern_scheme) result" where
  "mq_send E mt mq msg msglen msgprio k = andThen (mq_enter E k) (\<lambda>k1.
     let late = (\<lambda>e. andThen (fail_late (env_addr E) (env_others E) e k1) (\<lambda>k2. Inr (-1, k2)));
         f = filePool k1 (nat mq); q = f_qId f; Q = queuePool k1 q in
     if bad_descriptor mq (O_WRONLY OR O_RDWR) k1 then late E_BADF
     else if \<not> mq_msgsize (q_attr Q) \<ge> msglen then late E_MSGSIZE
     else if \<not> NUMB_MESS Q < room_limit Q then late E_AGAIN
     else andThen (put_mess mt (snd (sort_depths k1)) msg msglen msgprio (time_of k1) Q) (\<lambda>(Q', d).
       andThen (pool_post (env_addr E) (env_others E) (q_sem Q') ((put_queue q Q' k1)\<lparr>sort_depths := d\<rparr>)) (\<lambda>k2.
         andThen (mq_leave E k2) (\<lambda>k3. Inr (0, k3)))))"

end
