(* ===== verification/TkMqueueProps.thy ===== *)
theory TkMqueueProps
  imports TkMqueue TkPthreadProps
begin

text \<open>
  The properties of message queues: the box keeps its messages in order as long as no message
  is more urgent than the first, what a receiver gets, and how \<open>mq_open\<close> fails.
\<close>

section \<open>The box\<close>

text \<open>A box whose array is allocated, and the messages in it.\<close>

definition box_ok :: "queue_d \<Rightarrow> mess_t list \<Rightarrow> bool" where
  "box_ok Q arr \<longleftrightarrow> messArray (mBox Q) = Live arr \<and> length arr = mq_maxmsg (q_attr Q) \<and>
     mIdxIn (mBox Q) < mq_maxmsg (q_attr Q) \<and> mIdxOut (mBox Q) < mq_maxmsg (q_attr Q)"

definition box_messages :: "queue_d \<Rightarrow> mess_t list \<Rightarrow> mess_t list" where
  "box_messages Q arr = map (\<lambda>p. arr ! p) (box_positions Q)"

definition in_order :: "mess_t list \<Rightarrow> bool" where
  "in_order ms \<longleftrightarrow> sorted (map mess_order ms)"

lemma in_order_comp: "in_order ms \<longleftrightarrow> sorted_wrt (\<lambda>x y. compMess x y \<le> 0) ms"
  by (simp add: in_order_def sorted_map compMess_iff)

lemma length_box [simp]: "length (box_positions Q) = NUMB_MESS Q" "length (box_messages Q arr) = NUMB_MESS Q"
  by (simp_all add: box_positions_def box_messages_def)

lemma NUMB_MESS_less: "box_ok Q arr \<Longrightarrow> NUMB_MESS Q < mq_maxmsg (q_attr Q)"
  by (auto simp: box_ok_def NUMB_MESS_def Let_def)

lemma box_positions_less: "box_ok Q arr \<Longrightarrow> p \<in> set (box_positions Q) \<Longrightarrow> p < length arr"
  by (auto simp: box_ok_def box_positions_def)

lemma box_positions_straight:
  assumes "box_ok Q arr" "mIdxOut (mBox Q) \<le> mIdxIn (mBox Q)"
  shows "box_positions Q = [mIdxOut (mBox Q)..<mIdxIn (mBox Q)]"
    "box_messages Q arr = take (NUMB_MESS Q) (drop (mIdxOut (mBox Q)) arr)"
proof -
  show p: "box_positions Q = [mIdxOut (mBox Q)..<mIdxIn (mBox Q)]"
    by (rule nth_equalityI) (use assms in \<open>auto simp: box_positions_def box_ok_def NUMB_MESS_def Let_def intro!: mod_less\<close>)
  show "box_messages Q arr = take (NUMB_MESS Q) (drop (mIdxOut (mBox Q)) arr)"
    unfolding box_messages_def p
    by (rule nth_equalityI) (use assms in \<open>auto simp: box_ok_def NUMB_MESS_def Let_def\<close>)
qed

lemma add_mod_inj:
  fixes n :: nat
  assumes "i < n" "j < n" "(a + i) mod n = (a + j) mod n"
  shows "i = j"
proof -
  have *: "i = j" if "i \<le> j" "j < n" "(a + j) mod n = (a + i) mod n" for i j
  proof -
    have "n dvd j - i" using that mod_eq_dvd_iff_nat [of "a + i" "a + j" n] by simp
    moreover have "j - i < n" using that(2) by simp
    ultimately have "j - i = 0" using nat_dvd_not_less by blast
    then show ?thesis using that(1) by simp
  qed
  show ?thesis using * [of i j] * [of j i] assms by (cases "i \<le> j") auto
qed

lemma distinct_positions:
  assumes "box_ok Q arr"
  shows "distinct (box_positions Q)"
proof -
  have "inj_on (\<lambda>j. (mIdxOut (mBox Q) + j) mod mq_maxmsg (q_attr Q)) {0..<NUMB_MESS Q}"
    by (rule inj_onI, rule add_mod_inj) (use NUMB_MESS_less [OF assms] in auto)
  then show ?thesis by (simp add: box_positions_def distinct_map)
qed

text \<open>Copying in puts the messages at the positions.\<close>

lemma length_copy_in [simp]: "length (copy_in ps ms arr) = length arr"
  by (induction ps ms arr rule: copy_in.induct) simp_all

lemma copy_in_other: "p \<notin> set ps \<Longrightarrow> copy_in ps ms arr ! p = arr ! p"
  by (induction ps ms arr rule: copy_in.induct) (auto simp: nth_list_update)

lemma copy_in_out:
  "distinct ps \<Longrightarrow> length ms = length ps \<Longrightarrow> \<forall>p \<in> set ps. p < length arr \<Longrightarrow>
    map (\<lambda>p. copy_in ps ms arr ! p) ps = ms"
proof (induction ps ms arr rule: copy_in.induct)
  case (1 p ps m ms arr)
  then show ?case by (simp add: copy_in_other)
qed auto

lemma range_mset:
  assumes "mset ys = mset xs" "take b ys = take b xs" "drop (b + n) ys = drop (b + n) xs"
  shows "mset (take n (drop b ys)) = mset (take n (drop b xs))"
proof -
  have split: "zs = take b zs @ take n (drop b zs) @ drop (b + n) zs" for zs :: "'a list"
    by (metis append_take_drop_id drop_drop add.commute)
  have "mset (take b xs) + mset (take n (drop b ys)) + mset (drop (b + n) xs) =
      mset (take b xs) + mset (take n (drop b xs)) + mset (drop (b + n) xs)"
    using assms(1) split [of ys] split [of xs] assms(2,3) by (metis mset_append add.assoc)
  then show ?thesis by simp
qed

section \<open>Sorting the box\<close>

lemma SIZEOF_MessT_fits: "SIZEOF_MessT \<le> MAX_SORT_ELEMENT_SIZE"
  by (simp add: SIZEOF_MessT_def MAX_SORT_ELEMENT_SIZE_def)

definition with_array :: "mess_t list \<Rightarrow> queue_d \<Rightarrow> queue_d" where
  "with_array arr Q = Q\<lparr>mBox := (mBox Q)\<lparr>messArray := Live arr\<rparr>\<rparr>"

lemma with_array_sel [simp]:
  "NUMB_MESS (with_array arr Q) = NUMB_MESS Q" "box_positions (with_array arr Q) = box_positions Q"
  "box_messages (with_array arr Q) = box_messages Q" "q_attr (with_array arr Q) = q_attr Q"
  "mIdxIn (mBox (with_array arr Q)) = mIdxIn (mBox Q)" "mIdxOut (mBox (with_array arr Q)) = mIdxOut (mBox Q)"
  "q_sem (with_array arr Q) = q_sem Q"
  by (simp_all add: with_array_def NUMB_MESS_def box_positions_def box_messages_def fun_eq_iff Let_def)

text \<open>A box whose first message is the most urgent is sorted.\<close>

lemma sortByPrio_ok:
  assumes ok: "box_ok Q arr" and m: mt
    and first: "\<forall>x \<in> set (box_messages Q arr). mess_order (hd (box_messages Q arr)) \<le> mess_order x"
  shows "\<exists>arr' d. sortByPrio mt cur Q = Inr (with_array arr' Q, d) \<and> box_ok (with_array arr' Q) arr' \<and>
    in_order (box_messages Q arr') \<and> mset (box_messages Q arr') = mset (box_messages Q arr) \<and>
    (\<forall>i < length arr. i \<notin> set (box_positions Q) \<longrightarrow> arr' ! i = arr ! i)"
proof -
  let ?n = "NUMB_MESS Q" and ?b = "mIdxOut (mBox Q)"
  have arr: "messArray (mBox Q) = Live arr" using ok by (simp add: box_ok_def)
  have first': "compMess (box_messages Q arr ! 0) (box_messages Q arr ! j) \<le> 0" if "j < ?n" for j
  proof -
    have "box_messages Q arr \<noteq> []" using that by (metis length_box(2) list.size(3) not_less_zero)
    then show ?thesis using first that by (simp add: compMess_iff hd_conv_nth)
  qed
  have ok': "box_ok (with_array arr' Q) arr'" if "length arr' = length arr" for arr'
    using ok that by (simp add: box_ok_def with_array_def)
  show ?thesis
  proof (cases "?b \<le> mIdxIn (mBox Q)")
    case True
    note st = box_positions_straight [OF ok True]
    have bn: "?b + ?n \<le> length arr" using ok True by (auto simp: box_ok_def NUMB_MESS_def Let_def)
    have sent: "compMess (arr ! ?b) (arr ! k) \<le> 0" if "?b \<le> k" "k < ?b + ?n" for k
      using first' [of "k - ?b"] that bn by (simp add: st(2))
    then obtain arr' d where q: "c_qsort SIZEOF_MessT compMess arr ?b ?n cur = Inr (arr', d)" "mset arr' = mset arr"
      "take ?b arr' = take ?b arr" "drop (?b + ?n) arr' = drop (?b + ?n) arr"
      "sorted_wrt (\<lambda>x y. compMess x y \<le> 0) (take ?n (drop ?b arr'))"
      using mess.c_qsort_ok [OF bn order_refl SIZEOF_MessT_fits, of cur] by blast
    have "length arr' = length arr" using q(2) by (rule mset_eq_length)
    note o = ok' [OF this]
    have "arr' ! i = arr ! i" if "i < length arr" "i \<notin> set (box_positions Q)" for i
    proof (cases "i < ?b")
      case True
      then show ?thesis using nth_take [of i ?b arr'] nth_take [of i ?b arr] q(3) by simp
    next
      case False
      then have "?b + ?n \<le> i" using that(2) st(1) True by (auto simp: NUMB_MESS_def Let_def)
      then show ?thesis using nth_drop [of "?b + ?n" arr' "i - (?b + ?n)"] nth_drop [of "?b + ?n" arr "i - (?b + ?n)"] q(4) bn \<open>length arr' = length arr\<close>
        by simp
    qed
    moreover have "box_messages Q arr' = take ?n (drop ?b arr')" using box_positions_straight(2) [OF o] True by simp
    ultimately show ?thesis using o q(1,5) range_mset [OF q(2-4)] True arr
      by (intro exI [of _ arr'] exI [of _ d]) (simp add: sortByPrio_def with_array_def in_order_comp st(2))
  next
    case False
    let ?t = "box_messages Q arr"
    have "0 + ?n \<le> length ?t" by simp
    moreover have "\<forall>k. 0 \<le> k \<and> k < 0 + ?n \<longrightarrow> compMess (?t ! 0) (?t ! k) \<le> 0" using first' by simp
    ultimately obtain t' d where q: "c_qsort SIZEOF_MessT compMess ?t 0 ?n cur = Inr (t', d)" "mset t' = mset ?t"
      "sorted_wrt (\<lambda>x y. compMess x y \<le> 0) (take ?n (drop 0 t'))"
      using mess.c_qsort_ok [OF _ order_refl SIZEOF_MessT_fits, of 0 ?n ?t cur] by blast
    have l: "length t' = ?n" using mset_eq_length [OF q(2)] by simp
    let ?a = "copy_in (box_positions Q) t' arr"
    have b: "box_messages Q ?a = t'"
      unfolding box_messages_def using box_positions_less [OF ok] l
      by (intro copy_in_out distinct_positions [OF ok]) auto
    have "copy_out (box_positions Q) arr = Inr ?t"
      using box_positions_less [OF ok] by (simp add: copy_out_def box_messages_def)
    then show ?thesis using ok' [of ?a] q False arr m l b
      by (intro exI [of _ ?a] exI [of _ d]) (simp add: sortByPrio_def with_array_def in_order_comp copy_in_other)
  qed
qed

text \<open>A box whose last message alone is the most urgent, with nothing below it in memory.\<close>

lemma sortByPrio_falls:
  assumes ok: "box_ok Q arr" and m: mt and two: "2 \<le> NUMB_MESS Q"
    and low: "mIdxOut (mBox Q) = 0 \<or> mIdxIn (mBox Q) < mIdxOut (mBox Q)"
    and last: "\<forall>k < NUMB_MESS Q - 1. mess_order (box_messages Q arr ! (NUMB_MESS Q - 1)) < mess_order (box_messages Q arr ! k)"
  shows "sortByPrio mt cur Q = Inl Out_of_bounds"
proof -
  let ?n = "NUMB_MESS Q" and ?t = "box_messages Q arr"
  have arr: "messArray (mBox Q) = Live arr" using ok by (simp add: box_ok_def)
  show ?thesis
  proof (cases "mIdxOut (mBox Q) = 0")
    case True
    then have t: "?t = take ?n arr" using box_positions_straight(2) [OF ok] by simp
    have n: "?n \<le> length arr" using NUMB_MESS_less [OF ok] ok by (simp add: box_ok_def)
    have "c_qsort SIZEOF_MessT compMess arr 0 ?n cur = Inl Out_of_bounds"
      by (rule c_qsort_falls [OF two n]) (use last two in \<open>simp add: t compMess_iff\<close>)
    then show ?thesis using True arr by (simp add: sortByPrio_def)
  next
    case False
    then have w: "\<not> mIdxOut (mBox Q) \<le> mIdxIn (mBox Q)" using low by simp
    have "c_qsort SIZEOF_MessT compMess ?t 0 ?n cur = Inl Out_of_bounds"
      by (rule c_qsort_falls [OF two]) (use last in \<open>simp_all add: compMess_iff\<close>)
    moreover have "copy_out (box_positions Q) arr = Inr ?t"
      using box_positions_less [OF ok] by (simp add: copy_out_def box_messages_def)
    ultimately show ?thesis using w arr m by (simp add: sortByPrio_def)
  qed
qed

section \<open>Sending and receiving in the box\<close>

text \<open>The box behind the \<^verbatim>\<open>memcpy\<close>: the message is in, the in index has moved.\<close>

definition appended :: "mess_t \<Rightarrow> mess_t list \<Rightarrow> queue_d \<Rightarrow> queue_d" where
  "appended m arr Q = Q\<lparr>mBox := (mBox Q)\<lparr>messArray := Live (arr[mIdxIn (mBox Q) := m]),
     lastInOrder := lastInOrder (mBox Q) + 1, mIdxIn := (mIdxIn (mBox Q) + 1) mod mq_maxmsg (q_attr Q)\<rparr>\<rparr>"

lemma appended_sel [simp]:
  "q_attr (appended m arr Q) = q_attr Q" "mIdxOut (mBox (appended m arr Q)) = mIdxOut (mBox Q)"
  "messArray (mBox (appended m arr Q)) = Live (arr[mIdxIn (mBox Q) := m])"
  "mIdxIn (mBox (appended m arr Q)) = (mIdxIn (mBox Q) + 1) mod mq_maxmsg (q_attr Q)"
  by (simp_all add: appended_def)

lemma appended_numb:
  assumes ok: "box_ok Q arr" and room: "NUMB_MESS Q + 1 < mq_maxmsg (q_attr Q)"
  shows "NUMB_MESS (appended m arr Q) = NUMB_MESS Q + 1"
    "(mIdxOut (mBox Q) + NUMB_MESS Q) mod mq_maxmsg (q_attr Q) = mIdxIn (mBox Q)"
proof -
  let ?i = "mIdxIn (mBox Q)" and ?o = "mIdxOut (mBox Q)" and ?m = "mq_maxmsg (q_attr Q)"
  have b: "?i < ?m" "?o < ?m" using ok by (simp_all add: box_ok_def)
  show "(?o + NUMB_MESS Q) mod ?m = ?i"
    using b by (auto simp: NUMB_MESS_def Let_def)
  show "NUMB_MESS (appended m arr Q) = NUMB_MESS Q + 1"
  proof (cases "?i + 1 = ?m")
    case True
    then have "?o \<noteq> 0" using b room by (auto simp: NUMB_MESS_def Let_def)
    then show ?thesis using True b by (simp add: NUMB_MESS_def Let_def)
  next
    case False
    then have "?i + 1 < ?m" using b by simp
    moreover have "?i + 1 \<noteq> ?o" using b room by (auto simp: NUMB_MESS_def Let_def)
    ultimately show ?thesis using b by (auto simp: NUMB_MESS_def Let_def)
  qed
qed

lemma appended_ok:
  assumes ok: "box_ok Q arr" and room: "NUMB_MESS Q + 1 < mq_maxmsg (q_attr Q)"
  shows "box_ok (appended m arr Q) (arr[mIdxIn (mBox Q) := m])"
    "box_messages (appended m arr Q) (arr[mIdxIn (mBox Q) := m]) = box_messages Q arr @ [m]"
proof -
  let ?i = "mIdxIn (mBox Q)" and ?A = "appended m arr Q"
  show o: "box_ok ?A (arr[?i := m])" using ok by (simp add: box_ok_def)
  have p: "box_positions ?A = box_positions Q @ [?i]"
    using appended_numb [OF ok room] by (simp add: box_positions_def)
  have "?i \<notin> set (box_positions Q)" using distinct_positions [OF o] p by simp
  then have "map (\<lambda>p. arr[?i := m] ! p) (box_positions Q) = map (\<lambda>p. arr ! p) (box_positions Q)"
    by (intro map_cong refl) (metis nth_list_update_neq)
  then show "box_messages ?A (arr[?i := m]) = box_messages Q arr @ [m]"
    using ok by (simp add: box_messages_def p box_ok_def)
qed

text \<open>The message that a slot with the buffer \<open>buf\<close> is filled with.\<close>

definition filled :: "mess_t \<Rightarrow> 8 word list \<Rightarrow> 8 word list \<Rightarrow> nat \<Rightarrow> OrderT \<Rightarrow> mess_t" where
  "filled old buf bytes len ord = old\<lparr>mbuffer := Live (take len bytes @ drop len buf), msgSz := len, mess_order := ord\<rparr>"

definition fits :: "mess_t \<Rightarrow> 8 word list \<Rightarrow> 8 word list \<Rightarrow> nat \<Rightarrow> bool" where
  "fits old buf bytes len \<longleftrightarrow> mbuffer old = Live buf \<and> len \<le> length buf \<and> len \<le> length bytes"

lemma put_mess_appends:
  assumes ok: "box_ok Q arr" and f: "fits (arr ! mIdxIn (mBox Q)) buf bytes len"
  shows "put_mess mt cur bytes len prio now Q = sortByPrio mt cur
    (appended (filled (arr ! mIdxIn (mBox Q)) buf bytes len (OrderT now prio (lastInOrder (mBox Q)))) arr Q)"
proof -
  have "mIdxIn (mBox Q) < length arr" "messArray (mBox Q) = Live arr" "mq_maxmsg (q_attr Q) \<noteq> 0"
    using ok by (auto simp: box_ok_def)
  then show ?thesis using f
    by (simp add: put_mess_def fill_mess_def fits_def ring_next_def filled_def appended_def Let_def)
qed

lemma put_mess_run:
  assumes ok: "box_ok Q arr" and room: "NUMB_MESS Q + 1 < mq_maxmsg (q_attr Q)" and ord: "in_order (box_messages Q arr)"
    and f: "fits (arr ! mIdxIn (mBox Q)) buf bytes len" and mt
    and m: "m = filled (arr ! mIdxIn (mBox Q)) buf bytes len (OrderT now prio (lastInOrder (mBox Q)))"
    and first: "box_messages Q arr = [] \<or> mess_order (hd (box_messages Q arr)) \<le> mess_order m"
  shows "\<exists>arr' d. put_mess mt cur bytes len prio now Q = Inr (with_array arr' (appended m arr Q), d) \<and>
    box_ok (with_array arr' (appended m arr Q)) arr' \<and> in_order (box_messages (appended m arr Q) arr') \<and>
    mset (box_messages (appended m arr Q) arr') = add_mset m (mset (box_messages Q arr)) \<and>
    (\<forall>i < length arr. i \<notin> set (box_positions (appended m arr Q)) \<longrightarrow> arr' ! i = arr ! i)"
proof -
  let ?A = "appended m arr Q" and ?arr = "arr[mIdxIn (mBox Q) := m]"
  note a = appended_ok [OF ok room, of m]
  have "mess_order (hd (box_messages Q arr @ [m])) \<le> mess_order x" if "x \<in> set (box_messages Q arr @ [m])" for x
    using that first ord by (cases "box_messages Q arr") (auto simp: in_order_def)
  then have "\<forall>x \<in> set (box_messages ?A ?arr). mess_order (hd (box_messages ?A ?arr)) \<le> mess_order x"
    by (simp add: a(2))
  from sortByPrio_ok [OF a(1) \<open>mt\<close> this, of cur] obtain arr' d where
    s: "sortByPrio mt cur ?A = Inr (with_array arr' ?A, d)" "box_ok (with_array arr' ?A) arr'"
      "in_order (box_messages ?A arr')" "mset (box_messages ?A arr') = mset (box_messages ?A ?arr)"
      "\<forall>i < length ?arr. i \<notin> set (box_positions ?A) \<longrightarrow> arr' ! i = ?arr ! i" by blast
  have "mIdxIn (mBox Q) \<in> set (box_positions ?A)"
    using appended_numb(1) [OF ok room, of m] appended_numb(2) [OF ok room] by (simp add: box_positions_def)
  then have "arr' ! i = arr ! i" if "i < length arr" "i \<notin> set (box_positions ?A)" for i
    using s(5) that by (metis length_list_update nth_list_update_neq)
  then show ?thesis using put_mess_appends [OF ok f] m a(2) s(1-4) by auto
qed

lemma put_mess_ok:
  assumes ok: "box_ok Q arr" and room: "NUMB_MESS Q + 1 < mq_maxmsg (q_attr Q)" and ord: "in_order (box_messages Q arr)"
    and f: "fits (arr ! mIdxIn (mBox Q)) buf bytes len" and mt
    and m: "m = filled (arr ! mIdxIn (mBox Q)) buf bytes len (OrderT now prio (lastInOrder (mBox Q)))"
    and first: "box_messages Q arr = [] \<or> mess_order (hd (box_messages Q arr)) \<le> mess_order m"
  shows "\<exists>Q' arr' d. put_mess mt cur bytes len prio now Q = Inr (Q', d) \<and> box_ok Q' arr' \<and>
    in_order (box_messages Q' arr') \<and> mset (box_messages Q' arr') = add_mset m (mset (box_messages Q arr)) \<and>
    mIdxIn (mBox Q') = (mIdxIn (mBox Q) + 1) mod mq_maxmsg (q_attr Q) \<and> mIdxOut (mBox Q') = mIdxOut (mBox Q) \<and>
    q_attr Q' = q_attr Q"
proof -
  obtain arr' d where "put_mess mt cur bytes len prio now Q = Inr (with_array arr' (appended m arr Q), d)"
    "box_ok (with_array arr' (appended m arr Q)) arr'" "in_order (box_messages (appended m arr Q) arr')"
    "mset (box_messages (appended m arr Q) arr') = add_mset m (mset (box_messages Q arr))"
    using put_mess_run [OF ok room ord f \<open>mt\<close> m first, of cur] by blast
  then show ?thesis by (intro exI [of _ "with_array arr' (appended m arr Q)"] exI [of _ arr'] exI [of _ d]) simp
qed

lemma put_mess_falls:
  assumes ok: "box_ok Q arr" and room: "NUMB_MESS Q + 1 < mq_maxmsg (q_attr Q)" and ord: "in_order (box_messages Q arr)"
    and f: "fits (arr ! mIdxIn (mBox Q)) buf bytes len" and mt
    and m: "m = filled (arr ! mIdxIn (mBox Q)) buf bytes len (OrderT now prio (lastInOrder (mBox Q)))"
    and first: "box_messages Q arr \<noteq> []" "mess_order m < mess_order (hd (box_messages Q arr))"
    and low: "mIdxOut (mBox Q) = 0 \<or> (mIdxIn (mBox Q) + 1) mod mq_maxmsg (q_attr Q) < mIdxOut (mBox Q)"
  shows "put_mess mt cur bytes len prio now Q = Inl Out_of_bounds"
proof -
  let ?A = "appended m arr Q" and ?arr = "arr[mIdxIn (mBox Q) := m]" and ?ms = "box_messages Q arr"
  note a = appended_ok [OF ok room, of m] and n = appended_numb(1) [OF ok room, of m]
  have "mess_order m < mess_order (?ms ! k)" if "k < NUMB_MESS Q" for k
  proof -
    have "?ms ! k \<in> set ?ms" using that by simp
    then have "mess_order (hd ?ms) \<le> mess_order (?ms ! k)"
      using ord by (cases ?ms) (auto simp: in_order_def)
    then show ?thesis using first(2) by (rule less_le_trans [rotated])
  qed
  then have "\<forall>k < NUMB_MESS ?A - 1. mess_order (box_messages ?A ?arr ! (NUMB_MESS ?A - 1)) < mess_order (box_messages ?A ?arr ! k)"
    by (simp add: a(2) n nth_append)
  moreover have "2 \<le> NUMB_MESS ?A"
    using n first(1) length_box(2) [of Q arr] by (cases "box_messages Q arr") auto
  ultimately have "sortByPrio mt cur ?A = Inl Out_of_bounds"
    using low by (intro sortByPrio_falls [OF a(1) \<open>mt\<close>]) simp_all
  then show ?thesis using put_mess_appends [OF ok f] m by simp
qed

lemma take_mess_first:
  assumes ok: "box_ok Q arr" and some: "0 < NUMB_MESS Q"
    and buf: "mbuffer (hd (box_messages Q arr)) = Live buf" "msgSz (hd (box_messages Q arr)) \<le> length buf"
  shows "\<exists>Q'. take_mess Q = Inr (take (msgSz (hd (box_messages Q arr))) buf, o_prio (mess_order (arr ! mIdxIn (mBox Q))), Q') \<and>
    box_ok Q' arr \<and> box_messages Q' arr = tl (box_messages Q arr)"
proof -
  let ?o = "mIdxOut (mBox Q)" and ?m = "mq_maxmsg (q_attr Q)"
  let ?Q = "Q\<lparr>mBox := (mBox Q)\<lparr>mIdxOut := (?o + 1) mod ?m\<rparr>\<rparr>"
  have b: "messArray (mBox Q) = Live arr" "length arr = ?m" "?o < ?m" "mIdxIn (mBox Q) < ?m"
    using ok by (simp_all add: box_ok_def)
  have n: "NUMB_MESS ?Q = NUMB_MESS Q - 1"
    using some b by (cases "?o + 1 = ?m") (auto simp: NUMB_MESS_def Let_def)
  have u: "[0..<NUMB_MESS Q] = 0 # map Suc [0..<NUMB_MESS Q - 1]"
    using some by (simp add: map_Suc_upt upt_conv_Cons)
  have "box_positions Q = ?o # box_positions ?Q"
    unfolding box_positions_def n u using b(3) by (simp add: mod_simps)
  then have m: "box_messages Q arr = (arr ! ?o) # box_messages ?Q arr" by (simp add: box_messages_def)
  then have "take_mess Q = Inr (take (msgSz (hd (box_messages Q arr))) buf, o_prio (mess_order (arr ! mIdxIn (mBox Q))), ?Q)"
    using b buf by (simp add: take_mess_def ring_next_def Let_def)
  moreover have "box_ok ?Q arr" using ok by (simp add: box_ok_def)
  ultimately show ?thesis using m by (intro exI [of _ ?Q]) simp
qed

section \<open>A demonstration box\<close>

text \<open>A fresh box of \<open>n\<close> messages of 8 bytes; then with one message in it.\<close>

definition blank_mess :: mess_t where
  "blank_mess = \<lparr>mbuffer = Live (replicate 8 0), msgSz = 0, mess_order = OrderT 0 0 0\<rparr>"

definition demo_mess :: "OrderT \<Rightarrow> mess_t" where
  "demo_mess ord = blank_mess\<lparr>msgSz := 2, mess_order := ord\<rparr>"

lemma demo_mess_order [simp]: "mess_order (demo_mess ord) = ord"
  by (simp add: demo_mess_def)

definition demo_array :: "mess_t list \<Rightarrow> mess_t list" where
  "demo_array ms = ms @ replicate (5 - length ms) blank_mess"

definition demo_queue :: "mess_t list \<Rightarrow> queue_d" where
  "demo_queue ms = \<lparr>q_taken = 1, q_name = ''/q'', q_attr = \<lparr>mq_msgsize = 8, mq_maxmsg = 5\<rparr>,
     mBox = \<lparr>mIdxIn = length ms, mIdxOut = 0, messArray = Live (demo_array ms), lastInOrder = of_nat (length ms)\<rparr>, q_sem = 0\<rparr>"

lemma demo_queue_sel [simp]:
  "mIdxIn (mBox (demo_queue ms)) = length ms" "mIdxOut (mBox (demo_queue ms)) = 0" "NUMB_MESS (demo_queue ms) = length ms"
  "q_attr (demo_queue ms) = \<lparr>mq_msgsize = 8, mq_maxmsg = 5\<rparr>" "lastInOrder (mBox (demo_queue ms)) = of_nat (length ms)"
  by (simp_all add: demo_queue_def NUMB_MESS_def)

lemma demo_queue_ok:
  assumes "length ms < 5"
  shows "box_ok (demo_queue ms) (demo_array ms)" "box_messages (demo_queue ms) (demo_array ms) = ms"
proof -
  show o: "box_ok (demo_queue ms) (demo_array ms)"
    using assms by (simp add: box_ok_def) (simp add: demo_queue_def demo_array_def)
  show "box_messages (demo_queue ms) (demo_array ms) = ms"
    using box_positions_straight(2) [OF o] by (simp add: demo_array_def)
qed

lemma demo_fits: "length ms < 5 \<Longrightarrow> length bytes = 2 \<Longrightarrow> fits (demo_array ms ! length ms) (replicate 8 0) bytes 2"
  by (simp add: fits_def demo_array_def nth_append blank_mess_def)

section \<open>Messages\<close>

text \<open>
  C20. Storing a message in a box that is in order and has room for it gives a box in order with
  that message added, at whatever position the ring is, as long as the message does not come
  before the first one. A message that is more urgent than all in the box makes
  \<open>sortByPrio\<close> read below the array, when the box lies at its begin or wraps around.
\<close>

theorem put_mess_keeps_order:
  assumes ok: "box_ok Q arr" and room: "NUMB_MESS Q + 1 < mq_maxmsg (q_attr Q)" and ord: "in_order (box_messages Q arr)"
    and f: "fits (arr ! mIdxIn (mBox Q)) buf bytes len" and mt: mt
    and m: "m = filled (arr ! mIdxIn (mBox Q)) buf bytes len (OrderT now prio (lastInOrder (mBox Q)))"
  shows "if box_messages Q arr = [] \<or> mess_order (hd (box_messages Q arr)) \<le> mess_order m
    then \<exists>Q' arr' d. put_mess mt cur bytes len prio now Q = Inr (Q', d) \<and> box_ok Q' arr' \<and>
      in_order (box_messages Q' arr') \<and> mset (box_messages Q' arr') = add_mset m (mset (box_messages Q arr))
    else mIdxOut (mBox Q) = 0 \<or> (mIdxIn (mBox Q) + 1) mod mq_maxmsg (q_attr Q) < mIdxOut (mBox Q) \<longrightarrow>
      put_mess mt cur bytes len prio now Q = Inl Out_of_bounds"
proof (cases "box_messages Q arr = [] \<or> mess_order (hd (box_messages Q arr)) \<le> mess_order m")
  case True
  show ?thesis unfolding if_P [OF True] using put_mess_ok [OF ok room ord f mt m True, of cur] by blast
next
  case False
  show ?thesis unfolding if_not_P [OF False]
    using put_mess_falls [OF ok room ord f mt m, of cur] False by (auto simp: not_le)
qed

theorem put_mess_keeps_order_witness:
  "(\<exists>Q' arr' d. put_mess True 0 [1, 2] 2 5 9 (demo_queue [demo_mess (OrderT 7 5 0)]) = Inr (Q', d) \<and>
      map mess_order (box_messages Q' arr') = [OrderT 7 5 0, OrderT 9 5 1]) \<and>
    put_mess True 0 [1, 2] 2 6 9 (demo_queue [demo_mess (OrderT 7 5 0)]) = Inl Out_of_bounds"
proof -
  let ?ms = "[demo_mess (OrderT 7 5 0)]"
  let ?Q = "demo_queue ?ms" and ?arr = "demo_array ?ms"
  have l: "length ?ms < 5" by simp
  note q = demo_queue_ok [OF l]
  have room: "NUMB_MESS ?Q + 1 < mq_maxmsg (q_attr ?Q)" by simp
  have ord: "in_order (box_messages ?Q ?arr)" by (simp add: q in_order_def)
  have f: "fits (?arr ! mIdxIn (mBox ?Q)) (replicate 8 0) [1, 2] 2" using demo_fits [OF l, of "[1, 2]"] by simp
  note t = put_mess_keeps_order [OF q(1) room ord f TrueI, OF refl]
  have o: "OrderT 7 5 0 \<le> OrderT 9 5 1" "\<not> OrderT 7 5 0 \<le> OrderT 9 6 1"
    by (simp_all add: less_eq_OrderT_def compOrder_def)
  obtain Q' arr' d where p: "put_mess True 0 [1, 2] 2 5 9 ?Q = Inr (Q', d)" "in_order (box_messages Q' arr')"
    "mset (box_messages Q' arr') = add_mset (filled (?arr ! 1) (replicate 8 0) [1, 2] 2 (OrderT 9 5 1)) (mset ?ms)"
  proof -
    have c: "mess_order (hd (box_messages ?Q ?arr)) \<le> mess_order (filled (?arr ! mIdxIn (mBox ?Q)) (replicate 8 0) [1, 2] 2
        (OrderT 9 5 (lastInOrder (mBox ?Q))))"
      using o(1) by (simp add: q filled_def)
    show ?thesis using t [of 9 5 0, unfolded if_P [OF disjI2 [OF c]]] that by (auto simp: q)
  qed
  have "mset (map mess_order (box_messages Q' arr')) = {#OrderT 7 5 0, OrderT 9 5 1#}"
    unfolding mset_map p(3) by (simp add: filled_def)
  also have "\<dots> = mset [OrderT 7 5 0, OrderT 9 5 1]" by simp
  finally have "map mess_order (box_messages Q' arr') = [OrderT 7 5 0, OrderT 9 5 1]"
    using p(2) o(1) properties_for_sort [of "[OrderT 7 5 0, OrderT 9 5 1]"] properties_for_sort
    by (metis in_order_def sorted2_simps(2) sorted1)
  moreover have "put_mess True 0 [1, 2] 2 6 9 ?Q = Inl Out_of_bounds"
    using t [of 9 6 0] o(2) by (simp add: q filled_def)
  ultimately show ?thesis using p(1) by metis
qed

text \<open>
  \<open>mq_receive\<close> hands out the bytes of the first message of the box and leaves the others,
  in their order; but the priority it reports is that of the slot the next message will be
  stored in, not that of the message.
\<close>

theorem take_mess_takes_first:
  assumes "box_ok Q arr" "0 < NUMB_MESS Q" "mbuffer (hd (box_messages Q arr)) = Live buf"
    and "msgSz (hd (box_messages Q arr)) \<le> length buf"
  shows "\<exists>Q'. take_mess Q = Inr (take (msgSz (hd (box_messages Q arr))) buf, o_prio (mess_order (arr ! mIdxIn (mBox Q))), Q') \<and>
    box_ok Q' arr \<and> box_messages Q' arr = tl (box_messages Q arr)"
  by (rule take_mess_first [OF assms])

theorem take_mess_takes_first_witness:
  "\<exists>Q'. take_mess (demo_queue [demo_mess (OrderT 7 5 0)]) = Inr ([0, 0], 0, Q') \<and> box_messages Q' (demo_array [demo_mess (OrderT 7 5 0)]) = []"
proof -
  let ?ms = "[demo_mess (OrderT 7 5 0)]"
  have l: "length ?ms < 5" by simp
  note q = demo_queue_ok [OF l]
  have "take 2 (replicate 8 (0 :: 8 word)) = [0, 0]" by (simp add: eval_nat_numeral)
  then show ?thesis
    using take_mess_takes_first [OF q(1), of "replicate 8 0"]
    by (simp add: q) (auto simp: demo_mess_def blank_mess_def demo_array_def)
qed

text \<open>
  The time of a message is the clock read as a signed number, so a message sent when the
  clock has passed \<open>2 ^ 31\<close> microseconds comes before every message of its priority that was sent
  earlier: sent behind such a message, to a box at the begin of its array, it makes \<open>mq_send\<close> read
  outside the array.
\<close>

theorem mess_time_wraps:
  assumes ok: "box_ok Q arr" and room: "NUMB_MESS Q + 1 < mq_maxmsg (q_attr Q)" and ord: "in_order (box_messages Q arr)"
    and f: "fits (arr ! mIdxIn (mBox Q)) buf bytes len" and mt: mt and low: "mIdxOut (mBox Q) = 0"
    and first: "box_messages Q arr \<noteq> []" "o_prio (mess_order (hd (box_messages Q arr))) = prio"
      "o_time (mess_order (hd (box_messages Q arr))) = time_of k1"
    and wrap: "uint (clock_now k1) < 2 ^ 31" "2 ^ 31 \<le> uint (clock_now k2)"
  shows "put_mess mt cur bytes len prio (time_of k2) Q = Inl Out_of_bounds"
proof -
  let ?m = "filled (arr ! mIdxIn (mBox Q)) buf bytes len (OrderT (time_of k2) prio (lastInOrder (mBox Q)))"
  have "0 \<le> time_of k1" "time_of k2 < 0"
    using wrap sint_nonneg [of "clock_now k1"] sint_nonneg [of "clock_now k2"] by (simp_all add: time_of_def)
  then have "time_of k2 < time_of k1" by simp
  then have "mess_order ?m < mess_order (hd (box_messages Q arr))"
    using first by (cases "mess_order (hd (box_messages Q arr))") (simp add: filled_def less_OrderT_def compOrder_def)
  then show ?thesis using put_mess_falls [OF ok room ord f mt refl first(1)] low by blast
qed

theorem mess_time_wraps_witness:
  "put_mess True 0 [1, 2] 2 5 (time_of (bss0\<lparr>clock_now := 0x80000000\<rparr>)) (demo_queue [demo_mess (OrderT 7 5 0)]) =
     Inl Out_of_bounds"
proof -
  let ?ms = "[demo_mess (OrderT 7 5 0)]"
  let ?Q = "demo_queue ?ms" and ?arr = "demo_array ?ms"
  have l: "length ?ms < 5" by simp
  note q = demo_queue_ok [OF l]
  have room: "NUMB_MESS ?Q + 1 < mq_maxmsg (q_attr ?Q)" by simp
  have ord: "in_order (box_messages ?Q ?arr)" by (simp add: q in_order_def)
  have f: "fits (?arr ! mIdxIn (mBox ?Q)) (replicate 8 0) [1, 2] 2" using demo_fits [OF l, of "[1, 2]"] by simp
  show ?thesis
    by (rule mess_time_wraps [OF q(1) room ord f TrueI, of 5 "bss0\<lparr>clock_now := 7\<rparr>"])
      (simp_all add: q time_of_def)
qed

section \<open>Opening\<close>

abbreviation errno_of :: "'a kern_scheme \<Rightarrow> int" where
  "errno_of k \<equiv> t_errno (pool k (active_thread k))"

lemma set_errno_sel [simp]:
  "t_errno (pool (set_errno e k) (active_thread k)) = e" "active_thread (set_errno e k) = active_thread k" "IntFlagCntr (set_errno e k) = IntFlagCntr k"
  by (simp_all add: set_errno_def upd_tcb_def)

lemma set_errno_itc [simp]:
  "itc_array (set_errno e k) = itc_array k" "set_errno e (put_itc s q k) = put_itc s q (set_errno e k)"
  "sem_at (set_errno e k) s = sem_at k s"
  by (simp_all add: set_errno_def upd_tcb_def put_itc_def sem_at_def fun_eq_iff)

lemma set_errno_twice [simp]: "set_errno e (set_errno e' k) = set_errno e k"
  by (simp add: set_errno_def upd_tcb_def fun_eq_iff)

lemma set_errno_mq [simp]:
  "queuePool (set_errno e k) = queuePool k" "filePool (set_errno e k) = filePool k" "poolAccessSem (set_errno e k) = poolAccessSem k"
  "set_errno e (put_queue i Q k) = put_queue i Q (set_errno e k)"
  by (simp_all add: set_errno_def upd_tcb_def put_queue_def)

lemma put_queue_sel [simp]:
  "queuePool (put_queue i Q k) = (queuePool k)(i := Q)" "poolAccessSem (put_queue i Q k) = poolAccessSem k"
  "itc_array (put_queue i Q k) = itc_array k" "sem_at (put_queue i Q k) s = sem_at k s"
  "active_thread (put_queue i Q k) = active_thread k" "IntFlagCntr (put_queue i Q k) = IntFlagCntr k"
  "threadPool (put_queue i Q k) = threadPool k"
  by (simp_all add: put_queue_def sem_at_def fun_eq_iff)

lemma put_itc_mq [simp]:
  "queuePool (put_itc s q k) = queuePool k" "filePool (put_itc s q k) = filePool k" "poolAccessSem (put_itc s q k) = poolAccessSem k"
  "IntFlagCntr (put_itc s q k) = IntFlagCntr k"
  by (simp_all add: put_itc_def)

text \<open>A kernel in which the component is initialised and nobody is inside it.\<close>

definition mq_idle :: "'a mq_kern_scheme \<Rightarrow> itc_t \<Rightarrow> bool" where
  "mq_idle k p \<longleftrightarrow> IntFlagCntr k = 0 \<and> 0 \<le> o_started (onces k (mq_once k)) \<and> sem_at k (poolAccessSem k) p \<and> token p = 1 \<and>
     (\<exists>q. sem_at k (sem_once k) q \<and> 0 < token q)"

text \<open>The kernel with the pools taken by the caller, and how the caller leaves them.\<close>

abbreviation taken :: "'a mq_kern_scheme \<Rightarrow> itc_t \<Rightarrow> 'a mq_kern_scheme" where
  "taken k p \<equiv> put_itc (poolAccessSem k) (p\<lparr>token := 0\<rparr>) (set_errno 0 k)"

lemma mq_enter_idle: "mq_idle k p \<Longrightarrow> mq_enter E k = Inr (taken k p)"
  by (auto simp: mq_idle_def mq_enter_def pthread_once_over pool_wait_def sem_wait_def sm_p_token posix_rc_def)

lemma pool_post_held:
  assumes "sem_at k (poolAccessSem k) p" "token p = 0" "IntFlagCntr k = 0"
  shows "pool_post addr oth (poolAccessSem k) k = Inr (set_errno 0 (put_itc (poolAccessSem k) (p\<lparr>token := 1\<rparr>) k))"
  using assms by (simp add: pool_post_def sem_post_def sm_v_token posix_rc_def)

lemma sem_at_put_itc [simp]: "s < TK_MAX_NUM_Q \<Longrightarrow> b_type q = SEM \<Longrightarrow> sem_at (put_itc s q k) s q"
  by (simp add: sem_at_def put_itc_def)

text \<open>The search for a free slot from \<open>0\<close> finds the first.\<close>

lemma free_slot_first:
  assumes "c + j = n" "i < n" "j \<le> i" "tk i = 0" "\<forall>l < i. tk l \<noteq> 0"
  shows "free_slot c tk n j j = (i, i)"
  using assms
proof (induction c arbitrary: j)
  case 0
  then show ?case by simp
next
  case (Suc c)
  show ?case
  proof (cases "j = i")
    case True
    then show ?thesis using Suc.prems by simp
  next
    case False
    then have "j < i" "(j + 1) mod n = j + 1" using Suc.prems by simp_all
    then show ?thesis using Suc.IH [of "j + 1"] Suc.prems by simp
  qed
qed

lemma free_slot_found:
  assumes "\<exists>i < n. tk i = 0"
  obtains i where "i < n" "tk i = 0" "free_slot n tk n 0 0 = (i, i)"
proof -
  let ?i = "LEAST i. tk i = 0"
  obtain i where i: "i < n" "tk i = 0" using assms by blast
  have "?i < n" using Least_le [of "\<lambda>i. tk i = 0", OF i(2)] i(1) by simp
  moreover have "tk ?i = 0" using i(2) by (rule LeastI)
  moreover have "\<forall>l < ?i. tk l \<noteq> 0" using not_less_Least by blast
  ultimately obtain l where l: "l < n" "tk l = 0" "\<forall>m < l. tk m \<noteq> 0" by blast
  have "free_slot n tk n 0 0 = (l, l)"
    by (rule free_slot_first [OF _ l(1) _ l(2,3)]) simp_all
  then show ?thesis by (rule that [OF l(1,2)])
qed

lemma named_queue_iff:
  "named_queue nm k = None \<longleftrightarrow> (\<forall>i < NUMBER_OF_QUEUES. q_taken (queuePool k i) = 0 \<or> \<not> same_name (q_name (queuePool k i)) nm)"
  by (auto simp: named_queue_def find_None_iff)

text \<open>Such a kernel, whose queues are \<open>Qs\<close>.\<close>

definition mq_demo :: "(nat \<Rightarrow> queue_d) \<Rightarrow> mq_kern" where
  "mq_demo Qs = pth_kern.extend (pth_demo READY READY (\<lambda>_. undefined) (\<lambda>_. undefined) (\<lambda>_. undefined)
     \<lparr>onces := (\<lambda>_. \<lparr>o_done = 1, o_started = 0\<rparr>)\<rparr>)
     (mq_kern.fields Qs (\<lambda>_. \<lparr>f_taken = 0, f_tId = 0, f_oflags = 0, f_qId = 0\<rparr>) 1 0 (0, 0))"

lemma mq_demo_sel [simp]:
  "queuePool (mq_demo Qs) = Qs" "poolAccessSem (mq_demo Qs) = 1" "mq_once (mq_demo Qs) = 0" "sem_once (mq_demo Qs) = 0"
  "onces (mq_demo Qs) c = \<lparr>o_done = 1, o_started = 0\<rparr>" "IntFlagCntr (mq_demo Qs) = 0"
  "itc_array (mq_demo Qs) i = Some (blank_itc\<lparr>token := 1\<rparr>)"
  by (simp_all add: mq_demo_def pth_kern.extend_def mq_kern.fields_def pth_demo_def itc_kern.extend_def pth_kern.fields_def
      itc_demo_def kern.extend_def itc_kern.fields_def demo_def bss0_def)

lemma mq_demo_idle: "mq_idle (mq_demo Qs) (blank_itc\<lparr>token := 1\<rparr>)"
  by (simp add: mq_idle_def sem_at_def TK_MAX_NUM_Q_def)

definition demo_env :: "unit mq_env" where
  "demo_env = \<lparr>env_others = nobody, env_addr = id, env_sem = None, env_ring = True\<rparr>"

text \<open>
  How \<open>mq_open\<close> fails. A name that is too long: the error number is lost, as
  \<open>sem_post\<close> overwrites it. A queue to be created that exists: \<^verbatim>\<open>EEXIST\<close>, but a free slot of the
  pool stays taken. No attributes: \<^verbatim>\<open>EINVAL\<close>, a slot stays taken, and the pools stay locked, so
  that the next call, of any thread, waits for ever.
\<close>

theorem mq_open_errors:
  assumes idle: "mq_idle k p" and slot: "\<exists>i < NUMBER_OF_QUEUES. q_taken (queuePool k i) = 0"
    and creat: "oflags AND O_CREAT \<noteq> 0"
  shows "(QNAME_LEN < length nm \<longrightarrow> (\<exists>k'. mq_open E mem bufs nm oflags attr k = Inr (-1, k') \<and> errno_of k' = 0 \<and>
      queuePool k' = queuePool k \<and> sem_at k' (poolAccessSem k') p)) \<and>
    (length nm \<le> QNAME_LEN \<and> nm \<noteq> [] \<and> hd nm = CHR ''/'' \<and> named_queue nm k \<noteq> None \<longrightarrow>
      (\<exists>i k'. mq_open E mem bufs nm oflags attr k = Inr (-1, k') \<and> errno_of k' = E_EXIST \<and>
        q_taken (queuePool k i) = 0 \<and> queuePool k' = (queuePool k)(i := (queuePool k i)\<lparr>q_taken := 1\<rparr>) \<and>
        sem_at k' (poolAccessSem k') p)) \<and>
    (length nm \<le> QNAME_LEN \<and> nm \<noteq> [] \<and> hd nm = CHR ''/'' \<and> attr = None \<and>
        (\<forall>i < NUMBER_OF_QUEUES. \<not> same_name (q_name (queuePool k i)) nm) \<longrightarrow>
      (\<exists>i k'. mq_open E mem bufs nm oflags attr k = Inr (-1, k') \<and> errno_of k' = E_INVAL \<and>
        q_taken (queuePool k i) = 0 \<and> q_taken (queuePool k' i) = 1 \<and>
        sem_at k' (poolAccessSem k') (p\<lparr>token := 0\<rparr>)))"
proof -
  let ?k1 = "taken k p"
  note enter = mq_enter_idle [OF idle, of E]
  have p: "poolAccessSem k < TK_MAX_NUM_Q" "b_type p = SEM" "token p = 1" "IntFlagCntr k = 0" "p\<lparr>token := 1\<rparr> = p"
    using idle by (auto simp: mq_idle_def sem_at_def)
  have post: "pool_post addr oth (poolAccessSem k') k' = Inr (set_errno 0 (put_itc (poolAccessSem k') p k'))"
    if "sem_at k' (poolAccessSem k') (p\<lparr>token := 0\<rparr>)" "IntFlagCntr k' = 0" for addr oth and k' :: "'a mq_kern_scheme"
    using pool_post_held [OF that(1) _ that(2), of addr oth] p(5) by simp
  obtain i where i: "i < NUMBER_OF_QUEUES" "q_taken (queuePool k i) = 0"
    "free_slot NUMBER_OF_QUEUES (\<lambda>i. q_taken (queuePool k i)) NUMBER_OF_QUEUES qPIdx 0 = (i, i)"
    using free_slot_found [OF slot] unfolding qPIdx_def by blast
  let ?k2 = "put_queue i ((queuePool k i)\<lparr>q_taken := 1\<rparr>) ?k1"
  have long: "\<exists>k'. mq_open E mem bufs nm oflags attr k = Inr (-1, k') \<and> errno_of k' = 0 \<and>
      queuePool k' = queuePool k \<and> sem_at k' (poolAccessSem k') p" if "QNAME_LEN < length nm"
    using that enter p post [of "set_errno E_NAMETOOLONG ?k1"]
    by (intro exI [of _ "set_errno 0 (put_itc (poolAccessSem k) p (set_errno E_NAMETOOLONG ?k1))"])
      (simp add: mq_open_def fail_early_def Let_def)
  have create: "mq_open E mem bufs nm oflags attr k = andThen
      (if named_queue nm ?k2 \<noteq> None
       then andThen (fail_late (env_addr E) (env_others E) E_EXIST ?k2) (\<lambda>k2. Inr (None, k2))
       else new_queue E mem bufs nm oflags attr i ?k2) (\<lambda>(r, k2).
       case r of None \<Rightarrow> Inr (-1, k2)
       | Some _ \<Rightarrow> andThen (mq_describe E nm oflags r k2) (\<lambda>(d, k3).
           case d of None \<Rightarrow> Inr (-1, k3)
           | Some dId \<Rightarrow> andThen (mq_leave E k3) (\<lambda>k4. Inr (int dId, k4))))"
    if "length nm \<le> QNAME_LEN" "nm \<noteq> []" "hd nm = CHR ''/''"
    using that enter i creat by (simp add: mq_open_def mq_create_def Let_def)
  have exist: "\<exists>i k'. mq_open E mem bufs nm oflags attr k = Inr (-1, k') \<and> errno_of k' = E_EXIST \<and>
      q_taken (queuePool k i) = 0 \<and> queuePool k' = (queuePool k)(i := (queuePool k i)\<lparr>q_taken := 1\<rparr>) \<and>
      sem_at k' (poolAccessSem k') p"
    if c: "length nm \<le> QNAME_LEN" "nm \<noteq> []" "hd nm = CHR ''/''" "named_queue nm k \<noteq> None"
  proof -
    have "named_queue nm ?k2 \<noteq> None" using c(4) unfolding named_queue_iff by auto
    moreover have "fail_late (env_addr E) (env_others E) E_EXIST ?k2 =
        Inr (set_errno E_EXIST (put_itc (poolAccessSem k) p ?k2))"
      using post [of ?k2] p by (simp add: fail_late_def)
    ultimately show ?thesis using create [OF c(1-3)] i(2) p
      by (intro exI [of _ i] exI [of _ "set_errno E_EXIST (put_itc (poolAccessSem k) p ?k2)"]) simp
  qed
  have noattr: "\<exists>i k'. mq_open E mem bufs nm oflags attr k = Inr (-1, k') \<and> errno_of k' = E_INVAL \<and>
      q_taken (queuePool k i) = 0 \<and> q_taken (queuePool k' i) = 1 \<and> sem_at k' (poolAccessSem k') (p\<lparr>token := 0\<rparr>)"
    if c: "length nm \<le> QNAME_LEN" "nm \<noteq> []" "hd nm = CHR ''/''" "attr = None"
      "\<forall>i < NUMBER_OF_QUEUES. \<not> same_name (q_name (queuePool k i)) nm"
  proof -
    have "named_queue nm ?k2 = None" using c(5) unfolding named_queue_iff by auto
    then show ?thesis using create [OF c(1-3)] i(2) p c(4)
      by (intro exI [of _ i] exI [of _ "set_errno E_INVAL (put_queue i ((queuePool ?k2 i)\<lparr>q_taken := 1, q_name := take QNAME_LEN nm\<rparr>) ?k2)"])
        (simp add: new_queue_def Let_def)
  qed
  show ?thesis using long exist noattr by blast
qed

theorem mq_open_errors_witness:
  "\<exists>k1 k2. mq_open demo_env None (\<lambda>_. None) ''/q'' O_CREAT (Some \<lparr>mq_msgsize = 8, mq_maxmsg = 5\<rparr>)
      (mq_demo ((\<lambda>_. (demo_queue [])\<lparr>q_taken := 0, q_name := []\<rparr>)(0 := demo_queue []))) = Inr (-1, k1) \<and>
    errno_of k1 = E_EXIST \<and>
    mq_open demo_env None (\<lambda>_. None) ''/q'' O_CREAT None (mq_demo (\<lambda>_. (demo_queue [])\<lparr>q_taken := 0, q_name := []\<rparr>)) =
      Inr (-1, k2) \<and> errno_of k2 = E_INVAL \<and> sem_at k2 (poolAccessSem k2) (blank_itc\<lparr>token := 0\<rparr>)"
proof -
  let ?free = "(demo_queue [])\<lparr>q_taken := 0, q_name := []\<rparr>" and ?a = "Some \<lparr>mq_msgsize = 8, mq_maxmsg = 5\<rparr>"
  let ?k1 = "mq_demo ((\<lambda>_. ?free)(0 := demo_queue []))" and ?k2 = "mq_demo (\<lambda>_. ?free)"
  have c: "O_CREAT AND O_CREAT \<noteq> 0" by (simp add: O_CREAT_def)
  have n: "length ''/q'' \<le> QNAME_LEN" "''/q'' \<noteq> []" "hd ''/q'' = CHR ''/''" by (simp_all add: QNAME_LEN_def)
  have s: "\<exists>i < NUMBER_OF_QUEUES. q_taken (queuePool ?k1 i) = 0" "\<exists>i < NUMBER_OF_QUEUES. q_taken (queuePool ?k2 i) = 0"
    by (rule exI [of _ 1]; simp add: NUMBER_OF_QUEUES_def)+
  have "named_queue ''/q'' ?k1 \<noteq> None"
    unfolding named_queue_iff by (auto simp: demo_queue_def NUMBER_OF_QUEUES_def same_name_def intro!: exI [of _ 0])
  then have 1: "\<exists>k1. mq_open demo_env None (\<lambda>_. None) ''/q'' O_CREAT ?a ?k1 = Inr (-1, k1) \<and> errno_of k1 = E_EXIST"
    using mq_open_errors [OF mq_demo_idle s(1) c, of "''/q''" demo_env None "\<lambda>_. None" ?a] n by blast
  have "\<forall>i < NUMBER_OF_QUEUES. \<not> same_name (q_name (queuePool ?k2 i)) ''/q''"
    by (simp add: same_name_def QNAME_LEN_def)
  then have 2: "\<exists>k2. mq_open demo_env None (\<lambda>_. None) ''/q'' O_CREAT None ?k2 = Inr (-1, k2) \<and> errno_of k2 = E_INVAL \<and>
      sem_at k2 (poolAccessSem k2) (blank_itc\<lparr>token := 1, token := 0\<rparr>)"
    using mq_open_errors [OF mq_demo_idle s(2) c, of "''/q''" demo_env None "\<lambda>_. None" None] n by blast
  from 1 2 show ?thesis by auto
qed

end
