(* ===== verification/TkMem.thy ===== *)
theory TkMem
  imports TkSemaphore
begin

text \<open>
  Kernel memory, \<^verbatim>\<open>src/tk_mem.c\<close>: heaps of blocks of one size. A block is the integer in
  front of it, nonzero when it is in use, and its bytes. A heap is named by the position of its
  header in \<^verbatim>\<open>header_pool\<close>, a block by its number in the heap; sizes are not
  negative. What the lock and unlock functions of a heap do, and the threads that run meanwhile,
  is the argument \<open>L\<close> of the operations that call them.
\<close>

section \<open>Data\<close>

definition TK_KMEM_NHEAPS :: nat where "TK_KMEM_NHEAPS = 8"

definition KMEM_KEEP_UNINITIALIZED :: "32 word" where "KMEM_KEEP_UNINITIALIZED = 1"
definition KMEM_BLANK_ZERO :: "32 word" where "KMEM_BLANK_ZERO = 2"
definition KMEM_BLANK_ID :: "32 word" where "KMEM_BLANK_ID = 4"

lemmas kmem_flag_defs = KMEM_KEEP_UNINITIALIZED_def KMEM_BLANK_ZERO_def KMEM_BLANK_ID_def

definition ERR_UNDEF_HEAPID :: int where "ERR_UNDEF_HEAPID = 19"

record kblock =
  mark :: "32 word"
  contents :: "8 word list"

record heap_t =
  h_maxnum :: nat
  h_dsize :: nat
  h_blocks :: int
  h_indx :: nat
  h_heap :: "kblock list buffer"
  h_malloced :: bool
  h_lock :: bool
  h_unlock :: bool
  h_self :: "nat option"
  h_last :: nat

record kmem =
  header_pool :: "nat \<Rightarrow> heap_t"
  cheap_idx :: nat
  nheaps :: int

text \<open>A header of zeros; \<^verbatim>\<open>esz\<close>, the bytes of a block and its integer.\<close>

definition zero_heap :: heap_t where
  "zero_heap = \<lparr>h_maxnum = 0, h_dsize = 0, h_blocks = 0, h_indx = 0, h_heap = Null, h_malloced = False,
     h_lock = False, h_unlock = False, h_self = None, h_last = 0\<rparr>"

definition block_size :: "nat \<Rightarrow> nat" where
  "block_size dsize = 4 + dsize"

definition put_heap :: "nat \<Rightarrow> heap_t \<Rightarrow> 'a kmem_scheme \<Rightarrow> 'a kmem_scheme" where
  "put_heap h H s = s\<lparr>header_pool := (header_pool s)(h := H)\<rparr>"

section \<open>The component\<close>

definition tk_mem :: "'a kmem_scheme \<Rightarrow> 'a kmem_scheme" where
  "tk_mem s = s\<lparr>header_pool := (\<lambda>h. if h < TK_KMEM_NHEAPS then zero_heap else header_pool s h)\<rparr>"

text \<open>\<^verbatim>\<open>tk_mem_destruct\<close> frees the heaps it has allocated; their headers keep the pointers.\<close>

definition destruct_heap :: "nat \<Rightarrow> 'a kmem_scheme \<Rightarrow> 'a kmem_scheme result" where
  "destruct_heap h s = (let H = header_pool s h in
     if h_heap H \<noteq> Null \<and> h_malloced H
     then andThen (c_free (h_heap H)) (\<lambda>p. Inr (put_heap h (H\<lparr>h_heap := p\<rparr>) s)) else Inr s)"

definition tk_mem_destruct :: "'a kmem_scheme \<Rightarrow> 'a kmem_scheme result" where
  "tk_mem_destruct s = foldR destruct_heap [0..<TK_KMEM_NHEAPS] s"

section \<open>Heaps\<close>

text \<open>
  The search for a free header: \<open>n\<close> more iterations, from \<^verbatim>\<open>cheap_idx\<close> \<open>c\<close>, which
  moves on past the header found.
\<close>

fun find_header :: "nat \<Rightarrow> (nat \<Rightarrow> heap_t) \<Rightarrow> nat \<Rightarrow> nat option \<times> nat" where
  "find_header 0 hp c = (None, c)"
| "find_header (Suc n) hp c = (if h_heap (hp c) = Null then (Some c, (c + 1) mod TK_KMEM_NHEAPS)
     else find_header n hp ((c + 1) mod TK_KMEM_NHEAPS))"

text \<open>The memory after \<^verbatim>\<open>memset(heap, v, hsize)\<close>, and after the markers are cleared.\<close>

definition fill_blocks :: "8 word \<Rightarrow> kblock list \<Rightarrow> kblock list" where
  "fill_blocks v bs = map (\<lambda>b. \<lparr>mark = ucast v * 0x01010101, contents = map (\<lambda>_. v) (contents b)\<rparr>) bs"

definition clear_marks :: "kblock list \<Rightarrow> kblock list" where
  "clear_marks bs = map (\<lambda>b. b\<lparr>mark := 0\<rparr>) bs"

text \<open>
  The loop for a heap that is kept: the pointer does not move, so every iteration looks at the
  first block.
\<close>

definition keep_step :: "kblock list \<Rightarrow> nat \<Rightarrow> heap_t \<Rightarrow> heap_t result" where
  "keep_step bs i H = in_bounds (bs \<noteq> []) (Inr (if mark (hd bs) \<noteq> 0 then H\<lparr>h_blocks := h_blocks H + 1\<rparr> else H\<lparr>h_indx := i\<rparr>))"

definition blanked :: "32 word \<Rightarrow> nat \<Rightarrow> kblock list \<Rightarrow> kblock list" where
  "blanked opt hid bs =
     (let bs1 = (if opt AND KMEM_BLANK_ZERO \<noteq> 0 then fill_blocks 0 bs
        else if opt AND KMEM_BLANK_ID \<noteq> 0 then fill_blocks (of_nat hid) bs else bs) in
      if opt AND KMEM_BLANK_ZERO = 0 then clear_marks bs1 else bs1)"

text \<open>
  \<open>m\<close> is what \<^verbatim>\<open>malloc\<close> returns and \<open>ptr\<close> the memory of the caller, as the blocks it is
  divided into. \<^verbatim>\<open>last\<close> is an offset into the heap.
\<close>

definition tk_create_heap :: "kblock list option \<Rightarrow> nat \<Rightarrow> nat \<Rightarrow> 32 word \<Rightarrow> bool \<Rightarrow> bool \<Rightarrow> kblock list option \<Rightarrow>
  'a kmem_scheme \<Rightarrow> (int \<times> nat option \<times> 'a kmem_scheme) result" where
  "tk_create_heap m hsize dsize opt lck ulk ptr s =
     (let mxnum = hsize div block_size dsize in
      if nheaps s \<ge> int TK_KMEM_NHEAPS then Inr (E_NOMEM, None, s)
      else case find_header TK_KMEM_NHEAPS (header_pool s) (cheap_idx s) of
        (None, c) \<Rightarrow> Inl Assert_failed
      | (Some h, c) \<Rightarrow>
         (let s1 = s\<lparr>cheap_idx := c\<rparr> in
          case (if ptr = None then m else ptr) of None \<Rightarrow> Inr (E_NOMEM, None, put_heap h zero_heap s1)
          | Some bs \<Rightarrow> in_bounds (length bs = mxnum)
             (let H = (header_pool s h)\<lparr>h_heap := Live bs, h_malloced := (ptr = None), h_lock := lck, h_unlock := ulk,
                    h_self := Some h, h_dsize := dsize, h_maxnum := mxnum, h_blocks := 0, h_indx := 0\<rparr> in
              andThen (if opt AND KMEM_KEEP_UNINITIALIZED \<noteq> 0
                  then andThen (foldR (keep_step bs) [0..<mxnum] H) (\<lambda>H1. Inr (H1\<lparr>h_last := block_size dsize\<rparr>))
                  else Inr (H\<lparr>h_heap := Live (blanked opt h bs),
                    h_last := (if opt AND KMEM_BLANK_ZERO = 0 then mxnum * block_size dsize else 0)\<rparr>)) (\<lambda>H2.
                Inr (0, Some h, put_heap h H2 (s1\<lparr>nheaps := nheaps s + 1\<rparr>))))))"

definition tk_destroy_heap :: "nat \<Rightarrow> 'a kmem_scheme \<Rightarrow> (int \<times> 'a kmem_scheme) result" where
  "tk_destroy_heap h s = (let H = header_pool s h in
     if h_self H \<noteq> Some h then Inr (ERR_UNDEF_HEAPID, s)
     else if h_blocks H \<noteq> 0 then Inr (E_BUSY, s)
     else andThen (if h_malloced H then c_free (h_heap H) else Inr (h_heap H)) (\<lambda>_.
       Inr (0, (put_heap h zero_heap s)\<lparr>nheaps := nheaps s - 1\<rparr>)))"

section \<open>Blocks\<close>

text \<open>What the lock functions do.\<close>

record 'a heap_lock =
  do_lock :: "'a kmem_scheme \<Rightarrow> 'a kmem_scheme result"
  do_unlock :: "'a kmem_scheme \<Rightarrow> 'a kmem_scheme result"

text \<open>
  The search for a block that is not in use; \<open>n\<close> is its fuel. After as many steps as the heap
  has blocks it is where it began, and goes on for ever.
\<close>

fun find_block :: "nat \<Rightarrow> kblock list \<Rightarrow> nat \<Rightarrow> nat \<Rightarrow> nat result" where
  "find_block n bs maxnum i = in_bounds (i < length bs)
     (if mark (bs ! i) = 0 then Inr i
      else if maxnum = 0 then Inl Div_by_zero
      else case n of 0 \<Rightarrow> Inl Hangs | Suc n' \<Rightarrow> find_block n' bs maxnum ((i + 1) mod maxnum))"

declare find_block.simps [simp del]

definition take_block :: "nat \<Rightarrow> 'a kmem_scheme \<Rightarrow> (nat \<times> 'a kmem_scheme) result" where
  "take_block h s = (let H = header_pool s h in c_deref (h_heap H) (\<lambda>bs.
     andThen (find_block (h_maxnum H) bs (h_maxnum H) (h_indx H)) (\<lambda>i.
       if h_maxnum H = 0 then Inl Div_by_zero
       else Inr (i, put_heap h (H\<lparr>h_indx := (i + 1) mod h_maxnum H, h_blocks := h_blocks H + 1,
              h_heap := Live (bs[i := (bs ! i)\<lparr>mark := 1\<rparr>])\<rparr>) s))))"

definition tk_mem_malloct :: "'a heap_lock \<Rightarrow> nat \<Rightarrow> 'a kmem_scheme \<Rightarrow> (nat option \<times> 'a kmem_scheme) result" where
  "tk_mem_malloct L h s = (let H = header_pool s h in
     if h_self H \<noteq> Some h \<or> h_blocks H \<ge> int (h_maxnum H) then Inr (None, s)
     else andThen (if h_lock H then do_lock L s else Inr s) (\<lambda>s1.
       andThen (take_block h s1) (\<lambda>(i, s2).
         andThen (if h_unlock (header_pool s2 h) then do_unlock L s2 else Inr s2) (\<lambda>s3. Inr (Some i, s3)))))"

definition give_block :: "nat \<Rightarrow> nat \<Rightarrow> 'a kmem_scheme \<Rightarrow> 'a kmem_scheme result" where
  "give_block h i s = (let H = header_pool s h in c_deref (h_heap H) (\<lambda>bs. in_bounds (i < length bs)
     (Inr (put_heap h (H\<lparr>h_blocks := h_blocks H - 1, h_heap := Live (bs[i := (bs ! i)\<lparr>mark := 0\<rparr>])\<rparr>) s))))"

definition tk_mem_free :: "'a heap_lock \<Rightarrow> nat \<Rightarrow> nat \<Rightarrow> 'a kmem_scheme \<Rightarrow> 'a kmem_scheme result" where
  "tk_mem_free L h i s = (let H = header_pool s h in
     if h_self H \<noteq> Some h \<or> h_blocks H \<ge> int (h_maxnum H) then Inr s
     else andThen (if h_lock H then do_lock L s else Inr s) (\<lambda>s1.
       andThen (give_block h i s1) (\<lambda>s2.
         if h_unlock (header_pool s2 h) then do_unlock L s2 else Inr s2)))"

end
