(* ===== verification/TkMemProps.thy ===== *)
theory TkMemProps
  imports TkMem
begin

text \<open>
  The properties of kernel memory, and \<open>block_store\<close>, the interface of an allocator of
  numbered blocks, with what a client gets from it.
\<close>

section \<open>The interface\<close>

text \<open>\<open>n\<close> allocations in a row.\<close>

fun alloc_n :: "('s \<Rightarrow> (nat option \<times> 's) result) \<Rightarrow> nat \<Rightarrow> 's \<Rightarrow> (nat option list \<times> 's) result" where
  "alloc_n al 0 s = Inr ([], s)"
| "alloc_n al (Suc n) s = andThen (al s) (\<lambda>(b, s1). andThen (alloc_n al n s1) (\<lambda>(bs, s2). Inr (b # bs, s2)))"

locale block_store =
  fixes ok :: "'s \<Rightarrow> bool" and used :: "'s \<Rightarrow> nat set" and room :: "'s \<Rightarrow> nat"
    and al :: "'s \<Rightarrow> (nat option \<times> 's) result"
  assumes finite_used: "ok s \<Longrightarrow> finite (used s)"
    and alloc_some: "ok s \<Longrightarrow> card (used s) < room s \<Longrightarrow>
      \<exists>i s'. al s = Inr (Some i, s') \<and> i \<notin> used s \<and> used s' = insert i (used s) \<and> ok s' \<and> room s' = room s"
    and alloc_none: "ok s \<Longrightarrow> room s \<le> card (used s) \<Longrightarrow> al s = Inr (None, s)"
begin

lemma alloc_n_distinct:
  assumes "ok s" "card (used s) + n \<le> room s"
  shows "\<exists>bs s'. alloc_n al n s = Inr (map Some bs, s') \<and> length bs = n \<and> distinct bs \<and>
    set bs \<inter> used s = {} \<and> used s' = used s \<union> set bs \<and> ok s' \<and> room s' = room s"
  using assms
proof (induction n arbitrary: s)
  case 0
  then show ?case by simp
next
  case (Suc n)
  then obtain i s1 where s1: "al s = Inr (Some i, s1)" "i \<notin> used s" "used s1 = insert i (used s)" "ok s1" "room s1 = room s"
    using alloc_some [of s] by auto
  have "card (used s1) + n \<le> room s1" using s1 finite_used [OF Suc.prems(1)] Suc.prems(2) by simp
  from Suc.IH [OF s1(4) this] obtain bs s' where
    b: "alloc_n al n s1 = Inr (map Some bs, s')" "length bs = n" "distinct bs" "set bs \<inter> used s1 = {}"
      "used s' = used s1 \<union> set bs" "ok s'" "room s' = room s1" by blast
  then show ?case using s1 by (intro exI [of _ "i # bs"] exI [of _ s']) auto
qed

lemma alloc_n_full:
  assumes "ok s" "room s \<le> card (used s)"
  shows "alloc_n al n s = Inr (replicate n None, s)"
  by (induction n) (simp_all add: alloc_none [OF assms])

end

section \<open>Heaps\<close>

definition in_use :: "kblock list \<Rightarrow> nat set" where
  "in_use bs = {i. i < length bs \<and> mark (bs ! i) \<noteq> 0}"

lemma in_use_finite [simp]: "finite (in_use bs)"
  by (simp add: in_use_def)

lemma in_use_take: "i < length bs \<Longrightarrow> in_use (bs[i := b\<lparr>mark := 1\<rparr>]) = insert i (in_use bs)"
  by (auto simp: in_use_def nth_list_update)

lemma in_use_give: "i < length bs \<Longrightarrow> in_use (bs[i := b\<lparr>mark := 0\<rparr>]) = in_use bs - {i}"
  by (auto simp: in_use_def nth_list_update split: if_splits)

text \<open>A heap in order: the count is that of the blocks in use, the index is inside.\<close>

definition heap_ok :: "'a kmem_scheme \<Rightarrow> nat \<Rightarrow> kblock list \<Rightarrow> bool" where
  "heap_ok s h bs \<longleftrightarrow> h_self (header_pool s h) = Some h \<and> h_heap (header_pool s h) = Live bs \<and>
     length bs = h_maxnum (header_pool s h) \<and> h_indx (header_pool s h) < max 1 (h_maxnum (header_pool s h)) \<and>
     h_blocks (header_pool s h) = int (card (in_use bs))"

text \<open>The search finds the first block that is not in use, from the index on around the heap.\<close>

lemma find_block_round:
  assumes "length bs = m" "i < m" "mark (bs ! ((i + d) mod m)) = 0" "\<forall>e < d. mark (bs ! ((i + e) mod m)) \<noteq> 0" "d \<le> n"
  shows "find_block n bs m i = Inr ((i + d) mod m)"
  using assms
proof (induction d arbitrary: i n)
  case 0
  then show ?case by (subst find_block.simps) simp
next
  case (Suc d)
  obtain n' where n: "n = Suc n'" "d \<le> n'" using Suc.prems(5) by (cases n) auto
  have "mark (bs ! i) \<noteq> 0" using Suc.prems(2,4) by (auto dest: spec [of _ 0])
  moreover have step: "((i + 1) mod m + e) mod m = (i + Suc e) mod m" for e by (simp add: mod_simps)
  have "\<forall>e < d. mark (bs ! ((i + Suc e) mod m)) \<noteq> 0" using Suc.prems(4) by blast
  then have "find_block n' bs m ((i + 1) mod m) = Inr ((i + Suc d) mod m)"
    using Suc.IH [of "(i + 1) mod m" n', unfolded step] Suc.prems(1-3) n by simp
  ultimately show ?case using Suc.prems(1,2) n(1) by (subst find_block.simps) simp
qed

lemma find_block_free:
  assumes l: "length bs = m" "i < m" and free: "card (in_use bs) < m"
  shows "\<exists>j < m. find_block m bs m i = Inr j \<and> mark (bs ! j) = 0"
proof -
  have "in_use bs \<noteq> {0..<m}" using free by auto
  then obtain f where f: "f < m" "mark (bs ! f) = 0" using l(1) by (auto simp: in_use_def)
  let ?P = "\<lambda>d. mark (bs ! ((i + d) mod m)) = 0"
  have "?P ((f + m - i) mod m)" using f l(2) by (simp add: mod_add_right_eq)
  moreover have "(f + m - i) mod m < m" using f by simp
  ultimately have d: "?P (LEAST d. ?P d)" "(LEAST d. ?P d) < m"
    using LeastI [of ?P] Least_le [of ?P "(f + m - i) mod m"] by auto
  have "\<forall>e < (LEAST d. ?P d). \<not> ?P e" using not_less_Least by blast
  then have "find_block m bs m i = Inr ((i + (LEAST d. ?P d)) mod m)"
    using d by (intro find_block_round [OF l]) auto
  then show ?thesis using d(1) f(1) by (intro exI [of _ "(i + (LEAST d. ?P d)) mod m"]) simp
qed

text \<open>When all blocks are in use the search never ends.\<close>

lemma find_block_hangs:
  assumes "length bs = m" "i < m" "\<forall>j < m. mark (bs ! j) \<noteq> 0"
  shows "find_block n bs m i = Inl Hangs"
  using assms
proof (induction n arbitrary: i)
  case 0
  then show ?case by (subst find_block.simps) simp
next
  case (Suc n)
  then show ?case using Suc.IH [of "(i + 1) mod m"] by (subst find_block.simps) simp
qed

lemma put_heap_sel [simp]: "header_pool (put_heap h H s) = (header_pool s)(h := H)"
  by (simp add: put_heap_def)

lemma take_block_ok:
  assumes ok: "heap_ok s h bs" and room: "card (in_use bs) < length bs"
  shows "\<exists>i s'. take_block h s = Inr (i, s') \<and> i < length bs \<and> i \<notin> in_use bs \<and> heap_ok s' h (bs[i := (bs ! i)\<lparr>mark := 1\<rparr>]) \<and>
    (\<forall>g. g \<noteq> h \<longrightarrow> header_pool s' g = header_pool s g) \<and>
    h_lock (header_pool s' h) = h_lock (header_pool s h) \<and> h_unlock (header_pool s' h) = h_unlock (header_pool s h) \<and>
    h_maxnum (header_pool s' h) = h_maxnum (header_pool s h)"
proof -
  let ?H = "header_pool s h" and ?m = "length bs"
  have H: "h_heap ?H = Live bs" "h_maxnum ?H = ?m" "h_indx ?H < ?m" "?m \<noteq> 0" using ok room by (auto simp: heap_ok_def)
  obtain j where j: "j < ?m" "find_block ?m bs ?m (h_indx ?H) = Inr j" "mark (bs ! j) = 0"
    using find_block_free [OF refl H(3) room] by blast
  let ?s = "put_heap h (?H\<lparr>h_indx := (j + 1) mod ?m, h_blocks := h_blocks ?H + 1,
    h_heap := Live (bs[j := (bs ! j)\<lparr>mark := 1\<rparr>])\<rparr>) s"
  have new: "j \<notin> in_use bs" using j(3) by (simp add: in_use_def)
  have "heap_ok ?s h (bs[j := (bs ! j)\<lparr>mark := 1\<rparr>])"
    using ok new H by (simp add: heap_ok_def in_use_take [OF j(1)])
  moreover have "take_block h s = Inr (j, ?s)" using H j by (simp add: take_block_def Let_def)
  ultimately show ?thesis using j(1) new by (intro exI [of _ j] exI [of _ ?s]) simp
qed

text \<open>Heaps without locks are a \<open>block_store\<close>.\<close>

definition plain_heap :: "nat \<Rightarrow> 'a kmem_scheme \<Rightarrow> bool" where
  "plain_heap h s \<longleftrightarrow> (\<exists>bs. heap_ok s h bs) \<and> \<not> h_lock (header_pool s h) \<and> \<not> h_unlock (header_pool s h)"

definition heap_blocks :: "nat \<Rightarrow> 'a kmem_scheme \<Rightarrow> nat set" where
  "heap_blocks h s = (case h_heap (header_pool s h) of Live bs \<Rightarrow> in_use bs | _ \<Rightarrow> {})"

definition heap_room :: "nat \<Rightarrow> 'a kmem_scheme \<Rightarrow> nat" where
  "heap_room h s = h_maxnum (header_pool s h)"

lemma malloct_plain:
  assumes ok: "heap_ok s h bs" "\<not> h_lock (header_pool s h)" "\<not> h_unlock (header_pool s h)"
    and room: "card (in_use bs) < length bs"
  shows "\<exists>i s'. tk_mem_malloct L h s = Inr (Some i, s') \<and> i < length bs \<and> i \<notin> in_use bs \<and>
    heap_ok s' h (bs[i := (bs ! i)\<lparr>mark := 1\<rparr>]) \<and> plain_heap h s' \<and> heap_room h s' = heap_room h s"
proof -
  obtain i s' where "take_block h s = Inr (i, s')" "i < length bs" "i \<notin> in_use bs" "heap_ok s' h (bs[i := (bs ! i)\<lparr>mark := 1\<rparr>])"
    "h_lock (header_pool s' h) = h_lock (header_pool s h)" "h_unlock (header_pool s' h) = h_unlock (header_pool s h)"
    "h_maxnum (header_pool s' h) = h_maxnum (header_pool s h)"
    using take_block_ok [OF ok(1) room] by blast
  then show ?thesis using ok room
    by (intro exI [of _ i] exI [of _ s']) (auto simp: tk_mem_malloct_def heap_ok_def plain_heap_def heap_room_def Let_def)
qed

interpretation heap: block_store "plain_heap h" "heap_blocks h" "heap_room h" "tk_mem_malloct L h"
proof
  fix s :: "'a kmem_scheme"
  assume "plain_heap h s"
  then obtain bs where ok: "heap_ok s h bs" "\<not> h_lock (header_pool s h)" "\<not> h_unlock (header_pool s h)"
    by (auto simp: plain_heap_def)
  then have b: "heap_blocks h s = in_use bs" "heap_room h s = length bs"
    by (simp_all add: heap_blocks_def heap_room_def heap_ok_def)
  show "finite (heap_blocks h s)" by (simp add: b)
  show "tk_mem_malloct L h s = Inr (None, s)" if "heap_room h s \<le> card (heap_blocks h s)"
    using that ok(1) by (simp add: b tk_mem_malloct_def heap_ok_def)
  show "\<exists>i s'. tk_mem_malloct L h s = Inr (Some i, s') \<and> i \<notin> heap_blocks h s \<and> heap_blocks h s' = insert i (heap_blocks h s) \<and>
      plain_heap h s' \<and> heap_room h s' = heap_room h s" if room: "card (heap_blocks h s) < heap_room h s"
  proof -
    obtain i s' where a: "tk_mem_malloct L h s = Inr (Some i, s')" "i < length bs" "i \<notin> in_use bs"
      "heap_ok s' h (bs[i := (bs ! i)\<lparr>mark := 1\<rparr>])" "plain_heap h s'" "heap_room h s' = heap_room h s"
      using malloct_plain [OF ok, of L] room b by auto
    then have "heap_blocks h s' = insert i (in_use bs)" by (simp add: heap_blocks_def heap_ok_def in_use_take)
    with a show ?thesis by (intro exI [of _ i] exI [of _ s']) (simp add: b)
  qed
qed

section \<open>A demonstration heap\<close>

definition demo_blocks :: "32 word list \<Rightarrow> kblock list" where
  "demo_blocks ms = map (\<lambda>m. \<lparr>mark = m, contents = replicate 4 0\<rparr>) ms"

lemma length_demo_blocks [simp]: "length (demo_blocks ms) = length ms"
  by (simp add: demo_blocks_def)

text \<open>The heap \<open>3\<close>, with no lock functions.\<close>

definition demo_heap :: "32 word list \<Rightarrow> kmem" where
  "demo_heap ms = \<lparr>header_pool = (\<lambda>_. zero_heap)(3 := \<lparr>h_maxnum = length ms, h_dsize = 4,
     h_blocks = int (card (in_use (demo_blocks ms))), h_indx = 0, h_heap = Live (demo_blocks ms), h_malloced = True,
     h_lock = False, h_unlock = False, h_self = Some 3, h_last = 0\<rparr>), cheap_idx = 4, nheaps = 1\<rparr>"

definition demo_lock :: "unit heap_lock" where
  "demo_lock = \<lparr>do_lock = Inr, do_unlock = Inr\<rparr>"

lemma demo_heap_ok: "heap_ok (demo_heap ms) 3 (demo_blocks ms)"
  by (simp add: heap_ok_def demo_heap_def demo_blocks_def)

lemma demo_heap_locks: "\<not> h_lock (header_pool (demo_heap ms) 3)" "\<not> h_unlock (header_pool (demo_heap ms) 3)"
  by (simp_all add: demo_heap_def)

lemma demo_heap_plain: "plain_heap 3 (demo_heap ms)"
  unfolding plain_heap_def using demo_heap_ok demo_heap_locks by blast

lemma demo_heap_blocks: "heap_blocks 3 (demo_heap ms) = in_use (demo_blocks ms)" "heap_room 3 (demo_heap ms) = length ms"
  by (simp_all add: heap_blocks_def heap_room_def demo_heap_def)

section \<open>Properties\<close>

text \<open>
  C40. On a heap without lock functions, as many allocations as there is room for succeed,
  with different blocks none of which was in use; every further one gives a null pointer. The
  count in the header stays that of the blocks in use.
\<close>

theorem heap_allocates:
  assumes "plain_heap h s" "card (heap_blocks h s) + n = heap_room h s"
  shows "\<exists>bs s'. alloc_n (tk_mem_malloct L h) n s = Inr (map Some bs, s') \<and> length bs = n \<and> distinct bs \<and>
    set bs \<inter> heap_blocks h s = {} \<and> plain_heap h s' \<and> tk_mem_malloct L h s' = Inr (None, s')"
proof -
  have fin: "finite (heap_blocks h s)" by (rule heap.finite_used [OF assms(1)])
  obtain bs s' where b: "alloc_n (tk_mem_malloct L h) n s = Inr (map Some bs, s')" "length bs = n" "distinct bs"
    "set bs \<inter> heap_blocks h s = {}" "heap_blocks h s' = heap_blocks h s \<union> set bs" "plain_heap h s'" "heap_room h s' = heap_room h s"
    using heap.alloc_n_distinct [OF assms(1), of n L] assms(2) by auto
  have "card (heap_blocks h s') = card (heap_blocks h s) + n"
    using b(2-5) fin by (simp add: card_Un_disjoint distinct_card Int_commute)
  then show ?thesis using b assms(2) heap.alloc_none [OF b(6), of L] by (intro exI [of _ bs] exI [of _ s']) simp
qed

theorem heap_allocates_witness:
  "\<exists>bs s'. alloc_n (tk_mem_malloct demo_lock 3) 1 (demo_heap [1, 0]) = Inr (map Some bs, s') \<and> length bs = 1 \<and>
    tk_mem_malloct demo_lock 3 s' = Inr (None, s')"
proof -
  have "heap_blocks 3 (demo_heap [1, 0]) = {0}" by (auto simp: demo_heap_blocks in_use_def demo_blocks_def less_Suc_eq)
  then have "card (heap_blocks 3 (demo_heap [1, 0])) + 1 = heap_room 3 (demo_heap [1, 0])" by (simp add: demo_heap_blocks)
  with heap_allocates [OF demo_heap_plain, of "[1, 0]" 1 demo_lock] show ?thesis by auto
qed

text \<open>
  Freeing a block takes it out of the blocks in use and makes room for one more, so that an
  allocation and the freeing of its block leave the same blocks in use; except on a heap that is
  full: there \<open>tk_mem_free\<close> does nothing, so a heap that was once full stays full for ever.
\<close>

theorem heap_frees:
  assumes ok: "heap_ok s h bs" "\<not> h_lock (header_pool s h)" "\<not> h_unlock (header_pool s h)" and i: "i \<in> in_use bs"
  shows "if card (in_use bs) < length bs
    then \<exists>s' bs'. tk_mem_free L h i s = Inr s' \<and> heap_ok s' h bs' \<and> in_use bs' = in_use bs - {i} \<and> length bs' = length bs
    else tk_mem_free L h i s = Inr s \<and> tk_mem_malloct L h s = Inr (None, s)"
proof (cases "card (in_use bs) < length bs")
  case True
  let ?H = "header_pool s h" and ?bs = "bs[i := (bs ! i)\<lparr>mark := 0\<rparr>]"
  let ?s = "put_heap h (?H\<lparr>h_blocks := h_blocks ?H - 1, h_heap := Live ?bs\<rparr>) s"
  have l: "i < length bs" using i by (simp add: in_use_def)
  have c: "0 < card (in_use bs)" using i by (auto simp: card_gt_0_iff)
  have "heap_ok ?s h ?bs" using ok(1) c i by (simp add: heap_ok_def in_use_give [OF l] of_nat_diff)
  moreover have "tk_mem_free L h i s = Inr ?s"
    using ok l True by (simp add: tk_mem_free_def give_block_def heap_ok_def Let_def)
  ultimately show ?thesis using True in_use_give [OF l] by auto
next
  case False
  then show ?thesis using ok(1) by (simp add: tk_mem_free_def tk_mem_malloct_def heap_ok_def)
qed

theorem heap_frees_witness:
  "(\<exists>s' bs'. tk_mem_free demo_lock 3 0 (demo_heap [1, 0]) = Inr s' \<and> heap_ok s' 3 bs' \<and> in_use bs' = {}) \<and>
    tk_mem_free demo_lock 3 0 (demo_heap [1, 1]) = Inr (demo_heap [1, 1])"
proof -
  have u: "in_use (demo_blocks [1, 0]) = {0}" "in_use (demo_blocks [1, 1]) = {0, 1}"
    by (auto simp: in_use_def demo_blocks_def less_Suc_eq)
  note f = heap_frees [OF demo_heap_ok demo_heap_locks, of 0]
  have "\<exists>s' bs'. tk_mem_free demo_lock 3 0 (demo_heap [1, 0]) = Inr s' \<and> heap_ok s' 3 bs' \<and> in_use bs' = {}"
    using f [of "[1, 0]" demo_lock] by (auto simp: u)
  moreover have "tk_mem_free demo_lock 3 0 (demo_heap [1, 1]) = Inr (demo_heap [1, 1])"
    using f [of "[1, 1]" demo_lock] by (simp add: u)
  ultimately show ?thesis by simp
qed

section \<open>What locking does not prevent\<close>

text \<open>
  The count is tested before the lock is taken. If a thread that runs meanwhile takes the last
  block, the search for a free block, under the lock, never ends.
\<close>

lemma malloct_race_hangs:
  assumes ok: "heap_ok s h bs" "h_lock (header_pool s h)" "card (in_use bs) < length bs"
    and other: "do_lock L s = Inr s1" "heap_ok s1 h bs1" "in_use bs1 = {0..<length bs1}" "bs1 \<noteq> []"
  shows "tk_mem_malloct L h s = Inl Hangs"
proof -
  have "mark (bs1 ! j) \<noteq> 0" if "j < length bs1" for j
  proof -
    have "j \<in> in_use bs1" using other(3) that by simp
    then show ?thesis by (simp add: in_use_def)
  qed
  moreover have "h_indx (header_pool s1 h) < length bs1"
    using other(2,4) by (cases bs1) (auto simp: heap_ok_def max_def split: if_splits)
  ultimately have "find_block (length bs1) bs1 (length bs1) (h_indx (header_pool s1 h)) = Inl Hangs"
    by (intro find_block_hangs) simp_all
  then have "take_block h s1 = Inl Hangs"
    using other(2) by (simp add: take_block_def heap_ok_def)
  then show ?thesis using ok other(1) by (simp add: tk_mem_malloct_def heap_ok_def)
qed

text \<open>A heap that is kept counts its first block over and over.\<close>

lemma keep_counts_first:
  assumes "bs \<noteq> []"
  shows "\<exists>H'. foldR (keep_step bs) [0..<n] H = Inr H' \<and>
    h_blocks H' = (if mark (hd bs) \<noteq> 0 then h_blocks H + int n else h_blocks H)"
proof (induction n)
  case 0
  then show ?case by simp
next
  case (Suc n)
  from Suc.IH assms show ?case by (auto simp: foldR_append keep_step_def)
qed

end
