(* ===== verification/TkError.thy ===== *)
theory TkError
  imports TkSemaphore "HOL-Library.Signed_Division"
begin

text \<open>
  Error numbers and messages: the enumerations of \<^verbatim>\<open>tk.h\<close>, \<^verbatim>\<open>tk_itc.h\<close>,
  \<^verbatim>\<open>tk_ptime.h\<close>, \<^verbatim>\<open>tk_mem.h\<close> and \<^verbatim>\<open>errno.h\<close>, each of which
  begins where the one before ends, and \<^verbatim>\<open>src/tk_error.c\<close>: the table of messages, in
  the build with \<^verbatim>\<open>EC_LIGHT\<close>, whose messages are the names; the decimal printer; and the
  report of a trap. A report is the list of the texts that are printed.
\<close>

section \<open>The enumerations\<close>

text \<open>The enumerators of an enumeration that begins at \<open>n\<close>, and where the next one begins.\<close>

definition enum_from :: "nat \<Rightarrow> string list \<Rightarrow> (string \<times> nat) list" where
  "enum_from n names = zip names [n..<n + length names]"

definition SCHED_ERROR_CODES :: "string list" where
  "SCHED_ERROR_CODES = [''TK_OK'', ''TK_ERROR'']"

definition ITC_ERROR_CODES :: "string list" where
  "ITC_ERROR_CODES = [''ERR_TIMEOUT'', ''ERR_OBJDEL'', ''ERR_OBJID'', ''ERR_OBJTYPE'', ''ERR_OBJFULL'', ''ERR_BUFSIZ'',
    ''ERR_NOQCB'', ''ERR_FULL'', ''ERR_NOSCB'', ''ERR_NOSEM'', ''ERR_TATSDEL'', ''ERR_NOMEM'', ''ERR_BLOCKLIMIT'']"

definition PTIMER_ERROR_CODES :: "string list" where
  "PTIMER_ERROR_CODES = [''ERR_UNDEF_PTIMER'', ''ERR_TIME_NEG'', ''ERR_TIMER_DELETED'', ''ERR_NO_MORE_TIMERS'']"

definition KMEM_ERROR_CODES :: "string list" where
  "KMEM_ERROR_CODES = [''ERR_UNDEF_HEAPID'']"

text \<open>The POSIX codes, without the prefix \<^verbatim>\<open>ANSI_\<close> that every enumerator has.\<close>

definition ANSI_ERROR_CODES :: "string list" where
  "ANSI_ERROR_CODES = [
    ''EPERM'', ''ENOENT'', ''ESRCH'', ''EINTR'', ''EIO'', ''ENXIO'', ''E2BIG'', ''ENOEXEC'', ''EBADF'', ''ECHILD'',
    ''EDEADLK'', ''ENOMEM'', ''EACCES'', ''EFAULT'', ''ENOTBLK'', ''EBUSY'', ''EEXIST'', ''EXDEV'', ''ENODEV'',
    ''ENOTDIR'', ''EISDIR'', ''EINVAL'', ''EMFILE'', ''ENFILE'', ''ENOTTY'', ''ETXTBSY'', ''EFBIG'', ''ENOSPC'',
    ''ESPIPE'', ''EROFS'', ''EMLINK'', ''EPIPE'', ''EDOM'', ''ERANGE'', ''EAGAIN'', ''EWOULDBLOCK'', ''EINPROGRESS'',
    ''EALREADY'', ''ENOTSOCK'', ''EMSGSIZE'', ''EPROTOTYPE'', ''ENOPROTOOPT'', ''EPROTONOSUPPORT'',
    ''ESOCKTNOSUPPORT'', ''EOPNOTSUPP'', ''EPFNOSUPPORT'', ''EAFNOSUPPORT'', ''EADDRINUSE'', ''EADDRNOTAVAIL'',
    ''ENETDOWN'', ''ENETUNREACH'', ''ENETRESET'', ''ECONNABORTED'', ''ECONNRESET'', ''ENOBUFS'', ''EISCONN'',
    ''ENOTCONN'', ''EDESTADDRREQ'', ''ESHUTDOWN'', ''ETOOMANYREFS'', ''ETIMEDOUT'', ''ECONNREFUSED'', ''ELOOP'',
    ''ENAMETOOLONG'', ''EHOSTDOWN'', ''EHOSTUNREACH'', ''ENOTEMPTY'', ''EPROCLIM'', ''EUSERS'', ''EDQUOT'',
    ''ESTALE'', ''EREMOTE'', ''EBADRPC'', ''ERPCMISMATCH'', ''EPROGUNAVAIL'', ''EPROGMISMATCH'', ''EPROCUNAVAIL'',
    ''ENOLCK'', ''EFTYPE'', ''EAUTH'', ''ENEEDAUTH'', ''ENOSYS'', ''ENOTSUP'', ''EILSEQ'', ''EBACKGROUND'',
    ''EDIED'', ''ED'', ''EGREGIOUS'', ''EIEIO'', ''EGRATUITOUS'', ''EBADMSG'', ''EIDRM'', ''EMULTIHOP'', ''ENODATA'',
    ''ENOLINK'', ''ENOMSG'', ''ENOSR'', ''ENOSTR'', ''EOVERFLOW'', ''EPROTO'', ''ETIME'', ''ECANCELED'',
    ''ERESTART'', ''ECHRNG'', ''EL2NSYNC'', ''EL3HLT'', ''EL3RST'', ''ELNRNG'', ''EUNATCH'', ''ENOCSI'', ''EL2HLT'',
    ''EBADE'', ''EBADR'', ''EXFULL'', ''ENOANO'', ''EBADRQC'', ''EBADSLT'', ''EDEADLOCK'', ''EBFONT'', ''ENONET'',
    ''ENOPKG'', ''EADV'', ''ESRMNT'', ''ECOMM'', ''EDOTDOT'', ''ENOTUNIQ'', ''EBADFD'', ''EREMCHG'', ''ELIBACC'',
    ''ELIBBAD'', ''ELIBSCN'', ''ELIBMAX'', ''ELIBEXEC'', ''ESTRPIPE'', ''EUCLEAN'', ''ENOTNAM'', ''ENAVAIL'',
    ''EISNAM'', ''EREMOTEIO'', ''ENOMEDIUM'', ''EMEDIUMTYPE'']"

definition TK_SENTINEL :: nat where "TK_SENTINEL = length SCHED_ERROR_CODES"
definition ERR_ITC_SENTINEL :: nat where "ERR_ITC_SENTINEL = TK_SENTINEL + length ITC_ERROR_CODES"
definition ERR_PTIMER_SENTINEL :: nat where "ERR_PTIMER_SENTINEL = ERR_ITC_SENTINEL + length PTIMER_ERROR_CODES"
definition ERR_KMEM_SENTINEL :: nat where "ERR_KMEM_SENTINEL = ERR_PTIMER_SENTINEL + length KMEM_ERROR_CODES"

text \<open>\<^verbatim>\<open>#define EPERM ANSI_EPERM\<close>, for every POSIX code.\<close>

definition macro_value :: "string \<Rightarrow> string" where
  "macro_value nm = (if nm \<in> set ANSI_ERROR_CODES then ''ANSI_'' @ nm else nm)"

definition error_codes :: "(string \<times> nat) list" where
  "error_codes = enum_from 0 SCHED_ERROR_CODES @ enum_from TK_SENTINEL ITC_ERROR_CODES @
     enum_from ERR_ITC_SENTINEL PTIMER_ERROR_CODES @ enum_from ERR_PTIMER_SENTINEL KMEM_ERROR_CODES @
     enum_from ERR_KMEM_SENTINEL (map (\<lambda>nm. ''ANSI_'' @ nm) ANSI_ERROR_CODES)"

section \<open>Messages\<close>

text \<open>
  \<^verbatim>\<open>EC_STRING\<close> expands a name and makes a string of it; the table, first by the names it is
  written with.
\<close>

definition EC_STRING :: "string \<Rightarrow> string" where
  "EC_STRING ec = macro_value ec"

definition errno_table :: "string list" where
  "errno_table = [
    ''TK_OK'', ''TK_ERROR'', ''ERR_TIMEOUT'', ''ERR_OBJDEL'', ''ERR_OBJID'', ''ERR_OBJTYPE'', ''ERR_OBJFULL'',
    ''ERR_BUFSIZ'', ''ERR_NOQCB'', ''ERR_FULL'', ''ERR_NOSCB'', ''ERR_NOSEM'', ''ERR_TATSDEL'', ''ERR_NOMEM'',
    ''ERR_BLOCKLIMIT'', ''ERR_UNDEF_PTIMER'', ''ERR_TIME_NEG'', ''ERR_TIMER_DELETED'', ''ERR_NO_MORE_TIMERS'',
    ''ERR_UNDEF_HEAPID'', ''EPERM'', ''ENOENT'', ''ESRCH'', ''EINTR'', ''EIO'', ''ENXIO'', ''E2BIG'', ''ENOEXEC'',
    ''EBADF'', ''ECHILD'', ''EDEADLK'', ''ENOMEM'', ''EACCES'', ''EFAULT'', ''ENOTBLK'', ''EBUSY'', ''EEXIST'',
    ''EXDEV'', ''ENODEV'', ''ENOTDIR'', ''EISDIR'', ''EINVAL'', ''EMFILE'', ''ENFILE'', ''ENOTTY'', ''ETXTBSY'',
    ''EFBIG'', ''ENOSPC'', ''ESPIPE'', ''EROFS'', ''EMLINK'', ''EPIPE'', ''EDOM'', ''ERANGE'', ''EAGAIN'',
    ''EWOULDBLOCK'', ''EINPROGRESS'', ''EALREADY'', ''ENOTSOCK'', ''EMSGSIZE'', ''EPROTOTYPE'', ''ENOPROTOOPT'',
    ''EPROTONOSUPPORT'', ''ESOCKTNOSUPPORT'', ''EOPNOTSUPP'', ''EPFNOSUPPORT'', ''EAFNOSUPPORT'', ''EADDRINUSE'',
    ''EADDRNOTAVAIL'', ''ENETDOWN'', ''ENETUNREACH'', ''ENETRESET'', ''ECONNABORTED'', ''ECONNRESET'', ''ENOBUFS'',
    ''EISCONN'', ''ENOTCONN'', ''EDESTADDRREQ'', ''ESHUTDOWN'', ''ETOOMANYREFS'', ''ETIMEDOUT'', ''ECONNREFUSED'',
    ''ELOOP'', ''ENAMETOOLONG'', ''EHOSTDOWN'', ''EHOSTUNREACH'', ''ENOTEMPTY'', ''EPROCLIM'', ''EUSERS'',
    ''EDQUOT'', ''ESTALE'', ''EREMOTE'', ''EBADRPC'', ''ERPCMISMATCH'', ''EPROGUNAVAIL'', ''EPROGMISMATCH'',
    ''EPROCUNAVAIL'', ''ENOLCK'', ''EFTYPE'', ''EAUTH'', ''ENEEDAUTH'', ''ENOSYS'', ''ENOTSUP'', ''EILSEQ'',
    ''EBACKGROUND'', ''EDIED'', ''ED'', ''EGREGIOUS'', ''EIEIO'', ''EGRATUITOUS'', ''EBADMSG'', ''EIDRM'',
    ''EMULTIHOP'', ''ENODATA'', ''ENOLINK'', ''ENOMSG'', ''ENOSR'', ''ENOSTR'', ''EOVERFLOW'', ''EPROTO'', ''ETIME'',
    ''ECANCELED'', ''ERESTART'', ''ECHRNG'', ''EL2NSYNC'', ''EL3HLT'', ''EL3RST'', ''ELNRNG'', ''EUNATCH'',
    ''ENOCSI'', ''EL2HLT'', ''EBADE'', ''EBADR'', ''EXFULL'', ''ENOANO'', ''EBADRQC'', ''EBADSLT'', ''EDEADLOCK'',
    ''EBFONT'', ''ENONET'', ''ENOPKG'', ''EADV'', ''ESRMNT'', ''ECOMM'', ''EDOTDOT'', ''ENOTUNIQ'', ''EBADFD'',
    ''EREMCHG'', ''ELIBACC'', ''ELIBBAD'', ''ELIBSCN'', ''ELIBMAX'', ''ELIBEXEC'', ''ESTRPIPE'', ''EUCLEAN'',
    ''ENOTNAM'', ''ENAVAIL'', ''EISNAM'', ''EREMOTEIO'', ''ENOMEDIUM'', ''EMEDIUMTYPE'']"

definition errno_srings :: "string list" where
  "errno_srings = map EC_STRING errno_table"

definition strerror :: "int \<Rightarrow> string result" where
  "strerror errnum = in_bounds (0 \<le> errnum \<and> errnum < int (length errno_srings)) (Inr (errno_srings ! nat errnum))"

text \<open>
  The decimal printer: the digits from \<open>10000000\<close> down, leading zeros left out. A digit is the
  number that is stored, which is a character only when it is between 48 and 57; \<open>a\<close> tells whether
  a digit was printed already.
\<close>

fun ntos_digits :: "nat list \<Rightarrow> int \<Rightarrow> bool \<Rightarrow> int list" where
  "ntos_digits [] num a = []"
| "ntos_digits (d # ds) num a =
     (let dv = num sdiv int d in
      if a \<or> dv \<noteq> 0 then (48 + dv) # ntos_digits ds (num - dv * int d) True else ntos_digits ds num a)"

definition ntos :: "int \<Rightarrow> nat \<Rightarrow> int list result" where
  "ntos num maxlen = (let ds = ntos_digits [10000000, 1000000, 100000, 10000, 1000, 100, 10, 1] num False in
     in_bounds (length ds \<le> maxlen) (Inr (ds @ replicate (maxlen - length ds) 0)))"

section \<open>Traps\<close>

definition trapcode_srings :: "string list" where
  "trapcode_srings = [''No Trap Error'', ''Total amount of threads would exceed limit'', ''Assertion failed'',
    ''Chosen priority too high'', ''Unknown'', ''Stack out of bounds check faliure'', ''Stack integrity faliure detected'',
    ''To many threads at this prio'', ''Kernel running amok detected'', ''Thread-name to long'',
    ''No memory left for allocation'', ''Invalid ETKB detected'', ''Unknown'', ''Unknown'', ''Unknown'',
    ''HW driver detected a fatal error'', ''Undefined termination reason (or reason not known to TinKer): '']"

text \<open>What \<^verbatim>\<open>tk_trap\<close> prints after the code, before it stops for ever.\<close>

datatype trap_line = Trap_text string | Trap_exit "32 word" | Trap_bit nat string

definition trap_report :: "32 word \<Rightarrow> trap_line list" where
  "trap_report ec =
     (if ec = 0 then [Trap_text (trapcode_srings ! 0)]
      else if ec AND TC_ISA_ERR = 0 then [Trap_text (trapcode_srings ! 16), Trap_exit ec]
      else map (\<lambda>i. Trap_bit (i + 1) (trapcode_srings ! (i + 1))) (filter (\<lambda>i. ec AND push_bit i 1 \<noteq> 0) [0..<15]))"

end
