(* ===== verification/TkErrorProps.thy ===== *)
theory TkErrorProps
  imports TkError
begin

text \<open>
  The table of messages agrees with the enumerations, the decimal printer prints what it is
  given, and a trap is reported bit by bit.
\<close>

section \<open>Messages\<close>

lemma table_parts: "errno_table = SCHED_ERROR_CODES @ ITC_ERROR_CODES @ PTIMER_ERROR_CODES @ KMEM_ERROR_CODES @ ANSI_ERROR_CODES"
  by (simp add: errno_table_def SCHED_ERROR_CODES_def ITC_ERROR_CODES_def PTIMER_ERROR_CODES_def KMEM_ERROR_CODES_def
      ANSI_ERROR_CODES_def)

lemma not_macros:
  "set (SCHED_ERROR_CODES @ ITC_ERROR_CODES @ PTIMER_ERROR_CODES @ KMEM_ERROR_CODES) \<inter> set ANSI_ERROR_CODES = {}"
  by (simp add: SCHED_ERROR_CODES_def ITC_ERROR_CODES_def PTIMER_ERROR_CODES_def KMEM_ERROR_CODES_def ANSI_ERROR_CODES_def)

lemma fst_enum_from [simp]: "map fst (enum_from n names) = names" "map snd (enum_from n names) = [n..<n + length names]"
  by (simp_all add: enum_from_def)

lemma error_names: "errno_srings = map fst error_codes"
proof -
  have own: "map EC_STRING ns = ns" if "set ns \<inter> set ANSI_ERROR_CODES = {}" for ns
    using that by (intro map_idI) (auto simp: EC_STRING_def macro_value_def)
  have "map EC_STRING ANSI_ERROR_CODES = map (\<lambda>nm. ''ANSI_'' @ nm) ANSI_ERROR_CODES"
    by (intro map_cong refl) (simp add: EC_STRING_def macro_value_def)
  with own [OF not_macros] show ?thesis by (simp add: errno_srings_def table_parts error_codes_def)
qed

lemma sentinels [simp]:
  "length SCHED_ERROR_CODES = 2" "length ITC_ERROR_CODES = 13" "length PTIMER_ERROR_CODES = 4" "length KMEM_ERROR_CODES = 1"
  "length ANSI_ERROR_CODES = 141" "TK_SENTINEL = 2" "ERR_ITC_SENTINEL = 15" "ERR_PTIMER_SENTINEL = 19" "ERR_KMEM_SENTINEL = 20"
  by (simp_all add: SCHED_ERROR_CODES_def ITC_ERROR_CODES_def PTIMER_ERROR_CODES_def KMEM_ERROR_CODES_def ANSI_ERROR_CODES_def
      TK_SENTINEL_def ERR_ITC_SENTINEL_def ERR_PTIMER_SENTINEL_def ERR_KMEM_SENTINEL_def)

lemma error_numbers: "map snd error_codes = [0..<161]"
proof -
  have split: "[i..<k] = [i..<j] @ [j..<k]" if "i \<le> j" "j \<le> k" for i j k :: nat
    using that by (metis le_Suc_ex upt_add_eq_append)
  show ?thesis
    using split [of 0 2 161] split [of 2 15 161] split [of 15 19 161] split [of 19 20 161] by (simp add: error_codes_def) (simp add: upt_rec)
qed

lemma error_count [simp]: "length errno_srings = 161" "length error_codes = 161"
  using arg_cong [OF error_names, of length] arg_cong [OF error_numbers, of length] by simp_all

lemma error_code_at: "i < 161 \<Longrightarrow> error_codes ! i = (errno_srings ! i, i)"
  using arg_cong [OF error_numbers, of "\<lambda>xs. xs ! i"] by (simp add: error_names prod_eq_iff)

text \<open>
  The enumerations number the error codes from \<open>0\<close> without a gap, and \<open>strerror\<close> of every
  code is its name; behind the last code, and of a negative number, \<open>strerror\<close> reads outside
  the table.
\<close>

theorem strerror_names:
  "map (\<lambda>(nm, v). strerror (int v)) error_codes = map (\<lambda>(nm, v). Inr nm) error_codes \<and>
    map snd error_codes = [0..<161] \<and> strerror 161 = Inl Out_of_bounds \<and> strerror (- 1) = Inl Out_of_bounds"
proof -
  have "map (\<lambda>(nm, v). strerror (int v)) error_codes = map (\<lambda>(nm, v). Inr nm) error_codes"
    by (rule nth_equalityI) (simp_all add: error_code_at strerror_def)
  then show ?thesis by (simp add: error_numbers strerror_def)
qed

section \<open>Numbers\<close>

definition powers :: "nat \<Rightarrow> nat list" where
  "powers k = map (\<lambda>i. 10 ^ i) (rev [0..<k])"

definition read_digit :: "int \<Rightarrow> int \<Rightarrow> int" where
  "read_digit v d = v * 10 + (d - 48)"

lemma sdiv_pos: "0 \<le> (a :: int) \<Longrightarrow> 0 < b \<Longrightarrow> a sdiv b = a div b"
  by (cases "a = 0") (simp_all add: signed_divide_int_def sgn_if)

lemma ntos_digits_read:
  assumes "0 \<le> n" "n < 10 ^ k"
  shows "set (ntos_digits (powers k) n a) \<subseteq> {48..57} \<and>
    (if a then length (ntos_digits (powers k) n a) = k \<and> foldl read_digit v (ntos_digits (powers k) n a) = v * 10 ^ k + n
     else length (ntos_digits (powers k) n a) \<le> k \<and> foldl read_digit 0 (ntos_digits (powers k) n a) = n)"
  using assms
proof (induction k arbitrary: n a v)
  case 0
  then show ?case by (simp add: powers_def)
next
  case (Suc k)
  let ?d = "n div 10 ^ k"
  have p: "powers (Suc k) = 10 ^ k # powers k" by (simp add: powers_def)
  have dv: "n sdiv 10 ^ k = ?d" using Suc.prems(1) by (simp add: sdiv_pos)
  have r: "n - ?d * 10 ^ k = n mod 10 ^ k" by (simp add: minus_div_mult_eq_mod)
  have "?d * 10 ^ k \<le> n" by (metis add_increasing2 div_mult_mod_eq order_refl pos_mod_sign zero_less_numeral zero_less_power)
  then have "?d * 10 ^ k < 10 * 10 ^ k" by (rule le_less_trans) (use Suc.prems(2) in simp)
  then have "?d < 10" by (rule mult_right_less_imp_less) simp
  then have d: "0 \<le> ?d" "?d \<le> 9" using Suc.prems(1) by (simp_all add: pos_imp_zdiv_nonneg_iff)
  have m: "0 \<le> n mod 10 ^ k" "n mod 10 ^ k < 10 ^ k" by simp_all
  have n: "?d * 10 ^ k + n mod 10 ^ k = n" by (rule div_mult_mod_eq)
  show ?case
  proof (cases "a \<or> ?d \<noteq> 0")
    case True
    have e: "ntos_digits (powers (Suc k)) n a = (48 + ?d) # ntos_digits (powers k) (n mod 10 ^ k) True"
      using True by (simp add: p dv Let_def flip: r)
    show ?thesis unfolding e using Suc.IH [OF m, of True] d n
      by (auto simp: read_digit_def algebra_simps)
  next
    case False
    then have e: "ntos_digits (powers (Suc k)) n a = ntos_digits (powers k) n a" by (simp add: p dv)
    have "n = n mod 10 ^ k" using False n by simp
    then have "n < 10 ^ k" using m(2) by linarith
    then show ?thesis unfolding e using Suc.IH [OF Suc.prems(1), of a v] False by auto
  qed
qed

lemma powers_8: "[10000000, 1000000, 100000, 10000, 1000, 100, 10, 1] = powers 8"
  by (simp add: powers_def upt_rec)

text \<open>
  A number of at most eight digits is printed as its decimal digits, which read back as the
  number; nothing is printed for zero.
\<close>

lemma ntos_prints:
  assumes "0 \<le> n" "n < 100000000" "8 \<le> maxlen"
  shows "\<exists>ds. ntos n maxlen = Inr (ds @ replicate (maxlen - length ds) 0) \<and> set ds \<subseteq> {48..57} \<and>
    foldl read_digit 0 ds = n \<and> (n = 0 \<longrightarrow> ds = [])"
proof -
  let ?ds = "ntos_digits (powers 8) n False"
  have "n < 10 ^ 8" using assms(2) by simp
  from ntos_digits_read [OF assms(1) this, of False] have
    d: "set ?ds \<subseteq> {48..57}" "length ?ds \<le> 8" "foldl read_digit 0 ?ds = n" by simp_all
  have "n = 0 \<longrightarrow> ?ds = []" by (simp add: powers_8 [symmetric])
  moreover have "ntos n maxlen = Inr (?ds @ replicate (maxlen - length ?ds) 0)"
    unfolding ntos_def powers_8 using d(2) assms(3) by (simp add: Let_def)
  ultimately show ?thesis using d by blast
qed

section \<open>Traps\<close>

text \<open>Each bit of a trap code is reported once, with its text, from the lowest.\<close>

lemma trap_report_bits:
  assumes "ec AND TC_ISA_ERR \<noteq> 0"
  shows "trap_report ec = map (\<lambda>i. Trap_bit (i + 1) (trapcode_srings ! (i + 1))) (filter (\<lambda>i. bit ec i) [0..<15])"
proof -
  have "ec AND push_bit i 1 \<noteq> 0 \<longleftrightarrow> bit ec i" if "i < 15" for i
    using that by (simp add: bit_iff_and_push_bit_not_eq_0)
  then have "filter (\<lambda>i. ec AND push_bit i 1 \<noteq> 0) [0..<15] = filter (\<lambda>i. bit ec i) [0..<15]"
    by (intro filter_cong refl) simp
  moreover have "ec \<noteq> 0" using assms by auto
  ultimately show ?thesis using assms by (simp add: trap_report_def)
qed

end
