(* ===== verification/TkTime.thy ===== *)
theory TkTime
  imports TkSemaphore "HOL-Library.Signed_Division"
begin

text \<open>
  The time functions: \<^verbatim>\<open>src/time.c\<close>, \<^verbatim>\<open>src/tk_tick.c\<close> and the tick of
  \<^verbatim>\<open>tk_tick.h\<close>. The time since the start is kept in two words, \<open>sys_mackey\<close> above
  \<open>sys_mickey\<close>, which counts milliseconds; what passed since the last tick is read from a hardware
  counter that counts down. The counter (its quality and what it reads) is a parameter of the
  functions that read it.
\<close>

section \<open>The tick\<close>

record tick_t =
  sys_mickey :: "32 word"
  sys_mackey :: "32 word"

definition tk_tick_advance_mS :: "32 word \<Rightarrow> tick_t \<Rightarrow> tick_t" where
  "tk_tick_advance_mS adv s =
     (if sys_mickey s + adv < sys_mickey s
      then s\<lparr>sys_mickey := sys_mickey s + adv, sys_mackey := sys_mackey s + 1\<rparr>
      else s\<lparr>sys_mickey := sys_mickey s + adv\<rparr>)"

section \<open>The clock\<close>

record HWclock_stats_t =
  freq_hz :: "32 word"
  res :: "8 word"
  perPebbles :: "32 word"
  maxPebbles :: "32 word"

definition TICK_PER_CLK :: "32 word" where "TICK_PER_CLK = 1000"

text \<open>\<^verbatim>\<open>clock\<close> in a build without a hardware clock.\<close>

definition soft_clock :: "tick_t \<Rightarrow> 32 word" where
  "soft_clock s = TICK_PER_CLK * sys_mickey s"

text \<open>\<^verbatim>\<open>1000000L / (freq_hz / 100)\<close> and its kin.\<close>

definition pebble_scale :: "32 word \<Rightarrow> HWclock_stats_t \<Rightarrow> 32 word \<Rightarrow> 32 word result" where
  "pebble_scale unit hw n = (if freq_hz hw div 100 = 0 then Inl Div_by_zero
     else Inr (n * (unit div (freq_hz hw div 100)) div 100))"

text \<open>Whether \<^verbatim>\<open>(res > 16) && (freq_hz < 1000000)\<close>.\<close>

definition too_fine :: "HWclock_stats_t \<Rightarrow> bool" where
  "too_fine hw = (res hw > 16 \<and> freq_hz hw < 1000000)"

text \<open>
  \<^verbatim>\<open>clock\<close> with a hardware clock, whose counter reads \<open>pebbles\<close>, an \<^verbatim>\<open>int\<close>
  of the 16 bit target.
\<close>

definition hw_clock :: "HWclock_stats_t \<Rightarrow> 16 word \<Rightarrow> tick_t \<Rightarrow> 32 word result" where
  "hw_clock hw pebbles s = c_assert (\<not> too_fine hw)
     (let uS = sys_mickey s * 1000; crossed = sint pebbles < 0;
          uS' = (if crossed then uS + 1 else uS);
          p = (if crossed then - pebbles else pebbles)
      in andThen (pebble_scale 1000000 hw (maxPebbles hw - scast p)) (\<lambda>TuS. Inr (uS' + TuS)))"

text \<open>
  \<^verbatim>\<open>time\<close> returns \<^verbatim>\<open>clock()\<close> and stores it when it is given a place for it;
  \<^verbatim>\<open>times\<close>, \<^verbatim>\<open>gettimeofday\<close> and \<^verbatim>\<open>settimeofday\<close> assert a string,
  which always holds.
\<close>

definition c_time :: "32 word \<Rightarrow> 32 word option \<Rightarrow> 32 word \<times> 32 word option" where
  "c_time now slot = (now, case slot of None \<Rightarrow> None | Some _ \<Rightarrow> Some now)"

definition times :: "32 word \<Rightarrow> 32 word" where "times now = now"

definition gettimeofday :: "'tv \<Rightarrow> int \<times> 'tv" where "gettimeofday tp = (0, tp)"

definition settimeofday :: "'tv \<Rightarrow> int" where "settimeofday tp = 0"

section \<open>Uptime\<close>

definition FACTOR :: "32 word" where "FACTOR = 0x418937"
definition FFRACT :: "32 word" where "FFRACT = 0x128"

record timespec =
  ts_sec :: "32 word"
  ts_nsec :: "32 word"

definition TC_ERR_HW :: "32 word" where "TC_ERR_HW = 0x4000 OR TC_ISA_ERR"

definition getnanouptime :: "HWclock_stats_t \<Rightarrow> 32 word \<Rightarrow> tick_t \<Rightarrow> timespec result" where
  "getnanouptime hw pebbles s =
     (if too_fine hw then Inl (Tk_exit TC_ERR_HW)
      else andThen (pebble_scale 1000000000 hw (maxPebbles hw - pebbles)) (\<lambda>TnS.
        let MSmS = sys_mackey s; LSmS = sys_mickey s;
            MSfrac = (MSmS mod 1000) * FACTOR + ((MSmS mod 1000) * FFRACT) div 1000;
            MSrest = ((MSmS mod 1000) * FFRACT) mod 1000;
            LSS = LSmS div 1000 + MSfrac;
            nS = ((LSmS mod 1000) + MSrest) * 1000000 + TnS
        in Inr \<lparr>ts_sec = LSS + nS div 1000000000, ts_nsec = nS mod 1000000000\<rparr>))"

definition CLOCK_REALTIME :: int where "CLOCK_REALTIME = 0"
definition CLOCK_MONOTONIC :: int where "CLOCK_MONOTONIC = 1"

definition clock_gettime :: "HWclock_stats_t \<Rightarrow> 32 word \<Rightarrow> tick_t \<Rightarrow> int \<Rightarrow> timespec \<Rightarrow> (int \<times> timespec) result" where
  "clock_gettime hw pebbles s clock_id tp =
     (if clock_id = CLOCK_REALTIME then Inl Assert_failed
      else if clock_id = CLOCK_MONOTONIC then andThen (getnanouptime hw pebbles s) (\<lambda>t. Inr (0, t))
      else Inr (E_INVAL, tp))"

section \<open>Conversions\<close>

text \<open>Signed division of C, towards zero, on \<^verbatim>\<open>long\<close>.\<close>

definition c_div :: "32 word \<Rightarrow> int \<Rightarrow> 32 word" where
  "c_div a b = word_of_int (sint a sdiv b)"

definition c_rem :: "32 word \<Rightarrow> int \<Rightarrow> 32 word" where
  "c_rem a b = word_of_int (sint a smod b)"

record fmttime =
  days :: "32 word"
  hrs :: "32 word"
  mins :: "32 word"
  secs :: "32 word"
  nanos :: "32 word"

definition timespec2fmttime_np :: "timespec \<Rightarrow> fmttime" where
  "timespec2fmttime_np t =
     \<lparr>days = c_div (ts_sec t) 86400,
      hrs = c_div (c_rem (ts_sec t) 86400) 3600,
      mins = c_div (c_rem (c_rem (ts_sec t) 86400) 3600) 60,
      secs = c_rem (c_rem (c_rem (ts_sec t) 86400) 3600) 60,
      nanos = ts_nsec t\<rparr>"

record timeval =
  tv_sec :: "32 word"
  tv_usec :: "32 word"

text \<open>
  \<^verbatim>\<open>timeval_subtract\<close>: the difference, what becomes of \<open>y\<close>, which the function changes, and
  whether \<open>x\<close> is before \<open>y\<close>.
\<close>

definition borrow_up :: "timeval \<Rightarrow> timeval \<Rightarrow> timeval" where
  "borrow_up x y =
     (if tv_usec x <s tv_usec y
      then let nsec = c_div (tv_usec y - tv_usec x) 1000000 + 1
           in y\<lparr>tv_usec := tv_usec y - 1000000 * nsec, tv_sec := tv_sec y + nsec\<rparr>
      else y)"

definition carry_down :: "timeval \<Rightarrow> timeval \<Rightarrow> timeval" where
  "carry_down x y =
     (if 1000000 <s tv_usec x - tv_usec y
      then let nsec = c_div (tv_usec x - tv_usec y) 1000000
           in y\<lparr>tv_usec := tv_usec y + 1000000 * nsec, tv_sec := tv_sec y - nsec\<rparr>
      else y)"

definition timeval_subtract :: "timeval \<Rightarrow> timeval \<Rightarrow> timeval \<times> timeval \<times> bool" where
  "timeval_subtract x y =
     (let y' = carry_down x (borrow_up x y)
      in (\<lparr>tv_sec = tv_sec x - tv_sec y', tv_usec = tv_usec x - tv_usec y'\<rparr>, y', tv_sec x <s tv_sec y'))"

end
