(* ===== verification/TkTimeProps.thy ===== *)
theory TkTimeProps
  imports TkTime
begin

text \<open>
  The tick counts modulo \<open>2 ^ 64\<close>; \<^verbatim>\<open>getnanouptime\<close> converts it exactly, as long as
  the scaling of the hardware counter does not wrap; the conversions lose nothing; the subtraction of times gives the normal form of the difference.
\<close>

section \<open>The tick\<close>

definition uptime_ms :: "tick_t \<Rightarrow> nat" where
  "uptime_ms s = unat (sys_mackey s) * 2 ^ 32 + unat (sys_mickey s)"

lemma unat_32: "unat (x :: 32 word) < 2 ^ 32"
  using unsigned_less [of x] by simp

lemma unat_plus_32: "unat (x + y :: 32 word) = (if unat x + unat y < 2 ^ 32 then unat x + unat y else unat x + unat y - 2 ^ 32)"
  using unat_32 [of x] unat_32 [of y] by (simp add: unat_word_ariths) (simp add: le_mod_geq)

lemma word_overflow: "(x :: 32 word) + y < x \<longleftrightarrow> 2 ^ 32 \<le> unat x + unat y"
  using unat_32 [of x] unat_32 [of y] by (auto simp: word_less_nat_alt unat_plus_32)

text \<open>
  A tick of \<open>adv\<close> milliseconds advances the double word of the uptime by \<open>adv\<close>, modulo
  \<open>2 ^ 64\<close>: the carry into the upper word is never lost.
\<close>

theorem tick_counts: "uptime_ms (tk_tick_advance_mS adv s) = (uptime_ms s + unat adv) mod 2 ^ 64"
proof -
  let ?l = "unat (sys_mickey s)" and ?m = "unat (sys_mackey s)" and ?a = "unat adv"
  have b: "?l < 2 ^ 32" "?m < 2 ^ 32" "?a < 2 ^ 32" by (rule unat_32)+
  show ?thesis
  proof (cases "?l + ?a < 2 ^ 32")
    case True
    then have "uptime_ms (tk_tick_advance_mS adv s) = uptime_ms s + ?a"
      by (simp add: tk_tick_advance_mS_def word_overflow uptime_ms_def unat_plus_32)
    moreover have "uptime_ms s + ?a < 2 ^ 64" using True b(2) by (simp add: uptime_ms_def)
    ultimately show ?thesis by simp
  next
    case False
    then have e: "uptime_ms (tk_tick_advance_mS adv s) = unat (sys_mackey s + 1) * 2 ^ 32 + (?l + ?a - 2 ^ 32)"
      by (simp add: tk_tick_advance_mS_def word_overflow uptime_ms_def unat_plus_32)
    show ?thesis
    proof (cases "?m + 1 < 2 ^ 32")
      case True
      then show ?thesis using False b unfolding e by (simp add: uptime_ms_def unat_plus_32)
    next
      case m: False
      then have "uptime_ms s + ?a = 2 ^ 64 + (?l + ?a - 2 ^ 32)" using False b by (simp add: uptime_ms_def)
      moreover have "unat (sys_mackey s + 1) = 0" using m b by (simp add: unat_plus_32)
      ultimately show ?thesis using b unfolding e by simp
    qed
  qed
qed

section \<open>Uptime\<close>

lemma unat_add_32: "unat x + unat y < 2 ^ 32 \<Longrightarrow> unat (x + y :: 32 word) = unat x + unat y"
  by (simp add: unat_plus_32)

lemma unat_mult_32: "unat x * unat y < 2 ^ 32 \<Longrightarrow> unat (x * y :: 32 word) = unat x * unat y"
  by (simp add: unat_word_ariths)

text \<open>The seconds and the rest of \<open>M * 2 ^ 32 + L\<close> milliseconds, as the code finds them.\<close>

lemma seconds_of_ms:
  fixes M L :: nat
  shows "(L div 1000 + (M * 4294967 + M * 296 div 1000)) * 1000 + (L mod 1000 + M * 296 mod 1000) = M * 2 ^ 32 + L"
proof -
  have "L div 1000 * 1000 + L mod 1000 = L" "M * 296 div 1000 * 1000 + M * 296 mod 1000 = M * 296"
    by (rule div_mult_mod_eq)+
  then show ?thesis by simp
qed

lemma quotient_less: "X * D + R = (V :: nat) \<Longrightarrow> V < P * D \<Longrightarrow> X < P"
  by (metis le_add1 le_less_trans mult_less_cancel2)

text \<open>
  The part of a tick that has passed, in nanoseconds: \<open>n\<close> steps of a counter of frequency \<open>f\<close>
  (in Hz), rounded down as the code rounds. If \<open>f\<close> is a multiple of 100 and \<open>f div 100\<close> divides
  \<open>10 ^ 9\<close>, this is \<open>n * 10 ^ 9 div f\<close>.
\<close>

definition tick_part :: "nat \<Rightarrow> nat \<Rightarrow> nat" where
  "tick_part f n = n * (10 ^ 9 div (f div 100)) div 100"

lemma tick_part_exact:
  assumes "100 dvd f" "f div 100 dvd 10 ^ 9" "f \<noteq> 0"
  shows "tick_part f n = n * 10 ^ 9 div f"
proof -
  obtain d where d: "f = 100 * d" "d \<noteq> 0" using assms(1,3) by (auto elim: dvdE)
  then obtain e where e: "10 ^ 9 = d * e" using assms(2) by (auto elim: dvdE)
  have "n * 10 ^ 9 div f = (n * e) * d div (100 * d)" unfolding e d(1) by (simp only: mult_ac)
  also have "\<dots> = n * e div 100" using d(2) by (metis div_mult_mult2)
  finally show ?thesis using d unfolding tick_part_def e by simp
qed

lemma pebble_scale_small:
  fixes hw pebbles defines "n \<equiv> unat (maxPebbles hw) - unat pebbles"
  assumes "100 \<le> unat (freq_hz hw)" "unat pebbles \<le> unat (maxPebbles hw)"
    and "n * (10 ^ 9 div (unat (freq_hz hw) div 100)) < 2 ^ 32"
  obtains TnS where "pebble_scale 1000000000 hw (maxPebbles hw - pebbles) = Inr TnS"
    "unat TnS = tick_part (unat (freq_hz hw)) n" "unat TnS < 10 ^ 9"
proof -
  let ?f = "unat (freq_hz hw) div 100" and ?w = "maxPebbles hw - pebbles"
  have f: "unat (freq_hz hw div 100) = ?f" "?f \<noteq> 0" using assms(2) by (simp_all add: unat_div)
  then have nz: "freq_hz hw div 100 \<noteq> 0" by (metis unat_0)
  have n: "unat ?w = n" using assms(3) by (simp add: n_def unat_sub word_le_nat_alt)
  have q: "unat (1000000000 div (freq_hz hw div 100)) = 10 ^ 9 div ?f" by (simp add: unat_div)
  have m: "unat (?w * (1000000000 div (freq_hz hw div 100))) = n * (10 ^ 9 div ?f)"
    using assms(4) unfolding n [symmetric] q [symmetric] by (rule unat_mult_32)
  let ?T = "?w * (1000000000 div (freq_hz hw div 100)) div 100"
  have T: "unat ?T = tick_part (unat (freq_hz hw)) n" by (simp add: unat_div m [simplified] tick_part_def)
  moreover have "tick_part (unat (freq_hz hw)) n < 10 ^ 9"
    using assms(4) div_le_mono [of "n * (10 ^ 9 div ?f)" "2 ^ 32" 100] by (simp add: tick_part_def)
  ultimately show ?thesis using that [of ?T] nz by (simp add: pebble_scale_def)
qed

text \<open>
  C23. As long as the uptime fits into \<open>2 ^ 32\<close> seconds, the counter runs at 100 Hz or more and
  the product by which the code scales what the counter has counted down since the last tick fits
  into 32 bits, \<^verbatim>\<open>getnanouptime\<close> returns the time: its seconds and nanoseconds add up to
  the milliseconds counted plus that part of a tick, which is scaled without wrapping and rounded
  down as the code rounds it, and the nanoseconds are below \<open>10 ^ 9\<close>.
\<close>

theorem nanouptime_exact:
  assumes "\<not> too_fine hw" "100 \<le> unat (freq_hz hw)" "unat pebbles \<le> unat (maxPebbles hw)"
    "(unat (maxPebbles hw) - unat pebbles) * (10 ^ 9 div (unat (freq_hz hw) div 100)) < 2 ^ 32"
    "uptime_ms s * 10 ^ 6 + tick_part (unat (freq_hz hw)) (unat (maxPebbles hw) - unat pebbles) < 2 ^ 32 * 10 ^ 9"
  shows "\<exists>t. getnanouptime hw pebbles s = Inr t \<and> unat (ts_nsec t) < 10 ^ 9 \<and>
    unat (ts_sec t) * 10 ^ 9 + unat (ts_nsec t) =
      uptime_ms s * 10 ^ 6 + tick_part (unat (freq_hz hw)) (unat (maxPebbles hw) - unat pebbles)"
proof -
  obtain TnS where T: "pebble_scale 1000000000 hw (maxPebbles hw - pebbles) = Inr TnS"
    "unat TnS = tick_part (unat (freq_hz hw)) (unat (maxPebbles hw) - unat pebbles)" "unat TnS < 10 ^ 9"
    by (rule pebble_scale_small [OF assms(2-4)])
  note small = assms(5) [folded T(2)]
  let ?M = "unat (sys_mackey s)" and ?L = "unat (sys_mickey s)"
  let ?sec = "?L div 1000 + (?M * 4294967 + ?M * 296 div 1000)" and ?ms = "?L mod 1000 + ?M * 296 mod 1000"
  have up: "?sec * 1000 + ?ms = uptime_ms s" unfolding uptime_ms_def by (rule seconds_of_ms)
  have ms: "?ms < 1999" by (simp add: add_less_le_mono less_Suc_eq_le)
  have M: "?M < 1000" using small by (simp add: uptime_ms_def)
  let ?nS = "?ms * 1000000 + unat TnS"
  have "(?sec + ?nS div 10 ^ 9) * 10 ^ 9 + ?nS mod 10 ^ 9 = ?sec * 10 ^ 9 + ?nS"
    unfolding add_mult_distrib by (simp only: add.assoc div_mult_mod_eq)
  also have "\<dots> = (?sec * 1000 + ?ms) * 10 ^ 6 + unat TnS" unfolding add_mult_distrib by simp
  finally have total: "(?sec + ?nS div 10 ^ 9) * 10 ^ 9 + ?nS mod 10 ^ 9 = uptime_ms s * 10 ^ 6 + unat TnS"
    unfolding up .
  then have fits: "?sec + ?nS div 10 ^ 9 < 2 ^ 32" using small by (rule quotient_less)
  have m: "unat (sys_mackey s mod 1000) = ?M" using M by (simp add: unat_mod)
  have frac: "unat ((sys_mackey s mod 1000) * FFRACT) = ?M * 296"
    using M by (subst unat_mult_32) (simp_all add: m FFRACT_def)
  have fac: "unat ((sys_mackey s mod 1000) * FACTOR) = ?M * 4294967"
    using M by (subst unat_mult_32) (simp_all add: m FACTOR_def)
  have MSfrac: "unat ((sys_mackey s mod 1000) * FACTOR + ((sys_mackey s mod 1000) * FFRACT) div 1000) =
      ?M * 4294967 + ?M * 296 div 1000"
    using fits by (subst unat_add_32) (simp_all add: unat_div frac fac)
  have LSS: "unat (sys_mickey s div 1000 + ((sys_mackey s mod 1000) * FACTOR + ((sys_mackey s mod 1000) * FFRACT) div 1000)) = ?sec"
    using fits by (subst unat_add_32) (simp_all add: unat_div MSfrac)
  have msw: "unat (sys_mickey s mod 1000 + ((sys_mackey s mod 1000) * FFRACT) mod 1000) = ?ms"
    using ms by (subst unat_add_32) (simp_all add: unat_mod frac)
  have msu: "unat ((sys_mickey s mod 1000 + ((sys_mackey s mod 1000) * FFRACT) mod 1000) * 1000000) = ?ms * 1000000"
    using ms by (subst unat_mult_32) (simp_all add: msw)
  have nS: "unat ((sys_mickey s mod 1000 + ((sys_mackey s mod 1000) * FFRACT) mod 1000) * 1000000 + TnS) = ?nS"
    using ms T(3) by (subst unat_add_32) (simp_all only: msu, simp)
  show ?thesis
    using assms(1) T(1) fits total unfolding T(2) [symmetric]
    by (simp add: getnanouptime_def Let_def unat_mod unat_div nS [simplified] unat_add_32 LSS [simplified])
qed

theorem nanouptime_exact_witness:
  "\<exists>t. getnanouptime \<lparr>freq_hz = 1000000, res = 16, perPebbles = 1000, maxPebbles = 1000\<rparr> 400
      \<lparr>sys_mickey = 5, sys_mackey = 2\<rparr> = Inr t \<and>
    unat (ts_sec t) * 10 ^ 9 + unat (ts_nsec t) = 8589934597 * 10 ^ 6 + 600000"
  using nanouptime_exact [of "\<lparr>freq_hz = 1000000, res = 16, perPebbles = 1000, maxPebbles = 1000\<rparr>" 400
      "\<lparr>sys_mickey = 5, sys_mackey = 2\<rparr>"]
  by (auto simp: too_fine_def uptime_ms_def tick_part_def)

text \<open>
  Where the product wraps the time is wrong: of a counter of 1 MHz with 65000 steps to a tick,
  65 ms after a tick \<^verbatim>\<open>getnanouptime\<close> returns 22050327 ns.
\<close>

theorem nanouptime_wraps:
  "tick_part 1000000 65000 = 65000000 \<and>
    getnanouptime \<lparr>freq_hz = 1000000, res = 16, perPebbles = 1000, maxPebbles = 65000\<rparr> 0
      \<lparr>sys_mickey = 0, sys_mackey = 0\<rparr> = Inr \<lparr>ts_sec = 0, ts_nsec = 22050327\<rparr>"
  by (simp add: tick_part_def getnanouptime_def too_fine_def pebble_scale_def FACTOR_def FFRACT_def)

section \<open>Conversions\<close>

lemma sint_of_int_32: "- (2 ^ 31) \<le> i \<Longrightarrow> i < 2 ^ 31 \<Longrightarrow> sint (word_of_int i :: 32 word) = i"
  by (simp add: sint_sbintrunc' signed_take_bit_int_eq_self)

lemma sint_32: "- (2 ^ 31) \<le> sint (w :: 32 word)" "sint (w :: 32 word) < 2 ^ 31"
  using sint_greater_eq [of w] sint_less [of w] by simp_all

lemma sint_plus_32:
  assumes "- (2 ^ 31) \<le> sint x + sint y" "sint x + sint y < 2 ^ 31"
  shows "sint (x + y :: 32 word) = sint x + sint y"
  using sint_of_int_32 [OF assms] by simp

lemma sint_minus_32:
  assumes "- (2 ^ 31) \<le> sint x - sint y" "sint x - sint y < 2 ^ 31"
  shows "sint (x - y :: 32 word) = sint x - sint y"
  using sint_of_int_32 [OF assms] by simp

lemma sdiv_nonneg: "0 \<le> (a :: int) \<Longrightarrow> 0 < b \<Longrightarrow> a sdiv b = a div b \<and> a smod b = a mod b"
  by (cases "a = 0") (simp_all add: signed_divide_int_def signed_modulo_int_def minus_div_mult_eq_mod)

lemma div_le_self: "0 \<le> (a :: int) \<Longrightarrow> 0 < b \<Longrightarrow> a div b \<le> a"
  using zdiv_mono2 [of a 1 b] by simp

lemma c_div_rem:
  assumes "0 \<le> sint a" "0 < b"
  shows "sint (c_div a b) = sint a div b" "sint (c_rem a b) = sint a mod b"
proof -
  note r = sint_32 [of a]
  have "0 \<le> sint a div b" using assms by (simp add: pos_imp_zdiv_nonneg_iff)
  moreover have "sint a div b < 2 ^ 31" using div_le_self [OF assms] r(2) by linarith
  ultimately show "sint (c_div a b) = sint a div b"
    using assms by (simp add: c_div_def sdiv_nonneg sint_of_int_32)
  have "0 \<le> sint a mod b" using assms by simp
  moreover have "sint a mod b < 2 ^ 31" using zmod_le_nonneg_dividend [OF assms(1), of b] r(2) by linarith
  ultimately show "sint (c_rem a b) = sint a mod b"
    using assms by (simp only: c_rem_def sdiv_nonneg sint_of_int_32)
qed

lemma mixed_radix:
  "x * 86400 + r = s \<Longrightarrow> h * 3600 + r' = r \<Longrightarrow> n * 60 + c = r' \<Longrightarrow> x * 86400 + h * 3600 + n * 60 + c = (s :: int)"
  by simp

text \<open>
  \<^verbatim>\<open>timespec2fmttime_np\<close> loses nothing: days, hours, minutes and seconds are in their
  ranges and add up to the seconds again, and the nanoseconds are kept.
\<close>

theorem fmttime_round_trip:
  assumes "0 \<le> sint (ts_sec t)"
  shows "sint (days (timespec2fmttime_np t)) * 86400 + sint (hrs (timespec2fmttime_np t)) * 3600 +
      sint (mins (timespec2fmttime_np t)) * 60 + sint (secs (timespec2fmttime_np t)) = sint (ts_sec t) \<and>
    sint (hrs (timespec2fmttime_np t)) \<in> {0..<24} \<and> sint (mins (timespec2fmttime_np t)) \<in> {0..<60} \<and>
    sint (secs (timespec2fmttime_np t)) \<in> {0..<60} \<and> nanos (timespec2fmttime_np t) = ts_nsec t"
proof -
  let ?s = "sint (ts_sec t)"
  have d: "?s div 86400 * 86400 + ?s mod 86400 = ?s" "?s mod 86400 div 3600 * 3600 + ?s mod 86400 mod 3600 = ?s mod 86400"
    "?s mod 86400 mod 3600 div 60 * 60 + ?s mod 86400 mod 3600 mod 60 = ?s mod 86400 mod 3600"
    by (rule div_mult_mod_eq)+
  have "?s mod 86400 div 3600 < 24" "?s mod 86400 mod 3600 div 60 < 60"
    using pos_mod_bound [of 86400 ?s] pos_mod_bound [of 3600 "?s mod 86400"] by linarith+
  moreover have "sint (days (timespec2fmttime_np t)) = ?s div 86400" "sint (hrs (timespec2fmttime_np t)) = ?s mod 86400 div 3600"
    "sint (mins (timespec2fmttime_np t)) = ?s mod 86400 mod 3600 div 60"
    "sint (secs (timespec2fmttime_np t)) = ?s mod 86400 mod 3600 mod 60"
    using assms by (simp_all only: timespec2fmttime_np_def fmttime.simps c_div_rem zero_less_numeral pos_mod_sign)
  moreover have "0 \<le> ?s mod 86400 div 3600" "0 \<le> ?s mod 86400 mod 3600 div 60"
    by (simp_all only: pos_imp_zdiv_nonneg_iff zero_less_numeral pos_mod_sign)
  moreover have "0 \<le> ?s mod 86400 mod 3600 mod 60" "?s mod 86400 mod 3600 mod 60 < 60" by (simp_all del: mod_mod_trivial)
  moreover have "nanos (timespec2fmttime_np t) = ts_nsec t" by (simp add: timespec2fmttime_np_def)
  ultimately show ?thesis using mixed_radix [OF d] by (simp only: atLeastLessThan_iff simp_thms)
qed

theorem fmttime_round_trip_witness:
  "timespec2fmttime_np \<lparr>ts_sec = 93784, ts_nsec = 5\<rparr> = \<lparr>days = 1, hrs = 2, mins = 3, secs = 4, nanos = 5\<rparr> \<and>
    sint (1 :: 32 word) * 86400 + sint (2 :: 32 word) * 3600 + sint (3 :: 32 word) * 60 + sint (4 :: 32 word) = 93784"
proof -
  have "timespec2fmttime_np \<lparr>ts_sec = 93784, ts_nsec = 5\<rparr> = \<lparr>days = 1, hrs = 2, mins = 3, secs = 4, nanos = 5\<rparr>"
    by code_simp
  then show ?thesis using fmttime_round_trip [of "\<lparr>ts_sec = 93784, ts_nsec = 5\<rparr>"] by simp
qed

definition usec_of :: "timeval \<Rightarrow> int" where
  "usec_of v = sint (tv_sec v) * 1000000 + sint (tv_usec v)"

definition normal_tv :: "timeval \<Rightarrow> bool" where
  "normal_tv v = (0 \<le> sint (tv_usec v) \<and> sint (tv_usec v) < 1000000)"

lemma borrow_up_normal:
  assumes "normal_tv x" "normal_tv y" "sint (tv_sec y) < 2 ^ 31 - 1"
  shows "usec_of (borrow_up x y) = usec_of y \<and> 0 \<le> sint (tv_usec x) - sint (tv_usec (borrow_up x y)) \<and>
    sint (tv_usec x) - sint (tv_usec (borrow_up x y)) < 1000000 \<and> sint (tv_usec (borrow_up x y)) < 1000000 \<and>
    sint (tv_sec y) \<le> sint (tv_sec (borrow_up x y)) \<and> sint (tv_sec (borrow_up x y)) \<le> sint (tv_sec y) + 1"
proof (cases "tv_usec x <s tv_usec y")
  case True
  then have lt: "sint (tv_usec x) < sint (tv_usec y)" by (simp add: word_sless_alt)
  have "sint (tv_usec y - tv_usec x) = sint (tv_usec y) - sint (tv_usec x)"
    using assms(1,2) by (intro sint_minus_32) (simp_all add: normal_tv_def)
  moreover have "(sint (tv_usec y) - sint (tv_usec x)) div 1000000 = 0"
    using assms(1,2) lt by (simp add: normal_tv_def)
  ultimately have n: "c_div (tv_usec y - tv_usec x) 1000000 = 0"
    using lt by (simp add: c_div_def sdiv_nonneg)
  have u: "sint (tv_usec y - 1000000) = sint (tv_usec y) - 1000000"
    using assms(2) by (subst sint_minus_32) (simp_all add: normal_tv_def)
  have sc: "sint (tv_sec y + 1) = sint (tv_sec y) + 1"
    using assms(3) sint_32 [of "tv_sec y"] by (subst sint_plus_32) simp_all
  show ?thesis using True assms(1,2) lt
    by (simp add: borrow_up_def n u sc usec_of_def normal_tv_def)
next
  case False
  then have "sint (tv_usec y) \<le> sint (tv_usec x)" by (simp add: word_sless_alt)
  with False show ?thesis using assms(1,2) by (simp add: borrow_up_def normal_tv_def)
qed

text \<open>
  Of two times in normal form whose difference in seconds is representable,
  \<^verbatim>\<open>timeval_subtract\<close> returns the difference in normal form and says whether the first is the
  earlier one; what it does to its second argument does not change the time that it denotes.
\<close>

theorem timeval_difference:
  assumes "normal_tv x" "normal_tv y" "sint (tv_sec y) < 2 ^ 31 - 1"
    "- (2 ^ 31) < sint (tv_sec x) - sint (tv_sec y)" "sint (tv_sec x) - sint (tv_sec y) < 2 ^ 31"
  shows "\<exists>r y'. timeval_subtract x y = (r, y', usec_of x < usec_of y) \<and>
    usec_of r = usec_of x - usec_of y \<and> normal_tv r \<and> usec_of y' = usec_of y"
proof -
  let ?y = "borrow_up x y"
  note b = borrow_up_normal [OF assms(1-3)]
  have u: "sint (tv_usec x - tv_usec ?y) = sint (tv_usec x) - sint (tv_usec ?y)"
    using b by (intro sint_minus_32) simp_all
  have c: "carry_down x ?y = ?y" using b u by (simp add: carry_down_def word_sless_alt)
  have s: "sint (tv_sec x - tv_sec ?y) = sint (tv_sec x) - sint (tv_sec ?y)"
    using b assms(4,5) by (intro sint_minus_32) linarith+
  have "sint (tv_sec x) < sint (tv_sec ?y) \<longleftrightarrow> usec_of x < usec_of ?y"
    using b unfolding usec_of_def by linarith
  then have f: "tv_sec x <s tv_sec ?y \<longleftrightarrow> usec_of x < usec_of y" using b by (simp add: word_sless_alt)
  show ?thesis
    using b unfolding timeval_subtract_def c Let_def f
    by (simp add: usec_of_def [of "\<lparr>tv_sec = tv_sec x - tv_sec ?y, tv_usec = tv_usec x - tv_usec ?y\<rparr>"] normal_tv_def u s)
      (simp add: usec_of_def)
qed

theorem timeval_difference_witness:
  "\<exists>r y'. timeval_subtract \<lparr>tv_sec = 5, tv_usec = 100\<rparr> \<lparr>tv_sec = 3, tv_usec = 200\<rparr> = (r, y', False) \<and>
     usec_of r = 1999900 \<and> normal_tv r \<and> usec_of y' = 3000200"
  using timeval_difference [of "\<lparr>tv_sec = 5, tv_usec = 100\<rparr>" "\<lparr>tv_sec = 3, tv_usec = 200\<rparr>"]
  by (simp add: normal_tv_def usec_of_def)

end
