(* ===== verification/TkInode.thy ===== *)
theory TkInode
  imports TkError
begin

text \<open>
  The tree of inodes: \<^verbatim>\<open>src/filesys/inode.c\<close> and \<^verbatim>\<open>inode.h\<close>, and mounting of
  \<^verbatim>\<open>filesys.c\<close>. The inodes are kept in a store; the address of an inode is the number that
  \<^verbatim>\<open>__ilid\<close> gives it, and a null pointer is \<open>None\<close>. The children of a directory are a
  list linked by \<^verbatim>\<open>next\<close>, whose first node is \<^verbatim>\<open>down\<close>; a node without children points
  to itself. The walks along the list carry the number of inodes as fuel. The outcomes of
  \<^verbatim>\<open>calloc\<close>, and what lies in memory behind a name (the code stores no terminator), are
  parameters. The path and mode constants are those of the C library.
\<close>

section \<open>Constants of the C library\<close>

definition PATH_MAX :: nat where "PATH_MAX = 1024"
definition NAME_MAX :: nat where "NAME_MAX = 255"

definition E_ACCES :: int where "E_ACCES = 32"
definition E_NOTBLK :: int where "E_NOTBLK = 34"
definition E_NOTDIR :: int where "E_NOTDIR = 39"

type_synonym mode_t = "32 word"

definition ISA_IFDIR :: mode_t where "ISA_IFDIR = 0x4000"
definition ISA_IFCHR :: mode_t where "ISA_IFCHR = 0x2000"
definition ISA_IFBLK :: mode_t where "ISA_IFBLK = 0x6000"
definition ISA_IFREG :: mode_t where "ISA_IFREG = 0x8000"
definition ISA_IFLNK :: mode_t where "ISA_IFLNK = 0xA000"
definition ISA_IFSOCK :: mode_t where "ISA_IFSOCK = 0xC000"
definition ISA_IFIFO :: mode_t where "ISA_IFIFO = 0x1000"

lemmas mode_defs = ISA_IFDIR_def ISA_IFCHR_def ISA_IFBLK_def ISA_IFREG_def ISA_IFLNK_def ISA_IFSOCK_def ISA_IFIFO_def

section \<open>Inodes\<close>

text \<open>The table of functions an inode is served by: those of the file system, or of a driver.\<close>

datatype iohandle =
    Fs_ifdir_io | Fs_ifchr_io | Fs_ifblk_io | Fs_ifreg_io | Fs_iflnk_io | Fs_ifsock_io | Fs_ififo_io
  | Dev_io nat

record tk_mount_t =
  io_device :: "iohandle option"
  m_options :: "32 word"

text \<open>
  \<open>i_name\<close> is the string that reading the name yields; \<open>i_idata\<close> is the data of the driver,
  of a type of its own.
\<close>

record 'd tk_inode_t =
  i_name :: string
  i_mode :: mode_t
  i_mount :: "tk_mount_t option"
  i_belong :: "nat option"
  i_next :: "nat option"
  i_down :: "nat option"
  i_idata :: "'d option"
  i_iohandle :: "iohandle option"

record 'd filesys =
  inodes :: "nat \<Rightarrow> 'd tk_inode_t"
  icntr :: int
  ilid :: nat
  Rnod :: "nat option"
  fs_errno :: int

definition fail_with :: "int \<Rightarrow> ('d, 'a) filesys_scheme \<Rightarrow> (int \<times> ('d, 'a) filesys_scheme) result" where
  "fail_with e F = Inr (-1, F\<lparr>fs_errno := e\<rparr>)"

definition upd_inode :: "nat \<Rightarrow> ('d tk_inode_t \<Rightarrow> 'd tk_inode_t) \<Rightarrow> ('d, 'a) filesys_scheme \<Rightarrow> ('d, 'a) filesys_scheme" where
  "upd_inode i f F = F\<lparr>inodes := (inodes F)(i := f (inodes F i))\<rparr>"

section \<open>Names and paths\<close>

text \<open>The loop of \<^verbatim>\<open>igetname\<close>, from position \<open>i\<close> down to a slash.\<close>

fun scan_back :: "string \<Rightarrow> nat \<Rightarrow> nat result" where
  "scan_back s i =
     (if i < length s \<and> s ! i = CHR ''/'' then Inr i
      else if i = 0 then Inl Out_of_bounds else scan_back s (i - 1))"

declare scan_back.simps [simp del]

definition igetname :: "string \<Rightarrow> string result" where
  "igetname s = andThen (scan_back s (length s)) (\<lambda>i. Inr (drop (Suc i) s))"

definition igetpath :: "string \<Rightarrow> string result" where
  "igetpath s = in_bounds (length s < PATH_MAX) (andThen (scan_back s (length s)) (\<lambda>i. Inr (take (Suc i) s)))"

text \<open>What \<^verbatim>\<open>strtok\<close> returns, call by call: the stretches between the slashes that are not empty.\<close>

fun strtok_from :: "string \<Rightarrow> string \<Rightarrow> string list" where
  "strtok_from w [] = (if w = [] then [] else [w])"
| "strtok_from w (c # cs) =
     (if c = CHR ''/'' then (if w = [] then [] else [w]) @ strtok_from [] cs else strtok_from (w @ [c]) cs)"

abbreviation tokens :: "string \<Rightarrow> string list" where
  "tokens \<equiv> strtok_from []"

text \<open>\<^verbatim>\<open>strncmp(a, b, NAME_MAX) == 0\<close>.\<close>

definition same_name :: "string \<Rightarrow> string \<Rightarrow> bool" where
  "same_name a b = (take NAME_MAX a = take NAME_MAX b)"

section \<open>Searching\<close>

fun find_sibling :: "nat \<Rightarrow> ('d, 'a) filesys_scheme \<Rightarrow> string \<Rightarrow> nat option \<Rightarrow> nat option result" where
  "find_sibling n F nd None = Inr None"
| "find_sibling 0 F nd (Some i) = Inl Hangs"
| "find_sibling (Suc n) F nd (Some i) =
     (if same_name (i_name (inodes F i)) nd then Inr (Some i) else find_sibling n F nd (i_next (inodes F i)))"

fun isearch_loop :: "('d, 'a) filesys_scheme \<Rightarrow> nat option \<Rightarrow> string list \<Rightarrow> nat option result" where
  "isearch_loop F ci [] = Inr ci"
| "isearch_loop F ci (nd # nds) =
     (case ci of None \<Rightarrow> Inl Null_deref
      | Some c \<Rightarrow>
          if i_mount (inodes F c) \<noteq> None then Inr ci
          else andThen (find_sibling (ilid F) F nd (i_down (inodes F c))) (\<lambda>ci'. isearch_loop F ci' nds))"

definition isearch :: "('d, 'a) filesys_scheme \<Rightarrow> nat option \<Rightarrow> string \<Rightarrow> nat option result" where
  "isearch F ci s = in_bounds (length s < PATH_MAX) (isearch_loop F ci (tokens s))"

section \<open>Making a node\<close>

record node_env =
  e_node :: bool
  e_name :: bool
  e_behind :: string

text \<open>The table for the mode, when the caller gives none; another mode leaves it null.\<close>

definition mode_io :: "mode_t \<Rightarrow> iohandle option" where
  "mode_io type =
     (if type = ISA_IFDIR then Some Fs_ifdir_io
      else if type = ISA_IFCHR then Some Fs_ifchr_io
      else if type = ISA_IFBLK then Some Fs_ifblk_io
      else if type = ISA_IFREG then Some Fs_ifreg_io
      else if type = ISA_IFLNK then Some Fs_iflnk_io
      else if type = ISA_IFSOCK then Some Fs_ifsock_io
      else if type = ISA_IFIFO then Some Fs_ififo_io
      else None)"

definition new_inode :: "string \<Rightarrow> mode_t \<Rightarrow> iohandle option \<Rightarrow> nat \<Rightarrow> nat \<Rightarrow> 'd tk_inode_t" where
  "new_inode name mode dev belong self =
     \<lparr>i_name = name, i_mode = mode, i_mount = None, i_belong = Some belong, i_next = None, i_down = Some self,
      i_idata = None, i_iohandle = (case dev of None \<Rightarrow> mode_io mode | Some io \<Rightarrow> Some io)\<rparr>"

fun last_sibling :: "nat \<Rightarrow> ('d, 'a) filesys_scheme \<Rightarrow> nat \<Rightarrow> nat result" where
  "last_sibling 0 F i = Inl Hangs"
| "last_sibling (Suc n) F i = (case i_next (inodes F i) of None \<Rightarrow> Inr i | Some j \<Rightarrow> last_sibling n F j)"

text \<open>The new node goes behind the last child of \<open>b\<close>, or becomes its only one.\<close>

definition link_inode :: "nat \<Rightarrow> nat \<Rightarrow> ('d, 'a) filesys_scheme \<Rightarrow> ('d, 'a) filesys_scheme result" where
  "link_inode b new F =
     (if i_down (inodes F b) \<noteq> Some b
      then (case i_down (inodes F b) of None \<Rightarrow> Inl Assert_failed
            | Some d \<Rightarrow> andThen (last_sibling (ilid F) F d) (\<lambda>l. Inr (upd_inode l (\<lambda>n. n\<lparr>i_next := Some new\<rparr>) F)))
      else Inr (upd_inode b (\<lambda>n. n\<lparr>i_down := Some new\<rparr>) F))"

definition add_inode :: "node_env \<Rightarrow> nat \<Rightarrow> string \<Rightarrow> mode_t \<Rightarrow> iohandle option \<Rightarrow> ('d, 'a) filesys_scheme \<Rightarrow>
  (int \<times> ('d, 'a) filesys_scheme) result" where
  "add_inode E b name mode dev F =
     c_assert (e_node E)
       (if \<not> e_name E then Inl Null_deref
        else let new = ilid F;
                 F1 = F\<lparr>icntr := icntr F + 1, ilid := new + 1,
                        inodes := (inodes F)(new := new_inode (name @ e_behind E) mode dev b new)\<rparr>
             in andThen (link_inode b new F1) (\<lambda>F2. Inr (0, F2)))"

definition imknod :: "node_env \<Rightarrow> nat option \<Rightarrow> string \<Rightarrow> mode_t \<Rightarrow> iohandle option \<Rightarrow> ('d, 'a) filesys_scheme \<Rightarrow>
  (int \<times> ('d, 'a) filesys_scheme) result" where
  "imknod E ci filename mode dev F =
     (if \<not> length filename < PATH_MAX then fail_with E_NAMETOOLONG F
      else andThen (igetpath filename) (\<lambda>path. andThen (igetname filename) (\<lambda>name.
        if \<not> length name < NAME_MAX then fail_with E_NAMETOOLONG F
        else andThen (isearch F ci filename) (\<lambda>there.
          if there \<noteq> None then fail_with E_EXIST F
          else andThen (isearch F ci path) (\<lambda>belong. case belong of
              None \<Rightarrow> fail_with E_NOENT F
            | Some b \<Rightarrow> if i_mode (inodes F b) OR ISA_IFDIR = 0 then fail_with E_NOTDIR F
                        else add_inode E b name mode dev F)))))"

text \<open>\<^verbatim>\<open>tk_rmnod\<close> only counts; it returns no value.\<close>

definition tk_rmnod :: "string \<Rightarrow> ('d, 'a) filesys_scheme \<Rightarrow> ('d, 'a) filesys_scheme" where
  "tk_rmnod filename F = F\<lparr>icntr := icntr F - 1\<rparr>"

section \<open>The file system calls on nodes\<close>

definition mknod :: "node_env \<Rightarrow> string \<Rightarrow> mode_t \<Rightarrow> iohandle option \<Rightarrow> ('d, 'a) filesys_scheme \<Rightarrow>
  (int \<times> ('d, 'a) filesys_scheme) result" where
  "mknod E filename mode dev F = imknod E (Rnod F) filename mode dev F"

definition mount :: "bool \<Rightarrow> string \<Rightarrow> string \<Rightarrow> 32 word \<Rightarrow> ('d, 'a) filesys_scheme \<Rightarrow>
  (int \<times> ('d, 'a) filesys_scheme) result" where
  "mount mem special_file dir options F =
     andThen (isearch F (Rnod F) special_file) (\<lambda>device_file. case device_file of
         None \<Rightarrow> fail_with E_INVAL F
       | Some d \<Rightarrow>
           if i_mode (inodes F d) AND ISA_IFBLK = 0 then fail_with E_NOTBLK F
           else andThen (isearch F (Rnod F) dir) (\<lambda>mount_dir. case mount_dir of
               None \<Rightarrow> fail_with E_INVAL F
             | Some m \<Rightarrow>
                 if i_mode (inodes F m) AND ISA_IFDIR = 0 then fail_with E_ACCES F
                 else if i_mount (inodes F m) \<noteq> None then fail_with E_BUSY F
                 else if \<not> mem then fail_with E_NOMEM F
                 else Inr (0, upd_inode m (\<lambda>n. n\<lparr>i_mount := Some \<lparr>io_device = i_iohandle (inodes F d), m_options = options\<rparr>\<rparr>) F)))"

definition umount2 :: "string \<Rightarrow> ('d, 'a) filesys_scheme \<Rightarrow> (int \<times> ('d, 'a) filesys_scheme) result" where
  "umount2 dir F =
     andThen (isearch F (Rnod F) dir) (\<lambda>mount_dir. case mount_dir of
         None \<Rightarrow> fail_with E_INVAL F
       | Some m \<Rightarrow>
           if i_mount (inodes F m) = None then fail_with E_INVAL F
           else Inr (0, upd_inode m (\<lambda>n. n\<lparr>i_mount := None\<rparr>) F))"

text \<open>The root that \<^verbatim>\<open>fs_init\<close> makes; its own table of functions stays null.\<close>

definition make_root :: "bool \<Rightarrow> bool \<Rightarrow> ('d, 'a) filesys_scheme \<Rightarrow> ('d, 'a) filesys_scheme result" where
  "make_root mem nmem F = c_assert mem (if \<not> nmem then Inl Null_deref else let r = ilid F in Inr (F\<lparr>ilid := r + 1, icntr := icntr F + 1, Rnod := Some r,
     inodes := (inodes F)(r := \<lparr>i_name = [], i_mode = ISA_IFDIR, i_mount = None, i_belong = Some r, i_next = None,
       i_down = Some r, i_idata = None, i_iohandle = None\<rparr>)\<rparr>))"

end
