(* ===== verification/TkRegFile.thy ===== *)
theory TkRegFile
  imports TkInode
begin

text \<open>
  File handles (\<^verbatim>\<open>src/filesys/filesys.h\<close>, \<^verbatim>\<open>filesys.c\<close>, \<^verbatim>\<open>fs_main.c\<close>) and
  regular files (\<^verbatim>\<open>fs_ifreg.c\<close>). The file system exists only for targets of the GNU
  compiler, with 32 bit pointers; the flags are those of the C library. The data of a regular file
  is a chain of sectors, modelled as the list of their contents from the first one; a handle
  stands in one sector of the chain, at \<open>sidx\<close>, and has a pointer besides, a sector and a
  position in it. What \<^verbatim>\<open>malloc\<close> and \<^verbatim>\<open>calloc\<close> return is a parameter. A buffer is
  the list of its bytes; its length is below \<open>2 ^ 31\<close>.
\<close>

section \<open>Flags\<close>

definition O_WRONLY_NL :: "32 word" where "O_WRONLY_NL = 0x1"
definition O_RDWR_NL :: "32 word" where "O_RDWR_NL = 0x2"
definition FO_APPEND :: "32 word" where "FO_APPEND = 0x8"
definition FO_CREAT :: "32 word" where "FO_CREAT = 0x200"
definition FO_TRUNC :: "32 word" where "FO_TRUNC = 0x400"
definition FO_EXCL :: "32 word" where "FO_EXCL = 0x800"
definition FO_SYNC :: "32 word" where "FO_SYNC = 0x2000"
definition FO_NONBLOCK :: "32 word" where "FO_NONBLOCK = 0x4000"
definition FO_NOCTTY :: "32 word" where "FO_NOCTTY = 0x8000"

lemmas flag_defs = O_WRONLY_NL_def O_RDWR_NL_def FO_APPEND_def FO_CREAT_def FO_TRUNC_def FO_EXCL_def FO_SYNC_def
  FO_NONBLOCK_def FO_NOCTTY_def

record tk_dbgflag_t =
  d_RDONLY :: bool
  d_WRONLY :: bool
  d_RDWR :: bool
  d_APPEND :: bool
  d_CREAT :: bool
  d_EXCL :: bool
  d_NOCTTY :: bool
  d_NONBLOCK :: bool
  d_SYNC :: bool
  d_TRUNC :: bool

text \<open>\<^verbatim>\<open>if (tmp_oflag & f) { flags->... = 1; tmp_oflag &= ~f; }\<close>\<close>

definition take_flag :: "32 word \<Rightarrow> 32 word \<Rightarrow> bool \<times> 32 word" where
  "take_flag f t = (if t AND f \<noteq> 0 then (True, t AND NOT f) else (False, t))"

definition tk_dbg_flags :: "32 word \<Rightarrow> (tk_dbgflag_t \<times> 32 word) result" where
  "tk_dbg_flags oflag = c_assert (oflag AND (O_RDWR_NL OR O_WRONLY_NL) \<noteq> O_RDWR_NL OR O_WRONLY_NL)
     (let (rw, t0) = take_flag O_RDWR_NL oflag;
          (wr, t1) = (if rw then (False, t0) else take_flag O_WRONLY_NL t0);
          (ap, t2) = take_flag FO_APPEND t1; (cr, t3) = take_flag FO_CREAT t2; (ex, t4) = take_flag FO_EXCL t3;
          (nc, t5) = take_flag FO_NOCTTY t4; (nb, t6) = take_flag FO_NONBLOCK t5;
          (sy, t7) = take_flag FO_SYNC t6; (tr, t8) = take_flag FO_TRUNC t7
      in Inr (\<lparr>d_RDONLY = \<not> rw \<and> \<not> wr, d_WRONLY = wr, d_RDWR = rw, d_APPEND = ap, d_CREAT = cr, d_EXCL = ex,
           d_NOCTTY = nc, d_NONBLOCK = nb, d_SYNC = sy, d_TRUNC = tr\<rparr>, t8))"

text \<open>\<^verbatim>\<open>assert(tk_dbg_flags(&flags, oflag) == 0)\<close>\<close>

definition assert_flags :: "32 word \<Rightarrow> 'x result \<Rightarrow> 'x result" where
  "assert_flags oflag m = andThen (tk_dbg_flags oflag) (\<lambda>(_, rest). c_assert (rest = 0) m)"

section \<open>Handles\<close>

record 'h tk_fhandle_t =
  f_id :: int
  f_inode :: nat
  f_oflag :: "32 word"
  f_data :: "'h option"

text \<open>
  A handle is known by the number that \<^verbatim>\<open>__flid\<close> gives it. As a file descriptor it is its
  address, which is neither null nor the number of a standard file: the number plus three here.
\<close>

definition fd_of :: "nat \<Rightarrow> int" where
  "fd_of h = int h + 3"

record ('d, 'h) fstate = "'d filesys" +
  fhandles :: "nat \<Rightarrow> 'h tk_fhandle_t option"
  fcntr :: int
  flid :: nat

definition tk_new_handle :: "bool \<Rightarrow> nat \<Rightarrow> 32 word \<Rightarrow> ('d, 'h, 'a) fstate_scheme \<Rightarrow> (nat \<times> ('d, 'h, 'a) fstate_scheme) result" where
  "tk_new_handle mem inode oflag F = c_assert mem
     (Inr (flid F, F\<lparr>fcntr := fcntr F + 1, flid := flid F + 1,
        fhandles := (fhandles F)(flid F \<mapsto> \<lparr>f_id = int (flid F), f_inode = inode, f_oflag = oflag, f_data = None\<rparr>)\<rparr>))"

definition tk_free_handle :: "nat \<Rightarrow> ('d, 'h, 'a) fstate_scheme \<Rightarrow> int \<times> ('d, 'h, 'a) fstate_scheme" where
  "tk_free_handle h F = (0, F\<lparr>fhandles := (fhandles F)(h := None), fcntr := fcntr F - 1\<rparr>)"

definition the_handle :: "nat \<Rightarrow> ('d, 'h, 'a) fstate_scheme \<Rightarrow> 'h tk_fhandle_t result" where
  "the_handle h F = (case fhandles F h of None \<Rightarrow> Inl Wild_pointer | Some x \<Rightarrow> Inr x)"

definition deref :: "'x option \<Rightarrow> 'x result" where
  "deref p = (case p of None \<Rightarrow> Inl Null_deref | Some x \<Rightarrow> Inr x)"

section \<open>Sectors\<close>

definition SECTOR_SIZE :: nat where "SECTOR_SIZE = 48"
definition DATA_IN_SECTOR_SIZE :: nat where "DATA_IN_SECTOR_SIZE = SECTOR_SIZE - 2 * 4"

type_synonym sector_t = "8 word list"

record ifreg_inode_data =
  maxsize :: int
  dsize :: int
  sectors :: "sector_t list"

record ifreg_hndl_data =
  r_ptr :: "nat \<times> int"
  sidx :: int
  didx :: int
  csector :: nat

type_synonym 'a reg_fs = "(ifreg_inode_data, ifreg_hndl_data, 'a) fstate_scheme"

definition blank_sector :: sector_t where
  "blank_sector = replicate DATA_IN_SECTOR_SIZE 0"

text \<open>\<^verbatim>\<open>memcpy\<close> into and out of the data of a sector.\<close>

definition put_bytes :: "nat \<Rightarrow> int \<Rightarrow> 8 word list \<Rightarrow> sector_t list \<Rightarrow> sector_t list result" where
  "put_bytes c off bs ss = in_bounds (c < length ss \<and> 0 \<le> off \<and> off + int (length bs) \<le> int DATA_IN_SECTOR_SIZE)
     (Inr (ss[c := take (nat off) (ss ! c) @ bs @ drop (nat off + length bs) (ss ! c)]))"

definition get_bytes :: "nat \<Rightarrow> int \<Rightarrow> int \<Rightarrow> sector_t list \<Rightarrow> 8 word list result" where
  "get_bytes c off n ss = in_bounds (c < length ss \<and> 0 \<le> off \<and> 0 \<le> n \<and> off + n \<le> int DATA_IN_SECTOR_SIZE)
     (Inr (take (nat n) (drop (nat off) (ss ! c))))"

text \<open>\<^verbatim>\<open>DATA_IN_SECTOR_SIZE - hdata->sidx >= len\<close>, in unsigned arithmetic.\<close>

definition fits_sector :: "int \<Rightarrow> int \<Rightarrow> bool" where
  "fits_sector si len = (len mod 2 ^ 32 \<le> (int DATA_IN_SECTOR_SIZE - si) mod 2 ^ 32)"

section \<open>Opening and closing\<close>

text \<open>The arguments after the flags: a mode, when the flags ask for it, and the inode.\<close>

datatype va = Va_mode mode_t | Va_inode nat

fun open_args :: "bool \<Rightarrow> va list \<Rightarrow> nat result" where
  "open_args True (Va_mode a # Va_inode i # _) = c_assert (a = 0) (Inr i)"
| "open_args True (Va_inode i # _) = Inl Assert_failed"
| "open_args False (Va_inode i # _) = Inr i"
| "open_args _ _ = Inl Wild_pointer"

record open_env =
  e_handle :: bool
  e_hdata :: bool
  e_idata :: bool
  e_sector :: bool

definition start_hdata :: ifreg_hndl_data where
  "start_hdata = \<lparr>r_ptr = (0, 0), sidx = 0, didx = 0, csector = 0\<rparr>"

definition new_idata :: ifreg_inode_data where
  "new_idata = \<lparr>maxsize = int DATA_IN_SECTOR_SIZE, dsize = 0, sectors = [blank_sector]\<rparr>"

definition set_hdata :: "nat \<Rightarrow> 'h \<Rightarrow> ('d, 'h, 'a) fstate_scheme \<Rightarrow> ('d, 'h, 'a) fstate_scheme" where
  "set_hdata h d F = F\<lparr>fhandles := (fhandles F)(h := map_option (\<lambda>x. x\<lparr>f_data := Some d\<rparr>) (fhandles F h))\<rparr>"

definition set_idata :: "nat \<Rightarrow> 'd \<Rightarrow> ('d, 'a) filesys_scheme \<Rightarrow> ('d, 'a) filesys_scheme" where
  "set_idata i d F = upd_inode i (\<lambda>n. n\<lparr>i_idata := Some d\<rparr>) F"

definition ifreg_open :: "open_env \<Rightarrow> 32 word \<Rightarrow> va list \<Rightarrow> 'a reg_fs \<Rightarrow> (int \<times> 'a reg_fs) result" where
  "ifreg_open E oflag args F = andThen (open_args (oflag AND FO_CREAT \<noteq> 0) args) (\<lambda>i.
     andThen (tk_new_handle (e_handle E) i oflag F) (\<lambda>(h, F1).
       if oflag AND FO_CREAT \<noteq> 0 \<and> i_idata (inodes F1 i) \<noteq> None \<and> oflag AND FO_APPEND = 0 then fail_with E_INVAL F1
       else andThen
         (if oflag AND FO_CREAT \<noteq> 0 \<and> i_idata (inodes F1 i) = None
          then (if e_idata E \<and> e_hdata E \<and> e_sector E then Inr (set_idata i new_idata F1) else Inl Null_deref)
          else Inr F1)
         (\<lambda>F2. andThen (deref (i_idata (inodes F2 i))) (\<lambda>_.
            if e_hdata E then Inr (fd_of h, set_hdata h start_hdata F2) else Inl Null_deref))))"

definition ifreg_close :: "nat \<Rightarrow> ('d, 'h, 'a) fstate_scheme \<Rightarrow> (int \<times> ('d, 'h, 'a) fstate_scheme) result" where
  "ifreg_close h F = andThen (the_handle h F) (\<lambda>_. Inr (0, F\<lparr>fhandles := (fhandles F)(h := None)\<rparr>))"

definition ifreg_fstat :: "nat \<Rightarrow> ('d, 'h, 'a) fstate_scheme \<Rightarrow> (int \<times> mode_t) result" where
  "ifreg_fstat h F = andThen (the_handle h F) (\<lambda>x. Inr (0, i_mode (inodes F (f_inode x))))"

text \<open>The handle, its data and the data of its file, for the operations below.\<close>

definition with_file :: "nat \<Rightarrow> ('d, 'h, 'a) fstate_scheme \<Rightarrow> ('h tk_fhandle_t \<Rightarrow> 'h \<Rightarrow> 'd \<Rightarrow> 'x result) \<Rightarrow> 'x result" where
  "with_file h F k = andThen (the_handle h F) (\<lambda>x. assert_flags (f_oflag x)
     (andThen (deref (f_data x)) (\<lambda>hx. andThen (deref (i_idata (inodes F (f_inode x)))) (\<lambda>ix. k x hx ix))))"

definition put_file :: "nat \<Rightarrow> nat \<Rightarrow> 'h \<Rightarrow> 'd \<Rightarrow> ('d, 'h, 'a) fstate_scheme \<Rightarrow> ('d, 'h, 'a) fstate_scheme" where
  "put_file h i hx ix F = set_idata i ix (set_hdata h hx F)"

section \<open>Reading and writing\<close>

text \<open>
  The loop that writes sector after sector: what is left to write, the room in this sector, the
  position and the sectors. It ends with whether everything was written. The last stretch does
  not advance the position, since \<^verbatim>\<open>nleft\<close> is cleared before it is added.
\<close>

function write_loop :: "8 word list \<Rightarrow> int \<Rightarrow> ifreg_hndl_data \<Rightarrow> sector_t list \<Rightarrow> (bool \<times> ifreg_hndl_data \<times> sector_t list) result" where
  "write_loop bs slen hx ss =
     (if bs = [] then Inr (True, hx, ss)
      else if int (length bs) > slen
      then (if slen < 0 then Inl Out_of_bounds
        else andThen (put_bytes (csector hx) (sidx hx) (take (nat slen) bs) ss) (\<lambda>ss'.
          let hx' = hx\<lparr>sidx := sidx hx + slen, didx := didx hx + slen\<rparr>
          in if Suc (csector hx) < length ss
             then write_loop (drop (nat slen) bs) (int DATA_IN_SECTOR_SIZE) (hx'\<lparr>csector := Suc (csector hx), sidx := 0\<rparr>) ss'
             else Inr (False, hx', ss')))
      else andThen (put_bytes (csector hx) (sidx hx) bs ss) (\<lambda>ss'. Inr (True, hx, ss')))"
  by pat_completeness auto

lemma put_bytes_length: "put_bytes c off bs ss = Inr ss' \<Longrightarrow> length ss' = length ss"
  by (auto simp: put_bytes_def in_bounds_eq_Inr)

termination write_loop
  by (relation "measure (\<lambda>(bs, slen, hx, ss). length ss - csector hx)") (auto dest: put_bytes_length)

declare write_loop.simps [simp del]

text \<open>The loop that reads, likewise; \<open>n\<close> bytes are left to read.\<close>

function read_loop :: "int \<Rightarrow> int \<Rightarrow> ifreg_hndl_data \<Rightarrow> sector_t list \<Rightarrow> 8 word list \<Rightarrow> (8 word list \<times> ifreg_hndl_data) result" where
  "read_loop n slen hx ss acc =
     (if n = 0 then Inr (acc, hx)
      else if n > slen
      then andThen (get_bytes (csector hx) (sidx hx) slen ss) (\<lambda>bs.
        let hx' = hx\<lparr>sidx := sidx hx + slen, didx := didx hx + slen\<rparr>
        in if Suc (csector hx) < length ss
           then read_loop (n - slen) (int DATA_IN_SECTOR_SIZE) (hx'\<lparr>csector := Suc (csector hx), sidx := 0\<rparr>) ss (acc @ bs)
           else Inr (acc @ bs, hx'))
      else andThen (get_bytes (csector hx) (sidx hx) n ss) (\<lambda>bs. Inr (acc @ bs, hx)))"
  by pat_completeness auto

termination read_loop
  by (relation "measure (\<lambda>(n, slen, hx, ss, acc). length ss - csector hx)") auto

declare read_loop.simps [simp del]

text \<open>Both return when the sector they stand in is the last one, or when nothing is left.\<close>

definition ifreg_read :: "nat \<Rightarrow> int \<Rightarrow> 'a reg_fs \<Rightarrow> (int \<times> 8 word list \<times> 'a reg_fs) result" where
  "ifreg_read h len F = with_file h F (\<lambda>x hx ix.
     if f_oflag x AND O_WRONLY_NL \<noteq> 0 then Inr (-1, [], F\<lparr>fs_errno := E_BADF\<rparr>)
     else if didx hx > dsize ix then Inr (0, [], F)
     else if fits_sector (sidx hx) len
     then andThen (get_bytes (csector hx) (sidx hx) len (sectors ix)) (\<lambda>bs.
       Inr (len, bs, set_hdata h (hx\<lparr>sidx := sidx hx + len, didx := didx hx + len\<rparr>) F))
     else andThen (read_loop len (int DATA_IN_SECTOR_SIZE - sidx hx) hx (sectors ix) []) (\<lambda>(bs, hx').
       Inr (int (length bs), bs, set_hdata h hx' F)))"

text \<open>
  Growing the chain until \<open>n\<close> bytes have room: from the sector \<open>t\<close> on, a sector is added when
  there is no next one. The list \<open>mem\<close> says which of the calls of \<^verbatim>\<open>malloc\<close> succeed; it
  does not check them.
\<close>

function grow_loop :: "bool list \<Rightarrow> int \<Rightarrow> nat \<Rightarrow> ifreg_inode_data \<Rightarrow> ifreg_inode_data result" where
  "grow_loop mem n t ix =
     (if n \<le> maxsize ix then Inr ix
      else if Suc t < length (sectors ix) then grow_loop mem n (Suc t) ix
      else case mem of
          [] \<Rightarrow> Inl Null_deref
        | ok # mem' \<Rightarrow> if \<not> ok then Inl Null_deref
            else grow_loop mem' n (Suc t) (ix\<lparr>sectors := sectors ix @ [blank_sector], maxsize := maxsize ix + int DATA_IN_SECTOR_SIZE\<rparr>))"
  by pat_completeness auto

termination grow_loop
  by (relation "measures [\<lambda>(mem, n, t, ix). length mem, \<lambda>(mem, n, t, ix). length (sectors ix) - t]") auto

declare grow_loop.simps [simp del]

definition SEEK_SET :: int where "SEEK_SET = 0"
definition SEEK_CUR :: int where "SEEK_CUR = 1"
definition SEEK_END :: int where "SEEK_END = 2"

definition E_FBIG :: int where "E_FBIG = 46"
definition E_NOSPC :: int where "E_NOSPC = 47"

text \<open>Writing, once there is room: within the sector through the pointer, or sector by sector.\<close>

definition write_data :: "8 word list \<Rightarrow> ifreg_hndl_data \<Rightarrow> ifreg_inode_data \<Rightarrow> (ifreg_hndl_data \<times> ifreg_inode_data) result" where
  "write_data bs hx ix =
     andThen
       (if fits_sector (sidx hx) (int (length bs))
        then andThen (put_bytes (fst (r_ptr hx)) (snd (r_ptr hx)) bs (sectors ix)) (\<lambda>ss. let n = int (length bs) in
          Inr (hx\<lparr>r_ptr := (fst (r_ptr hx), snd (r_ptr hx) + n), didx := didx hx + n, sidx := sidx hx + n\<rparr>, ss))
        else andThen (write_loop bs (int DATA_IN_SECTOR_SIZE - sidx hx) hx (sectors ix)) (\<lambda>(all, hx', ss).
          c_assert all (c_assert (Suc (csector hx') = length ss) (Inr (hx', ss)))))
       (\<lambda>(hx', ss). Inr (hx', ix\<lparr>sectors := ss, dsize := didx hx'\<rparr>))"

definition ifreg_write :: "bool list \<Rightarrow> nat \<Rightarrow> 8 word list \<Rightarrow> 'a reg_fs \<Rightarrow> (int \<times> 'a reg_fs) result" where
  "ifreg_write mem h bs F = with_file h F (\<lambda>x hx ix.
     if f_oflag x AND (O_RDWR_NL OR O_WRONLY_NL) = 0 then fail_with E_BADF F
     else if int (length bs) + didx hx > dsize ix
     then (if f_oflag x AND FO_APPEND \<noteq> 0
       then andThen (grow_loop mem (int (length bs) + didx hx) (csector hx) ix) (\<lambda>ix1.
         andThen (write_data bs hx ix1) (\<lambda>(hx', ix2). Inr (int (length bs), put_file h (f_inode x) hx' ix2 F)))
       else fail_with E_NOSPC F)
     else Inl Assert_failed)"

text \<open>
  Seeking: only from the end of the file. The handle goes to the last sector, a sector is added
  when the file has to grow and may, and the position moves by \<open>off\<close> from where it was.
\<close>

definition seek_end :: "bool \<Rightarrow> nat \<Rightarrow> int \<Rightarrow> 'a reg_fs \<Rightarrow> ifreg_hndl_data tk_fhandle_t \<Rightarrow> ifreg_hndl_data \<Rightarrow> ifreg_inode_data \<Rightarrow>
  (int \<times> 'a reg_fs) result" where
  "seek_end mem h off F x hx ix = (let last = length (sectors ix) - 1; hx1 = hx\<lparr>csector := last\<rparr>;
     move = (\<lambda>ix1. let d = didx hx + off; s = d - int last * int DATA_IN_SECTOR_SIZE in
       Inr (0, put_file h (f_inode x) (hx1\<lparr>didx := d, sidx := s, r_ptr := (last, s)\<rparr>) (ix1\<lparr>dsize := d\<rparr>) F)) in
     if off + dsize ix > maxsize ix
     then (if f_oflag x AND FO_APPEND \<noteq> 0
       then (if \<not> mem then fail_with E_NOSPC F
             else move (ix\<lparr>sectors := sectors ix @ [blank_sector], maxsize := maxsize ix + int DATA_IN_SECTOR_SIZE\<rparr>))
       else fail_with E_FBIG (set_hdata h hx1 F))
     else move ix)"

definition ifreg_lseek :: "bool \<Rightarrow> nat \<Rightarrow> int \<Rightarrow> int \<Rightarrow> 'a reg_fs \<Rightarrow> (int \<times> 'a reg_fs) result" where
  "ifreg_lseek mem h off dir F = with_file h F (\<lambda>x hx ix.
     if dir = SEEK_END then seek_end mem h off F x hx ix else Inl Assert_failed)"

end
