(* ===== verification/TkFilesys.thy ===== *)
theory TkFilesys
  imports TkRegFile
begin

text \<open>
  The system calls of the file system: \<^verbatim>\<open>src/filesys/fs_main.c\<close>, the start and stop of
  \<^verbatim>\<open>filesys.c\<close>, the tables of functions (\<^verbatim>\<open>iohandle.h\<close>) of the kinds of nodes that have no
  functions yet (\<^verbatim>\<open>fs_ifdir.c\<close>, \<^verbatim>\<open>fs_ifchr.c\<close>, \<^verbatim>\<open>fs_ifblk.c\<close>,
  \<^verbatim>\<open>fs_iflnk.c\<close>, \<^verbatim>\<open>fs_ifsock.c\<close>, \<^verbatim>\<open>fs_ififo.c\<close>), and that of the regular files.
  The tables of the drivers, the calls of the C library that the standard files are handed to, and
  what the allocations return are parameters.
\<close>

section \<open>Tables of functions\<close>

text \<open>A table; an entry may be null. The state is threaded through every entry.\<close>

record 's tk_iohandle_t =
  io_close :: "(int \<Rightarrow> 's \<Rightarrow> (int \<times> 's) result) option"
  io_fcntl :: "(int \<Rightarrow> int \<Rightarrow> 's \<Rightarrow> (int \<times> 's) result) option"
  io_fstat :: "(int \<Rightarrow> 's \<Rightarrow> (int \<times> mode_t) result) option"
  io_isatty :: "(int \<Rightarrow> 's \<Rightarrow> (int \<times> 's) result) option"
  io_link :: "(string \<Rightarrow> string \<Rightarrow> 's \<Rightarrow> (int \<times> 's) result) option"
  io_lseek :: "(int \<Rightarrow> int \<Rightarrow> int \<Rightarrow> 's \<Rightarrow> (int \<times> 's) result) option"
  io_open :: "(string \<Rightarrow> 32 word \<Rightarrow> va list \<Rightarrow> 's \<Rightarrow> (int \<times> 's) result) option"
  io_read :: "(int \<Rightarrow> int \<Rightarrow> 's \<Rightarrow> (int \<times> 8 word list \<times> 's) result) option"
  io_stat :: "(string \<Rightarrow> 's \<Rightarrow> (int \<times> mode_t) result) option"
  io_unlink :: "(string \<Rightarrow> 's \<Rightarrow> (int \<times> 's) result) option"
  io_write :: "(int \<Rightarrow> 8 word list \<Rightarrow> 's \<Rightarrow> (int \<times> 's) result) option"

definition E_NOSYS :: int where "E_NOSYS = 101"
definition E_MLINK :: int where "E_MLINK = 50"

text \<open>
  \<^verbatim>\<open>assert(assert_info == NULL)\<close>, which always fails, in front of what a function that is
  not implemented would return.
\<close>

definition not_implemented :: "'x result \<Rightarrow> 'x result" where
  "not_implemented m = c_assert False m"

definition stub_close :: "int \<Rightarrow> 's \<Rightarrow> (int \<times> 's) result" where
  "stub_close file s = not_implemented (Inr (-1, s))"

definition stub_fcntl :: "int \<Rightarrow> int \<Rightarrow> ('d, 'a) filesys_scheme \<Rightarrow> (int \<times> ('d, 'a) filesys_scheme) result" where
  "stub_fcntl file command s = not_implemented (fail_with E_NOSYS s)"

definition stub_fstat :: "int \<Rightarrow> 's \<Rightarrow> (int \<times> mode_t) result" where
  "stub_fstat file s = not_implemented (Inr (0, ISA_IFCHR))"

definition stub_isatty :: "int \<Rightarrow> 's \<Rightarrow> (int \<times> 's) result" where
  "stub_isatty file s = not_implemented (Inr (1, s))"

definition stub_link :: "string \<Rightarrow> string \<Rightarrow> ('d, 'a) filesys_scheme \<Rightarrow> (int \<times> ('d, 'a) filesys_scheme) result" where
  "stub_link old new s = not_implemented (fail_with E_MLINK s)"

definition stub_lseek :: "int \<Rightarrow> int \<Rightarrow> int \<Rightarrow> 's \<Rightarrow> (int \<times> 's) result" where
  "stub_lseek file off dir s = not_implemented (Inr (0, s))"

definition stub_open :: "string \<Rightarrow> 32 word \<Rightarrow> va list \<Rightarrow> ('d, 'a) filesys_scheme \<Rightarrow> (int \<times> ('d, 'a) filesys_scheme) result" where
  "stub_open filename oflag args s = not_implemented (fail_with E_NOSYS s)"

definition stub_read :: "int \<Rightarrow> int \<Rightarrow> 's \<Rightarrow> (int \<times> 8 word list \<times> 's) result" where
  "stub_read file len s = not_implemented (Inr (0, [], s))"

definition stub_stat :: "string \<Rightarrow> 's \<Rightarrow> (int \<times> mode_t) result" where
  "stub_stat file s = not_implemented (Inr (0, ISA_IFCHR))"

definition stub_unlink :: "string \<Rightarrow> ('d, 'a) filesys_scheme \<Rightarrow> (int \<times> ('d, 'a) filesys_scheme) result" where
  "stub_unlink name s = not_implemented (fail_with E_NOENT s)"

definition stub_write :: "int \<Rightarrow> 8 word list \<Rightarrow> 's \<Rightarrow> (int \<times> 's) result" where
  "stub_write file bs s = not_implemented (Inr (int (length bs), s))"

type_synonym ('d, 'a) fs_table = "('d, 'a) filesys_scheme tk_iohandle_t"

definition stub_table :: "('d, 'a) fs_table" where
  "stub_table = \<lparr>io_close = Some (stub_close), io_fcntl = Some (stub_fcntl), io_fstat = Some (stub_fstat),
     io_isatty = Some (stub_isatty), io_link = Some (stub_link), io_lseek = Some (stub_lseek), io_open = Some (stub_open),
     io_read = Some (stub_read), io_stat = Some (stub_stat), io_unlink = Some (stub_unlink), io_write = Some (stub_write)\<rparr>"

text \<open>The six files are the same up to the prefix of the names.\<close>

definition fs_ifdir_io :: "('d, 'a) fs_table" where "fs_ifdir_io = stub_table"
definition fs_ifchr_io :: "('d, 'a) fs_table" where "fs_ifchr_io = stub_table"
definition fs_ifblk_io :: "('d, 'a) fs_table" where "fs_ifblk_io = stub_table"
definition fs_iflnk_io :: "('d, 'a) fs_table" where "fs_iflnk_io = stub_table"
definition fs_ifsock_io :: "('d, 'a) fs_table" where "fs_ifsock_io = stub_table"
definition fs_ififo_io :: "('d, 'a) fs_table" where "fs_ififo_io = stub_table"

text \<open>
  What a call depends on: the outcomes of the allocations, the tables of the drivers
  and the functions of the C library for the standard files.
\<close>

record fs_mem =
  a_node :: node_env
  a_open :: open_env
  a_write :: "bool list"
  a_seek :: bool

record 'a fs_env =
  f_mem :: fs_mem
  f_dev :: "nat \<Rightarrow> 'a reg_fs tk_iohandle_t"
  std_read :: "int \<Rightarrow> 'a reg_fs \<Rightarrow> (int \<times> 8 word list \<times> 'a reg_fs) result"
  std_write :: "int \<Rightarrow> 8 word list \<Rightarrow> 'a reg_fs \<Rightarrow> (int \<times> 'a reg_fs) result"

text \<open>The handle that a file descriptor is the address of.\<close>

definition fd_handle :: "int \<Rightarrow> nat" where
  "fd_handle file = nat (file - 3)"

definition fs_ifreg_io :: "'a fs_env \<Rightarrow> 'a reg_fs tk_iohandle_t" where
  "fs_ifreg_io E = (let M = f_mem E in
     \<lparr>io_close = Some (\<lambda>file. ifreg_close (fd_handle file)), io_fcntl = Some (stub_fcntl),
      io_fstat = Some (\<lambda>file. ifreg_fstat (fd_handle file)), io_isatty = Some (stub_isatty), io_link = Some (stub_link),
      io_lseek = Some (\<lambda>file. ifreg_lseek (a_seek M) (fd_handle file)), io_open = Some (\<lambda>filename. ifreg_open (a_open M)),
      io_read = Some (\<lambda>file. ifreg_read (fd_handle file)), io_stat = Some (stub_stat), io_unlink = Some (stub_unlink),
      io_write = Some (\<lambda>file. ifreg_write (a_write M) (fd_handle file))\<rparr>)"

definition io_table :: "'a fs_env \<Rightarrow> iohandle \<Rightarrow> 'a reg_fs tk_iohandle_t" where
  "io_table E io = (case io of
       Fs_ifdir_io \<Rightarrow> fs_ifdir_io | Fs_ifchr_io \<Rightarrow> fs_ifchr_io | Fs_ifblk_io \<Rightarrow> fs_ifblk_io
     | Fs_ifreg_io \<Rightarrow> fs_ifreg_io E | Fs_iflnk_io \<Rightarrow> fs_iflnk_io | Fs_ifsock_io \<Rightarrow> fs_ifsock_io
     | Fs_ififo_io \<Rightarrow> fs_ififo_io | Dev_io n \<Rightarrow> f_dev E n)"

section \<open>The system calls\<close>

definition is_std :: "int \<Rightarrow> bool" where
  "is_std file = (0 \<le> file \<and> file \<le> 2)"

text \<open>
  \<^verbatim>\<open>CHECK_FH\<close>: \<open>bad\<close> when the descriptor is minus one, null, or the function is missing;
  a descriptor that is not the address of a live handle is a wild pointer.
\<close>

definition check_fh :: "'a fs_env \<Rightarrow> int \<Rightarrow> 'a reg_fs \<Rightarrow> ('a reg_fs tk_iohandle_t \<Rightarrow> bool) \<Rightarrow> 'x result \<Rightarrow> ('a reg_fs tk_iohandle_t \<Rightarrow> 'x result) \<Rightarrow> 'x result" where
  "check_fh E file F has bad k =
     (if file = -1 \<or> file = 0 then bad
      else if file < 3 then Inl Wild_pointer
      else andThen (the_handle (fd_handle file) F) (\<lambda>x. case i_iohandle (inodes F (f_inode x)) of
          None \<Rightarrow> bad
        | Some io \<Rightarrow> if has (io_table E io) then k (io_table E io) else bad))"

text \<open>Calling through an entry of a table.\<close>

definition call :: "'f option \<Rightarrow> ('f \<Rightarrow> 'x result) \<Rightarrow> 'x result" where
  "call f k = andThen (deref f) k"

definition fs_close :: "'a fs_env \<Rightarrow> int \<Rightarrow> 'a reg_fs \<Rightarrow> (int \<times> 'a reg_fs) result" where
  "fs_close E file F = c_assert (\<not> is_std file)
     (check_fh E file F (\<lambda>t. io_close t \<noteq> None) (fail_with E_BADF F) (\<lambda>t. call (io_close t) (\<lambda>f. f file F)))"

definition fs_fcntl :: "'a fs_env \<Rightarrow> int \<Rightarrow> int \<Rightarrow> 'a reg_fs \<Rightarrow> (int \<times> 'a reg_fs) result" where
  "fs_fcntl E file command F =
     check_fh E file F (\<lambda>t. io_fcntl t \<noteq> None) (fail_with E_BADF F) (\<lambda>t. call (io_fcntl t) (\<lambda>f. f file command F))"

definition fs_fstat :: "'a fs_env \<Rightarrow> int \<Rightarrow> 'a reg_fs \<Rightarrow> (int \<times> mode_t option \<times> 'a reg_fs) result" where
  "fs_fstat E file F =
     (if is_std file then Inr (0, Some ISA_IFCHR, F)
      else check_fh E file F (\<lambda>t. io_fstat t \<noteq> None) (Inr (-1, None, F\<lparr>fs_errno := E_BADF\<rparr>))
        (\<lambda>t. call (io_fstat t) (\<lambda>f. andThen (f file F) (\<lambda>(rc, m). Inr (rc, Some m, F)))))"

definition fs_isatty :: "'a fs_env \<Rightarrow> int \<Rightarrow> 'a reg_fs \<Rightarrow> (int \<times> 'a reg_fs) result" where
  "fs_isatty E file F =
     (if is_std file then Inr (1, F)
      else check_fh E file F (\<lambda>t. io_isatty t \<noteq> None) (fail_with E_BADF F) (\<lambda>t. call (io_isatty t) (\<lambda>f. f file F)))"

definition fs_link :: "'a fs_env \<Rightarrow> string \<Rightarrow> string \<Rightarrow> 'a reg_fs \<Rightarrow> (int \<times> 'a reg_fs) result" where
  "fs_link E old new F = not_implemented (fail_with E_MLINK F)"

definition fs_lseek :: "'a fs_env \<Rightarrow> int \<Rightarrow> int \<Rightarrow> int \<Rightarrow> 'a reg_fs \<Rightarrow> (int \<times> 'a reg_fs) result" where
  "fs_lseek E file off dir F = c_assert (\<not> is_std file)
     (check_fh E file F (\<lambda>t. io_lseek t \<noteq> None) (fail_with E_BADF F) (\<lambda>t. call (io_lseek t) (\<lambda>f. f file off dir F)))"

text \<open>The last steps of \<^verbatim>\<open>fs_open\<close>: the node has a table with an \<^verbatim>\<open>open\<close>, which is called.\<close>

definition open_node :: "'a fs_env \<Rightarrow> string \<Rightarrow> 32 word \<Rightarrow> va list \<Rightarrow> nat \<Rightarrow> 'a reg_fs \<Rightarrow> (int \<times> 'a reg_fs) result" where
  "open_node E filename oflag args i F = (case i_iohandle (inodes F i) of
       None \<Rightarrow> Inl Assert_failed
     | Some io \<Rightarrow> c_assert (io_open (io_table E io) \<noteq> None) (call (io_open (io_table E io)) (\<lambda>f. f filename oflag args F)))"

text \<open>
  A file that does not exist: the code looks for a slash behind the end of the name, where there
  never is one, so it always makes a regular file.
\<close>

definition open_new :: "'a fs_env \<Rightarrow> string \<Rightarrow> 32 word \<Rightarrow> 'a reg_fs \<Rightarrow> (int \<times> 'a reg_fs) result" where
  "open_new E filename oflag F =
     (if oflag AND FO_CREAT = 0 then fail_with E_NOENT F
      else andThen (imknod (a_node (f_mem E)) (Rnod F) filename ISA_IFREG None F) (\<lambda>(rc, F1).
        if rc \<noteq> 0 then Inr (-1, F1)
        else andThen (isearch F1 (Rnod F1) filename) (\<lambda>r. andThen (deref r) (\<lambda>i.
          open_node E filename oflag [Va_mode 0, Va_inode i] i F1))))"

definition fs_open :: "'a fs_env \<Rightarrow> string \<Rightarrow> 32 word \<Rightarrow> 'a reg_fs \<Rightarrow> (int \<times> 'a reg_fs) result" where
  "fs_open E filename oflag F = assert_flags oflag
     (andThen (isearch F (Rnod F) filename) (\<lambda>r. case r of
         None \<Rightarrow> open_new E filename oflag F
       | Some i \<Rightarrow> andThen (igetname filename) (\<lambda>nm.
           if \<not> same_name (i_name (inodes F i)) nm
           then c_assert (i_mount (inodes F i) \<noteq> None) (open_node E filename oflag [Va_inode i] i F)
           else if oflag AND (FO_CREAT OR FO_EXCL) \<noteq> 0 then fail_with E_EXIST F
           else open_node E filename oflag [Va_inode i] i F)))"

text \<open>The standard files have one function each: 0 can be read, 1 and 2 written.\<close>

definition fs_read :: "'a fs_env \<Rightarrow> int \<Rightarrow> int \<Rightarrow> 'a reg_fs \<Rightarrow> (int \<times> 8 word list \<times> 'a reg_fs) result" where
  "fs_read E file len F =
     (if is_std file then (if file = 0 then std_read E len F else Inl Null_deref)
      else check_fh E file F (\<lambda>t. io_fcntl t \<noteq> None) (Inr (-1, [], F\<lparr>fs_errno := E_BADF\<rparr>)) (\<lambda>t. call (io_read t) (\<lambda>f. f file len F)))"

definition fs_stat :: "'a fs_env \<Rightarrow> string \<Rightarrow> 'a reg_fs \<Rightarrow> (int \<times> mode_t) result" where
  "fs_stat E file F = not_implemented (Inr (0, ISA_IFCHR))"

definition fs_unlink :: "'a fs_env \<Rightarrow> string \<Rightarrow> 'a reg_fs \<Rightarrow> (int \<times> 'a reg_fs) result" where
  "fs_unlink E name F = not_implemented (fail_with E_NOENT F)"

definition fs_write :: "'a fs_env \<Rightarrow> int \<Rightarrow> 8 word list \<Rightarrow> 'a reg_fs \<Rightarrow> (int \<times> 'a reg_fs) result" where
  "fs_write E file bs F =
     (if is_std file then (if file = 0 then Inl Null_deref else std_write E file bs F)
      else check_fh E file F (\<lambda>t. io_fcntl t \<noteq> None) (fail_with E_BADF F) (\<lambda>t. call (io_write t) (\<lambda>f. f file bs F)))"

section \<open>Start and stop\<close>

text \<open>Which system calls are in force, and whether the file system runs.\<close>

datatype hixs_t = Library_calls | Fs_calls

record 'a fs_system =
  fsys :: "'a reg_fs"
  hixs :: hixs_t
  old_syscalls :: hixs_t
  fs_alive :: bool

text \<open>The tree that is made at the start; a node that cannot be made stops the system.\<close>

definition boot_nodes :: "(string \<times> mode_t) list" where
  "boot_nodes = [(''/dev'', ISA_IFDIR), (''/tmp'', ISA_IFDIR), (''/tmp/.ambrmi09'', ISA_IFDIR), (''/tmp/afile'', ISA_IFREG),
     (''/tmp/bfile'', ISA_IFREG), (''/tmp/.ambrmi09/cfile'', ISA_IFDIR)]"

definition make_node :: "node_env \<Rightarrow> string \<times> mode_t \<Rightarrow> 'a reg_fs \<Rightarrow> 'a reg_fs result" where
  "make_node M nm F = andThen (mknod M (fst nm) (snd nm) None F) (\<lambda>(rc, F1). c_assert (rc = 0) (Inr F1))"

text \<open>
  A driver is started or stopped by a function that returns its description, which must not be
  null.
\<close>

type_synonym 'a drv_finit_t = "'a reg_fs \<Rightarrow> (bool \<times> 'a reg_fs) result"

definition run_driver :: "'a drv_finit_t \<Rightarrow> 'a reg_fs \<Rightarrow> 'a reg_fs result" where
  "run_driver d F = andThen (d F) (\<lambda>(dinfo, F1). c_assert dinfo (Inr F1))"

definition fs_init :: "bool \<Rightarrow> bool \<Rightarrow> node_env \<Rightarrow> 'a drv_finit_t list \<Rightarrow> 'a fs_system \<Rightarrow> (int \<times> 'a fs_system) result" where
  "fs_init mem nmem M drivers S =
     andThen (make_root mem nmem (fsys S)) (\<lambda>F1. andThen (foldR (make_node M) boot_nodes F1) (\<lambda>F2.
       andThen (foldR run_driver drivers F2) (\<lambda>F3.
         Inr (0, \<lparr>fsys = F3, hixs = Fs_calls, old_syscalls = hixs S, fs_alive = True\<rparr>))))"

text \<open>Stopping gives back the root only, which the pointer still points to.\<close>

definition fs_fini :: "'a drv_finit_t list \<Rightarrow> 'a fs_system \<Rightarrow> (int \<times> 'a fs_system) result" where
  "fs_fini drivers S =
     (if \<not> fs_alive S then Inr (0, S)
      else andThen (foldR run_driver drivers (fsys S)) (\<lambda>F1. Inr (0, S\<lparr>fsys := F1, hixs := old_syscalls S, fs_alive := False\<rparr>)))"

end
