(* ===== verification/TkInodeProps.thy ===== *)
theory TkInodeProps
  imports TkInode
begin

text \<open>
  The tree of inodes: its shape as an invariant that every call keeps, searching as a lookup in
  a naming graph, and making a node as an update of that graph.
\<close>

section \<open>Paths\<close>

lemma scan_back_slash:
  assumes "CHR ''/'' \<notin> set nm" "i \<le> length nm"
  shows "scan_back (pre @ CHR ''/'' # nm) (length pre + i) = Inr (length pre)"
  using assms(2)
proof (induction i)
  case 0
  then show ?case by (subst scan_back.simps) simp
next
  case (Suc i)
  have "nm ! i \<noteq> CHR ''/''" if "i < length nm" using assms(1) that by (metis nth_mem)
  then show ?case using Suc by (subst scan_back.simps) (auto simp: nth_append)
qed

lemma scan_back_end:
  assumes "CHR ''/'' \<notin> set nm"
  shows "scan_back (pre @ CHR ''/'' # nm) (Suc (length pre + length nm)) = Inr (length pre)"
  using scan_back_slash [OF assms order_refl, of pre] by (subst scan_back.simps) simp

lemma strtok_split: "strtok_from w (pre @ CHR ''/'' # rest) = strtok_from w pre @ strtok_from [] rest"
  by (induction w pre rule: strtok_from.induct) auto

lemma strtok_word: "CHR ''/'' \<notin> set nm \<Longrightarrow> w @ nm \<noteq> [] \<Longrightarrow> strtok_from w nm = [w @ nm]"
  by (induction w nm rule: strtok_from.induct) auto

text \<open>A file name, its directory and its last component.\<close>

lemma split_filename:
  assumes "CHR ''/'' \<notin> set nm" "nm \<noteq> []" "length (pre @ CHR ''/'' # nm) < PATH_MAX"
  shows "igetname (pre @ CHR ''/'' # nm) = Inr nm" "igetpath (pre @ CHR ''/'' # nm) = Inr (pre @ [CHR ''/''])"
    "tokens (pre @ CHR ''/'' # nm) = tokens pre @ [nm]" "tokens (pre @ [CHR ''/'']) = tokens pre"
  using assms by (simp_all add: igetname_def igetpath_def scan_back_end strtok_split strtok_word)

section \<open>The shape of the tree\<close>

fun siblings :: "('d, 'a) filesys_scheme \<Rightarrow> nat list \<Rightarrow> nat option \<Rightarrow> bool" where
  "siblings F [] p = (p = None)"
| "siblings F (x # xs) p = (p = Some x \<and> siblings F xs (i_next (inodes F x)))"

definition kids :: "('d, 'a) filesys_scheme \<Rightarrow> nat \<Rightarrow> nat list" where
  "kids F p = filter (\<lambda>i. i_belong (inodes F i) = Some p) [1..<ilid F]"

definition tree_ok :: "('d, 'a) filesys_scheme \<Rightarrow> bool" where
  "tree_ok F \<longleftrightarrow> 0 < ilid F \<and> Rnod F = Some 0 \<and> i_next (inodes F 0) = None \<and>
     (\<forall>i\<in>{1..<ilid F}. \<exists>p<i. i_belong (inodes F i) = Some p) \<and>
     (\<forall>p<ilid F. if kids F p = [] then i_down (inodes F p) = Some p else siblings F (kids F p) (i_down (inodes F p)))"

text \<open>The nodes that a search in \<open>c\<close> visits: its children, or, of a node without, itself and what follows it.\<close>

definition scanned :: "('d, 'a) filesys_scheme \<Rightarrow> nat \<Rightarrow> nat list" where
  "scanned F c = (if kids F c \<noteq> [] then kids F c
     else if c = 0 then [0] else dropWhile (\<lambda>i. i \<noteq> c) (kids F (the (i_belong (inodes F c)))))"

lemma set_kids: "i \<in> set (kids F p) \<longleftrightarrow> 0 < i \<and> i < ilid F \<and> i_belong (inodes F i) = Some p"
  by (auto simp: kids_def)

lemma distinct_kids [simp]: "distinct (kids F p)"
  by (simp add: kids_def)

lemma length_kids: "length (kids F p) < ilid F" if "0 < ilid F"
proof -
  have "length (kids F p) \<le> length [1..<ilid F]" unfolding kids_def by (rule length_filter_le)
  then show ?thesis using that by simp
qed

lemma tree_belong: "tree_ok F \<Longrightarrow> 0 < i \<Longrightarrow> i < ilid F \<Longrightarrow> \<exists>p<i. i_belong (inodes F i) = Some p"
  by (simp add: tree_ok_def)

lemma tree_down: "tree_ok F \<Longrightarrow> p < ilid F \<Longrightarrow> kids F p \<noteq> [] \<Longrightarrow> siblings F (kids F p) (i_down (inodes F p))"
  by (simp add: tree_ok_def)

lemma tree_leaf: "tree_ok F \<Longrightarrow> p < ilid F \<Longrightarrow> kids F p = [] \<Longrightarrow> i_down (inodes F p) = Some p"
  by (simp add: tree_ok_def)

lemma kid_above: "tree_ok F \<Longrightarrow> i \<in> set (kids F p) \<Longrightarrow> p < i"
  using tree_belong [of F i] by (auto simp: set_kids)

lemma siblings_cong: "(\<And>i. i \<in> set xs \<Longrightarrow> i_next (inodes F' i) = i_next (inodes F i)) \<Longrightarrow> siblings F' xs p = siblings F xs p"
  by (induction xs arbitrary: p) auto

lemma siblings_drop: "siblings F xs p \<Longrightarrow> c \<in> set xs \<Longrightarrow> siblings F (dropWhile (\<lambda>i. i \<noteq> c) xs) (Some c)"
  by (induction xs arbitrary: p) auto

lemma in_dropWhile: "c \<in> set xs \<Longrightarrow> c \<in> set (dropWhile (\<lambda>i. i \<noteq> c) xs)"
  by (induction xs) auto

lemma siblings_head: "siblings F xs p \<Longrightarrow> p = (case xs of [] \<Rightarrow> None | x # _ \<Rightarrow> Some x)"
  by (cases xs) auto

lemma leaf_scanned:
  assumes "tree_ok F" "0 < c" "c < ilid F" "kids F c = []"
  obtains p where "p < c" "c \<in> set (kids F p)" "scanned F c = dropWhile (\<lambda>i. i \<noteq> c) (kids F p)"
proof -
  obtain p where p: "p < c" "i_belong (inodes F c) = Some p" using tree_belong [OF assms(1-3)] by blast
  then have "c \<in> set (kids F p)" using assms by (simp add: set_kids)
  with p show ?thesis using assms by (intro that [of p]) (simp_all add: scanned_def)
qed

lemma scanned_siblings: "tree_ok F \<Longrightarrow> c < ilid F \<Longrightarrow> siblings F (scanned F c) (i_down (inodes F c))"
proof (cases "kids F c = []")
  case True
  assume F: "tree_ok F" "c < ilid F"
  note d = tree_leaf [OF F True]
  show ?thesis
  proof (cases "c = 0")
    case True
    then show ?thesis using F \<open>kids F c = []\<close> d by (simp add: scanned_def tree_ok_def)
  next
    case False
    with F \<open>kids F c = []\<close> obtain p where
      p: "p < c" "c \<in> set (kids F p)" "scanned F c = dropWhile (\<lambda>i. i \<noteq> c) (kids F p)" by (auto elim: leaf_scanned)
    then have "siblings F (kids F p) (i_down (inodes F p))" using F by (intro tree_down) auto
    then show ?thesis unfolding d p(3) using p(2) by (rule siblings_drop)
  qed
qed (simp add: scanned_def tree_down)

lemma scanned_nodes:
  assumes "tree_ok F" "c < ilid F"
  shows "set (scanned F c) \<subseteq> {..<ilid F}" "length (scanned F c) \<le> ilid F"
proof -
  have k: "set (kids F p) \<subseteq> {..<ilid F}" "length (kids F p) \<le> ilid F" for p
    using length_kids [of F p] assms(2) by (auto simp: set_kids)
  have "set (dropWhile P (kids F p)) \<subseteq> {..<ilid F}" "length (dropWhile P (kids F p)) \<le> ilid F" for P p
    using k [of p] set_dropWhileD [of _ P "kids F p"] length_dropWhile_le [of P "kids F p"] by fastforce+
  then show "set (scanned F c) \<subseteq> {..<ilid F}" "length (scanned F c) \<le> ilid F"
    using k assms(2) by (simp_all add: scanned_def)
qed

lemma find_sibling_find:
  "siblings F xs p \<Longrightarrow> length xs \<le> n \<Longrightarrow>
    find_sibling n F nd p = Inr (find (\<lambda>i. same_name (i_name (inodes F i)) nd) xs)"
  by (induction n F nd p arbitrary: xs rule: find_sibling.induct) (auto simp: neq_Nil_conv split: list.splits elim: siblings.elims)

section \<open>Searching\<close>

abbreviation named :: "('d, 'a) filesys_scheme \<Rightarrow> string \<Rightarrow> nat \<Rightarrow> bool" where
  "named F nd i \<equiv> same_name (i_name (inodes F i)) nd"

text \<open>The naming graph: which child a node has under a name; and lookup along it.\<close>

definition child :: "('d, 'a) filesys_scheme \<Rightarrow> nat \<times> string \<Rightarrow> nat option" where
  "child F = (\<lambda>(c, nd). find (named F nd) (kids F c))"

fun lookup :: "('d, 'a) filesys_scheme \<Rightarrow> nat \<Rightarrow> string list \<Rightarrow> nat option" where
  "lookup F c [] = Some c"
| "lookup F c (nd # nds) = (case child F (c, nd) of None \<Rightarrow> None | Some k \<Rightarrow> lookup F k nds)"

definition unmounted :: "('d, 'a) filesys_scheme \<Rightarrow> bool" where
  "unmounted F \<longleftrightarrow> (\<forall>i<ilid F. i_mount (inodes F i) = None)"

lemma search_step:
  assumes "tree_ok F" "c < ilid F"
  shows "find_sibling (ilid F) F nd (i_down (inodes F c)) = Inr (find (named F nd) (scanned F c))"
  using assms by (intro find_sibling_find scanned_siblings scanned_nodes)

lemma find_in: "find P xs = Some k \<Longrightarrow> k \<in> set xs \<and> P k"
  by (auto simp: find_Some_iff)

lemma child_below: "tree_ok F \<Longrightarrow> child F (c, nd) = Some k \<Longrightarrow> c < k \<and> k < ilid F \<and> named F nd k"
  using find_in [of "named F nd" "kids F c" k] kid_above [of F k c] by (auto simp: child_def set_kids)

lemma child_scanned: "child F (c, nd) = Some k \<Longrightarrow> scanned F c = kids F c"
  by (auto simp: child_def scanned_def)

lemma lookup_below: "tree_ok F \<Longrightarrow> c < ilid F \<Longrightarrow> lookup F c ts = Some q \<Longrightarrow> q < ilid F"
  by (induction F c ts rule: lookup.induct) (auto split: option.splits dest: child_below)

text \<open>A search in a well-formed tree returns a node or null, or uses a null pointer; it never runs on for ever.\<close>

lemma isearch_loop_returns:
  assumes "tree_ok F" "\<forall>c. ci = Some c \<longrightarrow> c < ilid F"
  shows "isearch_loop F ci ts = Inl Null_deref \<or> (\<exists>r. isearch_loop F ci ts = Inr r \<and> (\<forall>c. r = Some c \<longrightarrow> c < ilid F))"
  using assms(2)
proof (induction ts arbitrary: ci)
  case (Cons nd ts)
  show ?case
  proof (cases ci)
    case (Some c)
    then have c: "c < ilid F" using Cons.prems by simp
    have "\<forall>k. find (named F nd) (scanned F c) = Some k \<longrightarrow> k < ilid F"
      using scanned_nodes(1) [OF assms(1) c] by (auto dest!: find_in)
    then show ?thesis using Some c Cons.IH by (auto simp: search_step [OF assms(1) c])
  qed simp
qed simp

lemma lookup_above: "tree_ok F \<Longrightarrow> lookup F c ts = Some q \<Longrightarrow> c \<le> q"
proof (induction F c ts rule: lookup.induct)
  case (2 F c nd nds)
  then show ?case using child_below [OF "2.prems"(1), of c nd] by (fastforce split: option.splits)
qed simp

lemma isearch_loop_lookup:
  assumes "tree_ok F" "\<forall>i<q. i_mount (inodes F i) = None"
  shows "c < ilid F \<Longrightarrow> lookup F c ts = Some q \<Longrightarrow> isearch_loop F (Some c) ts = Inr (Some q)"
proof (induction ts arbitrary: c)
  case (Cons nd ts)
  then obtain k where k: "child F (c, nd) = Some k" "lookup F k ts = Some q" by (auto split: option.splits)
  note b = child_below [OF assms(1) k(1)]
  have "isearch_loop F (Some k) ts = Inr (Some q)" using Cons.IH b k(2) by simp
  moreover have "find (named F nd) (scanned F c) = Some k" using k(1) child_scanned [OF k(1)] by (simp add: child_def)
  moreover have "c < q" using b lookup_above [OF assms(1) k(2)] by simp
  ultimately show ?case using assms(2) Cons.prems(1) by (simp add: search_step [OF assms(1)])
qed simp

lemma isearch_loop_append: "isearch_loop F ci (xs @ ys) = andThen (isearch_loop F ci xs) (\<lambda>cj. isearch_loop F cj ys)"
proof (induction F ci xs rule: isearch_loop.induct)
  case (2 F ci nd nds)
  show ?case
  proof (cases ci)
    case (Some c)
    show ?thesis
    proof (cases "i_mount (inodes F c) = None")
      case True
      then show ?thesis using Some 2 [OF Some] by (cases "find_sibling (ilid F) F nd (i_down (inodes F c))") simp_all
    next
      case False
      then show ?thesis using Some by (cases ys) simp_all
    qed
  qed simp
qed simp

text \<open>The search for a component below a directory that was found.\<close>

lemma isearch_last:
  assumes "tree_ok F" "unmounted F" "lookup F 0 ts = Some p"
  shows "isearch_loop F (Rnod F) (ts @ [nd]) = Inr (find (named F nd) (scanned F p))"
proof -
  have r: "Rnod F = Some 0" "0 < ilid F" using assms(1) by (simp_all add: tree_ok_def)
  have p: "p < ilid F" by (rule lookup_below [OF assms(1) r(2) assms(3)])
  show ?thesis
    using isearch_loop_lookup [OF assms(1) _ r(2) assms(3)] assms(2) p
    by (simp add: isearch_loop_append r(1) search_step [OF assms(1) p] unmounted_def)
qed

section \<open>Making a node\<close>

text \<open>What \<^verbatim>\<open>imknod\<close> leaves: a new last child \<open>N\<close> of \<open>b\<close>, and every other node as it was.\<close>

definition grown :: "('d, 'a) filesys_scheme \<Rightarrow> nat \<Rightarrow> 'd tk_inode_t \<Rightarrow> ('d, 'a) filesys_scheme \<Rightarrow> bool" where
  "grown F b N F' \<longleftrightarrow> ilid F' = Suc (ilid F) \<and> Rnod F' = Rnod F \<and> inodes F' (ilid F) = N \<and>
     (\<forall>i<ilid F. inodes F' i = (inodes F i)\<lparr>
        i_next := if kids F b \<noteq> [] \<and> i = last (kids F b) then Some (ilid F) else i_next (inodes F i),
        i_down := if kids F b = [] \<and> i = b then Some (ilid F) else i_down (inodes F i)\<rparr>)"

lemma last_sibling_last: "siblings F xs (Some d) \<Longrightarrow> length xs \<le> n \<Longrightarrow> last_sibling n F d = Inr (last xs)"
proof (induction n F d arbitrary: xs rule: last_sibling.induct)
  case (2 n F i)
  then obtain ys where xs: "xs = i # ys" "siblings F ys (i_next (inodes F i))" by (cases xs) auto
  show ?case
  proof (cases "i_next (inodes F i)")
    case None
    then show ?thesis using xs by (cases ys) simp_all
  next
    case (Some j)
    then have "ys \<noteq> []" "last_sibling n F j = Inr (last ys)" using xs "2.IH" [OF Some, of ys] "2.prems"(2) by (cases ys; simp)+
    then show ?thesis using xs Some by simp
  qed
qed (auto simp: neq_Nil_conv split: list.splits)

lemma add_inode_grown:
  assumes "tree_ok F" "b < ilid F" "e_node E" "e_name E"
  shows "\<exists>F'. add_inode E b nm mode dev F = Inr (0, F') \<and> grown F b (new_inode (nm @ e_behind E) mode dev b (ilid F)) F' \<and>
    icntr F' = icntr F + 1 \<and> fs_errno F' = fs_errno F"
proof -
  let ?new = "ilid F" and ?N = "new_inode (nm @ e_behind E) mode dev b (ilid F)"
  let ?F = "F\<lparr>icntr := icntr F + 1, ilid := ?new + 1, inodes := (inodes F)(?new := ?N)\<rparr>"
  have b: "inodes ?F b = inodes F b" using assms(2) by simp
  show ?thesis
  proof (cases "kids F b = []")
    case True
    then show ?thesis using assms b tree_leaf [OF assms(1,2)]
      by (simp add: add_inode_def Let_def link_inode_def grown_def upd_inode_def)
  next
    case False
    then obtain d ds where k: "kids F b = d # ds" by (cases "kids F b") simp_all
    have sib: "siblings F (kids F b) (Some d)" "i_down (inodes F b) = Some d"
      using tree_down [OF assms(1,2) False] k by auto
    have "d \<noteq> b" using kid_above [OF assms(1), of d b] k by simp
    have "siblings ?F (kids F b) (Some d) = siblings F (kids F b) (Some d)"
      by (rule siblings_cong) (auto simp: set_kids)
    then have "last_sibling (ilid ?F) ?F d = Inr (last (kids F b))"
      using sib(1) length_kids [of F b] assms(2) by (intro last_sibling_last) auto
    moreover have "last (kids F b) < ?new" using False last_in_set [of "kids F b"] by (auto simp: set_kids)
    ultimately show ?thesis using assms b sib(2) \<open>d \<noteq> b\<close> False
      by (auto simp: add_inode_def Let_def link_inode_def grown_def upd_inode_def)
  qed
qed

lemma grown_node:
  assumes "grown F b N F'"
  shows "ilid F' = Suc (ilid F)" "Rnod F' = Rnod F" "inodes F' (ilid F) = N"
    "i < ilid F \<Longrightarrow> i_name (inodes F' i) = i_name (inodes F i)" "i < ilid F \<Longrightarrow> i_belong (inodes F' i) = i_belong (inodes F i)"
    "i < ilid F \<Longrightarrow> i_mount (inodes F' i) = i_mount (inodes F i)"
    "i < ilid F \<Longrightarrow> i_next (inodes F' i) = (if kids F b \<noteq> [] \<and> i = last (kids F b) then Some (ilid F) else i_next (inodes F i))"
    "i < ilid F \<Longrightarrow> i_down (inodes F' i) = (if kids F b = [] \<and> i = b then Some (ilid F) else i_down (inodes F i))"
  using assms by (simp_all add: grown_def)

lemma grown_kids:
  assumes "grown F b N F'" "0 < ilid F" "i_belong N = Some b"
  shows "kids F' p = kids F p @ (if p = b then [ilid F] else [])"
proof -
  have "[1..<ilid F'] = [1..<ilid F] @ [ilid F]" using assms(2) by (simp add: grown_node [OF assms(1)])
  moreover have "filter (\<lambda>i. i_belong (inodes F' i) = Some p) [1..<ilid F] = kids F p"
    unfolding kids_def by (rule filter_cong) (auto simp: grown_node [OF assms(1)])
  ultimately show ?thesis by (simp add: kids_def grown_node [OF assms(1)] assms(3))
qed

lemma siblings_snoc:
  "siblings F xs p \<Longrightarrow> distinct (xs @ [n]) \<Longrightarrow> xs \<noteq> [] \<Longrightarrow> i_next (inodes F' n) = None \<Longrightarrow>
    (\<And>i. i \<in> set xs \<Longrightarrow> i_next (inodes F' i) = (if i = last xs then Some n else i_next (inodes F i))) \<Longrightarrow>
    siblings F' (xs @ [n]) p"
proof (induction xs arbitrary: p)
  case (Cons x xs)
  show ?case
  proof (cases xs)
    case Nil
    then show ?thesis using Cons.prems by auto
  next
    case (Cons y ys)
    moreover have "x \<noteq> last xs" using Cons Cons.prems(2) last_in_set [of xs] by auto
    moreover have "siblings F' (xs @ [n]) (i_next (inodes F x))"
      using Cons.prems Cons by (intro Cons.IH) auto
    ultimately show ?thesis using Cons.prems by simp
  qed
qed simp

lemma grown_tree_ok:
  assumes F: "tree_ok F" "b < ilid F" and g: "grown F b N F'" and N: "i_belong N = Some b" "i_next N = None" "i_down N = Some (ilid F)"
  shows "tree_ok F'"
  unfolding tree_ok_def
proof (intro conjI ballI allI impI)
  note n = grown_node [OF g]
  have z: "0 < ilid F" using F by simp
  note k = grown_kids [OF g z N(1)]
  show "0 < ilid F'" by (simp add: n)
  show "Rnod F' = Some 0" using F by (simp add: n tree_ok_def)
  have "kids F b = [] \<or> last (kids F b) \<noteq> 0" by (metis less_irrefl last_in_set set_kids)
  moreover have "i_next (inodes F 0) = None" using F by (simp add: tree_ok_def)
  ultimately show "i_next (inodes F' 0) = None" using z by (auto simp: n)
  show "\<exists>p<i. i_belong (inodes F' i) = Some p" if "i \<in> {1..<ilid F'}" for i
    using that F N(1) tree_belong [OF F(1), of i] by (cases "i = ilid F") (auto simp: n)
  show "if kids F' p = [] then i_down (inodes F' p) = Some p else siblings F' (kids F' p) (i_down (inodes F' p))"
    if "p < ilid F'" for p
  proof (cases "p = ilid F")
    case True
    have "i \<notin> set (kids F p)" for i using kid_above [OF F(1), of i p] True by (auto simp: set_kids)
    then have "kids F p = []" by (cases "kids F p") auto
    then show ?thesis using F(2) True N by (simp add: k n)
  next
    case False
    then have p: "p < ilid F" using that by (simp add: n)
    have m: "i < ilid F" if "i \<in> set (kids F p)" for i using that by (simp add: set_kids)
    show ?thesis
    proof (cases "p = b")
      case True
      show ?thesis
      proof (cases "kids F b = []")
        case True
        then show ?thesis using \<open>p = b\<close> p N by (simp add: k n)
      next
        case False
        have "siblings F' (kids F b @ [ilid F]) (i_down (inodes F b))"
          using tree_down [OF F False] False m \<open>p = b\<close> N by (intro siblings_snoc [of F]) (auto simp: n set_kids)
        then show ?thesis using \<open>p = b\<close> False p by (simp add: k n)
      qed
    next
      case False
      have "last (kids F b) \<notin> set (kids F p)" if "kids F b \<noteq> []"
        using that False last_in_set [of "kids F b"] by (auto simp: set_kids)
      then have "siblings F' (kids F p) q = siblings F (kids F p) q" for q
        by (intro siblings_cong) (auto simp: n m)
      then show ?thesis using False p F(1) by (simp add: k n tree_ok_def)
    qed
  qed
qed

text \<open>The naming graph gets one edge, when the parent had no child of that name.\<close>

lemma same_name_short: "length a < NAME_MAX \<Longrightarrow> same_name a b \<longleftrightarrow> a = b"
proof -
  assume a: "length a < NAME_MAX"
  have "length b < NAME_MAX" if "a = take NAME_MAX b" using a arg_cong [OF that, of length] by (simp add: min_def split: if_splits)
  with a show ?thesis by (auto simp: same_name_def)
qed

lemma grown_child:
  assumes "tree_ok F" "b < ilid F" "grown F b N F'" "i_belong N = Some b" "length (i_name N) < NAME_MAX"
    "child F (b, i_name N) = None"
  shows "child F' = (child F)((b, i_name N) \<mapsto> ilid F)"
proof (rule ext, clarify)
  fix c nd
  note n = grown_node [OF assms(3)]
  have k: "kids F' c = kids F c @ (if c = b then [ilid F] else [])"
    using assms(2) by (intro grown_kids [OF assms(3) _ assms(4)]) simp
  have old: "find (named F' nd) (kids F c) = find (named F nd) (kids F c)"
    by (rule find_cong) (auto simp: set_kids n)
  have app: "find P (xs @ ys) = (case find P xs of None \<Rightarrow> find P ys | Some x \<Rightarrow> Some x)" for P and xs ys :: "nat list"
    by (induction xs) simp_all
  show "child F' (c, nd) = ((child F)((b, i_name N) \<mapsto> ilid F)) (c, nd)"
    using assms(6) by (auto simp: child_def k app old n same_name_short [OF assms(5)] split: option.splits)
qed

section \<open>Every reachable tree is well-formed\<close>

lemma isearch_returns:
  assumes "tree_ok F" "length s < PATH_MAX"
  shows "isearch F (Rnod F) s = Inl Null_deref \<or> (\<exists>r. isearch F (Rnod F) s = Inr r \<and> (\<forall>c. r = Some c \<longrightarrow> c < ilid F))"
  using isearch_loop_returns [of F "Rnod F" "tokens s"] assms by (simp add: isearch_def tree_ok_def)

lemma isearch_below:
  assumes "tree_ok F" "isearch F (Rnod F) s = Inr (Some c)"
  shows "c < ilid F"
  using isearch_returns [OF assms(1), of s] assms(2) by (auto simp: isearch_def in_bounds_eq_Inr)

lemma tree_ok_errno [simp]: "tree_ok (F\<lparr>fs_errno := e\<rparr>) = tree_ok F"
proof -
  have k: "kids (F\<lparr>fs_errno := e\<rparr>) p = kids F p" for p by (simp add: kids_def)
  have "siblings (F\<lparr>fs_errno := e\<rparr>) xs p = siblings F xs p" for xs p by (rule siblings_cong) simp
  then show ?thesis by (simp add: tree_ok_def k)
qed

text \<open>What holds of the state of every call that returns.\<close>

definition yields :: "('r \<times> 's) result \<Rightarrow> ('s \<Rightarrow> bool) \<Rightarrow> bool" where
  "yields m P \<longleftrightarrow> (\<forall>r s. m = Inr (r, s) \<longrightarrow> P s)"

lemma yields_simps [simp]: "yields (Inr (r, s)) P = P s" "yields (Inl e) P"
  by (simp_all add: yields_def)

lemma yieldsD: "yields m P \<Longrightarrow> m = Inr (r, s) \<Longrightarrow> P s"
  by simp

lemma yields_andThen: "(\<And>x. m = Inr x \<Longrightarrow> yields (f x) P) \<Longrightarrow> yields (andThen m f) P"
  by (cases m) simp_all

lemma yields_if: "(b \<Longrightarrow> yields m P) \<Longrightarrow> (\<not> b \<Longrightarrow> yields n P) \<Longrightarrow> yields (if b then m else n) P"
  by simp

lemma yields_option: "(x = None \<Longrightarrow> yields m P) \<Longrightarrow> (\<And>y. x = Some y \<Longrightarrow> yields (f y) P) \<Longrightarrow> yields (case x of None \<Rightarrow> m | Some y \<Rightarrow> f y) P"
  by (cases x) simp_all

lemma yields_assert: "(b \<Longrightarrow> yields m P) \<Longrightarrow> yields (c_assert b m) P"
  by (cases b) simp_all

lemmas yields_rules = yields_andThen yields_if yields_option yields_assert

lemma upd_mount_tree_ok:
  assumes "tree_ok F"
  shows "tree_ok (upd_inode m (\<lambda>n. n\<lparr>i_mount := x\<rparr>) F)"
proof -
  let ?F = "upd_inode m (\<lambda>n. n\<lparr>i_mount := x\<rparr>) F"
  have f: "i_belong (inodes ?F i) = i_belong (inodes F i)" "i_next (inodes ?F i) = i_next (inodes F i)"
    "i_down (inodes ?F i) = i_down (inodes F i)" "ilid ?F = ilid F" "Rnod ?F = Rnod F" for i
    by (simp_all add: upd_inode_def)
  have k: "kids ?F p = kids F p" for p by (simp add: kids_def f)
  have "siblings ?F xs p = siblings F xs p" for xs p by (rule siblings_cong) (simp add: f)
  then show ?thesis using assms by (simp add: tree_ok_def k f)
qed

lemma add_inode_tree_ok: "tree_ok F \<Longrightarrow> b < ilid F \<Longrightarrow> yields (add_inode E b nm mode dev F) tree_ok"
proof (cases "e_node E \<and> e_name E")
  case True
  assume F: "tree_ok F" "b < ilid F"
  from add_inode_grown [OF F, of E nm mode dev] True grown_tree_ok [OF F] show ?thesis
    by (fastforce simp: new_inode_def)
qed (auto simp: add_inode_def c_assert_def)

lemma mknod_tree_ok: "tree_ok F \<Longrightarrow> yields (mknod E fn mode dev F) tree_ok"
  unfolding mknod_def imknod_def fail_with_def
  by (intro yields_rules) (simp_all add: add_inode_tree_ok isearch_below)

lemma mount_tree_ok: "tree_ok F \<Longrightarrow> yields (mount mem dv dir opts F) tree_ok"
  unfolding mount_def fail_with_def by (intro yields_rules) (simp_all add: upd_mount_tree_ok)

lemma umount_tree_ok: "tree_ok F \<Longrightarrow> yields (umount2 dir F) tree_ok"
  unfolding umount2_def fail_with_def by (intro yields_rules) (simp_all add: upd_mount_tree_ok)

lemma make_root_tree_ok: "ilid F = 0 \<Longrightarrow> make_root mem nmem F = Inr F' \<Longrightarrow> tree_ok F'"
  by (auto simp: make_root_def Let_def result_elims tree_ok_def kids_def split: if_splits)

inductive fs_reach :: "('d, 'a) filesys_scheme \<Rightarrow> bool" where
  fs_start: "ilid F = 0 \<Longrightarrow> make_root mem nmem F = Inr F' \<Longrightarrow> fs_reach F'"
| fs_mknod: "fs_reach F \<Longrightarrow> mknod E fn mode dev F = Inr (rc, F') \<Longrightarrow> fs_reach F'"
| fs_mount: "fs_reach F \<Longrightarrow> mount mem dv dir opts F = Inr (rc, F') \<Longrightarrow> fs_reach F'"
| fs_umount: "fs_reach F \<Longrightarrow> umount2 dir F = Inr (rc, F') \<Longrightarrow> fs_reach F'"

lemma reach_tree_ok: "fs_reach F \<Longrightarrow> tree_ok F"
proof (induction rule: fs_reach.induct)
  case fs_start
  then show ?case by (rule make_root_tree_ok)
next
  case fs_mknod
  then show ?case using yieldsD [OF mknod_tree_ok] by blast
next
  case fs_mount
  then show ?case using yieldsD [OF mount_tree_ok] by blast
next
  case fs_umount
  then show ?case using yieldsD [OF umount_tree_ok] by blast
qed

section \<open>The theorems\<close>

lemma isearch_file:
  assumes "tree_ok F" "unmounted F" "lookup F 0 (tokens pre) = Some p"
    "CHR ''/'' \<notin> set nm" "nm \<noteq> []" "length (pre @ CHR ''/'' # nm) < PATH_MAX"
  shows "isearch F (Rnod F) (pre @ CHR ''/'' # nm) = Inr (find (named F nm) (scanned F p))"
    "isearch F (Rnod F) (pre @ [CHR ''/'']) = Inr (Some p)"
proof -
  show "isearch F (Rnod F) (pre @ CHR ''/'' # nm) = Inr (find (named F nm) (scanned F p))"
    using isearch_last [OF assms(1-3), of nm] assms(6) split_filename [OF assms(4-6)] by (simp add: isearch_def)
  have r: "Rnod F = Some 0" "0 < ilid F" using assms(1) by (simp_all add: tree_ok_def)
  have "\<forall>i<p. i_mount (inodes F i) = None"
    using assms(2) lookup_below [OF assms(1) r(2) assms(3)] by (simp add: unmounted_def)
  then show "isearch F (Rnod F) (pre @ [CHR ''/'']) = Inr (Some p)"
    using isearch_loop_lookup [OF assms(1) _ r(2) assms(3)] split_filename(4) [OF assms(4-6)] assms(6) r(1)
    by (simp add: isearch_def)
qed

lemma or_IFDIR [simp]: "m OR ISA_IFDIR \<noteq> 0"
proof
  assume "m OR ISA_IFDIR = 0"
  then have "bit (m OR ISA_IFDIR) 14 = bit (0 :: 32 word) 14" by simp
  then show False by (simp add: ISA_IFDIR_def bit_simps)
qed

lemma child_none: "find (named F nm) (scanned F p) = None \<Longrightarrow> child F (p, nm) = None"
  by (cases "kids F p") (auto simp: child_def scanned_def)

lemma lookup_grows:
  assumes "child F' = (child F)(e \<mapsto> k)" "child F e = None"
  shows "lookup F c ts = Some q \<Longrightarrow> lookup F' c ts = Some q"
proof (induction ts arbitrary: c)
  case (Cons nd ts)
  then obtain j where j: "child F (c, nd) = Some j" "lookup F j ts = Some q" by (auto split: option.splits)
  then have "child F' (c, nd) = Some j" using assms by auto
  then show ?case using Cons.IH j by simp
qed simp

lemma mknod_adds:
  assumes F: "tree_ok F" "unmounted F" "lookup F 0 (tokens pre) = Some p"
    and nm: "CHR ''/'' \<notin> set nm" "nm \<noteq> []" "length (pre @ CHR ''/'' # nm) < PATH_MAX" "length nm < NAME_MAX"
    and free: "find (named F nm) (scanned F p) = None"
    and E: "e_node E" "e_name E" "e_behind E = []"
  shows "\<exists>F'. mknod E (pre @ CHR ''/'' # nm) mode dev F = Inr (0, F') \<and> unmounted F' \<and>
    child F' = (child F)((p, nm) \<mapsto> ilid F) \<and> inodes F' (ilid F) = new_inode nm mode dev p (ilid F) \<and>
    isearch F' (Rnod F') (pre @ CHR ''/'' # nm) = Inr (Some (ilid F)) \<and> grown F p (new_inode nm mode dev p (ilid F)) F' \<and> tree_ok F'"
proof -
  have p: "p < ilid F" using lookup_below [OF F(1) _ F(3)] F(1) by (simp add: tree_ok_def)
  obtain F' where F': "add_inode E p nm mode dev F = Inr (0, F')" "grown F p (new_inode nm mode dev p (ilid F)) F'"
    using add_inode_grown [OF F(1) p E(1,2), of nm mode dev] E(3) by auto
  have "mknod E (pre @ CHR ''/'' # nm) mode dev F = Inr (0, F')"
    using nm free F' isearch_file [OF F nm(1-3)] split_filename [OF nm(1-3)]
    by (simp add: mknod_def imknod_def)
  moreover have u: "unmounted F'"
    using F(2) F'(2) by (auto simp: unmounted_def grown_def new_inode_def less_Suc_eq)
  moreover have c: "child F' = (child F)((p, nm) \<mapsto> ilid F)"
    using grown_child [OF F(1) p F'(2)] nm(4) child_none [OF free] by (simp add: new_inode_def)
  moreover have "isearch F' (Rnod F') (pre @ CHR ''/'' # nm) = Inr (Some (ilid F))"
  proof -
    have t: "tree_ok F'" using grown_tree_ok [OF F(1) p F'(2)] by (simp add: new_inode_def)
    have l: "lookup F' 0 (tokens pre) = Some p" by (rule lookup_grows [OF c child_none [OF free] F(3)])
    have "child F' (p, nm) = Some (ilid F)" by (simp add: c)
    then have "find (named F' nm) (scanned F' p) = Some (ilid F)" using child_scanned [of F' p nm] by (simp add: child_def)
    then show ?thesis using isearch_file(1) [OF t u l nm(1-3)] by simp
  qed
  moreover have "tree_ok F'" using grown_tree_ok [OF F(1) p F'(2)] by (simp add: new_inode_def)
  ultimately show ?thesis using F'(2) grown_node(3) [OF F'(2)] by blast
qed

lemma mknod_exists:
  assumes "tree_ok F" "unmounted F" "lookup F 0 (tokens pre) = Some p"
    "CHR ''/'' \<notin> set nm" "nm \<noteq> []" "length (pre @ CHR ''/'' # nm) < PATH_MAX" "length nm < NAME_MAX"
    "find (named F nm) (scanned F p) \<noteq> None"
  shows "mknod E (pre @ CHR ''/'' # nm) mode dev F = Inr (-1, F\<lparr>fs_errno := E_EXIST\<rparr>)"
  using assms(4-8) isearch_file [OF assms(1-6)] split_filename [OF assms(4-6)]
  by (auto simp: mknod_def imknod_def fail_with_def)

lemma mknod_no_directory:
  assumes "tree_ok F" "unmounted F" "tokens pre = us @ [d]" "lookup F 0 us = Some q" "find (named F d) (scanned F q) = None"
    "CHR ''/'' \<notin> set nm" "nm \<noteq> []" "length (pre @ CHR ''/'' # nm) < PATH_MAX" "length nm < NAME_MAX"
  shows "mknod E (pre @ CHR ''/'' # nm) mode dev F = Inl Null_deref"
proof -
  have "isearch_loop F (Rnod F) ((us @ [d]) @ [nm]) = Inl Null_deref"
    unfolding isearch_loop_append [of F "Rnod F" "us @ [d]"] isearch_last [OF assms(1,2,4)] assms(5) by simp
  then have "isearch F (Rnod F) (pre @ CHR ''/'' # nm) = Inl Null_deref"
    using assms(8) by (simp add: isearch_def split_filename(3) [OF assms(6-8)] assms(3))
  then show ?thesis using assms(6-9) split_filename [OF assms(6-8)] by (simp add: mknod_def imknod_def)
qed

text \<open>A fragment that does not run for ever.\<close>

definition ends :: "'x result \<Rightarrow> bool" where
  "ends m \<longleftrightarrow> m \<noteq> Inl Hangs"

lemma ends_simps [simp]: "ends (Inr x)" "ends (Inl e) \<longleftrightarrow> e \<noteq> Hangs"
  by (simp_all add: ends_def)

lemma ends_andThen: "ends m \<Longrightarrow> (\<And>x. m = Inr x \<Longrightarrow> ends (f x)) \<Longrightarrow> ends (andThen m f)"
  by (cases m) simp_all

lemma ends_if: "(b \<Longrightarrow> ends m) \<Longrightarrow> (\<not> b \<Longrightarrow> ends n) \<Longrightarrow> ends (if b then m else n)"
  by simp

lemma ends_option: "(x = None \<Longrightarrow> ends m) \<Longrightarrow> (\<And>y. x = Some y \<Longrightarrow> ends (f y)) \<Longrightarrow> ends (case x of None \<Rightarrow> m | Some y \<Rightarrow> f y)"
  by (cases x) simp_all

lemma ends_bounds: "ends m \<Longrightarrow> ends (in_bounds b m)"
  by (cases b) simp_all

lemmas ends_rules = ends_andThen ends_if ends_option ends_bounds

lemma isearch_ends: "tree_ok F \<Longrightarrow> ends (isearch F (Rnod F) s)"
  using isearch_returns [of F s] by (cases "length s < PATH_MAX") (auto simp: isearch_def)

lemma scan_back_ends: "ends (scan_back s i)"
  by (induction s i rule: scan_back.induct) (subst scan_back.simps, auto)

lemma mknod_ends:
  assumes "tree_ok F"
  shows "ends (mknod E s mode dev F)"
proof -
  have add: "ends (add_inode E b nm mode dev F)" if "b < ilid F" for b nm
    using add_inode_grown [OF assms that, of E nm mode dev]
    by (cases "e_node E \<and> e_name E") (auto simp: add_inode_def c_assert_def)
  show ?thesis
    unfolding mknod_def imknod_def fail_with_def igetpath_def igetname_def
    by (intro ends_rules) (simp_all add: isearch_ends [OF assms] scan_back_ends add isearch_below [OF assms])
qed

text \<open>
  C25. Every tree of inodes that the calls can make, in any order and with any arguments, is
  well-formed: every node but the root has a parent that is older, the children of a directory
  are linked in the order of their making behind its first child, the last one ends the list,
  and a node without children points to itself.
\<close>

theorem fs_tree_invariant: "fs_reach F \<Longrightarrow> tree_ok F"
  by (rule reach_tree_ok)

definition demo_fs :: "unit filesys" where
  "demo_fs = \<lparr>inodes = (\<lambda>_. \<lparr>i_name = [], i_mode = ISA_IFDIR, i_mount = None, i_belong = Some 0, i_next = None,
     i_down = Some 0, i_idata = None, i_iohandle = None\<rparr>), icntr = 1, ilid = 1, Rnod = Some 0, fs_errno = 0\<rparr>"

lemma demo_reach: "fs_reach demo_fs"
  by (rule fs_start [of "demo_fs\<lparr>icntr := 0, ilid := 0, Rnod := None\<rparr>" True True]) (simp_all add: demo_fs_def make_root_def fun_eq_iff)

theorem fs_tree_invariant_witness: "tree_ok demo_fs"
  by (rule fs_tree_invariant [OF demo_reach])

text \<open>
  C26. In every such tree a search ends: it returns a node of the tree or null, or it uses a
  null pointer (which it does as soon as a component that is not the last one is missing). Making
  a node ends too, whatever the name.
\<close>

theorem fs_search_ends:
  assumes "fs_reach F" "length s < PATH_MAX"
  shows "(isearch F (Rnod F) s = Inl Null_deref \<or> (\<exists>r. isearch F (Rnod F) s = Inr r \<and> (r = None \<or> the r < ilid F))) \<and>
    mknod E s' mode dev F \<noteq> Inl Hangs"
  using isearch_returns [OF reach_tree_ok [OF assms(1)] assms(2)] mknod_ends [OF reach_tree_ok [OF assms(1)]] by (force simp: ends_def)

theorem fs_search_ends_witness:
  "(isearch demo_fs (Rnod demo_fs) ''/a/b'' = Inl Null_deref \<or>
    (\<exists>r. isearch demo_fs (Rnod demo_fs) ''/a/b'' = Inr r \<and> (r = None \<or> the r < ilid demo_fs))) \<and>
    mknod \<lparr>e_node = True, e_name = True, e_behind = []\<rparr> ''/a'' ISA_IFREG None demo_fs \<noteq> Inl Hangs"
  by (rule fs_search_ends [OF demo_reach]) (simp add: PATH_MAX_def)

text \<open>
  C24. \<^verbatim>\<open>mknod\<close> of a name that a directory does not have yet refines the update of the
  naming graph at one edge: the directory gets the new node under that name, every other name of
  every other node stays what it was, the node has the mode and the table of functions asked
  for, and searching for the file name finds it. (It needs that a zero byte happens to follow the
  name in memory, since the code stores none, and that a directory without entries is not
  followed by a sibling of that name.)
\<close>

theorem mknod_refines:
  assumes "fs_reach F" "unmounted F" "lookup F 0 (tokens pre) = Some p"
    "CHR ''/'' \<notin> set nm" "nm \<noteq> []" "length (pre @ CHR ''/'' # nm) < PATH_MAX" "length nm < NAME_MAX"
    "find (named F nm) (scanned F p) = None" "e_node E" "e_name E" "e_behind E = []"
  shows "\<exists>F'. mknod E (pre @ CHR ''/'' # nm) mode dev F = Inr (0, F') \<and> unmounted F' \<and>
    child F' = (child F)((p, nm) \<mapsto> ilid F) \<and> inodes F' (ilid F) = new_inode nm mode dev p (ilid F) \<and>
    isearch F' (Rnod F') (pre @ CHR ''/'' # nm) = Inr (Some (ilid F))"
  using mknod_adds [OF reach_tree_ok [OF assms(1)] assms(2-), of mode dev] by blast

lemma demo_facts [simp]: "unmounted demo_fs" "kids demo_fs c = []" "scanned demo_fs 0 = [0]" "child demo_fs e = None" "ilid demo_fs = 1"
  "i_name (inodes demo_fs i) = []"
  by (simp_all add: demo_fs_def unmounted_def kids_def scanned_def child_def split_beta)

theorem mknod_refines_witness:
  "\<exists>F'. mknod \<lparr>e_node = True, e_name = True, e_behind = []\<rparr> ''/tmp'' ISA_IFDIR None demo_fs = Inr (0, F') \<and>
    child F' = [(0, ''tmp'') \<mapsto> 1] \<and> isearch F' (Rnod F') ''/tmp'' = Inr (Some 1)"
proof -
  have "child demo_fs = Map.empty" by (rule ext) simp
  then show ?thesis
    using mknod_refines [OF demo_reach, of "[]" 0 "''tmp''" "\<lparr>e_node = True, e_name = True, e_behind = []\<rparr>" ISA_IFDIR None]
    by (auto simp: PATH_MAX_def NAME_MAX_def same_name_def)
qed

text \<open>
  C27. The errors of \<^verbatim>\<open>mknod\<close>: a name that the directory has is refused with
  \<^verbatim>\<open>EEXIST\<close> and nothing changes; so is, in a directory without entries, the name of the
  directory itself; and a file in a directory that does not exist is not refused with
  \<^verbatim>\<open>ENOENT\<close> but makes the search use a null pointer.
\<close>

theorem mknod_errors:
  assumes "fs_reach F" "unmounted F" "CHR ''/'' \<notin> set nm" "nm \<noteq> []" "length (pre @ CHR ''/'' # nm) < PATH_MAX" "length nm < NAME_MAX"
  shows "(lookup F 0 (tokens pre) = Some p \<and> (child F (p, nm) \<noteq> None \<or> p \<noteq> 0 \<and> kids F p = [] \<and> named F nm p) \<longrightarrow>
      mknod E (pre @ CHR ''/'' # nm) mode dev F = Inr (-1, F\<lparr>fs_errno := E_EXIST\<rparr>)) \<and>
    (tokens pre = us @ [d] \<and> lookup F 0 us = Some q \<and> find (named F d) (scanned F q) = None \<longrightarrow>
      mknod E (pre @ CHR ''/'' # nm) mode dev F = Inl Null_deref)"
proof (intro conjI impI)
  note t = reach_tree_ok [OF assms(1)]
  assume a: "lookup F 0 (tokens pre) = Some p \<and> (child F (p, nm) \<noteq> None \<or> p \<noteq> 0 \<and> kids F p = [] \<and> named F nm p)"
  have "find (named F nm) (scanned F p) \<noteq> None"
  proof (cases "child F (p, nm)")
    case None
    then have leaf: "p \<noteq> 0" "kids F p = []" "named F nm p" using a by simp_all
    have "0 < ilid F" using t by (simp add: tree_ok_def)
    then have "p < ilid F" using lookup_below [OF t, of 0 "tokens pre" p] a by simp
    then obtain b where b: "p \<in> set (kids F b)" "scanned F p = dropWhile (\<lambda>i. i \<noteq> p) (kids F b)"
      using leaf_scanned [OF t _ _ leaf(2)] leaf(1) by blast
    have "p \<in> set (scanned F p)" unfolding b(2) using b(1) by (rule in_dropWhile)
    with leaf(3) show ?thesis by (auto simp: find_None_iff)
  qed (use child_scanned [of F p nm] in \<open>auto simp: child_def\<close>)
  then show "mknod E (pre @ CHR ''/'' # nm) mode dev F = Inr (-1, F\<lparr>fs_errno := E_EXIST\<rparr>)"
    using a by (intro mknod_exists [OF t assms(2) _ assms(3-6)]) simp_all
next
  assume "tokens pre = us @ [d] \<and> lookup F 0 us = Some q \<and> find (named F d) (scanned F q) = None"
  then have a: "tokens pre = us @ [d]" "lookup F 0 us = Some q" "find (named F d) (scanned F q) = None" by simp_all
  show "mknod E (pre @ CHR ''/'' # nm) mode dev F = Inl Null_deref"
    by (rule mknod_no_directory [OF reach_tree_ok [OF assms(1)] assms(2) a assms(3-6)])
qed

theorem mknod_errors_witness:
  "mknod \<lparr>e_node = True, e_name = True, e_behind = []\<rparr> ''/a/b'' ISA_IFREG None demo_fs = Inl Null_deref"
  using mknod_errors [OF demo_reach, of "''b''" "''/a''" 0 "\<lparr>e_node = True, e_name = True, e_behind = []\<rparr>" ISA_IFREG None "[]" "''a''" 0]
  by (simp add: PATH_MAX_def NAME_MAX_def same_name_def)

section \<open>Mounting\<close>

lemma mounted_search:
  assumes t: "tree_ok F" and u: "unmounted F" and m: "lookup F 0 (tokens dir) = Some m"
    and len: "length (dir @ CHR ''/'' # rest) < PATH_MAX"
  shows "isearch (upd_inode m (\<lambda>n. n\<lparr>i_mount := Some x\<rparr>) F) (Rnod F) (dir @ CHR ''/'' # rest) = Inr (Some m)"
    "isearch (upd_inode m (\<lambda>n. n\<lparr>i_mount := Some x\<rparr>) F) (Rnod F) dir = Inr (Some m)"
proof -
  let ?F = "upd_inode m (\<lambda>n. n\<lparr>i_mount := Some x\<rparr>) F"
  have r: "Rnod F = Some 0" "0 < ilid F" using t by (simp_all add: tree_ok_def)
  have f: "i_belong (inodes ?F i) = i_belong (inodes F i)" "i_name (inodes ?F i) = i_name (inodes F i)" "ilid ?F = ilid F" for i
    by (simp_all add: upd_inode_def)
  have "child ?F = child F" by (simp add: child_def kids_def f)
  then have l: "lookup ?F c ts = lookup F c ts" for c ts
    by (induction ts arbitrary: c) (simp_all split: option.split)
  have "\<forall>i<m. i_mount (inodes ?F i) = None"
    using u lookup_below [OF t r(2) m] by (simp add: upd_inode_def unmounted_def)
  then have "isearch_loop ?F (Some 0) (tokens dir) = Inr (Some m)"
    by (rule isearch_loop_lookup [OF upd_mount_tree_ok [OF t]]) (simp_all only: f r l m)
  moreover have "isearch_loop ?F (Some m) ts = Inr (Some m)" for ts
    by (cases ts) (simp_all add: upd_inode_def)
  ultimately show "isearch ?F (Rnod F) (dir @ CHR ''/'' # rest) = Inr (Some m)" "isearch ?F (Rnod F) dir = Inr (Some m)"
    using len by (simp_all add: isearch_def r(1) strtok_split isearch_loop_append)
qed

text \<open>
  Mounting a block device on a directory makes every search for a file below the directory
  return the directory, whether the file exists or not; unmounting undoes it, and leaves every
  inode as it was before.
\<close>

theorem mount_round_trip:
  assumes "fs_reach F" "unmounted F" "lookup F 0 (tokens dv) = Some d" "lookup F 0 (tokens dir) = Some m"
    "i_mode (inodes F d) AND ISA_IFBLK \<noteq> 0" "i_mode (inodes F m) AND ISA_IFDIR \<noteq> 0"
    "length dv < PATH_MAX" "length (dir @ CHR ''/'' # rest) < PATH_MAX"
  shows "\<exists>F' F''. mount True dv dir opts F = Inr (0, F') \<and>
    i_mount (inodes F' m) = Some \<lparr>io_device = i_iohandle (inodes F d), m_options = opts\<rparr> \<and>
    isearch F' (Rnod F') (dir @ CHR ''/'' # rest) = Inr (Some m) \<and>
    umount2 dir F' = Inr (0, F'') \<and> inodes F'' = inodes F \<and> Rnod F'' = Rnod F"
proof -
  note t = reach_tree_ok [OF assms(1)]
  let ?x = "\<lparr>io_device = i_iohandle (inodes F d), m_options = opts\<rparr>"
  let ?F = "upd_inode m (\<lambda>n. n\<lparr>i_mount := Some ?x\<rparr>) F"
  have r: "Rnod F = Some 0" "0 < ilid F" using t by (simp_all add: tree_ok_def)
  have at: "isearch F (Rnod F) s = Inr (Some q)" if "lookup F 0 (tokens s) = Some q" "length s < PATH_MAX" for s q
    using isearch_loop_lookup [OF t _ r(2) that(1)] assms(2) lookup_below [OF t r(2) that(1)] that(2) r(1)
    by (simp add: isearch_def unmounted_def)
  have none: "i_mount (inodes F m) = None"
    using assms(2) lookup_below [OF t r(2) assms(4)] by (simp add: unmounted_def)
  have "mount True dv dir opts F = Inr (0, ?F)"
    using at [OF assms(3,7)] at [OF assms(4)] assms(5,6,8) none by (simp add: mount_def)
  moreover have "umount2 dir ?F = Inr (0, upd_inode m (\<lambda>n. n\<lparr>i_mount := None\<rparr>) ?F)"
    using mounted_search(2) [OF t assms(2,4,8)] by (simp add: umount2_def) (simp add: upd_inode_def)
  moreover have "inodes (upd_inode m (\<lambda>n. n\<lparr>i_mount := None\<rparr>) ?F) = inodes F"
    using none by (simp add: upd_inode_def fun_eq_iff)
  moreover have "Rnod (upd_inode m (\<lambda>n. n\<lparr>i_mount := None\<rparr>) ?F) = Rnod F" "Rnod ?F = Rnod F" by (simp_all add: upd_inode_def)
  moreover have "i_mount (inodes ?F m) = Some ?x" by (simp add: upd_inode_def)
  ultimately show ?thesis using mounted_search(1) [OF t assms(2,4,8)] by auto
qed

theorem mount_round_trip_witness:
  "\<exists>F' F''. mount True ''/'' ''/'' 0 demo_fs = Inr (0, F') \<and> isearch F' (Rnod F') ''//any/file'' = Inr (Some 0) \<and>
    umount2 ''/'' F' = Inr (0, F'') \<and> inodes F'' = inodes demo_fs"
proof -
  have m: "i_mode (inodes demo_fs 0) AND ISA_IFBLK \<noteq> 0" "i_mode (inodes demo_fs 0) AND ISA_IFDIR \<noteq> 0"
    by (simp_all add: demo_fs_def mode_defs)
  show ?thesis
    using mount_round_trip [OF demo_reach, of "''/''" 0 "''/''" 0 "''any/file''" 0] m by (auto simp: PATH_MAX_def)
qed

end
