(* ===== verification/TkRegFileProps.thy ===== *)
theory TkRegFileProps
  imports TkRegFile
begin

text \<open>
  Regular files: what the loops over the chain of sectors store and read, in terms of the bytes of
  the chain in one row; writing at the end as appending; and where it goes wrong.
\<close>

section \<open>Bytes in a row\<close>

definition splice :: "nat \<Rightarrow> 'x list \<Rightarrow> 'x list \<Rightarrow> 'x list" where
  "splice pos bs xs = take pos xs @ bs @ drop (pos + length bs) xs"

lemma splice_splice:
  "pos + length a \<le> length xs \<Longrightarrow> splice (pos + length a) b (splice pos a xs) = splice pos (a @ b) xs"
  by (simp add: splice_def ac_simps)

lemma splice_Nil [simp]: "splice pos [] xs = xs"
  by (simp add: splice_def)

lemma length_splice: "pos + length bs \<le> length xs \<Longrightarrow> length (splice pos bs xs) = length xs"
  by (simp add: splice_def)

text \<open>Sectors of the right size, and the position of a byte in them.\<close>

definition sectors_ok :: "sector_t list \<Rightarrow> bool" where
  "sectors_ok ss \<longleftrightarrow> (\<forall>s\<in>set ss. length s = 40)"

lemma sector_size [simp]: "DATA_IN_SECTOR_SIZE = 40"
  by (simp add: DATA_IN_SECTOR_SIZE_def SECTOR_SIZE_def)

lemma length_concat_row: "sectors_ok ss \<Longrightarrow> length (concat ss) = 40 * length ss"
  by (induction ss) (simp_all add: sectors_ok_def)

lemma row_split:
  assumes "sectors_ok ss" "c < length ss"
  shows "concat ss = concat (take c ss) @ ss ! c @ concat (drop (Suc c) ss)" "length (concat (take c ss)) = 40 * c" "length (ss ! c) = 40"
proof -
  show "concat ss = concat (take c ss) @ ss ! c @ concat (drop (Suc c) ss)"
    using id_take_nth_drop [OF assms(2)] by (metis concat.simps(2) concat_append)
  have "sectors_ok (take c ss)" using assms(1) by (auto simp: sectors_ok_def dest: in_set_takeD)
  then show "length (concat (take c ss)) = 40 * c" using assms(2) by (simp add: length_concat_row)
  show "length (ss ! c) = 40" using assms by (simp add: sectors_ok_def)
qed

lemma put_bytes_row:
  assumes "sectors_ok ss" "c < length ss" "s + length bs \<le> 40"
  shows "\<exists>ss'. put_bytes c (int s) bs ss = Inr ss' \<and> sectors_ok ss' \<and> length ss' = length ss \<and>
    concat ss' = splice (40 * c + s) bs (concat ss)"
proof -
  note r = row_split [OF assms(1,2)]
  let ?x = "take s (ss ! c) @ bs @ drop (s + length bs) (ss ! c)"
  let ?ss = "ss[c := ?x]"
  have l: "length ?x = 40" using r(3) assms(3) by simp
  have ok: "sectors_ok ?ss" using assms(1) l by (auto simp: sectors_ok_def dest!: set_update_subset_insert [THEN subsetD])
  have "concat ?ss = concat (take c ss) @ ?x @ concat (drop (Suc c) ss)"
    using row_split(1) [OF ok, of c] assms(2) by simp
  also have "\<dots> = splice (40 * c + s) bs (concat ss)"
  proof -
    have "take (40 * c + s) (concat ss) = concat (take c ss) @ take s (ss ! c)"
      "drop (40 * c + s + length bs) (concat ss) = drop (s + length bs) (ss ! c) @ concat (drop (Suc c) ss)"
      using assms(3) r(2,3) by (subst r(1), simp)+
    then show ?thesis by (simp add: splice_def)
  qed
  finally show ?thesis using ok assms(2,3) by (simp add: put_bytes_def)
qed

lemma get_bytes_row:
  assumes "sectors_ok ss" "c < length ss" "s + n \<le> 40"
  shows "get_bytes c (int s) (int n) ss = Inr (take n (drop (40 * c + s) (concat ss)))"
proof -
  note r = row_split [OF assms(1,2)]
  have "take n (drop (40 * c + s) (concat ss)) = take n (drop s (ss ! c))"
    by (subst r(1)) (use r assms(3) in simp)
  then show ?thesis using assms(2,3) by (simp add: get_bytes_def)
qed

section \<open>The loops\<close>

lemma write_loop_within:
  "bs \<noteq> [] \<Longrightarrow> int (length bs) \<le> slen \<Longrightarrow>
    write_loop bs slen hx ss = andThen (put_bytes (csector hx) (sidx hx) bs ss) (\<lambda>ss'. Inr (True, hx, ss'))"
  by (subst write_loop.simps) simp

lemma write_loop_row:
  assumes "sectors_ok ss" "csector hx = c" "sidx hx = int s" "s \<le> 40" "c < length ss" "bs \<noteq> []"
    "40 * c + s + length bs \<le> 40 * length ss"
  shows "\<exists>hx' ss'. write_loop bs (40 - int s) hx ss = Inr (True, hx', ss') \<and> sectors_ok ss' \<and> length ss' = length ss \<and>
    concat ss' = splice (40 * c + s) bs (concat ss) \<and> r_ptr hx' = r_ptr hx \<and>
    (s + length bs > 40 \<longrightarrow> csector hx' = (40 * c + s + length bs - 1) div 40 \<and> sidx hx' = 0 \<and>
      didx hx' = didx hx + 40 * int ((40 * c + s + length bs - 1) div 40) - int (40 * c + s))"
  using assms
proof (induction "length ss - c" arbitrary: bs hx ss c s)
  case 0
  then show ?case by simp
next
  case (Suc d)
  show ?case
  proof (cases "s + length bs > 40")
    case False
    with Suc.prems put_bytes_row [of ss c s bs] show ?thesis by (subst write_loop.simps) auto
  next
    case True
    let ?a = "take (40 - s) bs" and ?b = "drop (40 - s) bs"
    have la: "length ?a = 40 - s" "?a @ ?b = bs" "?b \<noteq> []" using True Suc.prems(4) by auto
    from Suc.prems la(1) obtain ss1 where ss1: "put_bytes c (int s) ?a ss = Inr ss1" "sectors_ok ss1" "length ss1 = length ss"
      "concat ss1 = splice (40 * c + s) ?a (concat ss)" using put_bytes_row [of ss c s ?a] by auto
    have more: "Suc c < length ss" using True Suc.prems(7) by linarith
    let ?hx = "hx\<lparr>didx := didx hx + (40 - int s), csector := Suc c, sidx := 0\<rparr>"
    have step: "write_loop bs (40 - int s) hx ss = write_loop ?b 40 ?hx ss1"
      using True Suc.prems(2-4,6) ss1(1,3) more by (subst write_loop.simps) (simp add: nat_diff_distrib nat_minus_as_int [symmetric])
    have fits: "40 * Suc c + length ?b \<le> 40 * length ss1" using Suc.prems(4,7) True ss1(3) by simp
    have "d = length ss1 - Suc c" using Suc.hyps(2) ss1(3) by simp
    from Suc.hyps(1) [OF this ss1(2), of ?hx 0 ?b] fits more la(3) ss1(3) obtain hx' ss' where
      w: "write_loop ?b 40 ?hx ss1 = Inr (True, hx', ss')" "sectors_ok ss'" "length ss' = length ss"
        "concat ss' = splice (40 * Suc c) ?b (concat ss1)" "r_ptr hx' = r_ptr hx"
        "length ?b > 40 \<longrightarrow> csector hx' = (40 * Suc c + length ?b - 1) div 40 \<and> sidx hx' = 0 \<and>
          didx hx' = didx ?hx + 40 * int ((40 * Suc c + length ?b - 1) div 40) - int (40 * Suc c)" by auto
    have pos: "40 * c + s + length ?a = 40 * Suc c" using la(1) Suc.prems(4) by simp
    have "length (concat ss) = 40 * length ss" by (rule length_concat_row) (rule Suc.prems(1))
    then have row: "concat ss' = splice (40 * c + s) bs (concat ss)"
      using w(4) ss1(4) splice_splice [of "40 * c + s" ?a "concat ss" ?b] la(2) pos more by (simp add: add.commute)
    have len: "40 * Suc c + length ?b = 40 * c + s + length bs" using True Suc.prems(4) by simp
    show ?thesis
    proof (cases "length ?b > 40")
      case b: True
      then show ?thesis using step w row len Suc.prems(4) by auto
    next
      case False
      then have "write_loop ?b 40 ?hx ss1 = andThen (put_bytes (Suc c) 0 ?b ss1) (\<lambda>ss'. Inr (True, ?hx, ss'))"
        using write_loop_within [of ?b 40 ?hx ss1] la(3) by simp
      then have "hx' = ?hx" using w(1) by (cases "put_bytes (Suc c) 0 ?b ss1") auto
      moreover have "(40 * c + s + length bs - 1) div 40 = Suc c"
        using False True Suc.prems(4) by (intro div_nat_eqI) auto
      ultimately show ?thesis using step w row Suc.prems(4) by auto
    qed
  qed
qed

lemma read_loop_row:
  assumes "sectors_ok ss" "csector hx = c" "sidx hx = int s" "s \<le> 40" "c < length ss"
    "40 * c + s + n \<le> 40 * length ss"
  shows "\<exists>hx'. read_loop (int n) (40 - int s) hx ss acc = Inr (acc @ take n (drop (40 * c + s) (concat ss)), hx')"
  using assms
proof (induction "length ss - c" arbitrary: n hx c s acc)
  case 0
  then show ?case by simp
next
  case (Suc d)
  consider (none) "n = 0" | (within) "0 < n" "s + n \<le> 40" | (beyond) "s + n > 40" by linarith
  then show ?case
  proof cases
    case none
    then show ?thesis by (subst read_loop.simps) simp
  next
    case within
    with Suc.prems get_bytes_row [of ss c s n] show ?thesis by (subst read_loop.simps) simp
  next
    case beyond
    let ?hx = "hx\<lparr>didx := didx hx + (40 - int s), csector := Suc c, sidx := 0\<rparr>"
    let ?a = "take (40 - s) (drop (40 * c + s) (concat ss))"
    have g: "get_bytes c (int s) (40 - int s) ss = Inr ?a"
      using get_bytes_row [of ss c s "40 - s"] Suc.prems by (simp add: of_nat_diff)
    have more: "Suc c < length ss" using beyond Suc.prems(6) by linarith
    have n: "int n - (40 - int s) = int (n - (40 - s))" using beyond Suc.prems(4) by simp
    have "read_loop (int n) (40 - int s) hx ss acc = read_loop (int n - (40 - int s)) 40 ?hx ss (acc @ ?a)"
      using beyond Suc.prems(2-4) g more by (subst read_loop.simps) simp
    then have step: "read_loop (int n) (40 - int s) hx ss acc = read_loop (int (n - (40 - s))) 40 ?hx ss (acc @ ?a)"
      unfolding n .
    have fits: "40 * Suc c + (n - (40 - s)) \<le> 40 * length ss" using beyond Suc.prems(4,6) by simp
    have "d = length ss - Suc c" using Suc.hyps(2) by simp
    from Suc.hyps(1) [OF this Suc.prems(1), of ?hx 0 "n - (40 - s)" "acc @ ?a"] fits more obtain hx' where
      r: "read_loop (int (n - (40 - s))) 40 ?hx ss (acc @ ?a) =
        Inr ((acc @ ?a) @ take (n - (40 - s)) (drop (40 * Suc c) (concat ss)), hx')" by auto
    have "take n (drop (40 * c + s) (concat ss)) = ?a @ take (n - (40 - s)) (drop (40 * Suc c) (concat ss))"
      using beyond Suc.prems(4) take_add [of "40 - s" "n - (40 - s)" "drop (40 * c + s) (concat ss)"] by simp
    then show ?thesis unfolding step r by simp
  qed
qed

section \<open>Files\<close>

definition file_ok :: "ifreg_inode_data \<Rightarrow> bool" where
  "file_ok ix \<longleftrightarrow> sectors_ok (sectors ix) \<and> sectors ix \<noteq> [] \<and> maxsize ix = 40 * int (length (sectors ix))"

definition contents :: "ifreg_inode_data \<Rightarrow> 8 word list" where
  "contents ix = take (nat (dsize ix)) (concat (sectors ix))"

text \<open>A handle that stands at the end of its file, with its pointer in the same place.\<close>

definition at_end :: "ifreg_hndl_data \<Rightarrow> ifreg_inode_data \<Rightarrow> bool" where
  "at_end hx ix \<longleftrightarrow> file_ok ix \<and> Suc (csector hx) = length (sectors ix) \<and> 0 \<le> sidx hx \<and> sidx hx \<le> 40 \<and>
     didx hx = 40 * int (csector hx) + sidx hx \<and> dsize ix = didx hx \<and> r_ptr hx = (csector hx, sidx hx)"

lemma blank_ok [simp]: "length blank_sector = 40"
  by (simp add: blank_sector_def)

lemma sectors_ok_append [simp]: "sectors_ok (xs @ ys) \<longleftrightarrow> sectors_ok xs \<and> sectors_ok ys"
  by (auto simp: sectors_ok_def)

lemma sectors_ok_blank [simp]: "sectors_ok (replicate k blank_sector)"
  by (simp add: sectors_ok_def)

text \<open>Growing adds blank sectors, as many as are needed.\<close>

definition grown_by :: "nat \<Rightarrow> ifreg_inode_data \<Rightarrow> ifreg_inode_data" where
  "grown_by k ix = ix\<lparr>sectors := sectors ix @ replicate k blank_sector, maxsize := 40 * int (length (sectors ix) + k)\<rparr>"

lemma grown_by_0: "file_ok ix \<Longrightarrow> grown_by 0 ix = ix"
  by (simp add: grown_by_def file_ok_def)

lemma grown_by_ok [simp]: "file_ok ix \<Longrightarrow> file_ok (grown_by k ix)"
  by (simp add: grown_by_def file_ok_def)

lemma grow_loop_grows:
  assumes "file_ok ix" "t < length (sectors ix)" "False \<notin> set mem" "n \<le> maxsize ix + 40 * int (length mem)"
  shows "\<exists>k. grow_loop mem n t ix = Inr (grown_by k ix) \<and> n \<le> maxsize (grown_by k ix) \<and>
    (k = 0 \<or> maxsize (grown_by k ix) < n + 40)"
  using assms
proof (induction mem n t ix rule: grow_loop.induct)
  case (1 mem n t ix)
  show ?case
  proof (cases "n \<le> maxsize ix")
    case True
    then show ?thesis using grown_by_0 [OF "1.prems"(1)] by (subst grow_loop.simps) (auto intro!: exI [of _ 0])
  next
    case big: False
    show ?thesis
    proof (cases "Suc t < length (sectors ix)")
      case True
      then show ?thesis using "1.IH"(1) [OF big True] "1.prems" big by (subst grow_loop.simps) auto
    next
      case last: False
      then have t: "Suc t = length (sectors ix)" using "1.prems"(2) by simp
      from big "1.prems"(4) obtain mem' where mem: "mem = True # mem'" using "1.prems"(3) by (cases mem) auto
      have g1: "ix\<lparr>sectors := sectors ix @ [blank_sector], maxsize := maxsize ix + 40\<rparr> = grown_by 1 ix"
        "maxsize (grown_by 1 ix) = maxsize ix + 40" "length (sectors (grown_by 1 ix)) = Suc (length (sectors ix))"
        using "1.prems"(1) by (simp_all add: grown_by_def file_ok_def)
      have step: "grow_loop mem n t ix = grow_loop mem' n (Suc t) (grown_by 1 ix)"
        using big last mem "1.prems"(1) by (subst grow_loop.simps) (simp add: grown_by_def file_ok_def add.commute)
      have ih: "\<exists>k. grow_loop mem' n (Suc t) (grown_by 1 ix) = Inr (grown_by k (grown_by 1 ix)) \<and>
          n \<le> maxsize (grown_by k (grown_by 1 ix)) \<and> (k = 0 \<or> maxsize (grown_by k (grown_by 1 ix)) < n + 40)"
        using "1.IH"(2) [OF big last mem] "1.prems" mem t by (simp add: g1 del: One_nat_def)
      have g: "grown_by k (grown_by 1 ix) = grown_by (Suc k) ix" for k
        by (simp add: grown_by_def replicate_append_same [symmetric])
      have "maxsize (grown_by 1 ix) < n + 40" using big "1.prems"(1) by (simp add: grown_by_def file_ok_def)
      with ih show ?thesis unfolding step g by (metis One_nat_def)
    qed
  qed
qed

lemma fits_sector_iff: "0 \<le> s \<Longrightarrow> s \<le> 40 \<Longrightarrow> 0 \<le> n \<Longrightarrow> n < 2 ^ 31 \<Longrightarrow> fits_sector s n \<longleftrightarrow> n \<le> 40 - s"
  by (simp add: fits_sector_def)

lemma take_splice: "pos \<le> length xs \<Longrightarrow> take (pos + length bs) (splice pos bs xs) = take pos xs @ bs"
  by (simp add: splice_def)

lemma write_within:
  assumes "at_end hx ix" "bs \<noteq> []" "sidx hx + int (length bs) \<le> 40"
  shows "grow_loop mem (int (length bs) + didx hx) (csector hx) ix = Inr ix"
    "\<exists>hx' ix'. write_data bs hx ix = Inr (hx', ix') \<and> at_end hx' ix' \<and> contents ix' = contents ix @ bs"
proof -
  let ?c = "csector hx"
  obtain s where s: "sidx hx = int s" "s \<le> 40" using assms(1) nonneg_int_cases [of "sidx hx"] by (auto simp: at_end_def)
  have len: "s + length bs \<le> 40" using assms(3) s(1) by simp
  have a: "sectors_ok (sectors ix)" "Suc ?c = length (sectors ix)" "maxsize ix = 40 * int (Suc ?c)"
    "didx hx = int (40 * ?c + s)" "dsize ix = int (40 * ?c + s)" "r_ptr hx = (?c, int s)"
    using assms(1) s(1) by (simp_all add: at_end_def file_ok_def)
  show "grow_loop mem (int (length bs) + didx hx) (csector hx) ix = Inr ix"
    using a len by (subst grow_loop.simps) simp
  obtain ss' where ss': "put_bytes ?c (int s) bs (sectors ix) = Inr ss'" "sectors_ok ss'" "length ss' = length (sectors ix)"
    "concat ss' = splice (40 * ?c + s) bs (concat (sectors ix))"
    using put_bytes_row [OF a(1), of ?c s bs] a(2) len by auto
  let ?hx = "hx\<lparr>r_ptr := (?c, int s + int (length bs)), didx := didx hx + int (length bs), sidx := int s + int (length bs)\<rparr>"
  let ?ix = "ix\<lparr>sectors := ss', dsize := didx hx + int (length bs)\<rparr>"
  have "write_data bs hx ix = Inr (?hx, ?ix)"
    using s len ss' a by (simp add: write_data_def fits_sector_iff Let_def)
  moreover have "at_end ?hx ?ix"
    using assms(1) s len ss'(2,3) a(2) by (auto simp: at_end_def file_ok_def)
  moreover have "contents ?ix = contents ix @ bs"
  proof -
    have "40 * ?c + s \<le> length (concat (sectors ix))" using length_concat_row [OF a(1)] s(2) unfolding a(2) [symmetric] by simp
    moreover have n: "nat (didx hx + int (length bs)) = 40 * ?c + s + length bs" "nat (dsize ix) = 40 * ?c + s"
      unfolding a(4,5) by (simp_all only: nat_int flip: of_nat_add)
    moreover have "contents ?ix = take (nat (didx hx + int (length bs))) (concat ss')" by (simp add: contents_def)
    ultimately show ?thesis using take_splice [of "40 * ?c + s" "concat (sectors ix)" bs] ss'(4)
      by (simp add: contents_def)
  qed
  ultimately show "\<exists>hx' ix'. write_data bs hx ix = Inr (hx', ix') \<and> at_end hx' ix' \<and> contents ix' = contents ix @ bs"
    by blast
qed

section \<open>Flags\<close>

definition known_flags :: "32 word" where
  "known_flags = O_RDWR_NL OR O_WRONLY_NL OR FO_APPEND OR FO_CREAT OR FO_EXCL OR FO_NOCTTY OR FO_NONBLOCK OR FO_SYNC OR FO_TRUNC"

lemma flag_bits:
  "O_WRONLY_NL = push_bit 0 1" "O_RDWR_NL = push_bit 1 1" "FO_APPEND = push_bit 3 1" "FO_CREAT = push_bit 9 1"
  "FO_TRUNC = push_bit 10 1" "FO_EXCL = push_bit 11 1" "FO_SYNC = push_bit 13 1" "FO_NONBLOCK = push_bit 14 1" "FO_NOCTTY = push_bit 15 1"
  by (simp_all add: flag_defs push_bit_eq_mult)

lemma flags_eq_iff: "(x :: 32 word) = y \<longleftrightarrow> (\<forall>n. bit x n = bit y n)"
  by (auto intro: bit_word_eqI)

lemma bit_push_1: "k < 32 \<Longrightarrow> bit (push_bit k (1 :: 32 word)) n \<longleftrightarrow> n = k"
  by (auto simp: bit_simps)

lemma bit_flags:
  "bit O_WRONLY_NL n \<longleftrightarrow> n = 0" "bit O_RDWR_NL n \<longleftrightarrow> n = 1" "bit FO_APPEND n \<longleftrightarrow> n = 3" "bit FO_CREAT n \<longleftrightarrow> n = 9"
  "bit FO_TRUNC n \<longleftrightarrow> n = 10" "bit FO_EXCL n \<longleftrightarrow> n = 11" "bit FO_SYNC n \<longleftrightarrow> n = 13" "bit FO_NONBLOCK n \<longleftrightarrow> n = 14" "bit FO_NOCTTY n \<longleftrightarrow> n = 15"
  unfolding flag_bits by (rule bit_push_1, simp)+

lemma and_flag: "(\<And>n. bit f n \<longleftrightarrow> n = k) \<Longrightarrow> (t :: 32 word) AND f = 0 \<longleftrightarrow> \<not> bit t k"
  by (auto simp: flags_eq_iff bit_and_iff)

lemmas flag_tests = bit_flags [THEN and_flag]

lemma take_flag_eq: "take_flag f t = (t AND f \<noteq> 0, t AND NOT f)"
proof (cases "t AND f = 0")
  case True
  then have "\<not> (bit t n \<and> bit f n)" for n by (metis bit_0_eq bit_and_iff bot_apply bot_bool_def)
  then have "t AND NOT f = t" by (intro bit_word_eqI) (auto simp: bit_simps)
  with True show ?thesis by (simp add: take_flag_def)
qed (simp add: take_flag_def)

lemma access_bits:
  "(oflag :: 32 word) AND 3 = 3 \<longleftrightarrow> bit oflag 0 \<and> bit oflag 1" "oflag AND 3 = 0 \<longleftrightarrow> \<not> bit oflag 0 \<and> \<not> bit oflag 1"
proof -
  have 3: "3 = O_WRONLY_NL OR O_RDWR_NL" by (simp add: flag_defs)
  show "oflag AND 3 = 3 \<longleftrightarrow> bit oflag 0 \<and> bit oflag 1" "oflag AND 3 = 0 \<longleftrightarrow> \<not> bit oflag 0 \<and> \<not> bit oflag 1"
    unfolding 3 by (auto simp: flags_eq_iff bit_and_iff bit_or_iff bit_flags simp del: neq0_conv intro: ccontr)
qed

lemma bit_known: "bit known_flags n \<longleftrightarrow> n \<in> {0, 1, 3, 9, 10, 11, 13, 14, 15}"
  by (auto simp: known_flags_def bit_or_iff bit_flags)

lemma flags_exact:
  "tk_dbg_flags oflag =
    (if oflag AND 3 = 3 then Inl Assert_failed
     else Inr (\<lparr>d_RDONLY = oflag AND 3 = 0, d_WRONLY = oflag AND O_WRONLY_NL \<noteq> 0, d_RDWR = oflag AND O_RDWR_NL \<noteq> 0,
       d_APPEND = oflag AND FO_APPEND \<noteq> 0, d_CREAT = oflag AND FO_CREAT \<noteq> 0, d_EXCL = oflag AND FO_EXCL \<noteq> 0,
       d_NOCTTY = oflag AND FO_NOCTTY \<noteq> 0, d_NONBLOCK = oflag AND FO_NONBLOCK \<noteq> 0, d_SYNC = oflag AND FO_SYNC \<noteq> 0,
       d_TRUNC = oflag AND FO_TRUNC \<noteq> 0\<rparr>, oflag AND NOT known_flags))"
proof (cases "oflag AND 3 = 3")
  case True
  then show ?thesis by (simp add: tk_dbg_flags_def O_RDWR_NL_def O_WRONLY_NL_def)
next
  case False
  then have nb: "\<not> (bit oflag 0 \<and> bit oflag 1)" by (simp add: access_bits)
  have a: "oflag AND (O_RDWR_NL OR O_WRONLY_NL) \<noteq> O_RDWR_NL OR O_WRONLY_NL"
    using False by (simp add: O_RDWR_NL_def O_WRONLY_NL_def)
  have rest: "((((((((if bit oflag 1 then oflag AND NOT O_RDWR_NL else (oflag AND NOT O_RDWR_NL) AND NOT O_WRONLY_NL) AND NOT FO_APPEND)
      AND NOT FO_CREAT) AND NOT FO_EXCL) AND NOT FO_NOCTTY) AND NOT FO_NONBLOCK) AND NOT FO_SYNC) AND NOT FO_TRUNC) = oflag AND NOT known_flags"
    using nb by (intro bit_word_eqI) (auto simp: bit_and_iff bit_not_iff bit_flags bit_known, metis gr0I)
  show ?thesis
    using False a nb rest
    by (auto simp: tk_dbg_flags_def take_flag_eq flag_tests access_bits bit_and_iff bit_not_iff bit_flags split: if_splits)
qed

text \<open>
  \<^verbatim>\<open>tk_dbg_flags\<close> fails its assertion exactly when a file is to be opened for writing
  and for reading and writing at once; otherwise it reports each flag that is set and returns the
  bits that it does not know.
\<close>

theorem dbg_flags_exact:
  "tk_dbg_flags oflag =
    (if oflag AND 3 = 3 then Inl Assert_failed
     else Inr (\<lparr>d_RDONLY = oflag AND 3 = 0, d_WRONLY = oflag AND O_WRONLY_NL \<noteq> 0, d_RDWR = oflag AND O_RDWR_NL \<noteq> 0,
       d_APPEND = oflag AND FO_APPEND \<noteq> 0, d_CREAT = oflag AND FO_CREAT \<noteq> 0, d_EXCL = oflag AND FO_EXCL \<noteq> 0,
       d_NOCTTY = oflag AND FO_NOCTTY \<noteq> 0, d_NONBLOCK = oflag AND FO_NONBLOCK \<noteq> 0, d_SYNC = oflag AND FO_SYNC \<noteq> 0,
       d_TRUNC = oflag AND FO_TRUNC \<noteq> 0\<rparr>, oflag AND NOT known_flags))"
  by (rule flags_exact)

section \<open>Operations\<close>

text \<open>A handle that is open on a file, with the data of both.\<close>

definition opened :: "nat \<Rightarrow> ('d, 'h, 'a) fstate_scheme \<Rightarrow> 'h tk_fhandle_t \<Rightarrow> 'h \<Rightarrow> 'd \<Rightarrow> bool" where
  "opened h F x hx ix \<longleftrightarrow> fhandles F h = Some x \<and> f_data x = Some hx \<and> i_idata (inodes F (f_inode x)) = Some ix"

definition flags_ok :: "32 word \<Rightarrow> bool" where
  "flags_ok oflag \<longleftrightarrow> oflag AND 3 \<noteq> 3 \<and> oflag AND NOT known_flags = 0"

lemma assert_flags_ok: "flags_ok oflag \<Longrightarrow> assert_flags oflag m = m"
  by (simp add: assert_flags_def flags_ok_def flags_exact)

lemma with_file_opened: "opened h F x hx ix \<Longrightarrow> flags_ok (f_oflag x) \<Longrightarrow> with_file h F k = k x hx ix"
  by (simp add: with_file_def opened_def the_handle_def deref_def assert_flags_ok)

definition may_append :: "32 word \<Rightarrow> bool" where
  "may_append oflag \<longleftrightarrow> flags_ok oflag \<and> oflag AND (O_RDWR_NL OR O_WRONLY_NL) \<noteq> 0 \<and> oflag AND FO_APPEND \<noteq> 0"

lemma write_opened:
  assumes "opened h F x hx ix" "may_append (f_oflag x)" "dsize ix < int (length bs) + didx hx"
  shows "ifreg_write mem h bs F = andThen (grow_loop mem (int (length bs) + didx hx) (csector hx) ix) (\<lambda>ix1.
    andThen (write_data bs hx ix1) (\<lambda>(hx', ix2). Inr (int (length bs), put_file h (f_inode x) hx' ix2 F)))"
  using assms(2,3) by (simp add: ifreg_write_def with_file_opened [OF assms(1)] may_append_def)

lemma opened_put_file: "opened h F x hx ix \<Longrightarrow> opened h (put_file h (f_inode x) hx' ix' F) (x\<lparr>f_data := Some hx'\<rparr>) hx' ix'"
  by (simp add: opened_def put_file_def set_hdata_def set_idata_def upd_inode_def)

lemma append_within:
  assumes "opened h F x hx ix" "may_append (f_oflag x)" "at_end hx ix" "bs \<noteq> []" "sidx hx + int (length bs) \<le> 40"
  shows "\<exists>hx' ix'. ifreg_write mem h bs F = Inr (int (length bs), put_file h (f_inode x) hx' ix' F) \<and>
    at_end hx' ix' \<and> contents ix' = contents ix @ bs"
proof -
  have "dsize ix < int (length bs) + didx hx" using assms(3,4) by (simp add: at_end_def)
  then have "ifreg_write mem h bs F = andThen (write_data bs hx ix) (\<lambda>(hx', ix2). Inr (int (length bs), put_file h (f_inode x) hx' ix2 F))"
    by (simp add: write_opened [OF assms(1,2)] write_within(1) [OF assms(3-5)])
  moreover obtain hx' ix' where "write_data bs hx ix = Inr (hx', ix')" "at_end hx' ix'" "contents ix' = contents ix @ bs"
    using write_within(2) [OF assms(3-5)] by blast
  ultimately show ?thesis by auto
qed

lemma start_at_end: "at_end start_hdata new_idata"
  by (simp add: at_end_def start_hdata_def new_idata_def file_ok_def sectors_ok_def)

text \<open>Creating a file, and opening it again.\<close>

definition all_mem :: open_env where
  "all_mem = \<lparr>e_handle = True, e_hdata = True, e_idata = True, e_sector = True\<rparr>"

lemma open_create:
  assumes "i_idata (inodes F i) = None" "oflag AND FO_CREAT \<noteq> 0"
  shows "\<exists>F' x. ifreg_open all_mem oflag [Va_mode 0, Va_inode i] F = Inr (fd_of (flid F), F') \<and>
    opened (flid F) F' x start_hdata new_idata \<and> f_inode x = i \<and> f_oflag x = oflag \<and> flid F' = Suc (flid F)"
  using assms by (auto simp: ifreg_open_def tk_new_handle_def all_mem_def set_hdata_def set_idata_def upd_inode_def deref_def opened_def)

lemma open_again:
  assumes "i_idata (inodes F i) = Some ix" "oflag AND FO_CREAT = 0"
  shows "\<exists>F' x. ifreg_open all_mem oflag [Va_inode i] F = Inr (fd_of (flid F), F') \<and>
    opened (flid F) F' x start_hdata ix \<and> f_inode x = i \<and> f_oflag x = oflag"
  using assms by (auto simp: ifreg_open_def tk_new_handle_def all_mem_def set_hdata_def deref_def opened_def)

text \<open>Reading from the start of a file.\<close>

lemma read_start:
  assumes "opened h F x start_hdata ix" "flags_ok (f_oflag x)" "f_oflag x AND O_WRONLY_NL = 0"
    "file_ok ix" "0 \<le> dsize ix" "n \<le> 40 * length (sectors ix)" "n < 2 ^ 31"
  shows "\<exists>F'. ifreg_read h (int n) F = Inr (int n, take n (concat (sectors ix)), F')"
proof -
  let ?ss = "sectors ix"
  have ss: "sectors_ok ?ss" "0 < length ?ss" using assms(4) by (simp_all add: file_ok_def)
  have l: "length (take n (concat ?ss)) = n" using length_concat_row [OF ss(1)] assms(6) by simp
  have r: "ifreg_read h (int n) F =
    (if fits_sector 0 (int n) then andThen (get_bytes 0 0 (int n) ?ss) (\<lambda>bs.
       Inr (int n, bs, set_hdata h (start_hdata\<lparr>sidx := int n, didx := int n\<rparr>) F))
     else andThen (read_loop (int n) 40 start_hdata ?ss []) (\<lambda>(bs, hx'). Inr (int (length bs), bs, set_hdata h hx' F)))"
    using assms(3,5) by (simp add: ifreg_read_def with_file_opened [OF assms(1,2)] start_hdata_def)
  show ?thesis
  proof (cases "n \<le> 40")
    case True
    then show ?thesis using r get_bytes_row [OF ss, of 0 n] assms(7) by (simp add: fits_sector_iff)
  next
    case False
    obtain hx' where "read_loop (int n) 40 start_hdata ?ss [] = Inr (take n (concat ?ss), hx')"
      using read_loop_row [OF ss(1), of start_hdata 0 0 n "[]"] ss(2) assms(6) by (auto simp: start_hdata_def)
    then show ?thesis using r False l assms(7) by (simp add: fits_sector_iff)
  qed
qed

text \<open>Writing to a file that was just created.\<close>

lemma take_length_take: "take (length (take m xs)) xs = take m xs"
  by (simp add: min_def)

lemma write_start:
  assumes "opened h F x start_hdata new_idata" "may_append (f_oflag x)" "bs \<noteq> []" "length bs < 2 ^ 31"
    "False \<notin> set mem" "length bs \<le> 40 * length mem"
  shows "\<exists>hx' ix'. ifreg_write mem h bs F = Inr (int (length bs), put_file h (f_inode x) hx' ix' F) \<and>
    file_ok ix' \<and> take (length bs) (concat (sectors ix')) = bs \<and> 0 \<le> dsize ix' \<and> length bs \<le> 40 * length (sectors ix') \<and>
    (length bs > 40 \<longrightarrow> r_ptr hx' = (0, 0) \<and> sidx hx' = 0 \<and> didx hx' = dsize ix' \<and> Suc (csector hx') = length (sectors ix') \<and>
       dsize ix' = 40 * int (csector hx'))"
proof (cases "length bs \<le> 40")
  case True
  have s: "sidx start_hdata = 0" "dsize new_idata = 0" "contents new_idata = []"
    by (simp_all add: start_hdata_def new_idata_def contents_def)
  have "sidx start_hdata + int (length bs) \<le> 40" using True s(1) by simp
  from append_within [OF assms(1,2) start_at_end assms(3) this, of mem] obtain hx' ix' where
    w: "ifreg_write mem h bs F = Inr (int (length bs), put_file h (f_inode x) hx' ix' F)" "at_end hx' ix'" "contents ix' = bs"
    unfolding s(3) append_Nil by blast
  have f: "file_ok ix'" "0 \<le> dsize ix'" using w(2) by (simp_all add: at_end_def)
  then have "length (concat (sectors ix')) = 40 * length (sectors ix')" by (simp add: length_concat_row file_ok_def)
  moreover have "take (length (contents ix')) (concat (sectors ix')) = contents ix'"
    unfolding contents_def by (rule take_length_take)
  moreover have "length bs \<le> length (concat (sectors ix'))" unfolding w(3) [symmetric] contents_def by simp
  ultimately show ?thesis using w f True unfolding w(3) by auto
next
  case False
  let ?n = "length bs"
  have s: "csector start_hdata = 0" "sidx start_hdata = 0" "didx start_hdata = 0" "r_ptr start_hdata = (0, 0)" by (simp_all add: start_hdata_def)
  have ok: "file_ok new_idata" "maxsize new_idata = 40" "sectors new_idata = [blank_sector]" "dsize new_idata = 0"
    by (simp_all add: new_idata_def file_ok_def sectors_ok_def)
  obtain k where k: "grow_loop mem (int ?n) 0 new_idata = Inr (grown_by k new_idata)" "int ?n \<le> maxsize (grown_by k new_idata)"
    "k = 0 \<or> maxsize (grown_by k new_idata) < int ?n + 40"
    using grow_loop_grows [OF ok(1), of 0 mem "int ?n"] ok assms(5,6) by auto
  let ?ix = "grown_by k new_idata" and ?c = "(?n - 1) div 40"
  have g: "length (sectors ?ix) = Suc k" "maxsize ?ix = 40 * int (Suc k)" "sectors_ok (sectors ?ix)"
    using grown_by_ok [OF ok(1), of k] by (simp_all add: grown_by_def ok(3) file_ok_def)
  have n: "?n \<le> 40 * Suc k" "40 * Suc k < ?n + 40" using k(2,3) g(2) False by auto
  then have c: "?c = k" by (intro div_nat_eqI) auto
  obtain hx' ss' where w: "write_loop bs 40 start_hdata (sectors ?ix) = Inr (True, hx', ss')" "sectors_ok ss'"
    "length ss' = Suc k" "concat ss' = splice 0 bs (concat (sectors ?ix))" "r_ptr hx' = (0, 0)"
    "csector hx' = k" "sidx hx' = 0" "didx hx' = 40 * int k"
    using write_loop_row [OF g(3), of start_hdata 0 0 bs] s assms(3) n(1) False by (auto simp: g(1) c [unfolded One_nat_def])
  let ?ix' = "?ix\<lparr>sectors := ss', dsize := 40 * int k\<rparr>"
  have "write_data bs start_hdata ?ix = Inr (hx', ?ix')"
    using w s False assms(4) by (simp add: write_data_def fits_sector_iff)
  then have "ifreg_write mem h bs F = Inr (int ?n, put_file h (f_inode x) hx' ?ix' F)"
    using write_opened [OF assms(1,2), of bs mem] k(1) s assms(3) ok(4) by simp
  moreover have "take ?n (concat ss') = bs" using w(4) by (simp add: splice_def)
  moreover have "file_ok ?ix'" using w(2,3) g(2) by (auto simp: file_ok_def)
  ultimately show ?thesis using w n(1) by - (rule exI [of _ hx'], rule exI [of _ ?ix'], auto)
qed

section \<open>The theorems\<close>

text \<open>
  Writing through a handle at the end of its file, as long as the bytes fit into the sector,
  appends them to the contents, returns their number, and leaves the handle at the end.
\<close>

theorem write_appends:
  assumes "opened h F x hx ix" "may_append (f_oflag x)" "at_end hx ix" "bs \<noteq> []" "sidx hx + int (length bs) \<le> 40"
  shows "\<exists>hx' ix'. ifreg_write mem h bs F = Inr (int (length bs), put_file h (f_inode x) hx' ix' F) \<and>
    at_end hx' ix' \<and> contents ix' = contents ix @ bs"
  by (rule append_within [OF assms])

definition demo_reg :: "unit reg_fs" where
  "demo_reg = \<lparr>inodes = (\<lambda>_. \<lparr>i_name = [], i_mode = ISA_IFREG, i_mount = None, i_belong = Some 0, i_next = None,
     i_down = Some 0, i_idata = Some new_idata, i_iohandle = None\<rparr>), icntr = 1, ilid = 1, Rnod = Some 0, fs_errno = 0,
     fhandles = [0 \<mapsto> \<lparr>f_id = 0, f_inode = 0, f_oflag = 0x209, f_data = Some start_hdata\<rparr>], fcntr = 1, flid = 1\<rparr>"

lemma create_flags [simp]: "may_append 0x209" "flags_ok 0"
  by (simp_all add: may_append_def flags_ok_def known_flags_def flag_defs)

theorem write_appends_witness:
  "\<exists>hx' ix'. ifreg_write [] 0 [7, 8] demo_reg = Inr (2, put_file 0 0 hx' ix' demo_reg) \<and> at_end hx' ix' \<and> contents ix' = [7, 8]"
proof -
  have "opened 0 demo_reg \<lparr>f_id = 0, f_inode = 0, f_oflag = 0x209, f_data = Some start_hdata\<rparr> start_hdata new_idata"
    by (simp add: opened_def demo_reg_def)
  from write_appends [OF this _ start_at_end, of "[7, 8]" "[]"] show ?thesis
    by (simp add: start_hdata_def contents_def new_idata_def)
qed

text \<open>
  What is written to a new file at once, of any length and over any number of sectors, is
  what a handle that is opened afterwards reads.
\<close>

theorem create_write_read:
  assumes "i_idata (inodes F i) = None" "bs \<noteq> []" "length bs < 2 ^ 31" "False \<notin> set mem" "length bs \<le> 40 * length mem"
  shows "\<exists>h h2 F1 F2 F3 F4. ifreg_open all_mem (FO_CREAT OR FO_APPEND OR O_WRONLY_NL) [Va_mode 0, Va_inode i] F = Inr (fd_of h, F1) \<and>
    ifreg_write mem h bs F1 = Inr (int (length bs), F2) \<and>
    ifreg_open all_mem 0 [Va_inode i] F2 = Inr (fd_of h2, F3) \<and>
    ifreg_read h2 (int (length bs)) F3 = Inr (int (length bs), bs, F4)"
proof -
  have w: "FO_CREAT OR FO_APPEND OR O_WRONLY_NL = 0x209" by (simp add: flag_defs)
  have cr: "(0x209 :: 32 word) AND FO_CREAT \<noteq> 0" by (simp add: flag_defs)
  obtain F1 x where o1: "ifreg_open all_mem 0x209 [Va_mode 0, Va_inode i] F = Inr (fd_of (flid F), F1)"
    "opened (flid F) F1 x start_hdata new_idata" "f_inode x = i" "f_oflag x = 0x209"
    using open_create [OF assms(1) cr] by blast
  have ma: "may_append (f_oflag x)" using o1(4) by simp
  obtain hx' ix' where w1: "ifreg_write mem (flid F) bs F1 = Inr (int (length bs), put_file (flid F) i hx' ix' F1)"
    "file_ok ix'" "take (length bs) (concat (sectors ix')) = bs" "0 \<le> dsize ix'" "length bs \<le> 40 * length (sectors ix')"
    using write_start [OF o1(2) ma assms(2-5)] o1(3) by auto
  let ?F2 = "put_file (flid F) i hx' ix' F1"
  have "i_idata (inodes ?F2 i) = Some ix'" by (simp add: put_file_def set_idata_def upd_inode_def)
  from open_again [OF this, of 0] obtain F3 x2 where o2: "ifreg_open all_mem 0 [Va_inode i] ?F2 = Inr (fd_of (flid ?F2), F3)"
    "opened (flid ?F2) F3 x2 start_hdata ix'" "f_oflag x2 = 0" by auto
  have "\<exists>F4. ifreg_read (flid ?F2) (int (length bs)) F3 = Inr (int (length bs), bs, F4)"
    using read_start [OF o2(2) _ _ w1(2,4,5)] o2(3) assms(3) w1(3) by simp
  then show ?thesis unfolding w using o1(1) w1(1) o2(1) by blast
qed

theorem create_write_read_witness:
  "\<exists>h h2 F1 F2 F3 F4. ifreg_open all_mem (FO_CREAT OR FO_APPEND OR O_WRONLY_NL) [Va_mode 0, Va_inode 1]
      (upd_inode 1 (\<lambda>n. n\<lparr>i_idata := None\<rparr>) demo_reg) = Inr (fd_of h, F1) \<and>
    ifreg_write [True, True, True] h (replicate 100 7) F1 = Inr (100, F2) \<and>
    ifreg_open all_mem 0 [Va_inode 1] F2 = Inr (fd_of h2, F3) \<and>
    ifreg_read h2 100 F3 = Inr (100, replicate 100 7, F4)"
  using create_write_read [of "upd_inode 1 (\<lambda>n. n\<lparr>i_idata := None\<rparr>) demo_reg" 1 "replicate 100 7" "[True, True, True]"]
  by (simp add: upd_inode_def)

text \<open>
  After a write that crosses the end of a sector the pointer of the handle is stale: the next
  byte is not appended but stored over the first byte of the file.
\<close>

theorem crossing_write_overwrites:
  assumes "i_idata (inodes F i) = None" "40 < length bs" "length bs < 2 ^ 31" "False \<notin> set mem" "length bs \<le> 40 * length mem"
  shows "\<exists>h h2 F1 F2 F3 F4 F5. ifreg_open all_mem (FO_CREAT OR FO_APPEND OR O_WRONLY_NL) [Va_mode 0, Va_inode i] F = Inr (fd_of h, F1) \<and>
    ifreg_write mem h bs F1 = Inr (int (length bs), F2) \<and> ifreg_write mem h [b] F2 = Inr (1, F3) \<and>
    ifreg_open all_mem 0 [Va_inode i] F3 = Inr (fd_of h2, F4) \<and>
    ifreg_read h2 (int (length bs)) F4 = Inr (int (length bs), b # tl bs, F5)"
proof -
  have w: "FO_CREAT OR FO_APPEND OR O_WRONLY_NL = 0x209" by (simp add: flag_defs)
  have cr: "(0x209 :: 32 word) AND FO_CREAT \<noteq> 0" by (simp add: flag_defs)
  obtain F1 x where o1: "ifreg_open all_mem 0x209 [Va_mode 0, Va_inode i] F = Inr (fd_of (flid F), F1)"
    "opened (flid F) F1 x start_hdata new_idata" "f_inode x = i" "f_oflag x = 0x209"
    using open_create [OF assms(1) cr] by blast
  have ma: "may_append (f_oflag x)" using o1(4) by simp
  have ne: "bs \<noteq> []" using assms(2) by auto
  obtain hx' ix' where w1: "ifreg_write mem (flid F) bs F1 = Inr (int (length bs), put_file (flid F) i hx' ix' F1)"
    "file_ok ix'" "take (length bs) (concat (sectors ix')) = bs" "0 \<le> dsize ix'" "length bs \<le> 40 * length (sectors ix')"
    "r_ptr hx' = (0, 0)" "sidx hx' = 0" "didx hx' = dsize ix'" "Suc (csector hx') = length (sectors ix')" "dsize ix' = 40 * int (csector hx')"
    using write_start [OF o1(2) ma ne assms(3-5)] o1(3) assms(2) by auto
  let ?F2 = "put_file (flid F) i hx' ix' F1"
  have ok: "sectors_ok (sectors ix')" "0 < length (sectors ix')" "maxsize ix' = dsize ix' + 40"
    using w1(2,9,10) unfolding file_ok_def by auto
  obtain ss where ss: "put_bytes 0 0 [b] (sectors ix') = Inr ss" "sectors_ok ss" "length ss = length (sectors ix')"
    "concat ss = splice 0 [b] (concat (sectors ix'))"
    using put_bytes_row [OF ok(1,2), of 0 "[b]"] by auto
  let ?hx = "hx'\<lparr>r_ptr := (0, 1), didx := didx hx' + 1, sidx := 1\<rparr>" and ?ix = "ix'\<lparr>sectors := ss, dsize := didx hx' + 1\<rparr>"
  have "grow_loop mem (1 + didx hx') (csector hx') ix' = Inr ix'"
    using ok(3) w1(8) by (subst grow_loop.simps) simp
  moreover have "write_data [b] hx' ix' = Inr (?hx, ?ix)"
    using ss(1) w1(6,7) by (simp add: write_data_def fits_sector_iff)
  moreover have "opened (flid F) ?F2 (x\<lparr>f_data := Some hx'\<rparr>) hx' ix'"
    using opened_put_file [OF o1(2)] o1(3) by simp
  ultimately have w2: "ifreg_write mem (flid F) [b] ?F2 = Inr (1, put_file (flid F) i ?hx ?ix ?F2)"
    using write_opened [of "flid F" ?F2 "x\<lparr>f_data := Some hx'\<rparr>" hx' ix' "[b]" mem] ma w1(8) o1(3) by simp
  let ?F3 = "put_file (flid F) i ?hx ?ix ?F2"
  have "i_idata (inodes ?F3 i) = Some ?ix" by (simp add: put_file_def set_idata_def upd_inode_def)
  from open_again [OF this, of 0] obtain F4 x2 where o2: "ifreg_open all_mem 0 [Va_inode i] ?F3 = Inr (fd_of (flid ?F3), F4)"
    "opened (flid ?F3) F4 x2 start_hdata ?ix" "f_oflag x2 = 0" by auto
  have ix: "file_ok ?ix" "0 \<le> dsize ?ix" "length bs \<le> 40 * length (sectors ?ix)"
    using w1(2,4,5,8) ss(2,3) by (auto simp: file_ok_def)
  have "take (length bs) (concat ss) = b # tl bs"
  proof -
    obtain n where n: "length bs = Suc n" using ne by (cases bs) auto
    have "take (length bs) (concat ss) = b # take n (drop 1 (concat (sectors ix')))" by (simp add: ss(4) splice_def n)
    also have "take n (drop 1 (concat (sectors ix'))) = tl bs" using arg_cong [OF w1(3), of tl] n by (simp add: tl_take drop_Suc)
    finally show ?thesis .
  qed
  then have "\<exists>F5. ifreg_read (flid ?F3) (int (length bs)) F4 = Inr (int (length bs), b # tl bs, F5)"
    using read_start [OF o2(2) _ _ ix] o2(3) assms(3) by simp
  then show ?thesis unfolding w using o1(1) w1(1) w2 o2(1) by blast
qed

theorem crossing_write_overwrites_witness:
  "\<exists>h h2 F1 F2 F3 F4 F5. ifreg_open all_mem (FO_CREAT OR FO_APPEND OR O_WRONLY_NL) [Va_mode 0, Va_inode 1]
      (upd_inode 1 (\<lambda>n. n\<lparr>i_idata := None\<rparr>) demo_reg) = Inr (fd_of h, F1) \<and>
    ifreg_write [True, True] h (replicate 50 7) F1 = Inr (50, F2) \<and> ifreg_write [True, True] h [9] F2 = Inr (1, F3) \<and>
    ifreg_open all_mem 0 [Va_inode 1] F3 = Inr (fd_of h2, F4) \<and>
    ifreg_read h2 50 F4 = Inr (50, 9 # tl (replicate 50 7), F5)"
  using crossing_write_overwrites [of "upd_inode 1 (\<lambda>n. n\<lparr>i_idata := None\<rparr>) demo_reg" 1 "replicate 50 7" "[True, True]" 9]
  by (simp add: upd_inode_def)

end
