(* ===== verification/TkFilesysProps.thy ===== *)
theory TkFilesysProps
  imports TkFilesys TkInodeProps TkRegFileProps
begin

text \<open>
  The system calls over the tree of inodes and the regular files: a file that is created, written,
  closed, opened and read; and what opening refuses or falls over.
\<close>

section \<open>What a file operation does to the tree: nothing\<close>

definition same_tree :: "('d, 'a) filesys_scheme \<Rightarrow> ('d, 'a) filesys_scheme \<Rightarrow> bool" where
  "same_tree F F' \<longleftrightarrow> ilid F' = ilid F \<and> Rnod F' = Rnod F \<and>
     (\<forall>i. i_name (inodes F' i) = i_name (inodes F i) \<and> i_mount (inodes F' i) = i_mount (inodes F i) \<and>
        i_belong (inodes F' i) = i_belong (inodes F i) \<and> i_next (inodes F' i) = i_next (inodes F i) \<and>
        i_down (inodes F' i) = i_down (inodes F i) \<and> i_iohandle (inodes F' i) = i_iohandle (inodes F i))"

lemma same_tree_node:
  assumes "same_tree F F'"
  shows "ilid F' = ilid F" "Rnod F' = Rnod F" "i_name (inodes F' i) = i_name (inodes F i)"
    "i_mount (inodes F' i) = i_mount (inodes F i)" "i_belong (inodes F' i) = i_belong (inodes F i)" "i_next (inodes F' i) = i_next (inodes F i)"
    "i_down (inodes F' i) = i_down (inodes F i)" "i_iohandle (inodes F' i) = i_iohandle (inodes F i)"
  using assms by (simp_all add: same_tree_def)

lemma same_tree_trans: "same_tree F F' \<Longrightarrow> same_tree F' F'' \<Longrightarrow> same_tree F F''"
  by (simp add: same_tree_def)

lemma same_tree_sym_ok:
  assumes "same_tree F F'" "tree_ok F"
  shows "tree_ok F'"
proof -
  note n = same_tree_node [OF assms(1)]
  have k: "kids F' p = kids F p" for p by (simp add: kids_def n)
  have "siblings F' xs p = siblings F xs p" for xs p by (rule siblings_cong) (simp add: n)
  then show ?thesis using assms(2) by (simp add: tree_ok_def n k)
qed

lemma same_tree_search:
  assumes "same_tree F F'"
  shows "isearch F' (Rnod F') s = isearch F (Rnod F) s"
proof -
  note n = same_tree_node [OF assms]
  have f: "find_sibling m F' nd q = find_sibling m F nd q" for m nd q
  proof (induction m arbitrary: q)
    case 0
    show ?case by (cases q) simp_all
  next
    case (Suc m)
    then show ?case by (cases q) (simp_all add: n)
  qed
  have "isearch_loop F' ci ts = isearch_loop F ci ts" for ci ts
    by (induction ts arbitrary: ci) (auto simp: n f intro!: andThen_cong split: option.split)
  then show ?thesis by (simp add: isearch_def n)
qed

lemma same_tree_ops [simp]:
  "same_tree F F" "same_tree F (set_hdata h hx G) = same_tree F G" "same_tree F (set_idata i d G) = same_tree F G"
  "same_tree F (put_file h i hx ix G) = same_tree F G" "same_tree F (G\<lparr>fhandles := H\<rparr>) = same_tree F G"
  "same_tree F (G\<lparr>fs_errno := e\<rparr>) = same_tree F G"
  by (auto simp: same_tree_def set_hdata_def set_idata_def upd_inode_def put_file_def)

lemma same_tree_new_handle: "tk_new_handle mem i oflag F = Inr (h, F') \<Longrightarrow> same_tree F F'"
  by (auto simp: tk_new_handle_def same_tree_def result_elims)

lemma same_tree_open: "ifreg_open E oflag args F = Inr (rc, F') \<Longrightarrow> same_tree F F'"
  unfolding ifreg_open_def fail_with_def
  by (auto simp: result_elims split: if_splits dest!: same_tree_new_handle)

lemma same_tree_write: "ifreg_write mem h bs F = Inr (rc, F') \<Longrightarrow> same_tree F F'"
  unfolding ifreg_write_def with_file_def assert_flags_def fail_with_def
  by (auto simp: result_elims split: if_splits)

lemma same_tree_close: "ifreg_close h F = Inr (rc, F') \<Longrightarrow> same_tree F F'"
  by (auto simp: ifreg_close_def result_elims)

section \<open>The calls, on a regular file\<close>

definition all_good :: "'a fs_env \<Rightarrow> bool" where
  "all_good E \<longleftrightarrow> e_node (a_node (f_mem E)) \<and> e_name (a_node (f_mem E)) \<and> e_behind (a_node (f_mem E)) = [] \<and>
     a_open (f_mem E) = all_mem \<and> False \<notin> set (a_write (f_mem E))"

lemma fd_handle_of [simp]: "fd_handle (fd_of h) = h" "\<not> is_std (fd_of h)" "fd_of h \<noteq> -1" "fd_of h \<noteq> 0" "\<not> fd_of h < 3"
  by (simp_all add: fd_of_def fd_handle_def is_std_def)

lemma check_fh_reg:
  assumes "fhandles F h = Some x" "i_iohandle (inodes F (f_inode x)) = Some Fs_ifreg_io" "has (fs_ifreg_io E)"
  shows "check_fh E (fd_of h) F has bad k = k (fs_ifreg_io E)"
  using assms by (simp add: check_fh_def the_handle_def io_table_def)

lemma reg_table [simp]:
  "io_close (fs_ifreg_io E) = Some (\<lambda>file. ifreg_close (fd_handle file))" "io_fcntl (fs_ifreg_io E) = Some stub_fcntl"
  "io_open (fs_ifreg_io E) = Some (\<lambda>filename. ifreg_open (a_open (f_mem E)))" "io_read (fs_ifreg_io E) = Some (\<lambda>file. ifreg_read (fd_handle file))"
  "io_write (fs_ifreg_io E) = Some (\<lambda>file. ifreg_write (a_write (f_mem E)) (fd_handle file))"
  by (simp_all add: fs_ifreg_io_def Let_def)

lemma call_Some [simp]: "call (Some f) k = k f"
  by (simp add: call_def deref_def)

lemma calls_reg:
  assumes "fhandles F h = Some x" "i_iohandle (inodes F (f_inode x)) = Some Fs_ifreg_io"
  shows "fs_write E (fd_of h) bs F = ifreg_write (a_write (f_mem E)) h bs F" "fs_close E (fd_of h) F = ifreg_close h F"
    "fs_read E (fd_of h) n F = ifreg_read h n F"
  by (simp_all add: fs_write_def fs_close_def fs_read_def check_fh_reg [OF assms])

text \<open>Creating a file.\<close>

lemma fs_open_creates:
  assumes "tree_ok F" "unmounted F" "lookup F 0 (tokens pre) = Some p"
    "CHR ''/'' \<notin> set nm" "nm \<noteq> []" "length (pre @ CHR ''/'' # nm) < PATH_MAX" "length nm < NAME_MAX"
    "find (named F nm) (scanned F p) = None" "all_good E"
  shows "\<exists>F' h x. fs_open E (pre @ CHR ''/'' # nm) 0x209 F = Inr (fd_of h, F') \<and> tree_ok F' \<and> unmounted F' \<and>
    opened h F' x start_hdata new_idata \<and> f_oflag x = 0x209 \<and> f_inode x = ilid F \<and>
    i_iohandle (inodes F' (ilid F)) = Some Fs_ifreg_io \<and> i_name (inodes F' (ilid F)) = nm \<and>
    isearch F' (Rnod F') (pre @ CHR ''/'' # nm) = Inr (Some (ilid F))"
proof -
  let ?fn = "pre @ CHR ''/'' # nm" and ?i = "ilid F"
  have E: "e_node (a_node (f_mem E))" "e_name (a_node (f_mem E))" "e_behind (a_node (f_mem E)) = []" "a_open (f_mem E) = all_mem"
    using assms(9) by (simp_all add: all_good_def)
  obtain F1 where F1: "mknod (a_node (f_mem E)) ?fn ISA_IFREG None F = Inr (0, F1)" "unmounted F1"
    "inodes F1 ?i = new_inode nm ISA_IFREG None p ?i" "isearch F1 (Rnod F1) ?fn = Inr (Some ?i)"
    using mknod_adds [OF assms(1-8) E(1-3)] by blast
  have t1: "tree_ok F1" using yieldsD [OF mknod_tree_ok [OF assms(1)] F1(1)] .
  have none: "i_idata (inodes F1 ?i) = None" "i_iohandle (inodes F1 ?i) = Some Fs_ifreg_io" "i_name (inodes F1 ?i) = nm"
    by (simp_all add: F1(3) new_inode_def mode_io_def mode_defs)
  have cr: "(0x209 :: 32 word) AND FO_CREAT \<noteq> 0" "flags_ok 0x209"
    using create_flags(1) by (simp_all add: flag_defs may_append_def)
  obtain F2 x where o: "ifreg_open all_mem 0x209 [Va_mode 0, Va_inode ?i] F1 = Inr (fd_of (flid F1), F2)"
    "opened (flid F1) F2 x start_hdata new_idata" "f_inode x = ?i" "f_oflag x = 0x209"
    using open_create [OF none(1) cr(1)] by blast
  have "fs_open E ?fn 0x209 F = Inr (fd_of (flid F1), F2)"
    using F1(1,4) isearch_file(1) [OF assms(1-6)] assms(8) none o(1) E(4) cr
    by (simp add: fs_open_def assert_flags_ok open_new_def mknod_def deref_def open_node_def io_table_def)
  moreover have "i_iohandle (inodes F2 ?i) = Some Fs_ifreg_io" "i_name (inodes F2 ?i) = nm"
    using same_tree_node [OF same_tree_open [OF o(1)]] none by simp_all
  moreover have "isearch F2 (Rnod F2) ?fn = Inr (Some ?i)"
    using same_tree_search [OF same_tree_open [OF o(1)]] F1(4) by simp
  moreover have "tree_ok F2" by (rule same_tree_sym_ok [OF same_tree_open [OF o(1)] t1])
  moreover have "unmounted F2" using F1(2) same_tree_node [OF same_tree_open [OF o(1)]] by (simp add: unmounted_def)
  ultimately show ?thesis using o(2-4) by blast
qed

text \<open>Opening a file that exists.\<close>

lemma fs_open_existing:
  assumes "isearch F (Rnod F) (pre @ CHR ''/'' # nm) = Inr (Some i)" "i_name (inodes F i) = nm"
    "i_iohandle (inodes F i) = Some Fs_ifreg_io" "i_idata (inodes F i) = Some ix"
    "CHR ''/'' \<notin> set nm" "nm \<noteq> []" "length (pre @ CHR ''/'' # nm) < PATH_MAX" "all_good E"
  shows "\<exists>F' x. fs_open E (pre @ CHR ''/'' # nm) 0 F = Inr (fd_of (flid F), F') \<and> same_tree F F' \<and>
    opened (flid F) F' x start_hdata ix \<and> f_oflag x = 0 \<and> f_inode x = i"
proof -
  obtain F' x where o: "ifreg_open all_mem 0 [Va_inode i] F = Inr (fd_of (flid F), F')"
    "opened (flid F) F' x start_hdata ix" "f_inode x = i" "f_oflag x = 0"
    using open_again [OF assms(4), of 0] by auto
  have "fs_open E (pre @ CHR ''/'' # nm) 0 F = Inr (fd_of (flid F), F')"
    using assms(1-3,8) split_filename(1) [OF assms(5-7)] o(1)
    by (simp add: fs_open_def assert_flags_ok same_name_def open_node_def io_table_def all_good_def)
  then show ?thesis using o same_tree_open [OF o(1)] by blast
qed

lemma fs_round_trip:
  assumes "tree_ok F" "unmounted F" "lookup F 0 (tokens pre) = Some p"
    "CHR ''/'' \<notin> set nm" "nm \<noteq> []" "length (pre @ CHR ''/'' # nm) < PATH_MAX" "length nm < NAME_MAX"
    "find (named F nm) (scanned F p) = None" "all_good E"
    "bs \<noteq> []" "length bs < 2 ^ 31" "length bs \<le> 40 * length (a_write (f_mem E))"
  shows "\<exists>fd fd2 F1 F2 F3 F4 F5. fs_open E (pre @ CHR ''/'' # nm) 0x209 F = Inr (fd, F1) \<and>
    fs_write E fd bs F1 = Inr (int (length bs), F2) \<and> fs_close E fd F2 = Inr (0, F3) \<and>
    fs_open E (pre @ CHR ''/'' # nm) 0 F3 = Inr (fd2, F4) \<and>
    fs_read E fd2 (int (length bs)) F4 = Inr (int (length bs), bs, F5) \<and> tree_ok F4"
proof -
  let ?fn = "pre @ CHR ''/'' # nm" and ?i = "ilid F"
  obtain F1 h x where o1: "fs_open E ?fn 0x209 F = Inr (fd_of h, F1)" "tree_ok F1"
    "opened h F1 x start_hdata new_idata" "f_oflag x = 0x209" "f_inode x = ?i"
    "i_iohandle (inodes F1 ?i) = Some Fs_ifreg_io" "i_name (inodes F1 ?i) = nm" "isearch F1 (Rnod F1) ?fn = Inr (Some ?i)"
    using fs_open_creates [OF assms(1-9)] by blast
  have x: "fhandles F1 h = Some x" using o1(3) by (simp add: opened_def)
  have "False \<notin> set (a_write (f_mem E))" using assms(9) by (simp add: all_good_def)
  from write_start [OF o1(3) _ assms(10,11) this assms(12)] o1(4) obtain hx' ix' where
    w: "ifreg_write (a_write (f_mem E)) h bs F1 = Inr (int (length bs), put_file h (f_inode x) hx' ix' F1)"
      "file_ok ix'" "take (length bs) (concat (sectors ix')) = bs" "0 \<le> dsize ix'" "length bs \<le> 40 * length (sectors ix')"
    by auto
  let ?F2 = "put_file h ?i hx' ix' F1"
  let ?F3 = "?F2\<lparr>fhandles := (fhandles ?F2)(h := None)\<rparr>"
  have s13: "same_tree F1 ?F2" "same_tree F1 ?F3" by simp_all
  have wr: "fs_write E (fd_of h) bs F1 = Inr (int (length bs), ?F2)"
    using calls_reg(1) [OF x] w(1) o1(5,6) by simp
  have x2: "fhandles ?F2 h = Some (x\<lparr>f_data := Some hx'\<rparr>)" using x by (simp add: put_file_def set_idata_def upd_inode_def set_hdata_def)
  have cl: "fs_close E (fd_of h) ?F2 = Inr (0, ?F3)"
    using calls_reg(2) [OF x2] o1(5,6) same_tree_node [OF s13(1)] x2 by (simp add: ifreg_close_def the_handle_def)
  have i3: "i_idata (inodes ?F3 ?i) = Some ix'" by (simp add: put_file_def set_idata_def upd_inode_def)
  have s3: "isearch ?F3 (Rnod ?F3) ?fn = Inr (Some ?i)" "i_name (inodes ?F3 ?i) = nm" "i_iohandle (inodes ?F3 ?i) = Some Fs_ifreg_io"
    using same_tree_search [OF s13(2)] same_tree_node [OF s13(2)] o1(6-8) by simp_all
  from fs_open_existing [OF s3 i3 assms(4-6,9)] obtain F4 x4 where
    o4: "fs_open E ?fn 0 ?F3 = Inr (fd_of (flid ?F3), F4)" "same_tree ?F3 F4" "opened (flid ?F3) F4 x4 start_hdata ix'"
      "f_oflag x4 = 0" "f_inode x4 = ?i" by blast
  have "i_iohandle (inodes F4 ?i) = Some Fs_ifreg_io" using same_tree_node [OF o4(2)] s3(3) by simp
  then have "fs_read E (fd_of (flid ?F3)) (int (length bs)) F4 = ifreg_read (flid ?F3) (int (length bs)) F4"
    using calls_reg(3) [of F4 "flid ?F3" x4] o4(3,5) by (simp add: opened_def)
  moreover obtain F5 where "ifreg_read (flid ?F3) (int (length bs)) F4 = Inr (int (length bs), bs, F5)"
    using read_start [OF o4(3) _ _ w(2,4,5) assms(11)] o4(4) w(3) by auto
  moreover have "tree_ok F4" using same_tree_sym_ok [OF same_tree_trans [OF s13(2) o4(2)] o1(2)] .
  ultimately show ?thesis using o1(1) wr cl o4(1) by metis
qed

text \<open>
  C28. A file that is created by the system call, written at once and closed, can be opened by its
  name again, and reading gives the bytes that were written; the tree stays well-formed.
\<close>

theorem fs_file_round_trip:
  assumes "tree_ok F" "unmounted F" "lookup F 0 (tokens pre) = Some p"
    "CHR ''/'' \<notin> set nm" "nm \<noteq> []" "length (pre @ CHR ''/'' # nm) < PATH_MAX" "length nm < NAME_MAX"
    "find (named F nm) (scanned F p) = None" "all_good E"
    "bs \<noteq> []" "length bs < 2 ^ 31" "length bs \<le> 40 * length (a_write (f_mem E))"
  shows "\<exists>fd fd2 F1 F2 F3 F4 F5. fs_open E (pre @ CHR ''/'' # nm) (FO_CREAT OR FO_APPEND OR O_WRONLY_NL) F = Inr (fd, F1) \<and>
    fs_write E fd bs F1 = Inr (int (length bs), F2) \<and> fs_close E fd F2 = Inr (0, F3) \<and>
    fs_open E (pre @ CHR ''/'' # nm) 0 F3 = Inr (fd2, F4) \<and>
    fs_read E fd2 (int (length bs)) F4 = Inr (int (length bs), bs, F5) \<and> tree_ok F4"
proof -
  have "FO_CREAT OR FO_APPEND OR O_WRONLY_NL = 0x209" by (simp add: flag_defs)
  then show ?thesis using fs_round_trip [OF assms] by simp
qed

definition demo_env :: "unit fs_env" where
  "demo_env = \<lparr>f_mem = \<lparr>a_node = \<lparr>e_node = True, e_name = True, e_behind = []\<rparr>, a_open = all_mem, a_write = [True, True], a_seek = True\<rparr>,
     f_dev = (\<lambda>_. stub_table), std_read = (\<lambda>n F. Inr (0, [], F)), std_write = (\<lambda>fd bs F. Inr (0, F))\<rparr>"

definition demo_root :: "unit reg_fs" where
  "demo_root = \<lparr>inodes = (\<lambda>_. \<lparr>i_name = [], i_mode = ISA_IFDIR, i_mount = None, i_belong = Some 0, i_next = None,
     i_down = Some 0, i_idata = None, i_iohandle = None\<rparr>), icntr = 1, ilid = 1, Rnod = Some 0, fs_errno = 0,
     fhandles = Map.empty, fcntr = 0, flid = 0\<rparr>"

lemma demo_root_facts [simp]: "unmounted demo_root" "tree_ok demo_root" "scanned demo_root 0 = [0]" "i_name (inodes demo_root i) = []" "all_good demo_env"
  by (simp_all add: demo_root_def unmounted_def tree_ok_def kids_def scanned_def all_good_def demo_env_def)

theorem fs_file_round_trip_witness:
  "\<exists>fd fd2 F1 F2 F3 F4 F5. fs_open demo_env ''/note'' (FO_CREAT OR FO_APPEND OR O_WRONLY_NL) demo_root = Inr (fd, F1) \<and>
    fs_write demo_env fd (replicate 60 5) F1 = Inr (60, F2) \<and> fs_close demo_env fd F2 = Inr (0, F3) \<and>
    fs_open demo_env ''/note'' 0 F3 = Inr (fd2, F4) \<and> fs_read demo_env fd2 60 F4 = Inr (60, replicate 60 5, F5)"
proof -
  have "length (a_write (f_mem demo_env)) = 2" by (simp add: demo_env_def)
  then show ?thesis
    using fs_file_round_trip [of demo_root "[]" 0 "''note''" demo_env "replicate 60 5"]
    by (simp add: PATH_MAX_def NAME_MAX_def same_name_def) blast
qed

section \<open>What opening refuses\<close>

text \<open>What the search finds, and the name it compares, decide; a mounted directory is found itself.\<close>

definition exclusive :: "32 word \<Rightarrow> bool" where
  "exclusive oflag \<longleftrightarrow> oflag AND (FO_CREAT OR FO_EXCL) \<noteq> 0"

lemma bad_flags_assert: "\<not> flags_ok oflag \<Longrightarrow> assert_flags oflag m = Inl Assert_failed"
  by (auto simp: assert_flags_def flags_ok_def flags_exact c_assert_def)

lemma fs_open_found:
  assumes "flags_ok oflag" "isearch F (Rnod F) fn = Inr (Some i)" "igetname fn = Inr nm"
    "same_name (i_name (inodes F i)) nm \<or> i_mount (inodes F i) \<noteq> None"
  shows "fs_open E fn oflag F =
    (if same_name (i_name (inodes F i)) nm \<and> exclusive oflag then Inr (-1, F\<lparr>fs_errno := E_EXIST\<rparr>)
     else open_node E fn oflag [Va_inode i] i F)"
  using assms by (auto simp: fs_open_def assert_flags_ok fail_with_def exclusive_def)

lemma fs_open_missing:
  assumes "flags_ok oflag" "isearch F (Rnod F) fn = Inr None"
  shows "oflag AND FO_CREAT = 0 \<Longrightarrow> fs_open E fn oflag F = Inr (-1, F\<lparr>fs_errno := E_NOENT\<rparr>)"
    and "oflag AND FO_CREAT \<noteq> 0 \<Longrightarrow> imknod (a_node (f_mem E)) (Rnod F) fn ISA_IFREG None F = Inl e \<Longrightarrow> fs_open E fn oflag F = Inl e"
    and "oflag AND FO_CREAT \<noteq> 0 \<Longrightarrow> imknod (a_node (f_mem E)) (Rnod F) fn ISA_IFREG None F = Inr (-1, F1) \<Longrightarrow>
      fs_open E fn oflag F = Inr (-1, F1)"
  using assms by (simp_all add: fs_open_def assert_flags_ok open_new_def fail_with_def)

text \<open>The directory's own \<^verbatim>\<open>open\<close> asserts, and so does the check that it has one.\<close>

lemma open_directory:
  assumes "i_iohandle (inodes F i) \<in> {None, Some Fs_ifdir_io}"
  shows "open_node E fn oflag args i F = Inl Assert_failed"
  using assms by (auto simp: open_node_def io_table_def fs_ifdir_io_def stub_table_def stub_open_def not_implemented_def)

text \<open>
  C29. What \<^verbatim>\<open>fs_open\<close> refuses, whatever the flags, for a name \<open>nm\<close> in an existing
  directory of a tree in which nothing is mounted: flags that are not legal are a failed
  assertion. A file that does not exist is \<^verbatim>\<open>ENOENT\<close> without \<^verbatim>\<open>O_CREAT\<close> (also
  with \<^verbatim>\<open>O_EXCL\<close>); with it, making the node is refused with \<^verbatim>\<open>ENAMETOOLONG\<close> if
  the name is too long, and is a failed assertion without memory. A file that exists is
  \<^verbatim>\<open>EEXIST\<close> with \<^verbatim>\<open>O_CREAT\<close> or with \<^verbatim>\<open>O_EXCL\<close>, even without
  \<^verbatim>\<open>O_CREAT\<close>; without both, a regular file that was made by \<^verbatim>\<open>mknod\<close> and never
  opened has no data, so a null pointer is used, and a directory is a failed assertion. None of the
  refusals changes anything but \<^verbatim>\<open>errno\<close>. And below a directory on which something is
  mounted every name is refused: \<^verbatim>\<open>EEXIST\<close> if it is the name of the directory itself and
  the flags ask for a new file, otherwise a failed assertion, because the directory's own
  \<^verbatim>\<open>open\<close> is called and not the one of the device.
\<close>

theorem fs_open_refuses:
  assumes "tree_ok F" "unmounted F" "lookup F 0 (tokens pre) = Some p"
    "CHR ''/'' \<notin> set nm" "nm \<noteq> []" "length (pre @ CHR ''/'' # nm) < PATH_MAX"
  shows "(\<not> flags_ok oflag \<longrightarrow> fs_open E (pre @ CHR ''/'' # nm) oflag F = Inl Assert_failed) \<and>
    (flags_ok oflag \<longrightarrow>
      (find (named F nm) (scanned F p) = None \<longrightarrow>
        (oflag AND FO_CREAT = 0 \<longrightarrow> fs_open E (pre @ CHR ''/'' # nm) oflag F = Inr (-1, F\<lparr>fs_errno := E_NOENT\<rparr>)) \<and>
        (oflag AND FO_CREAT \<noteq> 0 \<and> NAME_MAX \<le> length nm \<longrightarrow>
          fs_open E (pre @ CHR ''/'' # nm) oflag F = Inr (-1, F\<lparr>fs_errno := E_NAMETOOLONG\<rparr>)) \<and>
        (oflag AND FO_CREAT \<noteq> 0 \<and> length nm < NAME_MAX \<and> \<not> e_node (a_node (f_mem E)) \<longrightarrow>
          fs_open E (pre @ CHR ''/'' # nm) oflag F = Inl Assert_failed)) \<and>
      (child F (p, nm) = Some i \<longrightarrow>
        (exclusive oflag \<longrightarrow> fs_open E (pre @ CHR ''/'' # nm) oflag F = Inr (-1, F\<lparr>fs_errno := E_EXIST\<rparr>)) \<and>
        (\<not> exclusive oflag \<and> i_iohandle (inodes F i) = Some Fs_ifreg_io \<and> i_idata (inodes F i) = None \<and> a_open (f_mem E) = all_mem \<longrightarrow>
          fs_open E (pre @ CHR ''/'' # nm) oflag F = Inl Null_deref) \<and>
        (\<not> exclusive oflag \<and> i_iohandle (inodes F i) = Some Fs_ifdir_io \<longrightarrow>
          fs_open E (pre @ CHR ''/'' # nm) oflag F = Inl Assert_failed)) \<and>
      (i_iohandle (inodes F p) \<in> {None, Some Fs_ifdir_io} \<longrightarrow>
        fs_open E (pre @ CHR ''/'' # nm) oflag (upd_inode p (\<lambda>n. n\<lparr>i_mount := Some dev\<rparr>) F) =
          (if same_name (i_name (inodes F p)) nm \<and> exclusive oflag
           then Inr (-1, (upd_inode p (\<lambda>n. n\<lparr>i_mount := Some dev\<rparr>) F)\<lparr>fs_errno := E_EXIST\<rparr>) else Inl Assert_failed)))"
proof (intro conjI impI)
  let ?fn = "pre @ CHR ''/'' # nm"
  show "fs_open E ?fn oflag F = Inl Assert_failed" if "\<not> flags_ok oflag"
    using that by (simp add: fs_open_def bad_flags_assert)
  assume fl: "flags_ok oflag"
  note n = split_filename(1,2) [OF assms(4-6)]
  note s = isearch_file [OF assms]
  note missing = fs_open_missing [OF fl, of F ?fn]
  show "fs_open E ?fn oflag F = Inr (-1, F\<lparr>fs_errno := E_NOENT\<rparr>)"
    if "find (named F nm) (scanned F p) = None" "oflag AND FO_CREAT = 0"
    using missing(1) s that by simp
  show "fs_open E ?fn oflag F = Inr (-1, F\<lparr>fs_errno := E_NAMETOOLONG\<rparr>)"
    if "find (named F nm) (scanned F p) = None" "oflag AND FO_CREAT \<noteq> 0 \<and> NAME_MAX \<le> length nm"
    using missing(3) s that n assms(6) by (simp add: imknod_def fail_with_def)
  show "fs_open E ?fn oflag F = Inl Assert_failed"
    if "find (named F nm) (scanned F p) = None" "oflag AND FO_CREAT \<noteq> 0 \<and> length nm < NAME_MAX \<and> \<not> e_node (a_node (f_mem E))"
    using missing(2) s that n assms(6) by (simp add: imknod_def add_inode_def)
  show "fs_open E ?fn oflag (upd_inode p (\<lambda>n. n\<lparr>i_mount := Some dev\<rparr>) F) =
      (if same_name (i_name (inodes F p)) nm \<and> exclusive oflag
       then Inr (-1, (upd_inode p (\<lambda>n. n\<lparr>i_mount := Some dev\<rparr>) F)\<lparr>fs_errno := E_EXIST\<rparr>) else Inl Assert_failed)"
    if "i_iohandle (inodes F p) \<in> {None, Some Fs_ifdir_io}"
  proof -
    let ?F = "upd_inode p (\<lambda>n. n\<lparr>i_mount := Some dev\<rparr>) F"
    have f: "isearch ?F (Rnod ?F) ?fn = Inr (Some p)" using mounted_search(1) [OF assms(1-3,6), of dev] by (simp add: upd_inode_def)
    have "i_iohandle (inodes ?F p) \<in> {None, Some Fs_ifdir_io}" using that by (simp add: upd_inode_def)
    then show ?thesis
      using fs_open_found [OF fl f n(1), of E] open_directory [of ?F p] by (simp add: upd_inode_def)
  qed
  assume c: "child F (p, nm) = Some i"
  have f: "isearch F (Rnod F) ?fn = Inr (Some i)" using s c child_scanned [OF c] by (simp add: child_def)
  have nm: "same_name (i_name (inodes F i)) nm" using child_below [OF assms(1) c] by simp
  note found = fs_open_found [OF fl f n(1), of E]
  show "fs_open E ?fn oflag F = Inr (-1, F\<lparr>fs_errno := E_EXIST\<rparr>)" if "exclusive oflag"
    using found nm that by simp
  show "fs_open E ?fn oflag F = Inl Null_deref"
    if "\<not> exclusive oflag \<and> i_iohandle (inodes F i) = Some Fs_ifreg_io \<and> i_idata (inodes F i) = None \<and> a_open (f_mem E) = all_mem"
    using found nm that
    by (auto simp: open_node_def io_table_def ifreg_open_def tk_new_handle_def all_mem_def deref_def exclusive_def
        bit.conj_disj_distrib or_eq_0_iff)
  show "fs_open E ?fn oflag F = Inl Assert_failed" if "\<not> exclusive oflag \<and> i_iohandle (inodes F i) = Some Fs_ifdir_io"
    using found nm that open_directory [of F i E] by simp
qed

text \<open>One name that is missing, then made by \<^verbatim>\<open>mknod\<close>, and the root mounted on.\<close>

theorem fs_open_refuses_witness:
  "\<exists>F. mknod (a_node (f_mem demo_env)) ''/note'' ISA_IFREG None demo_root = Inr (0, F) \<and>
    fs_open demo_env ''/note'' 0 demo_root = Inr (-1, demo_root\<lparr>fs_errno := E_NOENT\<rparr>) \<and>
    fs_open demo_env ''/note'' FO_EXCL demo_root = Inr (-1, demo_root\<lparr>fs_errno := E_NOENT\<rparr>) \<and>
    fs_open demo_env (CHR ''/'' # replicate 300 CHR ''x'') 0x209 demo_root = Inr (-1, demo_root\<lparr>fs_errno := E_NAMETOOLONG\<rparr>) \<and>
    fs_open demo_env ''/note'' 3 demo_root = Inl Assert_failed \<and>
    fs_open demo_env ''/note'' 0x209 F = Inr (-1, F\<lparr>fs_errno := E_EXIST\<rparr>) \<and>
    fs_open demo_env ''/note'' FO_EXCL F = Inr (-1, F\<lparr>fs_errno := E_EXIST\<rparr>) \<and>
    fs_open demo_env ''/note'' 0 F = Inl Null_deref \<and>
    fs_open demo_env ''/note'' 0 (upd_inode 0 (\<lambda>n. n\<lparr>i_mount := Some \<lparr>io_device = None, m_options = 0\<rparr>\<rparr>) demo_root) = Inl Assert_failed"
proof -
  let ?E = "a_node (f_mem demo_env)" and ?x = "replicate 300 CHR ''x''"
  have e: "e_node ?E" "e_name ?E" "e_behind ?E = []" "a_open (f_mem demo_env) = all_mem" by (simp_all add: demo_env_def)
  have r: "lookup demo_root 0 (tokens []) = Some 0" "i_iohandle (inodes demo_root 0) = None" "ilid demo_root = 1" "child demo_root = Map.empty"
    by (auto simp: child_def kids_def demo_root_def)
  have nm: "CHR ''/'' \<notin> set ''note''" "''note'' \<noteq> []" "length ([] @ CHR ''/'' # ''note'') < PATH_MAX" "length ''note'' < NAME_MAX"
    "CHR ''/'' \<notin> set ?x" "?x \<noteq> []" "length ([] @ CHR ''/'' # ?x) < PATH_MAX" "NAME_MAX \<le> length ?x"
    by (simp_all add: PATH_MAX_def NAME_MAX_def)
  have fr: "find (named demo_root ''note'') (scanned demo_root 0) = None" "find (named demo_root ?x) (scanned demo_root 0) = None"
    by (simp_all add: same_name_def NAME_MAX_def)
  have fl: "flags_ok 0" "flags_ok FO_EXCL" "flags_ok 0x209" "\<not> flags_ok 3" "FO_EXCL AND FO_CREAT = 0" "(0x209 :: 32 word) AND FO_CREAT \<noteq> 0"
    "exclusive FO_EXCL" "exclusive 0x209" "\<not> exclusive 0"
    by (simp_all add: flags_ok_def known_flags_def exclusive_def flag_defs)
  obtain F where F: "mknod ?E ''/note'' ISA_IFREG None demo_root = Inr (0, F)" "unmounted F" "tree_ok F"
    "child F (0, ''note'') = Some 1" "inodes F 1 = new_inode ''note'' ISA_IFREG None 0 1" "lookup F 0 (tokens []) = Some 0"
    using mknod_adds [OF demo_root_facts(2,1) r(1) nm(1-4) fr(1) e(1-3), of ISA_IFREG None] by (auto simp: r(3,4))
  have i: "i_iohandle (inodes F 1) = Some Fs_ifreg_io" "i_idata (inodes F 1) = None"
    unfolding F(5) by (simp_all add: new_inode_def mode_io_def mode_defs)
  note a = fs_open_refuses [OF demo_root_facts(2,1) r(1) nm(1-3), of _ demo_env]
    and b = fs_open_refuses [OF demo_root_facts(2,1) r(1) nm(5-7), of _ demo_env]
    and c = fs_open_refuses [OF F(3,2,6) nm(1-3), of _ demo_env 1]
  have m: "fs_open demo_env ''/note'' 0 demo_root = Inr (-1, demo_root\<lparr>fs_errno := E_NOENT\<rparr>)"
    "fs_open demo_env ''/note'' FO_EXCL demo_root = Inr (-1, demo_root\<lparr>fs_errno := E_NOENT\<rparr>)"
    using a [of 0] a [of FO_EXCL] fr(1) fl by simp_all
  have l: "fs_open demo_env (CHR ''/'' # ?x) 0x209 demo_root = Inr (-1, demo_root\<lparr>fs_errno := E_NAMETOOLONG\<rparr>)"
    using b [of "0x209"] fr(2) fl(3,6) nm(8) unfolding append_Nil by blast
  have t: "fs_open demo_env ''/note'' 3 demo_root = Inl Assert_failed" using a [of 3] fl(4) by simp
  have x: "fs_open demo_env ''/note'' 0x209 F = Inr (-1, F\<lparr>fs_errno := E_EXIST\<rparr>)"
    "fs_open demo_env ''/note'' FO_EXCL F = Inr (-1, F\<lparr>fs_errno := E_EXIST\<rparr>)"
    "fs_open demo_env ''/note'' 0 F = Inl Null_deref"
    subgoal using c [of "0x209"] fl(3,8) F(4) by simp
    subgoal using c [of FO_EXCL] fl(2,7) F(4) by simp
    subgoal using c [of 0] fl(1,9) e(4) i F(4) by simp
    done
  have "fs_open demo_env ''/note'' 0 (upd_inode 0 (\<lambda>n. n\<lparr>i_mount := Some \<lparr>io_device = None, m_options = 0\<rparr>\<rparr>) demo_root) = Inl Assert_failed"
    using a [of 0] fl(1,9) r(2) by simp
  with F(1) m l t x show ?thesis by blast
qed

end
