(* ===== verification/TkBootProps.thy ===== *)
theory TkBootProps
  imports TkFilesysProps
begin

text \<open>
  The tree that the start of the file system makes, worked out on a picture of the tree: the list
  of the names of the nodes and the list of their parents.
\<close>

section \<open>A picture of the tree\<close>

definition shape :: "string list \<Rightarrow> nat list \<Rightarrow> ('d, 'a) filesys_scheme \<Rightarrow> bool" where
  "shape ns ps F \<longleftrightarrow> tree_ok F \<and> unmounted F \<and> ilid F = length ns \<and> length ps = length ns \<and>
     (\<forall>i<length ns. i_name (inodes F i) = ns ! i \<and> i_belong (inodes F i) = Some (ps ! i))"

definition kids_in :: "nat list \<Rightarrow> nat \<Rightarrow> nat list" where
  "kids_in ps c = filter (\<lambda>i. ps ! i = c) [1..<length ps]"

definition scanned_in :: "nat list \<Rightarrow> nat \<Rightarrow> nat list" where
  "scanned_in ps c = (if kids_in ps c \<noteq> [] then kids_in ps c
     else if c = 0 then [0] else dropWhile (\<lambda>i. i \<noteq> c) (kids_in ps (ps ! c)))"

fun lookup_in :: "string list \<Rightarrow> nat list \<Rightarrow> nat \<Rightarrow> string list \<Rightarrow> nat option" where
  "lookup_in ns ps c [] = Some c"
| "lookup_in ns ps c (nd # nds) = (case find (\<lambda>i. same_name (ns ! i) nd) (kids_in ps c) of
       None \<Rightarrow> None | Some k \<Rightarrow> lookup_in ns ps k nds)"

lemma shape_kids: "shape ns ps F \<Longrightarrow> kids F c = kids_in ps c"
  by (auto simp: shape_def kids_def kids_in_def intro!: filter_cong)

lemma shape_scanned: "shape ns ps F \<Longrightarrow> c < length ns \<Longrightarrow> scanned F c = scanned_in ps c"
  using shape_kids [of ns ps F] by (simp add: scanned_def scanned_in_def shape_def)

lemma kids_in_below: "i \<in> set (kids_in ps c) \<Longrightarrow> i < length ps"
  by (auto simp: kids_in_def)

lemma shape_find: "shape ns ps F \<Longrightarrow> \<forall>i\<in>set xs. i < length ns \<Longrightarrow> find (named F nd) xs = find (\<lambda>i. same_name (ns ! i) nd) xs"
  by (rule find_cong) (auto simp: shape_def)

lemma shape_lookup: "shape ns ps F \<Longrightarrow> lookup F c ts = lookup_in ns ps c ts"
proof (induction ts arbitrary: c)
  case (Cons nd ts)
  have "child F (c, nd) = find (\<lambda>i. same_name (ns ! i) nd) (kids_in ps c)"
    using Cons.prems shape_kids [OF Cons.prems, of c] kids_in_below [of _ ps c]
    by (auto simp: child_def shape_def intro!: shape_find [OF Cons.prems])
  then show ?case using Cons by (auto split: option.split)
qed simp

text \<open>Making one node, on the picture.\<close>

definition fits_in :: "string list \<Rightarrow> nat list \<Rightarrow> string \<Rightarrow> nat \<Rightarrow> string \<Rightarrow> bool" where
  "fits_in ns ps pre p nm \<longleftrightarrow> lookup_in ns ps 0 (tokens pre) = Some p \<and> p < length ns \<and>
     (\<forall>i\<in>set (scanned_in ps p). i < length ns) \<and> find (\<lambda>i. same_name (ns ! i) nm) (scanned_in ps p) = None \<and>
     CHR ''/'' \<notin> set nm \<and> nm \<noteq> [] \<and> length (pre @ CHR ''/'' # nm) < PATH_MAX \<and> length nm < NAME_MAX"

definition good_mem :: "node_env \<Rightarrow> bool" where
  "good_mem M \<longleftrightarrow> e_node M \<and> e_name M \<and> e_behind M = []"

lemma make_node_shape:
  assumes "shape ns ps F" "fits_in ns ps pre p nm" "good_mem M"
  shows "\<exists>F'. make_node M (pre @ CHR ''/'' # nm, mode) F = Inr F' \<and> shape (ns @ [nm]) (ps @ [p]) F'"
proof -
  have F: "tree_ok F" "unmounted F" "ilid F = length ns" using assms(1) by (simp_all add: shape_def)
  have l: "lookup F 0 (tokens pre) = Some p" using assms(2) by (simp add: shape_lookup [OF assms(1)] fits_in_def)
  have fr: "find (named F nm) (scanned F p) = None"
    using assms(2) shape_find [OF assms(1), of "scanned_in ps p" nm] by (simp add: shape_scanned [OF assms(1)] fits_in_def)
  obtain F' where "mknod M (pre @ CHR ''/'' # nm) mode None F = Inr (0, F')" "unmounted F'" "tree_ok F'"
    "grown F p (new_inode nm mode None p (ilid F)) F'"
    using mknod_adds [OF F(1,2) l _ _ _ _ fr, of M mode None] assms(2,3) by (auto simp: fits_in_def good_mem_def)
  moreover from this have "shape (ns @ [nm]) (ps @ [p]) F'"
    using assms(1) by (auto simp: shape_def grown_def nth_append less_Suc_eq new_inode_def)
  ultimately show ?thesis by (auto simp: make_node_def)
qed

lemma shape_isearch:
  assumes "shape ns ps F" "lookup_in ns ps 0 (tokens s) = Some i" "length s < PATH_MAX"
  shows "isearch F (Rnod F) s = Inr (Some i)"
proof -
  have t: "tree_ok F" "unmounted F" using assms(1) by (simp_all add: shape_def)
  then have r: "Rnod F = Some 0" "0 < ilid F" by (simp_all add: tree_ok_def)
  have l: "lookup F 0 (tokens s) = Some i" using assms(2) by (simp add: shape_lookup [OF assms(1)])
  have "\<forall>j<i. i_mount (inodes F j) = None" using t(2) lookup_below [OF t(1) r(2) l] by (simp add: unmounted_def)
  then show ?thesis using isearch_loop_lookup [OF t(1) _ r(2) l] assms(3) r(1) by (simp add: isearch_def)
qed

section \<open>The start\<close>

definition boot_names :: "string list" where
  "boot_names = [[], ''dev'', ''tmp'', ''.ambrmi09'', ''afile'', ''bfile'', ''cfile'']"

definition boot_parents :: "nat list" where
  "boot_parents = [0, 0, 0, 2, 2, 2, 3]"

lemma boot_fits:
  "fits_in (take 1 boot_names) (take 1 boot_parents) [] 0 ''dev''" "fits_in (take 2 boot_names) (take 2 boot_parents) [] 0 ''tmp''"
  "fits_in (take 3 boot_names) (take 3 boot_parents) ''/tmp'' 2 ''.ambrmi09''"
  "fits_in (take 4 boot_names) (take 4 boot_parents) ''/tmp'' 2 ''afile''"
  "fits_in (take 5 boot_names) (take 5 boot_parents) ''/tmp'' 2 ''bfile''"
  "fits_in (take 6 boot_names) (take 6 boot_parents) ''/tmp/.ambrmi09'' 3 ''cfile''"
  by code_simp+

lemma boot_found:
  "lookup_in boot_names boot_parents 0 (tokens ''/dev'') = Some 1" "lookup_in boot_names boot_parents 0 (tokens ''/tmp'') = Some 2"
  "lookup_in boot_names boot_parents 0 (tokens ''/tmp/.ambrmi09'') = Some 3" "lookup_in boot_names boot_parents 0 (tokens ''/tmp/afile'') = Some 4"
  "lookup_in boot_names boot_parents 0 (tokens ''/tmp/bfile'') = Some 5" "lookup_in boot_names boot_parents 0 (tokens ''/tmp/.ambrmi09/cfile'') = Some 6"
  by code_simp+

lemma boot_root:
  assumes "ilid F = 0"
  shows "\<exists>F1. make_root True True F = Inr F1 \<and> shape (take 1 boot_names) (take 1 boot_parents) F1"
proof -
  obtain F1 where F1: "make_root True True F = Inr F1" by (simp add: make_root_def Let_def)
  have "tree_ok F1" by (rule make_root_tree_ok [OF assms F1])
  then show ?thesis using F1 assms by (auto simp: make_root_def Let_def shape_def unmounted_def boot_names_def boot_parents_def)
qed

text \<open>The node that is made when there are \<open>k\<close> nodes.\<close>

lemma boot_node:
  assumes "shape (take k boot_names) (take k boot_parents) F" "k \<in> {1, 2, 3, 4, 5, 6}" "good_mem M"
  shows "\<exists>F'. make_node M (boot_nodes ! (k - 1)) F = Inr F' \<and> shape (take (Suc k) boot_names) (take (Suc k) boot_parents) F'"
proof -
  have "\<exists>pre p nm mode. fits_in (take k boot_names) (take k boot_parents) pre p nm \<and> boot_nodes ! (k - 1) = (pre @ CHR ''/'' # nm, mode) \<and>
      take (Suc k) boot_names = take k boot_names @ [nm] \<and> take (Suc k) boot_parents = take k boot_parents @ [p]"
    using assms(2) boot_fits by (auto simp: boot_nodes_def boot_names_def boot_parents_def)
  then show ?thesis using make_node_shape [OF assms(1) _ assms(3)] by metis
qed

lemma boot_rest:
  assumes "good_mem M"
  shows "j \<le> 6 \<Longrightarrow> shape (take (7 - j) boot_names) (take (7 - j) boot_parents) F \<Longrightarrow>
    \<exists>F'. foldR (make_node M) (drop (6 - j) boot_nodes) F = Inr F' \<and> shape boot_names boot_parents F'"
proof (induction j arbitrary: F)
  case 0
  then show ?case by (simp add: boot_nodes_def boot_names_def boot_parents_def)
next
  case (Suc j)
  have "7 - Suc j \<in> {1, 2, 3, 4, 5, 6}" using Suc.prems(1) by auto
  note n = boot_node [OF Suc.prems(2) this assms]
  have e: "Suc (7 - Suc j) = 7 - j" "7 - Suc j - 1 = 6 - Suc j" using Suc.prems(1) by simp_all
  obtain F1 where F1: "make_node M (boot_nodes ! (6 - Suc j)) F = Inr F1" "shape (take (7 - j) boot_names) (take (7 - j) boot_parents) F1"
    using n unfolding e by blast
  have "6 - Suc j < length boot_nodes" "Suc (6 - Suc j) = 6 - j" using Suc.prems(1) by (simp_all add: boot_nodes_def)
  then have "drop (6 - Suc j) boot_nodes = boot_nodes ! (6 - Suc j) # drop (6 - j) boot_nodes"
    by (metis Cons_nth_drop_Suc)
  then show ?case using F1 Suc.IH [OF _ F1(2)] Suc.prems(1) by simp
qed

lemma boot_tree:
  assumes "ilid F = 0" "good_mem M"
  shows "\<exists>F1 F2. make_root True True F = Inr F1 \<and> foldR (make_node M) boot_nodes F1 = Inr F2 \<and> shape boot_names boot_parents F2"
  using boot_root [OF assms(1)] boot_rest [OF assms(2), of 6] by fastforce

text \<open>
  With memory for the nodes, and without drivers, the start of the file system succeeds: the
  nodes of the start are found under their names, the system calls of the file system are in
  force, and stopping puts those of the library back.
\<close>

theorem fs_boot_and_stop:
  assumes "ilid (fsys S) = 0" "good_mem M"
  shows "\<exists>F. fs_init True True M [] S = Inr (0, \<lparr>fsys = F, hixs = Fs_calls, old_syscalls = hixs S, fs_alive = True\<rparr>) \<and>
    map (\<lambda>(nm, m). isearch F (Rnod F) nm) boot_nodes = map (\<lambda>i. Inr (Some i)) [1, 2, 3, 4, 5, 6] \<and> tree_ok F \<and>
    fs_fini [] \<lparr>fsys = F, hixs = Fs_calls, old_syscalls = hixs S, fs_alive = True\<rparr> =
      Inr (0, \<lparr>fsys = F, hixs = hixs S, old_syscalls = hixs S, fs_alive = False\<rparr>)"
proof -
  obtain F1 F2 where F: "make_root True True (fsys S) = Inr F1" "foldR (make_node M) boot_nodes F1 = Inr F2" "shape boot_names boot_parents F2"
    using boot_tree [OF assms] by blast
  have "map (\<lambda>(nm, m). isearch F2 (Rnod F2) nm) boot_nodes = map (\<lambda>i. Inr (Some i)) [1, 2, 3, 4, 5, 6]"
    using boot_found [THEN shape_isearch [OF F(3)]] by (simp add: boot_nodes_def PATH_MAX_def)
  then show ?thesis using F by (auto simp: fs_init_def fs_fini_def shape_def)
qed

theorem fs_boot_and_stop_witness:
  "\<exists>F. fs_init True True (a_node (f_mem demo_env)) [] \<lparr>fsys = demo_root\<lparr>ilid := 0\<rparr>, hixs = Library_calls,
      old_syscalls = Library_calls, fs_alive = False\<rparr> =
    Inr (0, \<lparr>fsys = F, hixs = Fs_calls, old_syscalls = Library_calls, fs_alive = True\<rparr>)"
  using fs_boot_and_stop [of "\<lparr>fsys = demo_root\<lparr>ilid := 0\<rparr>, hixs = Library_calls, old_syscalls = Library_calls, fs_alive = False\<rparr>"
      "a_node (f_mem demo_env)"]
  by (auto simp: good_mem_def demo_env_def)

end
