(* ===== verification/TkStalloc.thy ===== *)
theory TkStalloc
  imports TkPrelude
begin

text \<open>
  The allocator of thread stacks of the XC167 port: \<^verbatim>\<open>bsp/XC167_Keil/stalloc.c\<close>,
  \<^verbatim>\<open>stalloc_free.c\<close> and \<^verbatim>\<open>stalloc_init_mem.c\<close>. An \<^verbatim>\<open>unsigned int\<close> has 16
  bits there, and a huge pointer is a linear address, zero for null. The memory is kept per field of
  the headers: a field that was not written yet has no value. What the user writes into his blocks
  is not part of the state.
\<close>

record stpool =
  stmp :: nat
  s_next :: "nat \<Rightarrow> nat option"
  s_len :: "nat \<Rightarrow> 16 word option"

text \<open>\<^verbatim>\<open>sizeof(struct __stmp__)\<close>, and the smallest block worth splitting.\<close>

definition HLEN :: nat where "HLEN = 6"
definition MIN_BLOCK :: "16 word" where "MIN_BLOCK = of_nat (4 * HLEN)"

text \<open>
  Where a pointer to the next free block is kept: the variable \<^verbatim>\<open>__stmp__\<close>, which the
  code takes for the first field of a header, or the header of a block.
\<close>

datatype stlink = Pool_header | In_block nat

definition written :: "'x option \<Rightarrow> 'x result" where
  "written v = (case v of None \<Rightarrow> Inl Uninitialised | Some x \<Rightarrow> Inr x)"

definition next_of :: "stpool \<Rightarrow> stlink \<Rightarrow> nat option" where
  "next_of S q = (case q of Pool_header \<Rightarrow> Some (stmp S) | In_block a \<Rightarrow> s_next S a)"

definition set_next :: "stlink \<Rightarrow> nat \<Rightarrow> stpool \<Rightarrow> stpool" where
  "set_next q n S = (case q of Pool_header \<Rightarrow> S\<lparr>stmp := n\<rparr> | In_block a \<Rightarrow> S\<lparr>s_next := (s_next S)(a \<mapsto> n)\<rparr>)"

definition set_len :: "nat \<Rightarrow> 16 word \<Rightarrow> stpool \<Rightarrow> stpool" where
  "set_len a l S = S\<lparr>s_len := (s_len S)(a \<mapsto> l)\<rparr>"

definition stalloc_init_mempool :: "nat \<Rightarrow> 16 word \<Rightarrow> stpool \<Rightarrow> stpool" where
  "stalloc_init_mempool pool sz S = set_len pool (sz - of_nat HLEN) (set_next (In_block pool) 0 (S\<lparr>stmp := pool\<rparr>))"

section \<open>Allocation\<close>

definition word_aligned :: "16 word \<Rightarrow> 16 word" where
  "word_aligned sz = (sz + 1) AND NOT 1"

text \<open>
  The search for a block that is large enough; it does not return when the list is circular. The
  result is the place of the pointer to the block and the block, which is null at the end.
\<close>

partial_function (option) find_fit :: "16 word \<Rightarrow> stpool \<Rightarrow> stlink \<Rightarrow> (stlink \<times> nat) result option" where
  "find_fit sz S q = (case next_of S q of
       None \<Rightarrow> Some (Inl Uninitialised)
     | Some p \<Rightarrow> if p = 0 then Some (Inr (q, 0))
         else (case s_len S p of
             None \<Rightarrow> Some (Inl Uninitialised)
           | Some l \<Rightarrow> if sz \<le> l then Some (Inr (q, p)) else find_fit sz S (In_block p)))"

definition reserve :: "16 word \<Rightarrow> stpool \<Rightarrow> stlink \<times> nat \<Rightarrow> (nat \<times> stpool) result" where
  "reserve sz S qp = (case qp of (q, p) \<Rightarrow>
     if p = 0 then Inr (0, S)
     else andThen (written (s_len S p)) (\<lambda>l. let k = l - sz in
       if k < MIN_BLOCK then andThen (written (s_next S p)) (\<lambda>n. Inr (p + HLEN, set_next q n S))
       else let k' = k - of_nat HLEN; q' = p + HLEN + unat k'
            in Inr (q' + HLEN, set_len q' sz (set_len p k' S))))"

definition stalloc :: "16 word \<Rightarrow> stpool \<Rightarrow> (nat \<times> stpool) result option" where
  "stalloc n S = (let sz = word_aligned n in map_option (\<lambda>r. andThen r (reserve sz S)) (find_fit sz S Pool_header))"

section \<open>Giving back\<close>

partial_function (option) find_place :: "nat \<Rightarrow> stpool \<Rightarrow> nat \<Rightarrow> (nat \<times> nat) result option" where
  "find_place p0 S q = (case s_next S q of
       None \<Rightarrow> Some (Inl Uninitialised)
     | Some p \<Rightarrow> if p = 0 \<or> p0 < p then Some (Inr (q, p)) else find_place p0 S p)"

definition merge_up :: "nat \<Rightarrow> nat \<Rightarrow> stpool \<Rightarrow> stpool result" where
  "merge_up p0 p S =
     (if p = 0 then Inr (set_next (In_block p0) p S)
      else andThen (written (s_len S p0)) (\<lambda>l0.
        if p0 + unat l0 + HLEN = p
        then andThen (written (s_len S p)) (\<lambda>l. andThen (written (s_next S p)) (\<lambda>n.
          Inr (set_next (In_block p0) n (set_len p0 (l0 + (l + of_nat HLEN)) S))))
        else Inr (set_next (In_block p0) p S)))"

definition merge_down :: "nat \<Rightarrow> nat \<Rightarrow> stpool \<Rightarrow> stpool result" where
  "merge_down q p0 S =
     andThen (written (s_len S q)) (\<lambda>lq.
       if q + unat lq + HLEN = p0
       then andThen (written (s_len S p0)) (\<lambda>l0. andThen (written (s_next S p0)) (\<lambda>n.
         Inr (set_next (In_block q) n (set_len q (lq + (l0 + of_nat HLEN)) S))))
       else Inr (set_next (In_block q) p0 S))"

text \<open>When there is no free block the header that becomes the first one is not linked to anything.\<close>

definition stalloc_free :: "nat \<Rightarrow> stpool \<Rightarrow> stpool result option" where
  "stalloc_free memp S =
     (if memp = 0 then Some (Inr S)
      else let p0 = memp - HLEN in
        if stmp S = 0 then Some (Inr (S\<lparr>stmp := p0\<rparr>))
        else map_option (\<lambda>r. andThen r (\<lambda>(q, p). andThen (merge_up p0 p S) (merge_down q p0)))
          (find_place p0 S (stmp S)))"

end
