(* ===== verification/TkStallocProps.thy ===== *)
theory TkStallocProps
  imports TkStalloc
begin

text \<open>
  The allocator of stacks against an abstract allocator on a list of tiles: the blocks of the pool
  from its start, each with its length and whether it is free.
\<close>

section \<open>Tiles\<close>

type_synonym tile = "bool \<times> nat"

fun tiles_end :: "nat \<Rightarrow> tile list \<Rightarrow> nat" where
  "tiles_end b [] = b"
| "tiles_end b ((f, l) # ts) = tiles_end (b + HLEN + l) ts"

fun first_free :: "nat \<Rightarrow> tile list \<Rightarrow> nat \<Rightarrow> nat" where
  "first_free b [] z = z"
| "first_free b ((f, l) # ts) z = (if f then b else first_free (b + HLEN + l) ts z)"

fun last_free :: "stlink \<Rightarrow> nat \<Rightarrow> tile list \<Rightarrow> stlink" where
  "last_free q b [] = q"
| "last_free q b ((f, l) # ts) = last_free (if f then In_block b else q) (b + HLEN + l) ts"

text \<open>The headers of the tiles from \<open>b\<close>, the last free one of which points to \<open>z\<close>.\<close>

fun linked :: "stpool \<Rightarrow> nat \<Rightarrow> tile list \<Rightarrow> nat \<Rightarrow> bool" where
  "linked S b [] z = True"
| "linked S b ((f, l) # ts) z =
     (s_len S b = Some (of_nat l) \<and> (f \<longrightarrow> s_next S b = Some (first_free (b + HLEN + l) ts z)) \<and> linked S (b + HLEN + l) ts z)"

fun coalesced :: "tile list \<Rightarrow> bool" where
  "coalesced (x # y # ts) = (\<not> (fst x \<and> fst y) \<and> coalesced (y # ts))"
| "coalesced [t] = True"
| "coalesced [] = True"

definition pool_holds :: "stpool \<Rightarrow> nat \<Rightarrow> tile list \<Rightarrow> bool" where
  "pool_holds S b ts \<longleftrightarrow> b \<noteq> 0 \<and> tiles_end b ts < b + 2 ^ 16 \<and> coalesced ts \<and> stmp S = first_free b ts 0 \<and> linked S b ts 0"

text \<open>The abstract allocator. The address is that of the header.\<close>

fun alloc_tile :: "nat \<Rightarrow> nat \<Rightarrow> tile list \<Rightarrow> (nat \<times> tile list) option" where
  "alloc_tile b n [] = None"
| "alloc_tile b n ((f, l) # ts) =
     (if f \<and> n \<le> l
      then Some (if l - n < 4 * HLEN then (b, (False, l) # ts) else (b + (l - n), (True, l - n - HLEN) # (False, n) # ts))
      else map_option (\<lambda>(a, us). (a, (f, l) # us)) (alloc_tile (b + HLEN + l) n ts))"

fun coalesce :: "tile list \<Rightarrow> tile list" where
  "coalesce ((f, l) # (g, m) # ts) = (if f \<and> g then coalesce ((True, l + HLEN + m) # ts) else (f, l) # coalesce ((g, m) # ts))"
| "coalesce ts = ts"

fun mark_free :: "nat \<Rightarrow> nat \<Rightarrow> tile list \<Rightarrow> tile list" where
  "mark_free b a [] = []"
| "mark_free b a ((f, l) # ts) = (if a = b then (True, l) # ts else (f, l) # mark_free (b + HLEN + l) a ts)"

definition free_tile :: "nat \<Rightarrow> nat \<Rightarrow> tile list \<Rightarrow> tile list" where
  "free_tile b a ts = coalesce (mark_free b a ts)"

section \<open>Walking over the tiles\<close>

lemma next_of_block [simp]: "next_of S (In_block a) = s_next S a"
  by (simp add: next_of_def)

lemma next_of_header [simp]: "next_of S Pool_header = Some (stmp S)"
  by (simp add: next_of_def)

lemma next_set [simp]:
  "next_of (set_next q n S) r = (if r = q then Some n else next_of S r)"
  "next_of (set_len a l S) r = next_of S r" "s_len (set_next q n S) = s_len S"
  "s_len (set_len a l S) = (s_len S)(a \<mapsto> l)" "s_next (set_len a l S) = s_next S" "stmp (set_len a l S) = stmp S"
  "s_next (set_next (In_block a) n S) = (s_next S)(a \<mapsto> n)" "stmp (set_next (In_block a) n S) = stmp S"
  by (auto simp: next_of_def set_next_def set_len_def split: stlink.splits)

lemma tiles_end_le: "b \<le> tiles_end b ts"
  by (induction b ts rule: tiles_end.induct) (auto simp: HLEN_def)

lemma tiles_end_append [simp]: "tiles_end b (ts @ us) = tiles_end (tiles_end b ts) us"
  by (induction b ts rule: tiles_end.induct) auto

lemma first_free_append [simp]: "first_free b (ts @ us) z = first_free b ts (first_free (tiles_end b ts) us z)"
  by (induction b ts z rule: first_free.induct) auto

lemma last_free_append [simp]: "last_free q b (ts @ us) = last_free (last_free q b ts) (tiles_end b ts) us"
  by (induction q b ts rule: last_free.induct) auto

lemma linked_append [simp]:
  "linked S b (ts @ us) z \<longleftrightarrow> linked S b ts (first_free (tiles_end b ts) us z) \<and> linked S (tiles_end b ts) us z"
  by (induction S b ts z rule: linked.induct) auto

text \<open>Tiles do not feel what is written before or behind them.\<close>

lemma linked_frame:
  "linked S b ts z \<Longrightarrow> (\<And>a. b \<le> a \<Longrightarrow> a < tiles_end b ts \<Longrightarrow> s_len T a = s_len S a \<and> s_next T a = s_next S a) \<Longrightarrow> linked T b ts z"
proof (induction S b ts z rule: linked.induct)
  case (2 S b f l ts z)
  have "b + HLEN + l \<le> tiles_end (b + HLEN + l) ts" by (rule tiles_end_le)
  then have "s_len T b = s_len S b \<and> s_next T b = s_next S b" using "2.prems"(2) [of b] by (simp add: HLEN_def)
  moreover have "linked T (b + HLEN + l) ts z" using 2 by (simp add: HLEN_def)
  ultimately show ?case using "2.prems"(1) by simp
qed simp

text \<open>Only a free tile needs the pointer in its header.\<close>

lemma last_free_cases:
  "(last_free q b ts = q \<and> list_all (\<lambda>t. \<not> fst t) ts) \<or>
   (\<exists>us l vs. ts = us @ (True, l) # vs \<and> last_free q b ts = In_block (tiles_end b us) \<and> list_all (\<lambda>t. \<not> fst t) vs)"
proof (induction q b ts rule: last_free.induct)
  case (2 q b f l ts)
  show ?case
  proof (cases f)
    case True
    with 2 show ?thesis
    proof (elim disjE exE conjE)
      fix us m vs assume "ts = us @ (True, m) # vs" "last_free (if f then In_block b else q) (b + HLEN + l) ts = In_block (tiles_end (b + HLEN + l) us)"
        "list_all (\<lambda>t. \<not> fst t) vs"
      then show ?thesis using True by (intro disjI2 exI [of _ "(f, l) # us"] exI [of _ m] exI [of _ vs]) simp
    qed (auto intro!: exI [of _ "[]"])
  next
    case False
    with 2 show ?thesis
    proof (elim disjE exE conjE)
      fix us m vs assume "ts = us @ (True, m) # vs" "last_free (if f then In_block b else q) (b + HLEN + l) ts = In_block (tiles_end (b + HLEN + l) us)"
        "list_all (\<lambda>t. \<not> fst t) vs"
      then show ?thesis using False by (intro disjI2 exI [of _ "(f, l) # us"] exI [of _ m] exI [of _ vs]) simp
    qed simp
  qed
qed simp

definition before :: "stlink \<Rightarrow> nat \<Rightarrow> bool" where
  "before q b = (case q of Pool_header \<Rightarrow> True | In_block a \<Rightarrow> a < b)"

lemma before_more: "before q b \<Longrightarrow> b \<le> c \<Longrightarrow> before q c"
  by (auto simp: before_def split: stlink.splits)

lemma before_last: "before q b \<Longrightarrow> before (last_free q b ts) (tiles_end b ts)"
proof (induction q b ts rule: last_free.induct)
  case (2 q b f l ts)
  then have "before (if f then In_block b else q) (b + HLEN + l)" by (auto simp: before_def HLEN_def split: stlink.splits)
  then show ?case using 2 by simp
qed simp

lemma linked_set_before:
  assumes "before q b" "linked S b ts z"
  shows "linked (set_next q n S) b ts z"
  using assms(2)
proof (rule linked_frame)
  fix a assume "b \<le> a"
  with assms(1) show "s_len (set_next q n S) a = s_len S a \<and> s_next (set_next q n S) a = s_next S a"
    by (auto simp: before_def set_next_def split: stlink.splits)
qed

lemma last_free_from: "last_free q b ts = q \<or> (\<exists>a. last_free q b ts = In_block a \<and> b \<le> a)"
proof (induction q b ts rule: last_free.induct)
  case (2 q b f l ts)
  then show ?case by (auto simp: HLEN_def split: if_splits dest: add_leD1)
qed simp

text \<open>Changing the last pointer of the free tiles in a row.\<close>

lemma relink:
  assumes "linked S b ts z" "next_of S q = Some (first_free b ts z)" "before q b"
  shows "linked (set_next (last_free q b ts) z' S) b ts z' \<and> next_of (set_next (last_free q b ts) z' S) q = Some (first_free b ts z')"
  using assms
proof (induction q b ts rule: last_free.induct)
  case (2 q b f l ts)
  let ?q = "if f then In_block b else q" and ?b = "b + HLEN + l"
  have bf: "before ?q ?b" using "2.prems"(3) by (auto simp: before_def HLEN_def split: stlink.splits)
  have "next_of S ?q = Some (first_free ?b ts z)" using "2.prems" by auto
  with 2 bf have IH: "linked (set_next (last_free ?q ?b ts) z' S) ?b ts z'"
    "next_of (set_next (last_free ?q ?b ts) z' S) ?q = Some (first_free ?b ts z')" by auto
  have "In_block b \<noteq> q" using "2.prems"(3) by (auto simp: before_def)
  moreover have "last_free ?q ?b ts \<noteq> q" if f
    using last_free_from [of ?q ?b ts] that "2.prems"(3) by (auto simp: before_def HLEN_def)
  ultimately show ?case using IH "2.prems" by (cases f) simp_all
qed simp

section \<open>Allocating\<close>

definition tile_fits :: "nat \<Rightarrow> tile \<Rightarrow> bool" where
  "tile_fits n t = (fst t \<and> n \<le> snd t)"

lemma tiles_end_bound: "(f, l) \<in> set ts \<Longrightarrow> b + HLEN + l \<le> tiles_end b ts"
proof (induction b ts rule: tiles_end.induct)
  case (2 b g m ts)
  then show ?case using tiles_end_le [of "b + HLEN + m" ts] by auto
qed simp

lemma unat_length: "l < 2 ^ 16 \<Longrightarrow> unat (of_nat l :: 16 word) = l"
  by (simp add: unat_of_nat take_bit_eq_mod)

lemma le_length: "l < 2 ^ 16 \<Longrightarrow> n \<le> (of_nat l :: 16 word) \<longleftrightarrow> unat n \<le> l"
  by (simp add: word_le_nat_alt unat_length)

lemma alloc_tile_none: "list_all (\<lambda>t. \<not> tile_fits n t) ts \<Longrightarrow> alloc_tile b n ts = None"
  by (induction b n ts rule: alloc_tile.induct) (auto simp: tile_fits_def)

lemma alloc_tile_some:
  "list_all (\<lambda>t. \<not> tile_fits n t) pre \<Longrightarrow> n \<le> l \<Longrightarrow> alloc_tile b n (pre @ (True, l) # post) =
     Some (if l - n < 4 * HLEN then (tiles_end b pre, pre @ (False, l) # post)
       else (tiles_end b pre + (l - n), pre @ (True, l - n - HLEN) # (False, n) # post))"
proof (induction pre arbitrary: b)
  case (Cons t pre)
  then show ?case by (cases t) (auto simp: tile_fits_def)
qed simp

lemma find_fit_none:
  "list_all (\<lambda>t. \<not> tile_fits (unat n) t) ts \<Longrightarrow> linked S b ts 0 \<Longrightarrow> next_of S q = Some (first_free b ts 0) \<Longrightarrow> 0 < b \<Longrightarrow>
     (\<forall>t\<in>set ts. snd t < 2 ^ 16) \<Longrightarrow> \<exists>r. find_fit n S q = Some (Inr (r, 0))"
proof (induction ts arbitrary: b q)
  case Nil
  then show ?case by (simp add: find_fit.simps)
next
  case (Cons t ts)
  obtain f l where t: "t = (f, l)" by (cases t)
  show ?case
  proof (cases f)
    case True
    with Cons.prems t have "find_fit n S q = find_fit n S (In_block b)"
      by (subst find_fit.simps) (simp add: tile_fits_def le_length)
    with Cons.IH [of "b + HLEN + l" "In_block b"] Cons.prems t True show ?thesis by (simp add: HLEN_def)
  next
    case False
    with Cons.IH [of "b + HLEN + l" q] Cons.prems t show ?thesis by (simp add: HLEN_def)
  qed
qed

lemma find_fit_some:
  "list_all (\<lambda>t. \<not> tile_fits (unat n) t) pre \<Longrightarrow> unat n \<le> l \<Longrightarrow> linked S b (pre @ (True, l) # post) 0 \<Longrightarrow>
     next_of S q = Some (first_free b (pre @ (True, l) # post) 0) \<Longrightarrow> 0 < b \<Longrightarrow>
     (\<forall>t\<in>set (pre @ (True, l) # post). snd t < 2 ^ 16) \<Longrightarrow>
     find_fit n S q = Some (Inr (last_free q b pre, tiles_end b pre))"
proof (induction pre arbitrary: b q)
  case Nil
  then show ?case by (subst find_fit.simps) (simp add: le_length)
next
  case (Cons t pre)
  obtain f m where t: "t = (f, m)" by (cases t)
  show ?case
  proof (cases f)
    case True
    with Cons.prems t have "find_fit n S q = find_fit n S (In_block b)"
      by (subst find_fit.simps) (simp add: tile_fits_def le_length)
    with Cons.IH [of "b + HLEN + m" "In_block b"] Cons.prems t True show ?thesis by (simp add: HLEN_def)
  next
    case False
    with Cons.IH [of "b + HLEN + m" q] Cons.prems t show ?thesis by (simp add: HLEN_def)
  qed
qed

lemma coalesced_append:
  "coalesced (xs @ ys) \<longleftrightarrow> coalesced xs \<and> coalesced ys \<and> (xs \<noteq> [] \<and> ys \<noteq> [] \<longrightarrow> \<not> (fst (last xs) \<and> fst (List.hd ys)))"
proof (induction xs rule: coalesced.induct)
  case (1 x y ts)
  then show ?case by auto
next
  case (2 v)
  then show ?case by (cases ys) auto
qed auto

text \<open>What one allocation does to the pool.\<close>

lemma reserve_whole:
  assumes "pool_holds S b (pre @ (True, l) # post)" "unat n \<le> l" "l - unat n < 4 * HLEN"
  shows "\<exists>T. reserve n S (last_free Pool_header b pre, tiles_end b pre) = Inr (tiles_end b pre + HLEN, T) \<and>
    pool_holds T b (pre @ (False, l) # post)"
proof -
  let ?p = "tiles_end b pre" and ?q = "last_free Pool_header b pre"
  have h: "linked S b pre ?p" "s_len S ?p = Some (of_nat l)" "s_next S ?p = Some (first_free (?p + HLEN + l) post 0)"
    "linked S (?p + HLEN + l) post 0" "next_of S Pool_header = Some (first_free b pre ?p)" "0 < b" "0 < ?p" "b \<le> ?p"
    using assms(1) tiles_end_le [of b pre] by (auto simp: pool_holds_def)
  have l: "l < 2 ^ 16" using assms(1) tiles_end_bound [of True l "pre @ (True, l) # post" b] by (auto simp: pool_holds_def)
  have k: "(of_nat l - n < MIN_BLOCK) = (l - unat n < 4 * HLEN)"
    using assms(2) l by (simp add: word_less_nat_alt unat_sub le_length unat_length MIN_BLOCK_def HLEN_def)
  let ?T = "set_next ?q (first_free (?p + HLEN + l) post 0) S"
  have q: "before ?q ?p" using before_last [of Pool_header b pre] by (simp add: before_def)
  have "linked ?T b pre (first_free (?p + HLEN + l) post 0)" "stmp ?T = first_free b pre (first_free (?p + HLEN + l) post 0)"
    using relink [OF h(1,5)] by (simp_all add: before_def)
  moreover have "linked ?T (?p + HLEN + l) post 0" using linked_set_before [OF before_more [OF q] h(4)] by simp
  moreover have "coalesced (pre @ (False, l) # post)" using assms(1) by (cases post) (auto simp: pool_holds_def coalesced_append)
  ultimately have "pool_holds ?T b (pre @ (False, l) # post)" using assms(1) h(2) by (simp add: pool_holds_def)
  then show ?thesis using h k assms(3) by (simp add: reserve_def written_def)
qed

lemma linked_write_len:
  "linked S b ts z \<Longrightarrow> c < b \<or> tiles_end b ts \<le> c \<Longrightarrow> linked (set_len c l S) b ts z"
  by (erule linked_frame) auto

lemma reserve_split:
  assumes "pool_holds S b (pre @ (True, k + HLEN + unat n) # post)" "3 * HLEN \<le> k"
  shows "\<exists>T. reserve n S (q, tiles_end b pre) = Inr (tiles_end b pre + HLEN + k + HLEN, T) \<and>
    pool_holds T b (pre @ (True, k) # (False, unat n) # post)"
proof -
  obtain p where p_def: "p = tiles_end b pre" by simp
  have h: "linked S b pre p" "s_len S p = Some (of_nat (k + HLEN + unat n))"
    "s_next S p = Some (first_free (p + HLEN + k + HLEN + unat n) post 0)"
    "linked S (p + HLEN + k + HLEN + unat n) post 0" "stmp S = first_free b pre p" "0 < b" "0 < p"
    using assms(1) tiles_end_le [of b pre] by (auto simp: pool_holds_def add_ac p_def)
  have l: "k + HLEN + unat n < 2 ^ 16"
    using assms(1) tiles_end_bound [of True "k + HLEN + unat n" "pre @ (True, k + HLEN + unat n) # post" b] by (auto simp: pool_holds_def)
  have lw: "(of_nat (k + HLEN + unat n) :: 16 word) - n = of_nat (k + HLEN)" by simp
  have kw: "\<not> (of_nat (k + HLEN) :: 16 word) < MIN_BLOCK" using l assms(2)
    by (simp add: word_less_nat_alt unat_length MIN_BLOCK_def HLEN_def del: of_nat_add)
  have u: "unat (of_nat k :: 16 word) = k" using l by (intro unat_length) simp
  let ?T = "set_len (p + HLEN + k) n (set_len p (of_nat k) S)"
  have "linked ?T b pre p" using h(1) by (intro linked_write_len) (auto simp: p_def)
  moreover have "linked ?T (p + HLEN + k + HLEN + unat n) post 0" using h(4) by (intro linked_write_len) (auto simp: HLEN_def)
  moreover have "coalesced (pre @ (True, k) # (False, unat n) # post)"
    using assms(1) by (cases post) (auto simp: pool_holds_def coalesced_append)
  moreover have "tiles_end (p + HLEN + k + HLEN + unat n) post < b + 2 ^ 16"
    using assms(1) by (simp add: pool_holds_def p_def add_ac)
  ultimately have "pool_holds ?T b (pre @ (True, k) # (False, unat n) # post)"
    using h by (simp add: pool_holds_def HLEN_def flip: p_def)
  moreover have "reserve n S (q, p) = Inr (p + HLEN + k + HLEN, ?T)"
    using h(2,7) kw unfolding reserve_def by (simp add: written_def lw Let_def u del: of_nat_add) (simp add: u)
  ultimately show ?thesis by (auto simp: p_def)
qed

lemma pool_lengths: "pool_holds S b ts \<Longrightarrow> \<forall>t\<in>set ts. snd t < 2 ^ 16"
  using tiles_end_bound [of _ _ ts b] by (fastforce simp: pool_holds_def)

text \<open>\<^verbatim>\<open>stalloc\<close> allocates as the abstract allocator does.\<close>

lemma stalloc_tiles:
  assumes "pool_holds S b ts"
  shows "case alloc_tile b (unat (word_aligned n)) ts of
      None \<Rightarrow> stalloc n S = Some (Inr (0, S))
    | Some (a, us) \<Rightarrow> \<exists>T. stalloc n S = Some (Inr (a + HLEN, T)) \<and> pool_holds T b us"
proof -
  let ?n = "word_aligned n"
  have h: "linked S b ts 0" "next_of S Pool_header = Some (first_free b ts 0)" "0 < b" using assms by (auto simp: pool_holds_def)
  show ?thesis
  proof (cases "list_all (\<lambda>t. \<not> tile_fits (unat ?n) t) ts")
    case True
    then show ?thesis using find_fit_none [OF True h pool_lengths [OF assms]] alloc_tile_none [OF True]
      by (auto simp: stalloc_def Let_def reserve_def)
  next
    case False
    then have "\<exists>t\<in>set ts. tile_fits (unat ?n) t" unfolding list_all_iff by blast
    then obtain pre t post where s: "ts = pre @ t # post" "tile_fits (unat ?n) t" "list_all (\<lambda>t. \<not> tile_fits (unat ?n) t) pre"
      unfolding list_all_iff by (rule split_list_first_propE)
    then obtain l where t: "t = (True, l)" "unat ?n \<le> l" by (cases t) (auto simp: tile_fits_def)
    note f = find_fit_some [OF s(3) t(2), of S b post, OF h(1,2) [unfolded s(1) t(1)] h(3) pool_lengths [OF assms, unfolded s(1) t(1)]]
    note p = assms [unfolded s(1) t(1)]
    note a = alloc_tile_some [OF s(3) t(2), of b post]
    show ?thesis
    proof (cases "l - unat ?n < 4 * HLEN")
      case True
      then show ?thesis using reserve_whole [OF p t(2) True] a f by (auto simp: stalloc_def Let_def s(1) t(1))
    next
      case False
      then obtain k where k: "l = k + HLEN + unat ?n" "3 * HLEN \<le> k"
        using le_add_diff_inverse2 [of "HLEN + unat ?n" l] by (intro that [of "l - (HLEN + unat ?n)"]) (auto simp: HLEN_def)
      then show ?thesis using reserve_split [OF p [unfolded k(1)] k(2), of "last_free Pool_header b pre"] a f False
        by (auto simp: stalloc_def Let_def s(1) t(1) add_ac)
    qed
  qed
qed

section \<open>Giving back\<close>

lemma first_free_from: "first_free b ts 0 = 0 \<or> b \<le> first_free b ts 0"
proof (induction b ts "0 :: nat" rule: first_free.induct)
  case (2 b f l ts)
  then show ?case by (cases f) (auto dest: add_leD1)
qed simp

lemma find_place_tiles:
  "linked S b (pre @ (False, l) # post) 0 \<Longrightarrow> s_next S q = Some (first_free b (pre @ (False, l) # post) 0) \<Longrightarrow> 0 < b \<Longrightarrow>
     \<exists>r. find_place (tiles_end b pre) S q = Some (Inr (r, first_free (tiles_end b pre + HLEN + l) post 0)) \<and>
       last_free (In_block q) b pre = In_block r"
proof (induction pre arbitrary: b q)
  case Nil
  have "first_free (b + HLEN + l) post 0 = 0 \<or> b < first_free (b + HLEN + l) post 0"
    using first_free_from [of "b + HLEN + l" post] by (auto simp: HLEN_def)
  with Nil show ?case by (subst find_place.simps) simp
next
  case (Cons t pre)
  obtain f m where t: "t = (f, m)" by (cases t)
  have lt: "b < tiles_end (b + HLEN + m) pre" using tiles_end_le [of "b + HLEN + m" pre] by (simp add: HLEN_def)
  show ?case
  proof (cases f)
    case True
    with Cons.prems t lt have "find_place (tiles_end b (t # pre)) S q = find_place (tiles_end b (t # pre)) S b"
      by (subst find_place.simps) simp
    with Cons.IH [of "b + HLEN + m" b] Cons.prems t True show ?thesis by (simp add: HLEN_def)
  next
    case False
    with Cons.IH [of "b + HLEN + m" q] Cons.prems t show ?thesis by (simp add: HLEN_def)
  qed
qed

fun joined_up :: "nat \<Rightarrow> tile list \<Rightarrow> nat \<times> tile list" where
  "joined_up l ((True, m) # ts) = (l + HLEN + m, ts)"
| "joined_up l ts = (l, ts)"

lemma joined_up_used: "ts = [] \<or> \<not> fst (List.hd ts) \<Longrightarrow> joined_up l ts = (l, ts)"
  by (cases "(l, ts)" rule: joined_up.cases) auto

lemma coalesce_id: "coalesced ts \<Longrightarrow> coalesce ts = ts"
  by (induction ts rule: coalesce.induct) auto

lemma coalesce_joins:
  assumes "coalesced ts" "joined_up l ts = (m, us)"
  shows "coalesce ((True, l) # ts) = (True, m) # us"
proof (cases "ts = [] \<or> \<not> fst (List.hd ts)")
  case True
  then have "coalesced ((True, l) # ts)" using assms(1) by (cases ts) auto
  then show ?thesis using joined_up_used [OF True] assms(2) by (simp add: coalesce_id)
next
  case False
  then obtain n vs where ts: "ts = (True, n) # vs" by (cases ts) auto
  then have "coalesced ((True, l + HLEN + n) # vs)" using assms(1) by (cases vs) auto
  then show ?thesis using ts assms(2) by (simp add: coalesce_id)
qed

lemma coalesce_behind:
  "coalesced xs \<Longrightarrow> xs = [] \<or> \<not> fst (last xs) \<Longrightarrow> coalesce (xs @ ys) = xs @ coalesce ys"
proof (induction xs rule: coalesced.induct)
  case (1 x y ts)
  then show ?case by (cases x; cases y) auto
next
  case (2 v)
  then show ?case by (cases v; cases "(v # ys)" rule: coalesce.cases) auto
qed simp

lemma coalesced_coalesce: "coalesced (coalesce ts)"
proof (induction ts rule: coalesce.induct)
  case (1 f l g m ts)
  have "\<exists>n us. coalesce ((g, m) # ts) = (g, n) # us" if "\<not> (f \<and> g)"
    by (induction "(g, m) # ts" arbitrary: m ts rule: coalesce.induct) auto
  with 1 show ?case by auto
qed auto

lemma mark_free_at: "mark_free b (tiles_end b pre) (pre @ (f, l) # post) = pre @ (True, l) # post"
proof (induction pre arbitrary: b)
  case (Cons t pre)
  obtain g m where "t = (g, m)" by (cases t)
  with Cons [of "b + HLEN + m"] tiles_end_le [of "b + HLEN + m" pre] show ?case by (auto simp: HLEN_def)
qed simp

lemma merge_up_joins:
  assumes "linked S a ((False, l) # post) 0" "tiles_end a ((False, l) # post) < a + 2 ^ 16" "joined_up l post = (m, us)" "0 < a"
  shows "\<exists>T. merge_up a (first_free (a + HLEN + l) post 0) S = Inr T \<and> linked T a ((True, m) # us) 0 \<and> stmp T = stmp S \<and>
    (\<forall>c<a. s_len T c = s_len S c \<and> s_next T c = s_next S c) \<and> tiles_end (a + HLEN + m) us = tiles_end (a + HLEN + l) post"
proof -
  let ?p = "first_free (a + HLEN + l) post 0"
  have l: "l < 2 ^ 16" using assms(2) tiles_end_bound [of False l "(False, l) # post" a] by auto
  show ?thesis
  proof (cases "post = [] \<or> \<not> fst (List.hd post)")
    case True
    then have mu: "m = l" "us = post" using assms(3) joined_up_used [OF True] by auto
    have p: "?p = 0 \<or> a + HLEN + l < ?p"
    proof (cases post)
      case (Cons t ts)
      obtain g n where "t = (g, n)" by (cases t)
      with Cons True first_free_from [of "a + HLEN + l + HLEN + n" ts] show ?thesis by (auto simp: HLEN_def)
    qed simp
    let ?T = "set_next (In_block a) ?p S"
    have "linked ?T (a + HLEN + l) post 0"
      using assms(1) by (intro linked_set_before) (auto simp: before_def HLEN_def)
    then show ?thesis using p assms(1) mu l by (auto simp: merge_up_def written_def unat_length set_next_def HLEN_def)
  next
    case False
    then obtain n ts where post: "post = (True, n) # ts" by (cases post) auto
    then have mu: "m = l + HLEN + n" "us = ts" using assms(3) by auto
    have n: "l + HLEN + n < 2 ^ 16" using assms(2) tiles_end_le [of "a + HLEN + l + HLEN + n" ts] by (simp add: post HLEN_def)
    let ?T = "set_next (In_block a) (first_free (a + HLEN + l + HLEN + n) ts 0) (set_len a (of_nat (l + HLEN + n)) S)"
    have "linked S (a + HLEN + l + HLEN + n) ts 0" using assms(1) post by simp
    then have "linked ?T (a + HLEN + l + HLEN + n) ts 0"
      by (rule linked_frame) (auto simp: HLEN_def)
    moreover have "merge_up a ?p S = Inr ?T"
      using assms(1,4) post l by (simp add: merge_up_def written_def unat_length add_ac)
    ultimately show ?thesis using mu by (auto simp: post add_ac)
  qed
qed

lemma first_free_used: "list_all (\<lambda>t. \<not> fst t) ts \<Longrightarrow> first_free b ts z = z"
  by (induction b ts z rule: first_free.induct) auto

lemma linked_used: "list_all (\<lambda>t. \<not> fst t) ts \<Longrightarrow> linked S b ts z \<Longrightarrow> linked S b ts z'"
  by (induction S b ts z rule: linked.induct) auto

lemma merge_down_touching:
  assumes "linked T b (pre @ [(True, lq)]) z" "linked T (q + HLEN + lq) ((True, m) # us) 0" "q = tiles_end b pre"
    "tiles_end (q + HLEN + lq) ((True, m) # us) < b + 2 ^ 16"
  shows "\<exists>R. merge_down q (q + HLEN + lq) T = Inr R \<and> linked R b (pre @ (True, lq + HLEN + m) # us) 0 \<and> stmp R = stmp T"
proof -
  let ?n = "first_free (q + HLEN + lq + HLEN + m) us 0"
  let ?R = "set_next (In_block q) ?n (set_len q (of_nat (lq + HLEN + m)) T)"
  have l: "lq < 2 ^ 16" using assms(3,4) tiles_end_le [of b pre] tiles_end_le [of "q + HLEN + lq + HLEN + m" us] by simp
  have "linked T (q + HLEN + lq + HLEN + m) us 0" using assms(2) by simp
  then have "linked ?R (q + HLEN + lq + HLEN + m) us 0" by (rule linked_frame) (auto simp: HLEN_def)
  moreover have "linked T b pre q" using assms(1,3) by simp
  then have "linked ?R b pre q" by (rule linked_frame) (auto simp: assms(3))
  moreover have "merge_down q (q + HLEN + lq) T = Inr ?R"
    using assms(1-3) l by (simp add: merge_down_def written_def unat_length add_ac)
  ultimately show ?thesis using assms(3) by (auto simp: add_ac)
qed

lemma merge_down_apart:
  assumes "linked T b (pre @ (True, lq) # ts) z" "list_all (\<lambda>t. \<not> fst t) ts" "ts \<noteq> []"
    "linked T a ((True, m) # us) 0" "a = tiles_end b (pre @ (True, lq) # ts)" "q = tiles_end b pre" "a < b + 2 ^ 16"
  shows "\<exists>R. merge_down q a T = Inr R \<and> linked R b (pre @ (True, lq) # ts @ (True, m) # us) 0 \<and> stmp R = stmp T"
proof -
  let ?R = "set_next (In_block q) a T"
  obtain g n vs where "ts = (g, n) # vs" using assms(3) by (cases ts) auto
  then have e: "q + HLEN + lq < a" using assms(5,6) tiles_end_le [of "q + HLEN + lq + HLEN + n" vs] by (auto simp: HLEN_def)
  have l: "lq < 2 ^ 16" using e assms(6,7) tiles_end_le [of b pre] by (simp add: HLEN_def)
  have "linked T (q + HLEN + lq) ts z" using assms(1,6) by simp
  then have "linked T (q + HLEN + lq) ts a" by (rule linked_used [OF assms(2)])
  then have "linked ?R (q + HLEN + lq) ts a" by (rule linked_frame) (auto simp: HLEN_def)
  moreover have "linked T b pre q" using assms(1,6) by simp
  then have "linked ?R b pre q" by (rule linked_frame) (auto simp: assms(6))
  moreover have "linked ?R a ((True, m) # us) 0" using assms(4) by (rule linked_frame) (use e in \<open>auto simp: HLEN_def\<close>)
  moreover have "merge_down q a T = Inr ?R"
    using assms(1,6) l e by (simp add: merge_down_def written_def unat_length add_ac)
  ultimately show ?thesis using assms(1,2,5,6) by (auto simp: first_free_used)
qed

text \<open>\<^verbatim>\<open>stalloc_free\<close> frees a block that has a free block below it as the abstract allocator does.\<close>

lemma stalloc_free_tiles:
  assumes "pool_holds S b (pre @ (False, l) # post)" "\<exists>t\<in>set pre. fst t"
  shows "\<exists>T. stalloc_free (tiles_end b pre + HLEN) S = Some (Inr T) \<and>
    pool_holds T b (free_tile b (tiles_end b pre) (pre @ (False, l) # post))"
proof -
  obtain a where a: "a = tiles_end b pre" by simp
  obtain prea lq preb where pre: "pre = prea @ (True, lq) # preb" "list_all (\<lambda>t. \<not> fst t) preb"
    using assms(2) by (elim split_list_last_propE) (auto simp: list_all_iff)
  obtain q where q: "q = tiles_end b prea" by simp
  have h: "linked S b (pre @ (False, l) # post) 0" "stmp S = first_free b (pre @ (False, l) # post) 0" "0 < b" "coalesced pre" "coalesced post"
    "tiles_end a ((False, l) # post) < b + 2 ^ 16" "b \<le> a"
    using assms(1) by (auto simp: pool_holds_def coalesced_append tiles_end_le a dest: coalesced_append [THEN iffD1, of "[_]", simplified])
  obtain pre1 l1 pre2 where first: "pre = pre1 @ (True, l1) # pre2" "list_all (\<lambda>t. \<not> fst t) pre1"
    using assms(2) by (elim split_list_first_propE) (auto simp: list_all_iff)
  have s: "stmp S = tiles_end b pre1" "0 < stmp S" "s_next S (stmp S) = Some (first_free (tiles_end b pre1 + HLEN + l1) (pre2 @ (False, l) # post) 0)"
    "linked S (tiles_end b pre1 + HLEN + l1) (pre2 @ (False, l) # post) 0"
    using h(1-3) tiles_end_le [of b pre1] by (auto simp: first first_free_used)
  have ff: "first_free b pre z = stmp S" for z using first_free_used [OF first(2)] by (simp add: first(1) s(1))
  have fq: "first_free b prea q = stmp S" using ff [of 0] by (simp add: pre(1) q)
  let ?p = "first_free (a + HLEN + l) post 0"
  have "last_free (In_block (stmp S)) (tiles_end b pre1 + HLEN + l1) pre2 = last_free Pool_header b pre" by (simp add: first s(1))
  also have "\<dots> = In_block q" using last_free_cases [of "In_block q" "q + HLEN + lq" preb] pre by (auto simp: q)
  finally have place: "find_place a S (stmp S) = Some (Inr (q, ?p))"
    using find_place_tiles [OF s(4,3)] by (auto simp: a first HLEN_def)
  obtain m us where j: "joined_up l post = (m, us)" by (cases "joined_up l post")
  obtain T where T: "merge_up a ?p S = Inr T" "linked T a ((True, m) # us) 0" "stmp T = stmp S"
    "\<forall>c<a. s_len T c = s_len S c \<and> s_next T c = s_next S c" "tiles_end (a + HLEN + m) us = tiles_end (a + HLEN + l) post"
    using merge_up_joins [of S a l post m us] h j by (auto simp: a)
  have pT: "linked T b pre ?p" using h(1) T(4) by (auto simp: a intro: linked_frame)
  have co: "coalesced (free_tile b a (pre @ (False, l) # post))" by (simp add: free_tile_def coalesced_coalesce)
  have pa: "coalesced prea" "prea = [] \<or> \<not> fst (last prea)" using h(4) by (auto simp: pre(1) coalesced_append)
  have "\<exists>R. merge_down q a T = Inr R \<and> linked R b (free_tile b a (pre @ (False, l) # post)) 0 \<and> stmp R = stmp T \<and>
    tiles_end b (free_tile b a (pre @ (False, l) # post)) < b + 2 ^ 16 \<and> stmp S = first_free b (free_tile b a (pre @ (False, l) # post)) 0"
  proof (cases "preb = []")
    case True
    have jm: "joined_up (lq + HLEN + l) post = (lq + HLEN + m, us)"
      using j by (cases "(l, post)" rule: joined_up.cases) auto
    have ft: "free_tile b a (pre @ (False, l) # post) = prea @ (True, lq + HLEN + m) # us"
      unfolding free_tile_def a mark_free_at
      using coalesce_behind [OF pa, of "(True, lq + HLEN + l) # post"] coalesce_behind [OF pa, of "(True, lq) # (True, l) # post"]
        coalesce_joins [OF h(5) jm] by (simp add: pre(1) True)
    have aq: "a = q + HLEN + lq" using a q by (simp add: pre(1) True)
    have "linked T b (prea @ [(True, lq)]) ?p" using pT by (simp add: pre(1) True)
    from merge_down_touching [OF this, of q m us] T(2,5) q h(6) obtain R where
      "merge_down q a T = Inr R" "linked R b (prea @ (True, lq + HLEN + m) # us) 0" "stmp R = stmp T"
      by (auto simp: aq add_ac)
    then show ?thesis using T(5) h(6) fq aq q unfolding ft by (auto simp: add_ac)
  next
    case False
    have lp: "\<not> fst (last pre)" using pre False by (auto simp: list_all_iff)
    have ft: "free_tile b a (pre @ (False, l) # post) = pre @ (True, m) # us"
      unfolding free_tile_def a mark_free_at using coalesce_behind [OF h(4) disjI2 [OF lp]] coalesce_joins [OF h(5) j] by simp
    have "a < b + 2 ^ 16" using h(6) tiles_end_le [of "a + HLEN + l" post] by simp
    with merge_down_apart [OF pT [unfolded pre(1)] pre(2) False T(2), of q] a q pre(1) obtain R where
      "merge_down q a T = Inr R" "linked R b (pre @ (True, m) # us) 0" "stmp R = stmp T" by auto
    then show ?thesis using T(5) h(6) ff a unfolding ft by auto
  qed
  then show ?thesis using place T(1,3) s(2) h(3,7) co by (auto simp: stalloc_free_def pool_holds_def a)
qed

section \<open>Runs of the allocator\<close>

lemma init_holds:
  assumes "b \<noteq> 0" "HLEN \<le> unat n"
  shows "pool_holds (stalloc_init_mempool b n S) b [(True, unat n - HLEN)]"
proof -
  have "of_nat (unat n - HLEN) = n - of_nat HLEN" using assms(2) by (simp add: of_nat_diff)
  moreover have "unat n < 2 ^ 16" using unsigned_less [of n] by simp
  ultimately show ?thesis using assms by (simp add: pool_holds_def stalloc_init_mempool_def set_next_def set_len_def HLEN_def)
qed

text \<open>The blocks in use: their addresses, as the user knows them, and lengths.\<close>

fun used_blocks :: "nat \<Rightarrow> tile list \<Rightarrow> (nat \<times> nat) set" where
  "used_blocks b [] = {}"
| "used_blocks b ((f, l) # ts) = (if f then {} else {(b + HLEN, l)}) \<union> used_blocks (b + HLEN + l) ts"

lemma used_blocks_append [simp]: "used_blocks b (ts @ us) = used_blocks b ts \<union> used_blocks (tiles_end b ts) us"
  by (induction b ts rule: used_blocks.induct) auto

lemma used_blocks_in: "(a, l) \<in> used_blocks b ts \<Longrightarrow> b + HLEN \<le> a \<and> a + l \<le> tiles_end b ts"
proof (induction b ts rule: used_blocks.induct)
  case (2 b f m ts)
  then show ?case using tiles_end_le [of "b + HLEN + m" ts] by (auto split: if_splits)
qed simp

lemma used_blocks_split: "(a, l) \<in> used_blocks b ts \<Longrightarrow> \<exists>pre post. ts = pre @ (False, l) # post \<and> a = tiles_end b pre + HLEN"
proof (induction b ts rule: used_blocks.induct)
  case (2 b f m ts)
  show ?case
  proof (cases "(a, l) \<in> used_blocks (b + HLEN + m) ts")
    case True
    with 2 obtain pre post where "ts = pre @ (False, l) # post" "a = tiles_end (b + HLEN + m) pre + HLEN" by auto
    then show ?thesis by (intro exI [of _ "(f, m) # pre"] exI [of _ post]) simp
  next
    case False
    with 2 have "\<not> f" "a = b + HLEN" "l = m" by (auto split: if_splits)
    then show ?thesis by (intro exI [of _ "[]"] exI [of _ ts]) simp
  qed
qed simp

text \<open>Blocks are apart: between two of them there is room for a header.\<close>

definition apart :: "nat \<times> nat \<Rightarrow> nat \<times> nat \<Rightarrow> bool" where
  "apart x y = (fst x + snd x + HLEN \<le> fst y \<or> fst y + snd y + HLEN \<le> fst x)"

lemma coalesce_end [simp]: "tiles_end b (coalesce ts) = tiles_end b ts"
  by (induction ts arbitrary: b rule: coalesce.induct) (auto simp: add_ac)

lemma coalesce_used [simp]: "used_blocks b (coalesce ts) = used_blocks b ts"
  by (induction ts arbitrary: b rule: coalesce.induct) (auto simp: add_ac)

lemma all_free_one: "coalesced ts \<Longrightarrow> used_blocks b ts = {} \<Longrightarrow> ts = [] \<or> (\<exists>l. ts = [(True, l)])"
  by (cases ts rule: coalesced.cases) (auto split: if_splits)

lemma alloc_tile_ends:
  "alloc_tile b n ts = Some (a, us) \<Longrightarrow> tiles_end b us = tiles_end b ts \<and>
     (\<exists>m\<ge>n. used_blocks b us = insert (a + HLEN, m) (used_blocks b ts) \<and> a + HLEN + m \<le> tiles_end b ts)"
proof (induction b n ts arbitrary: a us rule: alloc_tile.induct)
  case (2 b n f l ts)
  show ?case
  proof (cases "f \<and> n \<le> l")
    case True
    show ?thesis
    proof (cases "l - n < 4 * HLEN")
      case True
      with 2(2) \<open>f \<and> n \<le> l\<close> show ?thesis using tiles_end_le [of "b + HLEN + l" ts] by auto
    next
      case False
      then obtain k where "l = k + HLEN + n" using le_add_diff_inverse2 [of "HLEN + n" l] by (intro that [of "l - (HLEN + n)"]) (auto simp: HLEN_def)
      with 2(2) False \<open>f \<and> n \<le> l\<close> show ?thesis using tiles_end_le [of "b + HLEN + l" ts] by (auto simp: add_ac)
    qed
  next
    case False
    with 2(2) obtain vs where v: "alloc_tile (b + HLEN + l) n ts = Some (a, vs)" "us = (f, l) # vs" by auto
    from 2(1) [OF False v(1)] show ?thesis by (auto simp: v(2))
  qed
qed simp

text \<open>
  What a program does with the pool, as long as it never uses up the lowest block: a block is
  given back while there is a free one below it.
\<close>

inductive pool_run :: "nat \<Rightarrow> 16 word \<Rightarrow> stpool \<Rightarrow> (nat \<times> nat) set \<Rightarrow> bool" for b n where
  start: "b \<noteq> 0 \<Longrightarrow> HLEN < unat n \<Longrightarrow> pool_run b n (stalloc_init_mempool b n S) {}"
| alloc: "pool_run b n S X \<Longrightarrow> stalloc m S = Some (Inr (a, T)) \<Longrightarrow> a \<noteq> 0 \<Longrightarrow> s_len T (a - HLEN) = Some l \<Longrightarrow>
    pool_run b n T (insert (a, unat l) X)"
| full: "pool_run b n S X \<Longrightarrow> stalloc m S = Some (Inr (0, T)) \<Longrightarrow> pool_run b n T X"
| give: "pool_run b n S X \<Longrightarrow> (a, l) \<in> X \<Longrightarrow> stmp S \<noteq> 0 \<Longrightarrow> stmp S < a \<Longrightarrow> stalloc_free a S = Some (Inr T) \<Longrightarrow>
    pool_run b n T (X - {(a, l)})"

lemma mark_free_used: "used_blocks b (pre @ (True, l) # post) = used_blocks b (pre @ (False, l) # post) - {(tiles_end b pre + HLEN, l)}"
proof -
  have "(tiles_end b pre + HLEN, l) \<notin> used_blocks b pre" using used_blocks_in [of "tiles_end b pre + HLEN" l b pre] by (auto simp: HLEN_def)
  moreover have "(tiles_end b pre + HLEN, l) \<notin> used_blocks (tiles_end b pre + HLEN + l) post"
    using used_blocks_in [of "tiles_end b pre + HLEN" l "tiles_end b pre + HLEN + l" post] by (auto simp: HLEN_def)
  ultimately show ?thesis by auto
qed

lemma free_below:
  assumes "pool_holds S b (pre @ (False, l) # post)" "stmp S \<noteq> 0" "stmp S < tiles_end b pre + HLEN"
  shows "\<exists>t\<in>set pre. fst t"
proof (rule ccontr)
  assume "\<not> ?thesis"
  then have "list_all (\<lambda>t. \<not> fst t) pre" by (auto simp: list_all_iff)
  then have "stmp S = first_free (tiles_end b pre + HLEN + l) post 0" using assms(1) by (simp add: pool_holds_def first_free_used)
  with assms(2,3) first_free_from [of "tiles_end b pre + HLEN + l" post] show False by auto
qed

lemma alloc_tile_len:
  "pool_holds T b us \<Longrightarrow> (a, m) \<in> used_blocks b us \<Longrightarrow> s_len T (a - HLEN) = Some l \<Longrightarrow> unat l = m"
proof -
  assume h: "pool_holds T b us" "(a, m) \<in> used_blocks b us" "s_len T (a - HLEN) = Some l"
  from used_blocks_split [OF h(2)] obtain pre post where s: "us = pre @ (False, m) # post" "a = tiles_end b pre + HLEN" by blast
  with h(1,3) have "l = of_nat m" by (auto simp: pool_holds_def)
  moreover have "m < 2 ^ 16" using pool_lengths [OF h(1)] s(1) by auto
  ultimately show ?thesis by (simp add: unat_length)
qed

lemma pool_run_holds: "pool_run b n S X \<Longrightarrow> \<exists>ts. pool_holds S b ts \<and> tiles_end b ts = b + unat n \<and> used_blocks b ts = X"
proof (induction rule: pool_run.induct)
  case (start S)
  then show ?case using init_holds [of b n S] by (intro exI [of _ "[(True, unat n - HLEN)]"]) simp
next
  case (alloc S X m a T l)
  then obtain ts where ts: "pool_holds S b ts" "tiles_end b ts = b + unat n" "used_blocks b ts = X" by blast
  from stalloc_tiles [OF ts(1), of m] alloc.hyps obtain c us where
    us: "alloc_tile b (unat (word_aligned m)) ts = Some (c, us)" "a = c + HLEN" "pool_holds T b us"
    by (auto split: option.splits)
  from alloc_tile_ends [OF us(1)] obtain k where k: "tiles_end b us = tiles_end b ts" "used_blocks b us = insert (a, k) (used_blocks b ts)"
    by (auto simp: us(2))
  have "unat l = k" using alloc_tile_len [OF us(3) _ alloc.hyps(4)] k(2) by simp
  then show ?case using us(3) k ts by auto
next
  case (full S X m T)
  then obtain ts where ts: "pool_holds S b ts" "tiles_end b ts = b + unat n" "used_blocks b ts = X" by blast
  from stalloc_tiles [OF ts(1), of m] full.hyps have "T = S" by (auto split: option.splits simp: HLEN_def)
  with ts show ?case by blast
next
  case (give S X a l T)
  then obtain ts where ts: "pool_holds S b ts" "tiles_end b ts = b + unat n" "used_blocks b ts = X" by blast
  from used_blocks_split [of a l b ts] give.hyps ts(3) obtain pre post where s: "ts = pre @ (False, l) # post" "a = tiles_end b pre + HLEN" by auto
  note h = ts(1) [unfolded s(1)]
  have "\<exists>t\<in>set pre. fst t" using free_below [OF h] give.hyps s(2) by simp
  from stalloc_free_tiles [OF h this] give.hyps s(2) have T: "pool_holds T b (free_tile b (tiles_end b pre) ts)" by (auto simp: s(1))
  have "used_blocks b (free_tile b (tiles_end b pre) ts) = X - {(a, l)}"
    by (simp only: free_tile_def s(1) mark_free_at coalesce_used mark_free_used s(2) flip: ts(3))
  moreover have "tiles_end b (free_tile b (tiles_end b pre) ts) = b + unat n"
    using ts(2) by (simp add: free_tile_def s(1) mark_free_at)
  ultimately show ?case using T by blast
qed

section \<open>The properties\<close>

definition stack_demo :: stpool where
  "stack_demo = stalloc_init_mempool 0x8000 66 \<lparr>stmp = 0, s_next = \<lambda>_. None, s_len = \<lambda>_. None\<rparr>"

lemma stack_demo_holds: "pool_holds stack_demo 0x8000 [(True, 60)]"
  using init_holds [where b = "0x8000" and n = 66] by (simp add: stack_demo_def HLEN_def)

text \<open>
  C30. The allocator of stacks refines first fit on the list of the blocks of the pool:
  \<^verbatim>\<open>stalloc\<close> takes the upper end of the first free block that is large enough, or the
  whole of it when less than four headers would be left, and gives null without a change when there
  is none; \<^verbatim>\<open>stalloc_free\<close> of a block with a free one below it frees it and joins it with
  its free neighbours. Both return.
\<close>

theorem stalloc_refines:
  assumes "pool_holds S b ts"
  shows "(case alloc_tile b (unat (word_aligned n)) ts of
      None \<Rightarrow> stalloc n S = Some (Inr (0, S))
    | Some (a, us) \<Rightarrow> \<exists>T. stalloc n S = Some (Inr (a + HLEN, T)) \<and> pool_holds T b us) \<and>
    (\<forall>pre l post. ts = pre @ (False, l) # post \<and> (\<exists>t\<in>set pre. fst t) \<longrightarrow>
      (\<exists>T. stalloc_free (tiles_end b pre + HLEN) S = Some (Inr T) \<and> pool_holds T b (free_tile b (tiles_end b pre) ts)))"
proof (intro conjI allI impI)
  fix pre l post assume "ts = pre @ (False, l) # post \<and> (\<exists>t\<in>set pre. fst t)"
  then show "\<exists>T. stalloc_free (tiles_end b pre + HLEN) S = Some (Inr T) \<and> pool_holds T b (free_tile b (tiles_end b pre) ts)"
    using stalloc_free_tiles [of S b pre l post] assms by blast
qed (rule stalloc_tiles [OF assms])

theorem stalloc_refines_witness:
  "\<exists>T. stalloc 29 stack_demo = Some (Inr (0x8000 + 36, T)) \<and> pool_holds T 0x8000 [(True, 24), (False, 30)]"
  using stalloc_refines [OF stack_demo_holds, of 29] by (simp add: word_aligned_def HLEN_def)

text \<open>The free blocks: those on the list that starts at \<^verbatim>\<open>stmp\<close>.\<close>

inductive free_header :: "stpool \<Rightarrow> nat \<Rightarrow> bool" for S where
  first: "stmp S \<noteq> 0 \<Longrightarrow> free_header S (stmp S)"
| later: "free_header S h \<Longrightarrow> s_next S h = Some h' \<Longrightarrow> h' \<noteq> 0 \<Longrightarrow> free_header S h'"

definition free_blocks :: "stpool \<Rightarrow> (nat \<times> nat) set" where
  "free_blocks S = {(h + HLEN, unat l) | h l. free_header S h \<and> s_len S h = Some l}"

lemma first_free_split:
  "first_free b ts 0 \<noteq> 0 \<Longrightarrow> \<exists>pre l post. ts = pre @ (True, l) # post \<and> first_free b ts 0 = tiles_end b pre"
proof (induction ts arbitrary: b)
  case (Cons t ts)
  obtain f l where t: "t = (f, l)" by (cases t)
  show ?case
  proof (cases f)
    case True
    then show ?thesis by (intro exI [of _ "[]"] exI [of _ l] exI [of _ ts]) (simp add: t)
  next
    case False
    with Cons t obtain pre m post where "ts = pre @ (True, m) # post" "first_free (b + HLEN + l) ts 0 = tiles_end (b + HLEN + l) pre"
      by fastforce
    then show ?thesis using False t by (intro exI [of _ "t # pre"] exI [of _ m] exI [of _ post]) simp
  qed
qed simp

lemma free_header_tile:
  assumes "pool_holds S b ts" "free_header S h"
  shows "\<exists>pre l post. ts = pre @ (True, l) # post \<and> h = tiles_end b pre"
  using assms(2)
proof induction
  case first
  then show ?case using first_free_split [of b ts] assms(1) by (auto simp: pool_holds_def)
next
  case (later h h')
  then obtain pre l post where s: "ts = pre @ (True, l) # post" "h = tiles_end b pre" by blast
  have "linked S b ts 0" using assms(1) by (simp add: pool_holds_def)
  then have "s_next S h = Some (first_free (tiles_end b pre + HLEN + l) post 0)" by (simp add: s)
  with later have h': "h' = first_free (tiles_end b pre + HLEN + l) post 0" by simp
  with later(3) obtain pre' l' post' where "post = pre' @ (True, l') # post'" "h' = tiles_end (tiles_end b pre + HLEN + l) pre'"
    using first_free_split [of "tiles_end b pre + HLEN + l" post] by auto
  then show ?case using s by (intro exI [of _ "pre @ (True, l) # pre'"] exI [of _ l'] exI [of _ post']) simp
qed

lemma free_block_split:
  assumes "pool_holds S b ts" "(a, l) \<in> free_blocks S"
  shows "\<exists>pre post. ts = pre @ (True, l) # post \<and> a = tiles_end b pre + HLEN"
proof -
  obtain h w where h: "a = h + HLEN" "l = unat w" "free_header S h" "s_len S h = Some w"
    using assms(2) by (auto simp: free_blocks_def)
  obtain pre m post where s: "ts = pre @ (True, m) # post" "h = tiles_end b pre"
    using free_header_tile [OF assms(1) h(3)] by blast
  have "m < 2 ^ 16" using pool_lengths [OF assms(1)] s(1) by auto
  moreover have "s_len S h = Some (of_nat m)" using assms(1) s by (simp add: pool_holds_def)
  ultimately have "l = m" using h(2,4) by (auto simp: unat_of_nat)
  then show ?thesis using h(1) s by blast
qed

text \<open>Two different tiles are apart.\<close>

lemma tile_after:
  "tiles_end b pre + HLEN + l \<le> tiles_end b (pre @ (f, l) # us)"
  using tiles_end_le [of "tiles_end b pre + HLEN + l" us] by simp

lemma tiles_apart:
  assumes "pre @ (f, l) # post = pre' @ (g, m) # post'"
  shows "pre = pre' \<and> f = g \<and> l = m \<or> apart (tiles_end b pre + HLEN, l) (tiles_end b pre' + HLEN, m)"
proof -
  from assms consider "pre = pre'" "f = g" "l = m" | us where "pre' = pre @ (f, l) # us" | us where "pre = pre' @ (g, m) # us"
    by (auto simp: append_eq_append_conv2 Cons_eq_append_conv append_eq_Cons_conv)
  then show ?thesis
    by cases (use tile_after [of b pre l f] tile_after [of b pre' m g] in \<open>auto simp: apart_def\<close>)
qed

lemma pool_blocks_apart:
  assumes h: "pool_holds S b ts" and x: "x \<in> used_blocks b ts \<union> free_blocks S" and y: "y \<in> used_blocks b ts \<union> free_blocks S"
  shows "x \<noteq> y \<Longrightarrow> apart x y" and "x \<in> used_blocks b ts \<Longrightarrow> x \<notin> free_blocks S"
    and "b + HLEN \<le> fst x \<and> fst x + snd x \<le> tiles_end b ts"
proof -
  have tile: "\<exists>f pre post. ts = pre @ (f, snd z) # post \<and> fst z = tiles_end b pre + HLEN \<and> (z \<in> used_blocks b ts \<longrightarrow> \<not> f)"
    if "z \<in> used_blocks b ts" for z
    using used_blocks_split [of "fst z" "snd z" b ts] that by auto
  have free: "\<exists>pre post. ts = pre @ (True, snd z) # post \<and> fst z = tiles_end b pre + HLEN" if "z \<in> free_blocks S" for z
    using free_block_split [OF h, of "fst z" "snd z"] that by auto
  obtain f pre post where px: "ts = pre @ (f, snd x) # post" "fst x = tiles_end b pre + HLEN" using x tile free by blast
  obtain g pre' post' where py: "ts = pre' @ (g, snd y) # post'" "fst y = tiles_end b pre' + HLEN" using y tile free by blast
  show "apart x y" if "x \<noteq> y"
    using tiles_apart [of pre f "snd x" post pre' g "snd y" post' b] px py that by (auto simp: prod_eq_iff apart_def)
  show "b + HLEN \<le> fst x \<and> fst x + snd x \<le> tiles_end b ts"
    using px tile_after [of b pre "snd x" f post] tiles_end_le [of b pre] by simp
  show "x \<notin> free_blocks S" if u: "x \<in> used_blocks b ts"
  proof
    assume "x \<in> free_blocks S"
    with free obtain q r where q: "ts = q @ (True, snd x) # r" "fst x = tiles_end b q + HLEN" by blast
    obtain q' r' where q': "ts = q' @ (False, snd x) # r'" "fst x = tiles_end b q' + HLEN"
      using used_blocks_split [of "fst x" "snd x" b ts] u by auto
    from tiles_apart [of q True "snd x" r q' False "snd x" r' b] q q' show False by (auto simp: apart_def HLEN_def)
  qed
qed

text \<open>
  C31. However a program allocates and gives back, as long as it gives back a block only while a
  free block lies below it (otherwise \<^verbatim>\<open>stalloc_free\<close> fails): the blocks in use and
  the free blocks, those on the list of the allocator, lie in the pool; no block is both, and no
  two of them overlap, their headers included; \<^verbatim>\<open>stalloc\<close> returns without a fault, and
  so does \<^verbatim>\<open>stalloc_free\<close> of a block in use with a free one below; and when nothing is in
  use the pool is one free block again.
\<close>

theorem stack_blocks_apart:
  assumes "pool_run b n S X"
  shows "(\<forall>(a, l)\<in>X \<union> free_blocks S. b + HLEN \<le> a \<and> a + l \<le> b + unat n) \<and> X \<inter> free_blocks S = {} \<and>
    (\<forall>x\<in>X \<union> free_blocks S. \<forall>y\<in>X \<union> free_blocks S. x \<noteq> y \<longrightarrow> apart x y) \<and>
    (\<forall>m. \<exists>a T. stalloc m S = Some (Inr (a, T))) \<and>
    (\<forall>(a, l)\<in>X. stmp S \<noteq> 0 \<and> stmp S < a \<longrightarrow> (\<exists>T. stalloc_free a S = Some (Inr T))) \<and>
    (X = {} \<longrightarrow> stmp S = b \<and> s_next S b = Some 0 \<and> s_len S b = Some (n - of_nat HLEN))"
proof (intro conjI)
  obtain ts where ts: "pool_holds S b ts" "tiles_end b ts = b + unat n" "used_blocks b ts = X"
    using pool_run_holds [OF assms] by blast
  note ap = pool_blocks_apart [OF ts(1), unfolded ts(2,3)]
  show "\<forall>(a, l)\<in>X \<union> free_blocks S. b + HLEN \<le> a \<and> a + l \<le> b + unat n" using ap(3) by fastforce
  show "X \<inter> free_blocks S = {}" using ap(2) by blast
  show "\<forall>x\<in>X \<union> free_blocks S. \<forall>y\<in>X \<union> free_blocks S. x \<noteq> y \<longrightarrow> apart x y" using ap(1) by blast
  show "\<forall>m. \<exists>a T. stalloc m S = Some (Inr (a, T))"
  proof
    fix m show "\<exists>a T. stalloc m S = Some (Inr (a, T))"
      using stalloc_tiles [OF ts(1), of m] by (cases "alloc_tile b (unat (word_aligned m)) ts") auto
  qed
  show "\<forall>(a, l)\<in>X. stmp S \<noteq> 0 \<and> stmp S < a \<longrightarrow> (\<exists>T. stalloc_free a S = Some (Inr T))"
  proof safe
    fix a l assume a: "(a, l) \<in> X" "stmp S < a" "0 < stmp S"
    then obtain pre post where s: "ts = pre @ (False, l) # post" "a = tiles_end b pre + HLEN"
      using used_blocks_split [of a l b ts] ts(3) by auto
    show "\<exists>T. stalloc_free a S = Some (Inr T)"
      using stalloc_free_tiles [OF ts(1) [unfolded s(1)] free_below [OF ts(1) [unfolded s(1)]]] a s(2) by auto
  qed
  show "X = {} \<longrightarrow> stmp S = b \<and> s_next S b = Some 0 \<and> s_len S b = Some (n - of_nat HLEN)"
  proof
    assume "X = {}"
    moreover have "HLEN < unat n" "b \<noteq> 0" using assms by (induction rule: pool_run.induct) auto
    ultimately obtain l where l: "ts = [(True, l)]" using all_free_one [of ts b] ts by (auto simp: pool_holds_def)
    then have "of_nat l = n - of_nat HLEN" using ts(2) \<open>HLEN < unat n\<close> by (auto simp: algebra_simps simp flip: of_nat_add)
    then show "stmp S = b \<and> s_next S b = Some 0 \<and> s_len S b = Some (n - of_nat HLEN)" using ts(1) by (simp add: pool_holds_def l)
  qed
qed

theorem stack_blocks_apart_witness:
  "\<exists>T. stalloc 29 stack_demo = Some (Inr (0x8024, T)) \<and> (0x8006, 24) \<in> free_blocks T \<and>
    (\<forall>y\<in>free_blocks T. apart (0x8024, 30) y)"
proof -
  obtain T where T: "stalloc 29 stack_demo = Some (Inr (0x8024, T))" "pool_holds T 0x8000 [(True, 24), (False, 30)]"
    using stalloc_tiles [OF stack_demo_holds, of 29] by (auto simp: word_aligned_def HLEN_def)
  then have p: "s_len T 0x801E = Some 30" "s_len T 0x8000 = Some 24" "stmp T = 0x8000" by (simp_all add: pool_holds_def HLEN_def)
  have "pool_run 0x8000 66 stack_demo {}" unfolding stack_demo_def by (rule pool_run.start) (simp_all add: HLEN_def)
  from pool_run.alloc [OF this T(1)] p(1) have "pool_run 0x8000 66 T {(0x8024, 30)}" by (simp add: HLEN_def)
  from stack_blocks_apart [OF this] have "\<forall>y\<in>free_blocks T. apart (0x8024, 30) y" by auto
  moreover have "free_header T 0x8000" using free_header.first [of T] p(3) by simp
  then have "(0x8006, 24) \<in> free_blocks T" using p(2) by (force simp: free_blocks_def HLEN_def)
  ultimately show ?thesis using T(1) by blast
qed

text \<open>
  Giving a block back right after it was allocated restores the pool, when a free block lies
  below it.
\<close>

theorem stalloc_round_trip:
  assumes "pool_holds S b ts" "stalloc n S = Some (Inr (a, T))" "a \<noteq> 0" "stmp T \<noteq> 0" "stmp T < a"
  shows "\<exists>U. stalloc_free a T = Some (Inr U) \<and> pool_holds U b ts"
proof -
  let ?n = "unat (word_aligned n)"
  from assms(2,3) stalloc_tiles [OF assms(1), of n] have "\<not> list_all (\<lambda>t. \<not> tile_fits ?n t) ts"
    by (auto dest: alloc_tile_none [of _ _ b])
  then have "\<exists>t\<in>set ts. tile_fits ?n t" unfolding list_all_iff by blast
  then obtain pre t post where s: "ts = pre @ t # post" "tile_fits ?n t" "list_all (\<lambda>t. \<not> tile_fits ?n t) pre"
    unfolding list_all_iff by (rule split_list_first_propE)
  then obtain l where t: "t = (True, l)" "?n \<le> l" by (cases t) (auto simp: tile_fits_def)
  have ts: "coalesced ts" using assms(1) by (simp add: pool_holds_def)
  note al = alloc_tile_some [OF s(3) t(2), of b post]
  note st = stalloc_tiles [OF assms(1), of n, unfolded s(1) t(1) al, simplified assms(2)]
  have undo: "\<exists>U. stalloc_free a T = Some (Inr U) \<and> pool_holds U b (coalesce (vs @ (True, m) # ws))"
    if "pool_holds T b (vs @ (False, m) # ws)" "a = tiles_end b vs + HLEN" for vs m ws
    using stalloc_free_tiles [OF that(1) free_below [OF that(1) assms(4)]] assms(5) that(2) by (simp add: free_tile_def mark_free_at)
  show ?thesis
  proof (cases "l - ?n < 4 * HLEN")
    case True
    then show ?thesis using undo [of pre l post] st coalesce_id [OF ts] by (simp add: s(1) t(1))
  next
    case False
    then obtain k where k: "l = k + HLEN + ?n"
      using le_add_diff_inverse2 [of "HLEN + ?n" l] by (intro that [of "l - (HLEN + ?n)"]) (auto simp: HLEN_def)
    have pre: "coalesced pre" "pre = [] \<or> \<not> fst (last pre)" using ts by (auto simp: s(1) t(1) coalesced_append)
    have "coalesce ((pre @ [(True, k)]) @ (True, ?n) # post) = pre @ coalesce ((True, l) # post)"
      using coalesce_behind [OF pre] by (simp add: k)
    also have "\<dots> = ts" using coalesce_behind [OF pre, of "(True, l) # post"] coalesce_id [OF ts] by (simp add: s(1) t(1))
    finally show ?thesis using undo [of "pre @ [(True, k)]" ?n post] st False by (simp add: k add_ac)
  qed
qed

theorem stalloc_round_trip_witness:
  "\<exists>T U. stalloc 29 stack_demo = Some (Inr (0x8000 + 36, T)) \<and> stalloc_free (0x8000 + 36) T = Some (Inr U) \<and>
    pool_holds U 0x8000 [(True, 60)]"
proof -
  obtain T where T: "stalloc 29 stack_demo = Some (Inr (0x8000 + 36, T))" "pool_holds T 0x8000 [(True, 24), (False, 30)]"
    using stalloc_tiles [OF stack_demo_holds, of 29] by (auto simp: word_aligned_def HLEN_def)
  then show ?thesis using stalloc_round_trip [OF stack_demo_holds T(1)] by (simp add: pool_holds_def)
qed

text \<open>
  When no block is free, giving one back makes its header the free list as it is: the pointer
  to the next block was never written for a block that was cut off another one, so the next
  allocation that does not fit into the block follows a wild pointer.
\<close>

theorem stack_pool_lost:
  assumes "stmp S = 0" "a > HLEN" "s_len S (a - HLEN) = Some l" "s_next S (a - HLEN) = None" "l < word_aligned n"
  shows "\<exists>T. stalloc_free a S = Some (Inr T) \<and> stalloc n T = Some (Inl Uninitialised)"
proof -
  have "\<not> word_aligned n \<le> l" using assms(5) by simp
  then show ?thesis using assms
    by (simp add: stalloc_free_def Let_def stalloc_def find_fit.simps [of _ _ Pool_header] find_fit.simps [of _ _ "In_block (a - HLEN)"])
qed

theorem stack_pool_lost_witness:
  "\<exists>T. stalloc_free 0x8020 \<lparr>stmp = 0, s_next = \<lambda>_. None, s_len = \<lambda>c. if c = 0x801A then Some 30 else None\<rparr> = Some (Inr T) \<and>
    stalloc 40 T = Some (Inl Uninitialised)"
  using stack_pool_lost [of "\<lparr>stmp = 0, s_next = \<lambda>_. None, s_len = \<lambda>c. if c = 0x801A then Some 30 else None\<rparr>" "0x8020" 30 40]
  by (simp add: HLEN_def word_aligned_def)

end
