(* ===== verification/TkBits.thy ===== *)
theory TkBits
  imports TkPrelude
begin

text \<open>
  Bits of the registers of the PowerPC, which numbers them from the most significant one:
  \<^verbatim>\<open>src/arch/powerpc/bits.h\<close>. A field of a register structure is known by the number of
  the bits behind it and its width.
\<close>

section \<open>Single bits and fields\<close>

text \<open>
  \<^verbatim>\<open>bitset\<close> and \<^verbatim>\<open>bitclear\<close>, in the three sizes. A bit that is not
  in the register, as in \<^verbatim>\<open>bitclear(PBODR, 25)\<close> of the ESC board, leaves it as it is.
\<close>

definition bitset :: "nat \<Rightarrow> 'a::len word \<Rightarrow> 'a word" where
  "bitset n d = d OR drop_bit n (push_bit (LENGTH('a) - 1) 1)"

definition bitclear :: "nat \<Rightarrow> 'a::len word \<Rightarrow> 'a word" where
  "bitclear n d = d AND NOT (drop_bit n (push_bit (LENGTH('a) - 1) 1))"

text \<open>Assigning to a field and reading it.\<close>

definition put_field :: "nat \<Rightarrow> nat \<Rightarrow> int \<Rightarrow> 'a::len word \<Rightarrow> 'a word" where
  "put_field lo w v r = (r AND NOT (push_bit lo (mask w))) OR push_bit lo (take_bit w (word_of_int v))"

definition get_field :: "nat \<Rightarrow> nat \<Rightarrow> 'a::len word \<Rightarrow> int" where
  "get_field lo w r = uint (take_bit w (drop_bit lo r))"

text \<open>The bytes of a word in memory, the most significant one first.\<close>

fun be_word :: "8 word list \<Rightarrow> 'a::len word" where
  "be_word [] = 0"
| "be_word (b # bs) = push_bit (8 * length bs) (ucast b) OR be_word bs"

fun be_bytes :: "nat \<Rightarrow> 'a::len word \<Rightarrow> 8 word list" where
  "be_bytes 0 w = []"
| "be_bytes (Suc n) w = ucast (drop_bit (8 * n) w) # be_bytes n w"

section \<open>Reversal\<close>

text \<open>
  The loop of \<^verbatim>\<open>revbits_8\<close>, \<^verbatim>\<open>revbits_16\<close> and \<^verbatim>\<open>revbits_32\<close>, with the
  number of rounds that are left.
\<close>

fun rev_loop :: "nat \<Rightarrow> 'a::len word \<Rightarrow> 8 word \<Rightarrow> 'a word \<Rightarrow> 'a word \<Rightarrow> 'a word \<Rightarrow> 'a word" where
  "rev_loop 0 inp d hm lm out = out"
| "rev_loop (Suc l) inp d hm lm out =
     (let hv = drop_bit (unat d) (inp AND hm); lv = push_bit (unat d) (inp AND lm)
      in rev_loop l inp (d - 2) (drop_bit 1 hm) (push_bit 1 lm) ((out OR hv) OR lv))"

definition revbits_8 :: "8 word \<Rightarrow> 8 word" where
  "revbits_8 inp = rev_loop 4 inp 7 0x80 0x01 0"

definition revbits_16 :: "16 word \<Rightarrow> 16 word" where
  "revbits_16 inp = rev_loop 8 inp 15 0x8000 0x0001 0"

definition revbits_32 :: "32 word \<Rightarrow> 32 word" where
  "revbits_32 inp = rev_loop 16 inp 31 0x80000000 0x00000001 0"

section \<open>Laws\<close>

lemma bit_pow: "bit (push_bit k 1 :: 'a::len word) j \<longleftrightarrow> j = k \<and> k < LENGTH('a)"
  by (auto simp: bit_simps)

lemma bit_top: "n < LENGTH('a) \<Longrightarrow> bit (drop_bit n (push_bit (LENGTH('a) - 1) 1) :: 'a::len word) j \<longleftrightarrow> j = LENGTH('a) - 1 - n"
  unfolding bit_drop_bit_eq comp_def bit_pow by auto

lemma bit_bitset: "n < LENGTH('a) \<Longrightarrow> bit (bitset n (d :: 'a::len word)) j \<longleftrightarrow> bit d j \<or> j = LENGTH('a) - 1 - n"
  by (simp only: bitset_def bit_or_iff bit_top)

lemma bit_bitclear: "n < LENGTH('a) \<Longrightarrow> bit (bitclear n (d :: 'a::len word)) j \<longleftrightarrow> bit d j \<and> j \<noteq> LENGTH('a) - 1 - n"
  by (auto simp only: bitclear_def bit_and_iff bit_not_iff bit_top dest: bit_imp_possible_bit)

lemma bit_put_field:
  "bit (put_field lo w v (r :: 'a::len word)) j \<longleftrightarrow>
     j < LENGTH('a) \<and> (if lo \<le> j \<and> j < lo + w then bit v (j - lo) else bit r j)"
  by (auto simp: put_field_def bit_simps dest: bit_imp_le_length)

lemma get_put_field: "lo + w \<le> LENGTH('a) \<Longrightarrow> get_field lo w (put_field lo w v (r :: 'a::len word)) = take_bit w v"
proof -
  assume le: "lo + w \<le> LENGTH('a)"
  have "take_bit w (drop_bit lo (put_field lo w v r)) = take_bit w (word_of_int v)"
    by (rule bit_word_eqI) (use le in \<open>auto simp: bit_take_bit_iff bit_drop_bit_eq bit_put_field bit_word_of_int_iff\<close>)
  then show ?thesis using le by (simp add: get_field_def unsigned_take_bit_eq unsigned_of_int min_def)
qed

lemma length_be_bytes [simp]: "length (be_bytes n w) = n"
  by (induction n) auto

lemma be_word_bytes: "be_word (be_bytes n w) = take_bit (8 * n) (w :: 'a::len word)"
proof (induction n)
  case (Suc n)
  show ?case unfolding be_bytes.simps be_word.simps Suc length_be_bytes
  proof (rule bit_word_eqI)
    fix j assume "j < LENGTH('a)"
    then show "bit (push_bit (8 * n) (ucast (ucast (drop_bit (8 * n) w) :: 8 word)) OR take_bit (8 * n) w) j =
      bit (take_bit (8 * Suc n) w) j"
      by (auto simp: bit_or_iff bit_push_bit_iff bit_take_bit_iff bit_ucast_iff bit_drop_bit_eq)
  qed
qed simp

lemma bit_be_word: "bit (be_word bs :: 'a::len word) j \<Longrightarrow> j < 8 * length bs"
proof (induction bs)
  case (Cons b bs)
  then show ?case by (auto simp: bit_or_iff bit_push_bit_iff bit_ucast_iff dest: bit_imp_le_length)
qed simp

lemma be_bytes_or: "m \<le> n \<Longrightarrow> be_bytes m (push_bit (8 * n) c OR w) = be_bytes m (w :: 'a::len word)"
proof (induction m)
  case (Suc m)
  have "ucast (drop_bit (8 * m) (push_bit (8 * n) c OR w)) = (ucast (drop_bit (8 * m) w) :: 8 word)"
    using Suc.prems by (intro bit_word_eqI) (auto simp: bit_ucast_iff bit_drop_bit_eq bit_or_iff bit_push_bit_iff)
  with Suc show ?case by simp
qed simp

lemma be_bytes_word: "8 * length bs \<le> LENGTH('a) \<Longrightarrow> be_bytes (length bs) (be_word bs :: 'a::len word) = bs"
proof (induction bs)
  case (Cons b bs)
  have "ucast (drop_bit (8 * length bs) (push_bit (8 * length bs) (ucast b) OR be_word bs :: 'a word)) = b"
    using Cons.prems by (intro bit_word_eqI)
      (auto simp: bit_ucast_iff bit_drop_bit_eq bit_or_iff bit_push_bit_iff dest: bit_be_word)
  with Cons show ?case by (simp add: be_bytes_or)
qed simp

lemma rev_loop_bits:
  fixes inp :: "'a::len word"
  assumes "LENGTH('a) = 2 * (l + i)" "LENGTH('a) < 256" "\<And>j. bit out j \<longleftrightarrow> (j < i \<or> LENGTH('a) - i \<le> j) \<and> j < LENGTH('a) \<and> bit inp (LENGTH('a) - 1 - j)"
    "hm = push_bit (LENGTH('a) - 1 - i) 1" "lm = push_bit i 1" "l = 0 \<or> unat d = LENGTH('a) - 1 - 2 * i"
  shows "bit (rev_loop l inp d hm lm out) j \<longleftrightarrow> j < LENGTH('a) \<and> bit inp (LENGTH('a) - 1 - j)"
  using assms
proof (induction l arbitrary: i d hm lm out)
  case 0
  show ?case unfolding rev_loop.simps "0.prems"(3) using "0.prems"(1) by (cases "j < i") auto
next
  case (Suc l)
  let ?W = "LENGTH('a)"
  have d: "unat d = ?W - 1 - 2 * i" using Suc.prems(6) by simp
  have W: "?W = 2 * (l + Suc i)" using Suc.prems(1) by simp
  have hv: "bit (drop_bit (unat d) (inp AND hm)) j \<longleftrightarrow> j = i \<and> bit inp (?W - 1 - i)" for j
    unfolding Suc.prems(4) bit_drop_bit_eq comp_def bit_and_iff bit_pow d using W by (auto simp: add_ac)
  have m: "bit (inp AND lm) m \<longleftrightarrow> bit inp m \<and> m = i" for m
    unfolding Suc.prems(5) bit_and_iff bit_pow using W by auto
  have lv: "bit (push_bit (unat d) (inp AND lm)) j \<longleftrightarrow> j = ?W - 1 - i \<and> bit inp i" for j
    unfolding bit_push_bit_iff m using W d by auto
  show ?case unfolding rev_loop.simps Let_def
  proof (rule Suc.IH [of "Suc i"])
    show "bit ((out OR drop_bit (unat d) (inp AND hm)) OR push_bit (unat d) (inp AND lm)) j \<longleftrightarrow>
        (j < Suc i \<or> ?W - Suc i \<le> j) \<and> j < ?W \<and> bit inp (?W - 1 - j)" for j
      unfolding bit_or_iff hv lv Suc.prems(3) using W by (cases "j = i"; cases "j = ?W - 1 - i") auto
    show "drop_bit 1 hm = push_bit (?W - 1 - Suc i) 1"
      unfolding Suc.prems(4) by (rule bit_word_eqI) (use W in \<open>auto simp only: bit_drop_bit_eq comp_def bit_pow, arith+\<close>)
    show "push_bit 1 lm = push_bit (Suc i) 1" by (simp add: Suc.prems(5) push_bit_push_bit)
    show "l = 0 \<or> unat (d - 2) = ?W - 1 - 2 * Suc i"
      using W d by (cases "l = 0") (auto simp: unat_sub word_le_nat_alt)
  qed (use W Suc.prems(2) in auto)
qed

text \<open>
  \<^verbatim>\<open>revbits_8\<close>, \<^verbatim>\<open>revbits_16\<close> and \<^verbatim>\<open>revbits_32\<close> reverse the
  bits of a word.
\<close>

theorem revbits_reverse:
  "(\<forall>x n. bit (revbits_8 x) n = (n < 8 \<and> bit x (7 - n))) \<and> (\<forall>x n. bit (revbits_16 x) n = (n < 16 \<and> bit x (15 - n))) \<and>
   (\<forall>x n. bit (revbits_32 x) n = (n < 32 \<and> bit x (31 - n)))"
  using rev_loop_bits [where ?'a = 8 and i = 0 and l = 4 and d = 7 and hm = "0x80" and lm = 1 and out = 0]
    rev_loop_bits [where ?'a = 16 and i = 0 and l = 8 and d = 15 and hm = "0x8000" and lm = 1 and out = 0]
    rev_loop_bits [where ?'a = 32 and i = 0 and l = 16 and d = 31 and hm = "0x80000000" and lm = 1 and out = 0]
  by (simp add: revbits_8_def revbits_16_def revbits_32_def)

end
