(* ===== verification/TkBoard.thy ===== *)
theory TkBoard
  imports TkBits TkTime
begin

text \<open>
  The MPC860 and the ESC board: the registers, the periodic timer
  (\<^verbatim>\<open>bsp/gnu_powerpc/CPU/860/systimer.c\<close>), the communications module (\<^verbatim>\<open>cm.c\<close>), the
  light-emitting diodes (\<^verbatim>\<open>board/ESC/led.c\<close>), and the registers that
  \<^verbatim>\<open>initfini_cpu.c\<close> and \<^verbatim>\<open>initfini_board.c\<close> set. Handlers are named by the
  function they are; a register of the chip is a word, and where writing it does something else
  than storing, as the comments of the source say, this is written out. The state extends the
  kernel's.
\<close>

section \<open>State\<close>

datatype handler = Default_handler | Systimer_Handler_1 | Systimer_Handler_3 | CM_Handler | Sja1000_Handler

datatype cm_handler = CM_default_handler | Console_Handler

record mpc860 =
  SIPEND :: "32 word"
  SIMASK :: "32 word"
  SIEL :: "32 word"
  SIVEC :: "8 word"
  PISCR :: "16 word"
  PITC :: "32 word"
  SCCR :: "32 word"
  CIVR :: "16 word"
  CICR :: "32 word"
  CIMR :: "32 word"
  CISR :: "32 word"
  PAPAR :: "16 word"
  PADIR :: "16 word"
  PADAT :: "16 word"
  PBPAR :: "32 word"
  PBDIR :: "32 word"
  PBODR :: "16 word"
  MSR_EE :: bool
  EIE :: bool

record esc_kern = itc_kern +
  chip :: mpc860
  isr_table :: "nat \<Rightarrow> handler"
  isr_idx :: int
  n_isr :: int
  cm_isr_table :: "nat \<Rightarrow> cm_handler"
  CM_default_nn :: int
  ticks :: tick_t
  ledstat :: "nat \<Rightarrow> int"

abbreviation upd_chip :: "(mpc860 \<Rightarrow> mpc860) \<Rightarrow> 'a esc_kern_scheme \<Rightarrow> 'a esc_kern_scheme" where
  "upd_chip f k \<equiv> k\<lparr>chip := f (chip k)\<rparr>"

text \<open>Levels of the interrupt controller, and the number of handlers.\<close>

definition lvl_IRQ_3 :: nat where "lvl_IRQ_3 = 6"
definition lvl_Intrnl_3 :: nat where "lvl_Intrnl_3 = 7"
definition lvl_Intrnl_5 :: nat where "lvl_Intrnl_5 = 11"
definition cmid_SMC1 :: nat where "cmid_SMC1 = 4"

definition tk_isr_install :: "nat \<Rightarrow> handler \<Rightarrow> 'a esc_kern_scheme \<Rightarrow> (int \<times> 'a esc_kern_scheme) result" where
  "tk_isr_install level isr k = in_bounds (level < 16) (Inr (0, k\<lparr>isr_table := (isr_table k)(level := isr)\<rparr>))"

text \<open>
  A bit of \<^verbatim>\<open>SIPEND\<close> is cleared by writing one to it. The macro \<^verbatim>\<open>tk_isr_eoi\<close>
  reads the register, sets the bit and writes it back.
\<close>

definition write_SIPEND :: "32 word \<Rightarrow> mpc860 \<Rightarrow> mpc860" where
  "write_SIPEND v c = c\<lparr>SIPEND := SIPEND c AND NOT v\<rparr>"

definition tk_isr_eoi :: "nat \<Rightarrow> mpc860 \<Rightarrow> mpc860" where
  "tk_isr_eoi level c = write_SIPEND (bitset level (SIPEND c)) c"

section \<open>The periodic timer\<close>

definition PERT :: int where "PERT = 999"
definition RTDIV :: nat where "RTDIV = 7"
definition RTSEL :: nat where "RTSEL = 8"
definition PISCR_PS :: nat where "PISCR_PS = 8"
definition Intrnl_3 :: int where "Intrnl_3 = 0x1C"

text \<open>
  The status bit \<^verbatim>\<open>PS\<close>, the eighth from the left, is cleared by writing one to it; the
  other fields of \<^verbatim>\<open>PISCR\<close> are stored.
\<close>

definition write_PISCR :: "16 word \<Rightarrow> mpc860 \<Rightarrow> mpc860" where
  "write_PISCR v c = c\<lparr>PISCR := if bit v 7 then put_field 7 1 0 v else put_field 7 1 (get_field 7 1 (PISCR c)) v\<rparr>"

definition systimer_Handler_1 :: "'a esc_kern_scheme \<Rightarrow> 'a esc_kern_scheme" where
  "systimer_Handler_1 k =
     (let k1 = upd_chip (\<lambda>c. write_PISCR (put_field 7 1 1 (PISCR c)) c) k;
          mickey = sys_mickey (ticks k) + 1;
          mackey = if mickey = 0 then sys_mackey (ticks k) + 1 else sys_mackey (ticks k)
      in k1\<lparr>ticks := \<lparr>sys_mickey = mickey, sys_mackey = mackey\<rparr>\<rparr>)"

definition systimer_Handler_2 :: "'a esc_kern_scheme \<Rightarrow> 'a esc_kern_scheme" where
  "systimer_Handler_2 k =
     (let k1 = upd_chip (\<lambda>c. write_PISCR (put_field 7 1 1 (PISCR c)) c) k
      in k1\<lparr>ticks := (ticks k)\<lparr>sys_mickey := sys_mickey (ticks k) + 1\<rparr>\<rparr>)"

definition systimer_Handler_3 :: "'a esc_kern_scheme \<Rightarrow> 'a esc_kern_scheme" where
  "systimer_Handler_3 k =
     (let k1 = upd_chip (\<lambda>c. write_PISCR (bitset PISCR_PS (PISCR c)) c) k
      in k1\<lparr>ticks := (ticks k)\<lparr>sys_mickey := sys_mickey (ticks k) + 1\<rparr>\<rparr>)"

text \<open>The external clock is selected (\<^verbatim>\<open>CLK_SRC_EXTCLK\<close>), and the clock is not prescaled.\<close>

definition systimer_init :: "'a esc_kern_scheme \<Rightarrow> 'a esc_kern_scheme" where
  "systimer_init k =
     (let piscr = \<lambda>lo w v c. write_PISCR (put_field lo w v (PISCR c)) c;
          k1 = k\<lparr>ticks := \<lparr>sys_mickey = 0, sys_mackey = 0\<rparr>\<rparr>;
          k2 = upd_chip (piscr 0 1 0) k1;
          k3 = upd_chip (\<lambda>c. write_PISCR (bitclear 15 (PISCR c)) c) k2;
          k4 = upd_chip (\<lambda>c. c\<lparr>SCCR := bitclear RTDIV (bitset RTSEL (SCCR c)), PITC := put_field 16 16 PERT (PITC c)\<rparr>) k3;
          k5 = upd_chip (piscr 8 8 Intrnl_3) k4;
          k6 = k5\<lparr>isr_table := (isr_table k5)(lvl_Intrnl_3 := Systimer_Handler_3)\<rparr>
      in upd_chip (\<lambda>c. piscr 0 1 1 (piscr 2 1 1 (piscr 1 1 1 (piscr 3 4 0 (piscr 7 1 1 c))))) k6)"

text \<open>\<^verbatim>\<open>(TmickS_high << 32) + TmickS_low\<close> times \<^verbatim>\<open>MRATIO\<close>, cut to the 32 bits of \<^verbatim>\<open>clock_t\<close>.\<close>

definition MRATIO :: "64 word" where "MRATIO = 1000000 div 1000"

definition ppc_clock :: "tick_t \<Rightarrow> 32 word" where
  "ppc_clock t = ucast ((push_bit 32 (ucast (sys_mackey t)) + ucast (sys_mickey t)) * MRATIO :: 64 word)"

section \<open>The communications module\<close>

definition CM_isr_install :: "nat \<Rightarrow> cm_handler \<Rightarrow> 'a esc_kern_scheme \<Rightarrow> (int \<times> 'a esc_kern_scheme) result" where
  "CM_isr_install level isr k = in_bounds (level < 32) (Inr (0, k\<lparr>cm_isr_table := (cm_isr_table k)(level := isr)\<rparr>))"

definition CM_init :: "'a esc_kern_scheme \<Rightarrow> 'a esc_kern_scheme result" where
  "CM_init k = andThen
     (tk_isr_install lvl_Intrnl_5 CM_Handler
       (upd_chip (\<lambda>c. c\<lparr>CICR := put_field 7 1 1 (put_field 13 3 5 (CICR c)), CIVR := put_field 0 1 1 (CIVR c)\<rparr>) k))
     (\<lambda>(_, k1). Inr k1)"

section \<open>Start-up of the processor and the board\<close>

text \<open>\<^verbatim>\<open>LVL3\<close>, \<^verbatim>\<open>IRQ3\<close> and \<^verbatim>\<open>LVL5\<close> of the mask.\<close>

definition exeptions_enable_cpu :: "'a esc_kern_scheme \<Rightarrow> 'a esc_kern_scheme" where
  "exeptions_enable_cpu k = upd_chip (\<lambda>c. (write_SIPEND 0 c)
     \<lparr>MSR_EE := True, EIE := True, SIMASK := bitset 11 (bitset 6 (bitset 7 (SIMASK c))), SIEL := 0xFFFF0000\<rparr>) k"

definition init_board_pins :: "mpc860 \<Rightarrow> mpc860" where
  "init_board_pins c = c\<lparr>PAPAR := 0,
     PADIR := bitset 8 (bitset 9 (bitset 10 (bitset 11 (PADIR c)))),
     PADAT := bitset 8 (bitset 9 (bitset 10 (bitset 11 (PADAT c)))),
     PBPAR := bitclear 18 (bitset 24 (bitset 25 (PBPAR c))),
     PBDIR := bitclear 18 (bitclear 24 (bitclear 25 (PBDIR c))),
     PBODR := bitclear 24 (bitclear 25 (PBODR c))\<rparr>"

section \<open>Diodes\<close>

datatype led_id = LED_1 | LED_2
datatype led_color = LED_GREEN | LED_RED

definition led_pin :: "led_id \<Rightarrow> led_color \<Rightarrow> nat" where
  "led_pin ident color =
     (if ident = LED_2 then (if color = LED_RED then 8 else 9) else (if color = LED_RED then 10 else 11))"

text \<open>A diode is lit when its pin is low.\<close>

definition led_on :: "led_id \<Rightarrow> led_color \<Rightarrow> 'a esc_kern_scheme \<Rightarrow> 'a esc_kern_scheme" where
  "led_on ident color k = upd_chip (\<lambda>c. c\<lparr>PADAT := bitclear (led_pin ident color) (PADAT c)\<rparr>) k"

definition led_off :: "led_id \<Rightarrow> led_color \<Rightarrow> 'a esc_kern_scheme \<Rightarrow> 'a esc_kern_scheme" where
  "led_off ident color k = upd_chip (\<lambda>c. c\<lparr>PADAT := bitset (led_pin ident color) (PADAT c)\<rparr>) k"

text \<open>The four devices differ in the status and the diode they stand for.\<close>

definition led_of :: "nat \<Rightarrow> led_id \<times> led_color" where
  "led_of n = (if n = 0 then (LED_1, LED_RED) else if n = 1 then (LED_1, LED_GREEN) else if n = 2 then (LED_2, LED_RED) else (LED_2, LED_GREEN))"

text \<open>
  Reading gives one, two or four bytes of the status, the most significant first; for another
  length the buffer stays as it is.
\<close>

definition led_read :: "nat \<Rightarrow> 8 word list \<Rightarrow> 'a esc_kern_scheme \<Rightarrow> int \<times> 8 word list" where
  "led_read n buf k = (int (length buf),
     case length buf of
       Suc 0 \<Rightarrow> [word_of_int (ledstat k n)]
     | Suc (Suc 0) \<Rightarrow> be_bytes 2 (word_of_int (ledstat k n) :: 16 word)
     | Suc (Suc (Suc (Suc 0))) \<Rightarrow> be_bytes 4 (word_of_int (ledstat k n) :: 32 word)
     | _ \<Rightarrow> buf)"

definition led_status :: "8 word list \<Rightarrow> int \<Rightarrow> int" where
  "led_status bs old = (if length bs = 1 \<or> length bs = 2 then uint (be_word bs :: 16 word)
     else if length bs = 4 then sint (be_word bs :: 32 word) else old)"

definition led_write :: "nat \<Rightarrow> 8 word list \<Rightarrow> 'a esc_kern_scheme \<Rightarrow> int \<times> 'a esc_kern_scheme" where
  "led_write n bs k =
     (let k1 = k\<lparr>ledstat := (ledstat k)(n := led_status bs (ledstat k n))\<rparr>; (ident, color) = led_of n
      in (int (length bs), if ledstat k1 n \<noteq> 0 then led_on ident color k1 else led_off ident color k1))"

end
