(* ===== verification/TkConsole.thy ===== *)
theory TkConsole
  imports TkBoard
begin

text \<open>
  The console of the ESC board, \<^verbatim>\<open>bsp/gnu_powerpc/board/ESC/console.c\<close>, and the system
  calls of the C library that are connected to it, \<^verbatim>\<open>bsp/gnu_powerpc/syscon.c\<close>. The serial
  controller puts characters into a buffer of its own; the interrupt handler moves them into a ring,
  which \<^verbatim>\<open>console_read\<close> reads when a line is complete. What the serial controller and the
  command processor do is a parameter where the code waits for it: whether a command is ever
  finished, and whether a buffer is sent while the writer sleeps is part of what other threads do.
\<close>

section \<open>State\<close>

record bd_smc_t =
  BD_Status :: "16 word"
  BD_Length :: "16 word"
  bd_buffer :: "8 word list"

record smc_t =
  SMCE1 :: "8 word"
  SMCM1 :: "8 word"
  SMCMR1 :: "16 word"
  CPCR :: "16 word"
  SDCR :: "32 word"
  BRGC1 :: "32 word"
  SIMODE :: "32 word"
  PLPRCR :: "32 word"
  RBASE :: "16 word"
  TBASE :: "16 word"
  RFCR :: "8 word"
  TFCR :: "8 word"
  MRBLR :: "16 word"
  MAX_IDL :: "16 word"
  R_MASK :: "16 word"
  BRKLN :: "16 word"
  BRKEC :: "16 word"
  BRKCR :: "16 word"
  RxBD :: bd_smc_t
  TxBD :: bd_smc_t

record con_kern = esc_kern +
  smc :: smc_t
  rx_char :: "nat \<Rightarrow> 8 word"
  rx_inIdx :: nat
  rx_outIdx :: nat
  con_rx_sem :: nat
  con_stdio_init :: bool
  nn_rx :: int
  nn_bsy :: int
  nn_brk :: int
  nn_brke :: int
  rx_ledstat :: bool

abbreviation upd_smc :: "(smc_t \<Rightarrow> smc_t) \<Rightarrow> 'a con_kern_scheme \<Rightarrow> 'a con_kern_scheme" where
  "upd_smc f k \<equiv> k\<lparr>smc := f (smc k)\<rparr>"

definition SMC_BD_RX_BUFFLEN :: nat where "SMC_BD_RX_BUFFLEN = 160"
definition SMC_BD_TX_BUFFLEN :: nat where "SMC_BD_TX_BUFFLEN = 160"
definition SMC_CHAR_BUFFLEN :: nat where "SMC_CHAR_BUFFLEN = 1024"
definition CHAN_SMC1 :: int where "CHAN_SMC1 = 9"
definition INIT_RX_PARAMS :: int where "INIT_RX_PARAMS = 1"
definition INIT_TX_PARAMS :: int where "INIT_TX_PARAMS = 2"
definition STOP_TX :: int where "STOP_TX = 4"
definition F_OSCCLK :: "32 word" where "F_OSCCLK = 4000000"
definition DP_BD_0_OFFS :: "16 word" where "DP_BD_0_OFFS = 0x800"

text \<open>
  The bits of the event register are cleared by writing ones to them.
\<close>

definition write_SMCE :: "8 word \<Rightarrow> smc_t \<Rightarrow> smc_t" where
  "write_SMCE v s = s\<lparr>SMCE1 := SMCE1 s AND NOT v\<rparr>"

text \<open>
  A command for the command processor: the code writes the operation and the channel, and leaves
  the flag zero. Waiting for the flag ends when it is zero or the processor clears it (\<open>clears\<close>).
\<close>

definition cp_command :: "int \<Rightarrow> 16 word" where
  "cp_command opcode = put_field 4 4 CHAN_SMC1 (put_field 8 4 opcode 0)"

definition wait_cp :: "bool \<Rightarrow> 'a con_kern_scheme \<Rightarrow> 'a con_kern_scheme result" where
  "wait_cp clears k = (if bit (CPCR (smc k)) 0
     then (if clears then Inr (upd_smc (\<lambda>s. s\<lparr>CPCR := put_field 0 1 0 (CPCR s)\<rparr>) k) else Inl Hangs)
     else Inr k)"

section \<open>Initialisation\<close>

text \<open>The divider of the baud rate generator, and whether it is divided by 16 once more.\<close>

definition brg_divider :: "smc_t \<Rightarrow> mpc860 \<Rightarrow> int \<Rightarrow> (32 word \<times> bool) result" where
  "brg_divider s c bpr =
     (let brgclk = (F_OSCCLK * (word_of_int (get_field 20 12 (PLPRCR s)) + 1)) div push_bit (nat (get_field 11 2 (SCCR c))) 1
      in if word_of_int bpr = (0 :: 32 word) then Inl Div_by_zero
         else let cd = brgclk div word_of_int bpr div 16 in Inr (if cd > 0xFFF then (drop_bit 4 cd, True) else (cd, False)))"

definition set_divider :: "32 word \<times> bool \<Rightarrow> smc_t \<Rightarrow> smc_t" where
  "set_divider d s = (case d of (cd, div16) \<Rightarrow>
     let r1 = put_field 17 1 1 (BRGC1 s); r2 = (if div16 then put_field 0 1 1 r1 else r1)
     in s\<lparr>BRGC1 := put_field 16 1 1 (put_field 1 12 (uint cd) r2)\<rparr>)"

definition clear_simode :: "32 word \<Rightarrow> 32 word" where
  "clear_simode r = fold (\<lambda>(lo, w) r. put_field lo w 0 r)
     [(15, 1), (12, 3), (10, 2), (8, 2), (7, 1), (6, 1), (5, 1), (4, 1), (3, 1), (2, 1), (0, 2)] r"

text \<open>The mode of the channel: character length, stop bits and parity (\<^verbatim>\<open>'E'\<close>, \<^verbatim>\<open>'O'\<close>, or none).\<close>

definition uart_mode :: "int \<Rightarrow> char \<Rightarrow> int \<Rightarrow> 16 word" where
  "uart_mode nr_bits par nr_stop =
     (let r1 = put_field 10 1 (nr_stop - 1) (put_field 4 2 2 0); clen = 1 + nr_bits + nr_stop;
          (r2, clen2) = (if par = CHR ''E'' then (put_field 8 1 1 (put_field 9 1 1 r1), clen + 1)
             else if par = CHR ''O'' then (put_field 8 1 0 (put_field 9 1 1 r1), clen + 1)
             else (put_field 9 1 0 r1, clen))
      in put_field 0 1 1 (put_field 1 1 1 (put_field 11 4 (clen2 - 1) r2)))"

definition init_params :: "smc_t \<Rightarrow> smc_t" where
  "init_params s = s\<lparr>SIMODE := clear_simode (SIMODE s), RBASE := DP_BD_0_OFFS, TBASE := DP_BD_0_OFFS + 8, CPCR := 0x0091, SDCR := 1,
     RFCR := put_field 0 3 0 (put_field 3 2 2 (RFCR s)), TFCR := put_field 0 3 0 (put_field 3 2 2 (TFCR s)),
     MRBLR := 1, MAX_IDL := 0, R_MASK := 0, BRKLN := 0, BRKEC := 0, BRKCR := 1,
     RxBD := (RxBD s)\<lparr>BD_Status := 0xB000, BD_Length := 0\<rparr>, TxBD := (TxBD s)\<lparr>BD_Status := 0xB000, BD_Length := 5\<rparr>\<rparr>"

definition enable_events :: "smc_t \<Rightarrow> smc_t" where
  "enable_events s = s\<lparr>SMCM1 := put_field 6 1 1 (put_field 4 1 1 (put_field 2 1 1 (put_field 1 1 0 (put_field 0 1 1 (SMCM1 s)))))\<rparr>"

text \<open>The greeting that is sent at the end.\<close>

definition send_buffer :: "8 word list \<Rightarrow> smc_t \<Rightarrow> smc_t" where
  "send_buffer bs s = s\<lparr>TxBD := (TxBD s)\<lparr>BD_Length := of_nat (length bs), bd_buffer := bs @ drop (length bs) (bd_buffer (TxBD s))\<rparr>\<rparr>"

definition greet :: "bool \<Rightarrow> 8 word list \<Rightarrow> 'a con_kern_scheme \<Rightarrow> 'a con_kern_scheme result" where
  "greet clears text k =
     (let k1 = upd_smc (\<lambda>s. send_buffer text (s\<lparr>SMCMR1 := put_field 1 1 0 (SMCMR1 s)\<rparr>)) k;
          k2 = upd_smc (\<lambda>s. s\<lparr>TxBD := (TxBD s)\<lparr>BD_Status := put_field 15 1 1 (BD_Status (TxBD s))\<rparr>, CPCR := cp_command INIT_TX_PARAMS\<rparr>) k1
      in andThen (wait_cp clears k2) (\<lambda>k3. Inr (upd_smc (\<lambda>s. s\<lparr>SMCMR1 := put_field 1 1 1 (SMCMR1 s)\<rparr>) k3)))"

definition console_init :: "bool \<Rightarrow> 8 word list \<Rightarrow> int \<Rightarrow> int \<Rightarrow> char \<Rightarrow> int \<Rightarrow> 'a con_kern_scheme \<Rightarrow> (int \<times> 'a con_kern_scheme) result" where
  "console_init clears text bpr nr_bits par nr_stop k =
     andThen (brg_divider (smc k) (chip k) bpr) (\<lambda>d.
       let k1 = upd_smc (\<lambda>s. init_params (set_divider d (s\<lparr>RxBD := (RxBD s)\<lparr>bd_buffer := replicate SMC_BD_RX_BUFFLEN 0x52\<rparr>,
           TxBD := (TxBD s)\<lparr>bd_buffer := replicate SMC_BD_TX_BUFFLEN 0x54\<rparr>\<rparr>))) k
       in andThen (CM_isr_install cmid_SMC1 Console_Handler k1) (\<lambda>(_, k2).
         let k3 = upd_chip (\<lambda>c. c\<lparr>CIMR := 0x10\<rparr>) (upd_smc (\<lambda>s. enable_events (write_SMCE 0xFF s)) k2);
             k4 = upd_smc (\<lambda>s. s\<lparr>SMCMR1 := uart_mode nr_bits par nr_stop\<rparr>) k3
         in andThen (greet clears text k4) (\<lambda>k5. Inr (0, k5))))"

section \<open>Writing\<close>

text \<open>Sleeping until the buffer that is being sent is free again.\<close>

partial_function (option) wait_sent :: "('a con_kern_scheme \<Rightarrow> 'a con_kern_scheme result) \<Rightarrow> 'a con_kern_scheme \<Rightarrow> 'a con_kern_scheme result option" where
  "wait_sent sleep k =
     (if bit (BD_Status (TxBD (smc k))) 15
      then (case sleep k of Inl e \<Rightarrow> Some (Inl e) | Inr k1 \<Rightarrow> wait_sent sleep k1) else Some (Inr k))"

text \<open>What follows the waiting; the wait for the event \<^verbatim>\<open>TX\<close> is bounded and changes nothing.\<close>

definition start_sending :: "bool \<Rightarrow> 8 word list \<Rightarrow> 'a con_kern_scheme \<Rightarrow> 'a con_kern_scheme result" where
  "start_sending clears bs k =
     andThen (wait_cp clears (upd_smc (send_buffer bs) k)) (\<lambda>k1.
       andThen (wait_cp clears (upd_smc (\<lambda>s. s\<lparr>CPCR := cp_command STOP_TX\<rparr>) k1)) (\<lambda>k2.
         Inr (upd_smc (\<lambda>s. write_SMCE 2 (s\<lparr>TxBD := (TxBD s)\<lparr>BD_Status := put_field 15 1 1 (BD_Status (TxBD s))\<rparr>,
           CPCR := cp_command INIT_TX_PARAMS\<rparr>)) k2)))"

text \<open>A buffer that is too long is not sent, but its length is returned all the same.\<close>

definition console_write :: "('a con_kern_scheme \<Rightarrow> 'a con_kern_scheme result) \<Rightarrow> bool \<Rightarrow> 8 word list \<Rightarrow> 'a con_kern_scheme \<Rightarrow>
  (int \<times> 'a con_kern_scheme) result option" where
  "console_write sleep clears bs k =
     (if length bs \<le> SMC_BD_TX_BUFFLEN
      then map_option (\<lambda>r. andThen r (\<lambda>k1. andThen (start_sending clears bs k1) (\<lambda>k2. Inr (int (length bs), k2)))) (wait_sent sleep k)
      else Some (Inr (int (length bs), k)))"

text \<open>The version for emergencies waits a bounded time for the buffer, whether it is sent or not.\<close>

definition tk_console_write_emergency :: "bool \<Rightarrow> 8 word list \<Rightarrow> 'a con_kern_scheme \<Rightarrow> (int \<times> 'a con_kern_scheme) result" where
  "tk_console_write_emergency clears bs k =
     (if length bs \<le> SMC_BD_TX_BUFFLEN then andThen (start_sending clears bs k) (\<lambda>k1. Inr (int (length bs), k1))
      else Inr (int (length bs), k))"

section \<open>Reading\<close>

text \<open>\<^verbatim>\<open>m1\<close> and \<^verbatim>\<open>m2\<close> are what the creation of the semaphore gets from \<^verbatim>\<open>malloc\<close>.\<close>

definition console_stdio_init :: "itc_t option \<Rightarrow> bool \<Rightarrow> 'a con_kern_scheme \<Rightarrow> 'a con_kern_scheme result" where
  "console_stdio_init m1 m2 k =
     andThen (sem_init m1 m2 (con_rx_sem k) 0 0 (k\<lparr>con_stdio_init := True\<rparr>)) (\<lambda>(rc, sem, k1).
       c_assert (rc = 0) (Inr (k1\<lparr>con_rx_sem := sem\<rparr>)))"

definition rx_slice :: "nat \<Rightarrow> 'a con_kern_scheme \<Rightarrow> 8 word list" where
  "rx_slice n k = map (rx_char k) [rx_outIdx k..<rx_outIdx k + n]"

text \<open>
  The result, and the bytes that are stored from the start of the buffer. A line that is read to its
  end gets a zero behind it, even when it fills the buffer.
\<close>

definition take_chars :: "nat \<Rightarrow> 'a con_kern_scheme \<Rightarrow> (int \<times> 8 word list \<times> 'a con_kern_scheme) result" where
  "take_chars max_len k =
     (if rx_outIdx k < rx_inIdx k
      then let total = rx_inIdx k - rx_outIdx k in
        if total \<le> max_len
        then in_bounds (rx_outIdx k + total \<le> SMC_CHAR_BUFFLEN \<and> total < max_len)
          (Inr (int total, rx_slice total k @ [0], k\<lparr>rx_outIdx := (rx_outIdx k + total) mod SMC_CHAR_BUFFLEN\<rparr>))
        else in_bounds (rx_outIdx k + max_len \<le> SMC_CHAR_BUFFLEN)
          (Inr (int max_len, rx_slice max_len k, k\<lparr>rx_outIdx := (rx_outIdx k + max_len) mod SMC_CHAR_BUFFLEN\<rparr>))
      else Inr (0, [], k))"

definition console_read :: "(thid_t \<Rightarrow> 'a con_kern_scheme \<Rightarrow> 'a con_kern_scheme result) \<Rightarrow> nat \<Rightarrow> 'a con_kern_scheme \<Rightarrow> (int \<times> 8 word list \<times> 'a con_kern_scheme) result" where
  "console_read oth max_len k = c_assert (con_stdio_init k)
     (andThen (sem_wait oth (con_rx_sem k) k) (\<lambda>(_, k1). take_chars max_len k1))"

section \<open>Interrupts\<close>

text \<open>
  The handler of received characters: the buffer of the controller goes into the ring, the
  controller is told to go on, the green diode changes, and a carriage return wakes the reader.
\<close>

definition put_chars :: "8 word list \<Rightarrow> 'a con_kern_scheme \<Rightarrow> 'a con_kern_scheme" where
  "put_chars bs k = k\<lparr>rx_char := (\<lambda>i. if rx_inIdx k \<le> i \<and> i < rx_inIdx k + length bs then bs ! (i - rx_inIdx k) else rx_char k i),
     rx_inIdx := (rx_inIdx k + length bs) mod SMC_CHAR_BUFFLEN\<rparr>"

definition toggle_led :: "'a con_kern_scheme \<Rightarrow> 'a con_kern_scheme" where
  "toggle_led k = (if rx_ledstat k then led_off LED_1 LED_GREEN (k\<lparr>rx_ledstat := False\<rparr>)
     else led_on LED_1 LED_GREEN (k\<lparr>rx_ledstat := True\<rparr>))"

definition console_rx_handler :: "(thid_t \<Rightarrow> thid_t) \<Rightarrow> (thid_t \<Rightarrow> 'a con_kern_scheme \<Rightarrow> 'a con_kern_scheme result) \<Rightarrow> bool \<Rightarrow>
  'a con_kern_scheme \<Rightarrow> 'a con_kern_scheme result" where
  "console_rx_handler addr oth clears k =
     (let k1 = upd_smc (\<lambda>s. s\<lparr>SMCMR1 := put_field 0 1 0 (SMCMR1 s)\<rparr>) k;
          len = unat (BD_Length (RxBD (smc k))); bs = take len (bd_buffer (RxBD (smc k)))
      in in_bounds (rx_inIdx k + len \<le> SMC_CHAR_BUFFLEN \<and> len \<le> length (bd_buffer (RxBD (smc k))))
        (let k2 = put_chars bs (upd_smc (\<lambda>s. s\<lparr>RxBD := (RxBD s)\<lparr>BD_Status := put_field 15 1 1 (BD_Status (RxBD s))\<rparr>\<rparr>) k1)
         in andThen (wait_cp clears k2) (\<lambda>k3.
           let k4 = toggle_led (upd_smc (\<lambda>s. s\<lparr>CPCR := cp_command INIT_RX_PARAMS, SMCMR1 := put_field 0 1 1 (SMCMR1 s)\<rparr>) k3)
           in if 0x0D \<in> set bs then andThen (sem_post addr oth (con_rx_sem k4) k4) (\<lambda>(_, k5). Inr k5) else Inr k4)))"

text \<open>The handlers of the other events assert a string that is not null, against zero.\<close>

definition console_bsy_handler :: "'a con_kern_scheme \<Rightarrow> 'a con_kern_scheme result" where
  "console_bsy_handler k = c_assert False (Inr k)"

definition console_brk_handler :: "'a con_kern_scheme \<Rightarrow> 'a con_kern_scheme result" where
  "console_brk_handler k = c_assert False (Inr k)"

definition console_brke_handler :: "'a con_kern_scheme \<Rightarrow> 'a con_kern_scheme result" where
  "console_brke_handler k = c_assert False (Inr k)"

text \<open>One event: it is counted and acknowledged before its handler runs.\<close>

definition on_event :: "8 word \<Rightarrow> nat \<Rightarrow> ('a con_kern_scheme \<Rightarrow> 'a con_kern_scheme) \<Rightarrow>
  ('a con_kern_scheme \<Rightarrow> 'a con_kern_scheme result) \<Rightarrow> 'a con_kern_scheme \<Rightarrow> 'a con_kern_scheme result" where
  "on_event smce1 b count h k = (if bit smce1 b then h (upd_smc (\<lambda>s. write_SMCE (put_field b 1 1 (SMCE1 s)) s) (count k)) else Inr k)"

definition console_Handler :: "(thid_t \<Rightarrow> thid_t) \<Rightarrow> (thid_t \<Rightarrow> 'a con_kern_scheme \<Rightarrow> 'a con_kern_scheme result) \<Rightarrow> bool \<Rightarrow>
  'a con_kern_scheme \<Rightarrow> 'a con_kern_scheme result" where
  "console_Handler addr oth clears k =
     (let e = SMCE1 (smc k) in
      andThen (on_event e 0 (\<lambda>k. k\<lparr>nn_rx := nn_rx k + 1\<rparr>) (console_rx_handler addr oth clears) k) (\<lambda>k1.
      andThen (on_event e 2 (\<lambda>k. k\<lparr>nn_bsy := nn_bsy k + 1\<rparr>) console_bsy_handler k1) (\<lambda>k2.
      andThen (on_event e 4 (\<lambda>k. k\<lparr>nn_brk := nn_brk k + 1\<rparr>) console_brk_handler k2) (\<lambda>k3.
        on_event e 6 (\<lambda>k. k\<lparr>nn_brke := nn_brke k + 1\<rparr>) console_brke_handler k3))))"

text \<open>
  The second level of interrupts: acknowledging makes the chip say which source it is (\<open>vn\<close>, five
  bits).
\<close>

definition CM_default :: "'a con_kern_scheme \<Rightarrow> 'a con_kern_scheme" where
  "CM_default k = k\<lparr>CM_default_nn := CM_default_nn k + 1\<rparr>"

definition CM_handler :: "(thid_t \<Rightarrow> thid_t) \<Rightarrow> (thid_t \<Rightarrow> 'a con_kern_scheme \<Rightarrow> 'a con_kern_scheme result) \<Rightarrow> bool \<Rightarrow> nat \<Rightarrow>
  'a con_kern_scheme \<Rightarrow> 'a con_kern_scheme result" where
  "CM_handler addr oth clears vn k =
     (let k1 = upd_chip (\<lambda>c. c\<lparr>CIVR := put_field 11 5 (int vn) (put_field 0 1 1 (CIVR c))\<rparr>) k
      in andThen (case cm_isr_table k1 vn of CM_default_handler \<Rightarrow> Inr (CM_default k1) | Console_Handler \<Rightarrow> console_Handler addr oth clears k1)
        (\<lambda>k2. Inr (upd_chip (\<lambda>c. c\<lparr>CISR := CISR c OR push_bit vn 1\<rparr>) k2)))"

section \<open>The system calls of the library\<close>

text \<open>\<^verbatim>\<open>ptr[len - 1]\<close> is read for an empty buffer, too.\<close>

definition ppc_write :: "('a con_kern_scheme \<Rightarrow> 'a con_kern_scheme result) \<Rightarrow> bool \<Rightarrow> int \<Rightarrow> 8 word list \<Rightarrow> 'a con_kern_scheme \<Rightarrow>
  (int \<times> 'a con_kern_scheme) result option" where
  "ppc_write sleep clears file bs k = (case console_write sleep clears bs k of
       None \<Rightarrow> None | Some (Inl e) \<Rightarrow> Some (Inl e)
     | Some (Inr (_, k1)) \<Rightarrow>
         if bs = [] then Some (Inl Out_of_bounds)
         else if last bs = 0x0A
         then map_option (\<lambda>r. andThen r (\<lambda>(_, k2). Inr (int (length bs), k2))) (console_write sleep clears [0x0D] k1)
         else Some (Inr (int (length bs), k1)))"

definition ppc_read :: "(thid_t \<Rightarrow> 'a con_kern_scheme \<Rightarrow> 'a con_kern_scheme result) \<Rightarrow> itc_t option \<Rightarrow> bool \<Rightarrow> int \<Rightarrow> nat \<Rightarrow>
  'a con_kern_scheme \<Rightarrow> (int \<times> 8 word list \<times> 'a con_kern_scheme) result" where
  "ppc_read oth m1 m2 file len k =
     andThen (if con_stdio_init k then Inr k else console_stdio_init m1 m2 k) (console_read oth len)"

text \<open>\<^verbatim>\<open>heap_end\<close> is null before the first call; nothing bounds the heap.\<close>

definition ppc_sbrk :: "int \<Rightarrow> 32 word \<Rightarrow> 32 word \<times> 32 word" where
  "ppc_sbrk incr heap_end = (let h = (if heap_end = 0 then 0x10080000 else heap_end) in (h, h + word_of_int incr))"

record tms =
  tms_utime :: "32 word"
  tms_stime :: "32 word"
  tms_cutime :: "32 word"
  tms_cstime :: "32 word"

definition ppc_times :: "tick_t \<Rightarrow> tms option \<Rightarrow> 32 word \<times> tms option" where
  "ppc_times t buf = (let up = ppc_clock t in
     (up, map_option (\<lambda>_. \<lparr>tms_utime = up, tms_stime = 0, tms_cutime = 0, tms_cstime = 0\<rparr>) buf))"

end
