(* ===== verification/TkCan.thy ===== *)
theory TkCan
  imports TkConsole "HOL-Library.Signed_Division"
begin

text \<open>
  The driver of the CAN controller SJA1000, \<^verbatim>\<open>bsp/drivers/can/sja1000.c\<close>, and the
  interrupts of the ESC board that it hangs on, \<^verbatim>\<open>bsp/gnu_powerpc/CPU/860/isr.c\<close>. The
  registers are bytes at the addresses of the data sheet, with the fields of
  \<^verbatim>\<open>sja1000_pelican.h\<close> and \<^verbatim>\<open>sja1000_common.h\<close>, most significant bit first.
  A frame is its 13 bytes: an information byte, then the union of the two formats.
\<close>

section \<open>State\<close>

record icntr_t =
  n_BEI :: "32 word"
  n_ALI :: "32 word"
  n_EPI :: "32 word"
  n_WUI :: "32 word"
  n_DOI :: "32 word"
  n_EI :: "32 word"
  n_TI :: "32 word"
  n_RI :: "32 word"

record can_kern = con_kern +
  can_regs :: "nat \<Rightarrow> 8 word"
  can_pmode :: int
  can_xmode :: bool
  can_IRQ :: nat
  can_RxBuff :: "nat \<Rightarrow> 8 word list"
  can_rxidx_in :: nat
  can_rxidx_out :: nat
  can_nrx :: int
  can_rx_sem :: nat
  icntr :: icntr_t

definition CAN_RX_BUFFSZ :: nat where "CAN_RX_BUFFSZ = 0x1000"
definition f_xtal :: int where "f_xtal = 48000000"
definition FRAME_SIZE :: nat where "FRAME_SIZE = 13"

text \<open>Addresses of the registers.\<close>

definition R_MOD :: nat where "R_MOD = 0"
definition R_CMR :: nat where "R_CMR = 1"
definition R_SR :: nat where "R_SR = 2"
definition R_IR :: nat where "R_IR = 3"
definition R_IER :: nat where "R_IER = 4"
definition R_BTR0 :: nat where "R_BTR0 = 6"
definition R_BTR1 :: nat where "R_BTR1 = 7"
definition R_OCR :: nat where "R_OCR = 8"
definition R_FRACC :: nat where "R_FRACC = 16"
definition R_CDR :: nat where "R_CDR = 31"

text \<open>Assigning to a field of a register, and to a run of bytes.\<close>

definition set_reg :: "nat \<Rightarrow> nat \<Rightarrow> nat \<Rightarrow> int \<Rightarrow> (nat \<Rightarrow> 8 word) \<Rightarrow> nat \<Rightarrow> 8 word" where
  "set_reg a lo w v r = r(a := put_field lo w v (r a))"

definition set_bytes :: "nat \<Rightarrow> 8 word list \<Rightarrow> (nat \<Rightarrow> 8 word) \<Rightarrow> nat \<Rightarrow> 8 word" where
  "set_bytes a bs r i = (if a \<le> i \<and> i < a + length bs then bs ! (i - a) else r i)"

definition get_bytes_at :: "nat \<Rightarrow> nat \<Rightarrow> (nat \<Rightarrow> 8 word) \<Rightarrow> 8 word list" where
  "get_bytes_at a n r = map r [a..<a + n]"

abbreviation upd_regs :: "((nat \<Rightarrow> 8 word) \<Rightarrow> nat \<Rightarrow> 8 word) \<Rightarrow> 'a can_kern_scheme \<Rightarrow> 'a can_kern_scheme" where
  "upd_regs f k \<equiv> k\<lparr>can_regs := f (can_regs k)\<rparr>"

section \<open>Initialisation\<close>

text \<open>
  The registers that are written in reset mode, in the order of the code; the fields of a register
  are given by the number of bits behind them and their width.
\<close>

definition reset_regs :: "int \<Rightarrow> bool \<Rightarrow> 32 word \<Rightarrow> 32 word \<Rightarrow> (nat \<Rightarrow> 8 word) \<Rightarrow> nat \<Rightarrow> 8 word" where
  "reset_regs pmode xmode ac am r =
     (let r1 = fold (\<lambda>(a, lo, w, v) r. set_reg a lo w v r)
        [(R_MOD, 0, 1, 1), (R_CDR, 7, 1, pmode), (R_CDR, 6, 1, 1), (R_CDR, 5, 1, 0), (R_CDR, 0, 3, 0), (R_CDR, 3, 1, 0), (R_MOD, 3, 1, 1)] r;
          r2 = set_bytes (R_FRACC + 4) (be_bytes 4 am) (set_bytes R_FRACC (be_bytes 4 ac) r1);
          r3 = fold (\<lambda>(a, lo, w, v) r. set_reg a lo w v r)
        [(R_BTR0, 0, 6, 1), (R_BTR0, 6, 2, 2), (R_BTR1, 7, 1, 0), (R_BTR1, 4, 3, 2), (R_BTR1, 0, 4, 5), (R_BTR1, 0, 4, 3),
         (R_OCR, 0, 2, 2), (R_OCR, 4, 1, 1), (R_OCR, 3, 1, 1), (R_OCR, 2, 1, 0), (R_OCR, 7, 1, 1), (R_OCR, 6, 1, 1), (R_OCR, 5, 1, 1)] r2;
          m = be_word (get_bytes_at (R_FRACC + 4) 4 r3) :: 32 word;
          r4 = set_bytes (R_FRACC + 4) (be_bytes 4 (m OR (if xmode then 0x00000003 else 0x000F0000))) r3
      in r4(R_OCR := 0xDB))"

definition enable_irqs :: "(nat \<Rightarrow> 8 word) \<Rightarrow> nat \<Rightarrow> 8 word" where
  "enable_irqs r = fold (\<lambda>lo r. set_reg R_IER lo 1 1 r) [7, 6, 5, 4, 3, 2, 1, 0] r"

text \<open>
  Leaving the reset mode: \<open>rm n\<close> is what the \<open>n\<close>-th look at the mode bit shows. The counter of the
  attempts is a variable of the body of the loop, which sets it to zero in every round, so it never
  exceeds its limit.
\<close>

partial_function (option) leave_reset :: "(nat \<Rightarrow> bool) \<Rightarrow> nat \<Rightarrow> (nat \<Rightarrow> 8 word) \<Rightarrow> (nat \<Rightarrow> 8 word) option" where
  "leave_reset rm n r = (if rm n then leave_reset rm (Suc n) (set_reg R_MOD 0 1 0 r) else Some r)"

definition start_commands :: "(nat \<Rightarrow> 8 word) \<Rightarrow> nat \<Rightarrow> 8 word" where
  "start_commands r = set_reg R_CMR 2 1 1 (set_reg R_CMR 3 1 1 (set_reg R_CMR 1 1 1 r))"

definition sja1000_init :: "itc_t option \<Rightarrow> bool \<Rightarrow> (nat \<Rightarrow> bool) \<Rightarrow> nat \<Rightarrow> int \<Rightarrow> bool \<Rightarrow> int \<Rightarrow> 32 word \<Rightarrow> 32 word \<Rightarrow>
  'a can_kern_scheme \<Rightarrow> (int \<times> 'a can_kern_scheme) result option" where
  "sja1000_init m1 m2 rm IRQn pmode xmode bps ac am k =
     (let k0 = k\<lparr>can_pmode := pmode, can_xmode := xmode\<rparr>;
          start = c_assert (pmode = 1) (andThen (sem_init m1 m2 (can_rx_sem k0) 0 0 k0) (\<lambda>(rc, sem, k1).
            c_assert (rc = 0) (if bps = 0 then Inl Div_by_zero
              else c_assert (f_xtal sdiv (bps * 2) - 1 < 0x40)
               (andThen (tk_isr_install IRQn Sja1000_Handler ((upd_regs (reset_regs pmode xmode ac am) k1)
                  \<lparr>can_rx_sem := sem, can_IRQ := IRQn, icntr := \<lparr>n_BEI = 0, n_ALI = 0, n_EPI = 0, n_WUI = 0, n_DOI = 0, n_EI = 0, n_TI = 0, n_RI = 0\<rparr>\<rparr>))
                 (\<lambda>(_, k2). Inr (upd_regs enable_irqs k2))))))
      in case start of Inl e \<Rightarrow> Some (Inl e)
         | Inr k3 \<Rightarrow> map_option (\<lambda>r. Inr (0, k3\<lparr>can_regs := start_commands r\<rparr>)) (leave_reset rm 0 (can_regs k3)))"

section \<open>Frames\<close>

definition fr_FF :: "8 word list \<Rightarrow> bool" where
  "fr_FF f = bit (f ! 0) 7"

definition fr_DLC :: "8 word list \<Rightarrow> nat" where
  "fr_DLC f = nat (get_field 0 4 (f ! 0))"

definition EFF_id :: "8 word list \<Rightarrow> 32 word" where
  "EFF_id f = drop_bit 3 (be_word (take 4 (drop 1 f)))"

definition SFF_id :: "8 word list \<Rightarrow> 16 word" where
  "SFF_id f = drop_bit 5 (be_word (take 2 (drop 1 f)))"

text \<open>The data begins behind the identifier of its format.\<close>

definition EFF_data :: nat where "EFF_data = 5"
definition SFF_data :: nat where "SFF_data = 3"

section \<open>Receiving\<close>

text \<open>What a reader gets: the identifier in four bytes, and the data; copying more than the frame holds runs out of it.\<close>

definition unpack_frame :: "8 word list \<Rightarrow> 8 word list result" where
  "unpack_frame f = (let dlc = fr_DLC f; off = (if fr_FF f then EFF_data else SFF_data) in
     in_bounds (off + dlc \<le> FRAME_SIZE)
       (Inr (be_bytes 4 (if fr_FF f then EFF_id f else ucast (SFF_id f)) @ take dlc (drop off f))))"

definition take_frame :: "nat \<Rightarrow> 'a can_kern_scheme \<Rightarrow> (int \<times> 8 word list \<times> 'a can_kern_scheme) result" where
  "take_frame buff_len k =
     (let f = can_RxBuff k (can_rxidx_out k); psz = fr_DLC f + 4 in
      c_assert (psz \<le> buff_len) (andThen (unpack_frame f) (\<lambda>bs.
        Inr (int psz, bs, (upd_regs (\<lambda>r. set_reg R_IER 0 1 1 (set_reg R_IER 0 1 0 r)) k)
          \<lparr>can_rxidx_out := (can_rxidx_out k + 1) mod CAN_RX_BUFFSZ, can_nrx := can_nrx k - 1\<rparr>))))"

definition sja1000_read :: "(thid_t \<Rightarrow> 'a can_kern_scheme \<Rightarrow> 'a can_kern_scheme result) \<Rightarrow> nat \<Rightarrow> 'a can_kern_scheme \<Rightarrow>
  (int \<times> 8 word list \<times> 'a can_kern_scheme) result" where
  "sja1000_read oth buff_len k =
     (let k1 = upd_regs (\<lambda>r. set_reg R_IER 0 1 1 (set_reg R_IER 0 1 0 r)) k in
      c_assert (can_nrx k < int CAN_RX_BUFFSZ)
       (andThen (sem_wait oth (can_rx_sem k1) k1) (\<lambda>(_, k2). take_frame buff_len k2)))"

section \<open>Sending\<close>

text \<open>
  The frame that is made of a package on the stack, over what was there before (\<open>junk\<close>). The data
  of a basic frame is stored where an extended frame has it.
\<close>

definition copy_data :: "8 word list \<Rightarrow> 8 word list \<Rightarrow> 8 word list result" where
  "copy_data bs f = in_bounds (EFF_data + length bs \<le> FRAME_SIZE) (Inr (take EFF_data f @ bs @ drop (EFF_data + length bs) f))"

definition pack_frame :: "bool \<Rightarrow> 8 word list \<Rightarrow> 8 word list \<Rightarrow> 8 word list result" where
  "pack_frame xmode junk buf =
     (if xmode
      then c_assert (4 \<le> length buf) (copy_data (drop 4 buf)
        ([put_field 0 4 (int (length buf) - 4) 0x80] @ be_bytes 4 (push_bit 3 (be_word (take 4 buf)) :: 32 word) @ drop 5 junk))
      else c_assert (2 \<le> length buf) (copy_data (drop 2 buf)
        ([put_field 0 4 (int (length buf) - 2) 0] @ be_bytes 2 (push_bit 5 (be_word (take 2 buf)) :: 16 word) @ drop 3 junk)))"

text \<open>Waiting for the transmit buffer, bit \<^verbatim>\<open>TBS\<close> of the status, while other threads run.\<close>

partial_function (option) wait_TBS :: "(thid_t \<Rightarrow> 'a can_kern_scheme \<Rightarrow> 'a can_kern_scheme result) \<Rightarrow> 'a can_kern_scheme \<Rightarrow>
  'a can_kern_scheme result option" where
  "wait_TBS oth k = (if bit (can_regs k R_SR) 2 then Some (Inr k)
     else (case tk_msleep oth 1 k of Inl e \<Rightarrow> Some (Inl e) | Inr k1 \<Rightarrow> wait_TBS oth k1))"

definition sja1000_write :: "(thid_t \<Rightarrow> 'a can_kern_scheme \<Rightarrow> 'a can_kern_scheme result) \<Rightarrow> 8 word list \<Rightarrow> 8 word list \<Rightarrow> 'a can_kern_scheme \<Rightarrow>
  (int \<times> 'a can_kern_scheme) result option" where
  "sja1000_write oth junk buf k = map_option (\<lambda>r. andThen r (\<lambda>k1. andThen (pack_frame (can_xmode k1) junk buf) (\<lambda>f.
     Inr (0, upd_regs (\<lambda>r. set_reg R_CMR 0 1 1 (set_bytes R_FRACC f r)) k1)))) (wait_TBS oth k)"

section \<open>Interrupts of the controller\<close>

definition count_irq :: "(icntr_t \<Rightarrow> icntr_t) \<Rightarrow> 'a can_kern_scheme \<Rightarrow> 'a can_kern_scheme" where
  "count_irq f k = k\<lparr>icntr := f (icntr k)\<rparr>"

text \<open>
  The handlers write a line on the console, with the version for emergencies
  (\<^verbatim>\<open>TK_USE_EMRGCY_CONSOLE\<close>), and count.
\<close>

definition con_write :: "bool \<Rightarrow> string \<Rightarrow> 'a can_kern_scheme \<Rightarrow> 'a can_kern_scheme result" where
  "con_write clears x k = andThen (tk_console_write_emergency clears (map of_char x) k) (\<lambda>(_, k1). Inr k1)"

definition CRLF :: string where "CRLF = [CHR 0x0D, CHR 0x0A]"

definition isr_BEI :: "bool \<Rightarrow> 'a can_kern_scheme \<Rightarrow> 'a can_kern_scheme result" where
  "isr_BEI clears k = andThen (con_write clears (''SJA1000: Bus Error Interrupt'' @ CRLF) k)
     (\<lambda>k1. Inr (count_irq (\<lambda>c. c\<lparr>n_BEI := n_BEI c + 1\<rparr>) k1))"

definition isr_ALI :: "bool \<Rightarrow> 'a can_kern_scheme \<Rightarrow> 'a can_kern_scheme result" where
  "isr_ALI clears k = andThen (con_write clears (''SJA1000: Arbitration Lost Interrupt'' @ CRLF) k)
     (\<lambda>k1. Inr (count_irq (\<lambda>c. c\<lparr>n_ALI := n_ALI c + 1\<rparr>) k1))"

definition isr_EPI :: "bool \<Rightarrow> 'a can_kern_scheme \<Rightarrow> 'a can_kern_scheme result" where
  "isr_EPI clears k = andThen (con_write clears (''SJA1000: Error Passive Interrupt'' @ CRLF) k)
     (\<lambda>k1. Inr (count_irq (\<lambda>c. c\<lparr>n_EPI := n_EPI c + 1\<rparr>) k1))"

definition isr_WUI :: "bool \<Rightarrow> 'a can_kern_scheme \<Rightarrow> 'a can_kern_scheme result" where
  "isr_WUI clears k = andThen (con_write clears (''SJA1000: Wake-Up Interrupt'' @ CRLF) k)
     (\<lambda>k1. Inr (count_irq (\<lambda>c. c\<lparr>n_WUI := n_WUI c + 1\<rparr>) k1))"

definition isr_DOI :: "bool \<Rightarrow> 'a can_kern_scheme \<Rightarrow> 'a can_kern_scheme result" where
  "isr_DOI clears k = andThen (con_write clears (''SJA1000: Data Overrun Interrupt'' @ CRLF) (upd_regs (set_reg R_CMR 3 1 1) k))
     (\<lambda>k1. Inr (count_irq (\<lambda>c. c\<lparr>n_DOI := n_DOI c + 1\<rparr>) k1))"

definition isr_EI :: "bool \<Rightarrow> 'a can_kern_scheme \<Rightarrow> 'a can_kern_scheme result" where
  "isr_EI clears k = andThen (con_write clears (''SJA1000: Error Warning Interrupt'' @ CRLF) k)
     (\<lambda>k1. Inr (count_irq (\<lambda>c. c\<lparr>n_EI := n_EI c + 1\<rparr>) k1))"

definition isr_TI :: "'a can_kern_scheme \<Rightarrow> 'a can_kern_scheme result" where
  "isr_TI k = Inr (count_irq (\<lambda>c. c\<lparr>n_TI := n_TI c + 1\<rparr>) k)"

text \<open>A frame arrived: the receive buffer of the controller goes into the ring.\<close>

definition isr_RI :: "(thid_t \<Rightarrow> thid_t) \<Rightarrow> (thid_t \<Rightarrow> 'a can_kern_scheme \<Rightarrow> 'a can_kern_scheme result) \<Rightarrow> 'a can_kern_scheme \<Rightarrow>
  'a can_kern_scheme result" where
  "isr_RI addr oth k =
     (let k1 = (count_irq (\<lambda>c. c\<lparr>n_RI := n_RI c + 1\<rparr>) k)\<lparr>can_nrx := can_nrx k + 1\<rparr> in
      c_assert (can_nrx k1 < int CAN_RX_BUFFSZ)
       (let k2 = (upd_regs (set_reg R_CMR 2 1 1) k1)\<lparr>
              can_RxBuff := (can_RxBuff k1)(can_rxidx_in k1 := get_bytes_at R_FRACC FRAME_SIZE (can_regs k1)),
              can_rxidx_in := (can_rxidx_in k1 + 1) mod CAN_RX_BUFFSZ\<rparr>
        in andThen (sem_post addr oth (can_rx_sem k2) k2) (\<lambda>(_, k3). Inr k3)))"

definition sja1000_Handler :: "(thid_t \<Rightarrow> thid_t) \<Rightarrow> (thid_t \<Rightarrow> 'a can_kern_scheme \<Rightarrow> 'a can_kern_scheme result) \<Rightarrow> bool \<Rightarrow>
  'a can_kern_scheme \<Rightarrow> 'a can_kern_scheme result" where
  "sja1000_Handler addr oth clears k =
     (let ir = can_regs k R_IR
      in andThen (foldR (\<lambda>(b, h) k. if bit ir b then h k else Inr k)
            [(7, isr_BEI clears), (6, isr_ALI clears), (5, isr_EPI clears), (4, isr_WUI clears), (3, isr_DOI clears), (2, isr_EI clears),
             (1, isr_TI), (0, isr_RI addr oth)] k)
          (\<lambda>k1. Inr (upd_chip (tk_isr_eoi (can_IRQ k1)) k1)))"

section \<open>External interrupts\<close>

definition MAXIMUN_PENDING_ISR :: int where "MAXIMUN_PENDING_ISR = 10"

definition run_handler :: "(thid_t \<Rightarrow> thid_t) \<Rightarrow> (thid_t \<Rightarrow> 'a can_kern_scheme \<Rightarrow> 'a can_kern_scheme result) \<Rightarrow> bool \<Rightarrow> nat \<Rightarrow> handler \<Rightarrow>
  'a can_kern_scheme \<Rightarrow> 'a can_kern_scheme result" where
  "run_handler addr oth clears vn h k = (case h of
       Default_handler \<Rightarrow> Inr k
     | Systimer_Handler_1 \<Rightarrow> Inr (systimer_Handler_1 k)
     | Systimer_Handler_3 \<Rightarrow> Inr (systimer_Handler_3 k)
     | CM_Handler \<Rightarrow> CM_handler addr oth clears vn k
     | Sja1000_Handler \<Rightarrow> sja1000_Handler addr oth clears k)"

text \<open>
  The interrupt code is a signed byte, four times the level; \<open>sp\<close> is the stack pointer. A nested
  interrupt stops the system when too many are pending; with a stack that is not aligned the handler
  is not called.
\<close>

definition isr_external :: "(thid_t \<Rightarrow> thid_t) \<Rightarrow> (thid_t \<Rightarrow> 'a can_kern_scheme \<Rightarrow> 'a can_kern_scheme result) \<Rightarrow> bool \<Rightarrow> nat \<Rightarrow> 32 word \<Rightarrow>
  'a can_kern_scheme \<Rightarrow> 'a can_kern_scheme result" where
  "isr_external addr oth clears vn sp k =
     (let i = sint (SIVEC (chip k)) sdiv 4;
          k1 = k\<lparr>IntFlagCntr := IntFlagCntr k + 1, isr_idx := i, n_isr := n_isr k + 1\<rparr>
      in c_assert (n_isr k1 > 1 \<longrightarrow> n_isr k1 \<le> MAXIMUN_PENDING_ISR)
       (andThen (if sp AND 3 \<noteq> 0 then Inr k1
           else in_bounds (0 \<le> i \<and> i < 16) (run_handler addr oth clears vn (isr_table k1 (nat i)) k1))
         (\<lambda>k2. let k3 = (if SIPEND (chip k2) AND 0x5555 \<noteq> 0 then upd_chip (\<lambda>c. c\<lparr>EIE := True\<rparr>) k2 else k2)
           in Inr (k3\<lparr>n_isr := n_isr k3 - 1, IntFlagCntr := IntFlagCntr k3 - 1\<rparr>))))"

end
