(* ===== verification/TkBoardDemo.thy ===== *)
theory TkBoardDemo
  imports TkCan TkDemo
begin

text \<open>
  A concrete board for the witnesses: the kernel \<open>itc_demo\<close> with cleared registers, an empty
  console and an empty ring of frames, whose semaphore is the ITC object 3 of type \<open>SEM\<close>.
\<close>

definition chip0 :: mpc860 where
  "chip0 = \<lparr>SIPEND = 0, SIMASK = 0, SIEL = 0, SIVEC = 0, PISCR = 0, PITC = 0, SCCR = 0, CIVR = 0, CICR = 0, CIMR = 0, CISR = 0,
     PAPAR = 0, PADIR = 0, PADAT = 0, PBPAR = 0, PBDIR = 0, PBODR = 0, MSR_EE = False, EIE = False\<rparr>"

definition tick0 :: tick_t where
  "tick0 = \<lparr>sys_mickey = 0, sys_mackey = 0\<rparr>"

definition smc0 :: smc_t where
  "smc0 = \<lparr>SMCE1 = 0, SMCM1 = 0, SMCMR1 = 0, CPCR = 0, SDCR = 0, BRGC1 = 0, SIMODE = 0, PLPRCR = 0, RBASE = 0, TBASE = 0, RFCR = 0, TFCR = 0,
     MRBLR = 0, MAX_IDL = 0, R_MASK = 0, BRKLN = 0, BRKEC = 0, BRKCR = 0, RxBD = \<lparr>BD_Status = 0, BD_Length = 0, bd_buffer = []\<rparr>,
     TxBD = \<lparr>BD_Status = 0, BD_Length = 0, bd_buffer = []\<rparr>\<rparr>"

definition demo_sem :: "int \<Rightarrow> itc_t" where
  "demo_sem v = blank_itc\<lparr>b_type := SEM, token := v\<rparr>"

definition esc_demo :: "tick_t \<Rightarrow> int \<Rightarrow> esc_kern" where
  "esc_demo t v = itc_kern.extend (itc_demo READY READY 0 (\<lambda>_. Some (demo_sem v)) 4)
     (esc_kern.fields chip0 (\<lambda>_. Default_handler) 0 0 (\<lambda>_. CM_default_handler) 0 t (\<lambda>_. 0))"

definition con_demo :: "tick_t \<Rightarrow> int \<Rightarrow> con_kern" where
  "con_demo t v = esc_kern.extend (esc_demo t v) (con_kern.fields smc0 (\<lambda>_. 0) 0 0 3 True 0 0 0 0 False)"

definition can_demo :: "tick_t \<Rightarrow> int \<Rightarrow> can_kern" where
  "can_demo t v = con_kern.extend (con_demo t v) (can_kern.fields (\<lambda>_. 0) 1 True 0 (\<lambda>_. []) 0 0 0 3
     \<lparr>n_BEI = 0, n_ALI = 0, n_EPI = 0, n_WUI = 0, n_DOI = 0, n_EI = 0, n_TI = 0, n_RI = 0\<rparr>)"

lemmas demo_defs = esc_demo_def con_demo_def can_demo_def itc_kern.extend_def esc_kern.extend_def con_kern.extend_def
  esc_kern.fields_def con_kern.fields_def can_kern.fields_def

lemma can_demo_sel [simp]:
  "can_rxidx_in (can_demo t v) = 0" "can_rxidx_out (can_demo t v) = 0" "can_nrx (can_demo t v) = 0" "can_rx_sem (can_demo t v) = 3"
  "itc_array (can_demo t v) i = Some (demo_sem v)" "can_xmode (can_demo t v)" "can_regs (can_demo t v) r = 0" "chip (can_demo t v) = chip0"
  by (simp_all add: demo_defs)

lemma con_demo_sel [simp]:
  "itc_array (con_demo t v) i = Some (demo_sem v)" "rx_char (con_demo t v) i = 0" "rx_inIdx (con_demo t v) = 0" "rx_outIdx (con_demo t v) = 0"
  "con_rx_sem (con_demo t v) = 3" "con_stdio_init (con_demo t v)" "smc (con_demo t v) = smc0" "chip (con_demo t v) = chip0"
  by (simp_all add: demo_defs)

lemma esc_demo_sel [simp]:
  "chip (esc_demo t v) = chip0" "ticks (esc_demo t v) = t" "ledstat (esc_demo t v) i = 0" "isr_table (esc_demo t v) i = Default_handler"
  by (simp_all add: demo_defs)

lemma demo_sem_sel [simp]: "b_type (demo_sem v) = SEM" "token (demo_sem v) = v" "(demo_sem v)\<lparr>token := w\<rparr> = demo_sem w"
  by (simp_all add: demo_sem_def)

end
