(* ===== verification/TkCanProps.thy ===== *)
theory TkCanProps
  imports TkBoardDemo
begin

text \<open>
  The CAN driver: what its registers hold after the start, that an extended frame carries a package
  unchanged and a basic one does not, and that the ring between the interrupt handler and the reader
  is a bounded queue, an instance of \<open>bounded_fifo\<close>.
\<close>

section \<open>Semaphores without waiters\<close>

lemma sem_post_free:
  assumes "sem < TK_MAX_NUM_Q" "itc_array k sem = Some q" "b_type q = SEM" "0 \<le> token q"
  shows "sem_post addr oth sem k = Inr (0, set_errno 0 (put_itc sem (q\<lparr>token := token q + 1\<rparr>) k))"
  using assms by (simp add: sem_post_def sm_v_def sm_v_ny_def wrong_type_def unlock_stage_def unlock_stage_ny_def posix_rc_def)

lemma sem_wait_free:
  assumes "sem < TK_MAX_NUM_Q" "itc_array k sem = Some q" "b_type q = SEM" "0 < token q"
  shows "sem_wait oth sem k = Inr (0, set_errno 0 (put_itc sem (q\<lparr>token := token q - 1\<rparr>) k))"
  using assms
  by (simp add: sem_wait_def sm_p_def sm_p_ny_def wrong_type_def would_block_def lock_stage_def lock_stage_ny_def lock_begin_def posix_rc_def)

lemma set_errno_itc_array [simp]: "itc_array (set_errno e k) = itc_array k"
  by (simp add: set_errno_def)

lemma set_errno_can [simp]:
  "can_regs (set_errno e k) = can_regs k" "can_RxBuff (set_errno e k) = can_RxBuff k" "can_rxidx_in (set_errno e k) = can_rxidx_in k"
  "can_rxidx_out (set_errno e k) = can_rxidx_out k" "can_nrx (set_errno e k) = can_nrx k" "can_rx_sem (set_errno e k) = can_rx_sem k"
  by (simp_all add: set_errno_def upd_tcb_def)

lemma put_itc_can [simp]:
  "can_regs (put_itc i q k) = can_regs k" "can_RxBuff (put_itc i q k) = can_RxBuff k" "can_rxidx_in (put_itc i q k) = can_rxidx_in k"
  "can_rxidx_out (put_itc i q k) = can_rxidx_out k" "can_nrx (put_itc i q k) = can_nrx k" "can_rx_sem (put_itc i q k) = can_rx_sem k"
  by (simp_all add: put_itc_def)

section \<open>Frames\<close>

text \<open>A package that an extended frame can carry.\<close>

definition eff_package :: "8 word list \<Rightarrow> bool" where
  "eff_package buf \<longleftrightarrow> 4 \<le> length buf \<and> length buf \<le> 12 \<and> take_bit 29 (be_word (take 4 buf) :: 32 word) = be_word (take 4 buf)"

lemma drop_push_small:
  assumes "take_bit (LENGTH('a) - n) w = w"
  shows "drop_bit n (push_bit n (w :: 'a::len word)) = w"
  using assms by (intro bit_word_eqI)
    (metis (no_types, lifting) bit_drop_bit_eq bit_push_bit_iff bit_take_bit_iff comp_apply add_diff_cancel_left' le_add1 less_diff_conv2 linorder_not_le possible_bit_word add.commute less_diff_conv)

lemma extended_frame:
  assumes "eff_package buf" "length junk = 13"
  shows "\<exists>f. pack_frame True junk buf = Inr f \<and> unpack_frame f = Inr buf \<and> fr_DLC f + 4 = length buf \<and> length f = FRAME_SIZE"
proof -
  have "length buf = (length buf - 4) + 4" "length buf - 4 \<le> 8" using assms(1) by (auto simp: eff_package_def)
  then obtain n where n: "length buf = n + 4" "n \<le> 8" by blast
  let ?w = "be_word (take 4 buf) :: 32 word"
  let ?i = "put_field 0 4 (int n) 0x80 :: 8 word"
  let ?f = "[?i] @ be_bytes 4 (push_bit 3 ?w) @ drop 4 buf @ drop (n + 5) junk"
  have w: "drop_bit 3 (push_bit 3 ?w) = ?w" using assms(1) by (intro drop_push_small) (simp add: eff_package_def)
  have id: "be_bytes 4 ?w = take 4 buf" using be_bytes_word [of "take 4 buf", where ?'a = 32] n by simp
  have pack: "pack_frame True junk buf = Inr ?f"
    using n assms(2) by (simp add: pack_frame_def c_assert_def copy_data_def in_bounds_def EFF_data_def FRAME_SIZE_def drop_Cons')
  have dlc: "fr_DLC ?f = n" using n by (simp add: fr_DLC_def get_put_field take_bit_int_eq_self)
  have ff: "fr_FF ?f" by (simp add: fr_FF_def bit_put_field)
  have eid: "EFF_id ?f = ?w" by (simp add: EFF_id_def be_word_bytes take_bit_word_eq_self w)
  have "unpack_frame ?f = Inr buf"
    using n assms(2) by (simp only: unpack_frame_def Let_def dlc ff eid if_True) (simp add: in_bounds_def EFF_data_def FRAME_SIZE_def id)
  with pack dlc n assms(2) show ?thesis by (intro exI [of _ ?f]) (simp add: FRAME_SIZE_def)
qed

section \<open>The ring\<close>

text \<open>
  The packages that wait in the ring, oldest first, and what the handler and the readers keep of it:
  the counter of frames and the value of the semaphore agree with the indexes, and every frame can
  be copied out. At most 4095 of the 4096 slots are ever used.
\<close>

definition package :: "8 word list \<Rightarrow> 8 word list" where
  "package f = (case unpack_frame f of Inl _ \<Rightarrow> [] | Inr bs \<Rightarrow> bs)"

definition can_slot :: "'a can_kern_scheme \<Rightarrow> nat \<Rightarrow> nat" where
  "can_slot k i = (can_rxidx_out k + i) mod CAN_RX_BUFFSZ"

definition can_content :: "'a can_kern_scheme \<Rightarrow> 8 word list list" where
  "can_content k = map (\<lambda>i. package (can_RxBuff k (can_slot k i))) [0..<nat (can_nrx k)]"

definition good_frame :: "8 word list \<Rightarrow> bool" where
  "good_frame f \<longleftrightarrow> (case unpack_frame f of Inl _ \<Rightarrow> False | Inr bs \<Rightarrow> fr_DLC f + 4 = length bs \<and> length bs \<le> 12)"

definition can_sem_ok :: "'a can_kern_scheme \<Rightarrow> bool" where
  "can_sem_ok k \<longleftrightarrow> can_rx_sem k < TK_MAX_NUM_Q \<and>
     (case itc_array k (can_rx_sem k) of None \<Rightarrow> False | Some q \<Rightarrow> b_type q = SEM \<and> token q = can_nrx k)"

definition can_ok :: "'a can_kern_scheme \<Rightarrow> bool" where
  "can_ok k \<longleftrightarrow> 0 \<le> can_nrx k \<and> can_nrx k < int CAN_RX_BUFFSZ \<and> can_rxidx_out k < CAN_RX_BUFFSZ \<and>
     can_rxidx_in k = can_slot k (nat (can_nrx k)) \<and> can_sem_ok k \<and>
     (\<forall>i < nat (can_nrx k). good_frame (can_RxBuff k (can_slot k i)))"

text \<open>The controller receives a package: it shows the frame and interrupts. A reader with a buffer for a whole package.\<close>

definition can_arrive :: "(thid_t \<Rightarrow> thid_t) \<Rightarrow> (thid_t \<Rightarrow> 'a can_kern_scheme \<Rightarrow> 'a can_kern_scheme result) \<Rightarrow> bool \<Rightarrow> 8 word list \<Rightarrow>
  8 word list \<Rightarrow> 'a can_kern_scheme \<Rightarrow> 'a can_kern_scheme result" where
  "can_arrive addr oth clears junk bs k = andThen (pack_frame True junk bs) (\<lambda>f.
     sja1000_Handler addr oth clears (upd_regs (\<lambda>r. (set_bytes R_FRACC f r)(R_IR := 1)) k))"

definition can_take :: "(thid_t \<Rightarrow> 'a can_kern_scheme \<Rightarrow> 'a can_kern_scheme result) \<Rightarrow> 'a can_kern_scheme \<Rightarrow>
  (8 word list \<times> 'a can_kern_scheme) result" where
  "can_take oth k = andThen (sja1000_read oth 12 k) (\<lambda>(n, bs, k1). c_assert (n = int (length bs)) (Inr (bs, k1)))"

lemma get_set_bytes: "n = length bs \<Longrightarrow> get_bytes_at a n (set_bytes a bs r) = bs"
  by (rule nth_equalityI) (auto simp: get_bytes_at_def set_bytes_def)

lemma get_bytes_skip: "i < a \<Longrightarrow> get_bytes_at a n (r(i := b)) = get_bytes_at a n r"
  by (auto simp: get_bytes_at_def)

lemma package_eff: "unpack_frame f = Inr bs \<Longrightarrow> package f = bs"
  by (simp add: package_def)

lemma can_slot_Suc: "(can_rxidx_out k + Suc i) mod CAN_RX_BUFFSZ = ((can_rxidx_out k + 1) mod CAN_RX_BUFFSZ + i) mod CAN_RX_BUFFSZ"
  by (simp add: mod_add_left_eq)

lemma can_slot_new: "i < n \<Longrightarrow> n < CAN_RX_BUFFSZ \<Longrightarrow> (a + i) mod CAN_RX_BUFFSZ \<noteq> (a + n) mod CAN_RX_BUFFSZ"
  using mod_add_inj [of i CAN_RX_BUFFSZ n a] by auto

lemma good_frameE:
  assumes "good_frame f"
  obtains bs where "unpack_frame f = Inr bs" "package f = bs" "fr_DLC f + 4 = length bs" "length bs \<le> 12"
  using assms by (auto simp: good_frame_def package_def split: sum.splits)

lemma can_sem_okE:
  assumes "can_sem_ok k"
  obtains q where "can_rx_sem k < TK_MAX_NUM_Q" "itc_array k (can_rx_sem k) = Some q" "b_type q = SEM" "token q = can_nrx k"
  using assms by (auto simp: can_sem_ok_def split: option.splits)

lemma can_take_first:
  assumes "can_ok k" "can_content k = m # ms"
  shows "\<exists>k'. can_take oth k = Inr (m, k') \<and> can_ok k' \<and> can_content k' = ms"
proof -
  have ok: "can_nrx k < int CAN_RX_BUFFSZ" "can_rxidx_out k < CAN_RX_BUFFSZ" "can_sem_ok k" "can_rxidx_in k = can_slot k (nat (can_nrx k))"
    "\<forall>i < nat (can_nrx k). good_frame (can_RxBuff k (can_slot k i))" using assms(1) by (simp_all add: can_ok_def)
  obtain q where q: "can_rx_sem k < TK_MAX_NUM_Q" "itc_array k (can_rx_sem k) = Some q" "b_type q = SEM" "token q = can_nrx k"
    by (rule can_sem_okE [OF ok(3)])
  have "nat (can_nrx k) \<noteq> 0" using assms(2) by (intro notI) (simp add: can_content_def)
  then obtain n where n: "nat (can_nrx k) = Suc n" by (cases "nat (can_nrx k)") simp_all
  then have nrx: "can_nrx k = 1 + int n" by linarith
  have s0: "can_slot k 0 = can_rxidx_out k" using ok(2) by (simp add: can_slot_def)
  obtain bs where f: "unpack_frame (can_RxBuff k (can_rxidx_out k)) = Inr bs" "package (can_RxBuff k (can_rxidx_out k)) = bs"
    "fr_DLC (can_RxBuff k (can_rxidx_out k)) + 4 = length bs" "length bs \<le> 12"
    by (rule good_frameE [of "can_RxBuff k (can_slot k 0)"]) (use ok(5) [rule_format, of 0] n s0 in simp_all)
  have m: "m = bs" and ms: "ms = map (\<lambda>i. package (can_RxBuff k (can_slot k (Suc i)))) [0..<n]"
    using assms(2) f(2) s0 by (simp_all add: can_content_def n map_upt_Suc del: upt_Suc)
  have "\<exists>k'. can_take oth k = Inr (bs, k') \<and> can_RxBuff k' = can_RxBuff k \<and> can_nrx k' = int n \<and>
      can_rxidx_out k' = (can_rxidx_out k + 1) mod CAN_RX_BUFFSZ \<and> can_rxidx_in k' = can_rxidx_in k \<and>
      can_rx_sem k' = can_rx_sem k \<and> itc_array k' (can_rx_sem k) = Some (q\<lparr>token := int n\<rparr>)"
    using q f ok(1) nrx by (simp add: can_take_def sja1000_read_def sem_wait_free take_frame_def c_assert_def Let_def)
  then obtain k' where k': "can_take oth k = Inr (bs, k')" "can_RxBuff k' = can_RxBuff k" "can_nrx k' = int n"
    "can_rxidx_out k' = (can_rxidx_out k + 1) mod CAN_RX_BUFFSZ" "can_rxidx_in k' = can_rxidx_in k"
    "can_rx_sem k' = can_rx_sem k" "itc_array k' (can_rx_sem k) = Some (q\<lparr>token := int n\<rparr>)" by blast
  have slot: "can_slot k' i = can_slot k (Suc i)" for i
    unfolding can_slot_def k'(4) by (simp add: mod_add_left_eq)
  have "can_ok k'"
    using ok q n nrx k' slot by (simp add: can_ok_def can_sem_ok_def CAN_RX_BUFFSZ_def)
  moreover have "can_content k' = ms" by (simp add: can_content_def ms k' slot)
  ultimately show ?thesis using k'(1) m by blast
qed

lemma can_arrive_last:
  assumes "can_ok k" "length (can_content k) < 4095" "eff_package m" "length junk = 13"
  shows "\<exists>k'. can_arrive addr oth clears junk m k = Inr k' \<and> can_ok k' \<and> can_content k' = can_content k @ [m]"
proof -
  have ok: "can_nrx k < int CAN_RX_BUFFSZ" "can_rxidx_out k < CAN_RX_BUFFSZ" "can_sem_ok k" "can_rxidx_in k = can_slot k (nat (can_nrx k))"
    "\<forall>i < nat (can_nrx k). good_frame (can_RxBuff k (can_slot k i))" "0 \<le> can_nrx k" using assms(1) by (simp_all add: can_ok_def)
  obtain q where q: "can_rx_sem k < TK_MAX_NUM_Q" "itc_array k (can_rx_sem k) = Some q" "b_type q = SEM" "token q = can_nrx k"
    by (rule can_sem_okE [OF ok(3)])
  obtain n where n: "can_nrx k = int n" using ok(6) nonneg_int_cases by blast
  have room: "n < 4095" using assms(2) n by (simp add: can_content_def)
  obtain f where f: "pack_frame True junk m = Inr f" "unpack_frame f = Inr m" "fr_DLC f + 4 = length m" "length f = FRAME_SIZE"
    using extended_frame [OF assms(3,4)] by blast
  have m12: "length m \<le> 12" using assms(3) by (simp add: eff_package_def)
  let ?in = "can_rxidx_in k"
  have "\<exists>k'. can_arrive addr oth clears junk m k = Inr k' \<and> can_RxBuff k' = (can_RxBuff k)(?in := f) \<and> can_nrx k' = int (Suc n) \<and>
      can_rxidx_out k' = can_rxidx_out k \<and> can_rxidx_in k' = (?in + 1) mod CAN_RX_BUFFSZ \<and>
      can_rx_sem k' = can_rx_sem k \<and> itc_array k' (can_rx_sem k) = Some (q\<lparr>token := int (Suc n)\<rparr>)"
    using q n room f(4)
    by (simp add: can_arrive_def f(1) sja1000_Handler_def isr_RI_def sem_post_free c_assert_def count_irq_def get_bytes_skip get_set_bytes
      R_IR_def R_FRACC_def CAN_RX_BUFFSZ_def Let_def)
  then obtain k' where k': "can_arrive addr oth clears junk m k = Inr k'" "can_RxBuff k' = (can_RxBuff k)(?in := f)" "can_nrx k' = int (Suc n)"
    "can_rxidx_out k' = can_rxidx_out k" "can_rxidx_in k' = (?in + 1) mod CAN_RX_BUFFSZ"
    "can_rx_sem k' = can_rx_sem k" "itc_array k' (can_rx_sem k) = Some (q\<lparr>token := int (Suc n)\<rparr>)" by blast
  have slot: "can_slot k' i = can_slot k i" for i by (simp add: can_slot_def k'(4))
  have at_in: "can_slot k n = ?in" using ok(4) n by simp
  have old: "can_RxBuff k' (can_slot k i) = can_RxBuff k (can_slot k i)" if "i < n" for i
    using can_slot_new [OF that, of "can_rxidx_out k"] room at_in by (simp add: k'(2) can_slot_def CAN_RX_BUFFSZ_def)
  have good: "good_frame f" using f m12 by (simp add: good_frame_def)
  have "can_content k' = can_content k @ [m]"
    using old by (simp add: can_content_def k'(3) slot n at_in del: of_nat_Suc) (simp add: k'(2) package_eff [OF f(2)])
  moreover have "can_ok k'"
    unfolding can_ok_def
  proof (intro conjI allI impI)
    show "good_frame (can_RxBuff k' (can_slot k' i))" if "i < nat (can_nrx k')" for i
      using that old [of i] good ok(5) n at_in by (cases "i = n") (simp_all add: k'(2,3) slot)
    show "can_rxidx_in k' = can_slot k' (nat (can_nrx k'))"
      unfolding k'(3,5) slot nat_int at_in [symmetric] can_slot_def by (simp add: mod_Suc_eq k'(4))
  qed (use ok q k' room in \<open>simp_all add: can_sem_ok_def CAN_RX_BUFFSZ_def\<close>)
  ultimately show ?thesis using k'(1) by blast
qed

interpretation can_ring: bounded_fifo can_content can_ok "\<lambda>_. 4095" "\<lambda>m. eff_package m \<and> length junk = 13"
  "can_arrive addr oth clears junk" "can_take oth"
  using can_arrive_last can_take_first by unfold_locales blast+

section \<open>Properties\<close>

text \<open>
  C32. Packages that arrive in extended frames are read in the order of their arrival, unchanged,
  behind those that were waiting, when the ring has room for them: 4095 packages, one less than the
  slots. The interrupt handler and the reader keep indexes, counter and semaphore in agreement.
\<close>

theorem can_round_trip:
  assumes "can_ok k" "length (can_content k) + length ms \<le> 4095" "\<forall>m \<in> set ms. eff_package m" "length junk = 13"
  shows "\<exists>k1 k2. foldR (can_arrive addr oth clears junk) ms k = Inr k1 \<and>
    recv_n (can_take oth) (length (can_content k) + length ms) k1 = Inr (can_content k @ ms, k2) \<and> can_ok k2 \<and> can_content k2 = []"
  by (rule can_ring.round_trip) (use assms in auto)

theorem can_round_trip_witness:
  "\<exists>k1 k2. foldR (can_arrive id nobody False (replicate 13 0)) [[0, 0, 1, 2, 7], [0, 0, 1, 3]] (can_demo tick0 0) = Inr k1 \<and>
    recv_n (can_take nobody) 2 k1 = Inr ([[0, 0, 1, 2, 7], [0, 0, 1, 3]], k2) \<and> can_ok k2 \<and> can_content k2 = []"
proof -
  have ok: "can_ok (can_demo tick0 0)" by (simp add: can_ok_def can_sem_ok_def can_slot_def CAN_RX_BUFFSZ_def TK_MAX_NUM_Q_def)
  have empty: "can_content (can_demo tick0 0) = []" by (simp add: can_content_def)
  have fit: "\<forall>m \<in> set [[0, 0, 1, 2, 7], [0, 0, 1, 3]]. eff_package m"
    by (simp add: eff_package_def)
  show ?thesis using can_round_trip [OF ok _ fit, of "replicate 13 0" id nobody False] by (simp add: empty numeral_2_eq_2)
qed

text \<open>
  A basic frame does not carry its data: the driver stores them where an extended frame has
  them, so a reader gets two bytes of the sender's stack and then the data without its last two bytes.
\<close>

theorem basic_frame_shifted:
  assumes "length bs \<le> 8" "length junk = 13"
  shows "\<exists>f ident. pack_frame False junk (a # b # bs) = Inr f \<and> length ident = 4 \<and>
    unpack_frame f = Inr (ident @ take (length bs) (take 2 (drop 3 junk) @ bs))"
proof -
  obtain n where n: "length bs = n" "n \<le> 8" using assms(1) by blast
  let ?i = "put_field 0 4 (int n) 0 :: 8 word"
  let ?f = "[?i] @ be_bytes 2 (push_bit 5 (be_word [a, b]) :: 16 word) @ take 2 (drop 3 junk) @ bs @ drop (5 + n) junk"
  have pack: "pack_frame False junk (a # b # bs) = Inr ?f"
    using n assms(2) by (simp add: pack_frame_def c_assert_def copy_data_def in_bounds_def EFF_data_def FRAME_SIZE_def drop_Cons' take_Cons')
  have dlc: "fr_DLC ?f = n" using n by (simp add: fr_DLC_def get_put_field take_bit_int_eq_self)
  have ff: "\<not> fr_FF ?f" by (simp add: fr_FF_def bit_put_field)
  have "unpack_frame ?f = Inr (be_bytes 4 (ucast (SFF_id ?f) :: 32 word) @ take n (take 2 (drop 3 junk) @ bs))"
    using n assms(2) by (simp only: unpack_frame_def Let_def dlc ff if_False) (simp add: in_bounds_def SFF_data_def FRAME_SIZE_def)
  then have "unpack_frame ?f = Inr (be_bytes 4 (ucast (SFF_id ?f) :: 32 word) @ take (length bs) (take 2 (drop 3 junk) @ bs))"
    by (simp only: n(1))
  with pack show ?thesis by (metis length_be_bytes)
qed

theorem basic_frame_shifted_witness:
  "\<exists>f ident. pack_frame False [0, 1, 2, 3, 4, 5, 6, 7, 8, 9, 10, 11, 12] [0, 1, 50, 51, 52] = Inr f \<and> length ident = 4 \<and>
    unpack_frame f = Inr (ident @ [3, 4, 50])"
  using basic_frame_shifted [of "[50, 51, 52]" "[0, 1, 2, 3, 4, 5, 6, 7, 8, 9, 10, 11, 12]" 0 1] by (simp add: eval_nat_numeral)

text \<open>
  The start leaves the reset mode and returns exactly when the controller once shows that it
  has left it: the limit on the attempts is never reached.
\<close>

theorem leave_reset_ends: "(\<exists>r'. leave_reset rm n r = Some r') \<longleftrightarrow> (\<exists>m \<ge> n. \<not> rm m)"
proof
  assume "\<exists>r'. leave_reset rm n r = Some r'"
  then obtain r' where "leave_reset rm n r = Some r'" ..
  then show "\<exists>m \<ge> n. \<not> rm m"
    by (rule leave_reset.raw_induct [where P = "\<lambda>rm n r y. \<exists>m \<ge> n. \<not> rm m", rotated])
      (auto split: if_splits, blast dest: Suc_leD)
next
  assume "\<exists>m \<ge> n. \<not> rm m"
  then obtain d where "\<not> rm (n + d)" by (auto simp: le_iff_add)
  then show "\<exists>r'. leave_reset rm n r = Some r'"
    by (induction d arbitrary: n r) (subst leave_reset.simps, force)+
qed

lemma set_reg_at: "set_reg a lo w v r i = (if i = a then put_field lo w v (r a) else r i)"
  by (simp add: set_reg_def)

lemma word8_eqI: "(\<And>j. j \<in> {0, 1, 2, 3, 4, 5, 6, 7} \<Longrightarrow> bit a j = bit b j) \<Longrightarrow> a = (b :: 8 word)"
proof (rule bit_word_eqI)
  fix n assume h: "\<And>j. j \<in> {0, 1, 2, 3, 4, 5, 6, 7} \<Longrightarrow> bit a j = bit b j" and n: "n < LENGTH(8)"
  have "n \<in> {0, 1, 2, 3, 4, 5, 6, 7}" using n by (simp, presburger)
  then show "bit a n = bit b n" by (rule h)
qed

lemmas can_addresses = R_MOD_def R_CMR_def R_CDR_def R_BTR0_def R_BTR1_def R_OCR_def R_FRACC_def R_IER_def

lemma two_fields: "put_field 6 2 2 (put_field 0 6 1 r) = (0x81 :: 8 word)"
  by (rule word8_eqI) (auto simp: bit_put_field)

lemma three_fields: "put_field 0 4 3 (put_field 0 4 5 (put_field 4 3 2 (put_field 7 (Suc 0) 0 r))) = (0x23 :: 8 word)"
  by (rule word8_eqI) (auto simp: bit_put_field)

lemma get_bytes_other: "b + length bs \<le> a \<or> a + n \<le> b \<Longrightarrow> get_bytes_at a n (set_bytes b bs r) = get_bytes_at a n r"
  by (auto simp: get_bytes_at_def set_bytes_def)

lemma get_bytes_set_reg: "b < a \<Longrightarrow> get_bytes_at a n (set_reg b lo w v r) = get_bytes_at a n r"
  by (simp add: set_reg_def get_bytes_skip)

text \<open>
  What the controller holds after the registers of the reset mode are written: the acceptance
  filter, with the mask widened by the bits that the format has no use for, the bus timing, the same
  whatever the argument \<^verbatim>\<open>bps\<close> is, the output control, and the mode bits; then all
  interrupts are enabled.
\<close>

theorem reset_registers:
  "reset_regs 1 xmode ac am r R_OCR = 0xDB \<and> reset_regs 1 xmode ac am r R_BTR0 = 0x81 \<and> reset_regs 1 xmode ac am r R_BTR1 = 0x23 \<and>
   be_word (get_bytes_at R_FRACC 4 (reset_regs 1 xmode ac am r)) = ac \<and>
   be_word (get_bytes_at (R_FRACC + 4) 4 (reset_regs 1 xmode ac am r)) = am OR (if xmode then 3 else 0xF0000) \<and>
   bit (reset_regs 1 xmode ac am r R_MOD) 0 \<and> bit (reset_regs 1 xmode ac am r R_MOD) 3 \<and> enable_irqs r R_IER = 0xFF"
proof (intro conjI)
  show "reset_regs 1 xmode ac am r R_OCR = 0xDB" unfolding reset_regs_def Let_def by (rule fun_upd_same)
  show "reset_regs 1 xmode ac am r R_BTR0 = 0x81"
    by (simp only: reset_regs_def Let_def fold_simps prod.case) (simp add: set_reg_at set_bytes_def can_addresses two_fields)
  show "reset_regs 1 xmode ac am r R_BTR1 = 0x23"
    by (simp only: reset_regs_def Let_def fold_simps prod.case) (simp add: set_reg_at set_bytes_def can_addresses three_fields)
  show "bit (reset_regs 1 xmode ac am r R_MOD) 0" "bit (reset_regs 1 xmode ac am r R_MOD) 3"
    by (simp only: reset_regs_def Let_def fold_simps prod.case, simp add: set_reg_at set_bytes_def can_addresses bit_put_field)+
  show "enable_irqs r R_IER = 0xFF"
    by (simp add: enable_irqs_def set_reg_at) (rule word8_eqI; auto simp: bit_put_field)
  show "be_word (get_bytes_at R_FRACC 4 (reset_regs 1 xmode ac am r)) = ac"
    by (simp only: reset_regs_def Let_def fold_simps prod.case)
      (simp add: get_bytes_other get_bytes_set_reg get_bytes_skip get_set_bytes be_word_bytes take_bit_word_eq_self can_addresses)
  show "be_word (get_bytes_at (R_FRACC + 4) 4 (reset_regs 1 xmode ac am r)) = am OR (if xmode then 3 else 0xF0000)"
    by (simp only: reset_regs_def Let_def fold_simps prod.case)
      (simp add: get_bytes_other get_bytes_set_reg get_bytes_skip get_set_bytes be_word_bytes take_bit_word_eq_self can_addresses)
qed

end
