(* ===== verification/TkConsoleProps.thy ===== *)
theory TkConsoleProps
  imports TkCanProps
begin

text \<open>
  The console: characters that arrive are read when their line ends, as long as the ring has not
  wrapped; and what is written goes into the buffer of the controller.
\<close>

section \<open>Receiving\<close>

text \<open>One character arrives: the controller stores it, closes its buffer and shows the event.\<close>

definition con_arrive :: "(thid_t \<Rightarrow> thid_t) \<Rightarrow> (thid_t \<Rightarrow> 'a con_kern_scheme \<Rightarrow> 'a con_kern_scheme result) \<Rightarrow> bool \<Rightarrow> 8 word \<Rightarrow>
  'a con_kern_scheme \<Rightarrow> 'a con_kern_scheme result" where
  "con_arrive addr oth clears c k =
     console_Handler addr oth clears (upd_smc (\<lambda>s. s\<lparr>SMCE1 := 1, RxBD := (RxBD s)\<lparr>BD_Length := 1, bd_buffer := [c]\<rparr>\<rparr>) k)"

text \<open>The characters that wait, and the state in which the reader gets them: not wrapped, with the command processor idle.\<close>

definition con_pending :: "'a con_kern_scheme \<Rightarrow> 8 word list" where
  "con_pending k = map (rx_char k) [rx_outIdx k..<rx_inIdx k]"

definition con_ok :: "int \<Rightarrow> 'a con_kern_scheme \<Rightarrow> bool" where
  "con_ok v k \<longleftrightarrow> rx_outIdx k \<le> rx_inIdx k \<and> rx_inIdx k < SMC_CHAR_BUFFLEN \<and> con_stdio_init k \<and> \<not> bit (CPCR (smc k)) 0 \<and> 0 \<le> v \<and>
     con_rx_sem k < TK_MAX_NUM_Q \<and> (case itc_array k (con_rx_sem k) of None \<Rightarrow> False | Some q \<Rightarrow> b_type q = SEM \<and> token q = v)"

abbreviation CR :: "8 word" where "CR \<equiv> 0x0D"

lemma con_pending_empty: "rx_inIdx k \<le> rx_outIdx k \<Longrightarrow> con_pending k = []"
  by (simp add: con_pending_def)

lemma con_okE:
  assumes "con_ok v k"
  obtains q where "con_rx_sem k < TK_MAX_NUM_Q" "itc_array k (con_rx_sem k) = Some q" "b_type q = SEM" "token q = v"
  using assms by (auto simp: con_ok_def split: option.splits)

lemma set_errno_con [simp]:
  "smc (set_errno e k) = smc k" "rx_char (set_errno e k) = rx_char k" "rx_inIdx (set_errno e k) = rx_inIdx k"
  "rx_outIdx (set_errno e k) = rx_outIdx k" "con_rx_sem (set_errno e k) = con_rx_sem k" "con_stdio_init (set_errno e k) = con_stdio_init k"
  by (simp_all add: set_errno_def upd_tcb_def)

lemma put_itc_con [simp]:
  "smc (put_itc i q k) = smc k" "rx_char (put_itc i q k) = rx_char k" "rx_inIdx (put_itc i q k) = rx_inIdx k"
  "rx_outIdx (put_itc i q k) = rx_outIdx k" "con_rx_sem (put_itc i q k) = con_rx_sem k" "con_stdio_init (put_itc i q k) = con_stdio_init k"
  by (simp_all add: put_itc_def)

lemma idle_command: "\<not> bit (cp_command op) 0"
  by (simp add: cp_command_def bit_put_field)

text \<open>What the arrival of a character does, in a ring that is at any index.\<close>

lemma con_arrive_char:
  assumes "con_ok v k"
  shows "\<exists>k'. con_arrive addr oth clears c k = Inr k' \<and> rx_char k' = (rx_char k)(rx_inIdx k := c) \<and>
    rx_inIdx k' = (rx_inIdx k + 1) mod SMC_CHAR_BUFFLEN \<and> rx_outIdx k' = rx_outIdx k \<and> con_stdio_init k' \<and> \<not> bit (CPCR (smc k')) 0 \<and>
    con_rx_sem k' = con_rx_sem k \<and> (\<exists>q. itc_array k' (con_rx_sem k') = Some q \<and> b_type q = SEM \<and> token q = (if c = CR then v + 1 else v))"
proof -
  obtain q where q: "con_rx_sem k < TK_MAX_NUM_Q" "itc_array k (con_rx_sem k) = Some q" "b_type q = SEM" "token q = v"
    by (rule con_okE [OF assms])
  have ok: "rx_inIdx k < SMC_CHAR_BUFFLEN" "con_stdio_init k" "\<not> bit (CPCR (smc k)) 0" "0 \<le> v" using assms by (simp_all add: con_ok_def)
  have e: "\<not> bit (1 :: 8 word) 2" "\<not> bit (1 :: 8 word) 4" "\<not> bit (1 :: 8 word) 6" "bit (1 :: 8 word) 0" by simp_all
  show ?thesis
    using q ok idle_command [of INIT_RX_PARAMS]
    by (simp add: con_arrive_def console_Handler_def on_event_def e console_rx_handler_def in_bounds_def put_chars_def write_SMCE_def
      wait_cp_def toggle_led_def led_on_def led_off_def sem_post_free Let_def fun_eq_iff)
qed

lemma con_arrive_pending:
  assumes "con_ok v k" "rx_inIdx k + 1 < SMC_CHAR_BUFFLEN"
  shows "\<exists>k'. con_arrive addr oth clears c k = Inr k' \<and> con_ok (if c = CR then v + 1 else v) k' \<and> con_pending k' = con_pending k @ [c] \<and>
    rx_inIdx k' = rx_inIdx k + 1 \<and> rx_outIdx k' = rx_outIdx k"
proof -
  from con_arrive_char [OF assms(1), of addr oth clears c] obtain k' q where
    k': "con_arrive addr oth clears c k = Inr k'" "rx_char k' = (rx_char k)(rx_inIdx k := c)"
    "rx_inIdx k' = (rx_inIdx k + 1) mod SMC_CHAR_BUFFLEN" "rx_outIdx k' = rx_outIdx k" "con_stdio_init k'" "\<not> bit (CPCR (smc k')) 0"
    "con_rx_sem k' = con_rx_sem k" "itc_array k' (con_rx_sem k') = Some q" "b_type q = SEM" "token q = (if c = CR then v + 1 else v)" by blast
  have ok: "rx_outIdx k \<le> rx_inIdx k" "0 \<le> v" "con_rx_sem k < TK_MAX_NUM_Q" using assms(1) by (simp_all add: con_ok_def)
  have i: "rx_inIdx k' = rx_inIdx k + 1" using k'(3) assms(2) by simp
  have "con_pending k' = con_pending k @ [c]" using ok(1) by (simp add: con_pending_def i k'(2,4))
  moreover have "con_ok (if c = CR then v + 1 else v) k'"
    using ok assms(2) k'(4-10) by (simp add: con_ok_def i)
  ultimately show ?thesis using k'(1,4) i by blast
qed

lemma con_arrive_all:
  assumes "con_ok v k" "rx_inIdx k + length cs < SMC_CHAR_BUFFLEN" "CR \<notin> set cs"
  shows "\<exists>k'. foldR (con_arrive addr oth clears) cs k = Inr k' \<and> con_ok v k' \<and> con_pending k' = con_pending k @ cs \<and>
    rx_inIdx k' = rx_inIdx k + length cs \<and> rx_outIdx k' = rx_outIdx k"
  using assms
proof (induction cs arbitrary: k)
  case (Cons c cs)
  have "rx_inIdx k + 1 < SMC_CHAR_BUFFLEN" "c \<noteq> CR" using Cons.prems by auto
  with con_arrive_pending [OF Cons.prems(1), of addr oth clears c] obtain k1 where
    k1: "con_arrive addr oth clears c k = Inr k1" "con_ok v k1" "con_pending k1 = con_pending k @ [c]" "rx_inIdx k1 = rx_inIdx k + 1" "rx_outIdx k1 = rx_outIdx k"
    by auto
  with Cons.IH [OF k1(2)] Cons.prems show ?case by auto
qed simp

lemma con_read_free:
  assumes "con_ok (v + 1) k" "0 \<le> v"
  shows "\<exists>k1. console_read oth n k = take_chars n k1 \<and> rx_char k1 = rx_char k \<and> rx_inIdx k1 = rx_inIdx k \<and> rx_outIdx k1 = rx_outIdx k"
proof -
  obtain q where q: "con_rx_sem k < TK_MAX_NUM_Q" "itc_array k (con_rx_sem k) = Some q" "b_type q = SEM" "token q = v + 1"
    by (rule con_okE [OF assms(1)])
  then show ?thesis using assms
    by (intro exI [of _ "set_errno 0 (put_itc (con_rx_sem k) (q\<lparr>token := v\<rparr>) k)"]) (simp add: console_read_def con_ok_def c_assert_def sem_wait_free)
qed

text \<open>
  C33. A line that arrives is given to the next reader, behind what was waiting, with a zero behind
  it, when the ring does not wrap and the buffer has room for the zero.
\<close>

theorem console_line:
  assumes "con_ok v k" "rx_inIdx k + length cs + 1 < SMC_CHAR_BUFFLEN" "CR \<notin> set cs" "length (con_pending k) + length cs + 1 < n"
  shows "\<exists>k1 k2. foldR (con_arrive addr oth clears) (cs @ [CR]) k = Inr k1 \<and>
    console_read oth n k1 = Inr (int (length (con_pending k) + length cs + 1), con_pending k @ cs @ [CR, 0], k2) \<and> con_pending k2 = []"
proof -
  obtain k0 where k0: "foldR (con_arrive addr oth clears) cs k = Inr k0" "con_ok v k0" "con_pending k0 = con_pending k @ cs"
    "rx_inIdx k0 = rx_inIdx k + length cs" "rx_outIdx k0 = rx_outIdx k"
    using con_arrive_all [OF assms(1) _ assms(3), of addr oth clears] assms(2) by auto
  obtain k1 where k1: "con_arrive addr oth clears CR k0 = Inr k1" "con_ok (v + 1) k1" "con_pending k1 = con_pending k @ cs @ [CR]"
    "rx_inIdx k1 = rx_inIdx k + length cs + 1" "rx_outIdx k1 = rx_outIdx k"
    using con_arrive_pending [OF k0(2), of addr oth clears CR] assms(2) k0 by auto
  have ok: "rx_outIdx k \<le> rx_inIdx k" "0 \<le> v" using assms(1) by (simp_all add: con_ok_def)
  obtain k2 where k2: "console_read oth n k1 = take_chars n k2" "rx_char k2 = rx_char k1" "rx_inIdx k2 = rx_inIdx k1" "rx_outIdx k2 = rx_outIdx k1"
    using con_read_free [OF k1(2) ok(2)] by blast
  have len: "rx_inIdx k1 - rx_outIdx k1 = length (con_pending k) + length cs + 1"
    using ok(1) by (simp add: k1(4,5) con_pending_def)
  have all: "rx_slice (rx_inIdx k1 - rx_outIdx k1) k2 = con_pending k @ cs @ [CR]"
    using k1(3-5) ok(1) by (simp add: rx_slice_def k2 con_pending_def)
  have "\<exists>k3. take_chars n k2 = Inr (int (length (con_pending k) + length cs + 1), con_pending k @ cs @ [CR, 0], k3) \<and> con_pending k3 = []"
  proof -
    have i: "rx_inIdx k1 = rx_outIdx k1 + (length (con_pending k) + length cs + 1)" "rx_inIdx k1 < SMC_CHAR_BUFFLEN"
      using len k1(2) by (simp_all add: con_ok_def)
    show ?thesis using all i assms(4) by (simp add: take_chars_def k2 in_bounds_def con_pending_empty Let_def)
  qed
  moreover have "foldR (con_arrive addr oth clears) (cs @ [CR]) k = Inr k1" using k0(1) k1(1) by (simp add: foldR_append)
  ultimately show ?thesis using k2(1) by auto
qed

theorem console_line_witness:
  "\<exists>k1 k2. foldR (con_arrive id nobody False) [0x68, 0x69, 0x0D] (con_demo tick0 0) = Inr k1 \<and>
    console_read nobody 80 k1 = Inr (3, [0x68, 0x69, 0x0D, 0], k2)"
proof -
  have ok: "con_ok 0 (con_demo tick0 0)" by (simp add: con_ok_def smc0_def TK_MAX_NUM_Q_def SMC_CHAR_BUFFLEN_def)
  have empty: "con_pending (con_demo tick0 0) = []" by (simp add: con_pending_def)
  show ?thesis using console_line [OF ok, of "[0x68, 0x69]" 80 id nobody False] by (auto simp: empty SMC_CHAR_BUFFLEN_def)
qed

text \<open>
  The character that fills the last place of the ring makes it wrap, and the reader, woken by
  the end of a line, gets nothing, although characters wait: it compares the indexes as if the ring
  had no end.
\<close>

theorem console_wrap_loses:
  assumes "con_ok v k" "rx_inIdx k = SMC_CHAR_BUFFLEN - 1" "0 < rx_outIdx k"
  shows "\<exists>k1 k2. con_arrive addr oth clears CR k = Inr k1 \<and> console_read oth n k1 = Inr (0, [], k2) \<and> rx_char k2 (SMC_CHAR_BUFFLEN - 1) = CR"
proof -
  from con_arrive_char [OF assms(1), of addr oth clears CR] obtain k1 q where
    k1: "con_arrive addr oth clears CR k = Inr k1" "rx_char k1 = (rx_char k)(rx_inIdx k := CR)" "rx_inIdx k1 = 0"
    "rx_outIdx k1 = rx_outIdx k" "con_stdio_init k1" "con_rx_sem k1 = con_rx_sem k"
    "itc_array k1 (con_rx_sem k1) = Some q" "b_type q = SEM" "token q = v + 1"
    using assms(2) by (auto simp: SMC_CHAR_BUFFLEN_def)
  have "0 \<le> v" "con_rx_sem k < TK_MAX_NUM_Q" using assms(1) by (simp_all add: con_ok_def)
  with k1 have "console_read oth n k1 = Inr (0, [], set_errno 0 (put_itc (con_rx_sem k1) (q\<lparr>token := v\<rparr>) k1))"
    using assms(3) by (simp add: console_read_def c_assert_def sem_wait_free take_chars_def)
  with k1(1,2) assms(2) show ?thesis by auto
qed

theorem console_wrap_loses_witness:
  "\<exists>k1 k2. con_arrive id nobody False CR ((con_demo tick0 0)\<lparr>rx_inIdx := 1023, rx_outIdx := 1000\<rparr>) = Inr k1 \<and>
    console_read nobody 80 k1 = Inr (0, [], k2) \<and> rx_char k2 1023 = CR"
proof -
  have ok: "con_ok 0 ((con_demo tick0 0)\<lparr>rx_inIdx := 1023, rx_outIdx := 1000\<rparr>)"
    by (simp add: con_ok_def smc0_def TK_MAX_NUM_Q_def SMC_CHAR_BUFFLEN_def)
  show ?thesis using console_wrap_loses [OF ok, of id nobody False 80] by (simp add: SMC_CHAR_BUFFLEN_def)
qed

section \<open>Sending\<close>

text \<open>
  When no buffer is being sent and the command processor is idle, a text of up to 160 bytes is
  put into the buffer of the controller and handed over; a longer one is not sent, and its length is
  returned as if it had been.
\<close>

theorem console_write_sends:
  assumes "\<not> bit (BD_Status (TxBD (smc k))) 15" "\<not> bit (CPCR (smc k)) 0"
  shows "\<exists>k'. console_write sleep clears bs k = Some (Inr (int (length bs), k')) \<and>
    (if length bs \<le> SMC_BD_TX_BUFFLEN
     then take (length bs) (bd_buffer (TxBD (smc k'))) = bs \<and> unat (BD_Length (TxBD (smc k'))) = length bs \<and>
       bit (BD_Status (TxBD (smc k'))) 15 \<and> CPCR (smc k') = cp_command INIT_TX_PARAMS
     else k' = k)"
proof (cases "length bs \<le> SMC_BD_TX_BUFFLEN")
  case True
  have free: "wait_sent sleep k = Some (Inr k)" using assms(1) by (subst wait_sent.simps) simp
  have len: "unat (of_nat (length bs) :: 16 word) = length bs" using True by (simp add: SMC_BD_TX_BUFFLEN_def unat_of_nat)
  show ?thesis using True assms(2) len idle_command
    by (simp add: console_write_def free start_sending_def send_buffer_def wait_cp_def write_SMCE_def bit_put_field)
next
  case False
  then show ?thesis by (simp add: console_write_def)
qed

theorem console_write_sends_witness:
  "\<exists>k'. console_write Inr False [0x68, 0x69] (con_demo tick0 0) = Some (Inr (2, k')) \<and> take 2 (bd_buffer (TxBD (smc k'))) = [0x68, 0x69]"
  using console_write_sends [of "con_demo tick0 0" Inr False "[0x68, 0x69]"] by (auto simp: smc0_def SMC_BD_TX_BUFFLEN_def numeral_2_eq_2)

end
