(* ===== verification/TkDrivers.thy ===== *)
theory TkDrivers
  imports TkFilesys TkCan
begin

text \<open>
  The device drivers: \<^verbatim>\<open>bsp/drivers/null.c\<close>, \<^verbatim>\<open>con.c\<close>, \<^verbatim>\<open>mem.c\<close>,
  \<^verbatim>\<open>tim.c\<close>, \<^verbatim>\<open>timr.c\<close>, \<^verbatim>\<open>can/can.c\<close>, and the file functions of the diodes,
  \<^verbatim>\<open>gnu_powerpc/board/ESC/led.c\<close>. A driver is a table of functions that a node of the file
  system is made with. The state is the file system with the board behind it, and the data that the
  drivers keep for a handle. A function that is not implemented fails its assertion, as in the
  tables of \<open>TkFilesys\<close>.
\<close>

section \<open>State\<close>

record tim_hndl_data =
  time_open :: "32 word"
  time_offset :: "32 word"

text \<open>\<^verbatim>\<open>tmr_thread\<close> is set by \<^verbatim>\<open>pthread_create\<close>.\<close>

datatype op_mode_t = Tmr_relative | Tmr_absolute | Tmr_noblock

record tmr_hndl_data =
  tmr_open_time :: "32 word"
  time_ref :: "32 word"
  tmr_thread :: thid_t
  op_mode :: op_mode_t

text \<open>The block of a CAN handle, which has no size: what \<^verbatim>\<open>calloc\<close> and \<^verbatim>\<open>free\<close> made of it.\<close>

datatype can_block = No_block | Live_block | Freed_block

datatype drv_data = Tim_data tim_hndl_data | Tmr_data tmr_hndl_data | Led_data int | Can_data can_block

record 'k dev_fs = "(ifreg_inode_data, ifreg_hndl_data) fstate" +
  dev_data :: "nat \<Rightarrow> drv_data option"
  board :: 'k

type_synonym 'k dev_io = "'k dev_fs tk_iohandle_t"

text \<open>The outcomes of the allocations when a device is opened.\<close>

record dev_mem =
  d_handle :: bool
  d_data :: bool

definition dev_new_handle :: "dev_mem \<Rightarrow> 32 word \<Rightarrow> va list \<Rightarrow> 'k dev_fs \<Rightarrow> (nat \<times> 'k dev_fs) result" where
  "dev_new_handle M flgs args F = andThen (open_args False args) (\<lambda>i. tk_new_handle (d_handle M) i flgs F)"

definition put_data :: "nat \<Rightarrow> drv_data \<Rightarrow> 'k dev_fs \<Rightarrow> 'k dev_fs" where
  "put_data h d F = F\<lparr>dev_data := (dev_data F)(h \<mapsto> d)\<rparr>"

text \<open>Opening with data of the driver's own, from \<^verbatim>\<open>calloc\<close>, whose result is not looked at.\<close>

definition open_with :: "dev_mem \<Rightarrow> drv_data \<Rightarrow> 32 word \<Rightarrow> va list \<Rightarrow> 'k dev_fs \<Rightarrow> (int \<times> 'k dev_fs) result" where
  "open_with M d flgs args F = andThen (dev_new_handle M flgs args F) (\<lambda>(h, F1).
     if d_data M then Inr (fd_of h, put_data h d F1) else Inl Null_deref)"

definition dev_fstat :: "int \<Rightarrow> 'k dev_fs \<Rightarrow> (int \<times> mode_t) result" where
  "dev_fstat file F = andThen (the_handle (fd_handle file) F) (\<lambda>x. Inr (0, i_mode (inodes F (f_inode x))))"

section \<open>The null device\<close>

definition null_open :: "dev_mem \<Rightarrow> string \<Rightarrow> 32 word \<Rightarrow> va list \<Rightarrow> 'k dev_fs \<Rightarrow> (int \<times> 'k dev_fs) result" where
  "null_open M filename flgs args F = andThen (dev_new_handle M flgs args F) (\<lambda>(h, F1). Inr (fd_of h, F1))"

definition null_read :: "int \<Rightarrow> int \<Rightarrow> 'k dev_fs \<Rightarrow> (int \<times> 8 word list \<times> 'k dev_fs) result" where
  "null_read file len F = in_bounds (0 \<le> len) (Inr (len, replicate (nat len) 0, F))"

definition null_write :: "int \<Rightarrow> 8 word list \<Rightarrow> 'k dev_fs \<Rightarrow> (int \<times> 'k dev_fs) result" where
  "null_write file bs F = Inr (int (length bs), F)"

definition null_io :: "dev_mem \<Rightarrow> 'k dev_io" where
  "null_io M = \<lparr>io_close = Some stub_close, io_fcntl = Some stub_fcntl, io_fstat = Some dev_fstat, io_isatty = Some stub_isatty,
     io_link = Some stub_link, io_lseek = Some stub_lseek, io_open = Some (null_open M), io_read = Some null_read,
     io_stat = Some stub_stat, io_unlink = Some stub_unlink, io_write = Some null_write\<rparr>"

section \<open>The console and memory devices\<close>

text \<open>The functions of \<^verbatim>\<open>con.c\<close> and \<^verbatim>\<open>mem.c\<close> are the same up to the prefix of the names; nothing can be opened.\<close>

definition con_io :: "'k dev_io" where
  "con_io = \<lparr>io_close = Some (\<lambda>file F. Inr (-1, F)), io_fcntl = Some (\<lambda>file command. fail_with E_NOSYS),
     io_fstat = Some (\<lambda>file F. Inr (0, ISA_IFCHR)), io_isatty = Some (\<lambda>file F. Inr (1, F)), io_link = Some (\<lambda>old new. fail_with E_MLINK),
     io_lseek = Some (\<lambda>file off dir F. Inr (0, F)), io_open = Some (\<lambda>filename flgs args. fail_with E_NOSYS),
     io_read = Some (\<lambda>file len F. Inr (0, [], F)), io_stat = Some (\<lambda>file F. Inr (0, ISA_IFCHR)),
     io_unlink = Some (\<lambda>name. fail_with E_NOENT), io_write = Some (\<lambda>file bs F. Inr (int (length bs), F))\<rparr>"

definition ram_io :: "'k dev_io" where
  "ram_io = con_io"

section \<open>The time device\<close>

text \<open>\<^verbatim>\<open>clock()\<close> is what the kernel sees of the clock.\<close>

abbreviation board_clock :: "'a kern_scheme dev_fs \<Rightarrow> 32 word" where
  "board_clock F \<equiv> clock_now (board F)"

definition with_tim :: "int \<Rightarrow> 'k dev_fs \<Rightarrow> (tim_hndl_data \<Rightarrow> 'x result) \<Rightarrow> 'x result" where
  "with_tim file F f = andThen (the_handle (fd_handle file) F) (\<lambda>x. case dev_data F (fd_handle file) of
       Some (Tim_data d) \<Rightarrow> f d | _ \<Rightarrow> Inl Wild_pointer)"

definition tim_open :: "dev_mem \<Rightarrow> string \<Rightarrow> 32 word \<Rightarrow> va list \<Rightarrow> 'a kern_scheme dev_fs \<Rightarrow> (int \<times> 'a kern_scheme dev_fs) result" where
  "tim_open M filename flgs args F = open_with M (Tim_data \<lparr>time_open = board_clock F, time_offset = 0\<rparr>) flgs args F"

text \<open>The clock is copied out whatever the length of the buffer is.\<close>

definition tim_read :: "int \<Rightarrow> int \<Rightarrow> 'a kern_scheme dev_fs \<Rightarrow> (int \<times> 8 word list \<times> 'a kern_scheme dev_fs) result" where
  "tim_read file len F = with_tim file F (\<lambda>d. in_bounds (4 \<le> len) (Inr (4, be_bytes 4 (board_clock F - time_offset d), F)))"

definition tim_write :: "int \<Rightarrow> 8 word list \<Rightarrow> 'a kern_scheme dev_fs \<Rightarrow> (int \<times> 'a kern_scheme dev_fs) result" where
  "tim_write file bs F = with_tim file F (\<lambda>d. Inr (4, put_data (fd_handle file) (Tim_data (d\<lparr>time_offset := board_clock F\<rparr>)) F))"

definition tim_io :: "dev_mem \<Rightarrow> 'a kern_scheme dev_io" where
  "tim_io M = \<lparr>io_close = Some stub_close, io_fcntl = Some stub_fcntl, io_fstat = Some dev_fstat, io_isatty = Some stub_isatty,
     io_link = Some stub_link, io_lseek = Some stub_lseek, io_open = Some (tim_open M), io_read = Some tim_read,
     io_stat = Some stub_stat, io_unlink = Some stub_unlink, io_write = Some tim_write\<rparr>"

section \<open>The timer device\<close>

definition with_tmr :: "int \<Rightarrow> 'k dev_fs \<Rightarrow> (tmr_hndl_data \<Rightarrow> 'x result) \<Rightarrow> 'x result" where
  "with_tmr file F f = andThen (the_handle (fd_handle file) F) (\<lambda>x. case dev_data F (fd_handle file) of
       Some (Tmr_data d) \<Rightarrow> f d | _ \<Rightarrow> Inl Wild_pointer)"

text \<open>
  The thread sleeps and returns how late it is. \<^verbatim>\<open>usleep\<close> is \<^verbatim>\<open>tk_msleep\<close> of the
  thousandth part.
\<close>

definition timr_thread :: "'a others \<Rightarrow> tmr_hndl_data \<Rightarrow> 'a kern_scheme \<Rightarrow> (32 word \<times> 'a kern_scheme) result" where
  "timr_thread oth d k =
     andThen (case op_mode d of
         Tmr_relative \<Rightarrow> tk_msleep oth (time_ref d div 1000) k
       | Tmr_absolute \<Rightarrow> tk_msleep oth ((time_ref d - clock_now k) div 1000) k
       | Tmr_noblock \<Rightarrow> Inr k)
     (\<lambda>k1. Inr (clock_now k1 - time_ref d, k1))"

definition tmr_open :: "dev_mem \<Rightarrow> string \<Rightarrow> 32 word \<Rightarrow> va list \<Rightarrow> 'a kern_scheme dev_fs \<Rightarrow> (int \<times> 'a kern_scheme dev_fs) result" where
  "tmr_open M filename flgs args F = open_with M
     (Tmr_data \<lparr>tmr_open_time = board_clock F, time_ref = 10000000, tmr_thread = 0, op_mode = Tmr_relative\<rparr>) flgs args F"

text \<open>
  Reading starts the thread, with the name that the macro \<^verbatim>\<open>pthread_create\<close> makes of the function,
  and waits for it; \<open>stk\<close> is its stack, and the argument the address of the handle. What the
  join does not deliver leaves the time of the call.
\<close>

definition tmr_read :: "'a others \<Rightarrow> nat option \<Rightarrow> int \<Rightarrow> int \<Rightarrow> 'a kern_scheme dev_fs \<Rightarrow> (int \<times> 8 word list \<times> 'a kern_scheme dev_fs) result" where
  "tmr_read oth stk file len F = with_tmr file F (\<lambda>d.
     andThen (tk_create_thread oth stk ''*timr_thread'' (TK_MAX_PRIO_LEVELS div 2) file TK_NORMAL_STACK_SIZE (board F)) (\<lambda>(t, k1).
       andThen (tk_join oth (Thid (pool k1 t)) k1) (\<lambda>(_, r, k2).
         in_bounds (4 \<le> len) (Inr (4, be_bytes 4 (case r of None \<Rightarrow> board_clock F | Some v \<Rightarrow> word_of_int v),
           put_data (fd_handle file) (Tmr_data (d\<lparr>tmr_thread := t\<rparr>)) (F\<lparr>board := k2\<rparr>))))))"

text \<open>The reference time is the first four bytes of the buffer.\<close>

definition tmr_write :: "int \<Rightarrow> 8 word list \<Rightarrow> 'a kern_scheme dev_fs \<Rightarrow> (int \<times> 'a kern_scheme dev_fs) result" where
  "tmr_write file bs F = with_tmr file F (\<lambda>d. in_bounds (4 \<le> length bs)
     (Inr (4, put_data (fd_handle file) (Tmr_data (d\<lparr>time_ref := be_word (take 4 bs)\<rparr>)) F)))"

definition tmr_io :: "'a others \<Rightarrow> nat option \<Rightarrow> dev_mem \<Rightarrow> 'a kern_scheme dev_io" where
  "tmr_io oth stk M = \<lparr>io_close = Some stub_close, io_fcntl = Some stub_fcntl, io_fstat = Some dev_fstat, io_isatty = Some stub_isatty,
     io_link = Some stub_link, io_lseek = Some stub_lseek, io_open = Some (tmr_open M), io_read = Some (tmr_read oth stk),
     io_stat = Some stub_stat, io_unlink = Some stub_unlink, io_write = Some tmr_write\<rparr>"

section \<open>The diodes\<close>

text \<open>The four devices differ in the number that is kept for a handle, and in the functions for reading and writing.\<close>

definition led_open :: "dev_mem \<Rightarrow> nat \<Rightarrow> string \<Rightarrow> 32 word \<Rightarrow> va list \<Rightarrow> 'k dev_fs \<Rightarrow> (int \<times> 'k dev_fs) result" where
  "led_open M n filename flgs args F = open_with M (Led_data (int n)) flgs args F"

definition led_fstat :: "int \<Rightarrow> 'k dev_fs \<Rightarrow> (int \<times> mode_t) result" where
  "led_fstat file F = andThen (the_handle (fd_handle file) F) (\<lambda>x.
     let m = i_mode (inodes F (f_inode x)) in Inr (0, if m \<noteq> 0 then m else ISA_IFBLK))"

text \<open>\<open>before\<close> is what the buffer of the caller holds, which stays there when the length is none of 1, 2 and 4.\<close>

definition led_dev_read :: "nat \<Rightarrow> 8 word list \<Rightarrow> int \<Rightarrow> int \<Rightarrow> 'a esc_kern_scheme dev_fs \<Rightarrow> (int \<times> 8 word list \<times> 'a esc_kern_scheme dev_fs) result" where
  "led_dev_read n before file len F = in_bounds (0 \<le> len \<and> len \<le> int (length before))
     (case led_read n (take (nat len) before) (board F) of (rc, bs) \<Rightarrow> Inr (rc, bs, F))"

definition led_dev_write :: "nat \<Rightarrow> int \<Rightarrow> 8 word list \<Rightarrow> 'a esc_kern_scheme dev_fs \<Rightarrow> (int \<times> 'a esc_kern_scheme dev_fs) result" where
  "led_dev_write n file bs F = (case led_write n bs (board F) of (rc, k) \<Rightarrow> Inr (rc, F\<lparr>board := k\<rparr>))"

text \<open>The functions that the tables take from \<^verbatim>\<open>fs_ifblk.c\<close> fail, too.\<close>

definition led_io :: "dev_mem \<Rightarrow> 8 word list \<Rightarrow> nat \<Rightarrow> 'a esc_kern_scheme dev_io" where
  "led_io M before n = \<lparr>io_close = Some stub_close, io_fcntl = Some stub_fcntl, io_fstat = Some led_fstat,
     io_isatty = Some (\<lambda>file F. Inr (0, F)), io_link = Some stub_link, io_lseek = Some stub_lseek, io_open = Some (led_open M n),
     io_read = Some (led_dev_read n before), io_stat = Some stub_stat, io_unlink = Some stub_unlink, io_write = Some (led_dev_write n)\<rparr>"

section \<open>The CAN device\<close>

definition can_close :: "int \<Rightarrow> 'k dev_fs \<Rightarrow> (int \<times> 'k dev_fs) result" where
  "can_close file F = andThen (the_handle (fd_handle file) F) (\<lambda>x. case dev_data F (fd_handle file) of
       Some (Can_data No_block) \<Rightarrow> Inr (-1, F)
     | Some (Can_data Live_block) \<Rightarrow> Inr (-1, put_data (fd_handle file) (Can_data Freed_block) F)
     | Some (Can_data Freed_block) \<Rightarrow> Inl Double_free
     | _ \<Rightarrow> Inl Wild_pointer)"

definition can_open :: "dev_mem \<Rightarrow> string \<Rightarrow> 32 word \<Rightarrow> va list \<Rightarrow> 'k dev_fs \<Rightarrow> (int \<times> 'k dev_fs) result" where
  "can_open M filename flgs args F = andThen (dev_new_handle M flgs args F) (\<lambda>(h, F1).
     Inr (fd_of h, put_data h (Can_data (if d_data M then Live_block else No_block)) F1))"

definition can_read :: "(thid_t \<Rightarrow> 'a can_kern_scheme \<Rightarrow> 'a can_kern_scheme result) \<Rightarrow> int \<Rightarrow> int \<Rightarrow> 'a can_kern_scheme dev_fs \<Rightarrow>
  (int \<times> 8 word list \<times> 'a can_kern_scheme dev_fs) result" where
  "can_read oth file len F = andThen (sja1000_read oth (nat len) (board F)) (\<lambda>(rc, bs, k). Inr (rc, bs, F\<lparr>board := k\<rparr>))"

definition can_write :: "(thid_t \<Rightarrow> 'a can_kern_scheme \<Rightarrow> 'a can_kern_scheme result) \<Rightarrow> 8 word list \<Rightarrow> int \<Rightarrow> 8 word list \<Rightarrow> 'a can_kern_scheme dev_fs \<Rightarrow>
  (int \<times> 'a can_kern_scheme dev_fs) result" where
  "can_write oth junk file bs F = (case sja1000_write oth junk bs (board F) of
       None \<Rightarrow> Inl Hangs | Some r \<Rightarrow> andThen r (\<lambda>(rc, k). Inr (rc, F\<lparr>board := k\<rparr>)))"

definition can_io :: "dev_mem \<Rightarrow> (thid_t \<Rightarrow> 'a can_kern_scheme \<Rightarrow> 'a can_kern_scheme result) \<Rightarrow> 8 word list \<Rightarrow> 'a can_kern_scheme dev_io" where
  "can_io M oth junk = \<lparr>io_close = Some can_close, io_fcntl = Some stub_fcntl, io_fstat = Some dev_fstat,
     io_isatty = Some stub_isatty, io_link = Some stub_link, io_lseek = Some stub_lseek, io_open = Some (can_open M),
     io_read = Some (can_read oth), io_stat = Some stub_stat, io_unlink = Some stub_unlink, io_write = Some (can_write oth junk)\<rparr>"

section \<open>The tables by number, and making the nodes\<close>

definition null_dev :: iohandle where "null_dev = Dev_io 0"
definition con_dev :: iohandle where "con_dev = Dev_io 1"
definition ram_dev :: iohandle where "ram_dev = Dev_io 2"
definition tim_dev :: iohandle where "tim_dev = Dev_io 3"
definition tmr_dev :: iohandle where "tmr_dev = Dev_io 4"
definition can_dev :: iohandle where "can_dev = Dev_io 5"
definition led_dev :: "nat \<Rightarrow> iohandle" where "led_dev n = Dev_io (6 + n)"

record 'k dev_env =
  v_mem :: dev_mem
  v_others :: "thid_t \<Rightarrow> 'k \<Rightarrow> 'k result"
  v_stack :: "nat option"
  v_junk :: "8 word list"

definition dev_tables :: "'a can_kern_scheme dev_env \<Rightarrow> nat \<Rightarrow> 'a can_kern_scheme dev_io" where
  "dev_tables V n =
     (if n = 0 then null_io (v_mem V) else if n = 1 then con_io else if n = 2 then ram_io
      else if n = 3 then tim_io (v_mem V) else if n = 4 then tmr_io (v_others V) (v_stack V) (v_mem V)
      else if n = 5 then can_io (v_mem V) (v_others V) (v_junk V) else led_io (v_mem V) (v_junk V) (n - 6))"

text \<open>A node that cannot be made stops the system.\<close>

definition dev_node :: "node_env \<Rightarrow> string \<Rightarrow> mode_t \<Rightarrow> iohandle \<Rightarrow> 'k dev_fs \<Rightarrow> 'k dev_fs result" where
  "dev_node M nm mode io F = andThen (mknod M nm mode (Some io) F) (\<lambda>(rc, F1). c_assert (rc = 0) (Inr F1))"

text \<open>What the start functions return is a description, or null for those that are not called by the file system.\<close>

definition null_init_0 :: "node_env \<Rightarrow> 'k dev_fs \<Rightarrow> (bool \<times> 'k dev_fs) result" where
  "null_init_0 M F = andThen (dev_node M ''/dev/null'' ISA_IFCHR null_dev F) (\<lambda>F1. Inr (True, F1))"

definition con_init_0 :: "node_env \<Rightarrow> 'k dev_fs \<Rightarrow> (bool \<times> 'k dev_fs) result" where
  "con_init_0 M F = andThen (dev_node M ''/dev/con0'' ISA_IFBLK con_dev F) (\<lambda>F1. Inr (True, F1))"

definition con_init_1 :: "node_env \<Rightarrow> 'k dev_fs \<Rightarrow> (bool \<times> 'k dev_fs) result" where
  "con_init_1 M F = andThen (dev_node M ''/dev/con1'' ISA_IFBLK con_dev F) (\<lambda>F1. Inr (True, F1))"

definition ram_init :: "node_env \<Rightarrow> 'k dev_fs \<Rightarrow> (bool \<times> 'k dev_fs) result" where
  "ram_init M F = andThen (mknod M ''/dev/mem'' ISA_IFDIR None F) (\<lambda>(rc, F0). c_assert (rc = 0)
     (andThen (foldR (\<lambda>nm. dev_node M nm ISA_IFCHR ram_dev) [''/dev/ram0'', ''/dev/ram1'', ''/dev/ram2'', ''/dev/ram3''] F0)
       (\<lambda>F1. Inr (True, F1))))"

definition tim_init_0 :: "node_env \<Rightarrow> 'k dev_fs \<Rightarrow> (bool \<times> 'k dev_fs) result" where
  "tim_init_0 M F = andThen (dev_node M ''/dev/time'' ISA_IFBLK tim_dev F) (\<lambda>F1. Inr (True, F1))"

definition tmr_init_0 :: "node_env \<Rightarrow> 'k dev_fs \<Rightarrow> (bool \<times> 'k dev_fs) result" where
  "tmr_init_0 M F = andThen (dev_node M ''/dev/timer'' ISA_IFBLK tmr_dev F) (\<lambda>F1. Inr (True, F1))"

text \<open>The preprocessor makes a string of the two tokens of the argument, with the space between them.\<close>

definition led_names :: "string list" where
  "led_names = [''/dev/led0 _red'', ''/dev/led0 _green'', ''/dev/led1 _red'', ''/dev/led1 _green'']"

definition led_init :: "node_env \<Rightarrow> 'k dev_fs \<Rightarrow> (bool \<times> 'k dev_fs) result" where
  "led_init M F = andThen (foldR (\<lambda>n. dev_node M (led_names ! n) ISA_IFBLK (led_dev n)) [0, 1, 2, 3] F) (\<lambda>F1. Inr (True, F1))"

text \<open>Stopping a driver does nothing.\<close>

definition dev_fini :: "'k dev_fs \<Rightarrow> (bool \<times> 'k dev_fs) result" where
  "dev_fini F = Inr (True, F)"

text \<open>The controller is started and its node made; the result is the node that the name then has, found or not.\<close>

definition can_init :: "itc_t option \<Rightarrow> bool \<Rightarrow> (nat \<Rightarrow> bool) \<Rightarrow> node_env \<Rightarrow> nat \<Rightarrow> int \<Rightarrow> bool \<Rightarrow> int \<Rightarrow> 32 word \<Rightarrow> 32 word \<Rightarrow>
  'a can_kern_scheme dev_fs \<Rightarrow> (nat option \<times> 'a can_kern_scheme dev_fs) result" where
  "can_init m1 m2 rm M IRQn pmode xmode bps ac am F = (case sja1000_init m1 m2 rm IRQn pmode xmode bps ac am (board F) of
       None \<Rightarrow> Inl Hangs
     | Some r \<Rightarrow> andThen r (\<lambda>(rc, k). c_assert (rc = 0)
         (andThen (mknod M ''/dev/can0'' ISA_IFBLK (Some can_dev) (F\<lparr>board := k\<rparr>)) (\<lambda>(_, F1).
           andThen (isearch F1 (Rnod F1) ''/dev/can0'') (\<lambda>r. Inr (r, F1))))))"

text \<open>The obsolete start of \<^verbatim>\<open>can.c\<close>, with the parameters of the ESC board.\<close>

definition can_init_0 :: "itc_t option \<Rightarrow> bool \<Rightarrow> (nat \<Rightarrow> bool) \<Rightarrow> node_env \<Rightarrow> 'a can_kern_scheme dev_fs \<Rightarrow> (bool \<times> 'a can_kern_scheme dev_fs) result" where
  "can_init_0 m1 m2 rm M F = (case sja1000_init m1 m2 rm lvl_IRQ_3 1 True 500000 0 0xFFFFFFFF (board F) of
       None \<Rightarrow> Inl Hangs
     | Some r \<Rightarrow> andThen r (\<lambda>(rc, k). c_assert (rc = 0)
         (andThen (dev_node M ''/dev/can0'' ISA_IFBLK can_dev (F\<lparr>board := k\<rparr>)) (\<lambda>F1. Inr (True, F1)))))"

end
