(* ===== verification/TkBoardProps.thy ===== *)
theory TkBoardProps
  imports TkBoardDemo
begin

text \<open>
  The ESC board: the end of an interrupt, the three handlers of the periodic timer and the clock
  that is made of their ticks, and the diodes as devices.
\<close>

section \<open>Interrupts\<close>

text \<open>
  Ending one interrupt drops all that are pending: \<^verbatim>\<open>tk_isr_eoi\<close> reads the register, sets
  its bit and writes the whole back, and writing a one clears a bit.
\<close>

theorem eoi_drops_all: "SIPEND (tk_isr_eoi level c) = 0"
proof -
  have "d AND NOT (d OR x) = 0" for d x :: "32 word" by (rule bit_word_eqI) (auto simp: bit_and_iff bit_not_iff bit_or_iff)
  then show ?thesis by (simp add: tk_isr_eoi_def write_SIPEND_def bitset_def)
qed

section \<open>The clock\<close>

lemma PS_bit: "bitset PISCR_PS (r :: 16 word) = put_field 7 1 1 r"
  by (rule bit_word_eqI) (auto simp: bit_bitset bit_put_field PISCR_PS_def)

text \<open>
  The three handlers of the timer do the same, except when the low part of the ticks wraps: the
  first one carries into the high part and the others, the one in use among them, do not.
\<close>

theorem timer_handlers_agree:
  "systimer_Handler_2 k = systimer_Handler_3 k \<and>
   (sys_mickey (ticks k) + 1 \<noteq> 0 \<longrightarrow> systimer_Handler_1 k = systimer_Handler_3 k) \<and>
   (sys_mickey (ticks k) + 1 = 0 \<longrightarrow> ticks (systimer_Handler_1 k) = \<lparr>sys_mickey = 0, sys_mackey = sys_mackey (ticks k) + 1\<rparr> \<and>
     ticks (systimer_Handler_3 k) = \<lparr>sys_mickey = 0, sys_mackey = sys_mackey (ticks k)\<rparr>)"
  by (cases "ticks k") (simp add: systimer_Handler_1_def systimer_Handler_2_def systimer_Handler_3_def PS_bit)

theorem timer_handlers_agree_witness:
  "ticks (systimer_Handler_1 (esc_demo \<lparr>sys_mickey = 0xFFFFFFFF, sys_mackey = 0\<rparr> 0)) = \<lparr>sys_mickey = 0, sys_mackey = 1\<rparr> \<and>
   ticks (systimer_Handler_3 (esc_demo \<lparr>sys_mickey = 0xFFFFFFFF, sys_mackey = 0\<rparr> 0)) = \<lparr>sys_mickey = 0, sys_mackey = 0\<rparr> \<and>
   systimer_Handler_1 (esc_demo \<lparr>sys_mickey = 7, sys_mackey = 0\<rparr> 0) = systimer_Handler_3 (esc_demo \<lparr>sys_mickey = 7, sys_mackey = 0\<rparr> 0)"
  using timer_handlers_agree [of "esc_demo \<lparr>sys_mickey = 0xFFFFFFFF, sys_mackey = 0\<rparr> 0"]
    timer_handlers_agree [of "esc_demo \<lparr>sys_mickey = 7, sys_mackey = 0\<rparr> 0"] by simp

lemma clock_low: "ppc_clock t = sys_mickey t * 1000"
proof -
  let ?a = "uint (sys_mackey t)" and ?b = "uint (sys_mickey t)"
  have hi: "uint (ucast (x :: 32 word) :: 64 word) = uint x" for x
    by (rule uint_up_ucast) (simp add: is_up)
  have cut: "(((4294967296 * a + b) mod 18446744073709551616) * 1000) mod 18446744073709551616 mod 4294967296 = (b * 1000) mod (4294967296 :: int)" for a b
    using mod_mult_self1 [of "b * 1000" "1000 * a" 4294967296] by (simp add: mod_mod_cancel mod_simps add.commute)
  have "uint (ppc_clock t) = (((4294967296 * ?a + ?b) mod 18446744073709551616) * 1000) mod 18446744073709551616 mod 4294967296"
    by (simp add: ppc_clock_def MRATIO_def unsigned_ucast_eq uint_word_ariths take_bit_eq_mod push_bit_eq_mult hi mod_simps mult.commute)
  also have "\<dots> = uint (sys_mickey t * 1000)" by (simp add: cut uint_word_ariths)
  finally show ?thesis by (simp only: word_uint_eq_iff)
qed

text \<open>
  C34. The clock of the C library does not see the difference: it is the low part times thousand,
  so that after \<open>n\<close> interrupts it has moved by \<open>n\<close> milliseconds, in the arithmetic of 32 bits.
\<close>

theorem clock_counts:
  "ppc_clock (ticks ((systimer_Handler_3 ^^ n) k)) = ppc_clock (ticks k) + of_nat n * 1000 \<and>
   ppc_clock (ticks ((systimer_Handler_1 ^^ n) k)) = ppc_clock (ticks k) + of_nat n * 1000"
proof -
  have "sys_mickey (ticks ((systimer_Handler_3 ^^ n) k)) = sys_mickey (ticks k) + of_nat n"
    by (induction n) (simp_all add: systimer_Handler_3_def)
  moreover have "sys_mickey (ticks ((systimer_Handler_1 ^^ n) k)) = sys_mickey (ticks k) + of_nat n"
    by (induction n) (simp_all add: systimer_Handler_1_def Let_def)
  ultimately show ?thesis by (simp add: clock_low algebra_simps)
qed

section \<open>Diodes\<close>

definition lit :: "nat \<Rightarrow> 'a esc_kern_scheme \<Rightarrow> bool" where
  "lit n k \<longleftrightarrow> (case led_of n of (ident, color) \<Rightarrow> \<not> bit (PADAT (chip k)) (15 - led_pin ident color))"

lemma pin_set: "n < 16 \<Longrightarrow> bit (bitset n (d :: 16 word)) j \<longleftrightarrow> bit d j \<or> j = 15 - n"
  using bit_bitset [where ?'a = 16] by simp

lemma pin_clear: "n < 16 \<Longrightarrow> bit (bitclear n (d :: 16 word)) j \<longleftrightarrow> bit d j \<and> j \<noteq> 15 - n"
  using bit_bitclear [where ?'a = 16] by simp

lemma be_word_0: "8 * length bs \<le> LENGTH('a) \<Longrightarrow> (be_word bs :: 'a::len word) = 0 \<longleftrightarrow> (\<forall>b \<in> set bs. b = 0)"
proof
  assume l: "8 * length bs \<le> LENGTH('a)" and z: "(be_word bs :: 'a word) = 0"
  have "be_bytes n (0 :: 'a word) = replicate n 0" for n by (induction n) simp_all
  with be_bytes_word [OF l] z show "\<forall>b \<in> set bs. b = 0" by (metis in_set_replicate)
next
  assume "\<forall>b \<in> set bs. b = 0"
  then show "(be_word bs :: 'a word) = 0" by (induction bs) simp_all
qed

text \<open>The status of the lengths that the device knows, and what is read of it.\<close>

lemma led_status_bytes:
  assumes "length bs \<in> {1, 2, 4}"
  shows "led_status bs old \<noteq> 0 \<longleftrightarrow> (\<exists>b \<in> set bs. b \<noteq> 0)"
    and "length buf = length bs \<Longrightarrow> ledstat k n = led_status bs old \<Longrightarrow> led_read n buf k = (int (length bs), bs)"
proof -
  have c: "be_bytes 4 (be_word bs :: 32 word) = bs" if "length bs = 4" using be_bytes_word [of bs, where ?'a = 32] that by simp
  have b: "be_bytes 2 (be_word bs :: 16 word) = bs" if "length bs = 2" using be_bytes_word [of bs, where ?'a = 16] that by simp
  have z: "(be_word bs :: 16 word) = 0 \<longleftrightarrow> (\<forall>b \<in> set bs. b = 0)" if "length bs \<le> 2"
    by (rule be_word_0) (use that in simp)
  have z4: "(be_word bs :: 32 word) = 0 \<longleftrightarrow> (\<forall>b \<in> set bs. b = 0)" if "length bs \<le> 4"
    by (rule be_word_0) (use that in simp)
  show "led_status bs old \<noteq> 0 \<longleftrightarrow> (\<exists>b \<in> set bs. b \<noteq> 0)"
    using assms z z4 by (auto simp: led_status_def unsigned_eq_0_iff signed_eq_0_iff)
  show "led_read n buf k = (int (length bs), bs)" if "length buf = length bs" "ledstat k n = led_status bs old"
  proof -
    have u: "word_of_int (uint w) = (ucast w :: 'b::len word)" for w :: "16 word" by (rule ucast_eq [symmetric])
    have a: "ucast (be_word bs :: 16 word) = hd bs" if "length bs = 1"
      using be_bytes_word [of bs, where ?'a = 16] that by (cases bs) simp_all
    have w: "word_of_int (uint (be_word bs :: 16 word)) = (be_word bs :: 16 word)" "word_of_int (sint (be_word bs :: 32 word)) = (be_word bs :: 32 word)"
      by simp_all
    from assms consider "length bs = Suc 0" | "length bs = Suc (Suc 0)" | "length bs = Suc (Suc (Suc (Suc 0)))" by force
    then show ?thesis
    proof cases
      case 1 then show ?thesis using that a by (simp add: led_read_def led_status_def u) (cases bs; simp)
    next
      case 2 then show ?thesis using that b w by (simp add: led_read_def led_status_def)
    next
      case 3 then show ?thesis using that c w by (simp add: led_read_def led_status_def)
    qed
  qed
qed

text \<open>
  A status that is written to a diode in one, two or four bytes is read back, the diode is lit
  exactly when the status is not zero, and the other diodes stay as they are.
\<close>

theorem led_write_read:
  assumes "n < 4" "length bs \<in> {1, 2, 4}" "length buf = length bs"
  shows "\<exists>k'. led_write n bs k = (int (length bs), k') \<and> led_read n buf k' = (int (length bs), bs) \<and>
    (lit n k' \<longleftrightarrow> (\<exists>b \<in> set bs. b \<noteq> 0)) \<and> (\<forall>m < 4. m \<noteq> n \<longrightarrow> lit m k' = lit m k)"
proof (intro exI conjI allI impI)
  let ?k = "snd (led_write n bs k)"
  have st: "ledstat ?k n = led_status bs (ledstat k n)"
    by (simp add: led_write_def led_on_def led_off_def Let_def split: prod.split)
  show "led_write n bs k = (int (length bs), ?k)" by (simp add: led_write_def Let_def split: prod.split)
  show "led_read n buf ?k = (int (length bs), bs)" by (rule led_status_bytes(2) [OF assms(2,3) st])
  show "lit n ?k \<longleftrightarrow> (\<exists>b \<in> set bs. b \<noteq> 0)"
    unfolding led_status_bytes(1) [OF assms(2), of "ledstat k n", symmetric] using assms(1)
    by (simp add: led_write_def lit_def led_on_def led_off_def Let_def led_pin_def pin_set pin_clear split: prod.split)
  show "lit m ?k = lit m k" if "m < 4" "m \<noteq> n" for m
    using assms(1) that
    by (auto simp: led_write_def lit_def led_on_def led_off_def Let_def led_pin_def led_of_def pin_set pin_clear split: if_splits)
qed

theorem led_write_read_witness:
  "\<exists>k'. led_write 2 [0, 1] (esc_demo tick0 0) = (2, k') \<and> led_read 2 [9, 9] k' = (2, [0, 1]) \<and> lit 2 k'"
  using led_write_read [of 2 "[0, 1]" "[9, 9]" "esc_demo tick0 0"] by auto

end
