(* ===== verification/TkDriversProps.thy ===== *)
theory TkDriversProps
  imports TkDrivers TkBootProps TkBoardProps
begin

text \<open>
  The device drivers behind the system calls: the nodes that the start makes for them, what
  opening does, and what reading and writing of the diodes, the time device and the null device
  give through a descriptor.
\<close>

section \<open>The nodes\<close>

text \<open>The tables that nodes are served by.\<close>

definition wired :: "(nat \<times> iohandle) list \<Rightarrow> ('d, 'a) filesys_scheme \<Rightarrow> bool" where
  "wired ds F \<longleftrightarrow> (\<forall>(i, io) \<in> set ds. i < ilid F \<and> i_iohandle (inodes F i) = Some io)"

lemma dev_node_shape:
  assumes "shape ns ps F" "wired ds F" "fits_in ns ps pre p nm" "good_mem M"
  shows "\<exists>F'. dev_node M (pre @ CHR ''/'' # nm) mode io F = Inr F' \<and> shape (ns @ [nm]) (ps @ [p]) F' \<and> wired (ds @ [(length ns, io)]) F'"
proof -
  have F: "tree_ok F" "unmounted F" "ilid F = length ns" using assms(1) by (simp_all add: shape_def)
  have l: "lookup F 0 (tokens pre) = Some p" using assms(3) by (simp add: shape_lookup [OF assms(1)] fits_in_def)
  have fr: "find (named F nm) (scanned F p) = None"
    using assms(3) shape_find [OF assms(1), of "scanned_in ps p" nm] by (simp add: shape_scanned [OF assms(1)] fits_in_def)
  obtain F' where F': "mknod M (pre @ CHR ''/'' # nm) mode (Some io) F = Inr (0, F')" "unmounted F'" "tree_ok F'"
    "grown F p (new_inode nm mode (Some io) p (ilid F)) F'"
    using mknod_adds [OF F(1,2) l _ _ _ _ fr, of M mode "Some io"] assms(3,4) by (auto simp: fits_in_def good_mem_def)
  have "shape (ns @ [nm]) (ps @ [p]) F'"
    using assms(1) F'(2-) by (auto simp: shape_def grown_def nth_append less_Suc_eq new_inode_def)
  moreover have "wired (ds @ [(length ns, io)]) F'"
    using assms(2) F'(4) F(3) by (auto simp: wired_def grown_def new_inode_def)
  ultimately show ?thesis using F'(1) by (auto simp: dev_node_def)
qed

definition dev_nodes :: "(string \<times> mode_t \<times> iohandle) list" where
  "dev_nodes = [(''null'', ISA_IFCHR, null_dev), (''con0'', ISA_IFBLK, con_dev), (''con1'', ISA_IFBLK, con_dev),
     (''time'', ISA_IFBLK, tim_dev), (''timer'', ISA_IFBLK, tmr_dev), (''led0 _red'', ISA_IFBLK, led_dev 0),
     (''led0 _green'', ISA_IFBLK, led_dev 1), (''led1 _red'', ISA_IFBLK, led_dev 2), (''led1 _green'', ISA_IFBLK, led_dev 3)]"

definition dev_path :: "string \<Rightarrow> string" where
  "dev_path nm = ''/dev'' @ CHR ''/'' # nm"

definition esc_drivers :: "node_env \<Rightarrow> ('k dev_fs \<Rightarrow> (bool \<times> 'k dev_fs) result) list" where
  "esc_drivers M = [null_init_0 M, con_init_0 M, con_init_1 M, tim_init_0 M, tmr_init_0 M, led_init M]"

definition make_dev :: "node_env \<Rightarrow> string \<times> mode_t \<times> iohandle \<Rightarrow> 'k dev_fs \<Rightarrow> 'k dev_fs result" where
  "make_dev M d F = dev_node M (dev_path (fst d)) (fst (snd d)) (snd (snd d)) F"

lemma foldR_lazy: "foldR f [] = Inr" "foldR f (i # is) = (\<lambda>s. andThen (f i s) (foldR f is))"
  by (rule ext, simp)+

lemma andThen_assoc_pair: "andThen (andThen m (\<lambda>x. Inr (True, x))) (\<lambda>(dinfo, F1). c_assert dinfo (Inr F1)) = m"
  by (cases m) simp_all

lemma run_drivers_one:
  "run_driver (null_init_0 M) = make_dev M (''null'', ISA_IFCHR, null_dev)" "run_driver (con_init_0 M) = make_dev M (''con0'', ISA_IFBLK, con_dev)"
  "run_driver (con_init_1 M) = make_dev M (''con1'', ISA_IFBLK, con_dev)" "run_driver (tim_init_0 M) = make_dev M (''time'', ISA_IFBLK, tim_dev)"
  "run_driver (tmr_init_0 M) = make_dev M (''timer'', ISA_IFBLK, tmr_dev)" "run_driver (led_init M) = foldR (make_dev M) (drop 5 dev_nodes)"
  by (rule ext, simp add: dev_nodes_def make_dev_def dev_path_def null_init_0_def con_init_0_def con_init_1_def tim_init_0_def tmr_init_0_def
      led_init_def led_names_def run_driver_def andThen_assoc_pair foldR_lazy)+

lemma drivers_nodes: "foldR run_driver (esc_drivers M) F = foldR (make_dev M) dev_nodes F"
  by (simp add: esc_drivers_def run_drivers_one foldR_lazy) (simp add: dev_nodes_def foldR_lazy)

definition dev_names :: "string list" where "dev_names = boot_names @ map fst dev_nodes"
definition dev_parents :: "nat list" where "dev_parents = boot_parents @ replicate 9 1"

lemma dev_fits: "\<forall>j \<in> set [0..<9]. fits_in (take (7 + j) dev_names) (take (7 + j) dev_parents) ''/dev'' 1 (fst (dev_nodes ! j))"
  by code_simp

lemma dev_found: "\<forall>j \<in> set [0..<9]. lookup_in dev_names dev_parents 0 (tokens (dev_path (fst (dev_nodes ! j)))) = Some (7 + j) \<and>
    length (dev_path (fst (dev_nodes ! j))) < PATH_MAX"
  by code_simp

definition dev_wires :: "nat \<Rightarrow> (nat \<times> iohandle) list" where
  "dev_wires j = map (\<lambda>i. (7 + i, snd (snd (dev_nodes ! i)))) [0..<j]"

lemma nine [simp]: "length dev_nodes = 9" "length boot_names = 7" "length boot_parents = 7"
  by (simp_all add: dev_nodes_def boot_names_def boot_parents_def)

lemma dev_step:
  assumes "j < 9" "shape (take (7 + j) dev_names) (take (7 + j) dev_parents) F" "wired (dev_wires j) F" "good_mem M"
  shows "\<exists>F'. make_dev M (dev_nodes ! j) F = Inr F' \<and> shape (take (7 + Suc j) dev_names) (take (7 + Suc j) dev_parents) F' \<and> wired (dev_wires (Suc j)) F'"
proof -
  have "fits_in (take (7 + j) dev_names) (take (7 + j) dev_parents) ''/dev'' 1 (fst (dev_nodes ! j))" using dev_fits assms(1) by simp
  from dev_node_shape [OF assms(2,3) this assms(4)] obtain F' where F':
    "make_dev M (dev_nodes ! j) F = Inr F'" "shape (take (7 + j) dev_names @ [fst (dev_nodes ! j)]) (take (7 + j) dev_parents @ [1]) F'"
    "wired (dev_wires j @ [(length (take (7 + j) dev_names), snd (snd (dev_nodes ! j)))]) F'"
    unfolding make_dev_def dev_path_def by blast
  moreover have "take (7 + Suc j) dev_names = take (7 + j) dev_names @ [fst (dev_nodes ! j)]"
    using assms(1) take_Suc_conv_app_nth [of "7 + j" dev_names] by (simp add: dev_names_def nth_append)
  moreover have "take (7 + Suc j) dev_parents = take (7 + j) dev_parents @ [1]"
    using assms(1) take_Suc_conv_app_nth [of "7 + j" dev_parents] by (simp add: dev_parents_def nth_append)
  moreover have "length (take (7 + j) dev_names) = 7 + j" using assms(1) by (simp add: dev_names_def)
  ultimately show ?thesis by (simp add: dev_wires_def)
qed

lemma dev_rest:
  assumes "good_mem M"
  shows "j \<le> 9 \<Longrightarrow> shape (take (7 + (9 - j)) dev_names) (take (7 + (9 - j)) dev_parents) F \<Longrightarrow> wired (dev_wires (9 - j)) F \<Longrightarrow>
    \<exists>F'. foldR (make_dev M) (drop (9 - j) dev_nodes) F = Inr F' \<and> shape dev_names dev_parents F' \<and> wired (dev_wires 9) F'"
proof (induction j arbitrary: F)
  case 0
  then show ?case by (simp add: dev_names_def dev_parents_def)
next
  case (Suc j)
  have l: "9 - Suc j < 9" and e: "Suc (9 - Suc j) = 9 - j" using Suc.prems(1) by simp_all
  obtain F1 where F1: "make_dev M (dev_nodes ! (9 - Suc j)) F = Inr F1"
    "shape (take (7 + (9 - j)) dev_names) (take (7 + (9 - j)) dev_parents) F1" "wired (dev_wires (9 - j)) F1"
    using dev_step [OF l Suc.prems(2,3) assms] unfolding e by blast
  have "drop (9 - Suc j) dev_nodes = dev_nodes ! (9 - Suc j) # drop (9 - j) dev_nodes"
    using Cons_nth_drop_Suc [of "9 - Suc j" dev_nodes] l e by simp
  then show ?case using F1 Suc.IH [OF _ F1(2,3)] Suc.prems(1) by simp
qed

text \<open>A file system with one device, for the witnesses.\<close>

definition dev_demo :: "iohandle \<Rightarrow> 'k \<Rightarrow> 'k dev_fs" where
  "dev_demo io k = \<lparr>inodes = (\<lambda>i. if i = 0 then (new_inode [] ISA_IFDIR None 0 0)\<lparr>i_down := Some 1\<rparr> else new_inode ''dev'' ISA_IFBLK (Some io) 0 1),
     icntr = 2, ilid = 2, Rnod = Some 0, fs_errno = 0, fhandles = Map.empty, fcntr = 0, flid = 0, dev_data = Map.empty, board = k\<rparr>"

text \<open>
  C35. When the file system is started with the drivers null, con (twice), tim, timr and led in
  this order, followed by any others, and has memory for the nodes, these drivers make a
  well-formed tree in which each of their nine devices is found under its name, its node served by
  the table of its driver; the start is then what the other drivers make of that tree. (Also
  registered in \<^verbatim>\<open>.drvinit\<close> are \<^verbatim>\<open>fifo_init\<close>, modelled in \<open>TkFifo\<close> over a file system of
  its own, and \<^verbatim>\<open>escfs_init\<close> of the ESC board, which calls
  \<^verbatim>\<open>can_init\<close> and \<^verbatim>\<open>fs_ifreg_init\<close>; they are not in the list, whose order is
  the linker's.)
\<close>

theorem fs_boot_devices:
  assumes "ilid (fsys S) = 0" "good_mem M"
  shows "\<exists>F. fs_init True True M (esc_drivers M @ others) S = andThen (foldR run_driver others F)
      (\<lambda>F'. Inr (0, \<lparr>fsys = F', hixs = Fs_calls, old_syscalls = hixs S, fs_alive = True\<rparr>)) \<and>
    tree_ok F \<and> (\<forall>j < 9. isearch F (Rnod F) (dev_path (fst (dev_nodes ! j))) = Inr (Some (7 + j)) \<and>
      i_iohandle (inodes F (7 + j)) = Some (snd (snd (dev_nodes ! j))))"
proof -
  obtain F1 F2 where F2: "make_root True True (fsys S) = Inr F1" "foldR (make_node M) boot_nodes F1 = Inr F2" "shape boot_names boot_parents F2"
    using boot_tree [OF assms] by blast
  have "shape (take (7 + (9 - 9)) dev_names) (take (7 + (9 - 9)) dev_parents) F2" "wired (dev_wires (9 - 9)) F2"
    using F2(3) by (simp_all add: dev_names_def dev_parents_def dev_wires_def wired_def)
  from dev_rest [OF assms(2) order_refl this] obtain F where
    F: "foldR (make_dev M) dev_nodes F2 = Inr F" "shape dev_names dev_parents F" "wired (dev_wires 9) F" by auto
  have "isearch F (Rnod F) (dev_path (fst (dev_nodes ! j))) = Inr (Some (7 + j))" if "j < 9" for j
    using dev_found that by (intro shape_isearch [OF F(2)]) simp_all
  moreover have "i_iohandle (inodes F (7 + j)) = Some (snd (snd (dev_nodes ! j)))" if "j < 9" for j
    using F(3) that by (auto simp: wired_def dev_wires_def)
  moreover have "tree_ok F" using F(2) by (simp add: shape_def)
  ultimately show ?thesis using F2 F(1) by (auto simp: fs_init_def foldR_append drivers_nodes)
qed

theorem fs_boot_devices_witness:
  "\<exists>F. fs_init True True \<lparr>e_node = True, e_name = True, e_behind = []\<rparr> (esc_drivers \<lparr>e_node = True, e_name = True, e_behind = []\<rparr>)
      \<lparr>fsys = (dev_demo null_dev (esc_demo tick0 0))\<lparr>ilid := 0\<rparr>, hixs = Library_calls, old_syscalls = Library_calls, fs_alive = False\<rparr> =
    Inr (0, \<lparr>fsys = F, hixs = Fs_calls, old_syscalls = Library_calls, fs_alive = True\<rparr>) \<and>
    isearch F (Rnod F) ''/dev/time'' = Inr (Some 10) \<and> i_iohandle (inodes F 10) = Some tim_dev"
proof -
  obtain F where F: "fs_init True True \<lparr>e_node = True, e_name = True, e_behind = []\<rparr> (esc_drivers \<lparr>e_node = True, e_name = True, e_behind = []\<rparr>)
      \<lparr>fsys = (dev_demo null_dev (esc_demo tick0 0))\<lparr>ilid := 0\<rparr>, hixs = Library_calls, old_syscalls = Library_calls, fs_alive = False\<rparr> =
    Inr (0, \<lparr>fsys = F, hixs = Fs_calls, old_syscalls = Library_calls, fs_alive = True\<rparr>)"
    "\<forall>j < 9. isearch F (Rnod F) (dev_path (fst (dev_nodes ! j))) = Inr (Some (7 + j)) \<and>
      i_iohandle (inodes F (7 + j)) = Some (snd (snd (dev_nodes ! j)))"
    using fs_boot_devices [of "\<lparr>fsys = (dev_demo null_dev (esc_demo tick0 0))\<lparr>ilid := 0\<rparr>, hixs = Library_calls, old_syscalls = Library_calls, fs_alive = False\<rparr>"
      "\<lparr>e_node = True, e_name = True, e_behind = []\<rparr>" "[]"] by (auto simp: good_mem_def)
  then show ?thesis using F(2) [rule_format, of 3] by (auto simp: dev_nodes_def dev_path_def)
qed

section \<open>The system calls on a device\<close>

lemma fs_open_dev:
  assumes "isearch F (Rnod F) (pre @ CHR ''/'' # nm) = Inr (Some i)" "i_name (inodes F i) = nm" "i_iohandle (inodes F i) = Some (Dev_io n)"
    "CHR ''/'' \<notin> set nm" "nm \<noteq> []" "length (pre @ CHR ''/'' # nm) < PATH_MAX" "flags_ok fl" "fl AND (FO_CREAT OR FO_EXCL) = 0"
    "io_open (f_dev E n) = Some f"
  shows "fs_open E (pre @ CHR ''/'' # nm) fl F = f (pre @ CHR ''/'' # nm) fl [Va_inode i] F"
  using assms split_filename(1) [OF assms(4-6)]
  by (simp add: fs_open_def assert_flags_ok same_name_def open_node_def io_table_def)

text \<open>The handle that opening a node makes, with the data of the driver, if it has any.\<close>

definition with_handle :: "nat \<Rightarrow> 32 word \<Rightarrow> 'k dev_fs \<Rightarrow> 'k dev_fs" where
  "with_handle i fl F = F\<lparr>fcntr := fcntr F + 1, flid := flid F + 1,
     fhandles := (fhandles F)(flid F \<mapsto> \<lparr>f_id = int (flid F), f_inode = i, f_oflag = fl, f_data = None\<rparr>)\<rparr>"

lemma with_handle_sel [simp]:
  "inodes (with_handle i fl F) = inodes F" "Rnod (with_handle i fl F) = Rnod F" "dev_data (with_handle i fl F) = dev_data F"
  "board (with_handle i fl F) = board F" "flid (with_handle i fl F) = Suc (flid F)"
  "fhandles (with_handle i fl F) (flid F) = Some \<lparr>f_id = int (flid F), f_inode = i, f_oflag = fl, f_data = None\<rparr>"
  by (simp_all add: with_handle_def)

lemma put_data_sel [simp]:
  "inodes (put_data h d F) = inodes F" "Rnod (put_data h d F) = Rnod F" "board (put_data h d F) = board F"
  "fhandles (put_data h d F) = fhandles F" "dev_data (put_data h d F) = (dev_data F)(h \<mapsto> d)"
  by (simp_all add: put_data_def)

lemma dev_new_handle_ok [simp]: "d_handle M \<Longrightarrow> dev_new_handle M fl [Va_inode i] F = Inr (flid F, with_handle i fl F)"
  by (simp add: dev_new_handle_def tk_new_handle_def with_handle_def)

lemma open_with_ok [simp]:
  "d_handle M \<Longrightarrow> d_data M \<Longrightarrow> open_with M d fl [Va_inode i] F = Inr (fd_of (flid F), put_data (flid F) d (with_handle i fl F))"
  by (simp add: open_with_def)

lemma check_fh_dev:
  assumes "fhandles F h = Some x" "i_iohandle (inodes F (f_inode x)) = Some (Dev_io n)" "has (f_dev E n)"
  shows "check_fh E (fd_of h) F has bad k = k (f_dev E n)"
  using assms by (simp add: check_fh_def the_handle_def io_table_def)

definition dev_open :: "'k dev_fs \<Rightarrow> nat \<Rightarrow> nat \<Rightarrow> bool" where
  "dev_open F h n \<longleftrightarrow> (\<exists>x. fhandles F h = Some x \<and> i_iohandle (inodes F (f_inode x)) = Some (Dev_io n))"

lemma dev_open_simps [simp]:
  "dev_open (put_data h' d F) h n = dev_open F h n" "dev_open (F\<lparr>board := k\<rparr>) h n = dev_open F h n"
  "dev_open (with_handle i fl F) (flid F) n \<longleftrightarrow> i_iohandle (inodes F i) = Some (Dev_io n)"
  by (simp_all add: dev_open_def)

lemma calls_dev:
  assumes "dev_open F h n" "f_dev E n = t" "io_fcntl t \<noteq> None"
  shows "fs_read E (fd_of h) len F = call (io_read t) (\<lambda>f. f (fd_of h) len F)" "fs_write E (fd_of h) bs F = call (io_write t) (\<lambda>f. f (fd_of h) bs F)"
    "io_close t \<noteq> None \<Longrightarrow> fs_close E (fd_of h) F = call (io_close t) (\<lambda>f. f (fd_of h) F)"
  using assms by (auto simp: fs_read_def fs_write_def fs_close_def check_fh_dev dev_open_def)

text \<open>A node of a device, found under a name that can be opened.\<close>

definition dev_at :: "('d, 'a) filesys_scheme \<Rightarrow> string \<Rightarrow> nat \<Rightarrow> iohandle \<Rightarrow> bool" where
  "dev_at F s i io \<longleftrightarrow> (\<exists>pre nm. s = pre @ CHR ''/'' # nm \<and> isearch F (Rnod F) s = Inr (Some i) \<and> i_name (inodes F i) = nm \<and>
     i_iohandle (inodes F i) = Some io \<and> CHR ''/'' \<notin> set nm \<and> nm \<noteq> [] \<and> length s < PATH_MAX)"

definition plain_flags :: "32 word \<Rightarrow> bool" where
  "plain_flags fl \<longleftrightarrow> flags_ok fl \<and> fl AND (FO_CREAT OR FO_EXCL) = 0"

lemma open_dev_at:
  "dev_at F s i (Dev_io n) \<Longrightarrow> plain_flags fl \<Longrightarrow> io_open (f_dev E n) = Some f \<Longrightarrow> fs_open E s fl F = f s fl [Va_inode i] F"
  unfolding dev_at_def plain_flags_def using fs_open_dev by blast

lemma dev_at_handle: "dev_at F s i io \<Longrightarrow> i_iohandle (inodes F i) = Some io"
  by (auto simp: dev_at_def)

definition good_dev :: "'a can_kern_scheme dev_env \<Rightarrow> bool" where
  "good_dev V \<longleftrightarrow> d_handle (v_mem V) \<and> d_data (v_mem V)"

section \<open>Diodes\<close>

text \<open>
  C36. The diodes as files: a status of one, two or four bytes that is written to the descriptor of
  an opened diode is read back from it, the diode is lit exactly when the status is not zero, and
  the other diodes stay as they are.
\<close>

theorem led_file_round_trip:
  assumes "dev_at F s i (led_dev n)" "n < 4" "plain_flags fl" "f_dev E = dev_tables V" "good_dev V"
    "length bs \<in> {1, 2, 4}" "length bs \<le> length (v_junk V)"
  shows "\<exists>fd F1 F2. fs_open E s fl F = Inr (fd, F1) \<and> fs_write E fd bs F1 = Inr (int (length bs), F2) \<and>
    fs_read E fd (int (length bs)) F2 = Inr (int (length bs), bs, F2) \<and>
    (lit n (board F2) \<longleftrightarrow> (\<exists>b \<in> set bs. b \<noteq> 0)) \<and> (\<forall>m < 4. m \<noteq> n \<longrightarrow> lit m (board F2) = lit m (board F))"
proof -
  have t: "f_dev E (6 + n) = led_io (v_mem V) (v_junk V) n" using assms(2,4) by (simp add: dev_tables_def)
  let ?h = "flid F" and ?F1 = "put_data (flid F) (Led_data (int n)) (with_handle i fl F)"
  have o: "fs_open E s fl F = Inr (fd_of ?h, ?F1)"
    using open_dev_at [OF assms(1) [unfolded led_dev_def] assms(3), of E "led_open (v_mem V) n"] assms(5)
    by (simp add: t led_io_def led_open_def good_dev_def)
  obtain k where k: "led_write n bs (board F) = (int (length bs), k)" "led_read n (take (length bs) (v_junk V)) k = (int (length bs), bs)"
    "lit n k \<longleftrightarrow> (\<exists>b \<in> set bs. b \<noteq> 0)" "\<forall>m < 4. m \<noteq> n \<longrightarrow> lit m k = lit m (board F)"
    using led_write_read [OF assms(2,6), of "take (length bs) (v_junk V)" "board F"] assms(7) by auto
  let ?F2 = "?F1\<lparr>board := k\<rparr>"
  have p: "dev_open ?F1 ?h (6 + n)" "dev_open ?F2 ?h (6 + n)" using dev_at_handle [OF assms(1)] by (simp_all add: led_dev_def)
  have "fs_write E (fd_of ?h) bs ?F1 = Inr (int (length bs), ?F2)"
    using calls_dev(2) [OF p(1) t] k(1) by (simp add: led_io_def led_dev_write_def)
  moreover have "fs_read E (fd_of ?h) (int (length bs)) ?F2 = Inr (int (length bs), bs, ?F2)"
    using calls_dev(1) [OF p(2) t] k(2) assms(7) by (simp add: led_io_def led_dev_read_def)
  ultimately show ?thesis using o k(3,4)
    by (intro exI [of _ "fd_of ?h"] exI [of _ ?F1] exI [of _ ?F2]) simp
qed

lemma dev_demo_at: "dev_at (dev_demo io k) ''/dev'' 1 io"
  unfolding dev_at_def
  by (rule exI [of _ "[]"], rule exI [of _ "''dev''"]) (simp add: dev_demo_def isearch_def PATH_MAX_def new_inode_def same_name_def numeral_2_eq_2)

lemma plain_0: "plain_flags 0"
  by (simp add: plain_flags_def create_flags may_append_def)

definition demo_dev :: "'a can_kern_scheme dev_env" where
  "demo_dev = \<lparr>v_mem = \<lparr>d_handle = True, d_data = True\<rparr>, v_others = (\<lambda>_ k. Inr k), v_stack = None, v_junk = [1, 2, 3, 4]\<rparr>"

definition demo_dev_env :: "('a can_kern_scheme, unit) dev_fs_ext fs_env" where
  "demo_dev_env = \<lparr>f_mem = f_mem demo_env, f_dev = dev_tables demo_dev, std_read = (\<lambda>n F. Inr (0, [], F)), std_write = (\<lambda>fd bs F. Inr (0, F))\<rparr>"

lemma demo_dev_facts [simp]: "f_dev demo_dev_env = dev_tables demo_dev" "good_dev demo_dev" "length (v_junk demo_dev) = 4"
  by (simp_all add: demo_dev_env_def good_dev_def demo_dev_def)

theorem led_file_round_trip_witness:
  "\<exists>fd F1 F2. fs_open demo_dev_env ''/dev'' 0 (dev_demo (led_dev 2) (can_demo tick0 0)) = Inr (fd, F1) \<and>
    fs_write demo_dev_env fd [0, 1] F1 = Inr (2, F2) \<and> fs_read demo_dev_env fd 2 F2 = Inr (2, [0, 1], F2) \<and> lit 2 (board F2)"
  using led_file_round_trip [OF dev_demo_at _ plain_0 demo_dev_facts(1,2), of 2 "[0, 1]" "can_demo tick0 0"] demo_dev_facts(3) by auto

section \<open>Time\<close>

lemma with_tim_put: "fhandles F h = Some x \<Longrightarrow> dev_data F h = Some (Tim_data d) \<Longrightarrow> with_tim (fd_of h) F f = f d"
  by (simp add: with_tim_def the_handle_def)

text \<open>
  The time device: what is read is the clock until the device is written to, and from then on
  the clock less what it was at the last write, in the arithmetic of 32 bits, in the byte order of
  the board; what is written does not matter, and the time when the device was opened neither. A
  buffer of less than four bytes is run over.
\<close>

theorem time_file_measures:
  assumes "dev_at F s i tim_dev" "plain_flags fl" "f_dev E = dev_tables V" "good_dev V"
  shows "\<exists>fd F1. fs_open E s fl F = Inr (fd, F1) \<and>
    (\<forall>k n. fs_read E fd n (F1\<lparr>board := k\<rparr>) = (if 4 \<le> n then Inr (4, be_bytes 4 (clock_now k), F1\<lparr>board := k\<rparr>) else Inl Out_of_bounds)) \<and>
    (\<forall>k bs. \<exists>F2. fs_write E fd bs (F1\<lparr>board := k\<rparr>) = Inr (4, F2) \<and> board F2 = k \<and>
      (\<forall>k2 n. fs_read E fd n (F2\<lparr>board := k2\<rparr>) =
        (if 4 \<le> n then Inr (4, be_bytes 4 (clock_now k2 - clock_now k), F2\<lparr>board := k2\<rparr>) else Inl Out_of_bounds)))"
proof -
  have t: "f_dev E 3 = tim_io (v_mem V)" using assms(3) by (simp add: dev_tables_def)
  let ?h = "flid F" and ?d = "\<lparr>time_open = board_clock F, time_offset = 0\<rparr>"
  let ?F1 = "put_data ?h (Tim_data ?d) (with_handle i fl F)"
  let ?F2 = "\<lambda>k. put_data ?h (Tim_data (?d\<lparr>time_offset := clock_now k\<rparr>)) (?F1\<lparr>board := k\<rparr>)"
  have o: "fs_open E s fl F = Inr (fd_of ?h, ?F1)"
    using open_dev_at [OF assms(1) [unfolded tim_dev_def] assms(2), of E "tim_open (v_mem V)"] assms(4)
    by (simp add: t tim_io_def tim_open_def good_dev_def)
  have p: "dev_open (?F1\<lparr>board := k\<rparr>) ?h 3" "dev_open ((?F2 k)\<lparr>board := k2\<rparr>) ?h 3" for k k2
    using dev_at_handle [OF assms(1)] by (simp_all add: tim_dev_def)
  have "fs_read E (fd_of ?h) n (?F1\<lparr>board := k\<rparr>) = (if 4 \<le> n then Inr (4, be_bytes 4 (clock_now k), ?F1\<lparr>board := k\<rparr>) else Inl Out_of_bounds)" for k n
    using calls_dev(1) [OF p(1) t] by (simp add: tim_io_def tim_read_def with_tim_put in_bounds_def)
  moreover have "fs_write E (fd_of ?h) bs (?F1\<lparr>board := k\<rparr>) = Inr (4, ?F2 k)" for k bs
    using calls_dev(2) [OF p(1) t] by (simp add: tim_io_def tim_write_def with_tim_put)
  moreover have "fs_read E (fd_of ?h) n ((?F2 k)\<lparr>board := k2\<rparr>) =
      (if 4 \<le> n then Inr (4, be_bytes 4 (clock_now k2 - clock_now k), (?F2 k)\<lparr>board := k2\<rparr>) else Inl Out_of_bounds)" for k k2 n
    using calls_dev(1) [OF p(2) t] by (simp add: tim_io_def tim_read_def with_tim_put in_bounds_def)
  ultimately show ?thesis using o by (intro exI [of _ "fd_of ?h"] exI [of _ ?F1]) simp
qed

definition clock_set :: "32 word \<Rightarrow> can_kern \<Rightarrow> can_kern" where
  "clock_set t k = k\<lparr>clock_now := t\<rparr>"

theorem time_file_measures_witness:
  "\<exists>fd F1 F2. fs_open demo_dev_env ''/dev'' 0 (dev_demo tim_dev (can_demo tick0 0)) = Inr (fd, F1) \<and>
    fs_write demo_dev_env fd [] (F1\<lparr>board := clock_set 0xFFFFFFFF (can_demo tick0 0)\<rparr>) = Inr (4, F2) \<and>
    fs_read demo_dev_env fd 4 (F2\<lparr>board := clock_set 257 (can_demo tick0 0)\<rparr>) =
      Inr (4, [0, 0, 1, 2], F2\<lparr>board := clock_set 257 (can_demo tick0 0)\<rparr>)"
proof -
  obtain fd F1 where o: "fs_open demo_dev_env ''/dev'' 0 (dev_demo tim_dev (can_demo tick0 0)) = Inr (fd, F1)"
    "\<forall>k bs. \<exists>F2. fs_write demo_dev_env fd bs (F1\<lparr>board := k\<rparr>) = Inr (4, F2) \<and> board F2 = k \<and>
      (\<forall>k2 n. fs_read demo_dev_env fd n (F2\<lparr>board := k2\<rparr>) =
        (if 4 \<le> n then Inr (4, be_bytes 4 (clock_now k2 - clock_now k), F2\<lparr>board := k2\<rparr>) else Inl Out_of_bounds))"
    using time_file_measures [OF dev_demo_at plain_0 demo_dev_facts(1,2)] by metis
  let ?k = "clock_set 0xFFFFFFFF (can_demo tick0 0)" and ?k2 = "clock_set 257 (can_demo tick0 0)"
  obtain F2 where w: "fs_write demo_dev_env fd [] (F1\<lparr>board := ?k\<rparr>) = Inr (4, F2)"
    "fs_read demo_dev_env fd 4 (F2\<lparr>board := ?k2\<rparr>) = (if (4 :: int) \<le> 4 then Inr (4, be_bytes 4 (clock_now ?k2 - clock_now ?k), F2\<lparr>board := ?k2\<rparr>) else Inl Out_of_bounds)"
    using o(2) by blast
  have "be_bytes 4 (257 - 0xFFFFFFFF :: 32 word) = [0, 0, 1, 2]" by code_simp
  moreover have "clock_now ?k2 = 257" "clock_now ?k = 0xFFFFFFFF" by (simp_all add: clock_set_def)
  ultimately have "be_bytes 4 (clock_now ?k2 - clock_now ?k) = [0, 0, 1, 2]" by (simp only:)
  then have "fs_read demo_dev_env fd 4 (F2\<lparr>board := ?k2\<rparr>) = Inr (4, [0, 0, 1, 2], F2\<lparr>board := ?k2\<rparr>)"
    using w(2) by (simp only: order_refl if_True)
  then show ?thesis using o(1) w(1) by blast
qed

section \<open>What the devices have in common\<close>

text \<open>
  C38. The null device gives as many zeros as are asked for and takes everything that is written
  to it. It cannot be closed, and neither can the time device, the timer and the diodes: the call fails an
  assertion. The CAN device can, but the descriptor stays open, the call reports an error, and
  closing once more gives the data back twice.
\<close>

theorem device_close:
  assumes "dev_open F h n" "f_dev E n = dev_tables V n"
  shows "(n = 0 \<longrightarrow> fs_write E (fd_of h) bs F = Inr (int (length bs), F) \<and> fs_read E (fd_of h) (int m) F = Inr (int m, replicate m 0, F)) \<and>
    (n \<notin> {1, 2, 5} \<longrightarrow> fs_close E (fd_of h) F = Inl Assert_failed) \<and>
    (n = 5 \<and> dev_data F h = Some (Can_data Live_block) \<longrightarrow>
      (\<exists>F'. fs_close E (fd_of h) F = Inr (-1, F') \<and> dev_open F' h 5 \<and> fs_close E (fd_of h) F' = Inl Double_free))"
proof (intro conjI)
  show "n = 0 \<longrightarrow> fs_write E (fd_of h) bs F = Inr (int (length bs), F) \<and> fs_read E (fd_of h) (int m) F = Inr (int m, replicate m 0, F)"
    using calls_dev(1,2) [OF assms] by (simp add: dev_tables_def null_io_def null_write_def null_read_def)
  show "n \<notin> {1, 2, 5} \<longrightarrow> fs_close E (fd_of h) F = Inl Assert_failed"
    using calls_dev(3) [OF assms]
    by (simp add: dev_tables_def null_io_def tim_io_def tmr_io_def led_io_def stub_close_def not_implemented_def)
  show "n = 5 \<and> dev_data F h = Some (Can_data Live_block) \<longrightarrow>
      (\<exists>F'. fs_close E (fd_of h) F = Inr (-1, F') \<and> dev_open F' h 5 \<and> fs_close E (fd_of h) F' = Inl Double_free)"
  proof
    assume that: "n = 5 \<and> dev_data F h = Some (Can_data Live_block)"
    let ?F = "put_data h (Can_data Freed_block) F"
    have p: "dev_open F h 5" "dev_open ?F h 5" "f_dev E 5 = dev_tables V 5" using assms that by simp_all
    then obtain x where "fhandles F h = Some x" by (auto simp: dev_open_def)
    then have "fs_close E (fd_of h) F = Inr (-1, ?F)" "fs_close E (fd_of h) ?F = Inl Double_free"
      using calls_dev(3) [OF p(1,3)] calls_dev(3) [OF p(2,3)] that by (simp_all add: dev_tables_def can_io_def can_close_def the_handle_def)
    then show "\<exists>F'. fs_close E (fd_of h) F = Inr (-1, F') \<and> dev_open F' h 5 \<and> fs_close E (fd_of h) F' = Inl Double_free"
      using p(2) by blast
  qed
qed

theorem device_close_witness:
  "\<exists>F'. fs_close demo_dev_env 3 (put_data 0 (Can_data Live_block) (with_handle 1 0 (dev_demo can_dev (can_demo tick0 0)))) = Inr (-1, F') \<and>
      fs_close demo_dev_env 3 F' = Inl Double_free"
proof -
  let ?F = "put_data 0 (Can_data Live_block) (with_handle 1 0 (dev_demo can_dev (can_demo tick0 0)))"
  have "dev_open ?F 0 5"
    by (simp add: dev_open_def put_data_def with_handle_def dev_demo_def new_inode_def can_dev_def)
  then have "\<exists>F'. fs_close demo_dev_env (fd_of 0) ?F = Inr (-1, F') \<and> dev_open F' 0 5 \<and> fs_close demo_dev_env (fd_of 0) F' = Inl Double_free"
    using device_close [of ?F 0 5 demo_dev_env demo_dev] by simp
  then show ?thesis by (auto simp: fd_of_def)
qed

end
