(* ===== verification/TkRamdisk.thy ===== *)
theory TkRamdisk
  imports TkFilesys TkMem
begin

text \<open>
  The RAM disk: \<^verbatim>\<open>init\<close> and \<^verbatim>\<open>fini\<close> of \<^verbatim>\<open>src/filesys/fs_ifreg.c\<close>, on the heaps of
  \<^verbatim>\<open>tk_mem.c\<close>, and what they make. A disk is the data of its inode, which is of another type
  than that of a regular file and is kept apart from it. Addresses are numbers, and \<open>blk\<close> is what
  lies in memory, read as the blocks of a heap; sizes of heaps are not negative, as in \<open>TkMem\<close>.
\<close>

section \<open>State\<close>

record rd_data =
  rd_start :: nat
  rd_size :: "32 word"
  rd_sectorsize :: "32 word"
  rd_isratio :: "32 word"
  rd_opt :: "32 word"
  inode_heap :: nat
  sector_heap :: nat

record 'a ram_sys =
  ram_fs :: "'a reg_fs"
  ram_mem :: kmem
  ram_disks :: "nat \<Rightarrow> rd_data buffer"

text \<open>\<^verbatim>\<open>sizeof(tk_inode_t)\<close> for pointers and integers of four bytes.\<close>

definition SIZEOF_INODE :: "32 word" where "SIZEOF_INODE = 36"

definition RAMDISK_KEEP_OLD_DATA :: "32 word" where "RAMDISK_KEEP_OLD_DATA = 1"

section \<open>Starting a disk\<close>

text \<open>
  The numbers of sectors and of inodes. The first attempt, whose result is dropped, divides, too.
\<close>

definition rd_sizes :: "32 word \<Rightarrow> 32 word \<Rightarrow> 32 word \<Rightarrow> (32 word \<times> 32 word) result" where
  "rd_sizes sz sectorsize isratio =
     (if sectorsize = 0 \<or> isratio = 0 \<or> SIZEOF_INODE + isratio * sectorsize = 0 then Inl Div_by_zero
      else let nsectors = (sz * isratio) div (SIZEOF_INODE + isratio * sectorsize);
               ninodes = word_of_int (sint nsectors sdiv sint isratio)
           in Inr (if SIZEOF_INODE < sectorsize then (nsectors, ninodes - 1) else (nsectors - 1, ninodes)))"

text \<open>The test is of the constant, not of the options of the caller.\<close>

definition rd_kmemopts :: "32 word" where
  "rd_kmemopts = (if RAMDISK_KEEP_OLD_DATA \<noteq> 0 then KMEM_KEEP_UNINITIALIZED else KMEM_BLANK_ID)"

definition heap_mem :: "(nat \<Rightarrow> nat \<Rightarrow> kblock) \<Rightarrow> nat \<Rightarrow> nat \<Rightarrow> nat \<Rightarrow> kblock list option" where
  "heap_mem blk addr hsz dsz = (if addr = 0 then None else Some (map (blk addr) [0..<hsz div block_size dsz]))"

text \<open>
  What a start depends on: the node, the memory of the disk's data, the memory for a heap that has none
  (\<open>r_heap\<close>, at \<open>r_addr\<close>), and what lies in memory.
\<close>

record ram_env =
  r_node :: node_env
  r_data :: bool
  r_heap :: "kblock list option"
  r_addr :: nat
  r_blk :: "nat \<Rightarrow> nat \<Rightarrow> kblock"

definition rd_heap :: "ram_env \<Rightarrow> 32 word \<Rightarrow> 32 word \<Rightarrow> nat \<Rightarrow> kmem \<Rightarrow> (int \<times> nat option \<times> kmem) result" where
  "rd_heap M hsz dsz addr s =
     tk_create_heap (r_heap M) (unat hsz) (unat dsz) rd_kmemopts False False (heap_mem (r_blk M) addr (unat hsz) (unat dsz)) s"

definition heap_end :: "nat \<Rightarrow> nat option \<Rightarrow> kmem \<Rightarrow> nat result" where
  "heap_end base h s = andThen (deref h) (\<lambda>h. Inr (base + h_last (header_pool s h)))"

text \<open>
  The two heaps, the second behind the first. The result is the code, zero when both were made.
\<close>

definition rd_heaps :: "ram_env \<Rightarrow> nat \<Rightarrow> 32 word \<Rightarrow> 32 word \<Rightarrow> 32 word \<Rightarrow> 32 word \<Rightarrow> kmem \<Rightarrow> (int \<times> (nat \<times> nat) option \<times> kmem) result" where
  "rd_heaps M start sz sectorsize nsectors ninodes s =
     (let base = (if start = 0 then r_addr M else start) in
      andThen (rd_heap M SIZEOF_INODE (ninodes * SIZEOF_INODE) start s) (\<lambda>(rc, hi, s1).
        if rc \<noteq> 0 then Inr (rc, None, s1)
        else andThen (heap_end base hi s1) (\<lambda>e1.
          andThen (rd_heap M sectorsize (nsectors * sectorsize) e1 s1) (\<lambda>(rc, hs, s2).
            if rc \<noteq> 0 then andThen (deref hi) (\<lambda>h. andThen (tk_destroy_heap h s2) (\<lambda>(_, s3). Inr (rc, None, s3)))
            else andThen (heap_end e1 hs s2) (\<lambda>e2. c_assert (e2 \<le> start + unat sz)
              (andThen (deref hi) (\<lambda>hi. andThen (deref hs) (\<lambda>hs. Inr (0, Some (hi, hs), s2)))))))))"

text \<open>
  The function ends without \<^verbatim>\<open>return\<close> when all went well: then there is no value.
\<close>

definition ifreg_init :: "ram_env \<Rightarrow> string \<Rightarrow> nat \<Rightarrow> 32 word \<Rightarrow> 32 word \<Rightarrow> 32 word \<Rightarrow> 32 word \<Rightarrow> 'a ram_sys \<Rightarrow> (int option \<times> 'a ram_sys) result" where
  "ifreg_init M path start sz sectorsize isratio opt S =
     andThen (mknod (r_node M) path ISA_IFBLK (Some Fs_ifreg_io) (ram_fs S)) (\<lambda>(rc, F1). c_assert (rc = 0)
      (andThen (isearch F1 (Rnod F1) path) (\<lambda>inod. case inod of None \<Rightarrow> Inl Assert_failed
       | Some i \<Rightarrow>
          if \<not> r_data M then Inr (Some E_NOMEM, S\<lparr>ram_fs := F1, ram_disks := (ram_disks S)(i := Null)\<rparr>)
          else andThen (rd_sizes sz sectorsize isratio) (\<lambda>(nsectors, ninodes).
            andThen (rd_heaps M start sz sectorsize nsectors ninodes (ram_mem S)) (\<lambda>(rc, hs, s1). case hs of
                None \<Rightarrow> Inr (Some rc, S\<lparr>ram_fs := F1, ram_mem := s1, ram_disks := (ram_disks S)(i := Freed)\<rparr>)
              | Some (hi, hs) \<Rightarrow> Inr (None, S\<lparr>ram_fs := F1, ram_mem := s1, ram_disks := (ram_disks S)(i :=
                  Live \<lparr>rd_start = start, rd_size = sz, rd_sectorsize = sectorsize, rd_isratio = isratio, rd_opt = opt,
                    inode_heap = hi, sector_heap = hs\<rparr>)\<rparr>))))))"

section \<open>Stopping it\<close>

text \<open>The codes of \<^verbatim>\<open>tk_destroy_heap\<close> are not looked at; \<^verbatim>\<open>unlink\<close> is the call of the file system.\<close>

definition ifreg_fini :: "'a fs_env \<Rightarrow> int \<Rightarrow> 'a ram_sys \<Rightarrow> (int \<times> 'a ram_sys) result" where
  "ifreg_fini E file S = andThen (the_handle (fd_handle file) (ram_fs S)) (\<lambda>x. c_deref (ram_disks S (f_inode x)) (\<lambda>d.
     andThen (tk_destroy_heap (inode_heap d) (ram_mem S)) (\<lambda>(_, s1).
       andThen (tk_destroy_heap (sector_heap d) s1) (\<lambda>(_, s2).
         andThen (fs_unlink E (i_name (inodes (ram_fs S) (f_inode x))) (ram_fs S)) (\<lambda>(rc, F1).
           Inr (rc, S\<lparr>ram_fs := F1, ram_mem := s2, ram_disks := (ram_disks S)(f_inode x := Freed)\<rparr>))))))"

end
