(* ===== verification/TkRamdiskProps.thy ===== *)
theory TkRamdiskProps
  imports TkRamdisk TkFilesysProps
begin

text \<open>
  What a RAM disk is made of: two heaps that lie in the memory it is given, and that have not a
  single block, because the size of a block and the size of a heap are exchanged.
\<close>

section \<open>The sizes\<close>

text \<open>The number of sectors before one is taken off, without the words.\<close>

definition rd_n :: "nat \<Rightarrow> nat \<Rightarrow> nat \<Rightarrow> nat" where
  "rd_n sz ss r = sz * r div (36 + r * ss)"

lemma rd_fits: "0 < r \<Longrightarrow> (rd_n sz ss r div r) * 36 + rd_n sz ss r * ss \<le> sz"
proof -
  assume r: "0 < r"
  let ?n = "rd_n sz ss r"
  have "((?n div r) * 36 + ?n * ss) * r = (?n div r * r) * 36 + ?n * (r * ss)" by (simp add: algebra_simps)
  also have "\<dots> \<le> ?n * 36 + ?n * (r * ss)" by (intro add_mono mult_le_mono1) simp_all
  also have "\<dots> = ?n * (36 + r * ss)" by (simp add: algebra_simps)
  also have "\<dots> \<le> sz * r" by (simp add: rd_n_def)
  finally show ?thesis using r by simp
qed

lemma unat_mult_small: "unat (a :: 32 word) * unat b < 2 ^ 32 \<Longrightarrow> unat (a * b) = unat a * unat b"
  by (simp add: unat_mult_lem [symmetric])

lemma unat_36_plus: "36 + unat (a :: 32 word) < 2 ^ 32 \<Longrightarrow> unat (SIZEOF_INODE + a) = 36 + unat a"
  unfolding SIZEOF_INODE_def by (subst unat_add_lem [THEN iffD1]) simp_all

lemma sint_small_int: "0 \<le> i \<Longrightarrow> i < 2 ^ 31 \<Longrightarrow> sint (word_of_int i :: 32 word) = i"
  by (simp add: sint_sbintrunc' signed_take_bit_int_eq_self)

lemma sint_small: "unat (a :: 32 word) < 2 ^ 31 \<Longrightarrow> sint a = int (unat a)"
proof -
  assume "unat a < 2 ^ 31"
  then have "int (unat a) < 2 ^ 31" unfolding of_nat_less_numeral_power_cancel_iff .
  then show ?thesis using sint_small_int [of "int (unat a)"] by simp
qed

lemma sdiv_nat: "0 < b \<Longrightarrow> int a sdiv int b = int (a div b)"
  by (simp add: signed_divide_int_def sgn_if zdiv_int)

text \<open>Parameters for which nothing wraps, and which leave an inode and a sector.\<close>

definition rd_good :: "32 word \<Rightarrow> 32 word \<Rightarrow> 32 word \<Rightarrow> bool" where
  "rd_good sz ss r \<longleftrightarrow> 0 < r \<and> 8 \<le> ss \<and> unat sz * unat r < 2 ^ 31 \<and> 36 + unat r * unat ss < 2 ^ 31 \<and>
     2 * unat r \<le> rd_n (unat sz) (unat ss) (unat r)"

lemma rd_sizes_good:
  assumes "rd_good sz ss r"
  shows "\<exists>ns ni. rd_sizes sz ss r = Inr (ns, ni) \<and> 1 \<le> unat ns \<and> 1 \<le> unat ni \<and> 8 + unat ni * 36 + unat ns * unat ss \<le> unat sz"
proof -
  let ?n = "rd_n (unat sz) (unat ss) (unat r)"
  have g: "0 < unat r" "8 \<le> unat ss" "unat sz * unat r < 2 ^ 31" "36 + unat r * unat ss < 2 ^ 31" "2 * unat r \<le> ?n"
    using assms by (simp_all add: rd_good_def word_less_nat_alt word_le_nat_alt)
  have d: "unat (SIZEOF_INODE + r * ss) = 36 + unat r * unat ss" "unat (sz * r) = unat sz * unat r"
    using g by (simp_all add: unat_36_plus unat_mult_small)
  let ?ns = "(sz * r) div (SIZEOF_INODE + r * ss)"
  have ns: "unat ?ns = ?n" by (simp add: unat_div d rd_n_def)
  have n31: "?n < 2 ^ 31" using div_le_dividend [of "unat sz * unat r" "36 + unat r * unat ss"] g(3) unfolding rd_n_def by linarith
  have "unat r \<le> ?n" using g(5) by simp
  then have r31: "unat r < 2 ^ 31" using n31 by simp
  have ni: "word_of_int (sint ?ns sdiv sint r) = (of_nat (?n div unat r) :: 32 word)"
  proof -
    have "int ?n sdiv int (unat r) = int (?n div unat r)" by (rule sdiv_nat [OF g(1)])
    then show ?thesis using n31 r31 by (simp only: sint_small ns) simp
  qed
  have u: "unat (of_nat (?n div unat r) :: 32 word) = ?n div unat r"
    using le_less_trans [OF div_le_dividend n31, of "unat r"] by (simp add: unat_of_nat)
  have q: "2 \<le> ?n div unat r" using div_le_mono [OF g(5), of "unat r"] g(1) by simp
  have fit: "(?n div unat r) * 36 + ?n * unat ss \<le> unat sz" by (rule rd_fits [OF g(1)])
  have m1: "unat (a - 1) = unat a - 1" if "1 \<le> unat a" for a :: "32 word"
    using that by (simp add: unat_sub word_le_nat_alt)
  have nz: "ss \<noteq> 0" "r \<noteq> 0" "SIZEOF_INODE + r * ss \<noteq> 0" using g d(1) by (auto simp: unat_0_iff [symmetric])
  show ?thesis
  proof (cases "SIZEOF_INODE < ss")
    case True
    have "8 + (?n div unat r - 1) * 36 + ?n * unat ss \<le> unat sz" using fit q by (simp add: diff_mult_distrib)
    then show ?thesis using True nz ni q g(1,5) by (simp add: rd_sizes_def Let_def ns m1 u)
  next
    case False
    have "unat ss \<le> ?n * unat ss" using g(1,5) by simp
    then have "8 + (?n div unat r) * 36 + (?n - 1) * unat ss \<le> unat sz" using fit g(2) by (simp add: diff_mult_distrib)
    then show ?thesis using False nz ni q g(1,5) by (simp add: rd_sizes_def Let_def ns m1 u)
  qed
qed

section \<open>The heaps\<close>

text \<open>No heap was made yet.\<close>

definition fresh_mem :: "kmem \<Rightarrow> bool" where
  "fresh_mem s \<longleftrightarrow> nheaps s = 0 \<and> cheap_idx s = 0 \<and> (\<forall>h. h_heap (header_pool s h) = Null)"

lemma find_header_here: "h_heap (hp c) = Null \<Longrightarrow> 0 < n \<Longrightarrow> find_header n hp c = (Some c, (c + 1) mod TK_KMEM_NHEAPS)"
  by (cases n) simp_all

text \<open>A heap whose blocks are larger than the heap.\<close>

lemma no_block: "hsz < block_size dsz \<Longrightarrow> hsz div block_size dsz = 0"
  by simp

lemma rd_heap_empty:
  assumes "unat hsz < block_size (unat dsz)" "0 < addr" "h_heap (header_pool s (cheap_idx s)) = Null" "nheaps s < 8"
  shows "\<exists>H. rd_heap M hsz dsz addr s = Inr (0, Some (cheap_idx s),
      put_heap (cheap_idx s) H (s\<lparr>cheap_idx := (cheap_idx s + 1) mod 8, nheaps := nheaps s + 1\<rparr>)) \<and>
    h_self H = Some (cheap_idx s) \<and> h_maxnum H = 0 \<and> h_blocks H = 0 \<and> h_last H = block_size (unat dsz) \<and> \<not> h_malloced H"
  using assms no_block [OF assms(1)]
  by (intro exI [of _ "(header_pool s (cheap_idx s))\<lparr>h_heap := Live [], h_malloced := False, h_lock := False, h_unlock := False,
      h_self := Some (cheap_idx s), h_dsize := unat dsz, h_maxnum := 0, h_blocks := 0, h_indx := 0, h_last := block_size (unat dsz)\<rparr>"])
    (simp add: rd_heap_def tk_create_heap_def heap_mem_def find_header_here TK_KMEM_NHEAPS_def Let_def rd_kmemopts_def
      RAMDISK_KEEP_OLD_DATA_def kmem_flag_defs)

text \<open>A heap without blocks gives none, and can be destroyed.\<close>

definition empty_heap :: "nat \<Rightarrow> kmem \<Rightarrow> bool" where
  "empty_heap h s \<longleftrightarrow> h_self (header_pool s h) = Some h \<and> h_maxnum (header_pool s h) = 0 \<and> h_blocks (header_pool s h) = 0 \<and>
     \<not> h_malloced (header_pool s h)"

lemma empty_heap_gives: "empty_heap h s \<Longrightarrow> tk_mem_malloct L h s = Inr (None, s)"
  by (simp add: empty_heap_def tk_mem_malloct_def)

lemma rd_heaps_empty:
  assumes "fresh_mem s" "0 < start" "1 \<le> unat ns" "1 \<le> unat ni" "8 + unat ni * 36 + unat ns * unat ss \<le> unat sz"
  shows "\<exists>s'. rd_heaps M start sz ss ns ni s = Inr (0, Some (0, 1), s') \<and> empty_heap 0 s' \<and> empty_heap 1 s'"
proof -
  have sz: "unat sz < 2 ^ 32" using unsigned_less [of sz, where ?'a = nat] by simp
  have u: "unat (ni * SIZEOF_INODE) = unat ni * 36" "unat (ns * ss) = unat ns * unat ss" "unat SIZEOF_INODE = 36"
    using assms(5) sz by (simp_all add: unat_mult_small SIZEOF_INODE_def)
  have b: "unat SIZEOF_INODE < block_size (unat (ni * SIZEOF_INODE))" "unat ss < block_size (unat (ns * ss))"
  proof -
    have "unat ss \<le> unat ns * unat ss" using mult_le_mono1 [OF assms(3), of "unat ss"] by (simp only: mult_1)
    then show "unat ss < block_size (unat (ns * ss))" unfolding u block_size_def by linarith
    show "unat SIZEOF_INODE < block_size (unat (ni * SIZEOF_INODE))" unfolding u block_size_def using assms(4) by linarith
  qed
  have f: "h_heap (header_pool s (cheap_idx s)) = Null" "nheaps s < 8" "cheap_idx s = 0" "nheaps s = 0"
    using assms(1) by (simp_all add: fresh_mem_def)
  obtain H1 where H1: "rd_heap M SIZEOF_INODE (ni * SIZEOF_INODE) start s =
      Inr (0, Some 0, put_heap 0 H1 (s\<lparr>cheap_idx := 1, nheaps := 1\<rparr>))" "h_self H1 = Some 0" "h_maxnum H1 = 0" "h_blocks H1 = 0"
    "h_last H1 = 4 + unat ni * 36" "\<not> h_malloced H1"
    using rd_heap_empty [OF b(1) assms(2) f(1,2), of M] f(3,4) u(1) by (auto simp: block_size_def)
  let ?s1 = "put_heap 0 H1 (s\<lparr>cheap_idx := 1, nheaps := 1\<rparr>)" and ?e1 = "start + (4 + unat ni * 36)"
  have g: "h_heap (header_pool ?s1 (cheap_idx ?s1)) = Null" "nheaps ?s1 < 8" "0 < ?e1" "cheap_idx ?s1 = 1"
    using assms(1) by (simp_all add: fresh_mem_def put_heap_def)
  obtain H2 where H2: "rd_heap M ss (ns * ss) ?e1 ?s1 =
      Inr (0, Some 1, put_heap 1 H2 (?s1\<lparr>cheap_idx := 2, nheaps := nheaps ?s1 + 1\<rparr>))" "h_self H2 = Some 1" "h_maxnum H2 = 0" "h_blocks H2 = 0"
    "h_last H2 = 4 + unat ns * unat ss" "\<not> h_malloced H2"
    using rd_heap_empty [OF b(2) g(3,1,2), of M] g(4) u(2) by (auto simp: block_size_def numeral_2_eq_2)
  let ?s2 = "put_heap 1 H2 (?s1\<lparr>cheap_idx := 2, nheaps := nheaps ?s1 + 1\<rparr>)"
  have e: "heap_end start (Some 0) ?s1 = Inr ?e1" "heap_end ?e1 (Some 1) ?s2 = Inr (?e1 + (4 + unat ns * unat ss))"
    using H1(5) H2(5) by (simp_all add: heap_end_def deref_def put_heap_def)
  have "empty_heap 0 ?s2" "empty_heap 1 ?s2" using H1 H2 by (simp_all add: empty_heap_def put_heap_def)
  moreover have "rd_heaps M start sz ss ns ni s = Inr (0, Some (0, 1), ?s2)"
    using assms(2,5) H1(1) H2(1) e by (simp add: rd_heaps_def Let_def deref_def)
  ultimately show ?thesis by blast
qed

section \<open>The disk\<close>

text \<open>
  C39. Starting a RAM disk with sensible numbers makes its node and its two heaps inside the memory it
  is given, and returns no value; but neither heap has a block, so no inode and no sector
  can ever be taken from the disk, and stopping it fails an assertion.
\<close>

theorem ramdisk_has_no_room:
  assumes "tree_ok (ram_fs S)" "unmounted (ram_fs S)" "lookup (ram_fs S) 0 (tokens pre) = Some p"
    "CHR ''/'' \<notin> set nm" "nm \<noteq> []" "length (pre @ CHR ''/'' # nm) < PATH_MAX" "length nm < NAME_MAX"
    "find (named (ram_fs S) nm) (scanned (ram_fs S) p) = None" "e_node (r_node M)" "e_name (r_node M)" "e_behind (r_node M) = []"
    "r_data M" "fresh_mem (ram_mem S)" "0 < start" "rd_good sz ss r"
  shows "\<exists>S' d. ifreg_init M (pre @ CHR ''/'' # nm) start sz ss r opt S = Inr (None, S') \<and>
    isearch (ram_fs S') (Rnod (ram_fs S')) (pre @ CHR ''/'' # nm) = Inr (Some (ilid (ram_fs S))) \<and>
    ram_disks S' (ilid (ram_fs S)) = Live d \<and>
    (\<forall>h \<in> {inode_heap d, sector_heap d}. \<forall>L. tk_mem_malloct L h (ram_mem S') = Inr (None, ram_mem S')) \<and>
    (\<forall>E fd F x. fhandles F (fd_handle fd) = Some x \<and> f_inode x = ilid (ram_fs S) \<longrightarrow>
      ifreg_fini E fd (S'\<lparr>ram_fs := F\<rparr>) = Inl Assert_failed)"
proof -
  let ?i = "ilid (ram_fs S)" and ?s = "pre @ CHR ''/'' # nm"
  obtain F1 where F1: "mknod (r_node M) ?s ISA_IFBLK (Some Fs_ifreg_io) (ram_fs S) = Inr (0, F1)" "isearch F1 (Rnod F1) ?s = Inr (Some ?i)"
    using mknod_adds [OF assms(1-11)] by blast
  obtain ns ni where n: "rd_sizes sz ss r = Inr (ns, ni)" "1 \<le> unat ns" "1 \<le> unat ni" "8 + unat ni * 36 + unat ns * unat ss \<le> unat sz"
    using rd_sizes_good [OF assms(15)] by blast
  obtain s' where s': "rd_heaps M start sz ss ns ni (ram_mem S) = Inr (0, Some (0, 1), s')" "empty_heap 0 s'" "empty_heap 1 s'"
    using rd_heaps_empty [OF assms(13,14) n(2-)] by blast
  let ?d = "\<lparr>rd_start = start, rd_size = sz, rd_sectorsize = ss, rd_isratio = r, rd_opt = opt, inode_heap = 0, sector_heap = 1\<rparr>"
  let ?S = "S\<lparr>ram_fs := F1, ram_mem := s', ram_disks := (ram_disks S)(?i := Live ?d)\<rparr>"
  have "ifreg_init M ?s start sz ss r opt S = Inr (None, ?S)"
    using F1 n(1) s'(1) assms(12) by (simp add: ifreg_init_def)
  moreover have "ifreg_fini E fd (?S\<lparr>ram_fs := F\<rparr>) = Inl Assert_failed"
    if "fhandles F (fd_handle fd) = Some x \<and> f_inode x = ?i" for E fd F x
  proof -
    have "tk_destroy_heap 0 s' = Inr (0, (put_heap 0 zero_heap s')\<lparr>nheaps := nheaps s' - 1\<rparr>)"
      using s'(2) by (simp add: empty_heap_def tk_destroy_heap_def Let_def)
    moreover have "\<exists>rc s2. tk_destroy_heap 1 ((put_heap 0 zero_heap s')\<lparr>nheaps := nheaps s' - 1\<rparr>) = Inr (rc, s2)"
      using s'(3) by (simp add: empty_heap_def tk_destroy_heap_def Let_def put_heap_def)
    ultimately show ?thesis using that
      by (auto simp: ifreg_fini_def the_handle_def fs_unlink_def not_implemented_def)
  qed
  moreover have "isearch (ram_fs ?S) (Rnod (ram_fs ?S)) ?s = Inr (Some ?i)" "ram_disks ?S ?i = Live ?d" "ram_mem ?S = s'" using F1(2) by simp_all
  moreover have "\<forall>h \<in> {inode_heap ?d, sector_heap ?d}. \<forall>L. tk_mem_malloct L h s' = Inr (None, s')"
    using empty_heap_gives [OF s'(2)] empty_heap_gives [OF s'(3)] by simp
  ultimately show ?thesis by metis
qed

text \<open>The disk of the ESC board, of 64 kilobytes.\<close>

definition esc_disk :: "unit ram_sys" where
  "esc_disk = \<lparr>ram_fs = demo_root, ram_mem = \<lparr>header_pool = (\<lambda>_. zero_heap), cheap_idx = 0, nheaps = 0\<rparr>, ram_disks = (\<lambda>_. Null)\<rparr>"

definition esc_ram_env :: ram_env where
  "esc_ram_env = \<lparr>r_node = a_node (f_mem demo_env), r_data = True, r_heap = None, r_addr = 0, r_blk = (\<lambda>_ _. \<lparr>mark = 0, contents = []\<rparr>)\<rparr>"

theorem ramdisk_has_no_room_witness:
  "\<exists>S' d. ifreg_init esc_ram_env ''/ram0'' 0x4000 0x10000 48 10 RAMDISK_KEEP_OLD_DATA esc_disk = Inr (None, S') \<and> ram_disks S' 1 = Live d \<and>
    (\<forall>L. tk_mem_malloct L (inode_heap d) (ram_mem S') = Inr (None, ram_mem S'))"
proof -
  have e: "ilid (ram_fs esc_disk) = 1" "ram_fs esc_disk = demo_root" "fresh_mem (ram_mem esc_disk)" "r_data esc_ram_env"
    "e_node (r_node esc_ram_env)" "e_name (r_node esc_ram_env)" "e_behind (r_node esc_ram_env) = []"
    by (simp_all add: esc_disk_def demo_root_def fresh_mem_def zero_heap_def esc_ram_env_def demo_env_def)
  have g: "rd_good 0x10000 48 10" by (simp add: rd_good_def rd_n_def)
  have "tree_ok (ram_fs esc_disk)" "unmounted (ram_fs esc_disk)" "lookup (ram_fs esc_disk) 0 (tokens []) = Some 0"
    "length ([] @ CHR ''/'' # ''ram0'') < PATH_MAX" "length ''ram0'' < NAME_MAX" "find (named (ram_fs esc_disk) ''ram0'') (scanned (ram_fs esc_disk) 0) = None"
    by (simp_all add: e PATH_MAX_def NAME_MAX_def same_name_def)
  then show ?thesis
    using ramdisk_has_no_room [of esc_disk "[]" 0 "''ram0''" esc_ram_env "0x4000" "0x10000" 48 10 RAMDISK_KEEP_OLD_DATA] e g by auto
qed

end
