(* ===== verification/TkFifo.thy ===== *)
theory TkFifo
  imports TkFilesys TkBits TkMqueue
begin

text \<open>
  The FIFO driver, \<^verbatim>\<open>bsp/drivers/fifo.c\<close>, and \<^verbatim>\<open>mkfifo\<close> of
  \<^verbatim>\<open>src/filesys/fs_ififo.c\<close>. A FIFO is a node of the file system with a message queue of the same name;
  a message is the length of the data and the address of a copy of them in the heap, in the byte
  order of the ESC board. The data of the nodes and of the handles are kept by themselves, and an address
  is a number that is never used again.
\<close>

section \<open>State\<close>

record fifo_drv_data =
  fifo_q :: int
  fifo_qattr :: mq_attr_t
  fifo_prio :: "32 word"

record 'k fifo_fs = "(ifreg_inode_data, ifreg_hndl_data) fstate" +
  fifo_nodes :: "nat \<Rightarrow> fifo_drv_data option"
  fifo_hndls :: "nat \<Rightarrow> int option"
  fifo_heap :: "nat \<Rightarrow> 8 word list buffer"
  fifo_top :: nat
  fifo_board :: 'k

type_synonym 'k fifo_io_t = "'k fifo_fs tk_iohandle_t"

definition DEF_PRIO :: "32 word" where "DEF_PRIO = 10"
definition DEF_MAX_MSG :: nat where "DEF_MAX_MSG = 15"

text \<open>\<^verbatim>\<open>sizeof(fifo_msg_t)\<close>, an integer and a pointer.\<close>

definition SIZEOF_MSG :: nat where "SIZEOF_MSG = 8"

text \<open>What the calls get from outside: the environment of the queues and the outcomes of the allocations.\<close>

record 'a fifo_env =
  w_mq :: "'a mq_env"
  w_node :: node_env
  w_handle :: bool
  w_data :: bool
  w_malloc :: bool
  w_temp :: bool
  w_array :: "(nat \<Rightarrow> mess_t) option"
  w_bufs :: "nat \<Rightarrow> (nat \<Rightarrow> 8 word) option"

text \<open>
  The flags of the C library for the GNU compiler, in the numbers of \<open>TkMqueue\<close>: the access bits have
  the same numbers, and \<^verbatim>\<open>O_CREAT\<close> and \<^verbatim>\<open>O_NONBLOCK\<close> others.
\<close>

definition mq_flags :: "32 word \<Rightarrow> 32 word" where
  "mq_flags fl = (fl AND (O_RDONLY OR O_WRONLY OR O_RDWR)) OR (if fl AND FO_CREAT \<noteq> 0 then O_CREAT else 0) OR
     (if fl AND FO_NONBLOCK \<noteq> 0 then O_NONBLOCK else 0)"

section \<open>The functions of the table\<close>

definition with_fifo :: "int \<Rightarrow> 'k fifo_fs \<Rightarrow> (nat \<Rightarrow> int \<Rightarrow> 'x result) \<Rightarrow> 'x result" where
  "with_fifo file F f = andThen (the_handle (fd_handle file) F) (\<lambda>x. case fifo_hndls F (fd_handle file) of
       None \<Rightarrow> Inl Wild_pointer | Some q \<Rightarrow> f (f_inode x) q)"

text \<open>What \<^verbatim>\<open>mq_open\<close> returns is kept without a look at it.\<close>

definition fifo_open :: "'a fifo_env \<Rightarrow> string \<Rightarrow> 32 word \<Rightarrow> va list \<Rightarrow> 'a mq_kern_scheme fifo_fs \<Rightarrow> (int \<times> 'a mq_kern_scheme fifo_fs) result" where
  "fifo_open W filename flgs args F = andThen (open_args False args) (\<lambda>i. andThen (tk_new_handle (w_handle W) i flgs F) (\<lambda>(h, F1).
     if \<not> w_data W then Inl Null_deref
     else andThen (mq_open (w_mq W) (w_array W) (w_bufs W) filename (mq_flags flgs) None (fifo_board F1)) (\<lambda>(q, k).
       Inr (fd_of h, F1\<lparr>fifo_hndls := (fifo_hndls F1)(h \<mapsto> q), fifo_board := k\<rparr>))))"

text \<open>The two words of a message.\<close>

definition msg_bytes :: "nat \<Rightarrow> nat \<Rightarrow> 8 word list" where
  "msg_bytes len ptr = be_bytes 4 (of_nat len :: 32 word) @ be_bytes 4 (of_nat ptr :: 32 word)"

definition msg_len :: "8 word list \<Rightarrow> int" where
  "msg_len bs = sint (be_word (take 4 bs) :: 32 word)"

definition msg_ptr :: "8 word list \<Rightarrow> nat" where
  "msg_ptr bs = unat (be_word (drop 4 bs) :: 32 word)"

definition fifo_read :: "'a fifo_env \<Rightarrow> int \<Rightarrow> int \<Rightarrow> 'a mq_kern_scheme fifo_fs \<Rightarrow> (int \<times> 8 word list \<times> 'a mq_kern_scheme fifo_fs) result" where
  "fifo_read W file len F = with_fifo file F (\<lambda>_ q.
     andThen (mq_receive (w_mq W) q SIZEOF_MSG (fifo_board F)) (\<lambda>(rlen, m, k). case m of
         None \<Rightarrow> Inl Assert_failed
       | Some (msg, _) \<Rightarrow> c_assert (rlen = int SIZEOF_MSG) (c_assert (msg_len msg \<le> len)
           (c_deref (fifo_heap F (msg_ptr msg)) (\<lambda>dat. in_bounds (0 \<le> msg_len msg \<and> msg_len msg \<le> int (length dat))
             (Inr (msg_len msg, take (nat (msg_len msg)) dat,
               F\<lparr>fifo_heap := (fifo_heap F)(msg_ptr msg := Freed), fifo_board := k\<rparr>)))))))"

definition fifo_write :: "'a fifo_env \<Rightarrow> int \<Rightarrow> 8 word list \<Rightarrow> 'a mq_kern_scheme fifo_fs \<Rightarrow> (int \<times> 'a mq_kern_scheme fifo_fs) result" where
  "fifo_write W file bs F = with_fifo file F (\<lambda>i q. c_assert (w_malloc W) (let p = fifo_top F in
     andThen (deref (fifo_nodes F i)) (\<lambda>Q.
       andThen (mq_send (w_mq W) (w_temp W) q (msg_bytes (length bs) p) SIZEOF_MSG (fifo_prio Q) (fifo_board F)) (\<lambda>(rc, k).
         c_assert (rc = 0) (Inr (4, F\<lparr>fifo_heap := (fifo_heap F)(p := Live bs), fifo_top := p + 1, fifo_board := k\<rparr>))))))"

definition fifo_fstat :: "int \<Rightarrow> 'k fifo_fs \<Rightarrow> (int \<times> mode_t) result" where
  "fifo_fstat file F = andThen (the_handle (fd_handle file) F) (\<lambda>x. Inr (0, i_mode (inodes F (f_inode x))))"

definition fifo_io :: "'a fifo_env \<Rightarrow> 'a mq_kern_scheme fifo_io_t" where
  "fifo_io W = \<lparr>io_close = Some stub_close, io_fcntl = Some stub_fcntl, io_fstat = Some fifo_fstat, io_isatty = Some stub_isatty,
     io_link = Some stub_link, io_lseek = Some stub_lseek, io_open = Some (fifo_open W), io_read = Some (fifo_read W),
     io_stat = Some stub_stat, io_unlink = Some stub_unlink, io_write = Some (fifo_write W)\<rparr>"

section \<open>Making a FIFO\<close>

definition fifo_dev :: iohandle where "fifo_dev = Dev_io 10"

text \<open>Without a name the FIFO is \<^verbatim>\<open>/dev/fifo\<close>. The call of \<open>mq_unlink\<close> before the queue is made does
  nothing, so that a queue that was there under the name is used on.\<close>

definition fifo_init :: "'a fifo_env \<Rightarrow> string option \<Rightarrow> 'a mq_kern_scheme fifo_fs \<Rightarrow> (bool \<times> 'a mq_kern_scheme fifo_fs) result" where
  "fifo_init W inarg F =
     (let path = (case inarg of None \<Rightarrow> ''/dev/fifo'' | Some s \<Rightarrow> s) in
      andThen (imknod (w_node W) (Rnod F) path ISA_IFIFO (Some fifo_dev) F) (\<lambda>(rc, F1). c_assert (rc = 0)
       (andThen (isearch F1 (Rnod F1) path) (\<lambda>inod. case inod of None \<Rightarrow> Inl Assert_failed
        | Some i \<Rightarrow> if \<not> w_data W then Inl Null_deref
            else let attr = \<lparr>mq_msgsize = SIZEOF_MSG, mq_maxmsg = DEF_MAX_MSG\<rparr> in
              andThen (mq_open (w_mq W) (w_array W) (w_bufs W) path O_CREAT (Some attr) (fifo_board F1)) (\<lambda>(q, k).
                Inr (True, F1\<lparr>fifo_nodes := (fifo_nodes F1)(i \<mapsto> \<lparr>fifo_q = q, fifo_qattr = attr, fifo_prio = DEF_PRIO\<rparr>), fifo_board := k\<rparr>))))))"

definition fifo_fini :: "'k fifo_fs \<Rightarrow> (bool \<times> 'k fifo_fs) result" where
  "fifo_fini F = Inr (True, F)"

definition mkfifo :: "'a fifo_env \<Rightarrow> string \<Rightarrow> mode_t \<Rightarrow> 'a mq_kern_scheme fifo_fs \<Rightarrow> (int \<times> 'a mq_kern_scheme fifo_fs) result" where
  "mkfifo W path mode F = andThen (fifo_init W (Some path) F) (\<lambda>(dinfo, F1). c_assert dinfo (Inr (0, F1)))"

end
