(* ===== verification/TkMqueueChan.thy ===== *)
theory TkMqueueChan
  imports TkMqueueProps TkQueue
begin

text \<open>
  A message queue as its users see it: as long as the messages have one priority and the clock
  stands, it is first in, first out, from \<open>mq_send\<close> to \<open>mq_receive\<close>.
\<close>

section \<open>A box of messages of one priority\<close>

definition mess_bytes :: "mess_t \<Rightarrow> 8 word list" where
  "mess_bytes m = (case mbuffer m of Live b \<Rightarrow> take (msgSz m) b | _ \<Rightarrow> [])"

text \<open>Slots whose buffers have \<open>n\<close> bytes.\<close>

definition slots_ok :: "nat \<Rightarrow> mess_t list \<Rightarrow> bool" where
  "slots_ok n arr \<longleftrightarrow> (\<forall>m \<in> set arr. \<exists>b. mbuffer m = Live b \<and> length b = n \<and> msgSz m \<le> n)"

text \<open>The order that the message with the number \<open>i\<close> gets.\<close>

definition key :: "int \<Rightarrow> 32 word \<Rightarrow> nat \<Rightarrow> OrderT" where
  "key t prio i = OrderT t prio (of_nat i)"

definition last_no :: "queue_d \<Rightarrow> nat" where
  "last_no Q = unat (lastInOrder (mBox Q))"

definition fifo_box :: "int \<Rightarrow> 32 word \<Rightarrow> queue_d \<Rightarrow> 8 word list list \<Rightarrow> bool" where
  "fifo_box t prio Q dats \<longleftrightarrow> (\<exists>arr. box_ok Q arr \<and> slots_ok (mq_msgsize (q_attr Q)) arr \<and> map mess_bytes (box_messages Q arr) = dats \<and>
     length dats \<le> last_no Q \<and> map mess_order (box_messages Q arr) = map (key t prio) [last_no Q - length dats..<last_no Q])"

lemma key_less: "i < j \<Longrightarrow> j < 2 ^ 32 \<Longrightarrow> key t prio i < key t prio j"
proof -
  assume "i < j" "j < 2 ^ 32"
  then have "(of_nat i :: 32 word) < of_nat j" by (simp add: word_less_nat_alt unat_of_nat)
  then show ?thesis by (simp add: key_def less_OrderT_def compOrder_def)
qed

lemma keys_strict: "b \<le> 2 ^ 32 \<Longrightarrow> sorted_wrt (<) (map (key t prio) [a..<b])"
  unfolding sorted_wrt_map by (rule sorted_wrt_mono_rel [OF _ sorted_wrt_upt]) (auto intro!: key_less)

lemma fifo_box_NUMB: "fifo_box t prio Q dats \<Longrightarrow> NUMB_MESS Q = length dats"
  unfolding fifo_box_def by (metis length_box(2) length_map)

text \<open>Storing at the end.\<close>

lemma fifo_box_put:
  assumes "fifo_box t prio Q dats" "length dats + 1 < mq_maxmsg (q_attr Q)" "length bs \<le> mq_msgsize (q_attr Q)" "last_no Q + 1 < 2 ^ 32"
  shows "\<exists>Q' d. put_mess True cur bs (length bs) prio t Q = Inr (Q', d) \<and> fifo_box t prio Q' (dats @ [bs]) \<and> last_no Q' = last_no Q + 1 \<and>
    q_sem Q' = q_sem Q \<and> q_taken Q' = q_taken Q \<and> q_attr Q' = q_attr Q"
proof -
  let ?l = "last_no Q" and ?n = "mq_msgsize (q_attr Q)" and ?i = "mIdxIn (mBox Q)"
  obtain arr where arr: "box_ok Q arr" "slots_ok ?n arr" "map mess_bytes (box_messages Q arr) = dats" "length dats \<le> ?l"
    "map mess_order (box_messages Q arr) = map (key t prio) [?l - length dats..<?l]"
    using assms(1) unfolding fifo_box_def by blast
  have room: "NUMB_MESS Q + 1 < mq_maxmsg (q_attr Q)" using assms(2) fifo_box_NUMB [OF assms(1)] by simp
  have i: "?i < length arr" using arr(1) by (simp add: box_ok_def)
  obtain buf where buf: "mbuffer (arr ! ?i) = Live buf" "length buf = ?n" using arr(2) i nth_mem unfolding slots_ok_def by blast
  have f: "fits (arr ! ?i) buf bs (length bs)" using buf assms(3) by (simp add: fits_def)
  let ?m = "filled (arr ! ?i) buf bs (length bs) (OrderT t prio (lastInOrder (mBox Q)))"
  have k: "mess_order ?m = key t prio ?l" by (simp add: filled_def key_def last_no_def)
  have all: "map mess_order (box_messages Q arr @ [?m]) = map (key t prio) [?l - length dats..<Suc ?l]"
    using arr(4) by (simp add: arr(5) k)
  have strict: "sorted_wrt (<) (map mess_order (box_messages Q arr @ [?m]))"
    unfolding all by (rule keys_strict) (use assms(4) in simp)
  then have srt: "sorted (map mess_order (box_messages Q arr @ [?m]))" "distinct (map mess_order (box_messages Q arr @ [?m]))"
    by (simp_all only: strict_sorted_iff)
  have ord: "in_order (box_messages Q arr)" using srt(1) by (simp add: in_order_def sorted_append)
  have first: "box_messages Q arr = [] \<or> mess_order (hd (box_messages Q arr)) \<le> mess_order ?m"
    using srt(1) by (cases "box_messages Q arr") (simp_all add: sorted_append)
  let ?A = "appended ?m arr Q"
  obtain arr' d where p: "put_mess True cur bs (length bs) prio t Q = Inr (with_array arr' ?A, d)" "box_ok (with_array arr' ?A) arr'"
    "in_order (box_messages ?A arr')" "mset (box_messages ?A arr') = add_mset ?m (mset (box_messages Q arr))"
    "\<forall>i < length arr. i \<notin> set (box_positions ?A) \<longrightarrow> arr' ! i = arr ! i"
    using put_mess_run [OF arr(1) room ord f TrueI refl first, of cur] by blast
  have ms: "mset (box_messages ?A arr') = mset (box_messages Q arr @ [?m])" by (simp add: p(4))
  then have ss: "set (box_messages ?A arr') = set (box_messages Q arr @ [?m])" by (rule mset_eq_setD)
  have "distinct (map mess_order (box_messages ?A arr'))"
    using srt(2) ms by (metis mset_eq_imp_distinct_iff mset_map)
  then have eq: "box_messages ?A arr' = box_messages Q arr @ [?m]"
    using map_sorted_distinct_set_unique [of mess_order "box_messages ?A arr'" "box_messages Q arr @ [?m]"] srt p(3) ss
    by (simp add: in_order_def distinct_map)
  have lst: "last_no (with_array arr' ?A) = ?l + 1"
    using assms(4) by (simp add: last_no_def with_array_def appended_def unat_word_ariths)
  have len: "length arr' = length arr" using p(2) arr(1) by (simp add: box_ok_def)
  have good: "\<exists>b. mbuffer m = Live b \<and> length b = ?n \<and> msgSz m \<le> ?n" if "m \<in> set arr'" for m
  proof -
    obtain j where j: "j < length arr" "m = arr' ! j" using \<open>m \<in> set arr'\<close> len by (metis in_set_conv_nth)
    show ?thesis
    proof (cases "j \<in> set (box_positions ?A)")
      case True
      then have "m \<in> set (box_messages ?A arr')" using j(2) by (simp add: box_messages_def)
      then have "m \<in> set (box_messages Q arr @ [?m])" using ss by simp
      then consider "m \<in> set (box_messages Q arr)" | "m = ?m" by auto
      then show ?thesis
      proof cases
        case 1
        then have "m \<in> set arr" using box_positions_less [OF arr(1)] by (auto simp: box_messages_def)
        then show ?thesis using arr(2) by (simp add: slots_ok_def)
      next
        case 2
        then show ?thesis using buf(2) assms(3) by (simp add: filled_def)
      qed
    next
      case False
      then show ?thesis using p(5) j arr(2) by (simp add: slots_ok_def)
    qed
  qed
  have "fifo_box t prio (with_array arr' ?A) (dats @ [bs])"
    unfolding fifo_box_def
  proof (intro exI [of _ arr'] conjI)
    show "box_ok (with_array arr' ?A) arr'" by (rule p(2))
    show "slots_ok (mq_msgsize (q_attr (with_array arr' ?A))) arr'" using good by (simp add: slots_ok_def)
    show "map mess_bytes (box_messages (with_array arr' ?A) arr') = dats @ [bs]"
      unfolding with_array_sel eq using arr(3) by (simp add: mess_bytes_def filled_def)
    show "length (dats @ [bs]) \<le> last_no (with_array arr' ?A)" using arr(4) lst by simp
    show "map mess_order (box_messages (with_array arr' ?A) arr') = map (key t prio) [last_no (with_array arr' ?A) - length (dats @ [bs])..<last_no (with_array arr' ?A)]"
      using all by (simp add: eq lst)
  qed
  then show ?thesis using p(1) lst by (intro exI [of _ "with_array arr' ?A"] exI [of _ d]) (simp add: with_array_def appended_def)
qed

text \<open>Taking the first.\<close>

lemma take_mess_only: "take_mess Q = Inr (bs, pr, Q') \<Longrightarrow> \<exists>i. Q' = Q\<lparr>mBox := (mBox Q)\<lparr>mIdxOut := i\<rparr>\<rparr>"
  by (auto simp: take_mess_def Let_def result_elims)

lemma fifo_box_take:
  assumes "fifo_box t prio Q (bs # dats)"
  shows "\<exists>Q' pr. take_mess Q = Inr (bs, pr, Q') \<and> fifo_box t prio Q' dats \<and> last_no Q' = last_no Q \<and>
    q_sem Q' = q_sem Q \<and> q_taken Q' = q_taken Q \<and> q_attr Q' = q_attr Q"
proof -
  let ?l = "last_no Q" and ?n = "mq_msgsize (q_attr Q)"
  obtain arr where arr: "box_ok Q arr" "slots_ok ?n arr" "map mess_bytes (box_messages Q arr) = bs # dats" "length (bs # dats) \<le> ?l"
    "map mess_order (box_messages Q arr) = map (key t prio) [?l - length (bs # dats)..<?l]"
    using assms unfolding fifo_box_def by (elim exE conjE) (rule that)
  obtain m ms where m: "box_messages Q arr = m # ms" "mess_bytes m = bs" "map mess_bytes ms = dats" using arr(3) by (auto simp: map_eq_Cons_conv)
  have some: "0 < NUMB_MESS Q" using length_box(2) [of Q arr] m(1) by simp
  have "m \<in> set (box_messages Q arr)" by (simp add: m(1))
  then have "m \<in> set arr" using box_positions_less [OF arr(1)] by (auto simp: box_messages_def)
  then obtain b where b: "mbuffer m = Live b" "length b = ?n" "msgSz m \<le> ?n" using arr(2) unfolding slots_ok_def by blast
  obtain Q' where Q': "take_mess Q = Inr (take (msgSz m) b, o_prio (mess_order (arr ! mIdxIn (mBox Q))), Q')" "box_ok Q' arr"
    "box_messages Q' arr = ms"
    using take_mess_first [OF arr(1) some, of b] b m(1) by auto
  obtain i where i: "Q' = Q\<lparr>mBox := (mBox Q)\<lparr>mIdxOut := i\<rparr>\<rparr>" using take_mess_only [OF Q'(1)] by blast
  have "[?l - length (bs # dats)..<?l] = (?l - length (bs # dats)) # [?l - length dats..<?l]"
    using arr(4) by (simp add: upt_conv_Cons Suc_diff_Suc)
  then have "map mess_order ms = map (key t prio) [?l - length dats..<?l]" using arr(5) by (simp add: m(1))
  then have "fifo_box t prio Q' dats"
    unfolding fifo_box_def using Q'(2,3) arr(2,4) m(3) by (intro exI [of _ arr]) (simp add: i last_no_def)
  moreover have "take (msgSz m) b = bs" using m(2) b(1) by (simp add: mess_bytes_def)
  ultimately show ?thesis using Q'(1) by (intro exI [of _ Q']) (simp add: i last_no_def)
qed

section \<open>The calls\<close>

text \<open>What the calls leave of the kernel.\<close>

definition mq_same :: "'a mq_kern_scheme \<Rightarrow> 'a mq_kern_scheme \<Rightarrow> bool" where
  "mq_same k k' \<longleftrightarrow> active_thread k' = active_thread k \<and> IntFlagCntr k' = IntFlagCntr k \<and> mq_once k' = mq_once k \<and> onces k' = onces k \<and>
     sem_once k' = sem_once k \<and> poolAccessSem k' = poolAccessSem k \<and> filePool k' = filePool k \<and> clock_now k' = clock_now k"

lemma mq_same_ops [simp]:
  "mq_same k (set_errno e k') = mq_same k k'" "mq_same k (put_itc s q k') = mq_same k k'" "mq_same k (put_queue i Q k') = mq_same k k'"
  "mq_same k (k'\<lparr>sort_depths := d\<rparr>) = mq_same k k'" "mq_same k k"
  by (simp_all add: mq_same_def set_errno_def upd_tcb_def put_itc_def put_queue_def)

text \<open>
  An idle component with a queue in which as many messages are counted as there are, and that
  descriptors \<open>wd\<close> and \<open>rd\<close> of the caller are open on.
\<close>

definition chan :: "int \<Rightarrow> int \<Rightarrow> nat \<Rightarrow> 32 word \<Rightarrow> 'a mq_kern_scheme \<Rightarrow> 8 word list list \<Rightarrow> bool" where
  "chan wd rd q prio k dats \<longleftrightarrow> (\<exists>p s. mq_idle k p \<and> fifo_box (time_of k) prio (queuePool k q) dats \<and>
     sem_at k (q_sem (queuePool k q)) s \<and> token s = int (length dats) \<and> q_sem (queuePool k q) \<noteq> poolAccessSem k \<and>
     q_sem (queuePool k q) \<noteq> sem_once k \<and> poolAccessSem k \<noteq> sem_once k \<and>
     f_qId (filePool k (nat wd)) = q \<and> \<not> bad_descriptor wd (O_WRONLY OR O_RDWR) k \<and>
     f_qId (filePool k (nat rd)) = q \<and> \<not> bad_descriptor rd (O_RDONLY OR O_RDWR) k)"

text \<open>What the component looks like to a call that has taken the pools.\<close>

lemma taken_facts [simp]:
  "filePool (taken k p) = filePool k" "queuePool (taken k p) = queuePool k" "sort_depths (taken k p) = sort_depths k"
  "time_of (taken k p) = time_of k" "bad_descriptor d dir (taken k p) = bad_descriptor d dir k"
  by (simp_all add: bad_descriptor_def time_of_def set_errno_def upd_tcb_def put_itc_def)

lemma sem_at_other: "s' \<noteq> s \<Longrightarrow> sem_at (put_itc s' x k) s q = sem_at k s q"
  by (simp add: sem_at_def put_itc_def)

lemma mq_idle_kept:
  assumes "mq_idle k p" "mq_same k k'" "sem_at k' (poolAccessSem k) p" "itc_array k' (sem_once k) = itc_array k (sem_once k)"
  shows "mq_idle k' p"
  using assms by (auto simp: mq_idle_def mq_same_def sem_at_def)

text \<open>One call of each.\<close>

lemma mq_send_chan:
  assumes "chan wd rd q prio k dats" "length dats + 1 < mq_maxmsg (q_attr (queuePool k q))" "length bs \<le> mq_msgsize (q_attr (queuePool k q))"
    "last_no (queuePool k q) + 1 < 2 ^ 32"
  shows "\<exists>k'. mq_send E True wd bs (length bs) prio k = Inr (0, k') \<and> chan wd rd q prio k' (dats @ [bs]) \<and>
    last_no (queuePool k' q) = last_no (queuePool k q) + 1 \<and> q_attr (queuePool k' q) = q_attr (queuePool k q)"
proof -
  let ?Q = "queuePool k q" and ?ps = "poolAccessSem k"
  obtain p s where c: "mq_idle k p" "fifo_box (time_of k) prio ?Q dats" "sem_at k (q_sem ?Q) s" "token s = int (length dats)"
    "q_sem ?Q \<noteq> ?ps" "q_sem ?Q \<noteq> sem_once k" "?ps \<noteq> sem_once k" "f_qId (filePool k (nat wd)) = q" "\<not> bad_descriptor wd (O_WRONLY OR O_RDWR) k"
    "f_qId (filePool k (nat rd)) = q" "\<not> bad_descriptor rd (O_RDONLY OR O_RDWR) k"
    using assms(1) unfolding chan_def by blast
  have p: "sem_at k ?ps p" "token p = 1" "IntFlagCntr k = 0" "p\<lparr>token := 1\<rparr> = p" using c(1) by (auto simp: mq_idle_def)
  obtain Q' d where Q': "put_mess True (snd (sort_depths k)) bs (length bs) prio (time_of k) ?Q = Inr (Q', d)" "fifo_box (time_of k) prio Q' (dats @ [bs])"
    "last_no Q' = last_no ?Q + 1" "q_sem Q' = q_sem ?Q" "q_taken Q' = q_taken ?Q" "q_attr Q' = q_attr ?Q"
    using fifo_box_put [OF c(2) assms(2-4)] by blast
  let ?k1 = "(put_queue q Q' (taken k p))\<lparr>sort_depths := d\<rparr>"
  let ?k2 = "set_errno 0 (put_itc (q_sem ?Q) (s\<lparr>token := token s + 1\<rparr>) ?k1)"
  let ?k3 = "set_errno 0 (put_itc ?ps p ?k2)"
  have same: "mq_same k ?k1" "mq_same k ?k2" "mq_same k ?k3" by simp_all
  have s1: "sem_at ?k1 (q_sem ?Q) s" "sem_at ?k1 ?ps (p\<lparr>token := 0\<rparr>)"
    using c(3,5) p(1) by (auto simp: sem_at_def put_queue_def put_itc_def set_errno_def upd_tcb_def)
  have "pool_post (env_addr E) (env_others E) (q_sem ?Q) ?k1 = Inr ?k2"
    using s1(1) c(4) same(1) p(3) by (simp add: pool_post_def sem_post_def sm_v_token posix_rc_def mq_same_def)
  moreover have "mq_leave E ?k2 = Inr ?k3"
  proof -
    have "sem_at ?k2 (poolAccessSem ?k2) (p\<lparr>token := 0\<rparr>)" using s1(2) c(5) same(2) by (simp add: sem_at_other mq_same_def)
    then show ?thesis using pool_post_held [of ?k2 "p\<lparr>token := 0\<rparr>"] same(2) p(3,4) by (simp add: mq_leave_def mq_same_def)
  qed
  moreover have "NUMB_MESS ?Q < room_limit ?Q" using fifo_box_NUMB [OF c(2)] assms(2) by (simp add: room_limit_def)
  ultimately have run: "mq_send E True wd bs (length bs) prio k = Inr (0, ?k3)"
    using mq_enter_idle [OF c(1), of E] c(8,9) assms(3) Q'(1,4) by (simp add: mq_send_def Let_def)
  have q3: "queuePool ?k3 q = Q'" by (simp add: put_queue_def)
  have "mq_idle ?k3 p"
    by (rule mq_idle_kept [OF c(1) same(3)]) (use p(1) c(6,7) in \<open>simp_all add: sem_at_def put_queue_def put_itc_def set_errno_def upd_tcb_def\<close>)
  moreover have "sem_at ?k3 (q_sem ?Q) (s\<lparr>token := token s + 1\<rparr>)"
    using c(3,5) by (simp add: sem_at_def put_itc_def set_errno_def upd_tcb_def)
  moreover have "time_of ?k3 = time_of k" "sem_once ?k3 = sem_once k" "poolAccessSem ?k3 = ?ps" "filePool ?k3 = filePool k"
    using same(3) by (simp_all add: mq_same_def time_of_def)
  moreover have "bad_descriptor fd dir ?k3 = bad_descriptor fd dir k" for fd dir
    using same(3) Q'(5) by (auto simp: bad_descriptor_def mq_same_def put_queue_def Let_def)
  ultimately have "chan wd rd q prio ?k3 (dats @ [bs])"
    unfolding chan_def using c(4-11) Q'(2,4) q3 by (intro exI [of _ p] exI [of _ "s\<lparr>token := token s + 1\<rparr>"]) simp
  then show ?thesis using run Q'(3,6) by (intro exI [of _ ?k3] conjI) (simp_all only: q3)
qed

lemma mq_receive_chan:
  assumes "chan wd rd q prio k (bs # dats)" "mq_msgsize (q_attr (queuePool k q)) \<le> n"
  shows "\<exists>k' pr. mq_receive E rd n k = Inr (int (length bs), Some (bs, pr), k') \<and> chan wd rd q prio k' dats \<and>
    last_no (queuePool k' q) = last_no (queuePool k q) \<and> q_attr (queuePool k' q) = q_attr (queuePool k q)"
proof -
  let ?Q = "queuePool k q" and ?ps = "poolAccessSem k"
  obtain p s where c: "mq_idle k p" "fifo_box (time_of k) prio ?Q (bs # dats)" "sem_at k (q_sem ?Q) s" "token s = int (length (bs # dats))"
    "q_sem ?Q \<noteq> ?ps" "q_sem ?Q \<noteq> sem_once k" "?ps \<noteq> sem_once k" "f_qId (filePool k (nat wd)) = q" "\<not> bad_descriptor wd (O_WRONLY OR O_RDWR) k"
    "f_qId (filePool k (nat rd)) = q" "\<not> bad_descriptor rd (O_RDONLY OR O_RDWR) k"
    using assms(1) unfolding chan_def by (elim exE conjE) (rule that)
  have p: "sem_at k ?ps p" "token p = 1" "IntFlagCntr k = 0" "p\<lparr>token := 1\<rparr> = p" using c(1) by (auto simp: mq_idle_def)
  obtain Q' pr where Q': "take_mess ?Q = Inr (bs, pr, Q')" "fifo_box (time_of k) prio Q' dats" "last_no Q' = last_no ?Q"
    "q_sem Q' = q_sem ?Q" "q_taken Q' = q_taken ?Q" "q_attr Q' = q_attr ?Q"
    using fifo_box_take [OF c(2)] by (elim exE conjE) (rule that)
  let ?k1 = "set_errno 0 (put_itc ?ps p (taken k p))"
  let ?k2 = "set_errno 0 (put_itc (q_sem ?Q) (s\<lparr>token := token s - 1\<rparr>) ?k1)"
  let ?k3 = "put_queue q Q' ?k2"
  have same: "mq_same k ?k1" "mq_same k ?k2" "mq_same k ?k3" by simp_all
  have s1: "sem_at ?k1 (q_sem ?Q) s" using c(3,5) by (simp add: sem_at_def put_itc_def set_errno_def upd_tcb_def)
  have tk: "sem_at (taken k p) (poolAccessSem (taken k p)) (p\<lparr>token := 0\<rparr>)" "IntFlagCntr (taken k p) = 0"
    using p(1,3) by (simp_all add: sem_at_def put_itc_def)
  have "mq_leave E (taken k p) = Inr ?k1"
    using pool_post_held [OF tk(1) _ tk(2), of "env_addr E" "env_others E"] p(4) by (simp add: mq_leave_def)
  moreover have "pool_wait (env_others E) (q_sem ?Q) ?k1 = Inr ?k2"
    using s1 c(4) same(1) p(3) by (simp add: pool_wait_def sem_wait_def sm_p_token posix_rc_def mq_same_def)
  moreover have "NUMB_MESS ?Q \<noteq> 0" using fifo_box_NUMB [OF c(2)] by simp
  moreover have "queuePool ?k1 = queuePool k" "queuePool ?k2 = queuePool k" by simp_all
  ultimately have run: "mq_receive E rd n k = Inr (int (length bs), Some (bs, pr), ?k3)"
    using mq_enter_idle [OF c(1), of E] c(10,11) assms(2) Q'(1) by (simp add: mq_receive_def Let_def)
  have q3: "queuePool ?k3 q = Q'" by (simp add: put_queue_def)
  have "mq_idle ?k3 p"
    by (rule mq_idle_kept [OF c(1) same(3)]) (use p(1) c(5-7) in \<open>simp_all add: sem_at_def put_queue_def put_itc_def set_errno_def upd_tcb_def\<close>)
  moreover have "sem_at ?k3 (q_sem ?Q) (s\<lparr>token := token s - 1\<rparr>)"
    using c(3) by (simp add: sem_at_def put_itc_def set_errno_def upd_tcb_def)
  moreover have "time_of ?k3 = time_of k" "sem_once ?k3 = sem_once k" "poolAccessSem ?k3 = ?ps" "filePool ?k3 = filePool k"
    using same(3) by (simp_all add: mq_same_def time_of_def)
  moreover have "bad_descriptor fd dir ?k3 = bad_descriptor fd dir k" for fd dir
    using same(3) Q'(5) by (auto simp: bad_descriptor_def mq_same_def put_queue_def Let_def)
  ultimately have "chan wd rd q prio ?k3 dats"
    unfolding chan_def using c(4-11) Q'(2,4) q3 by (intro exI [of _ p] exI [of _ "s\<lparr>token := token s - 1\<rparr>"]) simp
  then show ?thesis using run Q'(3,6) by (intro exI [of _ ?k3] exI [of _ pr] conjI) (simp_all only: q3)
qed

section \<open>A sequence of messages\<close>

text \<open>Sending, and receiving, as a program does that checks the result.\<close>

definition mq_put :: "'a mq_env \<Rightarrow> int \<Rightarrow> 32 word \<Rightarrow> 8 word list \<Rightarrow> 'a mq_kern_scheme \<Rightarrow> 'a mq_kern_scheme result" where
  "mq_put E wd prio bs k = andThen (mq_send E True wd bs (length bs) prio k) (\<lambda>(rc, k1). c_assert (rc = 0) (Inr k1))"

definition mq_take :: "'a mq_env \<Rightarrow> int \<Rightarrow> nat \<Rightarrow> 'a mq_kern_scheme \<Rightarrow> (8 word list \<times> 'a mq_kern_scheme) result" where
  "mq_take E rd n k = andThen (mq_receive E rd n k) (\<lambda>(rc, m, k1). case m of None \<Rightarrow> Inl Assert_failed
     | Some (bs, pr) \<Rightarrow> c_assert (rc = int (length bs)) (Inr (bs, k1)))"

lemma mq_put_all:
  assumes "chan wd rd q prio k dats" "length dats + length new < mq_maxmsg (q_attr (queuePool k q))"
    "\<forall>b \<in> set new. length b \<le> mq_msgsize (q_attr (queuePool k q))" "last_no (queuePool k q) + length new < 2 ^ 32"
  shows "\<exists>k'. foldR (mq_put E wd prio) new k = Inr k' \<and> chan wd rd q prio k' (dats @ new) \<and> q_attr (queuePool k' q) = q_attr (queuePool k q)"
  using assms
proof (induction new arbitrary: k dats)
  case (Cons b new)
  obtain k1 where k1: "mq_send E True wd b (length b) prio k = Inr (0, k1)" "chan wd rd q prio k1 (dats @ [b])"
    "last_no (queuePool k1 q) = last_no (queuePool k q) + 1" "q_attr (queuePool k1 q) = q_attr (queuePool k q)"
    using mq_send_chan [OF Cons.prems(1), of b E] Cons.prems(2-4) by auto
  obtain k2 where "foldR (mq_put E wd prio) new k1 = Inr k2" "chan wd rd q prio k2 ((dats @ [b]) @ new)" "q_attr (queuePool k2 q) = q_attr (queuePool k1 q)"
    using Cons.IH [OF k1(2)] Cons.prems(2-4) k1(3,4) by auto
  moreover have "mq_put E wd prio b k = Inr k1" by (simp add: mq_put_def k1(1))
  ultimately show ?case using k1(4) by (intro exI [of _ k2]) simp
qed auto

lemma mq_take_all:
  assumes "chan wd rd q prio k new" "mq_msgsize (q_attr (queuePool k q)) \<le> n"
  shows "\<exists>k'. recv_n (mq_take E rd n) (length new) k = Inr (new, k') \<and> chan wd rd q prio k' []"
  using assms
proof (induction new arbitrary: k)
  case (Cons b new)
  obtain k1 pr where k1: "mq_receive E rd n k = Inr (int (length b), Some (b, pr), k1)" "chan wd rd q prio k1 new"
    "q_attr (queuePool k1 q) = q_attr (queuePool k q)"
    using mq_receive_chan [OF Cons.prems, of E] by blast
  then obtain k2 where "recv_n (mq_take E rd n) (length new) k1 = Inr (new, k2)" "chan wd rd q prio k2 []"
    using Cons.IH [OF k1(2)] Cons.prems(2) by auto
  moreover have "mq_take E rd n k = Inr (b, k1)" by (simp add: mq_take_def k1(1))
  ultimately show ?case by (intro exI [of _ k2]) simp
qed simp

text \<open>
  C22. Messages of one priority that are sent with \<open>mq_send\<close> to an open queue that nobody else uses
  are received with \<open>mq_receive\<close> unchanged, in the order in which they were sent, behind those that were
  waiting: one less than the queue was made for at a time, as long as the clock stands and
  the number of the messages does not wrap.
\<close>

theorem mq_round_trip:
  assumes "chan wd rd q prio k dats" "length dats + length new < mq_maxmsg (q_attr (queuePool k q))"
    "\<forall>b \<in> set new. length b \<le> mq_msgsize (q_attr (queuePool k q))" "last_no (queuePool k q) + length new < 2 ^ 32"
    "mq_msgsize (q_attr (queuePool k q)) \<le> n"
  shows "\<exists>k1 k2. foldR (mq_put E wd prio) new k = Inr k1 \<and>
    recv_n (mq_take E rd n) (length dats + length new) k1 = Inr (dats @ new, k2) \<and> chan wd rd q prio k2 []"
proof -
  obtain k1 where k1: "foldR (mq_put E wd prio) new k = Inr k1" "chan wd rd q prio k1 (dats @ new)" "q_attr (queuePool k1 q) = q_attr (queuePool k q)"
    using mq_put_all [OF assms(1-4)] by blast
  obtain k2 where "recv_n (mq_take E rd n) (length (dats @ new)) k1 = Inr (dats @ new, k2)" "chan wd rd q prio k2 []"
    using mq_take_all [OF k1(2), of n E] k1(3) assms(5) by auto
  then show ?thesis using k1(1) by auto
qed

text \<open>A queue of four messages of 8 bytes, its semaphore the object 2, and two descriptors on it.\<close>

definition chan_demo :: mq_kern where
  "chan_demo = put_itc 2 (blank_itc\<lparr>token := 0\<rparr>) ((mq_demo (\<lambda>_. (demo_queue [])\<lparr>q_sem := 2\<rparr>))
     \<lparr>filePool := (\<lambda>i. \<lparr>f_taken = 1, f_tId = active_thread (mq_demo (\<lambda>_. demo_queue [])), f_oflags = (if i = 0 then O_WRONLY else O_RDONLY), f_qId = 0\<rparr>)\<rparr>)"

lemma chan_demo_sel [simp]: "queuePool chan_demo = (\<lambda>_. (demo_queue [])\<lparr>q_sem := 2\<rparr>)" "last_no ((demo_queue [])\<lparr>q_sem := 2\<rparr>) = 0"
  by (simp_all add: chan_demo_def last_no_def demo_queue_def)

lemma chan_demo_ok: "chan 0 1 0 5 chan_demo []"
proof -
  have "mq_idle chan_demo (blank_itc\<lparr>token := 1\<rparr>)"
    by (simp add: chan_demo_def mq_idle_def sem_at_def TK_MAX_NUM_Q_def put_itc_def)
  moreover have "fifo_box (time_of chan_demo) 5 ((demo_queue [])\<lparr>q_sem := 2\<rparr>) []"
  proof -
    have "box_ok ((demo_queue [])\<lparr>q_sem := 2\<rparr>) (demo_array [])" using demo_queue_ok(1) [of "[]"] by (simp add: box_ok_def)
    moreover have "slots_ok 8 (demo_array [])" by (simp add: slots_ok_def demo_array_def blank_mess_def)
    ultimately show ?thesis unfolding fifo_box_def
      by (intro exI [of _ "demo_array []"]) (simp add: demo_queue_def box_messages_def box_positions_def NUMB_MESS_def)
  qed
  moreover have "sem_at chan_demo 2 (blank_itc\<lparr>token := 0\<rparr>)" by (simp add: chan_demo_def TK_MAX_NUM_Q_def)
  moreover have "active_thread (mq_demo Qs) = 0" for Qs
    by (simp add: mq_demo_def pth_kern.extend_def mq_kern.fields_def pth_demo_def itc_kern.extend_def pth_kern.fields_def
        itc_demo_def kern.extend_def itc_kern.fields_def demo_def bss0_def)
  ultimately show ?thesis
    unfolding chan_def by (intro exI [of _ "blank_itc\<lparr>token := 1\<rparr>"] exI [of _ "blank_itc\<lparr>token := 0\<rparr>"])
      (simp add: bad_descriptor_def chan_demo_def oflag_defs NUMBER_OF_FILES_def put_itc_def demo_queue_def)
qed

theorem mq_round_trip_witness:
  "\<exists>k1 k2. foldR (mq_put demo_env 0 5) [[1, 2], [3]] chan_demo = Inr k1 \<and> recv_n (mq_take demo_env 1 8) 2 k1 = Inr ([[1, 2], [3]], k2)"
proof -
  let ?Q = "queuePool chan_demo 0" and ?ms = "[[1, 2], [3]] :: 8 word list list"
  have c: "length [] + length ?ms < mq_maxmsg (q_attr ?Q)" "\<forall>b \<in> set ?ms. length b \<le> mq_msgsize (q_attr ?Q)"
    "last_no ?Q + length ?ms < 2 ^ 32" "mq_msgsize (q_attr ?Q) \<le> 8"
    by simp_all
  have e: "length ([] :: 8 word list list) + length ?ms = 2" "[] @ ?ms = ?ms" by simp_all
  show ?thesis using mq_round_trip [OF chan_demo_ok c, of demo_env] unfolding e by blast
qed

end
