(* ===== verification/TkFifoProps.thy ===== *)
theory TkFifoProps
  imports TkFifo TkFilesysProps TkMqueueChan
begin

text \<open>
  A FIFO behind the system calls: what is written to it is read from it, in order, through the
  descriptors of the file system, the message queue and the heap.
\<close>

section \<open>Messages\<close>

lemma length_msg_bytes [simp]: "length (msg_bytes len p) = SIZEOF_MSG"
  by (simp add: msg_bytes_def SIZEOF_MSG_def)

lemma be_word_4: "be_word (be_bytes 4 w) = (w :: 32 word)"
  unfolding be_word_bytes by (rule take_bit_word_eq_self) simp

lemma msg_ptr_bytes: "p < 2 ^ 32 \<Longrightarrow> msg_ptr (msg_bytes len p) = p"
  by (simp add: msg_ptr_def msg_bytes_def be_word_4 unat_of_nat)

lemma msg_len_bytes: "len < 2 ^ 31 \<Longrightarrow> msg_len (msg_bytes len p) = int len"
proof -
  assume "len < 2 ^ 31"
  then have "sint (word_of_int (int len) :: 32 word) = int len"
    by (simp only: sint_sbintrunc') (simp add: signed_take_bit_int_eq_self)
  then show ?thesis by (simp add: msg_len_def msg_bytes_def be_word_4)
qed

section \<open>The state of a FIFO\<close>

definition fifo_hndl :: "'k fifo_fs \<Rightarrow> nat \<Rightarrow> nat \<Rightarrow> int \<Rightarrow> bool" where
  "fifo_hndl F h i q \<longleftrightarrow> (\<exists>x. fhandles F h = Some x \<and> f_inode x = i) \<and> fifo_hndls F h = Some q \<and> i_iohandle (inodes F i) = Some fifo_dev"

text \<open>Two handles of a FIFO whose copies in the heap are \<open>dats\<close>, at the addresses \<open>ps\<close>.\<close>

definition fifo_holds :: "nat \<Rightarrow> nat \<Rightarrow> nat \<Rightarrow> nat \<Rightarrow> 'a mq_kern_scheme fifo_fs \<Rightarrow> 8 word list list \<Rightarrow> bool" where
  "fifo_holds wh rh i q F dats \<longleftrightarrow> (\<exists>wd rd Q ps. fifo_hndl F wh i wd \<and> fifo_hndl F rh i rd \<and> fifo_nodes F i = Some Q \<and>
     length ps = length dats \<and> distinct ps \<and> (\<forall>p \<in> set ps. p < fifo_top F) \<and> fifo_top F \<le> 2 ^ 32 \<and>
     map (fifo_heap F) ps = map Live dats \<and> (\<forall>b \<in> set dats. length b < 2 ^ 31) \<and>
     chan wd rd q (fifo_prio Q) (fifo_board F) (map2 (\<lambda>b p. msg_bytes (length b) p) dats ps))"

lemma calls_fifo:
  assumes "fifo_hndl F h i q" "f_dev E 10 = fifo_io W"
  shows "fs_read E (fd_of h) n F = fifo_read W (fd_of h) n F" "fs_write E (fd_of h) bs F = fifo_write W (fd_of h) bs F"
  using assms by (auto simp: fs_read_def fs_write_def check_fh_def the_handle_def io_table_def fifo_hndl_def fifo_dev_def fifo_io_def)

lemma with_fifo_hndl: "fifo_hndl F h i q \<Longrightarrow> with_fifo (fd_of h) F f = f i q"
  by (auto simp: fifo_hndl_def with_fifo_def the_handle_def)

text \<open>The queue behind it, for the room that is left.\<close>

abbreviation fifo_queue :: "'a mq_kern_scheme fifo_fs \<Rightarrow> nat \<Rightarrow> queue_d" where
  "fifo_queue F q \<equiv> queuePool (fifo_board F) q"

definition fifo_room :: "'a mq_kern_scheme fifo_fs \<Rightarrow> nat \<Rightarrow> nat \<Rightarrow> nat \<Rightarrow> bool" where
  "fifo_room F q n m \<longleftrightarrow> mq_msgsize (q_attr (fifo_queue F q)) = SIZEOF_MSG \<and> n + m < mq_maxmsg (q_attr (fifo_queue F q)) \<and>
     last_no (fifo_queue F q) + m < 2 ^ 32 \<and> fifo_top F + m \<le> 2 ^ 32"

lemma fifo_write_one:
  assumes "fifo_holds wh rh i q F dats" "fifo_room F q (length dats) (Suc m)" "length bs < 2 ^ 31" "f_dev E 10 = fifo_io W" "w_malloc W" "w_temp W"
  shows "\<exists>F'. fs_write E (fd_of wh) bs F = Inr (4, F') \<and> fifo_holds wh rh i q F' (dats @ [bs]) \<and> fifo_room F' q (Suc (length dats)) m"
proof -
  obtain wd rd Q ps where h: "fifo_hndl F wh i wd" "fifo_hndl F rh i rd" "fifo_nodes F i = Some Q" "length ps = length dats" "distinct ps"
    "\<forall>p \<in> set ps. p < fifo_top F" "fifo_top F \<le> 2 ^ 32" "map (fifo_heap F) ps = map Live dats" "\<forall>b \<in> set dats. length b < 2 ^ 31"
    "chan wd rd q (fifo_prio Q) (fifo_board F) (map2 (\<lambda>b p. msg_bytes (length b) p) dats ps)"
    using assms(1) unfolding fifo_holds_def by (elim exE conjE) (rule that)
  let ?p = "fifo_top F" and ?ms = "map2 (\<lambda>b p. msg_bytes (length b) p) dats ps"
  have r: "mq_msgsize (q_attr (fifo_queue F q)) = SIZEOF_MSG" "length dats + Suc m < mq_maxmsg (q_attr (fifo_queue F q))"
    "last_no (fifo_queue F q) + Suc m < 2 ^ 32" "?p + Suc m \<le> 2 ^ 32" using assms(2) by (simp_all add: fifo_room_def)
  obtain k where k: "mq_send (w_mq W) True wd (msg_bytes (length bs) ?p) SIZEOF_MSG (fifo_prio Q) (fifo_board F) = Inr (0, k)"
    "chan wd rd q (fifo_prio Q) k (?ms @ [msg_bytes (length bs) ?p])" "last_no (queuePool k q) = last_no (fifo_queue F q) + 1"
    "q_attr (queuePool k q) = q_attr (fifo_queue F q)"
    using mq_send_chan [OF h(10), of "msg_bytes (length bs) ?p" "w_mq W"] r h(4) by auto
  let ?F = "F\<lparr>fifo_heap := (fifo_heap F)(?p := Live bs), fifo_top := ?p + 1, fifo_board := k\<rparr>"
  have "fs_write E (fd_of wh) bs F = Inr (4, ?F)"
    using calls_fifo(2) [OF h(1) assms(4)] k(1) h(3) assms(5,6) by (simp add: fifo_write_def with_fifo_hndl [OF h(1)] Let_def deref_def)
  moreover have "fifo_holds wh rh i q ?F (dats @ [bs])"
  proof -
    have "fifo_hndl ?F wh i wd" "fifo_hndl ?F rh i rd" using h(1,2) by (simp_all add: fifo_hndl_def)
    moreover have "?p \<notin> set ps" using h(6) by blast
    then have "map (fifo_heap ?F) ps = map (fifo_heap F) ps" by auto
    ultimately show ?thesis unfolding fifo_holds_def using h(3-9) k(2) assms(3) r(4) \<open>?p \<notin> set ps\<close>
      by (intro exI [of _ wd] exI [of _ rd] exI [of _ Q] exI [of _ "ps @ [?p]"]) (auto simp: less_Suc_eq)
  qed
  moreover have "fifo_room ?F q (Suc (length dats)) m" using r k(3,4) by (simp add: fifo_room_def)
  ultimately show ?thesis by (intro exI [of _ ?F]) (simp only: simp_thms)
qed


lemma fifo_read_one:
  assumes "fifo_holds wh rh i q F (bs # dats)" "mq_msgsize (q_attr (fifo_queue F q)) = SIZEOF_MSG" "int (length bs) \<le> n" "f_dev E 10 = fifo_io W"
  shows "\<exists>F'. fs_read E (fd_of rh) n F = Inr (int (length bs), bs, F') \<and> fifo_holds wh rh i q F' dats \<and>
    q_attr (fifo_queue F' q) = q_attr (fifo_queue F q)"
proof -
  obtain wd rd Q ps where h: "fifo_hndl F wh i wd" "fifo_hndl F rh i rd" "fifo_nodes F i = Some Q" "length ps = length (bs # dats)" "distinct ps"
    "\<forall>p \<in> set ps. p < fifo_top F" "fifo_top F \<le> 2 ^ 32" "map (fifo_heap F) ps = map Live (bs # dats)" "\<forall>b \<in> set (bs # dats). length b < 2 ^ 31"
    "chan wd rd q (fifo_prio Q) (fifo_board F) (map2 (\<lambda>b p. msg_bytes (length b) p) (bs # dats) ps)"
    using assms(1) unfolding fifo_holds_def by (elim exE conjE) (rule that)
  obtain p ps' where ps: "ps = p # ps'" "length ps' = length dats" using h(4) by (cases ps) auto
  have p: "p < 2 ^ 32" "p \<notin> set ps'" "fifo_heap F p = Live bs" "length bs < 2 ^ 31" using h(5-9) ps by auto
  let ?ms = "map2 (\<lambda>b p. msg_bytes (length b) p) dats ps'" and ?m = "msg_bytes (length bs) p"
  have c: "chan wd rd q (fifo_prio Q) (fifo_board F) (?m # ?ms)" using h(10) by (simp add: ps(1))
  obtain k pr where k: "mq_receive (w_mq W) rd SIZEOF_MSG (fifo_board F) = Inr (int (length ?m), Some (?m, pr), k)"
    "chan wd rd q (fifo_prio Q) k ?ms" "q_attr (queuePool k q) = q_attr (fifo_queue F q)"
    using mq_receive_chan [OF c, of SIZEOF_MSG "w_mq W"] assms(2) by auto
  let ?F = "F\<lparr>fifo_heap := (fifo_heap F)(p := Freed), fifo_board := k\<rparr>"
  have "fs_read E (fd_of rh) n F = Inr (int (length bs), bs, ?F)"
    using calls_fifo(1) [OF h(2) assms(4)] k(1) p assms(3)
    by (simp add: fifo_read_def with_fifo_hndl [OF h(2)] msg_ptr_bytes msg_len_bytes in_bounds_def c_assert_def)
  moreover have "fifo_holds wh rh i q ?F dats"
  proof -
    have "fifo_hndl ?F wh i wd" "fifo_hndl ?F rh i rd" using h(1,2) by (simp_all add: fifo_hndl_def)
    moreover have "map (fifo_heap ?F) ps' = map (fifo_heap F) ps'" using p(2) by auto
    ultimately show ?thesis unfolding fifo_holds_def using h(3-9) k(2) ps
      by (intro exI [of _ wd] exI [of _ rd] exI [of _ Q] exI [of _ ps']) auto
  qed
  ultimately show ?thesis using k(3) by (intro exI [of _ ?F]) simp
qed

section \<open>A sequence of writes and reads\<close>

type_synonym 'a fifo_fs_env = "('a mq_kern_scheme, unit) fifo_fs_ext fs_env"

text \<open>A write, and a read of at most \<open>n\<close> bytes, through the system calls; the results are passed on.\<close>

definition fifo_put :: "'a fifo_fs_env \<Rightarrow> int \<Rightarrow> 8 word list \<Rightarrow> 'a mq_kern_scheme fifo_fs \<Rightarrow> 'a mq_kern_scheme fifo_fs result" where
  "fifo_put E fd bs F = andThen (fs_write E fd bs F) (\<lambda>(rc, F1). Inr F1)"

definition fifo_take :: "'a fifo_fs_env \<Rightarrow> int \<Rightarrow> int \<Rightarrow> 'a mq_kern_scheme fifo_fs \<Rightarrow> (8 word list \<times> 'a mq_kern_scheme fifo_fs) result" where
  "fifo_take E fd n F = andThen (fs_read E fd n F) (\<lambda>(rc, bs, F1). c_assert (rc = int (length bs)) (Inr (bs, F1)))"

lemma fifo_put_all:
  assumes "fifo_holds wh rh i q F dats" "fifo_room F q (length dats) (length new)" "\<forall>b \<in> set new. length b < 2 ^ 31"
    "f_dev E 10 = fifo_io W" "w_malloc W" "w_temp W"
  shows "\<exists>F'. foldR (fifo_put E (fd_of wh)) new F = Inr F' \<and> fifo_holds wh rh i q F' (dats @ new) \<and> mq_msgsize (q_attr (fifo_queue F' q)) = SIZEOF_MSG"
  using assms(1-3)
proof (induction new arbitrary: F dats)
  case Nil
  then show ?case by (simp add: fifo_room_def)
next
  case (Cons b new)
  obtain F1 where F1: "fs_write E (fd_of wh) b F = Inr (4, F1)" "fifo_holds wh rh i q F1 (dats @ [b])" "fifo_room F1 q (Suc (length dats)) (length new)"
    using fifo_write_one [OF Cons.prems(1), of "length new" b E W] Cons.prems(2,3) assms(4-6) by auto
  obtain F2 where "foldR (fifo_put E (fd_of wh)) new F1 = Inr F2" "fifo_holds wh rh i q F2 ((dats @ [b]) @ new)" "mq_msgsize (q_attr (fifo_queue F2 q)) = SIZEOF_MSG"
    using Cons.IH [OF F1(2)] Cons.prems(3) F1(3) by auto
  moreover have "fifo_put E (fd_of wh) b F = Inr F1" by (simp add: fifo_put_def F1(1))
  ultimately show ?case by (intro exI [of _ F2]) simp
qed

lemma fifo_take_all:
  assumes "fifo_holds wh rh i q F new" "mq_msgsize (q_attr (fifo_queue F q)) = SIZEOF_MSG" "\<forall>b \<in> set new. int (length b) \<le> n" "f_dev E 10 = fifo_io W"
  shows "\<exists>F'. recv_n (fifo_take E (fd_of rh) n) (length new) F = Inr (new, F') \<and> fifo_holds wh rh i q F' []"
  using assms(1-3)
proof (induction new arbitrary: F)
  case (Cons b new)
  obtain F1 where F1: "fs_read E (fd_of rh) n F = Inr (int (length b), b, F1)" "fifo_holds wh rh i q F1 new" "q_attr (fifo_queue F1 q) = q_attr (fifo_queue F q)"
    using fifo_read_one [OF Cons.prems(1,2), of n E W] Cons.prems(3) assms(4) by auto
  obtain F2 where "recv_n (fifo_take E (fd_of rh) n) (length new) F1 = Inr (new, F2)" "fifo_holds wh rh i q F2 []"
    using Cons.IH [OF F1(2)] Cons.prems(2,3) F1(3) by auto
  moreover have "fifo_take E (fd_of rh) n F = Inr (b, F1)" by (simp add: fifo_take_def F1(1))
  ultimately show ?case by (intro exI [of _ F2]) simp
qed simp

text \<open>
  C37. What is written to a FIFO with \<open>write\<close> is read from it with \<open>read\<close>, block by block and in the order of the
  writes, behind what was waiting, when the reader asks for enough: one block less than
  the queue was made for at a time, as long as there is memory, the clock stands and the number of the messages does not wrap.
\<close>

theorem fifo_round_trip:
  assumes "fifo_holds wh rh i q F dats" "fifo_room F q (length dats) (length new)" "\<forall>b \<in> set new. length b < 2 ^ 31"
    "f_dev E 10 = fifo_io W" "w_malloc W" "w_temp W" "\<forall>b \<in> set (dats @ new). int (length b) \<le> n"
  shows "\<exists>F1 F2. foldR (fifo_put E (fd_of wh)) new F = Inr F1 \<and>
    recv_n (fifo_take E (fd_of rh) n) (length dats + length new) F1 = Inr (dats @ new, F2) \<and> fifo_holds wh rh i q F2 []"
proof -
  obtain F1 where F1: "foldR (fifo_put E (fd_of wh)) new F = Inr F1" "fifo_holds wh rh i q F1 (dats @ new)" "mq_msgsize (q_attr (fifo_queue F1 q)) = SIZEOF_MSG"
    using fifo_put_all [OF assms(1-6)] by blast
  obtain F2 where "recv_n (fifo_take E (fd_of rh) n) (length (dats @ new)) F1 = Inr (dats @ new, F2)" "fifo_holds wh rh i q F2 []"
    using fifo_take_all [OF F1(2,3) assms(7,4)] by blast
  then show ?thesis using F1(1) by auto
qed

text \<open>A FIFO with the queue of the demonstration, which nothing has been written to, open for a writer and a reader.\<close>

definition fifo_demo :: "mq_kern fifo_fs" where
  "fifo_demo = \<lparr>inodes = (\<lambda>i. if i = 0 then (new_inode [] ISA_IFDIR None 0 0)\<lparr>i_down := Some 1\<rparr> else new_inode ''pipe'' ISA_IFIFO (Some fifo_dev) 0 1),
     icntr = 2, ilid = 2, Rnod = Some 0, fs_errno = 0,
     fhandles = (\<lambda>h. if h < 2 then Some \<lparr>f_id = int h, f_inode = 1, f_oflag = 0, f_data = None\<rparr> else None), fcntr = 2, flid = 2,
     fifo_nodes = [1 \<mapsto> \<lparr>fifo_q = 2, fifo_qattr = \<lparr>mq_msgsize = SIZEOF_MSG, mq_maxmsg = 4\<rparr>, fifo_prio = 5\<rparr>],
     fifo_hndls = [0 \<mapsto> 0, 1 \<mapsto> 1], fifo_heap = (\<lambda>_. Freed), fifo_top = 1, fifo_board = chan_demo\<rparr>"

definition demo_fifo_env :: "unit fifo_env" where
  "demo_fifo_env = \<lparr>w_mq = TkMqueueProps.demo_env, w_node = \<lparr>e_node = True, e_name = True, e_behind = []\<rparr>, w_handle = True, w_data = True,
     w_malloc = True, w_temp = True, w_array = None, w_bufs = (\<lambda>_. None)\<rparr>"

definition demo_fifo_fs_env :: "unit fifo_fs_env" where
  "demo_fifo_fs_env = \<lparr>f_mem = f_mem TkFilesysProps.demo_env, f_dev = (\<lambda>_. fifo_io demo_fifo_env), std_read = (\<lambda>n F. Inr (0, [], F)), std_write = (\<lambda>fd bs F. Inr (0, F))\<rparr>"

lemma fifo_demo_ok: "fifo_holds 0 1 1 0 fifo_demo []" "fifo_room fifo_demo 0 0 2"
proof -
  show "fifo_room fifo_demo 0 0 2"
    by (simp add: fifo_room_def fifo_demo_def SIZEOF_MSG_def)
  show "fifo_holds 0 1 1 0 fifo_demo []"
    unfolding fifo_holds_def
    by (intro exI [of _ 0] exI [of _ 1] exI [of _ "\<lparr>fifo_q = 2, fifo_qattr = \<lparr>mq_msgsize = SIZEOF_MSG, mq_maxmsg = 4\<rparr>, fifo_prio = 5\<rparr>"] exI [of _ "[]"])
      (simp add: fifo_demo_def fifo_hndl_def new_inode_def chan_demo_ok)
qed

theorem fifo_round_trip_witness:
  "\<exists>F1 F2. foldR (fifo_put demo_fifo_fs_env 3) [[1, 2], [3]] fifo_demo = Inr F1 \<and> recv_n (fifo_take demo_fifo_fs_env 4 16) 2 F1 = Inr ([[1, 2], [3]], F2)"
proof -
  let ?ms = "[[1, 2], [3]] :: 8 word list list"
  have r: "fifo_room fifo_demo 0 (length ([] :: 8 word list list)) (length ?ms)" using fifo_demo_ok(2) by (simp add: numeral_2_eq_2)
  have c: "\<forall>b \<in> set ?ms. length b < 2 ^ 31"
    "f_dev demo_fifo_fs_env 10 = fifo_io demo_fifo_env" "w_malloc demo_fifo_env" "w_temp demo_fifo_env" "\<forall>b \<in> set ([] @ ?ms). int (length b) \<le> 16"
    by (simp_all add: demo_fifo_fs_env_def demo_fifo_env_def)
  have e: "length ([] :: 8 word list list) + length ?ms = 2" "[] @ ?ms = ?ms" "fd_of 0 = 3" "fd_of 1 = 4" by (simp_all add: fd_of_def)
  show ?thesis using fifo_round_trip [OF fifo_demo_ok(1) r c] unfolding e by blast
qed

end
