(* ===== verification/TkMqueueOpen.thy ===== *)
theory TkMqueueOpen
  imports TkMqueueChan TkItcProps
begin

text \<open>
  What \<open>mq_open\<close> makes: an empty queue that is first in, first out, open for the caller.
\<close>

section \<open>The messages of a new queue\<close>

definition slot_ok :: "nat \<Rightarrow> mess_t \<Rightarrow> bool" where
  "slot_ok n m \<longleftrightarrow> (\<exists>b. mbuffer m = Live b \<and> length b = n \<and> msgSz m \<le> n)"

lemma slots_ok_nth: "slots_ok n arr \<longleftrightarrow> (\<forall>x < length arr. slot_ok n (arr ! x))"
  unfolding slots_ok_def slot_ok_def by (simp only: all_set_conv_all_nth)

lemma alloc_messages_ok:
  assumes "\<forall>x \<in> set is. bufs x \<noteq> None \<and> x < length arr"
  shows "\<exists>arr'. alloc_messages sz bufs is arr = Some arr' \<and> length arr' = length arr \<and>
    (\<forall>x < length arr. x \<in> set is \<or> slot_ok sz (arr ! x) \<longrightarrow> slot_ok sz (arr' ! x))"
  using assms
proof (induction "is" arbitrary: arr)
  case (Cons i is')
  obtain g where g: "bufs i = Some g" using Cons.prems by auto
  let ?m = "(arr ! i)\<lparr>mbuffer := Live (map g [0..<sz]), msgSz := 0, mess_order := OrderT 0 0 0\<rparr>"
  obtain arr' where a: "alloc_messages sz bufs is' (arr[i := ?m]) = Some arr'" "length arr' = length arr"
    "\<forall>x < length arr. x \<in> set is' \<or> slot_ok sz (arr[i := ?m] ! x) \<longrightarrow> slot_ok sz (arr' ! x)"
    using Cons.IH [of "arr[i := ?m]"] Cons.prems by auto
  have "slot_ok sz ?m" by (simp add: slot_ok_def)
  then have "slot_ok sz (arr' ! x)" if "x < length arr" "x \<in> set (i # is') \<or> slot_ok sz (arr ! x)" for x
    using a(3) that by (cases "x = i") auto
  then show ?case using a(1,2) g by auto
qed simp

lemma new_messages:
  assumes "\<forall>x < n. bufs x \<noteq> None"
  obtains arr where "alloc_messages sz bufs [0..<n] (map g [0..<n]) = Some arr" "length arr = n" "slots_ok sz arr"
  using alloc_messages_ok [of "[0..<n]" bufs "map g [0..<n]" sz] assms by (auto simp: slots_ok_nth)

section \<open>The semaphore of a new queue\<close>

lemma sem_init_made:
  assumes "itc_idx k < TK_MAX_NUM_Q" "\<exists>j < TK_MAX_NUM_Q. itc_array k j = None"
  obtains j where "sem_init (Some m) True s 0 c k = Inr (0, j, set_errno 0 (put_itc j (sm_init ''PS'' c FIFO m) (k\<lparr>itc_idx := j\<rparr>)))"
    "j < TK_MAX_NUM_Q" "itc_array k j = None"
proof -
  obtain j where j: "itc_findNextEmpySlot k = (RC_OK, k\<lparr>itc_idx := j\<rparr>)" "j < TK_MAX_NUM_Q" "itc_array k j = None"
    using find_slot_around(2) [OF assms(1)] assms(2) by blast
  then have "sem_init (Some m) True s 0 c k = Inr (0, j, set_errno 0 (put_itc j (sm_init ''PS'' c FIFO m) (k\<lparr>itc_idx := j\<rparr>)))"
    by (simp add: sem_init_def sm_create_def in_bounds_def posix_rc_def)
  then show ?thesis using j(2,3) by (rule that)
qed

section \<open>Opening\<close>

lemma empty_box:
  assumes "messArray (mBox Q) = Live arr" "mIdxIn (mBox Q) = 0" "mIdxOut (mBox Q) = 0" "length arr = mq_maxmsg (q_attr Q)" "0 < mq_maxmsg (q_attr Q)"
    "slots_ok (mq_msgsize (q_attr Q)) arr"
  shows "fifo_box t prio Q []"
  unfolding fifo_box_def using assms
  by (intro exI [of _ arr]) (simp add: box_ok_def box_messages_def box_positions_def NUMB_MESS_def)

lemma some_flag: "fl AND O_RDWR \<noteq> 0 \<Longrightarrow> fl AND (O_WRONLY OR O_RDWR) \<noteq> 0 \<and> fl AND (O_RDONLY OR O_RDWR) \<noteq> 0 \<and> fl AND (O_RDONLY OR O_WRONLY OR O_RDWR) \<noteq> 0"
  by (simp add: bit.conj_disj_distrib or_eq_0_iff)

text \<open>The queue in its slot: \<open>arr\<close> are its messages and \<open>s\<close> is its semaphore.\<close>

definition opened :: "string \<Rightarrow> mq_attr_t \<Rightarrow> mess_t list \<Rightarrow> queue_d \<Rightarrow> queue_d" where
  "opened nm atr arr Q = Q\<lparr>q_taken := 1, q_name := take QNAME_LEN nm, q_attr := atr,
     mBox := (mBox Q)\<lparr>messArray := Live arr, mIdxIn := 0, mIdxOut := 0, lastInOrder := 0\<rparr>\<rparr>"

lemma opened_sel [simp]: "q_taken (opened nm atr arr Q) = 1" "q_attr (opened nm atr arr Q) = atr" "last_no (opened nm atr arr Q) = 0"
  "last_no (Q\<lparr>q_sem := s\<rparr>) = last_no Q"
  by (simp_all add: opened_def last_no_def)

lemma opened_box: "length arr = mq_maxmsg atr \<Longrightarrow> 0 < mq_maxmsg atr \<Longrightarrow> slots_ok (mq_msgsize atr) arr \<Longrightarrow> fifo_box t prio ((opened nm atr arr Q)\<lparr>q_sem := s\<rparr>) []"
  by (rule empty_box [of _ arr]) (simp_all add: opened_def)

text \<open>The descriptor that is made, and the call in its steps.\<close>

definition with_file :: "nat \<Rightarrow> 32 word \<Rightarrow> nat \<Rightarrow> 'a mq_kern_scheme \<Rightarrow> 'a mq_kern_scheme" where
  "with_file d fl i k = k\<lparr>filePool := (filePool k)(d := \<lparr>f_taken = 1, f_tId = active_thread k, f_oflags = fl, f_qId = i\<rparr>)\<rparr>"

lemma describe_made:
  assumes "fl AND O_RDWR \<noteq> 0" "fl AND O_CREAT \<noteq> 0" "\<exists>d < NUMBER_OF_FILES. f_taken (filePool k d) = 0"
  obtains d where "d < NUMBER_OF_FILES" "mq_describe E nm fl (Some i) k = Inr (Some d, with_file d fl i k)"
proof -
  obtain d where "d < NUMBER_OF_FILES" "free_slot NUMBER_OF_FILES (\<lambda>i. f_taken (filePool k i)) NUMBER_OF_FILES fPIdx 0 = (d, d)"
    using free_slot_found [OF assms(3)] unfolding fPIdx_def by blast
  then show ?thesis using some_flag [OF assms(1)] assms(2) by (intro that [of d]) (simp_all add: mq_describe_def with_file_def)
qed

lemma mq_open_steps:
  assumes "mq_idle k p" "nm \<noteq> []" "hd nm = CHR ''/''" "length nm \<le> QNAME_LEN" "fl AND O_CREAT \<noteq> 0" "i < NUMBER_OF_QUEUES"
    "free_slot NUMBER_OF_QUEUES (\<lambda>i. q_taken (queuePool k i)) NUMBER_OF_QUEUES qPIdx 0 = (i, i)"
    "named_queue nm (put_queue i ((queuePool k i)\<lparr>q_taken := 1\<rparr>) (taken k p)) = None"
    "new_queue E mem bufs nm fl attr i (put_queue i ((queuePool k i)\<lparr>q_taken := 1\<rparr>) (taken k p)) = Inr (Some i, k3)"
    "mq_describe E nm fl (Some i) k3 = Inr (Some d, k4)" "mq_leave E k4 = Inr k5"
  shows "mq_open E mem bufs nm fl attr k = Inr (int d, k5)"
  using mq_enter_idle [OF assms(1), of E] assms(2-) by (simp add: mq_open_def mq_create_def Let_def)

text \<open>The component with the new queue, its semaphore and the descriptor, and the pools released.\<close>

definition made :: "nat \<Rightarrow> queue_d \<Rightarrow> nat \<Rightarrow> itc_t \<Rightarrow> 'a mq_kern_scheme \<Rightarrow> 'a mq_kern_scheme" where
  "made i Q j s k = put_queue i (Q\<lparr>q_sem := j\<rparr>) (set_errno 0 (put_itc j s ((put_queue i Q k)\<lparr>itc_idx := j\<rparr>)))"

lemma made_sel [simp]:
  "filePool (made i Q j s k) = filePool k" "active_thread (made i Q j s k) = active_thread k" "poolAccessSem (made i Q j s k) = poolAccessSem k"
  "IntFlagCntr (made i Q j s k) = IntFlagCntr k" "sem_once (made i Q j s k) = sem_once k" "mq_once (made i Q j s k) = mq_once k"
  "onces (made i Q j s k) = onces k" "itc_array (made i Q j s k) = (itc_array k)(j := Some s)" "queuePool (made i Q j s k) i = Q\<lparr>q_sem := j\<rparr>"
  by (simp_all add: made_def put_queue_def put_itc_def set_errno_def upd_tcb_def)

lemma with_file_sel [simp]:
  "queuePool (with_file d fl i k) = queuePool k" "active_thread (with_file d fl i k) = active_thread k" "poolAccessSem (with_file d fl i k) = poolAccessSem k"
  "IntFlagCntr (with_file d fl i k) = IntFlagCntr k" "sem_once (with_file d fl i k) = sem_once k" "mq_once (with_file d fl i k) = mq_once k"
  "onces (with_file d fl i k) = onces k" "itc_array (with_file d fl i k) = itc_array k"
  "filePool (with_file d fl i k) d = \<lparr>f_taken = 1, f_tId = active_thread k, f_oflags = fl, f_qId = i\<rparr>"
  by (simp_all add: with_file_def)

lemma released_sel [simp]:
  "active_thread (set_errno e (put_itc s p k)) = active_thread k" "IntFlagCntr (set_errno e (put_itc s p k)) = IntFlagCntr k"
  "poolAccessSem (set_errno e (put_itc s p k)) = poolAccessSem k" "sem_once (set_errno e (put_itc s p k)) = sem_once k"
  "mq_once (set_errno e (put_itc s p k)) = mq_once k" "onces (set_errno e (put_itc s p k)) = onces k"
  "itc_array (set_errno e (put_itc s p k)) = (itc_array k)(s := Some p)"
  "queuePool (set_errno e (put_itc s p k)) = queuePool k" "filePool (set_errno e (put_itc s p k)) = filePool k"
  by (simp_all add: put_itc_def set_errno_def upd_tcb_def)

text \<open>What \<open>new_queue\<close> makes of a slot that was taken.\<close>

lemma new_queue_made:
  assumes "fl AND O_NONBLOCK = 0" "0 < mq_maxmsg atr" "\<forall>x < mq_maxmsg atr. bufs x \<noteq> None" "env_sem E = Some m" "env_ring E"
    "mq_maxmsg atr * SIZEOF_MessT < 2 ^ 32"
    "itc_idx k < TK_MAX_NUM_Q" "\<exists>j < TK_MAX_NUM_Q. itc_array k j = None"
  obtains arr j where "length arr = mq_maxmsg atr" "slots_ok (mq_msgsize atr) arr" "j < TK_MAX_NUM_Q" "itc_array k j = None"
    "new_queue E (Some g) bufs nm fl (Some atr) i k = Inr (Some i,
       made i (opened nm atr arr (queuePool k i)) j (sm_init ''PS'' 0 FIFO m) k)"
proof -
  obtain arr where arr: "alloc_messages (mq_msgsize atr) bufs [0..<mq_maxmsg atr] (map g [0..<mq_maxmsg atr]) = Some arr"
    "length arr = mq_maxmsg atr" "slots_ok (mq_msgsize atr) arr"
    using new_messages [OF assms(3), of "mq_msgsize atr" g] by blast
  let ?k = "put_queue i (opened nm atr arr (queuePool k i)) k"
  have f: "itc_idx ?k < TK_MAX_NUM_Q" "\<exists>j < TK_MAX_NUM_Q. itc_array ?k j = None" using assms(7,8) by (simp_all add: put_queue_def)
  obtain j where j: "sem_init (Some m) True (q_sem (opened nm atr arr (queuePool k i))) 0 0 ?k =
      Inr (0, j, set_errno 0 (put_itc j (sm_init ''PS'' 0 FIFO m) (?k\<lparr>itc_idx := j\<rparr>)))" "j < TK_MAX_NUM_Q" "itc_array ?k j = None"
    using sem_init_made [OF f, of m] by blast
  have "arr \<noteq> []" using arr(2) assms(2) by auto
  then show ?thesis using arr j assms(1,4,5) array_slots_all [OF assms(6)]
    by (intro that [of arr j]) (simp_all add: new_queue_def made_def Let_def opened_def put_queue_def set_errno_def upd_tcb_def put_itc_def)
qed

text \<open>What a call needs to make a queue: a name that is new, slots for it, and memory.\<close>

definition can_make :: "'a mq_env \<Rightarrow> (nat \<Rightarrow> (nat \<Rightarrow> 8 word) option) \<Rightarrow> string \<Rightarrow> mq_attr_t \<Rightarrow> 'a mq_kern_scheme \<Rightarrow> bool" where
  "can_make E bufs nm atr k \<longleftrightarrow> nm \<noteq> [] \<and> hd nm = CHR ''/'' \<and> length nm \<le> QNAME_LEN \<and>
     (\<forall>i < NUMBER_OF_QUEUES. \<not> same_name (q_name (queuePool k i)) nm) \<and> (\<exists>i < NUMBER_OF_QUEUES. q_taken (queuePool k i) = 0) \<and>
     (\<exists>i < NUMBER_OF_FILES. f_taken (filePool k i) = 0) \<and> itc_idx k < TK_MAX_NUM_Q \<and> (\<exists>j < TK_MAX_NUM_Q. itc_array k j = None) \<and>
     0 < mq_maxmsg atr \<and> mq_maxmsg atr * SIZEOF_MessT < 2 ^ 32 \<and> (\<forall>x < mq_maxmsg atr. bufs x \<noteq> None) \<and> env_sem E \<noteq> None \<and> env_ring E"

text \<open>The channel, from what the component consists of then.\<close>

lemma made_chan:
  assumes "mq_idle k p" "poolAccessSem k \<noteq> sem_once k" "sem_at k (poolAccessSem k) p"
    "poolAccessSem k5 = poolAccessSem k" "IntFlagCntr k5 = 0" "itc_array k5 = (itc_array k)(poolAccessSem k \<mapsto> p, j \<mapsto> s)"
    "sem_once k5 = sem_once k" "mq_once k5 = mq_once k" "onces k5 = onces k" "active_thread k5 = active_thread k" "queuePool k5 i = Q\<lparr>q_sem := j\<rparr>"
    "filePool k5 d = \<lparr>f_taken = 1, f_tId = active_thread k, f_oflags = fl, f_qId = i\<rparr>"
    "fl AND O_RDWR \<noteq> 0" "j \<noteq> poolAccessSem k" "j \<noteq> sem_once k" "d < NUMBER_OF_FILES" "j < TK_MAX_NUM_Q" "b_type s = SEM \<and> token s = 0" "q_taken Q = 1"
    "\<And>t. fifo_box t prio (Q\<lparr>q_sem := j\<rparr>) []"
  shows "chan (int d) (int d) i prio k5 []"
proof -
  have "mq_idle k5 p" using assms(1-9,14,15) by (auto simp: mq_idle_def sem_at_def)
  moreover have "sem_at k5 j s" using assms(6,17,18) by (simp add: sem_at_def)
  moreover have "\<not> bad_descriptor (int d) (O_WRONLY OR O_RDWR) k5" "\<not> bad_descriptor (int d) (O_RDONLY OR O_RDWR) k5"
    using some_flag [OF assms(13)] assms(10-12,16,19) by (simp_all add: bad_descriptor_def)
  ultimately show ?thesis
    unfolding chan_def using assms(2,4,7,11,12,14,15,18,20) by (intro exI [of _ p] exI [of _ s]) simp
qed

text \<open>
  C21. \<open>mq_open\<close> with \<^verbatim>\<open>O_CREAT\<close> and \<^verbatim>\<open>O_RDWR\<close>, of a name that is new, makes an empty queue of the
  attributes that are given and returns a descriptor with which the caller can send to it and receive
  from it, in the order of sending, when the component is idle, a slot is free in each pool and there is memory
  (the size of the array of messages does not wrap).
\<close>

theorem mq_open_makes_channel:
  assumes idle: "mq_idle k p" "poolAccessSem k \<noteq> sem_once k" and make: "can_make E bufs nm atr k"
    and flags: "fl AND O_CREAT \<noteq> 0" "fl AND O_RDWR \<noteq> 0" "fl AND O_NONBLOCK = 0"
  shows "\<exists>d q k'. mq_open E (Some g) bufs nm fl (Some atr) k = Inr (int d, k') \<and> chan (int d) (int d) q prio k' [] \<and>
    q_attr (queuePool k' q) = atr \<and> last_no (queuePool k' q) = 0"
proof -
  let ?ps = "poolAccessSem k" and ?k1 = "taken k p"
  have nm: "nm \<noteq> []" "hd nm = CHR ''/''" "length nm \<le> QNAME_LEN" "\<forall>i < NUMBER_OF_QUEUES. \<not> same_name (q_name (queuePool k i)) nm"
    and slots: "\<exists>i < NUMBER_OF_QUEUES. q_taken (queuePool k i) = 0" "\<exists>i < NUMBER_OF_FILES. f_taken (filePool k i) = 0"
    and itc: "itc_idx k < TK_MAX_NUM_Q" "\<exists>j < TK_MAX_NUM_Q. itc_array k j = None"
    and mem: "0 < mq_maxmsg atr" "\<forall>x < mq_maxmsg atr. bufs x \<noteq> None" "env_ring E" "mq_maxmsg atr * SIZEOF_MessT < 2 ^ 32"
    using make by (simp_all add: can_make_def)
  obtain m where m: "env_sem E = Some m" using make by (auto simp: can_make_def)
  have p: "sem_at k ?ps p" "token p = 1" "IntFlagCntr k = 0" "p\<lparr>token := 1\<rparr> = p" "?ps < TK_MAX_NUM_Q" "b_type p = SEM"
    using idle(1) by (auto simp: mq_idle_def sem_at_def)
  obtain o' where o': "sem_at k (sem_once k) o'" using idle(1) by (auto simp: mq_idle_def)
  obtain i where i: "i < NUMBER_OF_QUEUES" "q_taken (queuePool k i) = 0"
    "free_slot NUMBER_OF_QUEUES (\<lambda>i. q_taken (queuePool k i)) NUMBER_OF_QUEUES qPIdx 0 = (i, i)"
    using free_slot_found [OF slots(1)] unfolding qPIdx_def by blast
  let ?k2 = "put_queue i ((queuePool k i)\<lparr>q_taken := 1\<rparr>) ?k1"
  have new: "named_queue nm ?k2 = None" using nm(4) unfolding named_queue_iff by auto
  have k2: "itc_array ?k2 = (itc_array k)(?ps \<mapsto> p\<lparr>token := 0\<rparr>)" "itc_idx ?k2 = itc_idx k"
    by (simp_all add: put_queue_def put_itc_def set_errno_def upd_tcb_def)
  have itc2: "itc_idx ?k2 < TK_MAX_NUM_Q" "\<exists>j < TK_MAX_NUM_Q. itc_array ?k2 j = None"
    using itc p(1) unfolding k2 sem_at_def by (simp, metis fun_upd_other option.distinct(1))
  let ?s = "sm_init ''PS'' 0 FIFO m" and ?Q = "\<lambda>arr. opened nm atr arr (queuePool ?k2 i)"
  obtain arr j where n: "length arr = mq_maxmsg atr" "slots_ok (mq_msgsize atr) arr" "j < TK_MAX_NUM_Q" "itc_array ?k2 j = None"
    "new_queue E (Some g) bufs nm fl (Some atr) i ?k2 = Inr (Some i, made i (?Q arr) j ?s ?k2)"
    using new_queue_made [OF flags(3) mem(1,2) m mem(3,4) itc2] by blast
  let ?k3 = "made i (?Q arr) j ?s ?k2"
  have j: "j \<noteq> ?ps" "j \<noteq> sem_once k" using n(4) p(1) o' by (auto simp: k2 sem_at_def split: if_splits)
  have f3: "filePool ?k3 = filePool k" by (simp add: put_queue_def)
  obtain d where d: "d < NUMBER_OF_FILES" "mq_describe E nm fl (Some i) ?k3 = Inr (Some d, with_file d fl i ?k3)"
    using describe_made [OF flags(2,1), of ?k3] slots(2) unfolding f3 by blast
  let ?k4 = "with_file d fl i ?k3"
  let ?k5 = "set_errno 0 (put_itc ?ps p ?k4)"
  have f4: "poolAccessSem ?k4 = ?ps" "IntFlagCntr ?k4 = 0" "itc_array ?k4 = (itc_array k)(?ps \<mapsto> p\<lparr>token := 0\<rparr>, j \<mapsto> ?s)"
    "sem_once ?k4 = sem_once k" "mq_once ?k4 = mq_once k" "onces ?k4 = onces k" "active_thread ?k4 = active_thread k" "queuePool ?k4 i = (?Q arr)\<lparr>q_sem := j\<rparr>"
    "filePool ?k4 d = \<lparr>f_taken = 1, f_tId = active_thread k, f_oflags = fl, f_qId = i\<rparr>"
    using p(3) k2(1) by (simp_all add: put_queue_def) (simp_all add: put_itc_def set_errno_def upd_tcb_def)
  have "sem_at ?k4 ?ps (p\<lparr>token := 0\<rparr>)" using p(5,6) j(1) by (simp add: sem_at_def f4(3))
  then have leave: "mq_leave E ?k4 = Inr ?k5"
    using pool_post_held [of ?k4 "p\<lparr>token := 0\<rparr>"] f4(2) p(4) unfolding mq_leave_def f4(1) by simp
  have f5: "poolAccessSem ?k5 = ?ps" "IntFlagCntr ?k5 = 0" "itc_array ?k5 = (itc_array k)(?ps \<mapsto> p, j \<mapsto> ?s)"
    "sem_once ?k5 = sem_once k" "mq_once ?k5 = mq_once k" "onces ?k5 = onces k" "active_thread ?k5 = active_thread k" "queuePool ?k5 i = (?Q arr)\<lparr>q_sem := j\<rparr>"
    "filePool ?k5 d = \<lparr>f_taken = 1, f_tId = active_thread k, f_oflags = fl, f_qId = i\<rparr>"
    unfolding released_sel f4 using j(1) by (simp_all add: fun_upd_twist)
  have "chan (int d) (int d) i prio ?k5 []"
    by (rule made_chan [OF idle p(1) f5 flags(2) j d(1) n(3) _ _ opened_box [OF n(1) mem(1) n(2)]]) (simp_all add: sm_init_def)
  then show ?thesis using mq_open_steps [OF idle(1) nm(1-3) flags(1) i(1,3) new n(5) d(2) leave] f5(8)
    by (intro exI [of _ d] exI [of _ i] exI [of _ ?k5]) simp
qed

text \<open>An initialised component without queues, in a kernel with a free object.\<close>

definition open_demo :: mq_kern where
  "open_demo = (mq_demo (\<lambda>_. (demo_queue [])\<lparr>q_taken := 0, q_name := []\<rparr>))\<lparr>itc_array := (\<lambda>i. if i < 2 then Some (blank_itc\<lparr>token := 1\<rparr>) else None), itc_idx := 0\<rparr>"

definition open_env :: "unit mq_env" where
  "open_env = demo_env\<lparr>env_sem := Some blank_itc\<rparr>"

lemma open_demo_idle: "mq_idle open_demo (blank_itc\<lparr>token := 1\<rparr>)"
  by (simp add: open_demo_def mq_idle_def sem_at_def TK_MAX_NUM_Q_def)

lemma open_demo_can_make: "can_make open_env (\<lambda>_. Some (\<lambda>_. 0)) ''/q'' \<lparr>mq_msgsize = 8, mq_maxmsg = 5\<rparr> open_demo"
proof -
  have "f_taken (filePool open_demo 0) = 0" "q_taken (queuePool open_demo 0) = 0" "itc_array open_demo 2 = None"
    by (simp_all add: open_demo_def mq_demo_def pth_kern.extend_def mq_kern.fields_def)
  moreover have "0 < NUMBER_OF_QUEUES" "0 < NUMBER_OF_FILES" "2 < TK_MAX_NUM_Q"
    by (simp_all add: NUMBER_OF_QUEUES_def NUMBER_OF_FILES_def TK_MAX_NUM_Q_def)
  ultimately have "\<exists>i < NUMBER_OF_QUEUES. q_taken (queuePool open_demo i) = 0" "\<exists>i < NUMBER_OF_FILES. f_taken (filePool open_demo i) = 0"
    "\<exists>j < TK_MAX_NUM_Q. itc_array open_demo j = None"
    by blast+
  moreover have "\<not> same_name (q_name (queuePool open_demo i)) ''/q''" for i
    by (simp add: open_demo_def TkMqueue.same_name_def QNAME_LEN_def)
  ultimately show ?thesis
    by (simp add: can_make_def QNAME_LEN_def SIZEOF_MessT_def open_env_def demo_env_def) (simp add: open_demo_def TK_MAX_NUM_Q_def)
qed

theorem mq_open_makes_channel_witness:
  "\<exists>d q k'. mq_open open_env (Some (\<lambda>_. blank_mess)) (\<lambda>_. Some (\<lambda>_. 0)) ''/q'' (O_CREAT OR O_RDWR) (Some \<lparr>mq_msgsize = 8, mq_maxmsg = 5\<rparr>) open_demo =
    Inr (int d, k') \<and> chan (int d) (int d) q 5 k' [] \<and> q_attr (queuePool k' q) = \<lparr>mq_msgsize = 8, mq_maxmsg = 5\<rparr>"
proof -
  have f: "(O_CREAT OR O_RDWR) AND O_CREAT \<noteq> 0" "(O_CREAT OR O_RDWR) AND O_RDWR \<noteq> 0" "(O_CREAT OR O_RDWR) AND O_NONBLOCK = 0"
    by (simp_all add: oflag_defs)
  have "poolAccessSem open_demo \<noteq> sem_once open_demo" by (simp add: open_demo_def)
  then show ?thesis using mq_open_makes_channel [OF open_demo_idle _ open_demo_can_make f] by blast
qed

end
