(* ===== verification/Spec2Isabelle.thy ===== *)
theory Spec2Isabelle
  imports TkKernelProps TkItcProps TkSearch TkPthreadProps TkMqueueProps TkMemProps TkErrorProps TkTimeProps TkBootProps TkStallocProps TkConsoleProps TkDriversProps TkRamdiskProps TkFifoProps TkMqueueOpen
begin

text \<open>
  TinKer is a small kernel of POSIX threads in C for microcontrollers. This development models its
  kernel, its C library additions, its file system, and the drivers of its largest board support
  package, as functions of Higher-Order Logic over an explicit state, and proves what they do,
  where they do it right and where they do not. Names are those of the source; paths are below
  \<^verbatim>\<open>src/\<close>.

  \<^bold>\<open>The program and its parts.\<close> The inner kernel (\<^verbatim>\<open>src/tk.c\<close>) keeps a pool of thread
  control blocks and a schedule, one row of thread numbers per priority; the dispatcher
  (\<^verbatim>\<open>src/tk_switch.c\<close>) wakes sleepers, reaps zombies and switches to the first ready thread.
  Everything that waits does so through the state word of a control block. Inter-thread
  communication (\<^verbatim>\<open>src/tk_itc.c\<close>, \<^verbatim>\<open>tk_itcshared.c\<close>, \<^verbatim>\<open>tk_itcny.c\<close>) keeps a table of objects with rings of
  blocked threads; POSIX semaphores (\<^verbatim>\<open>semaphore.c\<close>) and system queues
  (\<^verbatim>\<open>tk_sysqueues.c\<close>) are objects of it, message queues (\<^verbatim>\<open>mqueue.c\<close>) use semaphores and the
  sort of \<^verbatim>\<open>tk_ansi_search.c\<close>, while mutexes, condition variables and reader-writer locks
  (\<^verbatim>\<open>pthread_*.c\<close>) keep arrays of blocked threads of their own. The file system (\<^verbatim>\<open>src/filesys\<close>) is a
  tree of inodes; each inode has a table of functions, of a kind of file or of a driver, through
  which the system calls of \<^verbatim>\<open>fs_main.c\<close> go. The drivers (\<^verbatim>\<open>bsp/drivers\<close>) stand on the board:
  registers, interrupts, the periodic timer, diodes, the serial console and a CAN controller of
  the ESC board (\<^verbatim>\<open>bsp/gnu_powerpc\<close>). The XC167 port has its own allocator of stacks.

  \<^bold>\<open>How C is written.\<close> A state is a record; a component that stands on another one extends its
  record (\<open>kern\<close>, \<open>itc_kern\<close>, \<open>pth_kern\<close>, \<open>mq_kern\<close>; \<open>kern\<close>, \<open>esc_kern\<close>, \<open>con_kern\<close>,
  \<open>can_kern\<close>; \<open>filesys\<close>, \<open>fstate\<close>, \<open>dev_fs\<close>), so the functions of the lower one apply to it. A
  fragment that can stop the system returns a \<open>result\<close> (\<open>TkPrelude\<close>): \<open>Inl\<close> of the reason (a failed
  \<^verbatim>\<open>assert\<close>, \<^verbatim>\<open>tk_exit\<close>, an access out of bounds, a null or wild pointer, a
  second \<^verbatim>\<open>free\<close>, an unset variable, a division by zero, a loop that runs for ever), or \<open>Inr\<close> of
  the value. Errors that the code reports are values: return codes, \<^verbatim>\<open>errno\<close>. Words are machine
  words where the code wraps, masks or shifts them, and numbers where it counts within proved bounds.
  A context switch leaves a C function and comes back later: what the other threads do
  meanwhile is the argument \<open>oth\<close>. What is not in the repository is an argument, too: the outcomes of
  \<^verbatim>\<open>malloc\<close>, the contents of fresh memory, the hardware counter, what the communication processor and
  the CAN controller show, the C library behind the standard files.

  \<^bold>\<open>Theories.\<close> Models come first, properties in the theories whose names end in \<open>Props\<close>.

  \<^item> \<open>TkPrelude\<close>: results, checks, loops over lists (\<open>foldR\<close>), words; the collections
    \<open>result_simps\<close> and \<open>result_elims\<close>.
  \<^item> \<open>TkTypes\<close>: \<^verbatim>\<open>tk.h\<close>, \<^verbatim>\<open>implement_tk.h\<close>, the tuning, the globals. \<open>TkSched\<close>, \<open>TkThread\<close>:
    \<^verbatim>\<open>tk.c\<close>. \<open>TkSwitch\<close>: \<^verbatim>\<open>tk_switch.c\<close>.
  \<^item> \<open>TkSchedInv\<close>, \<open>TkFamily\<close>: the invariants \<open>sched_inv\<close> (every row lists the threads of its
    priority once) and \<open>family_inv\<close> (parents live and count their children), and each operation on
    them. \<open>TkChoice\<close>: the choice of the next thread against the first ready one. \<open>TkSystem\<close>,
    \<open>TkSteps\<close>: the kernel as a transition system whose steps are labelled by the calls (\<open>kcall\<close>),
    every call cut at its context switches; \<open>kernel_ok\<close> holds in all reachable states, with rows
    that may be full. Four rules restrict the calls (see \<open>TkSteps\<close>), because the code breaks
    without them; one of them is that creations do not overlap. \<open>TkJoin\<close>: a thread that waits in
    \<^verbatim>\<open>tk_join\<close>, through any calls of the others. \<open>TkKernelProps\<close>: the properties, on the kernels of
    \<open>TkDemo\<close> and \<open>TkJoinDemo\<close>.
  \<^item> \<open>TkRing\<close>, \<open>TkItc\<close>, \<open>TkItcNy\<close>: the objects, semaphores, queues, and the variants for interrupt
    handlers. \<open>TkSem\<close>: semaphores against an abstract counting semaphore over the interface
    \<open>wait_queue\<close>. \<open>TkQueue\<close>: the four kinds of queues as bounded lists, interpretations of
    \<open>bounded_fifo\<close>. \<open>TkItcProps\<close>: the properties.
  \<^item> \<open>TkSemaphore\<close>: \<^verbatim>\<open>semaphore.c\<close>, \<^verbatim>\<open>tk_sysqueues.c\<close>. \<open>TkMutex\<close>, \<open>TkPthread\<close>: \<^verbatim>\<open>pthread_*.c\<close>;
    \<open>TkMutexSpec\<close>: mutexes against an owner and a list of waiters; \<open>TkPthreadProps\<close>.
  \<^item> \<open>TkSearch\<close>: \<^verbatim>\<open>tk_ansi_search.c\<close>, with the interface \<open>comparator\<close>, and that it sorts.
    \<open>TkMqueue\<close>, \<open>TkMqueueProps\<close>: \<^verbatim>\<open>mqueue.c\<close>; \<open>TkMqueueChan\<close>: a queue as a channel that is
    first in, first out; \<open>TkMqueueOpen\<close>: that opening makes one.
  \<^item> \<open>TkMem\<close>, \<open>TkMemProps\<close>: \<^verbatim>\<open>tk_mem.c\<close>, with the interface \<open>block_store\<close>. \<open>TkError\<close>,
    \<open>TkErrorProps\<close>: \<^verbatim>\<open>tk_error.c\<close> and the enumerations. \<open>TkTime\<close>, \<open>TkTimeProps\<close>: \<^verbatim>\<open>time.c\<close>, \<^verbatim>\<open>tk_tick.c\<close>.
  \<^item> \<open>TkInode\<close>: \<^verbatim>\<open>inode.c\<close> and mounting; \<open>TkInodeProps\<close>: \<open>tree_ok\<close>, an invariant of everything that
    the calls can make (\<open>fs_reach\<close>), and the tree as a naming graph (\<open>child\<close>, \<open>lookup\<close>).
    \<open>TkRegFile\<close>, \<open>TkRegFileProps\<close>: \<^verbatim>\<open>fs_ifreg.c\<close>, the bytes of a chain of sectors. \<open>TkFilesys\<close>,
    \<open>TkFilesysProps\<close>, \<open>TkBootProps\<close>: \<^verbatim>\<open>fs_main.c\<close>, \<^verbatim>\<open>filesys.c\<close> and the start. \<open>TkDrivers\<close>,
    \<open>TkDriversProps\<close>: \<^verbatim>\<open>bsp/drivers\<close> behind the system calls. \<open>TkRamdisk\<close>, \<open>TkRamdiskProps\<close>: the RAM disk of
    \<^verbatim>\<open>fs_ifreg.c\<close> on the heaps of \<open>TkMem\<close>. \<open>TkFifo\<close>, \<open>TkFifoProps\<close>: \<^verbatim>\<open>fifo.c\<close>, over the system calls, the
    queues and the heap of the C library.
  \<^item> \<open>TkBits\<close>, \<open>TkBoard\<close>, \<open>TkConsole\<close>, \<open>TkCan\<close>: \<^verbatim>\<open>bits.h\<close>, the MPC860 and the ESC board,
    \<^verbatim>\<open>console.c\<close>, \<^verbatim>\<open>sja1000.c\<close>, with \<open>TkBoardProps\<close>, \<open>TkConsoleProps\<close>, \<open>TkCanProps\<close> (whose ring of
    frames is another \<open>bounded_fifo\<close>) and the board \<open>TkBoardDemo\<close> for the witnesses.
  \<^item> \<open>TkStalloc\<close>, \<open>TkStallocProps\<close>: the allocator of stacks, against an abstract one on tiles.

  \<^bold>\<open>What is shown.\<close> The kernel: in every state that calls within the rules reach, the schedule
  and the family tree are in order, and yielding lets the most urgent ready thread run, unless a
  zombie that is to be buried lies in a full row, where the scan reads behind the schedule; what
  creating, deleting, joining, re-prioritising and sleeping do, with the faults that a full row
  brings. Communication: semaphores and mutexes refine abstract
  ones, branch by branch, the right waiter is woken and runs; queues are first in, first out; what
  the errors leave behind. The library: the sort sorts, with the sentinel it needs; sent messages
  keep their order; the uptime is right within the range in which its products do not wrap. Memory: what is handed out is free and stays apart from
  the rest, stacks as long as they are given back with a free block below. Files: the tree stays a tree, searching ends, a made node is found; what is written is read back
  through the whole stack of calls, the refusals of opening are stated for all flags, and the devices of the drivers null, con, tim,
  timr and led are found under their names after the start;
  a queue that was opened and a FIFO on it give their messages in order. The
  board: characters and frames arrive in order, the clock moves by a millisecond per interrupt,
  diodes shine. Where the code goes wrong, the theorem says how: a message more urgent than
  all others makes the sort read outside its array, a full row makes burying read behind the
  schedule, overlapping creations enter one thread twice, the uptime is wrong when the counter of a
  tick runs far, a path through a missing directory uses a null
  pointer, a heap that was full stays full, a basic CAN frame is stored two bytes off.

  \<^bold>\<open>Bounds and fuel.\<close> Loops over arrays are recursions over the remaining positions. A walk along a
  list of siblings has the number of inodes as fuel, and the search for a free block the number of
  blocks: after as many steps the code is where it began, and \<open>Hangs\<close> is the answer for a loop that
  never ends; \<open>fs_search_ends\<close> and \<open>heap_allocates\<close> show that it does not occur. The sort has the
  length of the range and one as fuel, which \<open>qsort_sorts\<close> shows to be enough. The waiting
  loops of reader-writer locks take fuel as an argument, because other threads decide how often they
  turn; \<open>rwlock_round_trip\<close> gives the amount. Loops that wait for hardware or search memory by
  links (\<open>leave_reset\<close>, \<open>wait_TBS\<close>, \<open>wait_sent\<close>, \<open>find_fit\<close>, \<open>find_place\<close>) are partial functions in
  the option type, where not returning is \<open>None\<close>, and the theorems show when they return. The tuning constants are those of
  \<^verbatim>\<open>bsp/gnu_arm/tk_tuning.h\<close>, of which the proofs use only that limits are positive.

  \<^bold>\<open>Not modelled.\<close>

  \<^item> The machine context switch, stack layout and startup: macros in assembly
    (\<^verbatim>\<open>src/arch/*/context*.h\<close>, \<^verbatim>\<open>*.S\<close>, linker scripts); a switch is the argument \<open>oth\<close>. The
    interrupt masks of the ports are counted only (\<open>IntFlagCntr\<close>).
  \<^item> Third-party and generated code: the STM32 library, the DAvE output and the C library parts
    for the XC167, the register headers of the PowerPC beyond the fields that the drivers use.
  \<^item> The hosted ports (i386, x86-64, armv7l, Blackfin) and the LPC21xx board: tables of system calls,
    and console output through calls of a host.
  \<^item> \<^verbatim>\<open>tk_ptime.c\<close>: timers that are announced only; their functions are empty or call a hardware clock that no
    port has.
  \<^item> The start of the file system with all that \<^verbatim>\<open>.drvinit\<close> of the ESC image holds: \<open>fs_init\<close> takes
    any list of drivers, and its property is about the drivers null, con, tim, timr and led with
    any others behind them; \<^verbatim>\<open>escfs_init\<close> (the CAN node and the RAM disk) is modelled by the functions
    that it calls, \<open>can_init\<close> and \<open>ifreg_init\<close>, and the FIFO's \<open>fifo_init\<close> over a file system of its own.
  \<^item> The texts of the messages that the kernel prints, and the texts of the error messages of builds
    without \<^verbatim>\<open>EC_LIGHT\<close>.
\<close>

end
